(* ===== verification/Ops_Prelude.thy ===== *)
theory Ops_Prelude
  imports Main "HOL-Library.List_Lexorder" "HOL-Library.Char_ord" "HOL-Library.Product_Lexorder"
begin

text \<open>
  Shared vocabulary of the development: Go strings as byte lists, the functions of Go's
  \<^verbatim>\<open>strings\<close>, \<^verbatim>\<open>strconv\<close>, \<^verbatim>\<open>sort\<close> and \<^verbatim>\<open>path\<close> packages that the daemon uses, results with
  an error alternative, and the lemmas on them that the component theories share.
  Collections: \<open>str_simps\<close> (rewriting of string operations), \<open>canon_simps\<close> (canonical
  sets), \<open>result_simps\<close> (results).
\<close>

named_theorems str_simps
named_theorems canon_simps
named_theorems result_simps

subsection \<open>Results\<close>

text \<open>A Go pair \<^verbatim>\<open>(value, error)\<close>: \<open>Inl\<close> is the non-nil error, \<open>Inr\<close> the value.\<close>

definition rbind :: "'e + 'a \<Rightarrow> ('a \<Rightarrow> 'e + 'b) \<Rightarrow> 'e + 'b" where
  "rbind r f = (case r of Inl e \<Rightarrow> Inl e | Inr a \<Rightarrow> f a)"

lemma rbind_simps [simp, result_simps]:
  "rbind (Inl e) f = Inl e"
  "rbind (Inr a) f = f a"
  by (simp_all add: rbind_def)

lemma rbind_Inr_iff [result_simps]:
  "rbind r f = Inr b \<longleftrightarrow> (\<exists>a. r = Inr a \<and> f a = Inr b)"
  by (cases r) simp_all

subsection \<open>Prefixes and suffixes (strings.HasPrefix, TrimPrefix, HasSuffix, TrimSuffix)\<close>

definition has_prefix :: "'a list \<Rightarrow> 'a list \<Rightarrow> bool" where
  "has_prefix s p = (take (length p) s = p)"

definition has_suffix :: "'a list \<Rightarrow> 'a list \<Rightarrow> bool" where
  "has_suffix s p = (length p \<le> length s \<and> drop (length s - length p) s = p)"

definition trim_prefix :: "'a list \<Rightarrow> 'a list \<Rightarrow> 'a list" where
  "trim_prefix s p = (if has_prefix s p then drop (length p) s else s)"

definition trim_suffix :: "'a list \<Rightarrow> 'a list \<Rightarrow> 'a list" where
  "trim_suffix s p = (if has_suffix s p then take (length s - length p) s else s)"

lemma has_prefix_iff: "has_prefix s p \<longleftrightarrow> (\<exists>r. s = p @ r)"
proof
  assume "has_prefix s p"
  then have "s = p @ drop (length p) s"
    by (metis append_take_drop_id has_prefix_def)
  then show "\<exists>r. s = p @ r" by blast
qed (auto simp: has_prefix_def)

lemma has_suffix_iff: "has_suffix s p \<longleftrightarrow> (\<exists>r. s = r @ p)"
proof
  assume "has_suffix s p"
  then have "s = take (length s - length p) s @ p"
    by (metis append_take_drop_id has_suffix_def)
  then show "\<exists>r. s = r @ p" by blast
qed (auto simp: has_suffix_def)

lemma has_prefix_Nil [simp, str_simps]: "has_prefix s []"
  by (simp add: has_prefix_def)

lemma has_prefix_Cons_Nil [simp, str_simps]: "\<not> has_prefix [] (c # p)"
  by (simp add: has_prefix_def)

lemma has_prefix_Cons_Cons [simp, str_simps]:
  "has_prefix (a # s) (c # p) \<longleftrightarrow> a = c \<and> has_prefix s p"
  by (auto simp: has_prefix_def)

lemma has_prefix_append [simp, str_simps]: "has_prefix (p @ s) p"
  by (simp add: has_prefix_def)

lemma trim_prefix_append [simp, str_simps]: "trim_prefix (p @ s) p = s"
  by (simp add: trim_prefix_def)

lemma has_suffix_append [simp, str_simps]: "has_suffix (s @ p) p"
  by (simp add: has_suffix_def)

lemma trim_suffix_append [simp, str_simps]: "trim_suffix (s @ p) p = s"
  by (simp add: trim_suffix_def)

subsection \<open>Search (strings.Contains, Index, LastIndexByte, Count)\<close>

fun str_index :: "'a list \<Rightarrow> 'a list \<Rightarrow> nat option" where
  "str_index s p =
     (if has_prefix s p then Some 0
      else case s of [] \<Rightarrow> None | _ # s' \<Rightarrow> map_option Suc (str_index s' p))"

declare str_index.simps [simp del]

definition str_contains :: "'a list \<Rightarrow> 'a list \<Rightarrow> bool" where
  "str_contains s p = (str_index s p \<noteq> None)"

lemma str_contains_Nil: "str_contains [] p \<longleftrightarrow> p = []"
  by (cases p) (simp_all add: str_contains_def str_index.simps [of "[]"])

lemma str_contains_Cons: "str_contains (c # s) p \<longleftrightarrow> has_prefix (c # s) p \<or> str_contains s p"
  by (auto simp: str_contains_def str_index.simps [of "c # s"])

lemma str_contains_iff: "str_contains s p \<longleftrightarrow> (\<exists>a b. s = a @ p @ b)"
proof (induction s)
  case Nil
  then show ?case by (simp add: str_contains_Nil)
next
  case (Cons c s)
  have "(\<exists>a b. c # s = a @ p @ b) \<longleftrightarrow> (\<exists>b. c # s = p @ b) \<or> (\<exists>a b. s = a @ p @ b)"
    (is "?L \<longleftrightarrow> ?R")
  proof
    assume ?L
    then obtain a b where "c # s = a @ p @ b" by blast
    then show ?R by (cases a) auto
  next
    assume ?R
    then show ?L by (metis append_Cons append_Nil)
  qed
  with Cons show ?case by (simp add: str_contains_Cons has_prefix_iff)
qed

fun last_index :: "'a \<Rightarrow> 'a list \<Rightarrow> nat option" where
  "last_index c [] = None"
| "last_index c (x # xs) =
     (case last_index c xs of Some i \<Rightarrow> Some (Suc i)
      | None \<Rightarrow> if x = c then Some 0 else None)"

lemma last_index_None [simp, str_simps]: "last_index c xs = None \<longleftrightarrow> c \<notin> set xs"
  by (induction xs) (auto split: option.splits)

lemma last_index_Some:
  "last_index c xs = Some i \<Longrightarrow> i < length xs \<and> xs ! i = c \<and> c \<notin> set (drop (Suc i) xs)"
  by (induction xs arbitrary: i) (auto split: option.splits if_splits)

subsection \<open>Joining and splitting (strings.Join, strings.Split)\<close>

fun str_join :: "'a list \<Rightarrow> 'a list list \<Rightarrow> 'a list" where
  "str_join d [] = []"
| "str_join d [x] = x"
| "str_join d (x # y # zs) = x @ d @ str_join d (y # zs)"

text \<open>\<^verbatim>\<open>strings.Split\<close> with a one-byte separator: it never returns an empty slice.\<close>

fun split_on :: "'a \<Rightarrow> 'a list \<Rightarrow> 'a list list" where
  "split_on d [] = [[]]"
| "split_on d (c # cs) =
     (if c = d then [] # split_on d cs
      else case split_on d cs of [] \<Rightarrow> [[c]] | w # ws \<Rightarrow> (c # w) # ws)"

lemma split_on_not_Nil [simp, str_simps]: "split_on d s \<noteq> []"
  by (induction s) (auto split: list.splits)

lemma str_join_Cons: "ws \<noteq> [] \<Longrightarrow> str_join d (w # ws) = w @ d @ str_join d ws"
  by (cases ws) simp_all

lemma str_join_split_on [simp, str_simps]: "str_join [d] (split_on d s) = s"
proof (induction s)
  case (Cons c s)
  obtain w ws where s: "split_on d s = w # ws"
    by (meson neq_Nil_conv split_on_not_Nil)
  with Cons show ?case by (cases ws) auto
qed simp

lemma split_on_no_sep: "w \<in> set (split_on d s) \<Longrightarrow> d \<notin> set w"
proof (induction s arbitrary: w)
  case (Cons c s)
  obtain v vs where s: "split_on d s = v # vs"
    by (meson neq_Nil_conv split_on_not_Nil)
  with Cons show ?case by (auto split: if_splits)
qed simp

lemma split_on_absent: "d \<notin> set w \<Longrightarrow> split_on d w = [w]"
  by (induction w) auto

lemma split_on_append: "d \<notin> set w \<Longrightarrow> split_on d (w @ d # s) = w # split_on d s"
  by (induction w) auto

lemma split_on_str_join:
  "ws \<noteq> [] \<Longrightarrow> \<forall>w \<in> set ws. d \<notin> set w \<Longrightarrow> split_on d (str_join [d] ws) = ws"
proof (induction ws)
  case (Cons w ws)
  then show ?case
    by (cases ws) (simp_all add: split_on_absent split_on_append)
qed simp

lemma set_split_on: "\<Union> (set ` set (split_on d s)) \<subseteq> set s"
proof (induction s)
  case (Cons c s)
  obtain w ws where s: "split_on d s = w # ws"
    by (meson neq_Nil_conv split_on_not_Nil)
  with Cons show ?case by (auto split: if_splits)
qed simp

lemma split_on_split:
  "split_on d (a @ d # b) = split_on d a @ split_on d b"
proof (induction a)
  case (Cons c a)
  obtain w ws where s: "split_on d a = w # ws"
    by (meson neq_Nil_conv split_on_not_Nil)
  with Cons show ?case by simp
qed simp

subsection \<open>ASCII case folding and white space\<close>

text \<open>
  \<^verbatim>\<open>strings.ToLower\<close> on the ASCII range. Bytes from 128 up are left as they are; Go maps
  the non-ASCII letters too, and the daemon folds host names and header values only.
\<close>

definition lower_char :: "char \<Rightarrow> char" where
  "lower_char c = (if 65 \<le> (of_char c :: nat) \<and> (of_char c :: nat) \<le> 90
                   then char_of ((of_char c :: nat) + 32) else c)"

definition to_lower :: "string \<Rightarrow> string" where
  "to_lower s = map lower_char s"

lemma lower_char_idem [simp]: "lower_char (lower_char c) = lower_char c"
  by (simp add: lower_char_def)

lemma to_lower_idem [simp, str_simps]: "to_lower (to_lower s) = to_lower s"
  by (simp add: to_lower_def)

lemma length_to_lower [simp, str_simps]: "length (to_lower s) = length s"
  by (simp add: to_lower_def)

text \<open>
  \<^verbatim>\<open>strings.EqualFold\<close> on the ASCII range. The code folds hosts, methods and header names with it; the
  folding of letters beyond ASCII is not modelled.
\<close>

definition equal_fold :: "string \<Rightarrow> string \<Rightarrow> bool" where
  "equal_fold a b = (to_lower a = to_lower b)"

definition byte :: "nat \<Rightarrow> char" where
  "byte n = char_of n"

text \<open>
  \<^verbatim>\<open>unicode.IsSpace\<close> runes in UTF-8: the length in bytes of a white-space rune at the head
  of a byte string, 0 when there is none.
\<close>

definition space_len :: "string \<Rightarrow> nat" where
  "space_len s = (case map of_char (take 3 s) :: nat list of
       [] \<Rightarrow> 0
     | a # r \<Rightarrow>
        if (9 \<le> a \<and> a \<le> 13) \<or> a = 32 then 1
        else case r of
            [] \<Rightarrow> 0
          | b # r' \<Rightarrow>
             if a = 0xC2 \<and> (b = 0x85 \<or> b = 0xA0) then 2
             else case r' of
                 [] \<Rightarrow> 0
               | c # _ \<Rightarrow>
                  if (a = 0xE1 \<and> b = 0x9A \<and> c = 0x80) \<or>
                     (a = 0xE2 \<and> b = 0x80 \<and> (0x80 \<le> c \<and> c \<le> 0x8A \<or> c = 0xA8 \<or> c = 0xA9 \<or> c = 0xAF)) \<or>
                     (a = 0xE2 \<and> b = 0x81 \<and> c = 0x9F) \<or>
                     (a = 0xE3 \<and> b = 0x80 \<and> c = 0x80)
                  then 3 else 0)"

lemma space_len_le: "space_len s \<le> length s"
  by (cases s; cases "tl s"; cases "tl (tl s)") (auto simp: space_len_def)

function trim_left :: "string \<Rightarrow> string" where
  "trim_left s = (if space_len s = 0 then s else trim_left (drop (space_len s) s))"
  by pat_completeness auto
termination
proof (relation "measure length")
  fix s :: string
  assume a: "space_len s \<noteq> 0"
  with space_len_le [of s] have "s \<noteq> []" by auto
  with a show "(drop (space_len s) s, s) \<in> measure length" by simp
qed simp

declare trim_left.simps [simp del]

text \<open>The number of bytes of a white-space rune at the end of a string.\<close>

definition space_tail :: "string \<Rightarrow> nat" where
  "space_tail s =
     (if s \<noteq> [] \<and> space_len (drop (length s - 1) s) = 1 then 1
      else if 2 \<le> length s \<and> space_len (drop (length s - 2) s) = 2 then 2
      else if 3 \<le> length s \<and> space_len (drop (length s - 3) s) = 3 then 3
      else 0)"

function trim_right :: "string \<Rightarrow> string" where
  "trim_right s = (if space_tail s = 0 then s else trim_right (take (length s - space_tail s) s))"
  by pat_completeness auto
termination
proof (relation "measure length")
  fix s :: string
  assume "space_tail s \<noteq> 0"
  then show "(take (length s - space_tail s) s, s) \<in> measure length"
    by (cases s) (auto simp: space_tail_def split: if_splits)
qed simp

declare trim_right.simps [simp del]

definition trim_space :: "string \<Rightarrow> string" where
  "trim_space s = trim_right (trim_left s)"

lemma trim_space_Nil [simp, str_simps]: "trim_space [] = []"
  by (simp add: trim_space_def trim_left.simps [of "[]"] trim_right.simps [of "[]"]
      space_len_def space_tail_def)

subsection \<open>Decimal numerals (strconv.Itoa, \%d)\<close>

definition digit_char :: "nat \<Rightarrow> char" where
  "digit_char d = char_of (48 + d)"

definition is_digit :: "char \<Rightarrow> bool" where
  "is_digit c = (48 \<le> (of_char c :: nat) \<and> (of_char c :: nat) \<le> 57)"

fun dec :: "nat \<Rightarrow> string" where
  "dec n = (if n < 10 then [digit_char n] else dec (n div 10) @ [digit_char (n mod 10)])"

declare dec.simps [simp del]

lemma of_char_digit_char [simp]: "d < 10 \<Longrightarrow> (of_char (digit_char d) :: nat) = 48 + d"
  by (simp add: digit_char_def)

lemma is_digit_digit_char [simp]: "d < 10 \<Longrightarrow> is_digit (digit_char d)"
  by (simp add: is_digit_def)

lemma digit_char_inj: "a < 10 \<Longrightarrow> b < 10 \<Longrightarrow> digit_char a = digit_char b \<Longrightarrow> a = b"
  by (metis add_left_cancel of_char_digit_char)

lemma dec_not_Nil [simp]: "dec n \<noteq> []"
  by (subst dec.simps) simp

lemma dec_digits: "c \<in> set (dec n) \<Longrightarrow> is_digit c"
proof (induction n rule: dec.induct)
  case (1 n)
  then show ?case
    by (cases "n < 10") (auto simp: dec.simps [of n])
qed

lemma dec_inj: "dec m = dec n \<Longrightarrow> m = n"
proof (induction m arbitrary: n rule: dec.induct)
  case (1 m)
  have nn: "\<And>k. dec k \<noteq> []" by simp
  show ?case
  proof (cases "m < 10"; cases "n < 10")
    assume "m < 10" "n < 10"
    with "1.prems" show ?thesis
      by (simp add: dec.simps [of m] dec.simps [of n] digit_char_inj)
  next
    assume a: "m < 10" "\<not> n < 10"
    with "1.prems" have "[digit_char m] = dec (n div 10) @ [digit_char (n mod 10)]"
      by (simp add: dec.simps [of m] dec.simps [of n])
    then show ?thesis using nn [of "n div 10"] by simp
  next
    assume a: "\<not> m < 10" "n < 10"
    with "1.prems" have "dec (m div 10) @ [digit_char (m mod 10)] = [digit_char n]"
      by (simp add: dec.simps [of m] dec.simps [of n])
    then show ?thesis using nn [of "m div 10"] by simp
  next
    assume a: "\<not> m < 10" "\<not> n < 10"
    with "1.prems" have eq: "dec (m div 10) = dec (n div 10)"
      "digit_char (m mod 10) = digit_char (n mod 10)"
      by (simp_all add: dec.simps [of m] dec.simps [of n])
    from "1.IH" [OF a(1) eq(1)] have "m div 10 = n div 10" .
    moreover from eq(2) have "m mod 10 = n mod 10"
      using digit_char_inj [of "m mod 10" "n mod 10"] by simp
    ultimately show ?thesis by (metis div_mult_mod_eq)
  qed
qed

text \<open>A run of digits followed by a non-digit splits in one way only.\<close>

lemma digit_run_unique:
  assumes "\<forall>c \<in> set a. is_digit c" "\<forall>c \<in> set b. is_digit c"
    and "\<not> is_digit x" "\<not> is_digit y" and "a @ x # r = b @ y # s"
  shows "a = b \<and> x = y \<and> r = s"
  using assms
proof (induction a arbitrary: b)
  case Nil
  then show ?case by (cases b) auto
next
  case (Cons c a)
  then show ?case by (cases b) auto
qed

lemma dec_sep_inj:
  assumes "\<not> is_digit x" and "dec m @ x # r = dec n @ x # s"
  shows "m = n \<and> r = s"
  using digit_run_unique [of "dec m" "dec n" x x r s] assms dec_digits dec_inj by blast

subsection \<open>Canonical sets (sort.Strings after de-duplication)\<close>

text \<open>
  The loop of \<^verbatim>\<open>sortedSet\<close>: keep the first occurrence of every element, in order. The
  argument \<open>seen\<close> is the Go map of the elements met so far.
\<close>

fun dedup :: "'a list \<Rightarrow> 'a list \<Rightarrow> 'a list" where
  "dedup seen [] = []"
| "dedup seen (v # vs) = (if v \<in> set seen then dedup seen vs else v # dedup (v # seen) vs)"

lemma set_dedup [simp, canon_simps]: "set (dedup seen xs) = set xs - set seen"
  by (induction xs arbitrary: seen) auto

lemma distinct_dedup [simp, canon_simps]: "distinct (dedup seen xs)"
  by (induction xs arbitrary: seen) auto

lemma dedup_distinct:
  "distinct xs \<Longrightarrow> set xs \<inter> set seen = {} \<Longrightarrow> dedup seen xs = xs"
  by (induction xs arbitrary: seen) auto

definition canon :: "'a::linorder list \<Rightarrow> 'a list" where
  "canon xs = sort (dedup [] xs)"

lemma set_canon [simp, canon_simps]: "set (canon xs) = set xs"
  by (simp add: canon_def)

lemma sorted_canon [simp, canon_simps]: "sorted (canon xs)"
  by (simp add: canon_def)

lemma distinct_canon [simp, canon_simps]: "distinct (canon xs)"
  by (simp add: canon_def)

lemma canon_unique: "set xs = set ys \<Longrightarrow> canon xs = canon ys"
  by (simp add: sorted_distinct_set_unique)

lemma canon_eq_iff: "canon xs = canon ys \<longleftrightarrow> set xs = set ys"
  by (metis canon_unique set_canon)

lemma canon_idem [simp, canon_simps]: "canon (canon xs) = canon xs"
  by (rule canon_unique) simp

lemma canon_Nil [simp, canon_simps]: "canon xs = [] \<longleftrightarrow> xs = []"
  by (metis set_canon set_empty)

lemma sort_key_Nil_iff [simp, canon_simps]: "sort_key k xs = [] \<longleftrightarrow> xs = []"
  by (metis length_0_conv length_sort)

lemma sort_key_sort_key [simp, canon_simps]: "sort_key k (sort_key k xs) = sort_key k xs"
  by (rule sort_key_id_if_sorted) simp

text \<open>Sorting a duplicate-free list by an injective key forgets the order of the input.\<close>

lemma sort_key_unique:
  assumes "distinct xs" "distinct ys" "set xs = set ys" "inj_on k (set xs)"
  shows "sort_key k xs = sort_key k ys"
proof (rule map_sorted_distinct_set_unique [where f = k])
  show "inj_on k (set (sort_key k xs) \<union> set (sort_key k ys))" using assms(3,4) by simp
  show "sorted (map k (sort_key k xs))" "sorted (map k (sort_key k ys))"
    by simp_all
  show "distinct (map k (sort_key k xs))" "distinct (map k (sort_key k ys))"
    using assms by (simp_all add: distinct_map)
  show "set (sort_key k xs) = set (sort_key k ys)" using assms(3) by simp
qed

subsection \<open>Association lists as Go maps with ordered traversal\<close>

text \<open>
  A Go map whose keys the code sorts before use: update replaces the entry in place or
  appends it, delete removes every entry of the key.
\<close>

fun al_put :: "'k \<Rightarrow> 'v \<Rightarrow> ('k \<times> 'v) list \<Rightarrow> ('k \<times> 'v) list" where
  "al_put k v [] = [(k, v)]"
| "al_put k v ((k', v') # r) = (if k = k' then (k, v) # r else (k', v') # al_put k v r)"

definition al_del :: "'k \<Rightarrow> ('k \<times> 'v) list \<Rightarrow> ('k \<times> 'v) list" where
  "al_del k m = filter (\<lambda>e. fst e \<noteq> k) m"

lemma map_of_al_put [simp]: "map_of (al_put k v m) = (map_of m)(k \<mapsto> v)"
  by (induction m) auto

lemma map_of_al_del [simp]: "map_of (al_del k m) = (map_of m)(k := None)"
  by (induction m) (auto simp: al_del_def)

lemma keys_al_put: "set (map fst (al_put k v m)) = insert k (set (map fst m))"
  by (induction k v m rule: al_put.induct) auto

lemma distinct_al_put: "distinct (map fst m) \<Longrightarrow> distinct (map fst (al_put k v m))"
  by (induction k v m rule: al_put.induct) (auto simp: keys_al_put simp del: set_map)

lemma distinct_al_del: "distinct (map fst m) \<Longrightarrow> distinct (map fst (al_del k m))"
  by (induction m) (auto simp: al_del_def)

end
