(* ===== verification/Go_Json.thy ===== *)
theory Go_Json
  imports Ops_Prelude
begin

text \<open>
  The output side of Go's \<^verbatim>\<open>encoding/json\<close> as the daemon uses it: \<open>jenc\<close> is \<^verbatim>\<open>json.Marshal\<close> on
  a tree of values (struct fields in declaration order, map keys sorted by \<open>jsort\<close>, HTML
  escaping on, invalid UTF-8 replaced by U+FFFD). The main lemma is \<open>jenc_inj\<close>: on values
  whose strings are valid UTF-8 the encoding is self-delimiting and injective, which is what
  makes a hash over a JSON preimage commit to the value.
\<close>

subsection \<open>UTF-8 (unicode/utf8)\<close>

definition u8_cont :: "nat \<Rightarrow> bool" where
  "u8_cont b = (0x80 \<le> b \<and> b \<le> 0xBF)"

definition u8_lead3 :: "nat \<Rightarrow> nat \<Rightarrow> bool" where
  "u8_lead3 a b = ((a = 0xE0 \<and> 0xA0 \<le> b \<and> b \<le> 0xBF) \<or> (0xE1 \<le> a \<and> a \<le> 0xEC \<and> u8_cont b) \<or>
     (a = 0xED \<and> 0x80 \<le> b \<and> b \<le> 0x9F) \<or> (0xEE \<le> a \<and> a \<le> 0xEF \<and> u8_cont b))"

definition u8_lead4 :: "nat \<Rightarrow> nat \<Rightarrow> bool" where
  "u8_lead4 a b = ((a = 0xF0 \<and> 0x90 \<le> b \<and> b \<le> 0xBF) \<or> (0xF1 \<le> a \<and> a \<le> 0xF3 \<and> u8_cont b) \<or>
     (a = 0xF4 \<and> 0x80 \<le> b \<and> b \<le> 0x8F))"

text \<open>Length of the valid UTF-8 sequence at the head of a byte list, 0 when it is invalid.\<close>

definition u8_nth :: "nat list \<Rightarrow> nat \<Rightarrow> nat" where
  "u8_nth xs i = (if i < length xs then xs ! i else 0)"

definition u8_len :: "nat list \<Rightarrow> nat" where
  "u8_len xs =
     (let a = u8_nth xs 0; b = u8_nth xs 1; c = u8_nth xs 2; d = u8_nth xs 3
      in if xs = [] then 0
         else if a < 0x80 then 1
         else if 0xC2 \<le> a \<and> a \<le> 0xDF \<and> u8_cont b then 2
         else if u8_lead3 a b \<and> u8_cont c then 3
         else if u8_lead4 a b \<and> u8_cont c \<and> u8_cont d then 4
         else 0)"

definition rune_len :: "string \<Rightarrow> nat" where
  "rune_len s = u8_len (map of_char s)"

lemma u8_nth_append: "i < length xs \<Longrightarrow> u8_nth (xs @ ys) i = u8_nth xs i"
  by (simp add: u8_nth_def nth_append)

lemma u8_nth_pos: "u8_cont (u8_nth xs i) \<Longrightarrow> i < length xs"
  by (auto simp: u8_nth_def u8_cont_def split: if_splits)

lemma u8_lead_pos:
  "u8_lead3 a (u8_nth xs i) \<Longrightarrow> i < length xs"
  "u8_lead4 a (u8_nth xs i) \<Longrightarrow> i < length xs"
  by (auto simp: u8_nth_def u8_cont_def u8_lead3_def u8_lead4_def split: if_splits)

lemma u8_len_le: "u8_len xs \<le> length xs"
proof -
  have l: "xs \<noteq> [] \<Longrightarrow> 1 \<le> length xs" by (cases xs) auto
  note n = u8_nth_pos [of xs 1] u8_nth_pos [of xs 2] u8_nth_pos [of xs 3]
  show ?thesis using l n by (auto simp: u8_len_def Let_def)
qed

lemma rune_len_le: "rune_len s \<le> length s"
  using u8_len_le [of "map of_char s"] by (simp add: rune_len_def)

lemma u8_lead_excl:
  "u8_lead3 a b \<Longrightarrow> 0xE0 \<le> a \<and> a \<le> 0xEF"
  "u8_lead4 a b \<Longrightarrow> 0xF0 \<le> a \<and> a \<le> 0xF4"
  by (auto simp: u8_lead3_def u8_lead4_def)

lemma u8_len_append:
  assumes "u8_len xs = length xs" and "xs \<noteq> []"
  shows "u8_len (xs @ ys) = length xs"
proof -
  let ?a = "u8_nth xs 0" and ?b = "u8_nth xs 1" and ?c = "u8_nth xs 2" and ?d = "u8_nth xs 3"
  have a: "u8_nth (xs @ ys) 0 = ?a" using assms(2) by (simp add: u8_nth_append)
  consider (one) "?a < 0x80" "length xs = 1"
    | (two) "0xC2 \<le> ?a" "?a \<le> 0xDF" "u8_cont ?b" "length xs = 2"
    | (three) "u8_lead3 ?a ?b" "u8_cont ?c" "length xs = 3"
    | (four) "u8_lead4 ?a ?b" "u8_cont ?c" "u8_cont ?d" "length xs = 4"
    using assms by (auto simp: u8_len_def Let_def split: if_splits)
  then show ?thesis
  proof cases
    case one
    with a assms(2) show ?thesis by (simp add: u8_len_def)
  next
    case two
    then have "u8_nth (xs @ ys) 1 = ?b" by (simp add: u8_nth_append)
    with two a assms(2) show ?thesis by (simp add: u8_len_def)
  next
    case three
    then have "u8_nth (xs @ ys) 1 = ?b" "u8_nth (xs @ ys) 2 = ?c" by (simp_all add: u8_nth_append)
    with three a assms(2) u8_lead_excl(1) [OF three(1)] show ?thesis by (simp add: u8_len_def)
  next
    case four
    then have "u8_nth (xs @ ys) 1 = ?b" "u8_nth (xs @ ys) 2 = ?c" "u8_nth (xs @ ys) 3 = ?d"
      by (simp_all add: u8_nth_append)
    moreover have "\<not> u8_lead3 ?a ?b" using u8_lead_excl [of ?a ?b] four(1) by auto
    ultimately show ?thesis using four a assms(2) u8_lead_excl(2) [OF four(1)]
      by (simp add: u8_len_def)
  qed
qed

text \<open>A byte string that \<^verbatim>\<open>utf8.ValidString\<close> accepts.\<close>

function valid_utf8 :: "string \<Rightarrow> bool" where
  "valid_utf8 s =
     (if s = [] then True
      else if rune_len s = 0 then False
      else valid_utf8 (drop (rune_len s) s))"
  by pat_completeness auto
termination
  by (relation "measure length") auto

declare valid_utf8.simps [simp del]

lemma valid_utf8_Nil [simp]: "valid_utf8 []"
  by (simp add: valid_utf8.simps)

definition ascii :: "string \<Rightarrow> bool" where
  "ascii s = (\<forall>c \<in> set s. (of_char c :: nat) < 128)"

lemma rune_len_ascii: "(of_char c :: nat) < 128 \<Longrightarrow> rune_len (c # s) = 1"
  by (simp add: rune_len_def u8_len_def u8_nth_def)

lemma valid_utf8_ascii_Cons [simp]:
  "(of_char c :: nat) < 128 \<Longrightarrow> valid_utf8 (c # s) \<longleftrightarrow> valid_utf8 s"
  by (subst valid_utf8.simps) (simp add: rune_len_ascii)

lemma ascii_valid_utf8: "ascii s \<Longrightarrow> valid_utf8 s"
  by (induction s) (simp_all add: ascii_def)

subsection \<open>String escaping\<close>

definition hex_digit :: "nat \<Rightarrow> char" where
  "hex_digit d = char_of (if d < 10 then 48 + d else 87 + d)"

definition hex_val :: "char \<Rightarrow> nat" where
  "hex_val c = (let n = of_char c in if n \<le> 57 then n - 48 else n - 87)"

lemma hex_val_digit [simp]: "d < 16 \<Longrightarrow> hex_val (hex_digit d) = d"
  by (auto simp: hex_digit_def hex_val_def Let_def)

definition bslash :: char where "bslash = CHR 0x5C"
definition dquote :: char where "dquote = CHR 0x22"

definition u_escape :: "nat \<Rightarrow> string" where
  "u_escape n = [bslash, CHR ''u'', hex_digit (n div 4096 mod 16), hex_digit (n div 256 mod 16),
     hex_digit (n div 16 mod 16), hex_digit (n mod 16)]"

text \<open>One ASCII byte under \<^verbatim>\<open>htmlSafeSet\<close>.\<close>

definition esc_ascii :: "char \<Rightarrow> string" where
  "esc_ascii c =
     (let n = of_char c :: nat in
      if n = 0x22 \<or> n = 0x5C then [bslash, c]
      else if n = 8 then [bslash, CHR ''b'']
      else if n = 12 then [bslash, CHR ''f'']
      else if n = 10 then [bslash, CHR ''n'']
      else if n = 13 then [bslash, CHR ''r'']
      else if n = 9 then [bslash, CHR ''t'']
      else if n < 0x20 \<or> n = 0x3C \<or> n = 0x3E \<or> n = 0x26 then u_escape n
      else [c])"

definition rune_2028 :: string where "rune_2028 = [byte 0xE2, byte 0x80, byte 0xA8]"
definition rune_2029 :: string where "rune_2029 = [byte 0xE2, byte 0x80, byte 0xA9]"

definition esc_rune :: "string \<Rightarrow> string" where
  "esc_rune r =
     (case r of [] \<Rightarrow> u_escape 0xFFFD
      | c # cs \<Rightarrow> if (of_char c :: nat) < 128 then esc_ascii c
                  else if r = rune_2028 then u_escape 0x2028
                  else if r = rune_2029 then u_escape 0x2029
                  else r)"

function jesc :: "string \<Rightarrow> string" where
  "jesc s =
     (if s = [] then []
      else esc_rune (take (rune_len s) s) @ jesc (drop (max 1 (rune_len s)) s))"
  by pat_completeness auto
termination
  by (relation "measure length") auto

declare jesc.simps [simp del]

lemma jesc_Nil [simp]: "jesc [] = []"
  by (simp add: jesc.simps)

definition jstr :: "string \<Rightarrow> string" where
  "jstr s = dquote # jesc s @ [dquote]"

subsection \<open>Reading one escaped rune back\<close>

text \<open>
  \<open>unesc\<close> returns the rune an escaped text starts with. It is used in proofs only: it shows
  that the code of one rune is not a prefix of the code of another.
\<close>

definition unesc :: "string \<Rightarrow> string" where
  "unesc s =
     (if hd s = bslash then
        (let b = s ! 1 in
         if b = CHR ''b'' then [byte 8] else if b = CHR ''f'' then [byte 12]
         else if b = CHR ''n'' then [byte 10] else if b = CHR ''r'' then [byte 13]
         else if b = CHR ''t'' then [byte 9]
         else if b = CHR ''u'' then
           (let n = 4096 * hex_val (s ! 2) + 256 * hex_val (s ! 3) + 16 * hex_val (s ! 4) + hex_val (s ! 5)
            in if n = 0x2028 then rune_2028 else if n = 0x2029 then rune_2029 else [byte n])
         else [b])
      else take (rune_len s) s)"

definition is_rune :: "string \<Rightarrow> bool" where
  "is_rune r = (r \<noteq> [] \<and> rune_len r = length r)"

lemma of_char_byte [simp]: "n < 256 \<Longrightarrow> (of_char (byte n) :: nat) = n"
  by (simp add: byte_def)

lemma byte_of_char [simp]: "byte (of_char c) = c"
  by (simp add: byte_def)

lemma byte_eq_iff: "m < 256 \<Longrightarrow> n < 256 \<Longrightarrow> byte m = byte n \<longleftrightarrow> m = n"
  by (metis of_char_byte)

lemma byte_quotes [simp]: "byte 0x22 = dquote" "byte 0x5C = bslash"
  by (simp_all add: byte_def bslash_def dquote_def char_of_def bit_iff_odd)

lemma eq_byte_iff: "n < 256 \<Longrightarrow> c = byte n \<longleftrightarrow> (of_char c :: nat) = n"
  by (metis byte_of_char of_char_byte)

lemma quotes_iff:
  "c = dquote \<longleftrightarrow> (of_char c :: nat) = 0x22" "c = bslash \<longleftrightarrow> (of_char c :: nat) = 0x5C"
  using eq_byte_iff [of 34 c] eq_byte_iff [of 92 c] by simp_all

lemma hex4:
  assumes "n < 65536"
  shows "4096 * (n div 4096 mod 16) + 256 * (n div 256 mod 16) +
    16 * (n div 16 mod 16) + n mod 16 = (n::nat)"
proof -
  have n: "n mod (4096 * 16) = n" using assms by simp
  have a: "4096 * (n div 4096 mod 16) + n mod 4096 = n"
    by (rule trans [OF mod_mult2_eq [symmetric] n])
  have b: "256 * (n div 256 mod 16) + n mod 256 = n mod 4096"
    using mod_mult2_eq [of n 256 16, symmetric] by (simp only: mult_numeral_1) simp
  have c: "16 * (n div 16 mod 16) + n mod 16 = n mod 256"
    using mod_mult2_eq [of n 16 16, symmetric] by (simp only: mult_numeral_1) simp
  show ?thesis by (simp only: add.assoc a b c)
qed

lemma unesc_u_escape:
  assumes "n < 65536"
  shows "unesc (u_escape n @ x) =
     (if n = 0x2028 then rune_2028 else if n = 0x2029 then rune_2029 else [byte n])"
proof -
  let ?y = "u_escape n @ x"
  have h: "hd ?y = bslash" "?y ! 1 = CHR ''u''"
    and d: "?y ! 2 = hex_digit (n div 4096 mod 16)" "?y ! 3 = hex_digit (n div 256 mod 16)"
      "?y ! 4 = hex_digit (n div 16 mod 16)" "?y ! 5 = hex_digit (n mod 16)"
    by (simp_all add: u_escape_def)
  have m: "n div 4096 mod 16 < 16" "n div 256 mod 16 < 16" "n div 16 mod 16 < 16" "n mod 16 < 16"
    by simp_all
  show ?thesis
    unfolding unesc_def Let_def h d hex_val_digit [OF m(1)] hex_val_digit [OF m(2)]
      hex_val_digit [OF m(3)] hex_val_digit [OF m(4)] hex4 [OF assms]
    by simp
qed

lemma is_rune_cases:
  assumes "is_rune r"
  obtains (one) c where "r = [c]" "(of_char c :: nat) < 128"
    | (more) c cs where "r = c # cs" "128 \<le> (of_char c :: nat)"
proof -
  from assms obtain c cs where r: "r = c # cs" by (auto simp: is_rune_def neq_Nil_conv)
  show ?thesis
  proof (cases "(of_char c :: nat) < 128")
    case True
    with assms r have "cs = []" by (simp add: is_rune_def rune_len_ascii)
    with r True one show ?thesis by simp
  next
    case False
    with r more show ?thesis by simp
  qed
qed

lemma unesc_esc_ascii:
  assumes "(of_char c :: nat) < 128"
  shows "unesc (esc_ascii c @ x) = [c]"
proof -
  let ?n = "of_char c :: nat"
  consider (q) "?n = 0x22 \<or> ?n = 0x5C" | (b) "?n = 8" | (f) "?n = 12" | (nl) "?n = 10"
    | (r) "?n = 13" | (t) "?n = 9"
    | (u) "?n \<notin> {0x22, 0x5C, 8, 12, 10, 13, 9}" "?n < 0x20 \<or> ?n = 0x3C \<or> ?n = 0x3E \<or> ?n = 0x26"
    | (p) "?n \<notin> {0x22, 0x5C, 8, 12, 10, 13, 9}" "\<not> (?n < 0x20 \<or> ?n = 0x3C \<or> ?n = 0x3E \<or> ?n = 0x26)"
    by blast
  then show ?thesis
  proof cases
    case q
    then have "c = dquote \<or> c = bslash" by (simp add: quotes_iff)
    then show ?thesis by (auto simp: esc_ascii_def unesc_def bslash_def dquote_def)
  next
    case b
    then have "c = byte 8" by (simp add: eq_byte_iff)
    then show ?thesis by (simp add: esc_ascii_def unesc_def)
  next
    case f
    then have "c = byte 12" by (simp add: eq_byte_iff)
    then show ?thesis by (simp add: esc_ascii_def unesc_def)
  next
    case nl
    then have "c = byte 10" by (simp add: eq_byte_iff)
    then show ?thesis by (simp add: esc_ascii_def unesc_def)
  next
    case r
    then have "c = byte 13" by (simp add: eq_byte_iff)
    then show ?thesis by (simp add: esc_ascii_def unesc_def)
  next
    case t
    then have "c = byte 9" by (simp add: eq_byte_iff)
    then show ?thesis by (simp add: esc_ascii_def unesc_def)
  next
    case u
    then have "?n < 65536 \<and> ?n \<noteq> 0x2028 \<and> ?n \<noteq> 0x2029" using assms by auto
    with u show ?thesis by (simp add: esc_ascii_def Let_def unesc_u_escape)
  next
    case p
    then have "c \<noteq> bslash" by (auto simp: quotes_iff)
    with p assms show ?thesis
      by (simp add: esc_ascii_def Let_def unesc_def rune_len_ascii)
  qed
qed

lemma unesc_esc_rune:
  assumes "is_rune r"
  shows "unesc (esc_rune r @ x) = r"
  using assms
proof (cases rule: is_rune_cases)
  case (one c)
  then show ?thesis by (simp add: esc_rune_def unesc_esc_ascii)
next
  case (more c cs)
  have nb: "c \<noteq> bslash" using more by (auto simp: quotes_iff)
  have len: "rune_len (r @ x) = length r"
    using assms u8_len_append [of "map of_char r" "map of_char x"]
    by (simp add: is_rune_def rune_len_def)
  show ?thesis
  proof (cases "r = rune_2028 \<or> r = rune_2029")
    case True
    with more show ?thesis
      by (auto simp: esc_rune_def unesc_u_escape)
  next
    case False
    with more nb len show ?thesis by (simp add: esc_rune_def unesc_def)
  qed
qed

lemma esc_rune_inj:
  assumes "is_rune r" "is_rune q" "esc_rune r @ x = esc_rune q @ y"
  shows "r = q \<and> x = y"
proof -
  from assms have "r = q" by (metis unesc_esc_rune)
  with assms(3) show ?thesis by simp
qed

lemma bslash_not_dquote [simp]: "bslash \<noteq> dquote"
  by (simp add: bslash_def dquote_def)

lemma esc_ascii_head: "esc_ascii c \<noteq> [] \<and> hd (esc_ascii c) \<noteq> dquote"
proof (cases "(of_char c :: nat) = 0x22")
  case False
  then have "c \<noteq> dquote" by (simp add: quotes_iff)
  then show ?thesis by (simp add: esc_ascii_def Let_def u_escape_def)
qed (simp add: esc_ascii_def)

lemma esc_rune_head:
  assumes "is_rune r"
  shows "esc_rune r \<noteq> [] \<and> hd (esc_rune r) \<noteq> dquote"
  using assms
proof (cases rule: is_rune_cases)
  case (one c)
  then show ?thesis by (simp add: esc_rune_def esc_ascii_head)
next
  case (more c cs)
  then have "c \<noteq> dquote" by (auto simp: quotes_iff)
  with more show ?thesis by (simp add: esc_rune_def u_escape_def)
qed

subsection \<open>Quoted strings are self-delimiting\<close>

lemma rune_len_take:
  assumes "rune_len s \<noteq> 0"
  shows "rune_len (take (rune_len s) s) = rune_len s"
proof -
  let ?n = "rune_len s"
  have sub: "u8_nth (take k xs) i = u8_nth xs i" if "i < k" for k i and xs :: "nat list"
    using that by (simp add: u8_nth_def)
  let ?xs = "map of_char s :: nat list"
  let ?a = "u8_nth ?xs 0" and ?b = "u8_nth ?xs 1" and ?c = "u8_nth ?xs 2" and ?d = "u8_nth ?xs 3"
  have ne: "s \<noteq> []" using assms by (auto simp: rune_len_def u8_len_def)
  consider (one) "?a < 0x80" "?n = 1"
    | (two) "\<not> ?a < 0x80" "0xC2 \<le> ?a" "?a \<le> 0xDF" "u8_cont ?b" "?n = 2"
    | (three) "u8_lead3 ?a ?b" "u8_cont ?c" "?n = 3"
    | (four) "u8_lead4 ?a ?b" "u8_cont ?c" "u8_cont ?d" "?n = 4"
    using assms by (auto simp: rune_len_def u8_len_def Let_def split: if_splits)
  then show ?thesis
  proof cases
    case three
    with ne u8_lead_excl(1) [OF three(1)] show ?thesis
      by (simp add: rune_len_def u8_len_def sub flip: take_map)
  next
    case four
    moreover have "\<not> u8_lead3 ?a ?b" using u8_lead_excl [of ?a ?b] four(1) by auto
    ultimately show ?thesis using ne u8_lead_excl(2) [OF four(1)]
      by (simp add: rune_len_def u8_len_def sub flip: take_map)
  qed (use ne in \<open>simp_all add: rune_len_def u8_len_def sub flip: take_map\<close>)
qed

lemma valid_rune:
  assumes "valid_utf8 s" "s \<noteq> []"
  shows "is_rune (take (rune_len s) s)" and "valid_utf8 (drop (rune_len s) s)"
    and "jesc s = esc_rune (take (rune_len s) s) @ jesc (drop (rune_len s) s)"
proof -
  from assms have n: "rune_len s \<noteq> 0" and v: "valid_utf8 (drop (rune_len s) s)"
    by (auto simp: valid_utf8.simps [of s] split: if_splits)
  show "valid_utf8 (drop (rune_len s) s)" by fact
  from n rune_len_take [OF n] rune_len_le [of s] assms(2)
  show "is_rune (take (rune_len s) s)" by (simp add: is_rune_def)
  from n assms(2) show "jesc s = esc_rune (take (rune_len s) s) @ jesc (drop (rune_len s) s)"
    by (subst jesc.simps) (simp add: max_def)
qed

lemma jesc_inj:
  "valid_utf8 s \<Longrightarrow> valid_utf8 t \<Longrightarrow> jesc s @ dquote # x = jesc t @ dquote # y \<Longrightarrow> s = t \<and> x = y"
proof (induction s arbitrary: t rule: valid_utf8.induct)
  case (1 s)
  show ?case
  proof (cases "s = []"; cases "t = []")
    assume "s = []" "t = []"
    with "1.prems" show ?thesis by simp
  next
    assume a: "s = []" "t \<noteq> []"
    with "1.prems" valid_rune [of t] esc_rune_head [of "take (rune_len t) t"] show ?thesis
      by (metis append_Nil append_is_Nil_conv hd_append2 jesc_Nil list.sel(1))
  next
    assume a: "s \<noteq> []" "t = []"
    with "1.prems" valid_rune [of s] esc_rune_head [of "take (rune_len s) s"] show ?thesis
      by (metis append_Nil append_is_Nil_conv hd_append2 jesc_Nil list.sel(1))
  next
    assume a: "s \<noteq> []" "t \<noteq> []"
    note vs = valid_rune [OF "1.prems"(1) a(1)] and vt = valid_rune [OF "1.prems"(2) a(2)]
    from "1.prems"(3) vs(3) vt(3)
    have "esc_rune (take (rune_len s) s) @ (jesc (drop (rune_len s) s) @ dquote # x) =
          esc_rune (take (rune_len t) t) @ (jesc (drop (rune_len t) t) @ dquote # y)"
      by simp
    from esc_rune_inj [OF vs(1) vt(1) this]
    have h: "take (rune_len s) s = take (rune_len t) t"
      and r: "jesc (drop (rune_len s) s) @ dquote # x = jesc (drop (rune_len t) t) @ dquote # y"
      by auto
    from "1.prems"(1) a(1) have "rune_len s \<noteq> 0" by (auto simp: valid_utf8.simps [of s] split: if_splits)
    with "1.IH" a(1) vs(2) vt(2) r have "drop (rune_len s) s = drop (rune_len t) t \<and> x = y"
      by blast
    with h show ?thesis by (metis append_take_drop_id)
  qed
qed

lemma jstr_inj:
  "valid_utf8 s \<Longrightarrow> valid_utf8 t \<Longrightarrow> jstr s @ x = jstr t @ y \<Longrightarrow> s = t \<and> x = y"
  using jesc_inj [of s t x y] by (simp add: jstr_def)

subsection \<open>Values\<close>

datatype jv = JNull | JBool bool | JInt int | JStr string | JArr "jv list"
  | JObj "(string \<times> jv) list"

definition int_dec :: "int \<Rightarrow> string" where
  "int_dec i = (if i < 0 then CHR ''-'' # dec (nat (- i)) else dec (nat i))"

fun jenc :: "jv \<Rightarrow> string" where
  "jenc JNull = ''null''"
| "jenc (JBool b) = (if b then ''true'' else ''false'')"
| "jenc (JInt i) = int_dec i"
| "jenc (JStr s) = jstr s"
| "jenc (JArr vs) = CHR ''['' # str_join '','' (map jenc vs) @ '']''"
| "jenc (JObj kvs) = CHR ''{'' # str_join '','' (map (\<lambda>(k, v). jstr k @ CHR '':'' # jenc v) kvs) @ ''}''"

text \<open>The keys of every Go map are emitted in byte order.\<close>

fun jsort :: "jv \<Rightarrow> jv" where
  "jsort (JArr vs) = JArr (map jsort vs)"
| "jsort (JObj kvs) = JObj (sort_key fst (map (\<lambda>(k, v). (k, jsort v)) kvs))"
| "jsort v = v"

fun jok :: "jv \<Rightarrow> bool" where
  "jok (JStr s) = valid_utf8 s"
| "jok (JArr vs) = (\<forall>v \<in> set vs. jok v)"
| "jok (JObj kvs) = (\<forall>e \<in> set kvs. valid_utf8 (fst e) \<and> jok (snd e))"
| "jok v = True"

definition nodig :: "string \<Rightarrow> bool" where
  "nodig s = (s = [] \<or> \<not> is_digit (hd s))"

lemma int_dec_inj:
  assumes "int_dec i @ x = int_dec j @ y" "nodig x" "nodig y"
  shows "i = j \<and> x = y"
proof -
  have dd: "\<not> is_digit (CHR ''-'')" by (simp add: is_digit_def)
  have hd_dec: "is_digit (hd (dec n))" for n
    by (rule dec_digits [of _ n]) simp
  have nat_eq: "m = n \<and> x = y" if e: "dec m @ x = dec n @ y" for m n
  proof -
    have "dec m @ x @ [CHR ''-''] = dec n @ y @ [CHR ''-'']" using e by simp
    moreover obtain c r where c: "x @ [CHR ''-''] = c # r" "\<not> is_digit c"
      using assms(2) dd by (cases x) (auto simp: nodig_def)
    moreover obtain d s where d: "y @ [CHR ''-''] = d # s" "\<not> is_digit d"
      using assms(3) dd by (cases y) (auto simp: nodig_def)
    ultimately have "dec m @ c # r = dec n @ d # s" by simp
    from digit_run_unique [OF _ _ c(2) d(2) this] have "dec m = dec n"
      using dec_digits by blast
    with e dec_inj show ?thesis by auto
  qed
  have mixed: "\<not> CHR ''-'' # a = dec n @ b" for n a b
    using hd_dec [of n] dd by (cases "dec n") auto
  show ?thesis
    using assms(1) mixed mixed [symmetric]
    by (auto simp: int_dec_def split: if_splits dest: nat_eq)
qed

lemma int_dec_head: "int_dec i \<noteq> [] \<and> (hd (int_dec i) = CHR ''-'' \<or> is_digit (hd (int_dec i)))"
  using dec_digits [of "hd (dec n)" n for n] by (auto simp: int_dec_def)

text \<open>The first byte of an encoding tells the constructor.\<close>

definition jtag :: "jv \<Rightarrow> nat" where
  "jtag v = (case v of JNull \<Rightarrow> 0 | JBool b \<Rightarrow> (if b then 1 else 2) | JInt _ \<Rightarrow> 3 | JStr _ \<Rightarrow> 4
     | JArr _ \<Rightarrow> 5 | JObj _ \<Rightarrow> 6)"

definition ctag :: "char \<Rightarrow> nat" where
  "ctag c = (if c = CHR ''n'' then 0 else if c = CHR ''t'' then 1 else if c = CHR ''f'' then 2
     else if c = CHR ''-'' \<or> is_digit c then 3 else if c = dquote then 4
     else if c = CHR ''['' then 5 else 6)"

lemma jenc_head: "jenc v \<noteq> [] \<and> ctag (hd (jenc v)) = jtag v \<and> hd (jenc v) \<noteq> CHR '']''"
proof (cases v)
  case (JInt i)
  have h: "hd (int_dec i) = CHR ''-'' \<or> is_digit (hd (int_dec i))" "int_dec i \<noteq> []"
    using int_dec_head by blast+
  then have "ctag (hd (int_dec i)) = 3" "hd (int_dec i) \<noteq> CHR '']''"
    by (auto simp: ctag_def is_digit_def)
  with JInt h show ?thesis by (simp add: jtag_def)
qed (simp_all add: ctag_def jtag_def jstr_def dquote_def is_digit_def)

lemma jenc_tag: "jenc a @ x = jenc b @ y \<Longrightarrow> jtag a = jtag b"
  by (metis hd_append2 jenc_head)

subsection \<open>Self-delimiting encoding\<close>

lemma join_inj:
  assumes el: "\<And>a b x y. a \<in> set as \<Longrightarrow> P b \<Longrightarrow> f a @ x = f b @ y \<Longrightarrow> nodig x \<Longrightarrow> nodig y
                 \<Longrightarrow> a = b \<and> x = y"
    and ne: "\<And>a. f a \<noteq> []" and cl: "\<And>a. hd (f a) \<noteq> c"
    and c: "\<not> is_digit c" "c \<noteq> CHR '',''"
    and P: "\<forall>b \<in> set bs. P b"
    and eq: "str_join '','' (map f as) @ c # x = str_join '','' (map f bs) @ c # y"
  shows "as = bs \<and> x = y"
  using el P eq
proof (induction as arbitrary: bs)
  case Nil
  show ?case
  proof (cases bs)
    case (Cons b bs')
    then have "hd (str_join '','' (map f bs)) = hd (f b)" "str_join '','' (map f bs) \<noteq> []"
      using ne [of b] by (cases bs'; simp)+
    with Nil.prems(3) cl [of b] show ?thesis by (cases "str_join '','' (map f bs)") auto
  qed (use Nil in simp)
next
  case (Cons a as)
  have cm: "\<not> is_digit (CHR '','')" by (simp add: is_digit_def)
  show ?case
  proof (cases bs)
    case Nil
    then have "hd (str_join '','' (map f (a # as))) = hd (f a)" "str_join '','' (map f (a # as)) \<noteq> []"
      using ne [of a] by (cases as; simp)+
    with Nil Cons.prems(3) cl [of a] show ?thesis by (cases "str_join '','' (map f (a # as))") auto
  next
    case (Cons b bs')
    define rest where "rest ds z = (if ds = [] then c # z else CHR '','' # str_join '','' (map f ds) @ c # z)"
      for ds z
    have sp: "str_join '','' (map f (d # ds)) @ c # z = f d @ rest ds z" for d ds z
      by (cases ds) (simp_all add: rest_def)
    have nd: "nodig (rest ds z)" for ds z using c cm by (simp add: rest_def nodig_def)
    have "f a @ rest as x = f b @ rest bs' y"
      using Cons.prems(3) Cons sp by metis
    with Cons.prems(1) [of a b] Cons.prems(2) Cons nd have ab: "a = b" and r: "rest as x = rest bs' y"
      by auto
    have "as = bs' \<and> x = y"
    proof (cases "as = [] \<or> bs' = []")
      case True
      with r c(2) show ?thesis by (auto simp: rest_def split: if_splits)
    next
      case False
      then have "str_join '','' (map f as) @ c # x = str_join '','' (map f bs') @ c # y"
        using r by (simp add: rest_def)
      with Cons.IH [of bs'] Cons.prems(1,2) Cons show ?thesis by auto
    qed
    with ab Cons show ?thesis by simp
  qed
qed

lemma jenc_inj:
  "jok a \<Longrightarrow> jok b \<Longrightarrow> jenc a @ x = jenc b @ y \<Longrightarrow> nodig x \<Longrightarrow> nodig y \<Longrightarrow> a = b \<and> x = y"
proof (induction a arbitrary: b x y)
  case JNull
  from jenc_tag [OF JNull.prems(3)] have "b = JNull"
    by (cases b) (auto simp: jtag_def split: if_splits)
  with JNull show ?case by simp
next
  case (JBool t)
  from jenc_tag [OF JBool.prems(3)] have "b = JBool t"
    by (cases b) (auto simp: jtag_def split: if_splits)
  with JBool show ?case by simp
next
  case (JInt i)
  from jenc_tag [OF JInt.prems(3)] obtain j where "b = JInt j"
    by (cases b) (auto simp: jtag_def split: if_splits)
  with JInt int_dec_inj [of i x j y] show ?case by simp
next
  case (JStr s)
  from jenc_tag [OF JStr.prems(3)] obtain t where "b = JStr t"
    by (cases b) (auto simp: jtag_def split: if_splits)
  with JStr jstr_inj [of s t x y] show ?case by simp
next
  case (JArr vs)
  from jenc_tag [OF JArr.prems(3)] obtain ws where b: "b = JArr ws"
    by (cases b) (auto simp: jtag_def split: if_splits)
  have "vs = ws \<and> x = y"
  proof (rule join_inj [where f = jenc and P = jok and c = "CHR '']''"])
    show "str_join '','' (map jenc vs) @ CHR '']'' # x = str_join '','' (map jenc ws) @ CHR '']'' # y"
      using JArr.prems(3) b by simp
    show "\<And>a b x y. a \<in> set vs \<Longrightarrow> jok b \<Longrightarrow> jenc a @ x = jenc b @ y \<Longrightarrow> nodig x \<Longrightarrow> nodig y
            \<Longrightarrow> a = b \<and> x = y"
      using JArr.IH JArr.prems(1) by simp
  qed (use jenc_head JArr.prems(2) b in \<open>auto simp: is_digit_def\<close>)
  with b show ?case by simp
next
  case (JObj kvs)
  from jenc_tag [OF JObj.prems(3)] obtain ws where b: "b = JObj ws"
    by (cases b) (auto simp: jtag_def split: if_splits)
  define f where "f = (\<lambda>(k, v). jstr k @ CHR '':'' # jenc v)"
  have "kvs = ws \<and> x = y"
  proof (rule join_inj [where f = f and P = "\<lambda>e. valid_utf8 (fst e) \<and> jok (snd e)" and c = "CHR ''}''"])
    show "str_join '','' (map f kvs) @ CHR ''}'' # x = str_join '','' (map f ws) @ CHR ''}'' # y"
      using JObj.prems(3) b by (simp add: f_def)
    fix e d x y
    assume e: "e \<in> set kvs" and d: "valid_utf8 (fst d) \<and> jok (snd d)"
      and eq: "f e @ x = f d @ y" and nd: "nodig x" "nodig y"
    obtain k v where kv: "e = (k, v)" by (cases e)
    obtain l w where lw: "d = (l, w)" by (cases d)
    from eq kv lw have "jstr k @ (CHR '':'' # jenc v @ x) = jstr l @ (CHR '':'' # jenc w @ y)"
      by (simp add: f_def)
    moreover have ok: "valid_utf8 k" "jok v" "valid_utf8 l" "jok w"
      using JObj.prems(1) e d kv lw by auto
    ultimately have kl: "k = l" and vw: "jenc v @ x = jenc w @ y"
      using jstr_inj [of k l] by auto
    have "v = w \<and> x = y"
      by (rule JObj.IH [OF e _ ok(2,4) vw nd]) (simp add: kv)
    with kl kv lw show "e = d \<and> x = y" by simp
  qed (use JObj.prems(2) b in \<open>auto simp: f_def is_digit_def jstr_def dquote_def\<close>)
  with b show ?case by simp
qed

lemma jenc_injective: "jok a \<Longrightarrow> jok b \<Longrightarrow> jenc a = jenc b \<Longrightarrow> a = b"
  using jenc_inj [of a b "[]" "[]"] by (simp add: nodig_def)

lemma jok_jsort: "jok v \<Longrightarrow> jok (jsort v)"
  by (induction v) (auto split: prod.splits)

end
