(* ===== verification/Go_Time.thy ===== *)
theory Go_Time
  imports Ops_Prelude
begin

text \<open>
  \<^verbatim>\<open>time.ParseDuration\<close>, used by the policy package on \<^verbatim>\<open>session.ttl\<close>. A duration is its
  number of nanoseconds. The overflow checks are Go's (a value must fit an \<^verbatim>\<open>int64\<close>). The
  fraction of a unit is computed exactly and rounded down, where Go goes through float64; the
  two agree on every fraction that is a whole number of nanoseconds below \<open>2 ^ 53\<close>.
\<close>

definition two63 :: int where "two63 = 2 ^ 63"

fun leading_int :: "int \<Rightarrow> string \<Rightarrow> (int \<times> string) option" where
  "leading_int x [] = Some (x, [])"
| "leading_int x (c # cs) =
     (if is_digit c then
        (if x > two63 div 10 then None
         else let y = x * 10 + (of_char c - 48)
              in if y > two63 then None else leading_int y cs)
      else Some (x, c # cs))"

text \<open>\<open>(fraction, scale, rest)\<close>; digits past an overflow are skipped.\<close>

fun leading_fraction :: "int \<Rightarrow> int \<Rightarrow> bool \<Rightarrow> string \<Rightarrow> int \<times> int \<times> string" where
  "leading_fraction x scale over [] = (x, scale, [])"
| "leading_fraction x scale over (c # cs) =
     (if is_digit c then
        (if over \<or> x > (two63 - 1) div 10 \<or> x * 10 + (of_char c - 48) > two63
         then leading_fraction x scale True cs
         else leading_fraction (x * 10 + (of_char c - 48)) (scale * 10) False cs)
      else (x, scale, c # cs))"

definition unit_map :: "string \<Rightarrow> int option" where
  "unit_map u =
     (if u = ''ns'' then Some 1
      else if u = ''us'' \<or> u = [byte 0xC2, byte 0xB5] @ ''s'' \<or> u = [byte 0xCE, byte 0xBC] @ ''s''
        then Some 1000
      else if u = ''ms'' then Some 1000000
      else if u = ''s'' then Some 1000000000
      else if u = ''m'' then Some 60000000000
      else if u = ''h'' then Some 3600000000000
      else None)"

definition unit_char :: "char \<Rightarrow> bool" where
  "unit_char c = (\<not> (c = CHR ''.'' \<or> is_digit c))"

lemma leading_int_length: "leading_int x s = Some (v, r) \<Longrightarrow> length r \<le> length s"
  by (induction x s rule: leading_int.induct) (auto simp: Let_def split: if_splits)

lemma leading_fraction_length:
  "leading_fraction x sc b s = (v, sc', r) \<Longrightarrow> length r \<le> length s"
  by (induction x sc b s rule: leading_fraction.induct) (auto split: if_splits)

text \<open>One \<open>number unit\<close> group: its nanoseconds and the rest of the text.\<close>

definition duration_group :: "string \<Rightarrow> (int \<times> string) option" where
  "duration_group s =
     (if s = [] \<or> \<not> (hd s = CHR ''.'' \<or> is_digit (hd s)) then None
      else case leading_int 0 s of None \<Rightarrow> None
      | Some (v, s1) \<Rightarrow>
          let pre = (length s \<noteq> length s1);
              dot = (s1 \<noteq> [] \<and> hd s1 = CHR ''.'');
              (f, scale, s2) = (if dot then leading_fraction 0 1 False (tl s1) else (0, 1, s1));
              post = (dot \<and> length (tl s1) \<noteq> length s2);
              u = takeWhile unit_char s2;
              s3 = dropWhile unit_char s2
          in if \<not> pre \<and> \<not> post then None
             else if u = [] then None
             else case unit_map u of None \<Rightarrow> None
             | Some unit \<Rightarrow>
                 if v > two63 div unit then None
                 else let w = v * unit + (if f > 0 then f * unit div scale else 0)
                      in if w > two63 then None else Some (w, s3))"

lemma dropWhile_shorter: "takeWhile P s \<noteq> [] \<Longrightarrow> length (dropWhile P s) < length s"
  by (metis length_greater_0_conv length_append less_add_same_cancel2 takeWhile_dropWhile_id)

lemma duration_group_length:
  assumes "duration_group s = Some (w, r)"
  shows "length r < length s"
proof -
  from assms obtain v s1 where li: "leading_int 0 s = Some (v, s1)"
    by (auto simp: duration_group_def split: if_splits option.splits)
  define p where "p = (if s1 \<noteq> [] \<and> hd s1 = CHR ''.'' then leading_fraction 0 1 False (tl s1) else (0, 1, s1))"
  obtain f sc s2 where p: "p = (f, sc, s2)" by (cases p) auto
  have "length s2 \<le> length s1"
    using p leading_fraction_length [of 0 1 False "tl s1" f sc s2]
    by (cases s1) (auto simp: p_def split: if_splits)
  moreover have "takeWhile unit_char s2 \<noteq> []" "r = dropWhile unit_char s2"
    using assms li p
    by (auto simp: duration_group_def Let_def p_def split: if_splits option.splits prod.splits)
  ultimately show ?thesis
    using leading_int_length [OF li] dropWhile_shorter [of unit_char s2] by simp
qed

function duration_groups :: "int \<Rightarrow> string \<Rightarrow> int option" where
  "duration_groups d s =
     (if s = [] then Some d
      else case duration_group s of None \<Rightarrow> None
      | Some (w, r) \<Rightarrow> if d + w > two63 then None else duration_groups (d + w) r)"
  by pat_completeness auto
termination
  by (relation "measure (\<lambda>(d, s). length s)") (auto dest: duration_group_length)

declare duration_groups.simps [simp del]

definition ParseDuration :: "string \<Rightarrow> int option" where
  "ParseDuration s0 =
     (let signed = (s0 \<noteq> [] \<and> (hd s0 = CHR ''-'' \<or> hd s0 = CHR ''+''));
          neg = (signed \<and> hd s0 = CHR ''-'');
          s = (if signed then tl s0 else s0)
      in if s = ''0'' then Some 0
         else if s = [] then None
         else case duration_groups 0 s of None \<Rightarrow> None
           | Some d \<Rightarrow> if neg then Some (- d)
                        else if d > two63 - 1 then None else Some d)"

lemma ParseDuration_30m: "ParseDuration ''30m'' = Some 1800000000000"
  by code_simp

lemma ParseDuration_1h: "ParseDuration ''1h'' = Some 3600000000000"
  by code_simp

lemma ParseDuration_invalid: "ParseDuration ''soon'' = None"
  by code_simp

end
