(* ===== verification/Policy_Model.thy ===== *)
theory Policy_Model
  imports Go_Json Go_Time
begin

text \<open>
  \<^verbatim>\<open>internal/policy/policy.go\<close> and \<^verbatim>\<open>hash.go\<close>: the policy record, its canonical form
  (\<open>normalize\<close>) and the deterministic policy hash. A Go slice is a \<open>slice\<close>: \<open>None\<close> is
  the nil slice, which \<^verbatim>\<open>Resolve\<close> distinguishes from the empty one. SHA-256 with its hex
  rendering is the parameter \<open>H\<close>.
\<close>

type_synonym 'a slice = "'a list option"

definition sl :: "'a slice \<Rightarrow> 'a list" where
  "sl s = (case s of None \<Rightarrow> [] | Some xs \<Rightarrow> xs)"

lemma sl_simps [simp, canon_simps]: "sl None = []" "sl (Some xs) = xs"
  by (simp_all add: sl_def)

text \<open>A Go slice built by appending to a nil slice: nil when nothing was appended.\<close>

definition mk_slice :: "'a list \<Rightarrow> 'a slice" where
  "mk_slice xs = (if xs = [] then None else Some xs)"

lemma sl_mk_slice [simp, canon_simps]: "sl (mk_slice xs) = xs"
  by (simp add: mk_slice_def)

subsection \<open>The policy model\<close>

record limits =
  TTL :: string
  Tier :: string
  Image :: string

record kubectl =
  Namespaces :: "string slice"
  Verbs :: "string slice"

record terraform =
  Commands :: "string slice"

record allow =
  Kubectl :: kubectl
  Terraform :: terraform
  Exec :: "string slice"

record egress =
  Domains :: "string slice"

record cred =
  CredName :: string
  Provider :: string

record dry_run_rule =
  Pattern :: string
  Preview :: "string slice"

record policy =
  Session :: limits
  Allow :: allow
  ApprovalRequired :: "string slice"
  Egress :: egress
  Creds :: "cred slice"
  StrictExec :: bool
  DryRun :: "dry_run_rule slice"
  DryRunWarnOnFailure :: bool

text \<open>The isolation ladder; a tier that is not in the table has no rank.\<close>

definition tierRank :: "string \<Rightarrow> nat option" where
  "tierRank t = (if t = ''local-docker'' then Some 0
     else if t = ''local-hardened'' then Some 1
     else if t = ''cloud-microvm'' then Some 2 else None)"

text \<open>Go's \<^verbatim>\<open>tierRank[t]\<close> without the second result: 0 for a missing key.\<close>

definition tier_rank0 :: "string \<Rightarrow> nat" where
  "tier_rank0 t = (case tierRank t of None \<Rightarrow> 0 | Some r \<Rightarrow> r)"

definition knownTier :: "string \<Rightarrow> bool" where
  "knownTier t = (tierRank t \<noteq> None)"

definition knownKubectlVerbs :: "string list" where
  "knownKubectlVerbs =
     [''get'', ''list'', ''watch'', ''describe'', ''explain'', ''logs'', ''top'', ''apply'',
      ''create'', ''delete'', ''patch'', ''edit'', ''replace'', ''scale'', ''rollout'', ''exec'',
      ''cp'', ''port-forward'', ''annotate'', ''label'', ''cordon'', ''drain'', ''uncordon'',
      ''taint'', ''expose'', ''set'', ''wait'', ''diff'']"

definition knownTerraformCommands :: "string list" where
  "knownTerraformCommands =
     [''init'', ''validate'', ''plan'', ''apply'', ''destroy'', ''fmt'', ''output'', ''show'',
      ''state'', ''import'', ''refresh'', ''workspace'', ''providers'', ''version'', ''graph'',
      ''taint'', ''untaint'', ''console'', ''get'']"

definition Default :: policy where
  "Default = \<lparr>Session = \<lparr>TTL = [], Tier = [], Image = []\<rparr>,
     Allow = \<lparr>Kubectl = \<lparr>Namespaces = None, Verbs = None\<rparr>, Terraform = \<lparr>Commands = None\<rparr>, Exec = None\<rparr>,
     ApprovalRequired = None, Egress = \<lparr>Domains = None\<rparr>, Creds = None, StrictExec = False,
     DryRun = None, DryRunWarnOnFailure = False\<rparr>"

subsection \<open>Canonical form\<close>

definition sortedSet :: "string slice \<Rightarrow> string slice" where
  "sortedSet xs = (if sl xs = [] then None else Some (sort (dedup [] (sl xs))))"

definition cred_key :: "cred \<Rightarrow> string \<times> string" where
  "cred_key c = (CredName c, Provider c)"

definition sortedCreds :: "cred slice \<Rightarrow> cred slice" where
  "sortedCreds xs = (if sl xs = [] then None else Some (sort_key cred_key (dedup [] (sl xs))))"

definition dry_run_key :: "dry_run_rule \<Rightarrow> string \<times> string" where
  "dry_run_key r = (Pattern r, str_join '' '' (sl (Preview r)))"

text \<open>\<^verbatim>\<open>dryrun.go\<close>: the order in which preview rules are tried, and hashed.\<close>

definition sortedDryRun :: "dry_run_rule slice \<Rightarrow> dry_run_rule slice" where
  "sortedDryRun xs = (if sl xs = [] then None else Some (sort_key dry_run_key (sl xs)))"

definition normalize :: "policy \<Rightarrow> policy" where
  "normalize p = p\<lparr>
     ApprovalRequired := sortedSet (ApprovalRequired p),
     Allow := \<lparr>Kubectl = \<lparr>Namespaces = sortedSet (Namespaces (Kubectl (Allow p))),
                         Verbs = sortedSet (Verbs (Kubectl (Allow p)))\<rparr>,
               Terraform = \<lparr>Commands = sortedSet (Commands (Terraform (Allow p)))\<rparr>,
               Exec = sortedSet (Exec (Allow p))\<rparr>,
     Egress := \<lparr>Domains = sortedSet (Domains (Egress p))\<rparr>,
     Creds := sortedCreds (Creds p),
     DryRun := sortedDryRun (DryRun p)\<rparr>"

lemma sortedSet_canon: "sortedSet xs = mk_slice (canon (sl xs))"
  by (auto simp: sortedSet_def mk_slice_def simp flip: canon_def)

lemma sl_sortedSet [simp, canon_simps]: "sl (sortedSet xs) = canon (sl xs)"
  by (simp add: sortedSet_canon)

lemma sortedSet_cong: "set (sl xs) = set (sl ys) \<Longrightarrow> sortedSet xs = sortedSet ys"
  using canon_unique [of "sl xs" "sl ys"] by (simp add: sortedSet_canon)

lemma sortedSet_eq_iff: "sortedSet xs = sortedSet ys \<longleftrightarrow> set (sl xs) = set (sl ys)"
  by (metis sl_sortedSet set_canon sortedSet_cong)

lemma sortedSet_idem [simp, canon_simps]: "sortedSet (sortedSet xs) = sortedSet xs"
  by (rule sortedSet_cong) simp

lemma cred_key_inj: "cred_key c = cred_key d \<Longrightarrow> c = d"
  by (simp add: cred_key_def)

lemma set_sortedCreds [simp, canon_simps]: "set (sl (sortedCreds xs)) = set (sl xs)"
  by (auto simp: sortedCreds_def)

lemma sortedCreds_cong: "set (sl xs) = set (sl ys) \<Longrightarrow> sortedCreds xs = sortedCreds ys"
  by (auto simp: sortedCreds_def inj_on_def cred_key_inj intro!: sort_key_unique)

lemma sortedCreds_eq_iff: "sortedCreds xs = sortedCreds ys \<longleftrightarrow> set (sl xs) = set (sl ys)"
  by (metis set_sortedCreds sortedCreds_cong)

lemma set_sortedDryRun [simp, canon_simps]: "set (sl (sortedDryRun xs)) = set (sl xs)"
  by (auto simp: sortedDryRun_def)

lemma sortedDryRun_idem [simp, canon_simps]: "sortedDryRun (sortedDryRun xs) = sortedDryRun xs"
  by (simp add: sortedDryRun_def)

lemma sortedCreds_idem [simp, canon_simps]: "sortedCreds (sortedCreds xs) = sortedCreds xs"
  by (rule sortedCreds_cong) simp

lemma normalize_idem: "normalize (normalize p) = normalize p"
  by (simp add: normalize_def)

text \<open>
  When \<open>normalize\<close> identifies two policies: the set-valued sections hold the same elements,
  the ordered preview rules agree, and the rest is equal.
\<close>

definition same_policy :: "policy \<Rightarrow> policy \<Rightarrow> bool" where
  "same_policy p q \<longleftrightarrow>
     Session p = Session q \<and>
     set (sl (Namespaces (Kubectl (Allow p)))) = set (sl (Namespaces (Kubectl (Allow q)))) \<and>
     set (sl (Verbs (Kubectl (Allow p)))) = set (sl (Verbs (Kubectl (Allow q)))) \<and>
     set (sl (Commands (Terraform (Allow p)))) = set (sl (Commands (Terraform (Allow q)))) \<and>
     set (sl (Exec (Allow p))) = set (sl (Exec (Allow q))) \<and>
     set (sl (ApprovalRequired p)) = set (sl (ApprovalRequired q)) \<and>
     set (sl (Domains (Egress p))) = set (sl (Domains (Egress q))) \<and>
     set (sl (Creds p)) = set (sl (Creds q)) \<and>
     StrictExec p = StrictExec q \<and>
     sortedDryRun (DryRun p) = sortedDryRun (DryRun q) \<and>
     DryRunWarnOnFailure p = DryRunWarnOnFailure q"

lemma normalize_eq_iff: "normalize p = normalize q \<longleftrightarrow> same_policy p q"
  by (cases p; cases q)
    (auto simp: normalize_def same_policy_def sortedSet_eq_iff sortedCreds_eq_iff)

subsection \<open>The policy hash (hash.go)\<close>

definition hashVersion :: string where
  "hashVersion = ''opslify.policy.v1''"

definition newline :: char where "newline = byte 10"

definition j_strs :: "string slice \<Rightarrow> jv" where
  "j_strs xs = (case xs of None \<Rightarrow> JNull | Some ss \<Rightarrow> JArr (map JStr ss))"

text \<open>A string field with \<^verbatim>\<open>omitempty\<close>.\<close>

definition j_opt :: "string \<Rightarrow> string \<Rightarrow> (string \<times> jv) list" where
  "j_opt k v = (if v = [] then [] else [(k, JStr v)])"

definition j_cred :: "cred \<Rightarrow> jv" where
  "j_cred c = JObj [(''name'', JStr (CredName c)), (''provider'', JStr (Provider c))]"

definition j_dry_run :: "dry_run_rule \<Rightarrow> jv" where
  "j_dry_run r = JObj [(''pattern'', JStr (Pattern r)), (''preview'', j_strs (Preview r))]"

definition j_policy :: "policy \<Rightarrow> jv" where
  "j_policy p = JObj (
     [(''session'', JObj (j_opt ''ttl'' (TTL (Session p)) @ j_opt ''tier'' (Tier (Session p)) @
                          j_opt ''image'' (Image (Session p)))),
      (''allow'', JObj
        [(''kubectl'', JObj [(''namespaces'', j_strs (Namespaces (Kubectl (Allow p)))),
                             (''verbs'', j_strs (Verbs (Kubectl (Allow p))))]),
         (''terraform'', JObj [(''commands'', j_strs (Commands (Terraform (Allow p))))]),
         (''exec'', j_strs (Exec (Allow p)))]),
      (''approval_required'', j_strs (ApprovalRequired p)),
      (''egress'', JObj [(''domains'', j_strs (Domains (Egress p)))]),
      (''creds'', (case Creds p of None \<Rightarrow> JNull | Some cs \<Rightarrow> JArr (map j_cred cs))),
      (''strict_exec'', JBool (StrictExec p))] @
     (if sl (DryRun p) = [] then [] else [(''dry_run'', JArr (map j_dry_run (sl (DryRun p))))]) @
     (if DryRunWarnOnFailure p then [(''dry_run_warn_on_failure'', JBool True)] else []))"

definition canonicalPreimage :: "policy \<Rightarrow> string" where
  "canonicalPreimage p = hashVersion @ newline # jenc (j_policy (normalize p))"

definition hashOf :: "(string \<Rightarrow> string) \<Rightarrow> policy \<Rightarrow> string" where
  "hashOf H p = H (canonicalPreimage p)"

text \<open>Every string of the policy is valid UTF-8 (what a YAML decoder produces).\<close>

definition utf8_policy :: "policy \<Rightarrow> bool" where
  "utf8_policy p \<longleftrightarrow> jok (j_policy (normalize p))"

lemma j_strs_inj: "j_strs a = j_strs b \<longleftrightarrow> a = b"
proof -
  have "inj JStr" by (auto simp: inj_def)
  then show ?thesis by (auto simp: j_strs_def inj_map_eq_map split: option.splits)
qed

lemma j_cred_inj: "inj j_cred"
  by (auto simp: inj_def j_cred_def)

lemma j_dry_run_inj: "inj j_dry_run"
  by (auto simp: inj_def j_dry_run_def j_strs_inj)

lemma j_limits_inj:
  "j_opt ''ttl'' a @ j_opt ''tier'' b @ j_opt ''image'' c =
   j_opt ''ttl'' a' @ j_opt ''tier'' b' @ j_opt ''image'' c' \<longleftrightarrow> a = a' \<and> b = b' \<and> c = c'"
  by (auto simp: j_opt_def split: if_splits)

lemma mk_slice_dry_run: "sl a = sl b \<Longrightarrow> a \<noteq> Some [] \<Longrightarrow> b \<noteq> Some [] \<Longrightarrow> a = b"
  by (cases a; cases b) auto

lemma j_policy_inj:
  assumes "j_policy p = j_policy q" "DryRun p \<noteq> Some []" "DryRun q \<noteq> Some []"
  shows "p = q"
proof -
  have c: "Creds p = Creds q"
    using assms(1) inj_map_eq_map [OF j_cred_inj]
    by (auto simp: j_policy_def split: option.splits)
  have d: "DryRun p = DryRun q"
    using assms inj_map_eq_map [OF j_dry_run_inj] mk_slice_dry_run [of "DryRun p" "DryRun q"]
    by (auto simp: j_policy_def split: if_splits)
  have "Session p = Session q"
    using assms(1) by (cases "Session p"; cases "Session q") (simp add: j_policy_def j_limits_inj)
  moreover have "Allow p = Allow q"
  proof -
    obtain ns vs cm ex where p: "Allow p = \<lparr>Kubectl = \<lparr>Namespaces = ns, Verbs = vs\<rparr>, Terraform = \<lparr>Commands = cm\<rparr>, Exec = ex\<rparr>"
      by (metis (full_types) allow.cases kubectl.cases terraform.cases)
    obtain ns' vs' cm' ex' where q: "Allow q = \<lparr>Kubectl = \<lparr>Namespaces = ns', Verbs = vs'\<rparr>, Terraform = \<lparr>Commands = cm'\<rparr>, Exec = ex'\<rparr>"
      by (metis (full_types) allow.cases kubectl.cases terraform.cases)
    from assms(1) show ?thesis by (simp add: j_policy_def p q j_strs_inj)
  qed
  moreover have "Egress p = Egress q"
    using assms(1) by (cases "Egress p"; cases "Egress q") (simp add: j_policy_def j_strs_inj)
  moreover have "ApprovalRequired p = ApprovalRequired q" "StrictExec p = StrictExec q"
    "DryRunWarnOnFailure p = DryRunWarnOnFailure q"
    using assms(1) d by (auto simp: j_policy_def j_strs_inj split: if_splits)
  ultimately show ?thesis using c d by (cases p; cases q) simp
qed

lemma normalize_DryRun: "DryRun (normalize p) \<noteq> Some []"
  by (simp add: normalize_def sortedDryRun_def)

lemma canonicalPreimage_eq_iff:
  assumes "utf8_policy p" "utf8_policy q"
  shows "canonicalPreimage p = canonicalPreimage q \<longleftrightarrow> same_policy p q"
proof
  assume "canonicalPreimage p = canonicalPreimage q"
  then have "jenc (j_policy (normalize p)) = jenc (j_policy (normalize q))"
    by (simp add: canonicalPreimage_def)
  with assms jenc_injective have "j_policy (normalize p) = j_policy (normalize q)"
    by (simp add: utf8_policy_def)
  with j_policy_inj normalize_DryRun have "normalize p = normalize q" by blast
  then show "same_policy p q" by (simp add: normalize_eq_iff)
next
  assume "same_policy p q"
  then show "canonicalPreimage p = canonicalPreimage q"
    by (simp add: canonicalPreimage_def flip: normalize_eq_iff)
qed

subsection \<open>Properties\<close>

text \<open>
  C13: The policy hash identifies a policy up to the order and repetition of its sections'
  entries: with a hash function that does not collide on the two preimages, two policies with
  valid UTF-8 strings have the same hash exactly when they agree on every set-valued section, on
  the session limits, the flags and the ordered preview rules.
\<close>

theorem policy_hash_identifies:
  assumes "utf8_policy p" "utf8_policy q"
    and "inj_on H {canonicalPreimage p, canonicalPreimage q}"
  shows "(hashOf H p = hashOf H q) = same_policy p q"
proof -
  have "(hashOf H p = hashOf H q) = (canonicalPreimage p = canonicalPreimage q)"
    unfolding hashOf_def by (rule inj_on_eq_iff [OF assms(3)]) simp_all
  also have "\<dots> = same_policy p q"
    by (rule canonicalPreimage_eq_iff [OF assms(1,2)])
  finally show ?thesis .
qed

definition exec_policy :: "string list \<Rightarrow> policy" where
  "exec_policy es = Default\<lparr>ApprovalRequired := Some es\<rparr>"

lemma utf8_exec_policy: "list_all valid_utf8 es \<Longrightarrow> utf8_policy (exec_policy es)"
  by (simp add: utf8_policy_def exec_policy_def j_policy_def normalize_def Default_def sortedSet_canon
      mk_slice_def sortedCreds_def sortedDryRun_def j_strs_def j_opt_def list_all_iff)

theorem policy_hash_identifies_witness:
  "hashOf id (exec_policy [''rm'', ''ls'']) = hashOf id (exec_policy [''ls'', ''rm'', ''rm''])"
proof -
  have u: "utf8_policy (exec_policy [''rm'', ''ls''])" "utf8_policy (exec_policy [''ls'', ''rm'', ''rm''])"
    by (simp_all add: utf8_exec_policy)
  have "same_policy (exec_policy [''rm'', ''ls'']) (exec_policy [''ls'', ''rm'', ''rm''])"
    by (auto simp: same_policy_def exec_policy_def)
  with policy_hash_identifies [OF u, of id] show ?thesis by (simp add: inj_on_def)
qed

end
