(* ===== verification/Policy_Resolve.thy ===== *)
theory Policy_Resolve
  imports Policy_Model
begin

text \<open>
  \<^verbatim>\<open>internal/policy/resolve.go\<close>: the merge of a workspace policy over the daemon policy and
  its contract, that the result is no wider than the daemon's (\<open>narrows\<close>). The texts of the
  notes are the constructors of \<open>merge_note\<close>, one per format string of the source. The locale
  \<open>narrowing_resolver\<close> is the interface a chain of resolutions relies on; it is interpreted
  on \<open>Resolve\<close>.
\<close>

datatype merge_note =
    DroppedGrant string string      \<comment> \<open>field, value\<close>
  | DroppedCred string string       \<comment> \<open>name, provider\<close>
  | TtlClamped string string        \<comment> \<open>workspace, daemon\<close>
  | TierClamped string string
  | ImageClamped string string
  | DryRunIgnored

record resolved =
  Policy :: policy
  Hash :: string
  Notes :: "merge_note list"

definition ResolveDefault :: "(string \<Rightarrow> string) \<Rightarrow> policy \<Rightarrow> resolved" where
  "ResolveDefault H daemon =
     (let n = normalize daemon in \<lparr>Policy = n, Hash = hashOf H n, Notes = []\<rparr>)"

definition parseTTL :: "string \<Rightarrow> int option" where
  "parseTTL s = (if s = [] then None
     else case ParseDuration s of None \<Rightarrow> None | Some d \<Rightarrow> if d \<le> 0 then None else Some d)"

definition intersect ::
  "string \<Rightarrow> string slice \<Rightarrow> string slice \<Rightarrow> merge_note list \<Rightarrow> string slice \<times> merge_note list" where
  "intersect field daemon workspace notes =
     (case workspace of None \<Rightarrow> (daemon, notes)
      | Some ws \<Rightarrow>
          (mk_slice (filter (\<lambda>v. v \<in> set (sl daemon)) ws),
           notes @ map (DroppedGrant field) (filter (\<lambda>v. v \<notin> set (sl daemon)) ws)))"

definition intersectCreds ::
  "cred slice \<Rightarrow> cred slice \<Rightarrow> merge_note list \<Rightarrow> cred slice \<times> merge_note list" where
  "intersectCreds daemon workspace notes =
     (case workspace of None \<Rightarrow> (daemon, notes)
      | Some ws \<Rightarrow>
          (mk_slice (filter (\<lambda>c. c \<in> set (sl daemon)) ws),
           notes @ map (\<lambda>c. DroppedCred (CredName c) (Provider c))
                       (filter (\<lambda>c. c \<notin> set (sl daemon)) ws)))"

definition unionSet :: "string slice \<Rightarrow> string slice \<Rightarrow> string slice" where
  "unionSet a b = sortedSet (Some (sl a @ sl b))"

definition resolve_ttl :: "string \<Rightarrow> string \<Rightarrow> merge_note list \<Rightarrow> string \<times> merge_note list" where
  "resolve_ttl d w notes =
     (case (parseTTL d, parseTTL w) of
        (Some dt, Some wt) \<Rightarrow> if wt > dt then (d, notes @ [TtlClamped w d]) else (w, notes)
      | (None, Some _) \<Rightarrow> (w, notes)
      | (Some _, None) \<Rightarrow> (d, notes)
      | (None, None) \<Rightarrow> ([], notes))"

definition resolve_tier :: "string \<Rightarrow> string \<Rightarrow> merge_note list \<Rightarrow> string \<times> merge_note list" where
  "resolve_tier d w notes =
     (if w = [] then (d, notes)
      else if d = [] then (w, notes)
      else if tier_rank0 w < tier_rank0 d then (d, notes @ [TierClamped w d])
      else (w, notes))"

definition resolve_image :: "string \<Rightarrow> string \<Rightarrow> merge_note list \<Rightarrow> string \<times> merge_note list" where
  "resolve_image d w notes =
     (if d \<noteq> [] \<and> w \<noteq> [] \<and> d \<noteq> w then (d, notes @ [ImageClamped w d])
      else if d \<noteq> [] then (d, notes)
      else (w, notes))"

definition resolveSession :: "limits \<Rightarrow> limits \<Rightarrow> merge_note list \<Rightarrow> limits \<times> merge_note list" where
  "resolveSession d w notes0 =
     (let (ttl, notes1) = resolve_ttl (TTL d) (TTL w) notes0;
          (tier, notes2) = resolve_tier (Tier d) (Tier w) notes1;
          (image, notes3) = resolve_image (Image d) (Image w) notes2
      in (\<lparr>TTL = ttl, Tier = tier, Image = image\<rparr>, notes3))"

text \<open>The merged model before \<open>normalize\<close>, with the notes of every clamp.\<close>

definition merge_policy :: "policy \<Rightarrow> policy \<Rightarrow> policy \<times> merge_note list" where
  "merge_policy d w =
     (let (ns, n1) = intersect ''allow.kubectl.namespaces''
            (Namespaces (Kubectl (Allow d))) (Namespaces (Kubectl (Allow w))) [];
          (vs, n2) = intersect ''allow.kubectl.verbs''
            (Verbs (Kubectl (Allow d))) (Verbs (Kubectl (Allow w))) n1;
          (cm, n3) = intersect ''allow.terraform.commands''
            (Commands (Terraform (Allow d))) (Commands (Terraform (Allow w))) n2;
          (ex, n4) = intersect ''allow.exec'' (Exec (Allow d)) (Exec (Allow w)) n3;
          (dom, n5) = intersect ''egress.domains'' (Domains (Egress d)) (Domains (Egress w)) n4;
          (cr, n6) = intersectCreds (Creds d) (Creds w) n5;
          (ses, n7) = resolveSession (Session d) (Session w) n6;
          n8 = (if sl (DryRun w) \<noteq> [] then n7 @ [DryRunIgnored] else n7)
      in (\<lparr>Session = ses,
           Allow = \<lparr>Kubectl = \<lparr>Namespaces = ns, Verbs = vs\<rparr>, Terraform = \<lparr>Commands = cm\<rparr>, Exec = ex\<rparr>,
           ApprovalRequired = unionSet (ApprovalRequired d) (ApprovalRequired w),
           Egress = \<lparr>Domains = dom\<rparr>,
           Creds = cr,
           StrictExec = (StrictExec d \<or> StrictExec w),
           DryRun = mk_slice (sl (DryRun d)),
           DryRunWarnOnFailure = DryRunWarnOnFailure d\<rparr>, n8))"

definition Resolve :: "(string \<Rightarrow> string) \<Rightarrow> policy \<Rightarrow> policy \<Rightarrow> resolved" where
  "Resolve H daemon workspace =
     (let (out, notes) = merge_policy daemon workspace; n = normalize out
      in \<lparr>Policy = n, Hash = hashOf H n, Notes = notes\<rparr>)"

subsection \<open>What the merge does to each section\<close>

lemma set_intersect [canon_simps]:
  "set (sl (fst (intersect f d w n))) =
     (case w of None \<Rightarrow> set (sl d) | Some ws \<Rightarrow> set ws \<inter> set (sl d))"
  by (auto simp: intersect_def split: option.splits)

lemma set_intersectCreds [canon_simps]:
  "set (sl (fst (intersectCreds d w n))) =
     (case w of None \<Rightarrow> set (sl d) | Some ws \<Rightarrow> set ws \<inter> set (sl d))"
  by (auto simp: intersectCreds_def split: option.splits)

lemma set_unionSet [canon_simps]: "set (sl (unionSet a b)) = set (sl a) \<union> set (sl b)"
  by (simp add: unionSet_def)

definition grants :: "'a slice \<Rightarrow> 'a slice \<Rightarrow> 'a set" where
  "grants d w = (case w of None \<Rightarrow> set (sl d) | Some ws \<Rightarrow> set ws \<inter> set (sl d))"

lemma grants_subset: "grants d w \<subseteq> set (sl d)"
  by (auto simp: grants_def split: option.splits)

text \<open>The values the session merge picks; the notes it threads do not matter for them.\<close>

definition pick_ttl :: "string \<Rightarrow> string \<Rightarrow> string" where
  "pick_ttl d w = fst (resolve_ttl d w [])"

definition pick_tier :: "string \<Rightarrow> string \<Rightarrow> string" where
  "pick_tier d w = fst (resolve_tier d w [])"

definition pick_image :: "string \<Rightarrow> string \<Rightarrow> string" where
  "pick_image d w = fst (resolve_image d w [])"

lemma fst_resolve_limits:
  "fst (resolve_ttl a b n) = pick_ttl a b"
  "fst (resolve_tier a b n) = pick_tier a b"
  "fst (resolve_image a b n) = pick_image a b"
  by (simp_all add: pick_ttl_def pick_tier_def pick_image_def resolve_ttl_def resolve_tier_def
      resolve_image_def split: option.splits)

lemma Resolve_sections:
  fixes d w H
  defines "p \<equiv> Policy (Resolve H d w)"
  shows "set (sl (Namespaces (Kubectl (Allow p)))) =
           grants (Namespaces (Kubectl (Allow d))) (Namespaces (Kubectl (Allow w)))"
    and "set (sl (Verbs (Kubectl (Allow p)))) =
           grants (Verbs (Kubectl (Allow d))) (Verbs (Kubectl (Allow w)))"
    and "set (sl (Commands (Terraform (Allow p)))) =
           grants (Commands (Terraform (Allow d))) (Commands (Terraform (Allow w)))"
    and "set (sl (Exec (Allow p))) = grants (Exec (Allow d)) (Exec (Allow w))"
    and "set (sl (Domains (Egress p))) = grants (Domains (Egress d)) (Domains (Egress w))"
    and "set (sl (Creds p)) = grants (Creds d) (Creds w)"
    and "set (sl (ApprovalRequired p)) = set (sl (ApprovalRequired d)) \<union> set (sl (ApprovalRequired w))"
    and "StrictExec p = (StrictExec d \<or> StrictExec w)"
    and "DryRun p = sortedDryRun (DryRun d)"
    and "DryRunWarnOnFailure p = DryRunWarnOnFailure d"
    and "TTL (Session p) = pick_ttl (TTL (Session d)) (TTL (Session w))"
    and "Tier (Session p) = pick_tier (Tier (Session d)) (Tier (Session w))"
    and "Image (Session p) = pick_image (Image (Session d)) (Image (Session w))"
proof -
  note [simp] = p_def Resolve_def merge_policy_def normalize_def Let_def case_prod_beta
    grants_def set_intersect set_intersectCreds set_unionSet resolveSession_def fst_resolve_limits
  show "set (sl (Namespaces (Kubectl (Allow p)))) =
           grants (Namespaces (Kubectl (Allow d))) (Namespaces (Kubectl (Allow w)))" by simp
  show "set (sl (Verbs (Kubectl (Allow p)))) =
           grants (Verbs (Kubectl (Allow d))) (Verbs (Kubectl (Allow w)))" by simp
  show "set (sl (Commands (Terraform (Allow p)))) =
           grants (Commands (Terraform (Allow d))) (Commands (Terraform (Allow w)))" by simp
  show "set (sl (Exec (Allow p))) = grants (Exec (Allow d)) (Exec (Allow w))" by simp
  show "set (sl (Domains (Egress p))) = grants (Domains (Egress d)) (Domains (Egress w))" by simp
  show "set (sl (Creds p)) = grants (Creds d) (Creds w)" by simp
  show "set (sl (ApprovalRequired p)) =
           set (sl (ApprovalRequired d)) \<union> set (sl (ApprovalRequired w))" by simp
  show "StrictExec p = (StrictExec d \<or> StrictExec w)" by simp
  show "DryRun p = sortedDryRun (DryRun d)" by (simp add: sortedDryRun_def)
  show "DryRunWarnOnFailure p = DryRunWarnOnFailure d" by simp
  show "TTL (Session p) = pick_ttl (TTL (Session d)) (TTL (Session w))" by simp
  show "Tier (Session p) = pick_tier (Tier (Session d)) (Tier (Session w))" by simp
  show "Image (Session p) = pick_image (Image (Session d)) (Image (Session w))" by simp
qed

subsection \<open>The narrowing contract\<close>

text \<open>
  The invariant stated on \<^verbatim>\<open>Resolved\<close>: grants are subsets, gates a superset, strict mode at
  least as strict, limits no looser, preview rules the daemon's.
\<close>

definition ttl_le :: "string \<Rightarrow> string \<Rightarrow> bool" where
  "ttl_le d r \<longleftrightarrow> (case parseTTL d of None \<Rightarrow> True
     | Some t \<Rightarrow> (case parseTTL r of None \<Rightarrow> False | Some u \<Rightarrow> u \<le> t))"

definition image_le :: "string \<Rightarrow> string \<Rightarrow> bool" where
  "image_le d r \<longleftrightarrow> d = [] \<or> r = d"

definition narrows :: "policy \<Rightarrow> policy \<Rightarrow> bool" where
  "narrows d r \<longleftrightarrow>
     set (sl (Namespaces (Kubectl (Allow r)))) \<subseteq> set (sl (Namespaces (Kubectl (Allow d)))) \<and>
     set (sl (Verbs (Kubectl (Allow r)))) \<subseteq> set (sl (Verbs (Kubectl (Allow d)))) \<and>
     set (sl (Commands (Terraform (Allow r)))) \<subseteq> set (sl (Commands (Terraform (Allow d)))) \<and>
     set (sl (Exec (Allow r))) \<subseteq> set (sl (Exec (Allow d))) \<and>
     set (sl (Domains (Egress r))) \<subseteq> set (sl (Domains (Egress d))) \<and>
     set (sl (Creds r)) \<subseteq> set (sl (Creds d)) \<and>
     set (sl (ApprovalRequired d)) \<subseteq> set (sl (ApprovalRequired r)) \<and>
     (StrictExec d \<longrightarrow> StrictExec r) \<and>
     ttl_le (TTL (Session d)) (TTL (Session r)) \<and>
     tier_rank0 (Tier (Session d)) \<le> tier_rank0 (Tier (Session r)) \<and>
     image_le (Image (Session d)) (Image (Session r)) \<and>
     sortedDryRun (DryRun r) = sortedDryRun (DryRun d) \<and>
     DryRunWarnOnFailure r = DryRunWarnOnFailure d"

lemma ttl_le_refl [simp]: "ttl_le d d"
  by (simp add: ttl_le_def split: option.splits)

lemma ttl_le_trans: "ttl_le a b \<Longrightarrow> ttl_le b c \<Longrightarrow> ttl_le a c"
  by (auto simp: ttl_le_def split: option.splits)

lemma image_le_refl [simp]: "image_le d d"
  by (simp add: image_le_def)

lemma image_le_trans: "image_le a b \<Longrightarrow> image_le b c \<Longrightarrow> image_le a c"
  by (auto simp: image_le_def)

lemma narrows_refl: "narrows d d"
  by (simp add: narrows_def)

lemma narrows_trans: "narrows a b \<Longrightarrow> narrows b c \<Longrightarrow> narrows a c"
  unfolding narrows_def
  by (elim conjE, intro conjI)
    ((erule (1) order_trans ttl_le_trans image_le_trans) | simp)+

lemma parseTTL_Nil [simp]: "parseTTL [] = None"
  by (simp add: parseTTL_def)

lemma Resolve_narrows_lemma: "narrows d (Policy (Resolve H d w))"
proof -
  let ?p = "Policy (Resolve H d w)"
  have ttl: "ttl_le (TTL (Session d)) (pick_ttl (TTL (Session d)) (TTL (Session w)))"
    by (auto simp: ttl_le_def pick_ttl_def resolve_ttl_def split: option.splits)
  have tier: "tier_rank0 (Tier (Session d)) \<le>
      tier_rank0 (pick_tier (Tier (Session d)) (Tier (Session w)))"
    by (auto simp: pick_tier_def resolve_tier_def tier_rank0_def tierRank_def)
  have image: "image_le (Image (Session d)) (pick_image (Image (Session d)) (Image (Session w)))"
    by (auto simp: image_le_def pick_image_def resolve_image_def)
  show ?thesis
    unfolding narrows_def Resolve_sections
    by (simp add: grants_subset ttl tier image)
qed

text \<open>
  The interface a caller that stacks policies (daemon, project, environment, workspace)
  relies on: a preorder and a merge that never leaves the part below the authority.
\<close>

locale narrowing_resolver =
  fixes le :: "'p \<Rightarrow> 'p \<Rightarrow> bool" and res :: "'p \<Rightarrow> 'p \<Rightarrow> 'p"
  assumes le_refl: "le d d"
    and le_trans: "le a b \<Longrightarrow> le b c \<Longrightarrow> le a c"
    and res_le: "le d (res d w)"
begin

lemma stack_le: "le d (foldl res d ws)"
proof (induction ws arbitrary: d)
  case Nil
  show ?case by (simp add: le_refl)
next
  case (Cons w ws)
  show ?case using le_trans [OF res_le [of d w] Cons.IH [of "res d w"]] by simp
qed

lemma stack_mono: "le (foldl res d us) (foldl res d (us @ ws))"
  by (simp add: stack_le)

end

definition stack_policy :: "(string \<Rightarrow> string) \<Rightarrow> policy \<Rightarrow> policy \<Rightarrow> policy" where
  "stack_policy H d w = Policy (Resolve H d w)"

interpretation narrowing: narrowing_resolver narrows "stack_policy H" for H
  by unfold_locales
    (auto simp: narrows_refl stack_policy_def Resolve_narrows_lemma intro: narrows_trans)

subsection \<open>The notes\<close>

lemma snd_intersect:
  "snd (intersect f d w n) = n @ map (DroppedGrant f) (filter (\<lambda>v. v \<notin> set (sl d)) (sl w))"
  by (auto simp: intersect_def split: option.splits)

lemma snd_intersectCreds:
  "snd (intersectCreds d w n) =
     n @ map (\<lambda>c. DroppedCred (CredName c) (Provider c)) (filter (\<lambda>c. c \<notin> set (sl d)) (sl w))"
  by (auto simp: intersectCreds_def split: option.splits)

definition limit_notes :: "limits \<Rightarrow> limits \<Rightarrow> merge_note list" where
  "limit_notes d w = snd (resolveSession d w [])"

lemma snd_resolveSession: "snd (resolveSession d w n) = n @ limit_notes d w"
  by (auto simp: limit_notes_def resolveSession_def resolve_ttl_def resolve_tier_def resolve_image_def Let_def
      split: option.splits)

lemma Notes_Resolve:
  "Notes (Resolve H d w) =
     map (DroppedGrant ''allow.kubectl.namespaces'')
       (filter (\<lambda>v. v \<notin> set (sl (Namespaces (Kubectl (Allow d))))) (sl (Namespaces (Kubectl (Allow w))))) @
     map (DroppedGrant ''allow.kubectl.verbs'')
       (filter (\<lambda>v. v \<notin> set (sl (Verbs (Kubectl (Allow d))))) (sl (Verbs (Kubectl (Allow w))))) @
     map (DroppedGrant ''allow.terraform.commands'')
       (filter (\<lambda>v. v \<notin> set (sl (Commands (Terraform (Allow d))))) (sl (Commands (Terraform (Allow w))))) @
     map (DroppedGrant ''allow.exec'')
       (filter (\<lambda>v. v \<notin> set (sl (Exec (Allow d)))) (sl (Exec (Allow w)))) @
     map (DroppedGrant ''egress.domains'')
       (filter (\<lambda>v. v \<notin> set (sl (Domains (Egress d)))) (sl (Domains (Egress w)))) @
     map (\<lambda>c. DroppedCred (CredName c) (Provider c))
       (filter (\<lambda>c. c \<notin> set (sl (Creds d))) (sl (Creds w))) @
     limit_notes (Session d) (Session w) @
     (if sl (DryRun w) \<noteq> [] then [DryRunIgnored] else [])"
proof -
  have n: "Notes (Resolve H d w) = snd (merge_policy d w)"
    by (simp add: Resolve_def Let_def case_prod_beta)
  show ?thesis
    by (simp add: n merge_policy_def Let_def case_prod_beta snd_intersect snd_intersectCreds
        snd_resolveSession)
qed

end
