(* ===== verification/Go_Path.thy ===== *)
theory Go_Path
  imports Ops_Prelude
begin

text \<open>
  Go's \<^verbatim>\<open>path\<close> and \<^verbatim>\<open>path/filepath\<close> on Unix: \<open>path_base\<close> (\<^verbatim>\<open>Base\<close>) and
  \<open>path_clean\<close> (\<^verbatim>\<open>Clean\<close>, as a stack of elements).
\<close>

subsection \<open>Base\<close>

definition strip_slashes :: "string \<Rightarrow> string" where
  "strip_slashes s = rev (dropWhile (\<lambda>c. c = CHR ''/'') (rev s))"

definition path_base :: "string \<Rightarrow> string" where
  "path_base s =
     (if s = [] then ''.''
      else let t = strip_slashes s;
               b = (case last_index (CHR ''/'') t of None \<Rightarrow> t | Some i \<Rightarrow> drop (Suc i) t)
           in if b = [] then ''/'' else b)"

lemma last_index_absent [simp, str_simps]: "c \<notin> set xs \<Longrightarrow> last_index c xs = None"
  by (induction xs) (auto simp del: last_index_None)

lemma strip_slashes_no_slash: "CHR ''/'' \<notin> set s \<Longrightarrow> strip_slashes s = s"
  by (cases s rule: rev_cases) (auto simp: strip_slashes_def)

lemma path_base_plain: "s \<noteq> [] \<Longrightarrow> CHR ''/'' \<notin> set s \<Longrightarrow> path_base s = s"
  by (simp add: path_base_def strip_slashes_no_slash Let_def)

lemma path_base_dir: "s \<noteq> [] \<Longrightarrow> CHR ''/'' \<notin> set s \<Longrightarrow> path_base (d @ CHR ''/'' # s) = s"
proof -
  assume s: "s \<noteq> []" "CHR ''/'' \<notin> set s"
  have strip: "strip_slashes (d @ CHR ''/'' # s) = d @ CHR ''/'' # s"
    using s by (cases s rule: rev_cases) (auto simp: strip_slashes_def)
  have "last_index (CHR ''/'') (d @ CHR ''/'' # s) = Some (length d)"
    using s(2) by (induction d) (auto split: option.splits)
  with s(1) strip show ?thesis by (simp add: path_base_def)
qed

lemma path_base_no_slash:
  assumes "path_base s = b" and "b \<noteq> ''/''"
  shows "CHR ''/'' \<notin> set b"
proof (cases "s = []")
  case False
  show ?thesis
  proof (cases "last_index (CHR ''/'') (strip_slashes s)")
    case None
    then have "path_base s = (if strip_slashes s = [] then ''/'' else strip_slashes s)"
      using False None by (simp add: path_base_def Let_def)
    with assms None show ?thesis by (simp add: last_index_None split: if_splits)
  next
    case (Some i)
    from last_index_Some [OF Some] assms False Some show ?thesis
      by (auto simp: path_base_def Let_def split: if_splits)
  qed
qed (use assms in \<open>auto simp: path_base_def\<close>)

subsection \<open>Clean\<close>

definition dot :: string where "dot = ''.''"
definition dotdot :: string where "dotdot = ''..''"

text \<open>The elements kept so far, last first.\<close>

fun clean_elems :: "bool \<Rightarrow> string list \<Rightarrow> string list \<Rightarrow> string list" where
  "clean_elems rooted st [] = rev st"
| "clean_elems rooted st (w # ws) =
     (if w = [] \<or> w = dot then clean_elems rooted st ws
      else if w = dotdot then
        (case st of
           [] \<Rightarrow> if rooted then clean_elems rooted [] ws else clean_elems rooted [dotdot] ws
         | t # st' \<Rightarrow> if t = dotdot then clean_elems rooted (dotdot # st) ws
                      else clean_elems rooted st' ws)
      else clean_elems rooted (w # st) ws)"

definition path_clean :: "string \<Rightarrow> string" where
  "path_clean s =
     (if s = [] then dot
      else let rooted = (hd s = CHR ''/'');
               es = clean_elems rooted [] (split_on (CHR ''/'') s)
           in if rooted then CHR ''/'' # str_join ''/'' es
              else if es = [] then dot else str_join ''/'' es)"

text \<open>The kept elements are a block of \<open>..\<close> (none in a rooted path) and then proper names.\<close>

definition clean_stack :: "bool \<Rightarrow> string list \<Rightarrow> bool" where
  "clean_stack rooted es \<longleftrightarrow>
     (\<exists>k ns. es = replicate k dotdot @ ns \<and> (rooted \<longrightarrow> k = 0) \<and>
        (\<forall>n \<in> set ns. n \<noteq> [] \<and> n \<noteq> dot \<and> n \<noteq> dotdot \<and> CHR ''/'' \<notin> set n))"

lemma clean_stack_Nil [simp]: "clean_stack rooted []"
  by (simp add: clean_stack_def)

lemma clean_stack_push:
  assumes "clean_stack rooted (rev st)" "w \<noteq> []" "w \<noteq> dot" "w \<noteq> dotdot" "CHR ''/'' \<notin> set w"
  shows "clean_stack rooted (rev (w # st))"
proof -
  from assms(1) obtain k ns where k: "rev st = replicate k dotdot @ ns" "rooted \<longrightarrow> k = 0"
    "\<forall>n \<in> set ns. n \<noteq> [] \<and> n \<noteq> dot \<and> n \<noteq> dotdot \<and> CHR ''/'' \<notin> set n"
    by (auto simp: clean_stack_def)
  have "rev (w # st) = replicate k dotdot @ (ns @ [w])" using k(1) by simp
  moreover have "\<forall>n \<in> set (ns @ [w]). n \<noteq> [] \<and> n \<noteq> dot \<and> n \<noteq> dotdot \<and> CHR ''/'' \<notin> set n"
    using k(3) assms by auto
  ultimately show ?thesis using k(2) unfolding clean_stack_def by blast
qed

lemma clean_stack_pop:
  assumes "clean_stack rooted (rev (t # st))" "t \<noteq> dotdot"
  shows "clean_stack rooted (rev st)"
proof -
  from assms(1) obtain k ns where k: "rev st @ [t] = replicate k dotdot @ ns" "rooted \<longrightarrow> k = 0"
    "\<forall>n \<in> set ns. n \<noteq> [] \<and> n \<noteq> dot \<and> n \<noteq> dotdot \<and> CHR ''/'' \<notin> set n"
    by (auto simp: clean_stack_def)
  have "ns \<noteq> []"
  proof
    assume "ns = []"
    with k(1) have "t \<in> set (replicate k dotdot)" by (metis append_Nil2 in_set_conv_decomp)
    with assms(2) show False by simp
  qed
  then obtain ms m where ms: "ns = ms @ [m]" by (cases ns rule: rev_cases) auto
  with k(1) have "rev st = replicate k dotdot @ ms" by simp
  with k(2,3) ms show ?thesis unfolding clean_stack_def by auto
qed

lemma clean_stack_up:
  assumes "clean_stack rooted (rev st)" "st = [] \<or> hd st = dotdot" "\<not> rooted"
  shows "clean_stack rooted (rev (dotdot # st))"
proof -
  from assms(1) obtain k ns where k: "rev st = replicate k dotdot @ ns"
    "\<forall>n \<in> set ns. n \<noteq> [] \<and> n \<noteq> dot \<and> n \<noteq> dotdot \<and> CHR ''/'' \<notin> set n"
    by (auto simp: clean_stack_def)
  have "ns = []"
  proof (rule ccontr)
    assume "ns \<noteq> []"
    then obtain ms m where ms: "ns = ms @ [m]" by (cases ns rule: rev_cases) auto
    with k(1) have "rev (rev st) = m # rev (replicate k dotdot @ ms)" by simp
    then have "st \<noteq> []" "hd st = m" by simp_all
    with k(2) ms assms(2) show False by auto
  qed
  with k(1) have "rev (dotdot # st) = replicate (Suc k) dotdot @ []"
    by (simp add: replicate_append_same)
  with assms(3) show ?thesis unfolding clean_stack_def by (metis empty_iff list.set(1))
qed

lemma clean_elems_stack:
  "clean_stack rooted (rev st) \<Longrightarrow> \<forall>w \<in> set ws. CHR ''/'' \<notin> set w \<Longrightarrow>
   clean_stack rooted (clean_elems rooted st ws)"
proof (induction rooted st ws rule: clean_elems.induct)
  case (2 rooted st w ws)
  then have w: "CHR ''/'' \<notin> set w" "\<forall>w \<in> set ws. CHR ''/'' \<notin> set w" by auto
  show ?case
  proof (cases "w = [] \<or> w = dot")
    case True
    with "2.IH"(1) "2.prems"(1) w show ?thesis by auto
  next
    case skip: False
    show ?thesis
    proof (cases "w = dotdot")
      case up: True
      show ?thesis
      proof (cases st)
        case Nil
        show ?thesis
        proof (cases rooted)
          case True
          with "2.IH"(2) skip up Nil w show ?thesis by simp
        next
          case False
          with "2.IH"(3) skip up Nil w clean_stack_up [of rooted "[]"] show ?thesis by simp
        qed
      next
        case (Cons t st')
        show ?thesis
        proof (cases "t = dotdot")
          case True
          have "\<not> rooted"
          proof
            assume rooted
            with "2.prems"(1) Cons True show False by (auto simp: clean_stack_def)
          qed
          with "2.IH"(4) skip up Cons True w "2.prems"(1) clean_stack_up [of rooted st]
          show ?thesis by simp
        next
          case False
          with "2.IH"(5) skip up Cons w "2.prems"(1) clean_stack_pop [of rooted t st']
          show ?thesis by simp
        qed
      qed
    next
      case False
      with "2.IH"(6) skip w "2.prems"(1) clean_stack_push [of rooted st w] show ?thesis by simp
    qed
  qed
qed simp

end
