(* ===== verification/Policy_Enforce.thy ===== *)
theory Policy_Enforce
  imports Policy_Resolve Go_Path
begin

text \<open>
  \<^verbatim>\<open>internal/policy/enforce.go\<close>: the classifier that decides whether a command runs, is
  refused or waits for a human. Go's \<^verbatim>\<open>regexp\<close> is the parameter \<open>re\<close>: the matcher that a
  pattern compiles to, \<open>None\<close> when it does not compile; every theorem holds for any matcher.
\<close>

type_synonym regexp = "string \<Rightarrow> (string \<Rightarrow> bool) option"

datatype verdict = VerdictAllow | VerdictDeny | VerdictNeedsApproval

record decision =
  Verdict :: verdict
  Rule :: string
  Reason :: string

fun matchAnyRegex :: "regexp \<Rightarrow> string list \<Rightarrow> string \<Rightarrow> string option" where
  "matchAnyRegex re [] s = None"
| "matchAnyRegex re (p # ps) s =
     (case re p of None \<Rightarrow> matchAnyRegex re ps s
      | Some m \<Rightarrow> if m s then Some p else matchAnyRegex re ps s)"

definition toolName :: "string \<Rightarrow> string" where
  "toolName arg0 = path_base arg0"

fun firstNonFlag :: "string list \<Rightarrow> string" where
  "firstNonFlag [] = []"
| "firstNonFlag (a # as) = (if \<not> has_prefix a ''-'' then a else firstNonFlag as)"

text \<open>The loop of \<^verbatim>\<open>parseKubectl\<close> with its two result variables.\<close>

fun parseKubectl_loop :: "string \<Rightarrow> string \<Rightarrow> string list \<Rightarrow> string \<times> string" where
  "parseKubectl_loop ns vb [] = (ns, vb)"
| "parseKubectl_loop ns vb (a # rest) =
     (if a = ''-n'' \<or> a = ''--namespace'' then
        (case rest of [] \<Rightarrow> (ns, vb) | v # rest' \<Rightarrow> parseKubectl_loop v vb rest')
      else if has_prefix a ''--namespace='' then parseKubectl_loop (trim_prefix a ''--namespace='') vb rest
      else if has_prefix a ''-n='' \<and> length a > 3 then parseKubectl_loop (drop 3 a) vb rest
      else if has_prefix a ''-n'' \<and> length a > 2 then parseKubectl_loop (drop 2 a) vb rest
      else if has_prefix a ''-'' then parseKubectl_loop ns vb rest
      else parseKubectl_loop ns (if vb = [] then a else vb) rest)"

definition parseKubectl :: "string list \<Rightarrow> string \<times> string" where
  "parseKubectl args = parseKubectl_loop [] [] args"

text \<open>\<^verbatim>\<open>quote\<close> puts a string between double quotes.\<close>

definition quote :: "string \<Rightarrow> string" where
  "quote s = CHR 0x22 # s @ [CHR 0x22]"

definition mk_decision :: "verdict \<Rightarrow> string \<Rightarrow> string \<Rightarrow> decision" where
  "mk_decision v r e = \<lparr>Verdict = v, Rule = r, Reason = e\<rparr>"

definition classifyKubectl :: "policy \<Rightarrow> string list \<Rightarrow> decision" where
  "classifyKubectl p argv =
     (let (ns, verb) = parseKubectl (tl argv);
          verbs = sl (Verbs (Kubectl (Allow p)));
          namespaces = sl (Namespaces (Kubectl (Allow p)));
          effNS = (if ns = [] then ''default'' else ns)
      in if verbs \<noteq> [] \<and> (verb = [] \<or> verb \<notin> set verbs)
         then mk_decision VerdictDeny ''allow.kubectl.verbs''
                (''policy: kubectl verb '' @ quote verb @ '' not in allowed verbs'')
         else if namespaces \<noteq> [] \<and> effNS \<notin> set namespaces
         then mk_decision VerdictDeny ''allow.kubectl.namespaces''
                (''policy: kubectl namespace '' @ quote effNS @ '' not in allowed namespaces'')
         else mk_decision VerdictAllow ''allow.kubectl''
                ''policy: kubectl within allowed namespace/verb'')"

definition classifyTerraform :: "policy \<Rightarrow> string list \<Rightarrow> decision" where
  "classifyTerraform p argv =
     (let sub = firstNonFlag (tl argv)
      in if sub = [] \<or> sub \<notin> set (sl (Commands (Terraform (Allow p))))
         then mk_decision VerdictDeny ''allow.terraform.commands''
                (''policy: terraform subcommand '' @ quote sub @ '' not in allowed commands'')
         else mk_decision VerdictAllow ''allow.terraform'' ''policy: terraform subcommand allowed'')"

definition constrains_kubectl :: "policy \<Rightarrow> bool" where
  "constrains_kubectl p =
     (sl (Namespaces (Kubectl (Allow p))) \<noteq> [] \<or> sl (Verbs (Kubectl (Allow p))) \<noteq> [])"

definition constrains_terraform :: "policy \<Rightarrow> bool" where
  "constrains_terraform p = (sl (Commands (Terraform (Allow p))) \<noteq> [])"

text \<open>Steps 3 to 5 of the source: the exec allowlist, then strict or non-strict mode.\<close>

definition classify_generic :: "regexp \<Rightarrow> policy \<Rightarrow> string \<Rightarrow> decision" where
  "classify_generic re p joined =
     (case matchAnyRegex re (sl (Exec (Allow p))) joined of
        Some allowRule \<Rightarrow>
          mk_decision VerdictAllow (''allow.exec:'' @ allowRule) ''policy: command matched allow.exec''
      | None \<Rightarrow>
          if StrictExec p
          then mk_decision VerdictDeny ''strict_exec''
                 ''policy: strict_exec is on and command is not in the allowlist''
          else mk_decision VerdictAllow ''default-allow''
                 ''policy: non-strict mode, command not otherwise gated'')"

definition Classify :: "regexp \<Rightarrow> policy \<Rightarrow> string list \<Rightarrow> decision" where
  "Classify re p argv =
     (case argv of
        [] \<Rightarrow> mk_decision VerdictDeny ''empty-argv'' ''policy: empty command denied (fail-closed)''
      | arg0 # _ \<Rightarrow>
          let joined = str_join '' '' argv in
          (case matchAnyRegex re (sl (ApprovalRequired p)) joined of
             Some rule \<Rightarrow> mk_decision VerdictNeedsApproval (''approval_required:'' @ rule)
               ''policy: command requires human approval (approval_required); F4.3 gate not yet available''
           | None \<Rightarrow>
               if toolName arg0 = ''kubectl'' \<and> constrains_kubectl p then classifyKubectl p argv
               else if toolName arg0 = ''terraform'' \<and> constrains_terraform p
                 then classifyTerraform p argv
               else classify_generic re p joined))"

subsection \<open>Matching\<close>

definition re_hit :: "regexp \<Rightarrow> string list \<Rightarrow> string \<Rightarrow> bool" where
  "re_hit re ps s = (\<exists>p \<in> set ps. \<exists>m. re p = Some m \<and> m s)"

lemma matchAnyRegex_None: "matchAnyRegex re ps s = None \<longleftrightarrow> \<not> re_hit re ps s"
  by (induction ps) (auto simp: re_hit_def split: option.splits)

lemma matchAnyRegex_Some:
  "matchAnyRegex re ps s = Some p \<Longrightarrow> p \<in> set ps \<and> (\<exists>m. re p = Some m \<and> m s)"
  by (induction ps) (auto split: option.splits if_splits)

lemma re_hit_mono: "set ps \<subseteq> set qs \<Longrightarrow> re_hit re ps s \<Longrightarrow> re_hit re qs s"
  by (auto simp: re_hit_def)

lemma Verdict_mk [simp]: "Verdict (mk_decision v r e) = v"
  by (simp add: mk_decision_def)

subsection \<open>When a command runs without a gate\<close>

text \<open>The classifier as a predicate: the commands that may be spawned at once.\<close>

definition kubectl_ok :: "policy \<Rightarrow> string list \<Rightarrow> bool" where
  "kubectl_ok p argv =
     (let (ns, verb) = parseKubectl (tl argv)
      in (sl (Verbs (Kubectl (Allow p))) = [] \<or> (verb \<noteq> [] \<and> verb \<in> set (sl (Verbs (Kubectl (Allow p)))))) \<and>
         (sl (Namespaces (Kubectl (Allow p))) = [] \<or>
            (if ns = [] then ''default'' else ns) \<in> set (sl (Namespaces (Kubectl (Allow p))))))"

definition terraform_ok :: "policy \<Rightarrow> string list \<Rightarrow> bool" where
  "terraform_ok p argv =
     (firstNonFlag (tl argv) \<noteq> [] \<and> firstNonFlag (tl argv) \<in> set (sl (Commands (Terraform (Allow p)))))"

definition runs_ungated :: "regexp \<Rightarrow> policy \<Rightarrow> string list \<Rightarrow> bool" where
  "runs_ungated re p argv =
     (argv \<noteq> [] \<and> \<not> re_hit re (sl (ApprovalRequired p)) (str_join '' '' argv) \<and>
      (if toolName (hd argv) = ''kubectl'' \<and> constrains_kubectl p then kubectl_ok p argv
       else if toolName (hd argv) = ''terraform'' \<and> constrains_terraform p then terraform_ok p argv
       else StrictExec p \<longrightarrow> re_hit re (sl (Exec (Allow p))) (str_join '' '' argv)))"

lemma classifyKubectl_verdict:
  "Verdict (classifyKubectl p argv) = (if kubectl_ok p argv then VerdictAllow else VerdictDeny)"
  by (auto simp: classifyKubectl_def kubectl_ok_def Let_def split: prod.splits)

lemma classifyTerraform_verdict:
  "Verdict (classifyTerraform p argv) = (if terraform_ok p argv then VerdictAllow else VerdictDeny)"
  by (auto simp: classifyTerraform_def terraform_ok_def Let_def)

lemma classify_generic_verdict:
  "Verdict (classify_generic re p s) =
     (if StrictExec p \<longrightarrow> re_hit re (sl (Exec (Allow p))) s then VerdictAllow else VerdictDeny)"
  using matchAnyRegex_None [of re "sl (Exec (Allow p))" s]
  by (auto simp: classify_generic_def split: option.splits)

lemma Classify_verdict:
  "Verdict (Classify re p argv) =
     (if argv = [] then VerdictDeny
      else if re_hit re (sl (ApprovalRequired p)) (str_join '' '' argv) then VerdictNeedsApproval
      else if runs_ungated re p argv then VerdictAllow else VerdictDeny)"
  using matchAnyRegex_None [of re "sl (ApprovalRequired p)" "str_join '' '' argv"]
  by (auto simp: Classify_def runs_ungated_def classifyKubectl_verdict classifyTerraform_verdict
      classify_generic_verdict Let_def split: list.splits option.splits)

subsection \<open>Monotonicity along the narrowing order\<close>

text \<open>
  The classifier reads an empty grant set of a structured tool as "unconstrained". A narrower
  policy therefore enforces no less only while it keeps the constraints of the wider one
  non-empty.
\<close>

definition keeps_constraints :: "policy \<Rightarrow> policy \<Rightarrow> bool" where
  "keeps_constraints d r \<longleftrightarrow>
     (sl (Namespaces (Kubectl (Allow d))) \<noteq> [] \<longrightarrow> sl (Namespaces (Kubectl (Allow r))) \<noteq> []) \<and>
     (sl (Verbs (Kubectl (Allow d))) \<noteq> [] \<longrightarrow> sl (Verbs (Kubectl (Allow r))) \<noteq> []) \<and>
     (sl (Commands (Terraform (Allow d))) \<noteq> [] \<longrightarrow> sl (Commands (Terraform (Allow r))) \<noteq> [])"

text \<open>The part of \<open>narrows\<close> the classifier reads.\<close>

definition exec_narrows :: "policy \<Rightarrow> policy \<Rightarrow> bool" where
  "exec_narrows d r \<longleftrightarrow>
     set (sl (Namespaces (Kubectl (Allow r)))) \<subseteq> set (sl (Namespaces (Kubectl (Allow d)))) \<and>
     set (sl (Verbs (Kubectl (Allow r)))) \<subseteq> set (sl (Verbs (Kubectl (Allow d)))) \<and>
     set (sl (Commands (Terraform (Allow r)))) \<subseteq> set (sl (Commands (Terraform (Allow d)))) \<and>
     set (sl (Exec (Allow r))) \<subseteq> set (sl (Exec (Allow d))) \<and>
     set (sl (ApprovalRequired d)) \<subseteq> set (sl (ApprovalRequired r)) \<and>
     (StrictExec d \<longrightarrow> StrictExec r)"

lemma narrows_exec: "narrows d r \<Longrightarrow> exec_narrows d r"
  by (simp add: narrows_def exec_narrows_def)

lemma kubectl_ok_mono:
  "exec_narrows d r \<Longrightarrow> keeps_constraints d r \<Longrightarrow> kubectl_ok r argv \<Longrightarrow> kubectl_ok d argv"
  by (auto simp: exec_narrows_def keeps_constraints_def kubectl_ok_def split: prod.splits)

lemma terraform_ok_mono: "exec_narrows d r \<Longrightarrow> terraform_ok r argv \<Longrightarrow> terraform_ok d argv"
  by (auto simp: exec_narrows_def terraform_ok_def)

lemma constrains_mono:
  assumes "exec_narrows d r" "keeps_constraints d r"
  shows "constrains_kubectl r \<longleftrightarrow> constrains_kubectl d"
    and "constrains_terraform r \<longleftrightarrow> constrains_terraform d"
  using assms by (auto simp: exec_narrows_def keeps_constraints_def constrains_kubectl_def
      constrains_terraform_def)

lemma runs_ungated_mono:
  assumes n: "exec_narrows d r" and k: "keeps_constraints d r" and ok: "runs_ungated re r argv"
  shows "runs_ungated re d argv"
proof -
  note c = constrains_mono [OF n k]
  have "\<not> re_hit re (sl (ApprovalRequired d)) (str_join '' '' argv)"
    using ok n re_hit_mono by (auto simp: runs_ungated_def exec_narrows_def)
  moreover have "StrictExec d \<Longrightarrow> re_hit re (sl (Exec (Allow d))) s"
    if "StrictExec r \<longrightarrow> re_hit re (sl (Exec (Allow r))) s" for s
    using that n re_hit_mono by (auto simp: exec_narrows_def)
  ultimately show ?thesis
    using ok kubectl_ok_mono [OF n k] terraform_ok_mono [OF n]
    by (simp add: runs_ungated_def c split: if_splits)
qed

lemma normalize_sections [simp]:
  "set (sl (Namespaces (Kubectl (Allow (normalize p))))) = set (sl (Namespaces (Kubectl (Allow p))))"
  "set (sl (Verbs (Kubectl (Allow (normalize p))))) = set (sl (Verbs (Kubectl (Allow p))))"
  "set (sl (Commands (Terraform (Allow (normalize p))))) = set (sl (Commands (Terraform (Allow p))))"
  "set (sl (Exec (Allow (normalize p)))) = set (sl (Exec (Allow p)))"
  "set (sl (Domains (Egress (normalize p)))) = set (sl (Domains (Egress p)))"
  "set (sl (Creds (normalize p))) = set (sl (Creds p))"
  "set (sl (ApprovalRequired (normalize p))) = set (sl (ApprovalRequired p))"
  "StrictExec (normalize p) = StrictExec p"
  "Session (normalize p) = Session p"
  "DryRunWarnOnFailure (normalize p) = DryRunWarnOnFailure p"
  "set (sl (DryRun (normalize p))) = set (sl (DryRun p))"
  by (simp_all add: normalize_def)

lemma normalize_nonempty [simp]:
  "sl (Namespaces (Kubectl (Allow (normalize p)))) = [] \<longleftrightarrow> sl (Namespaces (Kubectl (Allow p))) = []"
  "sl (Verbs (Kubectl (Allow (normalize p)))) = [] \<longleftrightarrow> sl (Verbs (Kubectl (Allow p))) = []"
  "sl (Commands (Terraform (Allow (normalize p)))) = [] \<longleftrightarrow> sl (Commands (Terraform (Allow p))) = []"
  by (simp_all add: normalize_def)

lemma exec_narrows_normalize:
  "exec_narrows (normalize d) r \<longleftrightarrow> exec_narrows d r"
  "exec_narrows d (normalize r) \<longleftrightarrow> exec_narrows d r"
  by (simp_all add: exec_narrows_def)

lemma keeps_constraints_normalize:
  "keeps_constraints (normalize d) r \<longleftrightarrow> keeps_constraints d r"
  "keeps_constraints d (normalize r) \<longleftrightarrow> keeps_constraints d r"
  by (simp_all add: keeps_constraints_def)

subsection \<open>The namespace parser\<close>

lemma parseKubectl_loop_verb:
  "vb \<noteq> [] \<Longrightarrow> snd (parseKubectl_loop ns vb as) = vb"
  by (induction ns vb as rule: parseKubectl_loop.induct) (auto split: list.splits)

text \<open>A flag that is not a namespace flag does not change what the parser returns.\<close>

definition other_flag :: "string \<Rightarrow> bool" where
  "other_flag a \<longleftrightarrow> has_prefix a ''-'' \<and> \<not> has_prefix a ''-n'' \<and>
     a \<noteq> ''--namespace'' \<and> \<not> has_prefix a ''--namespace=''"

lemma parseKubectl_loop_other_flag:
  assumes "other_flag a"
  shows "parseKubectl_loop ns vb (a # rest) = parseKubectl_loop ns vb rest"
proof -
  have "a \<noteq> ''-n''" using assms by (auto simp: other_flag_def)
  moreover have "\<not> has_prefix a ''-n=''"
    using assms by (auto simp: other_flag_def has_prefix_iff)
  ultimately show ?thesis using assms by (simp add: other_flag_def)
qed

subsection \<open>A policy with one section\<close>

definition verbs_policy :: "string slice \<Rightarrow> policy" where
  "verbs_policy vs = Default\<lparr>Allow := \<lparr>Kubectl = \<lparr>Namespaces = None, Verbs = vs\<rparr>,
     Terraform = \<lparr>Commands = None\<rparr>, Exec = None\<rparr>\<rparr>"

lemma Verdict_delete_pod:
  "Verdict (Classify re (verbs_policy (Some [''get''])) [''kubectl'', ''delete'', ''pod'', ''x'']) = VerdictDeny"
  "Verdict (Classify re (verbs_policy None) [''kubectl'', ''delete'', ''pod'', ''x'']) = VerdictAllow"
  by (simp_all add: Classify_verdict re_hit_def verbs_policy_def Default_def runs_ungated_def
      constrains_kubectl_def constrains_terraform_def kubectl_ok_def toolName_def path_base_plain
      parseKubectl_def)

lemma Verdict_get_pods:
  "Verdict (Classify re (verbs_policy (Some [''get''])) [''kubectl'', ''get'', ''pods'']) = VerdictAllow"
  by (simp add: Classify_verdict re_hit_def verbs_policy_def Default_def runs_ungated_def
      constrains_kubectl_def kubectl_ok_def toolName_def path_base_plain parseKubectl_def)

lemma normalize_verbs_policy:
  "normalize (verbs_policy (Some [v])) = verbs_policy (Some [v])"
  by (simp add: normalize_def verbs_policy_def Default_def sortedSet_def sortedCreds_def sortedDryRun_def)

subsection \<open>Properties\<close>

text \<open>
  The verdict on any command, on every branch: an empty command is denied; otherwise a match
  of an approval pattern always gates, before any grant is consulted; otherwise the command is
  allowed exactly when the structured rules of its tool (or, for other tools, the exec allowlist
  in strict mode) admit it, and denied in all other cases. For any regex engine.
\<close>

theorem Classify_characterised:
  "Verdict (Classify re p argv) =
     (if argv = [] then VerdictDeny
      else if re_hit re (sl (ApprovalRequired p)) (str_join '' '' argv) then VerdictNeedsApproval
      else if runs_ungated re p argv then VerdictAllow else VerdictDeny)"
  by (rule Classify_verdict)

end
