(* ===== verification/Policy_Load.thy ===== *)
theory Policy_Load
  imports Policy_Enforce
begin

text \<open>
  \<^verbatim>\<open>internal/policy/load.go\<close>: parsing and validation of a policy file. The YAML library is
  two parameters: \<open>unmarshal\<close>, the position-preserving parse into a node tree, and
  \<open>decode\<close>, the strict decode into the typed model with the messages of its error as
  \<^verbatim>\<open>splitYAMLErrors\<close> flattens them (none when it succeeds). \<open>cerr\<close> is the error text of \<^verbatim>\<open>regexp.Compile\<close>. A message is a
  constructor of \<open>load_msg\<close>, one per format string; its rendered text, by which the errors are
  sorted, is the parameter \<open>txt\<close>.
\<close>

datatype ykind = DocumentNode | MappingNode | OtherNode

datatype ynode = YNode (ykind: ykind) (yvalue: string) (yline: int) (ycontent: "ynode list")

datatype load_msg =
    YamlMsg string
  | UnknownTier string
  | InvalidDuration string
  | TtlNotPositive string
  | TtlTooLong string
  | UnknownVerb string
  | InvalidNamespace string
  | UnknownCommand string
  | InvalidExecRegex string string
  | InvalidApprovalRegex string string
  | InvalidDomain string
  | DryRunNoPattern nat
  | DryRunBadRegex nat string string
  | DryRunNoPreview nat string
  | CredNoName nat
  | CredNoProvider nat string

record line_error =
  Line :: int
  Msg :: load_msg

record validation_error =
  File :: string
  Errors :: "line_error list"

definition DefaultFileName :: string where
  "DefaultFileName = ''opslify.policy.yaml''"

definition maxTTL :: int where
  "maxTTL = 24 * 3600000000000"

subsection \<open>Positions\<close>

fun find_key :: "string \<Rightarrow> ynode list \<Rightarrow> (int \<times> ynode) option" where
  "find_key key (k # v # rest) =
     (if yvalue k = key then Some (if yline v > 0 then yline v else yline k, v)
      else find_key key rest)"
| "find_key key _ = None"

fun lineOf_loop :: "int \<Rightarrow> ynode \<Rightarrow> string list \<Rightarrow> int" where
  "lineOf_loop line cur [] = line"
| "lineOf_loop line cur (key # path) =
     (if ykind cur \<noteq> MappingNode then line
      else case find_key key (ycontent cur) of
        None \<Rightarrow> line
      | Some (l, v) \<Rightarrow> lineOf_loop l v path)"

definition lineOf :: "ynode option \<Rightarrow> string list \<Rightarrow> int" where
  "lineOf m path = (case m of None \<Rightarrow> 0 | Some n \<Rightarrow> lineOf_loop 0 n path)"

definition documentMapping :: "ynode \<Rightarrow> ynode option" where
  "documentMapping root =
     (if ykind root \<noteq> DocumentNode then None
      else case ycontent root of [] \<Rightarrow> None
        | node # _ \<Rightarrow> if ykind node = MappingNode then Some node else None)"

subsection \<open>Raw YAML messages\<close>

text \<open>The regular expression \<open>line (\d+):\<close> at the head of a text: its digits and the rest.\<close>

definition yaml_line_head :: "string \<Rightarrow> (string \<times> string) option" where
  "yaml_line_head s =
     (if has_prefix s ''line '' then
        let d = takeWhile is_digit (drop 5 s); r = dropWhile is_digit (drop 5 s)
        in if d \<noteq> [] \<and> r \<noteq> [] \<and> hd r = CHR '':'' then Some (d, tl r) else None
      else None)"

fun find_yaml_line :: "string \<Rightarrow> string option" where
  "find_yaml_line [] = None"
| "find_yaml_line (c # cs) =
     (case yaml_line_head (c # cs) of Some (d, r) \<Rightarrow> Some d | None \<Rightarrow> find_yaml_line cs)"

lemma yaml_line_head_length:
  assumes "yaml_line_head s = Some (d, r)"
  shows "length r < length s"
proof -
  let ?t = "dropWhile is_digit (drop 5 s)"
  from assms have "?t \<noteq> []" "r = tl ?t"
    by (simp_all add: yaml_line_head_def Let_def split: if_splits)
  then have "length r < length ?t" by (cases ?t) simp_all
  also have "\<dots> \<le> length s"
    using length_dropWhile_le [of is_digit "drop 5 s"] by simp
  finally show ?thesis .
qed

function strip_yaml_lines :: "string \<Rightarrow> string" where
  "strip_yaml_lines s =
     (case s of [] \<Rightarrow> []
      | c # cs \<Rightarrow> (case yaml_line_head s of
            Some (d, r) \<Rightarrow> strip_yaml_lines r
          | None \<Rightarrow> c # strip_yaml_lines cs))"
  by pat_completeness auto
termination
  by (relation "measure length") (auto dest: yaml_line_head_length)

declare strip_yaml_lines.simps [simp del]

definition cleanYAMLMsg :: "string \<Rightarrow> string" where
  "cleanYAMLMsg msg =
     trim_space (trim_prefix (trim_space (strip_yaml_lines (trim_space msg))) '':'')"

text \<open>\<^verbatim>\<open>Sscanf\<close> with \<open>%d\<close> leaves 0 behind when the number does not fit an \<^verbatim>\<open>int\<close>.\<close>

definition scan_int :: "string \<Rightarrow> int" where
  "scan_int d = (let n = foldl (\<lambda>a c. a * 10 + (of_char c - 48)) 0 d
                 in if n < 2 ^ 63 then n else 0)"

definition lineErrorFromMsg :: "string \<Rightarrow> line_error" where
  "lineErrorFromMsg msg =
     \<lparr>Line = (case find_yaml_line msg of None \<Rightarrow> 0 | Some d \<Rightarrow> scan_int d),
      Msg = YamlMsg (cleanYAMLMsg msg)\<rparr>"

definition lineErrorFromYAML :: "string \<Rightarrow> string \<Rightarrow> line_error" where
  "lineErrorFromYAML err fallbackMsg =
     (let le = lineErrorFromMsg (trim_prefix err ''yaml: '')
      in if Msg le = YamlMsg [] then le\<lparr>Msg := YamlMsg fallbackMsg\<rparr> else le)"

definition sortErrors :: "(load_msg \<Rightarrow> string) \<Rightarrow> line_error list \<Rightarrow> line_error list" where
  "sortErrors txt es = sort_key (\<lambda>e. (Line e, txt (Msg e))) es"

subsection \<open>Names\<close>

definition label_char :: "char \<Rightarrow> bool" where
  "label_char c = ((97 \<le> (of_char c :: nat) \<and> (of_char c :: nat) \<le> 122) \<or> is_digit c)"

text \<open>\<open>^[a-z0-9]([-a-z0-9]{0,61}[a-z0-9])?$\<close>\<close>

definition validDNSLabel :: "string \<Rightarrow> bool" where
  "validDNSLabel s = (s \<noteq> [] \<and> length s \<le> 63 \<and> list_all (\<lambda>c. label_char c \<or> c = CHR ''-'') s \<and>
     label_char (hd s) \<and> label_char (last s))"

text \<open>An optional \<open>*.\<close> and dot-separated labels, after folding the case.\<close>

definition validDomain :: "string \<Rightarrow> bool" where
  "validDomain s = list_all validDNSLabel (split_on (CHR ''.'') (trim_prefix (to_lower s) ''*.''))"

subsection \<open>Semantic validation\<close>

text \<open>
  The loop \<^verbatim>\<open>for i, x := range xs\<close> of the validator: the messages of every element, at the
  line of its section.
\<close>

fun check_each :: "int \<Rightarrow> (nat \<Rightarrow> 'a \<Rightarrow> load_msg list) \<Rightarrow> nat \<Rightarrow> 'a list \<Rightarrow> line_error list" where
  "check_each line f i [] = []"
| "check_each line f i (x # xs) =
     map (\<lambda>m. \<lparr>Line = line, Msg = m\<rparr>) (f i x) @ check_each line f (Suc i) xs"

definition require :: "bool \<Rightarrow> load_msg \<Rightarrow> load_msg list" where
  "require b m = (if b then [] else [m])"

definition require_regex :: "(string \<Rightarrow> string option) \<Rightarrow> (string \<Rightarrow> load_msg) \<Rightarrow> string \<Rightarrow> load_msg list" where
  "require_regex cerr mk re = (case cerr re of None \<Rightarrow> [] | Some e \<Rightarrow> [mk e])"

definition tier_errors :: "string \<Rightarrow> load_msg list" where
  "tier_errors t = (if t \<noteq> [] \<and> \<not> knownTier t then [UnknownTier t] else [])"

definition ttl_errors :: "string \<Rightarrow> load_msg list" where
  "ttl_errors t =
     (if t = [] then []
      else case ParseDuration t of None \<Rightarrow> [InvalidDuration t]
      | Some d \<Rightarrow> if d \<le> 0 then [TtlNotPositive t] else if d > maxTTL then [TtlTooLong t] else [])"

definition rule_errors :: "(string \<Rightarrow> string option) \<Rightarrow> nat \<Rightarrow> dry_run_rule \<Rightarrow> load_msg list" where
  "rule_errors cerr i r =
     (if trim_space (Pattern r) = [] then [DryRunNoPattern i]
      else case cerr (Pattern r) of None \<Rightarrow> [] | Some e \<Rightarrow> [DryRunBadRegex i (Pattern r) e]) @
     (if sl (Preview r) = [] then [DryRunNoPreview i (Pattern r)]
      else if trim_space (hd (sl (Preview r))) = [] then [DryRunNoPreview i (Pattern r)] else [])"

definition cred_errors :: "nat \<Rightarrow> cred \<Rightarrow> load_msg list" where
  "cred_errors i c =
     (if trim_space (CredName c) = [] then [CredNoName i] else []) @
     (if trim_space (Provider c) = [] then [CredNoProvider i (CredName c)] else [])"

definition validateSemantics ::
  "(string \<Rightarrow> string option) \<Rightarrow> ynode option \<Rightarrow> policy \<Rightarrow> line_error list" where
  "validateSemantics cerr m p =
     check_each (lineOf m [''session'', ''tier'']) (\<lambda>_. tier_errors) 0 [Tier (Session p)] @
     check_each (lineOf m [''session'', ''ttl'']) (\<lambda>_. ttl_errors) 0 [TTL (Session p)] @
     check_each (lineOf m [''allow'', ''kubectl'', ''verbs''])
       (\<lambda>_ v. require (v \<in> set knownKubectlVerbs) (UnknownVerb v)) 0
       (sl (Verbs (Kubectl (Allow p)))) @
     check_each (lineOf m [''allow'', ''kubectl'', ''namespaces''])
       (\<lambda>_ ns. require (validDNSLabel ns) (InvalidNamespace ns)) 0
       (sl (Namespaces (Kubectl (Allow p)))) @
     check_each (lineOf m [''allow'', ''terraform'', ''commands''])
       (\<lambda>_ c. require (c \<in> set knownTerraformCommands) (UnknownCommand c)) 0
       (sl (Commands (Terraform (Allow p)))) @
     check_each (lineOf m [''allow'', ''exec''])
       (\<lambda>_ re. require_regex cerr (InvalidExecRegex re) re) 0
       (sl (Exec (Allow p))) @
     check_each (lineOf m [''approval_required''])
       (\<lambda>_ re. require_regex cerr (InvalidApprovalRegex re) re) 0
       (sl (ApprovalRequired p)) @
     check_each (lineOf m [''egress'', ''domains''])
       (\<lambda>_ d. require (validDomain d) (InvalidDomain d)) 0 (sl (Domains (Egress p))) @
     check_each (lineOf m [''dry_run'']) (rule_errors cerr) 0 (sl (DryRun p)) @
     check_each (lineOf m [''creds'']) cred_errors 0 (sl (Creds p))"

subsection \<open>Parse\<close>

definition Parse ::
  "(string \<Rightarrow> string + ynode) \<Rightarrow> (string \<Rightarrow> string list \<times> policy) \<Rightarrow> (string \<Rightarrow> string option) \<Rightarrow>
   (load_msg \<Rightarrow> string) \<Rightarrow> string \<Rightarrow> string \<Rightarrow> validation_error + policy" where
  "Parse unmarshal decode cerr txt b file0 =
     (let file = (if file0 = [] then DefaultFileName else file0) in
      case unmarshal b of
        Inl err \<Rightarrow> Inl \<lparr>File = file, Errors = [lineErrorFromYAML err ''syntax error'']\<rparr>
      | Inr root \<Rightarrow>
          let (msgs, p) = decode b; errs = map lineErrorFromMsg msgs
          in if errs \<noteq> [] then Inl \<lparr>File = file, Errors = sortErrors txt errs\<rparr>
             else let errs = validateSemantics cerr (documentMapping root) p
                  in if errs \<noteq> [] then Inl \<lparr>File = file, Errors = sortErrors txt errs\<rparr>
                     else Inr p)"

text \<open>\<^verbatim>\<open>ValidationError.Error\<close>\<close>

definition error_text :: "(load_msg \<Rightarrow> string) \<Rightarrow> validation_error \<Rightarrow> string" where
  "error_text txt e =
     (if Errors e = [] then File e @ '': invalid policy''
      else str_join [newline] (map (\<lambda>le.
        if Line le > 0 then File e @ '':'' @ dec (nat (Line le)) @ '': '' @ txt (Msg le)
        else File e @ '': '' @ txt (Msg le)) (Errors e)))"

subsection \<open>What validation establishes\<close>

text \<open>A valid policy, section by section, with no reference to messages or lines.\<close>

definition valid_rule :: "(string \<Rightarrow> string option) \<Rightarrow> dry_run_rule \<Rightarrow> bool" where
  "valid_rule cerr r \<longleftrightarrow> trim_space (Pattern r) \<noteq> [] \<and> cerr (Pattern r) = None \<and>
     sl (Preview r) \<noteq> [] \<and> trim_space (hd (sl (Preview r))) \<noteq> []"

definition valid_cred :: "cred \<Rightarrow> bool" where
  "valid_cred c \<longleftrightarrow> trim_space (CredName c) \<noteq> [] \<and> trim_space (Provider c) \<noteq> []"

definition valid_ttl :: "string \<Rightarrow> bool" where
  "valid_ttl t \<longleftrightarrow> t = [] \<or> (\<exists>d. ParseDuration t = Some d \<and> 0 < d \<and> d \<le> maxTTL)"

definition valid_policy :: "(string \<Rightarrow> string option) \<Rightarrow> policy \<Rightarrow> bool" where
  "valid_policy cerr p \<longleftrightarrow>
     (Tier (Session p) = [] \<or> knownTier (Tier (Session p))) \<and>
     valid_ttl (TTL (Session p)) \<and>
     set (sl (Verbs (Kubectl (Allow p)))) \<subseteq> set knownKubectlVerbs \<and>
     list_all validDNSLabel (sl (Namespaces (Kubectl (Allow p)))) \<and>
     set (sl (Commands (Terraform (Allow p)))) \<subseteq> set knownTerraformCommands \<and>
     list_all (\<lambda>re. cerr re = None) (sl (Exec (Allow p))) \<and>
     list_all (\<lambda>re. cerr re = None) (sl (ApprovalRequired p)) \<and>
     list_all validDomain (sl (Domains (Egress p))) \<and>
     list_all (valid_rule cerr) (sl (DryRun p)) \<and>
     list_all valid_cred (sl (Creds p))"

lemma check_each_Nil_uniform:
  assumes "\<And>i x. f i x = [] \<longleftrightarrow> P x"
  shows "check_each line f i xs = [] \<longleftrightarrow> list_all P xs"
  by (induction xs arbitrary: i) (simp_all add: assms)

lemma tier_errors_Nil: "tier_errors t = [] \<longleftrightarrow> t = [] \<or> knownTier t"
  by (auto simp: tier_errors_def)

lemma ttl_errors_Nil: "ttl_errors t = [] \<longleftrightarrow> valid_ttl t"
  by (auto simp: ttl_errors_def valid_ttl_def not_le split: option.splits)

lemma rule_errors_Nil: "rule_errors cerr i r = [] \<longleftrightarrow> valid_rule cerr r"
  by (auto simp: rule_errors_def valid_rule_def split: option.splits)

lemma cred_errors_Nil: "cred_errors i c = [] \<longleftrightarrow> valid_cred c"
  by (auto simp: cred_errors_def valid_cred_def)

lemma check_each_require:
  "check_each line (\<lambda>_ x. require (P x) (e x)) i xs = [] \<longleftrightarrow> list_all P xs"
  by (rule check_each_Nil_uniform) (simp add: require_def)

lemma check_each_regex:
  "check_each line (\<lambda>_ re. require_regex cerr (mk re) re) i xs = [] \<longleftrightarrow>
     list_all (\<lambda>re. cerr re = None) xs"
  by (rule check_each_Nil_uniform) (simp add: require_regex_def split: option.splits)

lemmas validator_simps =
  check_each_Nil_uniform [where f = "\<lambda>_. tier_errors", OF tier_errors_Nil]
  check_each_Nil_uniform [where f = "\<lambda>_. ttl_errors", OF ttl_errors_Nil]
  check_each_Nil_uniform [where f = "rule_errors cerr" for cerr, OF rule_errors_Nil]
  check_each_Nil_uniform [where f = cred_errors, OF cred_errors_Nil]
  check_each_require check_each_regex

lemma validateSemantics_Nil: "validateSemantics cerr m p = [] \<longleftrightarrow> valid_policy cerr p"
  unfolding validateSemantics_def append_is_Nil_conv validator_simps valid_policy_def
  by (auto simp: list_all_iff)

lemma Parse_Inr_iff:
  "Parse unmarshal decode cerr txt b file = Inr p \<longleftrightarrow>
     (\<exists>root. unmarshal b = Inr root) \<and>
     decode b = ([], p) \<and> valid_policy cerr p"
  by (auto simp: Parse_def Let_def validateSemantics_Nil split: sum.splits prod.splits if_splits)

lemma sortErrors_sorted: "sorted (map (\<lambda>e. (Line e, txt (Msg e))) (sortErrors txt es))"
  by (simp add: sortErrors_def)

lemma sortErrors_Nil: "sortErrors txt es = [] \<longleftrightarrow> es = []"
  by (simp add: sortErrors_def)

subsection \<open>Properties\<close>

text \<open>
  A policy file is accepted exactly when both YAML stages succeed and the decoded policy is
  valid: known tier, TTL positive and at most 24 hours, known kubectl verbs and terraform
  commands, DNS-label namespaces, every regex compilable, well-formed egress domains, complete
  preview rules and credentials. The accepted model is the decoded one, unchanged.
\<close>

theorem Parse_accepts_iff:
  "(Parse unmarshal decode cerr txt b file = Inr p) =
     (unmarshal b \<in> range Inr \<and> decode b = ([], p) \<and> valid_policy cerr p)"
  by (auto simp: Parse_Inr_iff)

text \<open>
  A rejected policy file is reported under its label with at least one error, and the errors
  come sorted by line and then by message, whatever the order of the checks.
\<close>

theorem Parse_errors_reported:
  assumes "Parse unmarshal decode cerr txt b file = Inl e"
  shows "Errors e \<noteq> [] \<and> File e = (if file = [] then DefaultFileName else file) \<and>
         sorted (map (\<lambda>le. (Line le, txt (Msg le))) (Errors e))"
  using assms sortErrors_sorted
  by (auto simp: Parse_def Let_def sortErrors_Nil split: sum.splits prod.splits if_splits)

definition bad_tier_policy :: policy where
  "bad_tier_policy = Default\<lparr>Session := \<lparr>TTL = [], Tier = ''moon'', Image = []\<rparr>\<rparr>"

theorem Parse_errors_reported_witness:
  "Parse (\<lambda>_. Inr (YNode DocumentNode [] 1 [])) (\<lambda>_. ([], bad_tier_policy)) (\<lambda>_. None) (\<lambda>_. []) [] [] =
     Inl \<lparr>File = ''opslify.policy.yaml'', Errors = [\<lparr>Line = 0, Msg = UnknownTier ''moon''\<rparr>]\<rparr> \<and>
   [\<lparr>Line = 0, Msg = UnknownTier ''moon''\<rparr>] \<noteq> []"
proof
  show r: "Parse (\<lambda>_. Inr (YNode DocumentNode [] 1 [])) (\<lambda>_. ([], bad_tier_policy)) (\<lambda>_. None) (\<lambda>_. []) [] [] =
     Inl \<lparr>File = ''opslify.policy.yaml'', Errors = [\<lparr>Line = 0, Msg = UnknownTier ''moon''\<rparr>]\<rparr>"
    by code_simp
  from Parse_errors_reported [OF r] show "[\<lparr>Line = 0, Msg = UnknownTier ''moon''\<rparr>] \<noteq> []" by simp
qed

end
