(* ===== verification/Policy_DryRun.thy ===== *)
theory Policy_DryRun
  imports Policy_Enforce
begin

text \<open>
  \<^verbatim>\<open>internal/policy/dryrun.go\<close>: the rewrite of a gated command into the preview that is run
  for the reviewer and the command that runs on approval.
\<close>

datatype guarantee = NoGuarantee | GuaranteeSavedPlan | GuaranteeFreshApply

record dry_run_preview =
  Matched :: bool
  PreviewRule :: string
  PreviewArgv :: "string list"
  ApprovedArgv :: "string list"
  Guarantee :: guarantee

definition no_preview :: dry_run_preview where
  "no_preview = \<lparr>Matched = False, PreviewRule = [], PreviewArgv = [], ApprovedArgv = [],
     Guarantee = NoGuarantee\<rparr>"

definition flagsOf :: "string list \<Rightarrow> string list" where
  "flagsOf args = filter (\<lambda>a. has_prefix a ''-'') args"

fun hasDryRunFlag :: "string list \<Rightarrow> bool" where
  "hasDryRunFlag [] = False"
| "hasDryRunFlag (a # as) =
     (if a = ''--dry-run'' \<or> has_prefix a ''--dry-run='' then True else hasDryRunFlag as)"

text \<open>The loop over the policy's rules, in sorted order; a rule of another tool is skipped.\<close>

fun policy_preview :: "regexp \<Rightarrow> string list \<Rightarrow> dry_run_rule list \<Rightarrow> dry_run_preview option" where
  "policy_preview re argv [] = None"
| "policy_preview re argv (rule # rules) =
     (case re (Pattern rule) of None \<Rightarrow> policy_preview re argv rules
      | Some m \<Rightarrow>
          if sl (Preview rule) = [] then policy_preview re argv rules
          else if \<not> m (str_join '' '' argv) then policy_preview re argv rules
          else if toolName (hd (sl (Preview rule))) \<noteq> toolName (hd argv)
          then policy_preview re argv rules
          else Some \<lparr>Matched = True, PreviewRule = ''dry_run:'' @ Pattern rule,
                     PreviewArgv = sl (Preview rule) @ tl argv, ApprovedArgv = argv,
                     Guarantee = GuaranteeFreshApply\<rparr>)"

definition RewriteForDryRun ::
  "regexp \<Rightarrow> string list \<Rightarrow> dry_run_rule slice \<Rightarrow> string \<Rightarrow> dry_run_preview" where
  "RewriteForDryRun re argv rules planPath =
     (if argv = [] then no_preview
      else case policy_preview re argv (sl (sortedDryRun rules)) of
        Some p \<Rightarrow> p
      | None \<Rightarrow>
          let tool = toolName (hd argv); sub = firstNonFlag (tl argv)
          in if tool = ''terraform'' \<and> sub = ''apply''
             then \<lparr>Matched = True, PreviewRule = ''builtin:terraform-apply'',
                   PreviewArgv = [''terraform'', ''plan'', ''-out='' @ planPath] @ flagsOf (drop 2 argv),
                   ApprovedArgv = [''terraform'', ''apply'', planPath],
                   Guarantee = GuaranteeSavedPlan\<rparr>
             else if tool = ''kubectl'' \<and> (sub = ''apply'' \<or> sub = ''delete'')
             then \<lparr>Matched = True, PreviewRule = ''builtin:kubectl-'' @ sub,
                   PreviewArgv = (if hasDryRunFlag argv then argv else argv @ [''--dry-run=server'']),
                   ApprovedArgv = argv, Guarantee = GuaranteeFreshApply\<rparr>
             else no_preview)"

subsection \<open>What a preview is\<close>

lemma hasDryRunFlag_iff:
  "hasDryRunFlag as \<longleftrightarrow> (\<exists>a \<in> set as. a = ''--dry-run'' \<or> has_prefix a ''--dry-run='')"
  by (induction as) auto

lemma toolName_terraform: "toolName ''terraform'' = ''terraform''"
  by (simp add: toolName_def path_base_plain)

text \<open>Where a policy rule's preview comes from.\<close>

definition from_rule :: "string list \<Rightarrow> dry_run_rule \<Rightarrow> dry_run_preview \<Rightarrow> bool" where
  "from_rule argv r p \<longleftrightarrow>
     sl (Preview r) \<noteq> [] \<and> toolName (hd (sl (Preview r))) = toolName (hd argv) \<and>
     Matched p \<and> PreviewArgv p = sl (Preview r) @ tl argv \<and> ApprovedArgv p = argv \<and>
     Guarantee p = GuaranteeFreshApply"

lemma policy_preview_from_rule:
  "policy_preview re argv rules = Some p \<Longrightarrow> \<exists>r \<in> set rules. from_rule argv r p"
  by (induction re argv rules rule: policy_preview.induct)
    (auto simp: from_rule_def split: option.splits if_splits)

definition tool_clamped :: "string list \<Rightarrow> dry_run_preview \<Rightarrow> bool" where
  "tool_clamped argv p \<longleftrightarrow>
     PreviewArgv p \<noteq> [] \<and> ApprovedArgv p \<noteq> [] \<and>
     toolName (hd (PreviewArgv p)) = toolName (hd argv) \<and>
     toolName (hd (ApprovedArgv p)) = toolName (hd argv)"

lemma from_rule_clamped: "argv \<noteq> [] \<Longrightarrow> from_rule argv r p \<Longrightarrow> tool_clamped argv p"
  by (auto simp: from_rule_def tool_clamped_def)

definition saved_plan_bound :: "string \<Rightarrow> dry_run_preview \<Rightarrow> bool" where
  "saved_plan_bound planPath p \<longleftrightarrow>
     ApprovedArgv p = [''terraform'', ''apply'', planPath] \<and>
     (\<exists>flags. PreviewArgv p = [''terraform'', ''plan'', ''-out='' @ planPath] @ flags \<and>
        (\<forall>f \<in> set flags. has_prefix f ''-''))"

lemma flagsOf_flags: "f \<in> set (flagsOf as) \<Longrightarrow> has_prefix f ''-''"
  by (simp add: flagsOf_def)

definition bound_as_reviewed :: "string list \<Rightarrow> string \<Rightarrow> dry_run_preview \<Rightarrow> bool" where
  "bound_as_reviewed argv planPath p =
     (case Guarantee p of
        NoGuarantee \<Rightarrow> False
      | GuaranteeSavedPlan \<Rightarrow> toolName (hd argv) = ''terraform'' \<and> saved_plan_bound planPath p
      | GuaranteeFreshApply \<Rightarrow> ApprovedArgv p = argv)"

lemma saved_plan_boundI:
  "saved_plan_bound planPath
     \<lparr>Matched = m, PreviewRule = r,
      PreviewArgv = [''terraform'', ''plan'', ''-out='' @ planPath] @ flagsOf as,
      ApprovedArgv = [''terraform'', ''apply'', planPath], Guarantee = g\<rparr>"
  unfolding saved_plan_bound_def using flagsOf_flags by auto

subsection \<open>Properties\<close>

text \<open>
  Whenever a rewrite matches, the preview and the approved command are invocations of the
  same tool as the gated command; a preview with the saved-plan guarantee approves exactly
  \<open>terraform apply <planPath>\<close> and its preview is a \<open>terraform plan -out=<planPath>\<close> that adds
  flags only; with the fresh-apply guarantee the approved command is the gated command itself.
  For any regex engine and any policy rules.
\<close>

theorem RewriteForDryRun_sound:
  assumes "argv \<noteq> []" and "Matched (RewriteForDryRun re argv rules planPath)"
  shows "tool_clamped argv (RewriteForDryRun re argv rules planPath) \<and>
         bound_as_reviewed argv planPath (RewriteForDryRun re argv rules planPath)"
proof (cases "policy_preview re argv (sl (sortedDryRun rules))")
  case (Some p)
  then obtain r where "from_rule argv r p" using policy_preview_from_rule by blast
  with assms(1) Some show ?thesis
    using from_rule_clamped
    by (auto simp: RewriteForDryRun_def bound_as_reviewed_def from_rule_def tool_clamped_def)
next
  case None
  note b = assms(2) [unfolded RewriteForDryRun_def None Let_def]
  show ?thesis
  proof (cases "toolName (hd argv) = ''terraform'' \<and> firstNonFlag (tl argv) = ''apply''")
    case True
    with None assms(1) show ?thesis
      by (simp add: RewriteForDryRun_def Let_def tool_clamped_def bound_as_reviewed_def
          toolName_terraform saved_plan_boundI [simplified])
  next
    case False
    with b assms(1) have "toolName (hd argv) = ''kubectl'' \<and>
        (firstNonFlag (tl argv) = ''apply'' \<or> firstNonFlag (tl argv) = ''delete'')"
      by (auto simp: no_preview_def split: if_splits)
    with False None assms(1) show ?thesis
      by (auto simp: RewriteForDryRun_def Let_def tool_clamped_def bound_as_reviewed_def)
  qed
qed

theorem RewriteForDryRun_sound_witness:
  "tool_clamped [''terraform'', ''apply'', ''-auto-approve'']
     (RewriteForDryRun (\<lambda>_. None) [''terraform'', ''apply'', ''-auto-approve''] None ''/workspace/p'')"
proof -
  have "Matched (RewriteForDryRun (\<lambda>_. None) [''terraform'', ''apply'', ''-auto-approve''] None ''/workspace/p'')"
    by code_simp
  from RewriteForDryRun_sound [OF _ this] show ?thesis by simp
qed

text \<open>
  The built-in kubectl preview trusts any \<open>--dry-run\<close> argument. A gated
  \<open>kubectl delete --dry-run=none pod x\<close> is previewed by running the destructive command itself,
  before any human approved it.
\<close>

theorem kubectl_preview_runs_the_command:
  "PreviewArgv (RewriteForDryRun re [''kubectl'', ''delete'', ''--dry-run=none'', ''pod'', ''x''] None pl)
     = [''kubectl'', ''delete'', ''--dry-run=none'', ''pod'', ''x''] \<and>
   Matched (RewriteForDryRun re [''kubectl'', ''delete'', ''--dry-run=none'', ''pod'', ''x''] None pl)"
  by (simp add: RewriteForDryRun_def sortedDryRun_def Let_def toolName_def path_base_plain)

end
