(* ===== verification/Policy_Classify.thy ===== *)
theory Policy_Classify
  imports Policy_Enforce
begin

text \<open>
  \<^verbatim>\<open>internal/policy/classify.go\<close>: \<open>ClassifyEdit\<close> decides whether a policy edit widens the
  guardrails (and then needs an approved change) or may be applied at once. The two lists of
  reasons hold the texts of the source.
\<close>

datatype direction = DirectionNarrowing | DirectionWidening | DirectionEquivalent

record classification =
  Direction :: direction
  Widenings :: "string list"
  Narrowings :: "string list"

definition widenOne :: "classification \<Rightarrow> string \<Rightarrow> classification" where
  "widenOne c r = c\<lparr>Widenings := Widenings c @ [r]\<rparr>"

definition narrowOne :: "classification \<Rightarrow> string \<Rightarrow> classification" where
  "narrowOne c r = c\<lparr>Narrowings := Narrowings c @ [r]\<rparr>"

fun widen :: "classification \<Rightarrow> string list \<Rightarrow> string \<Rightarrow> classification" where
  "widen c [] fmt = c"
| "widen c (it # items) fmt = widen (widenOne c (fmt @ it)) items fmt"

fun narrow :: "classification \<Rightarrow> string list \<Rightarrow> string \<Rightarrow> classification" where
  "narrow c [] fmt = c"
| "narrow c (it # items) fmt = narrow (narrowOne c (fmt @ it)) items fmt"

definition setDiff :: "string list \<Rightarrow> string list \<Rightarrow> string list \<times> string list" where
  "setDiff from to =
     (canon (filter (\<lambda>s. s \<notin> set from) to), canon (filter (\<lambda>s. s \<notin> set to) from))"

definition credKeys :: "cred list \<Rightarrow> string list" where
  "credKeys creds = map (\<lambda>c. CredName c @ ''@'' @ Provider c) creds"

fun dry_run_edit_key :: "string \<Rightarrow> string list \<Rightarrow> string" where
  "dry_run_edit_key key [] = key"
| "dry_run_edit_key key (p # ps) = dry_run_edit_key (key @ byte 0 # p) ps"

definition dryRunKeys :: "dry_run_rule list \<Rightarrow> string list" where
  "dryRunKeys rules = map (\<lambda>r. dry_run_edit_key (Pattern r) (sl (Preview r))) rules"

definition orNone :: "string \<Rightarrow> string" where
  "orNone s = (if s = [] then ''(inherit)'' else s)"

definition classifyTTL :: "classification \<Rightarrow> string \<Rightarrow> string \<Rightarrow> classification" where
  "classifyTTL c fromTTL toTTL =
     (if fromTTL = toTTL then c
      else if fromTTL = [] \<or> toTTL = []
      then widenOne c (''session ttl changed to or from the inherited default ('' @
             orNone fromTTL @ '' -> '' @ orNone toTTL @ '')'')
      else case (ParseDuration fromTTL, ParseDuration toTTL) of
        (Some fd, Some td) \<Rightarrow>
          if td > fd then widenOne c (''session ttl lengthened from '' @ fromTTL @ '' to '' @ toTTL)
          else if td < fd then narrowOne c (''session ttl shortened from '' @ fromTTL @ '' to '' @ toTTL)
          else c
      | _ \<Rightarrow> widenOne c (''session ttl changed to a value that cannot be parsed ('' @
               fromTTL @ '' -> '' @ toTTL @ '')''))"

subsection \<open>The residual\<close>

definition residual :: "policy \<Rightarrow> policy" where
  "residual p = p\<lparr>Egress := \<lparr>Domains = None\<rparr>,
     Allow := \<lparr>Kubectl = \<lparr>Namespaces = None, Verbs = None\<rparr>, Terraform = \<lparr>Commands = None\<rparr>, Exec = None\<rparr>,
     ApprovalRequired := None, Creds := None, DryRun := None, StrictExec := False,
     DryRunWarnOnFailure := False, Session := (Session p)\<lparr>TTL := []\<rparr>\<rparr>"

text \<open>
  \<^verbatim>\<open>collectDiff\<close> walks the struct by reflection; on \<^verbatim>\<open>Policy\<close> these are its leaves, in field
  order. \<^verbatim>\<open>DeepEqual\<close> tells the nil slice from the empty one, as equality of slices does.
\<close>

definition collectDiff :: "policy \<Rightarrow> policy \<Rightarrow> string list" where
  "collectDiff a b =
     (if TTL (Session a) \<noteq> TTL (Session b) then [''Session.TTL''] else []) @
     (if Tier (Session a) \<noteq> Tier (Session b) then [''Session.Tier''] else []) @
     (if Image (Session a) \<noteq> Image (Session b) then [''Session.Image''] else []) @
     (if Namespaces (Kubectl (Allow a)) \<noteq> Namespaces (Kubectl (Allow b))
      then [''Allow.Kubectl.Namespaces''] else []) @
     (if Verbs (Kubectl (Allow a)) \<noteq> Verbs (Kubectl (Allow b)) then [''Allow.Kubectl.Verbs''] else []) @
     (if Commands (Terraform (Allow a)) \<noteq> Commands (Terraform (Allow b))
      then [''Allow.Terraform.Commands''] else []) @
     (if Exec (Allow a) \<noteq> Exec (Allow b) then [''Allow.Exec''] else []) @
     (if ApprovalRequired a \<noteq> ApprovalRequired b then [''ApprovalRequired''] else []) @
     (if Domains (Egress a) \<noteq> Domains (Egress b) then [''Egress.Domains''] else []) @
     (if Creds a \<noteq> Creds b then [''Creds''] else []) @
     (if StrictExec a \<noteq> StrictExec b then [''StrictExec''] else []) @
     (if DryRun a \<noteq> DryRun b then [''DryRun''] else []) @
     (if DryRunWarnOnFailure a \<noteq> DryRunWarnOnFailure b then [''DryRunWarnOnFailure''] else [])"

definition residualDiff :: "policy \<Rightarrow> policy \<Rightarrow> string list" where
  "residualDiff from to =
     (if residual from = residual to then []
      else let out = collectDiff (residual from) (residual to)
           in sort (if out = [] then [''(unattributed)''] else out))"

fun widen_residual :: "classification \<Rightarrow> string list \<Rightarrow> classification" where
  "widen_residual c [] = c"
| "widen_residual c (f # fs) =
     widen_residual (widenOne c (''policy field '' @ f @
       '' changed and cannot be classified as narrowing; treating it as widening'')) fs"

subsection \<open>ClassifyEdit\<close>

definition classify_added :: "classification \<Rightarrow> string list \<Rightarrow> string list \<Rightarrow> string \<Rightarrow> string \<Rightarrow> classification" where
  "classify_added c from to wfmt nfmt =
     (let (added, removed) = setDiff from to in narrow (widen c added wfmt) removed nfmt)"

definition classify_removed :: "classification \<Rightarrow> string list \<Rightarrow> string list \<Rightarrow> string \<Rightarrow> string \<Rightarrow> classification" where
  "classify_removed c from to wfmt nfmt =
     (let (added, removed) = setDiff from to in narrow (widen c removed wfmt) added nfmt)"

definition classify_bools :: "classification \<Rightarrow> policy \<Rightarrow> policy \<Rightarrow> classification" where
  "classify_bools c from to =
     (let c1 = (if StrictExec from \<and> \<not> StrictExec to
                then widenOne c ''strict exec turned OFF: commands outside the allowlist become possible''
                else if \<not> StrictExec from \<and> StrictExec to then narrowOne c ''strict exec turned on''
                else c)
      in if \<not> DryRunWarnOnFailure from \<and> DryRunWarnOnFailure to
         then widenOne c1 ''failed previews now WARN instead of blocking''
         else if DryRunWarnOnFailure from \<and> \<not> DryRunWarnOnFailure to
         then narrowOne c1 ''failed previews now block''
         else c1)"

definition edit_reasons :: "policy \<Rightarrow> policy \<Rightarrow> classification" where
  "edit_reasons from to =
     (let c = \<lparr>Direction = DirectionEquivalent, Widenings = [], Narrowings = []\<rparr>;
          c = classify_added c (sl (Domains (Egress from))) (sl (Domains (Egress to)))
                ''egress host allowed: '' ''egress host removed: '';
          c = classify_added c (sl (Exec (Allow from))) (sl (Exec (Allow to)))
                ''exec pattern allowed: '' ''exec pattern removed: '';
          c = classify_added c (sl (Namespaces (Kubectl (Allow from)))) (sl (Namespaces (Kubectl (Allow to))))
                ''kubectl namespace allowed: '' ''kubectl namespace removed: '';
          c = classify_added c (sl (Verbs (Kubectl (Allow from)))) (sl (Verbs (Kubectl (Allow to))))
                ''kubectl verb allowed: '' ''kubectl verb removed: '';
          c = classify_added c (sl (Commands (Terraform (Allow from)))) (sl (Commands (Terraform (Allow to))))
                ''terraform command allowed: '' ''terraform command removed: '';
          c = classify_removed c (sl (ApprovalRequired from)) (sl (ApprovalRequired to))
                ''approval gate REMOVED: '' ''approval gate added: '';
          c = classify_added c (credKeys (sl (Creds from))) (credKeys (sl (Creds to)))
                ''credential granted: '' ''credential revoked: '';
          c = classify_removed c (dryRunKeys (sl (DryRun from))) (dryRunKeys (sl (DryRun to)))
                ''preview rule removed: '' ''preview rule added: '';
          c = classify_bools c from to;
          c = classifyTTL c (TTL (Session from)) (TTL (Session to))
      in widen_residual c (residualDiff from to))"

definition ClassifyEdit :: "policy \<Rightarrow> policy \<Rightarrow> classification" where
  "ClassifyEdit from to =
     (let c = edit_reasons (normalize from) (normalize to)
      in c\<lparr>Direction := (if Widenings c \<noteq> [] then DirectionWidening
                          else if Narrowings c \<noteq> [] then DirectionNarrowing
                          else DirectionEquivalent)\<rparr>)"

subsection \<open>When the lists of reasons stay empty\<close>

named_theorems reason_simps

lemma reasons_One [reason_simps]:
  "Widenings (widenOne c r) = Widenings c @ [r]" "Narrowings (widenOne c r) = Narrowings c"
  "Widenings (narrowOne c r) = Widenings c" "Narrowings (narrowOne c r) = Narrowings c @ [r]"
  by (simp_all add: widenOne_def narrowOne_def)

lemma reasons_widen [reason_simps]:
  "Widenings (widen c items fmt) = Widenings c @ map (\<lambda>i. fmt @ i) items"
  "Narrowings (widen c items fmt) = Narrowings c"
  by (induction c items fmt rule: widen.induct) (simp_all add: reason_simps)

lemma reasons_narrow [reason_simps]:
  "Widenings (narrow c items fmt) = Widenings c"
  "Narrowings (narrow c items fmt) = Narrowings c @ map (\<lambda>i. fmt @ i) items"
  by (induction c items fmt rule: narrow.induct) (simp_all add: reason_simps)

lemma reasons_residual [reason_simps]:
  "Widenings (widen_residual c fs) = [] \<longleftrightarrow> Widenings c = [] \<and> fs = []"
  "Narrowings (widen_residual c fs) = Narrowings c"
  by (induction c fs rule: widen_residual.induct) (auto simp: reason_simps)

lemma filter_notin_Nil: "filter (\<lambda>s. s \<notin> set from) to = [] \<longleftrightarrow> set to \<subseteq> set from"
  by (auto simp: filter_empty_conv)

lemma reasons_added [reason_simps]:
  "Widenings (classify_added c from to w n) = [] \<longleftrightarrow> Widenings c = [] \<and> set to \<subseteq> set from"
  "Narrowings (classify_added c from to w n) = [] \<longleftrightarrow> Narrowings c = [] \<and> set from \<subseteq> set to"
  by (auto simp: classify_added_def setDiff_def reason_simps filter_notin_Nil)

lemma reasons_removed [reason_simps]:
  "Widenings (classify_removed c from to w n) = [] \<longleftrightarrow> Widenings c = [] \<and> set from \<subseteq> set to"
  "Narrowings (classify_removed c from to w n) = [] \<longleftrightarrow> Narrowings c = [] \<and> set to \<subseteq> set from"
  by (auto simp: classify_removed_def setDiff_def reason_simps filter_notin_Nil)

lemma reasons_bools [reason_simps]:
  "Widenings (classify_bools c from to) = [] \<longleftrightarrow>
     Widenings c = [] \<and> (StrictExec from \<longrightarrow> StrictExec to) \<and>
     (DryRunWarnOnFailure to \<longrightarrow> DryRunWarnOnFailure from)"
  "Narrowings (classify_bools c from to) = [] \<longleftrightarrow>
     Narrowings c = [] \<and> (StrictExec to \<longrightarrow> StrictExec from) \<and>
     (DryRunWarnOnFailure from \<longrightarrow> DryRunWarnOnFailure to)"
  by (auto simp: classify_bools_def Let_def reason_simps)

text \<open>A lifetime that the edit keeps or provably shortens.\<close>

definition ttl_tightens :: "string \<Rightarrow> string \<Rightarrow> bool" where
  "ttl_tightens f t \<longleftrightarrow> f = t \<or>
     (f \<noteq> [] \<and> t \<noteq> [] \<and> (case (ParseDuration f, ParseDuration t) of
        (Some fd, Some td) \<Rightarrow> td \<le> fd | _ \<Rightarrow> False))"

lemma reasons_ttl [reason_simps]:
  "Widenings (classifyTTL c f t) = [] \<longleftrightarrow> Widenings c = [] \<and> ttl_tightens f t"
  by (auto simp: classifyTTL_def ttl_tightens_def reason_simps split: option.splits)

lemma collectDiff_Nil: "collectDiff a b = [] \<longleftrightarrow> a = b"
  by (cases a; cases b; cases "Session a"; cases "Session b"; cases "Allow a"; cases "Allow b";
      cases "Kubectl (Allow a)"; cases "Kubectl (Allow b)"; cases "Terraform (Allow a)";
      cases "Terraform (Allow b)"; cases "Egress a"; cases "Egress b")
    (simp add: collectDiff_def)

lemma residual_eq_iff:
  "residual a = residual b \<longleftrightarrow>
     Tier (Session a) = Tier (Session b) \<and> Image (Session a) = Image (Session b)"
  by (cases a; cases b; cases "Session a"; cases "Session b") (simp add: residual_def)

lemma residualDiff_Nil [reason_simps]:
  "residualDiff a b = [] \<longleftrightarrow>
     Tier (Session a) = Tier (Session b) \<and> Image (Session a) = Image (Session b)"
  by (simp add: residualDiff_def Let_def flip: residual_eq_iff)

lemma residualDiff_attributed:
  "residualDiff a b =
     (if Image (Session a) \<noteq> Image (Session b) then [''Session.Image''] else []) @
     (if Tier (Session a) \<noteq> Tier (Session b) then [''Session.Tier''] else [])"
proof -
  have "collectDiff (residual a) (residual b) =
      (if Tier (Session a) \<noteq> Tier (Session b) then [''Session.Tier''] else []) @
      (if Image (Session a) \<noteq> Image (Session b) then [''Session.Image''] else [])"
    by (simp add: collectDiff_def residual_def)
  moreover have "(''Session.Image'' :: string) < ''Session.Tier''" by code_simp
  ultimately show ?thesis
    by (auto simp: residualDiff_def Let_def residual_eq_iff)
qed

subsection \<open>What an ungated edit is\<close>

text \<open>
  The edits that need no approval, on the sections as sets and with no reference to the lists
  of reasons. Tier and image must stay as they are; credentials and preview rules are compared
  through the keys the code renders.
\<close>

definition edit_tightens :: "policy \<Rightarrow> policy \<Rightarrow> bool" where
  "edit_tightens f t \<longleftrightarrow>
     exec_narrows f t \<and>
     set (sl (Domains (Egress t))) \<subseteq> set (sl (Domains (Egress f))) \<and>
     set (credKeys (sl (Creds t))) \<subseteq> set (credKeys (sl (Creds f))) \<and>
     set (dryRunKeys (sl (DryRun f))) \<subseteq> set (dryRunKeys (sl (DryRun t))) \<and>
     (DryRunWarnOnFailure t \<longrightarrow> DryRunWarnOnFailure f) \<and>
     ttl_tightens (TTL (Session f)) (TTL (Session t)) \<and>
     Tier (Session t) = Tier (Session f) \<and> Image (Session t) = Image (Session f)"

lemma set_credKeys_normalize [simp]:
  "set (credKeys (sl (Creds (normalize p)))) = set (credKeys (sl (Creds p)))"
  by (simp add: credKeys_def)

lemma set_dryRunKeys_normalize [simp]:
  "set (dryRunKeys (sl (DryRun (normalize p)))) = set (dryRunKeys (sl (DryRun p)))"
  by (simp add: dryRunKeys_def)

lemma no_widenings_iff:
  "Widenings (edit_reasons f t) = [] \<longleftrightarrow> edit_tightens f t"
  by (auto simp: edit_reasons_def Let_def reason_simps edit_tightens_def exec_narrows_def)

lemma edit_tightens_normalize [simp]: "edit_tightens (normalize f) (normalize t) \<longleftrightarrow> edit_tightens f t"
  by (simp add: edit_tightens_def exec_narrows_normalize)

lemma Direction_widening_iff:
  "Direction (ClassifyEdit f t) = DirectionWidening \<longleftrightarrow> \<not> edit_tightens f t"
  using no_widenings_iff [of "normalize f" "normalize t"]
  by (auto simp: ClassifyEdit_def Let_def)

subsection \<open>Properties\<close>

text \<open>
  \<open>ClassifyEdit\<close> sends an edit to approval exactly when it is not a tightening: every grant
  set (egress hosts, exec patterns, kubectl namespaces and verbs, terraform commands, credential
  keys) can only shrink, gates and preview rules can only grow, strict mode and blocking
  previews cannot be switched off, the TTL is unchanged or provably no longer, and tier and
  image are untouched. Nothing else about the edit matters.
\<close>

theorem ClassifyEdit_ungated_iff:
  "(Direction (ClassifyEdit f t) = DirectionWidening) = (\<not> edit_tightens f t)"
  by (rule Direction_widening_iff)

text \<open>
  An edit that is applied without approval never lets a new command run ungated, provided it
  leaves no structured grant set of the old policy empty.
\<close>

theorem ungated_edit_enforces:
  assumes "Direction (ClassifyEdit f t) \<noteq> DirectionWidening" and "keeps_constraints f t"
    and "Verdict (Classify re t argv) = VerdictAllow"
  shows "Verdict (Classify re f argv) = VerdictAllow"
proof -
  from assms(1) have "exec_narrows f t"
    by (simp add: Direction_widening_iff edit_tightens_def)
  moreover from assms(3) have "runs_ungated re t argv"
    by (simp add: Classify_verdict split: if_splits)
  ultimately have "runs_ungated re f argv"
    using runs_ungated_mono assms(2) by blast
  then show ?thesis
    by (auto simp: Classify_verdict runs_ungated_def)
qed

theorem ungated_edit_enforces_witness:
  "Verdict (Classify (\<lambda>_. None) (verbs_policy (Some [''get'', ''list''])) [''kubectl'', ''get'', ''pods'']) =
     VerdictAllow"
proof -
  have d: "Direction (ClassifyEdit (verbs_policy (Some [''get'', ''list''])) (verbs_policy (Some [''get'']))) \<noteq>
      DirectionWidening"
    by (simp add: Direction_widening_iff edit_tightens_def verbs_policy_def Default_def exec_narrows_def
        ttl_tightens_def)
  have k: "keeps_constraints (verbs_policy (Some [''get'', ''list''])) (verbs_policy (Some [''get'']))"
    by (simp add: keeps_constraints_def verbs_policy_def Default_def)
  have v: "Verdict (Classify (\<lambda>_. None) (verbs_policy (Some [''get''])) [''kubectl'', ''get'', ''pods'']) =
      VerdictAllow"
    by code_simp
  from ungated_edit_enforces [OF d k v] show ?thesis .
qed

text \<open>
  That proviso is needed: taking the last verb out of \<open>allow.kubectl.verbs\<close> is classified
  as narrowing and applied ungated, and it makes \<open>kubectl delete pod x\<close>, refused before, run.
\<close>

theorem narrowing_edit_unconstrains:
  "Direction (ClassifyEdit (verbs_policy (Some [''get''])) (verbs_policy None)) = DirectionNarrowing \<and>
   Verdict (Classify re (verbs_policy (Some [''get''])) [''kubectl'', ''delete'', ''pod'', ''x'']) = VerdictDeny \<and>
   Verdict (Classify re (verbs_policy None) [''kubectl'', ''delete'', ''pod'', ''x'']) = VerdictAllow"
proof (intro conjI)
  show "Direction (ClassifyEdit (verbs_policy (Some [''get''])) (verbs_policy None)) = DirectionNarrowing"
    by code_simp
qed (simp_all only: Verdict_delete_pod)

definition cred_policy :: "string \<Rightarrow> string \<Rightarrow> policy" where
  "cred_policy n v = Default\<lparr>Creds := Some [\<lparr>CredName = n, Provider = v\<rparr>]\<rparr>"

text \<open>
  The credential keys are ambiguous: replacing the grant \<open>a\<close> of provider \<open>b@c\<close> by the
  grant \<open>a@b\<close> of provider \<open>c\<close> is classified as no change at all.
\<close>

theorem cred_swap_is_equivalent:
  "Direction (ClassifyEdit (cred_policy ''a'' ''b@c'') (cred_policy ''a@b'' ''c'')) = DirectionEquivalent \<and>
   \<not> same_policy (cred_policy ''a'' ''b@c'') (cred_policy ''a@b'' ''c'')"
proof
  show "Direction (ClassifyEdit (cred_policy ''a'' ''b@c'') (cred_policy ''a@b'' ''c'')) = DirectionEquivalent"
    by code_simp
  show "\<not> same_policy (cred_policy ''a'' ''b@c'') (cred_policy ''a@b'' ''c'')"
    by (simp add: same_policy_def cred_policy_def)
qed

end
