(* ===== verification/Policy_Scope.thy ===== *)
theory Policy_Scope
  imports Policy_Load
begin

text \<open>
  How a session gets its policy: \<^verbatim>\<open>policy.Load\<close>, \<^verbatim>\<open>internal/project/policy.go\<close> (the chain
  daemon, project, environment) and the policy steps of \<^verbatim>\<open>internal/session/manager.go\<close>
  (\<open>resolveCreatePolicy\<close>, \<open>resolvePolicy\<close>, \<open>enforceTier\<close>, \<open>enforceTTL\<close>). The file system
  is the function \<open>fs\<close> from paths to the outcome of reading them; parsing is the function
  \<open>parse\<close> (the \<^verbatim>\<open>Parse\<close> of the previous theory with its library parameters fixed).
\<close>

datatype read_result = NotExist | ReadFailed string | Bytes string

datatype load_failure = LoadNotExist | LoadReadFailed string | LoadInvalid validation_error

type_synonym parser = "string \<Rightarrow> string \<Rightarrow> validation_error + policy"

definition Load :: "parser \<Rightarrow> (string \<Rightarrow> read_result) \<Rightarrow> string \<Rightarrow> load_failure + policy" where
  "Load parse fs path =
     (case fs path of
        NotExist \<Rightarrow> Inl LoadNotExist
      | ReadFailed e \<Rightarrow> Inl (LoadReadFailed e)
      | Bytes b \<Rightarrow> (case parse b (path_base path) of Inl e \<Rightarrow> Inl (LoadInvalid e) | Inr p \<Rightarrow> Inr p))"

datatype scope_error =
    LayerMissing string string
  | LayerInvalid string string load_failure
  | WorkspacePolicyInvalid load_failure
  | UnknownTierRequested string
  | WeakerTierRequested string string

definition LoadLayer ::
  "parser \<Rightarrow> (string \<Rightarrow> read_result) \<Rightarrow> string \<Rightarrow> string \<Rightarrow> scope_error + policy" where
  "LoadLayer parse fs kind path =
     (case Load parse fs path of
        Inr p \<Rightarrow> Inr p
      | Inl e \<Rightarrow> if e = LoadNotExist then Inl (LayerMissing kind path)
                 else Inl (LayerInvalid kind path e))"

subsection \<open>The layers over the daemon policy\<close>

record layer =
  LayerName :: string
  LayerPolicy :: policy

text \<open>A resolved policy whose notes carry the name of the layer that over-reached.\<close>

record scope_resolved =
  ScopePolicy :: policy
  ScopeHash :: string
  Clamps :: "(string \<times> merge_note) list"

fun resolve_layers ::
  "(string \<Rightarrow> string) \<Rightarrow> resolved \<Rightarrow> (string \<times> merge_note) list \<Rightarrow> layer list \<Rightarrow>
   resolved \<times> (string \<times> merge_note) list" where
  "resolve_layers H cur clamps [] = (cur, clamps)"
| "resolve_layers H cur clamps (l # ls) =
     (let nxt = Resolve H (Policy cur) (LayerPolicy l)
      in resolve_layers H nxt (clamps @ map (\<lambda>n. (LayerName l, n)) (Notes nxt)) ls)"

definition ResolvePolicy :: "(string \<Rightarrow> string) \<Rightarrow> policy \<Rightarrow> layer list \<Rightarrow> scope_resolved" where
  "ResolvePolicy H base layers =
     (let (cur, clamps) = resolve_layers H (ResolveDefault H base) [] layers
      in \<lparr>ScopePolicy = Policy cur, ScopeHash = Hash cur, Clamps = clamps\<rparr>)"

subsection \<open>The workspace policy\<close>

datatype mode = ModeScratch | ModeWorkspace

definition resolvePolicy ::
  "(string \<Rightarrow> string) \<Rightarrow> parser \<Rightarrow> (string \<Rightarrow> read_result) \<Rightarrow> policy \<Rightarrow> string \<Rightarrow> scope_error + resolved" where
  "resolvePolicy H parse fs base wsDir =
     (if wsDir = [] then Inr (ResolveDefault H base)
      else case Load parse fs (path_clean (wsDir @ ''/'' @ DefaultFileName)) of
        Inr ws \<Rightarrow> Inr (Resolve H base ws)
      | Inl e \<Rightarrow> if e = LoadNotExist then Inr (ResolveDefault H base)
                 else Inl (WorkspacePolicyInvalid e))"

definition workspaceDir :: "string \<Rightarrow> string \<Rightarrow> string" where
  "workspaceDir root name = path_clean (root @ ''/ws-'' @ name)"

definition resolveCreatePolicy ::
  "(string \<Rightarrow> string) \<Rightarrow> parser \<Rightarrow> (string \<Rightarrow> read_result) \<Rightarrow> string \<Rightarrow> mode \<Rightarrow> string \<Rightarrow> policy \<Rightarrow>
   scope_error + resolved" where
  "resolveCreatePolicy H parse fs workspaceRoot md name base =
     (if md \<noteq> ModeWorkspace \<or> workspaceRoot = [] then Inr (ResolveDefault H base)
      else resolvePolicy H parse fs base (workspaceDir workspaceRoot name))"

subsection \<open>Tier and TTL of the session\<close>

record session_scope =
  Base :: policy
  DefaultTier :: string
  DefaultTTL :: int

definition enforceTier :: "string \<Rightarrow> resolved \<Rightarrow> session_scope \<Rightarrow> scope_error + string" where
  "enforceTier reqTier resolved scope =
     (let tier = (if reqTier = [] then DefaultTier scope else reqTier) in
      if Tier (Session (Base scope)) = [] then Inr tier
      else case tierRank (Tier (Session (Policy resolved))) of
        None \<Rightarrow> Inr tier
      | Some floorRank \<Rightarrow>
          (case tierRank tier of
             None \<Rightarrow> Inl (UnknownTierRequested tier)
           | Some tRank \<Rightarrow>
               if tRank < floorRank then
                 if reqTier \<noteq> []
                 then Inl (WeakerTierRequested reqTier (Tier (Session (Policy resolved))))
                 else Inr (Tier (Session (Policy resolved)))
               else Inr tier))"

definition enforceTTL :: "int \<Rightarrow> resolved \<Rightarrow> session_scope \<Rightarrow> int" where
  "enforceTTL reqTTL resolved scope =
     (let ttl = (if reqTTL \<le> 0 then DefaultTTL scope else reqTTL) in
      if TTL (Session (Base scope)) = [] then ttl
      else case ParseDuration (TTL (Session (Policy resolved))) of
        None \<Rightarrow> ttl
      | Some d \<Rightarrow> if d > 0 \<and> (ttl \<le> 0 \<or> ttl > d) then d else ttl)"

subsection \<open>The chain narrows\<close>

lemma narrows_normalize: "narrows d (normalize d)"
  unfolding narrows_def by (simp add: normalize_def)

lemma ResolveDefault_narrows: "narrows d (Policy (ResolveDefault H d))"
  by (simp add: ResolveDefault_def Let_def narrows_normalize)

lemma resolve_layers_policy:
  "Policy (fst (resolve_layers H cur cl ls)) = foldl (stack_policy H) (Policy cur) (map LayerPolicy ls)"
  by (induction H cur cl ls rule: resolve_layers.induct) (simp_all add: Let_def stack_policy_def)

lemma resolve_layers_narrows: "narrows (Policy cur) (Policy (fst (resolve_layers H cur cl ls)))"
  unfolding resolve_layers_policy by (rule narrowing.stack_le)

lemma resolve_layers_append:
  "resolve_layers H cur cl (as @ bs) = (case resolve_layers H cur cl as of (c, k) \<Rightarrow> resolve_layers H c k bs)"
  by (induction H cur cl as rule: resolve_layers.induct) (simp_all add: Let_def)

lemma resolvePolicy_narrows:
  "resolvePolicy H parse fs base dir = Inr r \<Longrightarrow> narrows base (Policy r)"
  using ResolveDefault_narrows Resolve_narrows_lemma
  by (auto simp: resolvePolicy_def split: sum.splits if_splits)

lemma resolveCreatePolicy_narrows:
  "resolveCreatePolicy H parse fs root md name base = Inr r \<Longrightarrow> narrows base (Policy r)"
  using ResolveDefault_narrows resolvePolicy_narrows
  by (auto simp: resolveCreatePolicy_def split: if_splits)

text \<open>The hash that is recorded is the hash of the policy that is enforced.\<close>

lemma hashOf_normalize: "hashOf H (normalize p) = hashOf H p"
  by (simp add: hashOf_def canonicalPreimage_def normalize_idem)

lemma resolve_layers_hash:
  "Hash cur = hashOf H (Policy cur) \<Longrightarrow>
   Hash (fst (resolve_layers H cur cl ls)) = hashOf H (Policy (fst (resolve_layers H cur cl ls)))"
  by (induction H cur cl ls rule: resolve_layers.induct) (auto simp: Let_def Resolve_def case_prod_beta)

subsection \<open>Reading the notes\<close>

definition dropped_grants :: "string \<Rightarrow> merge_note list \<Rightarrow> string set" where
  "dropped_grants f ns = {v. DroppedGrant f v \<in> set ns}"

definition dropped_creds :: "merge_note list \<Rightarrow> (string \<times> string) set" where
  "dropped_creds ns = {(n, v). DroppedCred n v \<in> set ns}"

lemma dropped_grants_simps [result_simps]:
  "dropped_grants f [] = {}"
  "dropped_grants f (xs @ ys) = dropped_grants f xs \<union> dropped_grants f ys"
  "dropped_grants f (map (DroppedGrant g) vs) = (if f = g then set vs else {})"
  "dropped_grants f (map (\<lambda>c. DroppedCred (CredName c) (Provider c)) cs) = {}"
  "dropped_grants f (TtlClamped a b # ns) = dropped_grants f ns"
  "dropped_grants f (TierClamped a b # ns) = dropped_grants f ns"
  "dropped_grants f (ImageClamped a b # ns) = dropped_grants f ns"
  "dropped_grants f (DryRunIgnored # ns) = dropped_grants f ns"
  by (auto simp: dropped_grants_def)

lemma dropped_creds_simps [result_simps]:
  "dropped_creds [] = {}"
  "dropped_creds (xs @ ys) = dropped_creds xs \<union> dropped_creds ys"
  "dropped_creds (map (DroppedGrant g) vs) = {}"
  "dropped_creds (map (\<lambda>c. DroppedCred (CredName c) (Provider c)) cs) = cred_key ` set cs"
  "dropped_creds (TtlClamped a b # ns) = dropped_creds ns"
  "dropped_creds (TierClamped a b # ns) = dropped_creds ns"
  "dropped_creds (ImageClamped a b # ns) = dropped_creds ns"
  "dropped_creds (DryRunIgnored # ns) = dropped_creds ns"
  by (auto simp: dropped_creds_def cred_key_def)

lemma dropped_limit_notes [result_simps]:
  "dropped_grants f (limit_notes a b) = {}" "dropped_creds (limit_notes a b) = {}"
  by (simp_all add: limit_notes_def resolveSession_def resolve_ttl_def resolve_tier_def resolve_image_def
      Let_def result_simps split: option.splits)

lemma dropped_grants_Resolve:
  "dropped_grants f (Notes (Resolve H d w)) =
     (if f = ''allow.kubectl.namespaces''
      then set (sl (Namespaces (Kubectl (Allow w)))) - set (sl (Namespaces (Kubectl (Allow d)))) else {}) \<union>
     (if f = ''allow.kubectl.verbs''
      then set (sl (Verbs (Kubectl (Allow w)))) - set (sl (Verbs (Kubectl (Allow d)))) else {}) \<union>
     (if f = ''allow.terraform.commands''
      then set (sl (Commands (Terraform (Allow w)))) - set (sl (Commands (Terraform (Allow d)))) else {}) \<union>
     (if f = ''allow.exec'' then set (sl (Exec (Allow w))) - set (sl (Exec (Allow d))) else {}) \<union>
     (if f = ''egress.domains'' then set (sl (Domains (Egress w))) - set (sl (Domains (Egress d))) else {})"
proof -
  have t: "set (filter (\<lambda>v. v \<notin> A) xs) = set xs - A" for A and xs :: "string list" by auto
  have c: "dropped_grants f (if b then [DryRunIgnored] else []) = {}" for b
    by (simp add: result_simps)
  show ?thesis unfolding Notes_Resolve result_simps t c by (simp only: Un_assoc Un_empty_right Un_empty_left)
qed

lemma dropped_creds_Resolve:
  "dropped_creds (Notes (Resolve H d w)) = cred_key ` (set (sl (Creds w)) - set (sl (Creds d)))"
proof -
  have t: "set (filter (\<lambda>v. v \<notin> A) xs) = set xs - A" for A and xs :: "cred list" by auto
  have c: "dropped_creds (if b then [DryRunIgnored] else []) = {}" for b
    by (simp add: result_simps)
  show ?thesis unfolding Notes_Resolve result_simps t c by simp
qed

subsection \<open>Properties\<close>

text \<open>
  C3: The chain daemon, project, environment, workspace never widens: whatever the layers and
  whatever the workspace file holds, the policy a session is created with narrows the daemon's
  policy, and every longer chain narrows its prefixes. Grants (namespaces, verbs, commands, exec,
  egress, credentials) are subsets, approval gates a superset, strict mode, TTL, tier, image and
  the preview rules at least as tight.
\<close>

theorem session_policy_narrows_daemon:
  assumes "resolveCreatePolicy H parse fs root md name
             (ScopePolicy (ResolvePolicy H daemon (layers @ later))) = Inr r"
  shows "narrows daemon (Policy r) \<and> narrows (ScopePolicy (ResolvePolicy H daemon layers)) (Policy r)"
proof -
  let ?p = "\<lambda>ls. Policy (fst (resolve_layers H (ResolveDefault H daemon) [] ls))"
  have p: "ScopePolicy (ResolvePolicy H daemon ls) = ?p ls" for ls
    by (simp add: ResolvePolicy_def Let_def case_prod_beta)
  have "narrows daemon (?p layers)"
    using narrows_trans [OF ResolveDefault_narrows resolve_layers_narrows] .
  moreover have "narrows (?p layers) (?p (layers @ later))"
    by (simp add: resolve_layers_append case_prod_beta resolve_layers_narrows)
  moreover have "narrows (?p (layers @ later)) (Policy r)"
    using resolveCreatePolicy_narrows [OF assms] by (simp add: p)
  ultimately show ?thesis using narrows_trans p by metis
qed

theorem session_policy_narrows_daemon_witness:
  "narrows (verbs_policy (Some [''get''])) (Policy (ResolveDefault id (normalize (verbs_policy (Some [''get''])))))"
proof -
  have "resolveCreatePolicy id (\<lambda>_ _. Inr Default) (\<lambda>_. NotExist) [] ModeScratch []
      (ScopePolicy (ResolvePolicy id (verbs_policy (Some [''get''])) ([] @ []))) =
      Inr (ResolveDefault id (normalize (verbs_policy (Some [''get'']))))"
    by (simp add: resolveCreatePolicy_def ResolvePolicy_def ResolveDefault_def Let_def)
  from session_policy_narrows_daemon [OF this] show ?thesis by simp
qed

text \<open>
  C4: While the chain keeps the structured grant sets of the daemon policy non-empty, a command
  that a session runs without a gate is one that the daemon's own policy runs without a gate.
\<close>

theorem session_commands_within_daemon:
  assumes "resolveCreatePolicy H parse fs root md name (ScopePolicy (ResolvePolicy H daemon layers)) = Inr r"
    and "keeps_constraints daemon (Policy r)"
    and "Verdict (Classify re (Policy r) argv) = VerdictAllow"
  shows "Verdict (Classify re daemon argv) = VerdictAllow"
proof -
  let ?p = "Policy (fst (resolve_layers H (ResolveDefault H daemon) [] layers))"
  have "narrows daemon ?p" using narrows_trans [OF ResolveDefault_narrows resolve_layers_narrows] .
  moreover have "narrows ?p (Policy r)"
    using resolveCreatePolicy_narrows [OF assms(1)]
    by (simp add: ResolvePolicy_def Let_def case_prod_beta)
  ultimately have "exec_narrows daemon (Policy r)"
    using narrows_exec narrows_trans by blast
  with assms(2,3) show ?thesis
    using runs_ungated_mono by (auto simp: Classify_verdict runs_ungated_def split: if_splits)
qed

theorem session_commands_within_daemon_witness:
  "Verdict (Classify (\<lambda>_. None) (verbs_policy (Some [''get''])) [''kubectl'', ''get'', ''pods'']) = VerdictAllow"
proof -
  let ?d = "verbs_policy (Some [''get''])"
  have r: "resolveCreatePolicy id (\<lambda>_ _. Inr Default) (\<lambda>_. NotExist) [] ModeScratch []
      (ScopePolicy (ResolvePolicy id ?d [])) = Inr (ResolveDefault id (normalize ?d))"
    by (simp add: resolveCreatePolicy_def ResolvePolicy_def ResolveDefault_def Let_def)
  have k: "keeps_constraints ?d (Policy (ResolveDefault id (normalize ?d)))"
    by (simp add: ResolveDefault_def Let_def keeps_constraints_normalize) (simp add: keeps_constraints_def)
  have v: "Verdict (Classify (\<lambda>_. None) (Policy (ResolveDefault id (normalize ?d))) [''kubectl'', ''get'', ''pods'']) =
      VerdictAllow"
    by (simp add: ResolveDefault_def Let_def normalize_idem normalize_verbs_policy Verdict_get_pods)
  from session_commands_within_daemon [OF r k v] show ?thesis .
qed

text \<open>
  The proviso is needed. A workspace file with an empty verb list empties the daemon's verb
  grant, and an empty grant is read as "unconstrained": \<open>kubectl delete pod x\<close>, which the daemon
  policy refuses, runs in the session although the resolved policy narrows the daemon's.
\<close>

theorem empty_intersection_widens:
  "\<exists>daemon workspace argv. narrows daemon (Policy (Resolve H daemon workspace)) \<and>
     Verdict (Classify re daemon argv) = VerdictDeny \<and>
     Verdict (Classify re (Policy (Resolve H daemon workspace)) argv) = VerdictAllow"
proof (intro exI conjI)
  let ?d = "verbs_policy (Some [''get''])" and ?w = "verbs_policy (Some [])"
  let ?argv = "[''kubectl'', ''delete'', ''pod'', ''x'']"
  show "narrows ?d (Policy (Resolve H ?d ?w))" by (rule Resolve_narrows_lemma)
  show "Verdict (Classify re ?d ?argv) = VerdictDeny" by (rule Verdict_delete_pod)
  have "Policy (Resolve H ?d ?w) = verbs_policy None"
    by (simp add: Resolve_def merge_policy_def verbs_policy_def Default_def Let_def intersect_def
        intersectCreds_def resolveSession_def resolve_ttl_def resolve_tier_def resolve_image_def
        unionSet_def normalize_def sortedSet_def sortedCreds_def sortedDryRun_def mk_slice_def)
  then show "Verdict (Classify re (Policy (Resolve H ?d ?w)) ?argv) = VerdictAllow"
    by (simp only: Verdict_delete_pod)
qed

text \<open>
  The notes of a resolution name exactly what was taken away: a grant of the workspace is
  noted as dropped if and only if the daemon does not have it, for each of the five grant
  sections and for credentials; so nothing is clamped silently.
\<close>

theorem Resolve_notes_exact:
  "{v. DroppedGrant ''allow.kubectl.namespaces'' v \<in> set (Notes (Resolve H d w))} =
     set (sl (Namespaces (Kubectl (Allow w)))) - set (sl (Namespaces (Kubectl (Allow d)))) \<and>
   {v. DroppedGrant ''allow.kubectl.verbs'' v \<in> set (Notes (Resolve H d w))} =
     set (sl (Verbs (Kubectl (Allow w)))) - set (sl (Verbs (Kubectl (Allow d)))) \<and>
   {v. DroppedGrant ''allow.terraform.commands'' v \<in> set (Notes (Resolve H d w))} =
     set (sl (Commands (Terraform (Allow w)))) - set (sl (Commands (Terraform (Allow d)))) \<and>
   {v. DroppedGrant ''allow.exec'' v \<in> set (Notes (Resolve H d w))} =
     set (sl (Exec (Allow w))) - set (sl (Exec (Allow d))) \<and>
   {v. DroppedGrant ''egress.domains'' v \<in> set (Notes (Resolve H d w))} =
     set (sl (Domains (Egress w))) - set (sl (Domains (Egress d))) \<and>
   {(n, v). DroppedCred n v \<in> set (Notes (Resolve H d w))} =
     cred_key ` (set (sl (Creds w)) - set (sl (Creds d)))"
  by (simp add: dropped_grants_Resolve dropped_creds_Resolve
      flip: dropped_grants_def dropped_creds_def)

text \<open>
  A lifetime or tier that the trusted scope pins binds every session created in it: the
  session's TTL is positive and no longer than the scope's, and a tier that is granted is no
  weaker than the scope's, whatever the caller requests and whatever the workspace file says.
\<close>

theorem session_limits_enforced:
  assumes "resolveCreatePolicy H parse fs root md name (Base scope) = Inr r"
    and "parseTTL (TTL (Session (Base scope))) = Some t"
    and "knownTier (Tier (Session (Base scope)))" and "enforceTier reqTier r scope = Inr tier"
  shows "0 < enforceTTL reqTTL r scope \<and> enforceTTL reqTTL r scope \<le> t \<and>
         tier_rank0 (Tier (Session (Base scope))) \<le> tier_rank0 tier"
proof -
  from resolveCreatePolicy_narrows [OF assms(1)]
  have ttl: "ttl_le (TTL (Session (Base scope))) (TTL (Session (Policy r)))"
    and tr: "tier_rank0 (Tier (Session (Base scope))) \<le> tier_rank0 (Tier (Session (Policy r)))"
    by (simp_all add: narrows_def)
  from ttl assms(2) obtain u where u: "parseTTL (TTL (Session (Policy r))) = Some u" "u \<le> t"
    by (auto simp: ttl_le_def split: option.splits)
  from u(1) have "ParseDuration (TTL (Session (Policy r))) = Some u" "0 < u"
    by (auto simp: parseTTL_def split: if_splits option.splits)
  moreover have "TTL (Session (Base scope)) \<noteq> []"
    using assms(2) by (auto simp: parseTTL_def)
  ultimately have "0 < enforceTTL reqTTL r scope \<and> enforceTTL reqTTL r scope \<le> t"
    using u(2) by (auto simp: enforceTTL_def Let_def)
  moreover have "tier_rank0 (Tier (Session (Base scope))) \<le> tier_rank0 tier"
  proof -
    have "Tier (Session (Base scope)) \<noteq> []" using assms(3) by (auto simp: knownTier_def tierRank_def)
    with assms(4) tr show ?thesis
      by (auto simp: enforceTier_def Let_def tier_rank0_def split: option.splits if_splits)
  qed
  ultimately show ?thesis by blast
qed

definition limits_scope :: session_scope where
  "limits_scope = \<lparr>Base = Default\<lparr>Session := \<lparr>TTL = ''1h'', Tier = ''local-hardened'', Image = []\<rparr>\<rparr>,
     DefaultTier = ''local-docker'', DefaultTTL = 7200000000000\<rparr>"

theorem session_limits_enforced_witness:
  "enforceTTL 0 (ResolveDefault id (Base limits_scope)) limits_scope \<le> 3600000000000"
proof -
  have r: "resolveCreatePolicy id (\<lambda>_ _. Inr Default) (\<lambda>_. NotExist) [] ModeScratch [] (Base limits_scope) =
      Inr (ResolveDefault id (Base limits_scope))"
    by (simp add: resolveCreatePolicy_def)
  have t: "parseTTL (TTL (Session (Base limits_scope))) = Some 3600000000000"
    by (simp add: limits_scope_def Default_def parseTTL_def ParseDuration_1h)
  have k: "knownTier (Tier (Session (Base limits_scope)))" by code_simp
  have e: "enforceTier [] (ResolveDefault id (Base limits_scope)) limits_scope = Inr ''local-hardened''"
    by (simp add: enforceTier_def limits_scope_def ResolveDefault_def Let_def Default_def normalize_def
        tierRank_def)
  from session_limits_enforced [OF r t k e] show ?thesis by blast
qed

end
