(* ===== verification/Trace_Chain.thy ===== *)
theory Trace_Chain
  imports Go_Json
begin

text \<open>
  \<^verbatim>\<open>internal/trace\<close>: \<^verbatim>\<open>event.go\<close> (the event, its canonical bytes and hash),
  \<^verbatim>\<open>sink.go\<close> (the chain rule \<open>assign\<close>, the seal, the in-memory sink) and
  \<^verbatim>\<open>verify.go\<close>. SHA-256 with its hex rendering is the parameter \<open>H\<close>; Ed25519 is a signer
  (\<open>signer\<close>) and the verification function \<open>edv\<close>. A time is its RFC 3339 text, as the
  code hashes it. A payload is a Go map as an association list (\<open>None\<close> is the nil map) of
  JSON values, on which \<^verbatim>\<open>json.Marshal\<close> does not fail. Texts of reasons and errors are
  constructors.
\<close>

subsection \<open>Hex (encoding/hex)\<close>

fun hex_encode :: "string \<Rightarrow> string" where
  "hex_encode [] = []"
| "hex_encode (c # cs) = hex_digit (of_char c div 16) # hex_digit (of_char c mod 16) # hex_encode cs"

definition from_hex :: "char \<Rightarrow> nat option" where
  "from_hex c = (let n = of_char c in
     if 48 \<le> n \<and> n \<le> 57 then Some (n - 48)
     else if 97 \<le> n \<and> n \<le> 102 then Some (n - 87)
     else if 65 \<le> n \<and> n \<le> 70 then Some (n - 55) else None)"

fun hex_decode :: "string \<Rightarrow> string option" where
  "hex_decode [] = Some []"
| "hex_decode [c] = None"
| "hex_decode (a # b # cs) =
     (case (from_hex a, from_hex b) of
        (Some x, Some y) \<Rightarrow> map_option (\<lambda>r. byte (16 * x + y) # r) (hex_decode cs)
      | _ \<Rightarrow> None)"

lemma of_char_hex_digit: "d < 16 \<Longrightarrow> (of_char (hex_digit d) :: nat) = (if d < 10 then 48 + d else 87 + d)"
  by (simp add: hex_digit_def byte_def)

lemma from_hex_digit [simp]: "d < 16 \<Longrightarrow> from_hex (hex_digit d) = Some d"
  by (simp add: from_hex_def Let_def of_char_hex_digit)

lemma hex_decode_encode [simp]: "hex_decode (hex_encode s) = Some s"
proof (induction s)
  case (Cons c s)
  have "(of_char c :: nat) < 256"
    by (metis of_char_mod_256 mod_less_divisor zero_less_numeral)
  with Cons show ?case by (simp add: div_less_iff_less_mult)
qed simp

lemma hex_decode_SomeI: "hex_decode h = Some s \<Longrightarrow> length h = 2 * length s"
  by (induction h arbitrary: s rule: hex_decode.induct) (auto split: option.splits)

subsection \<open>Events (event.go)\<close>

type_synonym payload = "(string \<times> jv) list option"

record event =
  TS :: string
  SessionID :: string
  Seq :: nat
  Type :: string
  Payload :: payload
  PrevHash :: string
  EHash :: string

record binding =
  ImageDigest :: string
  ToolchainLockHash :: string
  PolicyHash :: string

text \<open>The bytes of \<^verbatim>\<open>json.Marshal(b)\<close> that \<^verbatim>\<open>Root\<close> hashes.\<close>

definition j_binding :: "binding \<Rightarrow> jv" where
  "j_binding b = JObj [(''image_digest'', JStr (ImageDigest b)),
     (''toolchain_lock_hash'', JStr (ToolchainLockHash b)), (''policy_hash'', JStr (PolicyHash b))]"

definition Root :: "(string \<Rightarrow> string) \<Rightarrow> binding \<Rightarrow> string" where
  "Root H b = H (jenc (j_binding b))"

definition payloadString :: "payload \<Rightarrow> string \<Rightarrow> string" where
  "payloadString p k =
     (case p of None \<Rightarrow> [] | Some kvs \<Rightarrow> (case map_of kvs k of Some (JStr s) \<Rightarrow> s | _ \<Rightarrow> []))"

definition bindingFromPayload :: "payload \<Rightarrow> binding" where
  "bindingFromPayload p = \<lparr>ImageDigest = payloadString p ''image_digest'',
     ToolchainLockHash = payloadString p ''toolchain_lock_hash'',
     PolicyHash = payloadString p ''policy_hash''\<rparr>"

text \<open>The payload as \<^verbatim>\<open>json.Marshal\<close> sees it: the keys of every map in byte order.\<close>

definition payload_jv :: "payload \<Rightarrow> jv" where
  "payload_jv p = (case p of None \<Rightarrow> JNull | Some kvs \<Rightarrow> jsort (JObj kvs))"

definition lit :: "string \<Rightarrow> string" where
  "lit s = map (\<lambda>c. if c = CHR ''$'' then dquote else c) s"

definition canonicalPreimage_ev :: "event \<Rightarrow> string" where
  "canonicalPreimage_ev e =
     lit ''{$ts$:'' @ jstr (TS e) @ lit '',$session_id$:'' @ jstr (SessionID e) @
     lit '',$seq$:'' @ dec (Seq e) @ lit '',$type$:'' @ jstr (Type e) @
     lit '',$payload$:'' @ jenc (payload_jv (Payload e)) @ ''}''"

definition hashed_bytes :: "event \<Rightarrow> string" where
  "hashed_bytes e = canonicalPreimage_ev e @ PrevHash e"

definition computeHash :: "(string \<Rightarrow> string) \<Rightarrow> event \<Rightarrow> string" where
  "computeHash H e = H (hashed_bytes e)"

subsection \<open>What the hashed bytes determine\<close>

text \<open>Strings as a JSON decoder delivers them.\<close>

definition utf8_event :: "event \<Rightarrow> bool" where
  "utf8_event e \<longleftrightarrow> valid_utf8 (TS e) \<and> valid_utf8 (SessionID e) \<and> valid_utf8 (Type e) \<and>
     jok (payload_jv (Payload e))"

text \<open>Two events with the same content: everything but the recorded hash, the payload as a map.\<close>

definition same_event :: "event \<Rightarrow> event \<Rightarrow> bool" where
  "same_event e f \<longleftrightarrow> TS e = TS f \<and> SessionID e = SessionID f \<and> Seq e = Seq f \<and>
     Type e = Type f \<and> payload_jv (Payload e) = payload_jv (Payload f) \<and> PrevHash e = PrevHash f"

lemma lit_inj_prefix: "lit s @ a = lit s @ b \<longleftrightarrow> a = b"
  by simp

lemma hashed_bytes_inj:
  assumes u: "utf8_event e" "utf8_event f" and eq: "hashed_bytes e = hashed_bytes f"
  shows "same_event e f"
proof -
  let ?r5 = "\<lambda>e. ''}'' @ PrevHash e"
  let ?r4 = "\<lambda>e. lit '',$payload$:'' @ jenc (payload_jv (Payload e)) @ ?r5 e"
  let ?r3 = "\<lambda>e. lit '',$type$:'' @ jstr (Type e) @ ?r4 e"
  let ?r2 = "\<lambda>e. lit '',$seq$:'' @ dec (Seq e) @ ?r3 e"
  let ?r1 = "\<lambda>e. lit '',$session_id$:'' @ jstr (SessionID e) @ ?r2 e"
  have "jstr (TS e) @ ?r1 e = jstr (TS f) @ ?r1 f"
    using eq by (simp add: hashed_bytes_def canonicalPreimage_ev_def)
  with u have ts: "TS e = TS f" and "?r1 e = ?r1 f"
    using jstr_inj unfolding utf8_event_def by blast+
  then have "jstr (SessionID e) @ ?r2 e = jstr (SessionID f) @ ?r2 f" by simp
  with u have sid: "SessionID e = SessionID f" and "?r2 e = ?r2 f"
    using jstr_inj unfolding utf8_event_def by blast+
  then have "dec (Seq e) @ CHR '','' # tl (?r3 e) = dec (Seq f) @ CHR '','' # tl (?r3 f)"
    by (simp add: lit_def)
  moreover have "\<not> is_digit (CHR '','')" by (simp add: is_digit_def)
  ultimately have sq: "Seq e = Seq f" and "tl (?r3 e) = tl (?r3 f)"
    using dec_sep_inj by blast+
  then have "jstr (Type e) @ ?r4 e = jstr (Type f) @ ?r4 f" by (simp add: lit_def)
  with u have ty: "Type e = Type f" and "?r4 e = ?r4 f"
    using jstr_inj unfolding utf8_event_def by blast+
  then have "jenc (payload_jv (Payload e)) @ ?r5 e = jenc (payload_jv (Payload f)) @ ?r5 f" by simp
  moreover have "nodig (?r5 e)" "nodig (?r5 f)" by (simp_all add: nodig_def is_digit_def)
  ultimately have pl: "payload_jv (Payload e) = payload_jv (Payload f)" and "?r5 e = ?r5 f"
    using u jenc_inj unfolding utf8_event_def by blast+
  with ts sid sq ty show ?thesis by (simp add: same_event_def)
qed

subsection \<open>The chain rule (sink.go)\<close>

record chain_state =
  seq :: nat
  last_hash :: string

definition assign :: "(string \<Rightarrow> string) \<Rightarrow> chain_state \<Rightarrow> event \<Rightarrow> event \<times> chain_state" where
  "assign H c ev =
     (let ev1 = ev\<lparr>Seq := seq c,
                   PrevHash := (if seq c = 0 then Root H (bindingFromPayload (Payload ev)) else last_hash c)\<rparr>;
          h = computeHash H ev1
      in (ev1\<lparr>EHash := h\<rparr>, \<lparr>seq = seq c + 1, last_hash = h\<rparr>))"

record signer =
  Sign :: "string \<Rightarrow> string"
  Public :: string

definition Fingerprint :: "signer \<Rightarrow> string" where
  "Fingerprint s = take 16 (hex_encode (Public s))"

record signature =
  FinalHash :: string
  Signature :: string
  PubKeyFingerprint :: string
  PublicKey :: string
  SealedAt :: string

datatype sink_error = NoSigner | AlreadySealed string | NoEvents string

definition sealHash :: "signer option \<Rightarrow> string \<Rightarrow> string \<Rightarrow> sink_error + signature" where
  "sealHash signer now finalHash =
     (case signer of None \<Rightarrow> Inl NoSigner
      | Some s \<Rightarrow> Inr \<lparr>FinalHash = finalHash, Signature = hex_encode (Sign s finalHash),
          PubKeyFingerprint = Fingerprint s, PublicKey = hex_encode (Public s), SealedAt = now\<rparr>)"

subsection \<open>Verification (verify.go)\<close>

datatype verify_reason =
    NoEventsToVerify
  | SeqOutOfOrder nat
  | LinkBroken nat
  | HashMismatch nat
  | SealNotHead
  | SealKeyMalformed
  | NoTrustAnchor
  | NotTrustedIdentity
  | FingerprintMismatch
  | SealSignatureMalformed
  | SignatureInvalid

record verify_result =
  OK :: bool
  BrokenSeq :: int
  Reason :: "verify_reason option"
  NEvents :: nat

definition broken :: "int \<Rightarrow> verify_reason \<Rightarrow> verify_result" where
  "broken i r = \<lparr>OK = False, BrokenSeq = i, Reason = Some r, NEvents = 0\<rparr>"

definition expected_prev :: "(string \<Rightarrow> string) \<Rightarrow> nat \<Rightarrow> string \<Rightarrow> event \<Rightarrow> string" where
  "expected_prev H i prev ev = (if i = 0 then Root H (bindingFromPayload (Payload ev)) else prev)"

text \<open>The loop over the events: the first failure, or the hash of the chain head.\<close>

fun verify_loop :: "(string \<Rightarrow> string) \<Rightarrow> nat \<Rightarrow> string \<Rightarrow> event list \<Rightarrow> (nat \<times> verify_reason) + string" where
  "verify_loop H i prev [] = Inr prev"
| "verify_loop H i prev (ev # evs) =
     (if Seq ev \<noteq> i then Inl (i, SeqOutOfOrder (Seq ev))
      else if PrevHash ev \<noteq> expected_prev H i prev ev then Inl (i, LinkBroken (Seq ev))
      else if computeHash H ev \<noteq> EHash ev then Inl (i, HashMismatch (Seq ev))
      else verify_loop H (Suc i) (EHash ev) evs)"

definition PublicKeySize :: nat where "PublicKeySize = 32"

type_synonym ed_verify = "string \<Rightarrow> string \<Rightarrow> string \<Rightarrow> bool"

definition verify_seal :: "ed_verify \<Rightarrow> signature \<Rightarrow> string \<Rightarrow> string \<Rightarrow> verify_reason option" where
  "verify_seal edv seal trustedPub prev =
     (if FinalHash seal \<noteq> prev then Some SealNotHead
      else case hex_decode (PublicKey seal) of
        None \<Rightarrow> Some SealKeyMalformed
      | Some pub \<Rightarrow>
          if length pub \<noteq> PublicKeySize then Some SealKeyMalformed
          else if length trustedPub \<noteq> PublicKeySize then Some NoTrustAnchor
          else if pub \<noteq> trustedPub then Some NotTrustedIdentity
          else if PubKeyFingerprint seal \<noteq> take 16 (hex_encode trustedPub) then Some FingerprintMismatch
          else case hex_decode (Signature seal) of
            None \<Rightarrow> Some SealSignatureMalformed
          | Some sig \<Rightarrow> if \<not> edv trustedPub (FinalHash seal) sig then Some SignatureInvalid else None)"

definition Verify ::
  "(string \<Rightarrow> string) \<Rightarrow> ed_verify \<Rightarrow> event list \<Rightarrow> signature option \<Rightarrow> string \<Rightarrow> verify_result" where
  "Verify H edv events seal trustedPub =
     (if events = [] then broken 0 NoEventsToVerify
      else case verify_loop H 0 [] events of
        Inl (i, r) \<Rightarrow> broken (int i) r
      | Inr prev \<Rightarrow>
          (case seal of
             None \<Rightarrow> \<lparr>OK = True, BrokenSeq = -1, Reason = None, NEvents = length events\<rparr>
           | Some s \<Rightarrow>
               (case verify_seal edv s trustedPub prev of
                  Some r \<Rightarrow> broken (int (length events) - 1) r
                | None \<Rightarrow> \<lparr>OK = True, BrokenSeq = -1, Reason = None, NEvents = length events\<rparr>)))"

subsection \<open>Chains\<close>

text \<open>The specification of a chain, with positions and links spelled out.\<close>

definition link_ok :: "(string \<Rightarrow> string) \<Rightarrow> event list \<Rightarrow> nat \<Rightarrow> bool" where
  "link_ok H es i \<longleftrightarrow>
     Seq (es ! i) = i \<and>
     PrevHash (es ! i) = (if i = 0 then Root H (bindingFromPayload (Payload (es ! i))) else EHash (es ! (i - 1))) \<and>
     EHash (es ! i) = computeHash H (es ! i)"

definition chain_ok :: "(string \<Rightarrow> string) \<Rightarrow> event list \<Rightarrow> bool" where
  "chain_ok H es \<longleftrightarrow> (\<forall>i < length es. link_ok H es i)"

definition head_hash :: "string \<Rightarrow> event list \<Rightarrow> string" where
  "head_hash d es = (if es = [] then d else EHash (last es))"

text \<open>The chain from position \<open>i\<close> on, after an event with hash \<open>prev\<close>.\<close>

fun chain_from :: "(string \<Rightarrow> string) \<Rightarrow> nat \<Rightarrow> string \<Rightarrow> event list \<Rightarrow> bool" where
  "chain_from H i prev [] = True"
| "chain_from H i prev (e # es) =
     (Seq e = i \<and> PrevHash e = expected_prev H i prev e \<and> EHash e = computeHash H e \<and>
      chain_from H (Suc i) (EHash e) es)"

lemma chain_from_append:
  "chain_from H i prev (es @ fs) \<longleftrightarrow>
     chain_from H i prev es \<and> chain_from H (i + length es) (head_hash prev es) fs"
  by (induction es arbitrary: i prev) (auto simp: head_hash_def)

definition pos_ok :: "(string \<Rightarrow> string) \<Rightarrow> nat \<Rightarrow> string \<Rightarrow> event list \<Rightarrow> nat \<Rightarrow> bool" where
  "pos_ok H k prev es i \<longleftrightarrow> Seq (es ! i) = k + i \<and>
     PrevHash (es ! i) = expected_prev H (k + i) (if i = 0 then prev else EHash (es ! (i - 1))) (es ! i) \<and>
     EHash (es ! i) = computeHash H (es ! i)"

lemma pos_ok_0: "pos_ok H k prev (e # es) 0 \<longleftrightarrow>
    Seq e = k \<and> PrevHash e = expected_prev H k prev e \<and> EHash e = computeHash H e"
  by (simp add: pos_ok_def)

lemma pos_ok_Suc: "pos_ok H k prev (e # es) (Suc i) \<longleftrightarrow> pos_ok H (Suc k) (EHash e) es i"
  by (cases i) (simp_all add: pos_ok_def)

lemma chain_from_nth: "chain_from H k prev es \<longleftrightarrow> (\<forall>i < length es. pos_ok H k prev es i)"
proof (induction es arbitrary: k prev)
  case (Cons e es)
  show ?case
    unfolding chain_from.simps Cons [of "Suc k"] length_Cons All_less_Suc2 pos_ok_0 pos_ok_Suc
    by blast
qed simp

lemma chain_ok_from: "chain_ok H es \<longleftrightarrow> chain_from H 0 [] es"
  by (auto simp: chain_ok_def link_ok_def chain_from_nth pos_ok_def expected_prev_def)

lemma verify_loop_Inr:
  "verify_loop H i prev es = Inr h \<longleftrightarrow> chain_from H i prev es \<and> h = head_hash prev es"
  by (induction es arbitrary: i prev) (auto simp: head_hash_def)

lemma verify_loop_Inl:
  "verify_loop H i prev es = Inl (k, r) \<Longrightarrow>
   i \<le> k \<and> k < i + length es \<and> chain_from H i prev (take (k - i) es) \<and>
   \<not> chain_from H i prev (take (Suc k - i) es)"
proof (induction es arbitrary: i prev)
  case (Cons e es)
  show ?case
  proof (cases "Seq e = i \<and> PrevHash e = expected_prev H i prev e \<and> EHash e = computeHash H e")
    case True
    with Cons.prems have "verify_loop H (Suc i) (EHash e) es = Inl (k, r)" by simp
    from Cons.IH [OF this] True show ?thesis
      by (simp add: Suc_diff_le take_Cons')
  next
    case False
    with Cons.prems have "k = i" by (auto split: if_splits)
    with False show ?thesis by auto
  qed
qed simp

text \<open>A seal that the anchor accepts.\<close>

definition seal_ok :: "ed_verify \<Rightarrow> signature \<Rightarrow> string \<Rightarrow> string \<Rightarrow> bool" where
  "seal_ok edv s trustedPub h \<longleftrightarrow>
     FinalHash s = h \<and> length trustedPub = PublicKeySize \<and> hex_decode (PublicKey s) = Some trustedPub \<and>
     PubKeyFingerprint s = take 16 (hex_encode trustedPub) \<and>
     (\<exists>sig. hex_decode (Signature s) = Some sig \<and> edv trustedPub (FinalHash s) sig)"

lemma verify_seal_None: "verify_seal edv s trustedPub h = None \<longleftrightarrow> seal_ok edv s trustedPub h"
  by (auto simp: verify_seal_def seal_ok_def split: option.splits)

lemma Verify_OK_iff:
  "OK (Verify H edv es seal tp) \<longleftrightarrow>
     es \<noteq> [] \<and> chain_ok H es \<and> (\<forall>s. seal = Some s \<longrightarrow> seal_ok edv s tp (EHash (last es)))"
proof (cases "verify_loop H 0 [] es")
  case (Inl ir)
  then obtain i r where ir: "verify_loop H 0 [] es = Inl (i, r)" by (cases ir) auto
  then have "\<not> chain_ok H es"
    by (metis chain_ok_from sum.distinct(1) verify_loop_Inr)
  with ir show ?thesis by (simp add: Verify_def broken_def)
next
  case (Inr h)
  then have "chain_ok H es" "h = head_hash [] es"
    by (simp_all add: verify_loop_Inr chain_ok_from)
  with Inr show ?thesis
    by (auto simp: Verify_def broken_def head_hash_def verify_seal_None
        simp flip: verify_seal_None split: option.splits)
qed

subsection \<open>One final hash, one log\<close>

definition hashed :: "event list \<Rightarrow> string set" where
  "hashed es = hashed_bytes ` set es"

definition utf8_log :: "event list \<Rightarrow> bool" where
  "utf8_log es = list_all utf8_event es"

lemma chain_unique:
  assumes "chain_ok H es" "chain_ok H fs" "es \<noteq> []" "fs \<noteq> []"
    and "utf8_log es" "utf8_log fs" and "inj_on H (hashed es \<union> hashed fs)"
    and "EHash (last es) = EHash (last fs)"
  shows "list_all2 same_event es fs"
  using assms
proof (induction es arbitrary: fs rule: rev_induct)
  case (snoc e es)
  obtain f fs' where fs: "fs = fs' @ [f]" using snoc.prems(4) by (cases fs rule: rev_cases) auto
  from snoc.prems(1,2) have e: "chain_ok H es" "Seq e = length es"
      "PrevHash e = expected_prev H (length es) (head_hash [] es) e" "EHash e = computeHash H e"
    and f: "chain_ok H fs'" "Seq f = length fs'"
      "PrevHash f = expected_prev H (length fs') (head_hash [] fs') f" "EHash f = computeHash H f"
    by (simp_all add: fs chain_ok_from chain_from_append)
  have u: "utf8_event e" "utf8_event f" "utf8_log es" "utf8_log fs'"
    using snoc.prems(5,6) by (simp_all add: utf8_log_def fs)
  have "H (hashed_bytes e) = H (hashed_bytes f)"
    using snoc.prems(8) e(4) f(4) by (simp add: fs computeHash_def)
  moreover have "hashed_bytes e \<in> hashed (es @ [e]) \<union> hashed fs"
      "hashed_bytes f \<in> hashed (es @ [e]) \<union> hashed fs"
    by (simp_all add: hashed_def fs)
  ultimately have "hashed_bytes e = hashed_bytes f"
    using snoc.prems(7) by (simp add: inj_on_eq_iff)
  then have same: "same_event e f" using hashed_bytes_inj u by blast
  then have len: "length es = length fs'" and prev: "PrevHash e = PrevHash f"
    using e(2) f(2) by (simp_all add: same_event_def)
  show ?case
  proof (cases "es = []")
    case True
    with len same show ?thesis by (simp add: fs)
  next
    case False
    with len have ne: "fs' \<noteq> []" by auto
    have h: "EHash (last es) = EHash (last fs')"
      using prev e(3) f(3) False ne by (simp add: expected_prev_def head_hash_def)
    have "hashed es \<union> hashed fs' \<subseteq> hashed (es @ [e]) \<union> hashed fs" by (auto simp: hashed_def fs)
    with snoc.prems(7) have "inj_on H (hashed es \<union> hashed fs')" by (rule inj_on_subset)
    from snoc.IH [OF e(1) f(1) False ne u(3,4) this h] same len show ?thesis
      by (simp add: fs list_all2_append)
  qed
qed simp

subsection \<open>Properties\<close>

text \<open>
  \<open>Verify\<close> accepts exactly the intact logs: a non-empty list in which every event has its
  position as sequence number, links to the hash before it (the first one to the root digest of
  its own binding fields) and carries the hash of its own canonical bytes; and, when there is a
  seal, the seal is over the chain head, by the trusted key given out of band, with that key's
  fingerprint and a valid signature.
\<close>

theorem Verify_accepts_iff:
  "OK (Verify H edv es seal trustedPub) =
     (es \<noteq> [] \<and> chain_ok H es \<and>
      (case seal of None \<Rightarrow> True | Some s \<Rightarrow> seal_ok edv s trustedPub (EHash (last es))))"
  by (auto simp: Verify_OK_iff split: option.splits)

text \<open>
  When the chain of an unsealed log is rejected, \<open>BrokenSeq\<close> is the first offending position:
  the events before it form an intact chain, and with the event at it they do not.
\<close>

theorem Verify_reports_first_break:
  assumes "es \<noteq> []" and "\<not> OK (Verify H edv es None trustedPub)"
    and "BrokenSeq (Verify H edv es None trustedPub) = int i"
  shows "i < length es \<and> chain_ok H (take i es) \<and> \<not> chain_ok H (take (Suc i) es)"
proof (cases "verify_loop H 0 [] es")
  case (Inl kr)
  then obtain k r where kr: "verify_loop H 0 [] es = Inl (k, r)" by (cases kr) auto
  with assms(1,3) have "k = i" by (simp add: Verify_def broken_def)
  with verify_loop_Inl [OF kr] show ?thesis by (simp add: chain_ok_from)
next
  case (Inr h)
  with assms(1,2) show ?thesis by (simp add: Verify_def)
qed

definition forged_event :: event where
  "forged_event = \<lparr>TS = ''t'', SessionID = ''s'', Seq = 1, Type = ''x'', Payload = None,
     PrevHash = [], EHash = []\<rparr>"

theorem Verify_reports_first_break_witness:
  "\<not> chain_ok id (take (Suc 0) [forged_event])"
proof -
  have v: "Verify id (\<lambda>_ _ _. True) [forged_event] None [] = broken 0 (SeqOutOfOrder 1)"
    by (simp add: Verify_def forged_event_def)
  have "\<not> OK (Verify id (\<lambda>_ _ _. True) [forged_event] None [])"
    "BrokenSeq (Verify id (\<lambda>_ _ _. True) [forged_event] None []) = int 0"
    by (simp_all add: v broken_def)
  from Verify_reports_first_break [OF _ this] show ?thesis by blast
qed

text \<open>
  C10: Tamper evidence. Two logs that both verify under seals with the same final hash are the
  same log, event by event and field by field (payloads as maps), whatever keys and seals they
  carry, if the hash function does not collide on the bytes that were hashed and the strings are
  valid UTF-8. So no edit, reordering, insertion or truncation of a sealed log verifies under its
  seal.
\<close>

theorem sealed_log_unique:
  assumes "OK (Verify H edv es (Some g) tp)" and "OK (Verify H edv fs (Some g') tp')"
    and "FinalHash g = FinalHash g'"
    and "utf8_log es" and "utf8_log fs" and "inj_on H (hashed es \<union> hashed fs)"
  shows "list_all2 same_event es fs"
proof (rule chain_unique)
  show "chain_ok H es" "chain_ok H fs" "es \<noteq> []" "fs \<noteq> []"
    using assms(1,2) by (simp_all add: Verify_OK_iff)
  show "EHash (last es) = EHash (last fs)"
    using assms(1-3) by (simp add: Verify_OK_iff seal_ok_def)
qed (use assms in auto)

definition honest_event :: event where
  "honest_event = fst (assign id \<lparr>seq = 0, last_hash = []\<rparr> forged_event)"

definition honest_seal :: signature where
  "honest_seal = \<lparr>FinalHash = EHash honest_event, Signature = [],
     PubKeyFingerprint = take 16 (hex_encode (replicate 32 CHR ''k'')),
     PublicKey = hex_encode (replicate 32 CHR ''k''), SealedAt = []\<rparr>"

theorem sealed_log_unique_witness:
  "list_all2 same_event [honest_event] [honest_event]"
proof -
  have c: "chain_ok id [honest_event]"
    by (simp add: chain_ok_def link_ok_def honest_event_def assign_def Let_def forged_event_def computeHash_def
        hashed_bytes_def canonicalPreimage_ev_def)
  have s: "seal_ok (\<lambda>_ _ _. True) honest_seal (replicate 32 CHR ''k'') (EHash honest_event)"
    unfolding seal_ok_def honest_seal_def PublicKeySize_def using hex_decode_encode by simp
  have v: "OK (Verify id (\<lambda>_ _ _. True) [honest_event] (Some honest_seal) (replicate 32 CHR ''k''))"
    using c s by (simp add: Verify_OK_iff)
  have u: "utf8_log [honest_event]"
    by (simp add: utf8_log_def utf8_event_def honest_event_def assign_def Let_def forged_event_def payload_jv_def)
  from sealed_log_unique [OF v v refl u u] show ?thesis by simp
qed

end
