(* ===== verification/Trace_Sink.thy ===== *)
theory Trace_Sink
  imports Trace_Chain
begin

text \<open>
  The \<^verbatim>\<open>TraceSink\<close> interface of \<^verbatim>\<open>internal/trace/sink.go\<close> as a locale: what appending and
  sealing promise about the log of every session. Its theorems hold for any sink; here it is
  interpreted on the in-memory sink (\<^verbatim>\<open>MemSink\<close>), and in \<open>Trace_File\<close> on the durable one.
\<close>

subsection \<open>The interface\<close>

text \<open>The event as the chain rule stamps it when it is appended to the log \<open>es\<close>.\<close>

definition position :: "event list \<Rightarrow> chain_state" where
  "position es = \<lparr>seq = length es, last_hash = head_hash [] es\<rparr>"

definition stamp :: "(string \<Rightarrow> string) \<Rightarrow> event list \<Rightarrow> event \<Rightarrow> event" where
  "stamp H es ev = fst (assign H (position es) ev)"

lemma snd_assign_position: "snd (assign H (position es) ev) = position (es @ [stamp H es ev])"
  by (simp add: assign_def position_def stamp_def Let_def head_hash_def)

lemma assign_position: "assign H (position es) ev = (stamp H es ev, position (es @ [stamp H es ev]))"
  using snd_assign_position [of H es ev] by (cases "assign H (position es) ev") (simp add: stamp_def)

lemma chain_ok_stamp: "chain_ok H es \<Longrightarrow> chain_ok H (es @ [stamp H es ev])"
  by (simp add: chain_ok_from chain_from_append stamp_def assign_def position_def Let_def
      expected_prev_def computeHash_def hashed_bytes_def canonicalPreimage_ev_def)

text \<open>Ed25519 as documented: what the key signs, its public half verifies.\<close>

definition honest_signer :: "ed_verify \<Rightarrow> signer \<Rightarrow> bool" where
  "honest_signer edv s \<longleftrightarrow>
     length (Public s) = PublicKeySize \<and> (\<forall>m. edv (Public s) m (Sign s m))"

definition seal_of :: "signer \<Rightarrow> string \<Rightarrow> string \<Rightarrow> signature" where
  "seal_of s now h = \<lparr>FinalHash = h, Signature = hex_encode (Sign s h), PubKeyFingerprint = Fingerprint s,
     PublicKey = hex_encode (Public s), SealedAt = now\<rparr>"

lemma sealHash_Some: "sealHash (Some s) now h = Inr (seal_of s now h)"
  by (simp add: sealHash_def seal_of_def)

lemma seal_of_ok: "honest_signer edv s \<Longrightarrow> seal_ok edv (seal_of s now h) (Public s) h"
  by (simp add: seal_ok_def seal_of_def honest_signer_def Fingerprint_def)

datatype sink_op = Append event | SealOp string string

locale trace_sink =
  fixes H :: "string \<Rightarrow> string"
    and sg :: "signer option"
    and inv :: "'s \<Rightarrow> bool"
    and init :: 's
    and app :: "'s \<Rightarrow> event \<Rightarrow> (sink_error + unit) \<times> 's"
    and seal :: "'s \<Rightarrow> string \<Rightarrow> string \<Rightarrow> (sink_error + signature) \<times> 's"
    and log :: "'s \<Rightarrow> string \<Rightarrow> event list"
    and sealed :: "'s \<Rightarrow> string \<Rightarrow> signature option"
  assumes inv_init: "inv init" "log init i = []" "sealed init i = None"
    and inv_app: "inv s \<Longrightarrow> inv (snd (app s ev))"
    and inv_seal: "inv s \<Longrightarrow> inv (snd (seal s i now))"
    and app_log: "inv s \<Longrightarrow> log (snd (app s ev)) i =
        (if i = SessionID ev \<and> fst (app s ev) = Inr () then log s i @ [stamp H (log s i) ev] else log s i)"
    and app_sealed: "inv s \<Longrightarrow> sealed (snd (app s ev)) i = sealed s i"
    and app_refuses: "inv s \<Longrightarrow> sealed s (SessionID ev) \<noteq> None \<Longrightarrow> fst (app s ev) \<noteq> Inr ()"
    and seal_log: "inv s \<Longrightarrow> log (snd (seal s i now)) j = log s j"
    and seal_sealed: "inv s \<Longrightarrow> sealed (snd (seal s i now)) j = sealed s j \<or>
        (j = i \<and> sealed s j = None \<and> log s j \<noteq> [] \<and>
         (\<exists>k. sg = Some k \<and> sealed (snd (seal s i now)) j = Some (seal_of k now (EHash (last (log s j))))))"
begin

fun step :: "'s \<Rightarrow> sink_op \<Rightarrow> 's" where
  "step s (Append ev) = snd (app s ev)"
| "step s (SealOp i now) = snd (seal s i now)"

definition run :: "'s \<Rightarrow> sink_op list \<Rightarrow> 's" where
  "run s ops = foldl step s ops"

lemma run_append: "run s (ops @ [p]) = step (run s ops) p"
  by (simp add: run_def)

lemma inv_step: "inv s \<Longrightarrow> inv (step s p)"
  by (cases p) (simp_all add: inv_app inv_seal)

lemma inv_run: "inv s \<Longrightarrow> inv (run s ops)"
  by (induction ops rule: rev_induct) (simp_all add: run_def inv_step)

text \<open>What holds of every log a sink has produced.\<close>

definition sound_log :: "event list \<Rightarrow> signature option \<Rightarrow> bool" where
  "sound_log es g \<longleftrightarrow> chain_ok H es \<and>
     (g \<noteq> None \<longrightarrow> es \<noteq> [] \<and> (\<exists>k now. sg = Some k \<and> g = Some (seal_of k now (EHash (last es)))))"

lemma sound_app:
  assumes "inv s" "sound_log (log s i) (sealed s i)"
  shows "sound_log (log (snd (app s ev)) i) (sealed (snd (app s ev)) i)"
proof (cases "i = SessionID ev \<and> fst (app s ev) = Inr ()")
  case True
  then have "sealed s i = None"
    using app_refuses [OF assms(1), of ev] by (cases "sealed s (SessionID ev)") simp_all
  with True assms show ?thesis by (simp add: sound_log_def app_log app_sealed chain_ok_stamp)
next
  case False
  with assms show ?thesis by (auto simp: app_log app_sealed)
qed

lemma sound_seal:
  assumes "inv s" "sound_log (log s j) (sealed s j)"
  shows "sound_log (log (snd (seal s i now)) j) (sealed (snd (seal s i now)) j)"
  using seal_sealed [OF assms(1), of i now j]
proof
  assume "sealed (snd (seal s i now)) j = sealed s j"
  with assms show ?thesis by (simp add: seal_log)
next
  assume "j = i \<and> sealed s j = None \<and> log s j \<noteq> [] \<and>
      (\<exists>k. sg = Some k \<and> sealed (snd (seal s i now)) j = Some (seal_of k now (EHash (last (log s j)))))"
  with assms show ?thesis unfolding sound_log_def seal_log [OF assms(1)] by blast
qed

lemma sound_run: "sound_log (log (run init ops) i) (sealed (run init ops) i)"
proof (induction ops rule: rev_induct)
  case Nil
  show ?case by (simp add: run_def inv_init sound_log_def chain_ok_def)
next
  case (snoc p ops)
  have "inv (run init ops)" by (simp add: inv_run inv_init)
  with snoc show ?case by (cases p) (simp_all add: run_append sound_app sound_seal)
qed

lemma run_verifies:
  assumes "honest_signer edv k" "sg = Some k" "log (run init ops) i \<noteq> []"
  shows "OK (Verify H edv (log (run init ops) i) (sealed (run init ops) i) (Public k))"
proof -
  note r = sound_run [of ops i, unfolded sound_log_def]
  have "seal_ok edv g (Public k) (EHash (last (log (run init ops) i)))"
    if "sealed (run init ops) i = Some g" for g
    using r that seal_of_ok [OF assms(1)] assms(2) by auto
  with r assms(3) show ?thesis by (simp add: Verify_OK_iff)
qed

lemma sealed_log_fixed_step:
  assumes "inv s" "sealed s i = Some g"
  shows "sealed (step s p) i = Some g \<and> log (step s p) i = log s i"
proof (cases p)
  case (Append ev)
  have "\<not> (i = SessionID ev \<and> fst (app s ev) = Inr ())"
    using app_refuses [OF assms(1), of ev] assms(2) by auto
  with Append assms show ?thesis by (simp add: app_log app_sealed)
next
  case (SealOp j now)
  have "sealed (snd (seal s j now)) i = Some g"
    using seal_sealed [OF assms(1), of j now i] assms(2) by auto
  with SealOp assms show ?thesis by (simp add: seal_log)
qed

lemma sealed_log_fixed:
  "inv s \<Longrightarrow> sealed s i = Some g \<Longrightarrow> sealed (run s ops) i = Some g \<and> log (run s ops) i = log s i"
proof (induction ops rule: rev_induct)
  case (snoc p ops)
  then show ?case
    using sealed_log_fixed_step [of "run s ops" i g p] inv_run by (simp add: run_append)
qed (simp add: run_def)

text \<open>The log only grows.\<close>

lemma log_grows: "inv s \<Longrightarrow> \<exists>more. log (run s ops) i = log s i @ more"
proof (induction ops rule: rev_induct)
  case (snoc p ops)
  then have "inv (run s ops)" by (simp add: inv_run)
  with snoc show ?case by (cases p) (auto simp: run_append app_log seal_log)
qed (simp add: run_def)

end

subsection \<open>The in-memory sink\<close>

record mem_chain =
  ChState :: chain_state
  Events :: "event list"
  MSeal :: "signature option"

type_synonym mem_sink = "string \<Rightarrow> mem_chain option"

definition empty_chain :: mem_chain where
  "empty_chain = \<lparr>ChState = \<lparr>seq = 0, last_hash = []\<rparr>, Events = [], MSeal = None\<rparr>"

definition NewMemSink :: mem_sink where
  "NewMemSink = (\<lambda>_. None)"

definition chainFor :: "mem_sink \<Rightarrow> string \<Rightarrow> mem_chain \<times> mem_sink" where
  "chainFor s i = (case s i of Some c \<Rightarrow> (c, s) | None \<Rightarrow> (empty_chain, s(i \<mapsto> empty_chain)))"

definition mem_append :: "(string \<Rightarrow> string) \<Rightarrow> mem_sink \<Rightarrow> event \<Rightarrow> (sink_error + unit) \<times> mem_sink" where
  "mem_append H s ev =
     (let (c, s1) = chainFor s (SessionID ev) in
      if MSeal c \<noteq> None then (Inl (AlreadySealed (SessionID ev)), s1)
      else let (ev', st) = assign H (ChState c) ev
           in (Inr (), s1(SessionID ev \<mapsto> c\<lparr>ChState := st, Events := Events c @ [ev']\<rparr>)))"

definition mem_seal ::
  "signer option \<Rightarrow> mem_sink \<Rightarrow> string \<Rightarrow> string \<Rightarrow> (sink_error + signature) \<times> mem_sink" where
  "mem_seal sg s i now =
     (let (c, s1) = chainFor s i in
      case MSeal c of Some g \<Rightarrow> (Inr g, s1)
      | None \<Rightarrow>
          if Events c = [] then (Inl (NoEvents i), s1)
          else case sealHash sg now (last_hash (ChState c)) of
            Inl e \<Rightarrow> (Inl e, s1)
          | Inr g \<Rightarrow> (Inr g, s1(i \<mapsto> c\<lparr>MSeal := Some g\<rparr>)))"

definition mem_export :: "mem_sink \<Rightarrow> string \<Rightarrow> (event list \<times> signature option) option \<times> mem_sink" where
  "mem_export s i =
     (let (c, s1) = chainFor s i
      in (if Events c = [] then None else Some (Events c, MSeal c), s1))"

text \<open>The sink as the interface sees it.\<close>

definition mem_chain_of :: "mem_sink \<Rightarrow> string \<Rightarrow> mem_chain" where
  "mem_chain_of s i = (case s i of Some c \<Rightarrow> c | None \<Rightarrow> empty_chain)"

definition mem_log :: "mem_sink \<Rightarrow> string \<Rightarrow> event list" where
  "mem_log s i = Events (mem_chain_of s i)"

definition mem_sealed :: "mem_sink \<Rightarrow> string \<Rightarrow> signature option" where
  "mem_sealed s i = MSeal (mem_chain_of s i)"

definition mem_inv :: "mem_sink \<Rightarrow> bool" where
  "mem_inv s \<longleftrightarrow> (\<forall>i. ChState (mem_chain_of s i) = position (mem_log s i))"

lemma chainFor_eq: "chainFor s i = (mem_chain_of s i, s(i \<mapsto> mem_chain_of s i))"
  by (auto simp: chainFor_def mem_chain_of_def fun_upd_idem split: option.splits)

lemma mem_chain_of_upd: "mem_chain_of (s(i \<mapsto> c)) j = (if j = i then c else mem_chain_of s j)"
  by (simp add: mem_chain_of_def)

lemma position_Nil: "position [] = \<lparr>seq = 0, last_hash = []\<rparr>"
  by (simp add: position_def head_hash_def)

lemma mem_append_sealed:
  "MSeal (mem_chain_of s (SessionID ev)) \<noteq> None \<Longrightarrow>
   mem_append H s ev = (Inl (AlreadySealed (SessionID ev)), s(SessionID ev \<mapsto> mem_chain_of s (SessionID ev)))"
  by (simp add: mem_append_def chainFor_eq )

lemma mem_append_open:
  assumes "mem_inv s" "MSeal (mem_chain_of s (SessionID ev)) = None"
  defines "c \<equiv> mem_chain_of s (SessionID ev)"
  shows "mem_append H s ev = (Inr (), s(SessionID ev \<mapsto>
     c\<lparr>ChState := position (Events c @ [stamp H (Events c) ev]), Events := Events c @ [stamp H (Events c) ev]\<rparr>))"
proof -
  have "ChState c = position (Events c)" using assms(1) by (simp add: mem_inv_def mem_log_def c_def)
  with assms(2) show ?thesis
    by (simp add: mem_append_def chainFor_eq assign_position c_def)
qed

lemma mem_append_eq:
  assumes "mem_inv s"
  shows "mem_chain_of (snd (mem_append H s ev)) i =
     (let c = mem_chain_of s i in
      if i = SessionID ev \<and> MSeal c = None
      then c\<lparr>ChState := position (Events c @ [stamp H (Events c) ev]), Events := Events c @ [stamp H (Events c) ev]\<rparr>
      else c)"
    and "fst (mem_append H s ev) =
     (if MSeal (mem_chain_of s (SessionID ev)) = None then Inr () else Inl (AlreadySealed (SessionID ev)))"
proof -
  let ?g = "MSeal (mem_chain_of s (SessionID ev))"
  show "mem_chain_of (snd (mem_append H s ev)) i =
     (let c = mem_chain_of s i in
      if i = SessionID ev \<and> MSeal c = None
      then c\<lparr>ChState := position (Events c @ [stamp H (Events c) ev]), Events := Events c @ [stamp H (Events c) ev]\<rparr>
      else c)"
  proof (cases ?g)
    case None
    show ?thesis unfolding mem_append_open [OF assms None] by (simp add: mem_chain_of_upd Let_def None)
  next
    case (Some g)
    then have "?g \<noteq> None" by simp
    from mem_append_sealed [OF this, of H] Some show ?thesis by (simp add: mem_chain_of_upd Let_def)
  qed
  show "fst (mem_append H s ev) = (if ?g = None then Inr () else Inl (AlreadySealed (SessionID ev)))"
  proof (cases ?g)
    case None
    show ?thesis unfolding mem_append_open [OF assms None] by (simp add: None)
  next
    case (Some g)
    then have "?g \<noteq> None" by simp
    from mem_append_sealed [OF this, of H] Some show ?thesis by simp
  qed
qed

lemma mem_seal_skip:
  assumes "MSeal (mem_chain_of s i) \<noteq> None \<or> Events (mem_chain_of s i) = [] \<or> sg = None"
  shows "snd (mem_seal sg s i now) = s(i \<mapsto> mem_chain_of s i)"
proof (cases "MSeal (mem_chain_of s i)")
  case None
  with assms show ?thesis
    by (cases "Events (mem_chain_of s i) = []") (simp_all add: mem_seal_def chainFor_eq sealHash_def)
qed (simp add: mem_seal_def chainFor_eq)

lemma mem_seal_done:
  "MSeal (mem_chain_of s i) = None \<Longrightarrow> Events (mem_chain_of s i) \<noteq> [] \<Longrightarrow>
   snd (mem_seal (Some k) s i now) = s(i \<mapsto> (mem_chain_of s i)\<lparr>MSeal := Some (seal_of k now (last_hash (ChState (mem_chain_of s i))))\<rparr>)"
  by (simp add: mem_seal_def chainFor_eq sealHash_Some)

lemma mem_seal_eq:
  "mem_chain_of (snd (mem_seal sg s i now)) j =
     (let c = mem_chain_of s j in
      if j = i \<and> MSeal c = None \<and> Events c \<noteq> [] \<and> sg \<noteq> None
      then c\<lparr>MSeal := Some (seal_of (the sg) now (last_hash (ChState c)))\<rparr> else c)"
proof (cases "MSeal (mem_chain_of s i) \<noteq> None \<or> Events (mem_chain_of s i) = [] \<or> sg = None")
  case True
  with mem_seal_skip [OF True, of now] show ?thesis by (auto simp: Let_def mem_chain_of_upd)
next
  case False
  then obtain k where "sg = Some k" by auto
  with False mem_seal_done [of s i k now] show ?thesis
    by (simp add: Let_def mem_chain_of_upd)
qed

interpretation mem: trace_sink H sg mem_inv NewMemSink "mem_append H" "mem_seal sg" mem_log mem_sealed
  for H sg
proof unfold_locales
  fix s :: mem_sink and ev i j now
  show "mem_inv NewMemSink" "mem_log NewMemSink i = []" "mem_sealed NewMemSink i = None"
    by (simp_all add: mem_inv_def mem_log_def mem_sealed_def mem_chain_of_def NewMemSink_def empty_chain_def position_Nil)
  assume inv: "mem_inv s"
  note app = mem_append_eq [OF inv, of H ev]
  show "mem_inv (snd (mem_append H s ev))"
    using inv by (auto simp: mem_inv_def mem_log_def app Let_def)
  show "mem_inv (snd (mem_seal sg s i now))"
    using inv by (auto simp: mem_inv_def mem_log_def mem_seal_eq Let_def)
  show "mem_log (snd (mem_append H s ev)) i =
      (if i = SessionID ev \<and> fst (mem_append H s ev) = Inr () then mem_log s i @ [stamp H (mem_log s i) ev]
       else mem_log s i)"
    by (auto simp: mem_log_def app Let_def)
  show "mem_sealed (snd (mem_append H s ev)) i = mem_sealed s i"
    by (simp add: mem_sealed_def app Let_def)
  show "mem_sealed s (SessionID ev) \<noteq> None \<Longrightarrow> fst (mem_append H s ev) \<noteq> Inr ()"
    by (simp add: mem_sealed_def app)
  show "mem_log (snd (mem_seal sg s i now)) j = mem_log s j"
    by (simp add: mem_log_def mem_seal_eq Let_def)
  show "mem_sealed (snd (mem_seal sg s i now)) j = mem_sealed s j \<or>
      (j = i \<and> mem_sealed s j = None \<and> mem_log s j \<noteq> [] \<and>
       (\<exists>k. sg = Some k \<and> mem_sealed (snd (mem_seal sg s i now)) j =
          Some (seal_of k now (EHash (last (mem_log s j))))))"
    using inv by (auto simp: mem_sealed_def mem_log_def mem_seal_eq mem_inv_def Let_def position_def head_hash_def)
qed

subsection \<open>Properties\<close>

fun mem_step :: "(string \<Rightarrow> string) \<Rightarrow> signer option \<Rightarrow> mem_sink \<Rightarrow> sink_op \<Rightarrow> mem_sink" where
  "mem_step H sg s (Append ev) = snd (mem_append H s ev)"
| "mem_step H sg s (SealOp i now) = snd (mem_seal sg s i now)"

definition mem_run :: "(string \<Rightarrow> string) \<Rightarrow> signer option \<Rightarrow> sink_op list \<Rightarrow> mem_sink" where
  "mem_run H sg ops = foldl (mem_step H sg) NewMemSink ops"

lemma mem_step_eq: "mem_step H sg s p = mem.step H sg s p"
  by (cases p) simp_all

lemma mem_run_eq: "mem_run H sg ops = mem.run H sg NewMemSink ops"
proof -
  have "mem_step H sg = mem.step H sg" by (rule ext, rule ext) (rule mem_step_eq)
  then show ?thesis by (simp add: mem_run_def mem.run_def)
qed

lemma mem_export_eq:
  "fst (mem_export s i) = (if mem_log s i = [] then None else Some (mem_log s i, mem_sealed s i))"
  by (simp add: mem_export_def chainFor_eq mem_log_def mem_sealed_def)

text \<open>
  Whatever is appended and sealed, over any number of sessions and in any interleaving, the
  log the in-memory sink exports for a session verifies, with its seal, against the public key of
  the daemon that signed it. Ed25519 enters as "what the key signs, its public half verifies".
\<close>

theorem mem_sink_logs_verify:
  assumes "honest_signer edv k" and "fst (mem_export (mem_run H (Some k) ops) i) = Some (es, g)"
  shows "OK (Verify H edv es g (Public k))"
proof -
  let ?s = "mem.run H (Some k) NewMemSink ops"
  from assms(2) have "mem_log ?s i \<noteq> []" "es = mem_log ?s i" "g = mem_sealed ?s i"
    by (auto simp: mem_export_eq mem_run_eq split: if_splits)
  with mem.run_verifies [OF assms(1), of "Some k" H ops i] show ?thesis by simp
qed

definition test_signer :: signer where
  "test_signer = \<lparr>Sign = (\<lambda>m. m), Public = replicate 32 CHR ''k''\<rparr>"

definition test_event :: event where
  "test_event = \<lparr>TS = ''t'', SessionID = ''s'', Seq = 7, Type = ''session.start'', Payload = None,
     PrevHash = [], EHash = []\<rparr>"

lemma honest_test_signer: "honest_signer (\<lambda>_ m sig. m = sig) test_signer"
  by (simp add: honest_signer_def test_signer_def PublicKeySize_def)

lemma mem_log_single: "mem_log (mem_run H sg [Append ev]) (SessionID ev) = [stamp H [] ev]"
  by (simp add: mem_run_def mem_append_def chainFor_eq mem_log_def mem_chain_of_def NewMemSink_def empty_chain_def
      assign_position [of H "[]", unfolded position_Nil])

theorem mem_sink_logs_verify_witness:
  "OK (Verify id (\<lambda>_ m sig. m = sig) [stamp id [] test_event]
     (mem_sealed (mem_run id (Some test_signer) [Append test_event]) ''s'') (Public test_signer))"
proof (rule mem_sink_logs_verify [OF honest_test_signer])
  show "fst (mem_export (mem_run id (Some test_signer) [Append test_event]) ''s'') =
      Some ([stamp id [] test_event], mem_sealed (mem_run id (Some test_signer) [Append test_event]) ''s'')"
    using mem_log_single [of id "Some test_signer" test_event] by (simp add: mem_export_eq test_event_def)
qed

text \<open>
  A sealed log is final: once a session is sealed, no further operation of the sink, on this
  or any other session, changes its events or its seal.
\<close>

theorem mem_sealed_log_is_final:
  assumes "mem_sealed (mem_run H sg ops) i = Some g"
  shows "mem_log (mem_run H sg (ops @ more_ops)) i = mem_log (mem_run H sg ops) i \<and>
         mem_sealed (mem_run H sg (ops @ more_ops)) i = Some g"
proof -
  let ?s = "mem.run H sg NewMemSink ops"
  have "mem.run H sg ?s more_ops = mem.run H sg NewMemSink (ops @ more_ops)"
    by (simp add: mem.run_def)
  moreover have "mem_inv ?s" by (rule mem.inv_run) (rule mem.inv_init)
  ultimately show ?thesis
    using mem.sealed_log_fixed [of ?s i g H sg more_ops] assms by (simp add: mem_run_eq)
qed

theorem mem_sealed_log_is_final_witness:
  "mem_log (mem_run id (Some test_signer) ([Append test_event, SealOp ''s'' ''now''] @ [Append test_event])) ''s'' =
   mem_log (mem_run id (Some test_signer) [Append test_event, SealOp ''s'' ''now'']) ''s''"
proof -
  have "mem_sealed (mem_run id (Some test_signer) [Append test_event, SealOp ''s'' ''now'']) ''s'' =
      Some (seal_of test_signer ''now'' (EHash (stamp id [] test_event)))"
    by (simp add: mem_run_def mem_append_def mem_seal_def chainFor_eq mem_sealed_def mem_chain_of_def NewMemSink_def
        empty_chain_def assign_position [of id "[]", unfolded position_Nil] sealHash_Some test_event_def
        position_def head_hash_def)
  from mem_sealed_log_is_final [OF this, of "[Append test_event]"] show ?thesis by simp
qed

end
