(* ===== verification/Trace_Lines.thy ===== *)
theory Trace_Lines
  imports Trace_Sink
begin

text \<open>
  The lines of the durable trace log (\<^verbatim>\<open>internal/trace/filesink.go\<close>): the JSON text of a
  record, that it holds no newline and is never blank, and the crash-safe loader
  \<open>loadSessionLog\<close> on the bytes of a file. \<^verbatim>\<open>json.Unmarshal\<close> of a line is the parameter
  \<open>unm\<close>; what the theorems need of it is that it reads back the records that were written.
\<close>

datatype log_record = EventRec event | SealRec signature | EmptyRec

definition j_event :: "event \<Rightarrow> jv" where
  "j_event e = JObj [(''ts'', JStr (TS e)), (''session_id'', JStr (SessionID e)),
     (''seq'', JInt (int (Seq e))), (''type'', JStr (Type e)), (''payload'', payload_jv (Payload e)),
     (''prev_hash'', JStr (PrevHash e)), (''hash'', JStr (EHash e))]"

definition j_signature :: "signature \<Rightarrow> jv" where
  "j_signature s = JObj [(''final_hash'', JStr (FinalHash s)), (''signature'', JStr (Signature s)),
     (''pubkey_fingerprint'', JStr (PubKeyFingerprint s)), (''public_key'', JStr (PublicKey s)),
     (''sealed_at'', JStr (SealedAt s))]"

fun j_record :: "log_record \<Rightarrow> jv" where
  "j_record (EventRec e) = JObj [(''event'', j_event e)]"
| "j_record (SealRec s) = JObj [(''seal'', j_signature s)]"
| "j_record EmptyRec = JObj []"

definition marshal :: "log_record \<Rightarrow> string" where
  "marshal r = jenc (j_record r)"

definition record_line :: "log_record \<Rightarrow> string" where
  "record_line r = marshal r @ [byte 10]"

subsection \<open>No newline inside a record\<close>

definition no_nl :: "string \<Rightarrow> bool" where
  "no_nl s \<longleftrightarrow> byte 10 \<notin> set s"

lemma no_nl_simps [str_simps]:
  "no_nl []" "no_nl (c # s) \<longleftrightarrow> c \<noteq> byte 10 \<and> no_nl s" "no_nl (a @ b) \<longleftrightarrow> no_nl a \<and> no_nl b"
  by (auto simp: no_nl_def)

lemma not_byte10: "(of_char c :: nat) \<noteq> 10 \<Longrightarrow> c \<noteq> byte 10"
  by auto

lemma rune_bytes:
  assumes "is_rune r" "length r \<noteq> 1" "c \<in> set r"
  shows "128 \<le> (of_char c :: nat)"
proof -
  let ?xs = "map of_char r :: nat list"
  let ?a = "u8_nth ?xs 0" and ?b = "u8_nth ?xs 1" and ?c = "u8_nth ?xs 2" and ?d = "u8_nth ?xs 3"
  from assms(3) obtain i where i: "i < length r" "c = r ! i" by (auto simp: in_set_conv_nth)
  then have ci: "(of_char c :: nat) = u8_nth ?xs i" by (simp add: u8_nth_def)
  have cont: "u8_cont x \<Longrightarrow> 128 \<le> x" for x by (simp add: u8_cont_def)
  have lead: "u8_lead3 x y \<Longrightarrow> 128 \<le> x \<and> 128 \<le> y" "u8_lead4 x y \<Longrightarrow> 128 \<le> x \<and> 128 \<le> y" for x y
    by (auto simp: u8_lead3_def u8_lead4_def u8_cont_def)
  consider (two) "0xC2 \<le> ?a" "u8_cont ?b" "length r = 2"
    | (three) "u8_lead3 ?a ?b" "u8_cont ?c" "length r = 3"
    | (four) "u8_lead4 ?a ?b" "u8_cont ?c" "u8_cont ?d" "length r = 4"
    using assms(1,2) by (auto simp: is_rune_def rune_len_def u8_len_def Let_def split: if_splits)
  then show ?thesis
  proof cases
    case two
    with i(1) have "i = 0 \<or> i = 1" by auto
    with two cont ci show ?thesis by auto
  next
    case three
    with i(1) have "i = 0 \<or> i = 1 \<or> i = 2" by auto
    with three cont lead(1) [OF three(1)] ci show ?thesis by auto
  next
    case four
    with i(1) have "i = 0 \<or> i = 1 \<or> i = 2 \<or> i = 3" by auto
    with four cont lead(2) [OF four(1)] ci show ?thesis by auto
  qed
qed

lemma nl_char: "byte 10 = CHR 0x0A"
  by code_simp

lemma hex_digit_not_nl: "d < 16 \<Longrightarrow> hex_digit d \<noteq> CHR 0x0A"
  using not_byte10 [of "hex_digit d"] by (simp add: of_char_hex_digit nl_char)

lemma quotes_not_nl: "bslash \<noteq> CHR 0x0A" "dquote \<noteq> CHR 0x0A"
  by (simp_all add: bslash_def dquote_def)

lemma no_nl_u_escape: "no_nl (u_escape n)"
  by (simp add: u_escape_def no_nl_simps hex_digit_not_nl quotes_not_nl nl_char)

lemma no_nl_esc_ascii: "no_nl (esc_ascii c)"
proof -
  have "(of_char c :: nat) = 10 \<or> c \<noteq> CHR 0x0A" using not_byte10 [of c] by (auto simp: nl_char)
  then show ?thesis
    by (auto simp: esc_ascii_def Let_def no_nl_simps no_nl_u_escape quotes_not_nl nl_char)
qed

lemma no_nl_esc_rune:
  assumes "is_rune r"
  shows "no_nl (esc_rune r)"
proof (cases "length r = 1")
  case True
  then obtain c where r: "r = [c]" by (cases r) auto
  have "(of_char c :: nat) < 128"
    using assms by (auto simp: r is_rune_def rune_len_def u8_len_def Let_def u8_nth_def u8_cont_def
        u8_lead3_def u8_lead4_def split: if_splits)
  then show ?thesis by (simp add: esc_rune_def r no_nl_esc_ascii)
next
  case False
  have "no_nl r"
    unfolding no_nl_def
  proof
    assume "byte 10 \<in> set r"
    from rune_bytes [OF assms False this] show False by simp
  qed
  moreover have "r \<noteq> []" using assms by (simp add: is_rune_def)
  ultimately show ?thesis
    using False by (cases r) (simp_all add: esc_rune_def no_nl_esc_ascii no_nl_u_escape)
qed

lemma no_nl_jesc: "valid_utf8 s \<Longrightarrow> no_nl (jesc s)"
proof (induction s rule: jesc.induct)
  case (1 s)
  show ?case
  proof (cases "s = []")
    case False
    note v = valid_rune [OF "1.prems" False]
    have "rune_len s \<noteq> 0" using "1.prems" False by (auto simp: valid_utf8.simps [of s] split: if_splits)
    with "1.IH" [OF False] v(2) have "no_nl (jesc (drop (rune_len s) s))" by (simp add: max_def)
    with v(1,3) show ?thesis by (simp add: no_nl_simps no_nl_esc_rune)
  qed (simp add: no_nl_simps)
qed

lemma no_nl_jstr: "valid_utf8 s \<Longrightarrow> no_nl (jstr s)"
  by (simp add: jstr_def no_nl_simps no_nl_jesc quotes_not_nl nl_char)

lemma no_nl_dec: "no_nl (dec n)"
  unfolding no_nl_def
proof
  assume "byte 10 \<in> set (dec n)"
  from dec_digits [OF this] show False by (simp add: is_digit_def)
qed

lemma no_nl_str_join: "no_nl d \<Longrightarrow> \<forall>w \<in> set ws. no_nl w \<Longrightarrow> no_nl (str_join d ws)"
  by (induction d ws rule: str_join.induct) (simp_all add: no_nl_simps)

lemma no_nl_jenc: "jok v \<Longrightarrow> no_nl (jenc v)"
proof (induction v)
  case (JArr vs)
  then have "no_nl (str_join '','' (map jenc vs))"
    by (intro no_nl_str_join) (auto simp: no_nl_simps nl_char)
  then show ?case by (simp add: no_nl_simps nl_char)
next
  case (JObj kvs)
  have "no_nl (jstr (fst e) @ CHR '':'' # jenc (snd e))" if "e \<in> set kvs" for e
  proof -
    have "no_nl (jenc (snd e))"
      using JObj.IH [of e "snd e"] JObj.prems that by (cases e) auto
    then show ?thesis using that JObj.prems by (auto simp: no_nl_simps no_nl_jstr nl_char)
  qed
  then have "no_nl (str_join '','' (map (\<lambda>(k, v). jstr k @ CHR '':'' # jenc v) kvs))"
    by (intro no_nl_str_join) (auto simp: no_nl_simps nl_char)
  then show ?case by (simp add: no_nl_simps nl_char)
qed (auto simp: no_nl_simps no_nl_jstr no_nl_dec int_dec_def nl_char)

definition utf8_record :: "log_record \<Rightarrow> bool" where
  "utf8_record r = jok (j_record r)"

lemma no_nl_marshal: "utf8_record r \<Longrightarrow> no_nl (marshal r)"
  by (simp add: marshal_def utf8_record_def no_nl_jenc)

subsection \<open>A record is not blank\<close>

lemma space_len_brace: "space_len (CHR ''{'' # s) = 0"
  by (cases s; cases "tl s") (auto simp: space_len_def)

lemma trim_right_brace: "\<exists>t. trim_right (CHR ''{'' # s) = CHR ''{'' # t"
proof (induction "length s" arbitrary: s rule: less_induct)
  case less
  let ?s = "CHR ''{'' # s"
  let ?k = "space_tail ?s"
  show ?case
  proof (cases "?k = 0")
    case True
    then show ?thesis by (simp add: trim_right.simps [of ?s])
  next
    case False
    have k: "?k \<le> length s"
    proof (rule ccontr)
      assume "\<not> ?k \<le> length s"
      moreover have "?k \<le> length ?s" by (auto simp: space_tail_def split: if_splits)
      ultimately have "?k = length ?s" by simp
      with False have "space_len (drop 0 ?s) \<noteq> 0"
        by (auto simp: space_tail_def split: if_splits)
      then show False by (simp add: space_len_brace)
    qed
    with False have t: "take (length ?s - ?k) ?s = CHR ''{'' # take (length s - ?k) s"
      by (simp add: Suc_diff_le)
    have "length (take (length s - ?k) s) < length s" using False k by simp
    from less [OF this] t False show ?thesis by (simp add: trim_right.simps [of ?s])
  qed
qed

lemma trim_space_brace: "trim_space (CHR ''{'' # s) \<noteq> []"
  using trim_right_brace [of s]
  by (auto simp: trim_space_def trim_left.simps [of "CHR ''{'' # s"] space_len_brace)

lemma marshal_brace: "\<exists>t. marshal r = CHR ''{'' # t"
  by (cases r) (simp_all add: marshal_def)

lemma marshal_not_blank: "trim_space (marshal r) \<noteq> []"
  using marshal_brace [of r] trim_space_brace by auto

subsection \<open>The loader\<close>

definition blank :: "string \<Rightarrow> bool" where
  "blank ln = (trim_space ln = [])"

text \<open>The index of the last non-blank line, -1 when there is none.\<close>

fun lastNonEmpty :: "nat \<Rightarrow> int \<Rightarrow> string list \<Rightarrow> int" where
  "lastNonEmpty i r [] = r"
| "lastNonEmpty i r (ln # lns) = lastNonEmpty (Suc i) (if blank ln then r else int i) lns"

type_synonym unmarshal = "string \<Rightarrow> log_record option"

fun load_loop ::
  "unmarshal \<Rightarrow> int \<Rightarrow> nat \<Rightarrow> event list \<Rightarrow> signature option \<Rightarrow> string list \<Rightarrow> event list \<times> signature option" where
  "load_loop unm lastNE i events seal [] = (events, seal)"
| "load_loop unm lastNE i events seal (ln # lns) =
     (if blank ln then load_loop unm lastNE (Suc i) events seal lns
      else case unm ln of
        None \<Rightarrow> if int i = lastNE then (events, seal) else load_loop unm lastNE (Suc i) events seal lns
      | Some (SealRec s) \<Rightarrow> load_loop unm lastNE (Suc i) events (Some s) lns
      | Some (EventRec e) \<Rightarrow> load_loop unm lastNE (Suc i) (events @ [e]) seal lns
      | Some EmptyRec \<Rightarrow> load_loop unm lastNE (Suc i) events seal lns)"

definition load_bytes :: "unmarshal \<Rightarrow> string \<Rightarrow> event list \<times> signature option" where
  "load_bytes unm data =
     (let lines = split_on (byte 10) data
      in load_loop unm (lastNonEmpty 0 (-1) lines) 0 [] None lines)"

text \<open>The same result without indices: unparsable lines are dropped wherever they stand.\<close>

fun apply_line :: "unmarshal \<Rightarrow> event list \<times> signature option \<Rightarrow> string \<Rightarrow> event list \<times> signature option" where
  "apply_line unm (events, seal) ln =
     (if blank ln then (events, seal)
      else case unm ln of
        Some (SealRec s) \<Rightarrow> (events, Some s)
      | Some (EventRec e) \<Rightarrow> (events @ [e], seal)
      | _ \<Rightarrow> (events, seal))"

lemma lastNonEmpty_ge: "r < int i \<Longrightarrow> r \<le> lastNonEmpty i r lns \<and> lastNonEmpty i r lns < int i + int (length lns)"
proof (induction lns arbitrary: i r)
  case (Cons ln lns)
  from Cons.prems Cons.IH [of "if blank ln then r else int i" "Suc i"] show ?case by auto
qed simp

lemma blank_after_last:
  "r < int i \<Longrightarrow> lastNonEmpty i r lns < int i \<Longrightarrow> list_all blank lns"
proof (induction lns arbitrary: i r)
  case (Cons ln lns)
  show ?case
  proof (cases "blank ln")
    case True
    have "lastNonEmpty (Suc i) r lns < int (Suc i)" using Cons.prems True by simp
    with Cons.IH [of r "Suc i"] Cons.prems True show ?thesis by simp
  next
    case False
    with lastNonEmpty_ge [of "int i" "Suc i" lns] Cons.prems show ?thesis by simp
  qed
qed simp

lemma foldl_blank: "list_all blank lns \<Longrightarrow> foldl (apply_line unm) st lns = st"
  by (induction lns arbitrary: st) (auto simp: prod_eq_iff)

lemma load_loop_foldl:
  "r < int i \<Longrightarrow> lastNonEmpty i r lns = k \<Longrightarrow>
   load_loop unm k i events seal lns = foldl (apply_line unm) (events, seal) lns"
proof (induction lns arbitrary: i r events seal)
  case (Cons ln lns)
  note IH = Cons.IH [of "if blank ln then r else int i" "Suc i"]
  show ?case
  proof (cases "blank ln")
    case True
    with Cons.prems IH show ?thesis by simp
  next
    case False
    with Cons.prems have k: "lastNonEmpty (Suc i) (int i) lns = k" by simp
    show ?thesis
    proof (cases "unm ln")
      case None
      show ?thesis
      proof (cases "int i = k")
        case True
        with k have "list_all blank lns" using blank_after_last [of "int i" "Suc i" lns] by simp
        with True None False show ?thesis by (simp add: foldl_blank)
      next
        case ne: False
        with None False k Cons.IH [of "int i" "Suc i"] show ?thesis by simp
      qed
    next
      case (Some rec)
      with False k Cons.IH [of "int i" "Suc i"] show ?thesis by (cases rec) simp_all
    qed
  qed
qed simp

lemma load_bytes_foldl: "load_bytes unm data = foldl (apply_line unm) ([], None) (split_on (byte 10) data)"
  unfolding load_bytes_def Let_def by (rule load_loop_foldl [of "-1" 0]) simp_all

subsection \<open>Loading what was written\<close>

text \<open>The records that were written, as the loader should see them.\<close>

fun apply_record :: "event list \<times> signature option \<Rightarrow> log_record \<Rightarrow> event list \<times> signature option" where
  "apply_record (es, g) (EventRec e) = (es @ [e], g)"
| "apply_record (es, g) (SealRec s) = (es, Some s)"
| "apply_record (es, g) EmptyRec = (es, g)"

definition log_bytes :: "log_record list \<Rightarrow> string" where
  "log_bytes rs = concat (map record_line rs)"

definition log_content :: "log_record list \<Rightarrow> event list \<times> signature option" where
  "log_content rs = foldl apply_record ([], None) rs"

text \<open>What the theorems ask of the decoder: it reads back these records.\<close>

definition reads_back :: "unmarshal \<Rightarrow> log_record list \<Rightarrow> bool" where
  "reads_back unm rs \<longleftrightarrow> list_all (\<lambda>r. utf8_record r \<and> unm (marshal r) = Some r) rs"

lemma apply_line_marshal:
  "unm (marshal r) = Some r \<Longrightarrow> apply_line unm st (marshal r) = apply_record st r"
  by (cases st; cases r) (simp_all add: blank_def marshal_not_blank)

lemma split_record_line: "utf8_record r \<Longrightarrow> split_on (byte 10) (record_line r @ d) = marshal r # split_on (byte 10) d"
  using no_nl_marshal [of r] split_on_append [of "byte 10" "marshal r" d]
  by (simp add: record_line_def no_nl_def)

lemma split_log_bytes:
  "reads_back unm rs \<Longrightarrow> split_on (byte 10) (log_bytes rs @ d) = map marshal rs @ split_on (byte 10) d"
  by (induction rs) (simp_all add: log_bytes_def reads_back_def split_record_line)

lemma foldl_marshal:
  "reads_back unm rs \<Longrightarrow> foldl (apply_line unm) st (map marshal rs) = foldl apply_record st rs"
  by (induction rs arbitrary: st) (simp_all add: reads_back_def apply_line_marshal)

lemma load_log_tail:
  "reads_back unm rs \<Longrightarrow>
   load_bytes unm (log_bytes rs @ d) = foldl (apply_line unm) (log_content rs) (split_on (byte 10) d)"
  by (simp add: load_bytes_foldl split_log_bytes foldl_marshal log_content_def)

lemma blank_Nil [simp]: "blank []"
  by (simp add: blank_def)

lemma load_log_bytes: "reads_back unm rs \<Longrightarrow> load_bytes unm (log_bytes rs) = log_content rs"
  using load_log_tail [of unm rs "[]"] by (cases "log_content rs") simp

lemma log_content_append: "log_content (rs @ ss) = foldl apply_record (log_content rs) ss"
  by (simp add: log_content_def)

lemma log_bytes_append: "log_bytes (rs @ ss) = log_bytes rs @ log_bytes ss"
  by (simp add: log_bytes_def)

end
