(* ===== verification/Trace_File.thy ===== *)
theory Trace_File
  imports Trace_Lines
begin

text \<open>
  \<^verbatim>\<open>internal/trace/filesink.go\<close> and \<^verbatim>\<open>history.go\<close>: the durable sink. The disk maps a session
  to the bytes of its log; \<open>fopen\<close> holds the sessions opened in this daemon life, and
  \<open>restart\<close> drops them. The outcome of the system calls of one append is the argument
  \<open>out\<close>. Live subscribers have a bounded queue, as their channels do.
\<close>

datatype io_outcome = IoOk | WriteFails nat | SyncFails

record subscriber =
  SubId :: nat
  Queue :: "event list"

record file_session =
  FState :: chain_state
  FSeal :: "signature option"
  Ring :: "event list"
  RingBase :: nat
  Subs :: "subscriber list"
  NextSubID :: nat

record file_sink =
  Disk :: "string \<Rightarrow> string option"
  Sessions :: "string \<Rightarrow> file_session option"

record sink_config =
  FsyncAlways :: bool
  RingSize :: nat
  Unm :: unmarshal

definition loadSessionLog :: "unmarshal \<Rightarrow> file_sink \<Rightarrow> string \<Rightarrow> event list \<times> signature option" where
  "loadSessionLog unm s i = (case Disk s i of None \<Rightarrow> ([], None) | Some data \<Rightarrow> load_bytes unm data)"

definition disk_bytes :: "file_sink \<Rightarrow> string \<Rightarrow> string" where
  "disk_bytes s i = (case Disk s i of None \<Rightarrow> [] | Some d \<Rightarrow> d)"

text \<open>The session rehydrated from its log.\<close>

definition rehydrate :: "nat \<Rightarrow> event list \<times> signature option \<Rightarrow> file_session" where
  "rehydrate ringSize content =
     (let (events, seal) = content; n = length events;
          base = (if n > ringSize then n - ringSize else 0)
      in \<lparr>FState = (if n > 0 then \<lparr>seq = Seq (events ! (n - 1)) + 1, last_hash = EHash (events ! (n - 1))\<rparr>
                   else \<lparr>seq = 0, last_hash = []\<rparr>),
          FSeal = seal,
          Ring = (if n > 0 then drop base events else []),
          RingBase = (if n > 0 then Seq (events ! base) else 0),
          Subs = [], NextSubID = 0\<rparr>)"

definition sessionFor :: "sink_config \<Rightarrow> file_sink \<Rightarrow> string \<Rightarrow> file_session \<times> file_sink" where
  "sessionFor cfg s i =
     (case Sessions s i of Some fs \<Rightarrow> (fs, s)
      | None \<Rightarrow>
          let fs = rehydrate (RingSize cfg) (loadSessionLog (Unm cfg) s i)
          in (fs, s\<lparr>Disk := (Disk s)(i \<mapsto> disk_bytes s i), Sessions := (Sessions s)(i \<mapsto> fs)\<rparr>))"

definition append_bytes :: "file_sink \<Rightarrow> string \<Rightarrow> string \<Rightarrow> file_sink" where
  "append_bytes s i b = s\<lparr>Disk := (Disk s)(i \<mapsto> disk_bytes s i @ b)\<rparr>"

definition put_session :: "file_sink \<Rightarrow> string \<Rightarrow> file_session \<Rightarrow> file_sink" where
  "put_session s i fs = s\<lparr>Sessions := (Sessions s)(i \<mapsto> fs)\<rparr>"

definition pushRing :: "nat \<Rightarrow> event \<Rightarrow> file_session \<Rightarrow> file_session" where
  "pushRing cap ev fs =
     (let r = Ring fs @ [ev];
          r' = (if length r > cap then drop (length r - cap) r else r)
      in fs\<lparr>Ring := r', RingBase := Seq (hd r')\<rparr>)"

text \<open>A subscriber whose channel is full is dropped; it reconnects and reads the log.\<close>

definition fanout :: "nat \<Rightarrow> event \<Rightarrow> file_session \<Rightarrow> file_session" where
  "fanout cap ev fs = fs\<lparr>Subs :=
     map (\<lambda>u. u\<lparr>Queue := Queue u @ [ev]\<rparr>) (filter (\<lambda>u. length (Queue u) < cap) (Subs fs))\<rparr>"

datatype file_error = FSinkError sink_error | WriteError string | SyncError string

definition must_sync :: "sink_config \<Rightarrow> event \<Rightarrow> bool" where
  "must_sync cfg ev = (FsyncAlways cfg \<or> Type ev = ''exec.end'' \<or> Type ev = ''session.end'')"

definition file_append ::
  "(string \<Rightarrow> string) \<Rightarrow> sink_config \<Rightarrow> file_sink \<Rightarrow> event \<Rightarrow> io_outcome \<Rightarrow> (file_error + unit) \<times> file_sink" where
  "file_append H cfg s ev out =
     (let i = SessionID ev; (fs, s1) = sessionFor cfg s i in
      if FSeal fs \<noteq> None then (Inl (FSinkError (AlreadySealed i)), s1)
      else let (ev', st) = assign H (FState fs) ev;
               fs1 = fs\<lparr>FState := st\<rparr>;
               b = record_line (EventRec ev')
           in case out of
                WriteFails k \<Rightarrow> (Inl (WriteError i), put_session (append_bytes s1 i (take k b)) i fs1)
              | SyncFails \<Rightarrow>
                  if must_sync cfg ev' then (Inl (SyncError i), put_session (append_bytes s1 i b) i fs1)
                  else (Inr (), put_session (append_bytes s1 i b) i
                         (fanout (RingSize cfg) ev' (pushRing (RingSize cfg) ev' fs1)))
              | IoOk \<Rightarrow> (Inr (), put_session (append_bytes s1 i b) i
                         (fanout (RingSize cfg) ev' (pushRing (RingSize cfg) ev' fs1))))"

definition file_seal ::
  "signer option \<Rightarrow> sink_config \<Rightarrow> file_sink \<Rightarrow> string \<Rightarrow> string \<Rightarrow> io_outcome \<Rightarrow>
   (file_error + signature) \<times> file_sink" where
  "file_seal sg cfg s i now out =
     (let (fs, s1) = sessionFor cfg s i in
      case FSeal fs of Some g \<Rightarrow> (Inr g, s1)
      | None \<Rightarrow>
          if seq (FState fs) = 0 then (Inl (FSinkError (NoEvents i)), s1)
          else case sealHash sg now (last_hash (FState fs)) of
            Inl e \<Rightarrow> (Inl (FSinkError e), s1)
          | Inr g \<Rightarrow>
              let b = record_line (SealRec g) in
              (case out of
                 WriteFails k \<Rightarrow> (Inl (WriteError i), append_bytes s1 i (take k b))
               | SyncFails \<Rightarrow> (Inl (SyncError i), append_bytes s1 i b)
               | IoOk \<Rightarrow> (Inr g, put_session (append_bytes s1 i b) i (fs\<lparr>FSeal := Some g\<rparr>))))"

definition file_export :: "sink_config \<Rightarrow> file_sink \<Rightarrow> string \<Rightarrow> (event list \<times> signature option) option" where
  "file_export cfg s i =
     (let (events, seal) = loadSessionLog (Unm cfg) s i
      in if events = [] then None else Some (events, seal))"

definition subscribe_backfill :: "sink_config \<Rightarrow> file_sink \<Rightarrow> file_session \<Rightarrow> string \<Rightarrow> nat \<Rightarrow> event list" where
  "subscribe_backfill cfg s fs i fromSeq =
     (if fromSeq < seq (FState fs) then
        (if Ring fs \<noteq> [] \<and> fromSeq \<ge> RingBase fs then drop (fromSeq - RingBase fs) (Ring fs)
         else filter (\<lambda>ev. Seq ev \<ge> fromSeq) (fst (loadSessionLog (Unm cfg) s i)))
      else [])"

definition file_subscribe :: "sink_config \<Rightarrow> file_sink \<Rightarrow> string \<Rightarrow> nat \<Rightarrow> (event list \<times> nat) \<times> file_sink" where
  "file_subscribe cfg s i fromSeq =
     (let (fs, s1) = sessionFor cfg s i;
          n = NextSubID fs
      in ((subscribe_backfill cfg s1 fs i fromSeq, n),
          put_session s1 i (fs\<lparr>Subs := Subs fs @ [\<lparr>SubId = n, Queue = []\<rparr>], NextSubID := n + 1\<rparr>)))"

text \<open>A daemon restart: the open sessions are gone, the disk stays. A crash may tear the tail.\<close>

definition restart :: "file_sink \<Rightarrow> file_sink" where
  "restart s = s\<lparr>Sessions := (\<lambda>_. None)\<rparr>"

definition NewFileSink :: file_sink where
  "NewFileSink = \<lparr>Disk = (\<lambda>_. None), Sessions = (\<lambda>_. None)\<rparr>"

subsection \<open>History (history.go)\<close>

record session_meta =
  MetaID :: string
  StartedAt :: string
  EndedAt :: "string option"
  MetaTier :: string
  EventCount :: nat
  Sealed :: bool

definition session_meta_of :: "string \<Rightarrow> event list \<times> signature option \<Rightarrow> session_meta" where
  "session_meta_of i content =
     (let (events, seal) = content; l = last events
      in \<lparr>MetaID = i, StartedAt = TS (hd events),
          EndedAt = (if seal \<noteq> None \<or> Type l = ''session.end'' then Some (TS l) else None),
          MetaTier = payloadString (Payload (hd events)) ''tier'',
          EventCount = length events, Sealed = (seal \<noteq> None)\<rparr>)"

text \<open>
  \<open>names\<close> are the entries of the trace directory that are files; \<open>newer\<close> ranks start times,
  the newest first.
\<close>

definition History :: "sink_config \<Rightarrow> file_sink \<Rightarrow> (string \<Rightarrow> int) \<Rightarrow> string list \<Rightarrow> session_meta list" where
  "History cfg s newer names =
     sort_key (\<lambda>m. newer (StartedAt m))
       (map (\<lambda>n. session_meta_of (trim_suffix n ''.log'') (loadSessionLog (Unm cfg) s (trim_suffix n ''.log'')))
         (filter (\<lambda>n. has_suffix n ''.log'' \<and>
                      fst (loadSessionLog (Unm cfg) s (trim_suffix n ''.log'')) \<noteq> []) names))"

subsection \<open>The log as a list of records\<close>

text \<open>
  The abstraction: the bytes of a session's log are the lines of a list of records. The
  invariant \<open>in_sync\<close> ties a sink to it: an open session holds the position and the seal of
  its log, and its ring is the tail of the log.
\<close>

definition tail_of :: "event list \<Rightarrow> event list \<Rightarrow> bool" where
  "tail_of r es \<longleftrightarrow> (\<exists>k. r = drop k es)"

definition ring_ok :: "nat \<Rightarrow> event list \<Rightarrow> file_session \<Rightarrow> bool" where
  "ring_ok cap es fs \<longleftrightarrow> (es \<noteq> [] \<longrightarrow> Ring fs \<noteq> []) \<and> length (Ring fs) \<le> cap \<and>
     (Ring fs \<noteq> [] \<longrightarrow> Ring fs = drop (RingBase fs) es)"

definition session_ok :: "nat \<Rightarrow> log_record list \<Rightarrow> file_session \<Rightarrow> bool" where
  "session_ok cap rs fs \<longleftrightarrow>
     FState fs = position (fst (log_content rs)) \<and> FSeal fs = snd (log_content rs) \<and>
     ring_ok cap (fst (log_content rs)) fs"

definition log_ok :: "(string \<Rightarrow> string) \<Rightarrow> unmarshal \<Rightarrow> log_record list \<Rightarrow> bool" where
  "log_ok H unm rs \<longleftrightarrow> reads_back unm rs \<and> chain_ok H (fst (log_content rs))"

definition in_sync ::
  "(string \<Rightarrow> string) \<Rightarrow> sink_config \<Rightarrow> file_sink \<Rightarrow> string \<Rightarrow> log_record list \<Rightarrow> bool" where
  "in_sync H cfg s i rs \<longleftrightarrow> log_ok H (Unm cfg) rs \<and> disk_bytes s i = log_bytes rs \<and>
     (\<forall>fs. Sessions s i = Some fs \<longrightarrow> session_ok (RingSize cfg) rs fs)"

lemma load_in_sync: "in_sync H cfg s i rs \<Longrightarrow> loadSessionLog (Unm cfg) s i = log_content rs"
proof -
  assume a: "in_sync H cfg s i rs"
  then have r: "reads_back (Unm cfg) rs" and b: "disk_bytes s i = log_bytes rs"
    by (simp_all add: in_sync_def log_ok_def)
  show ?thesis
  proof (cases "Disk s i")
    case None
    with b have "rs = []"
      by (cases rs) (simp_all add: disk_bytes_def log_bytes_def record_line_def)
    with None show ?thesis by (simp add: loadSessionLog_def log_content_def)
  next
    case (Some d)
    with b load_log_bytes [OF r] show ?thesis by (simp add: loadSessionLog_def disk_bytes_def)
  qed
qed

lemma chain_Seq: "chain_ok H es \<Longrightarrow> i < length es \<Longrightarrow> Seq (es ! i) = i"
  by (simp add: chain_ok_def link_ok_def)

lemma rehydrate_ok:
  assumes "log_ok H unm rs" "0 < cap"
  shows "session_ok cap rs (rehydrate cap (log_content rs))"
proof -
  obtain es g where c: "log_content rs = (es, g)" by (cases "log_content rs")
  with assms have ch: "chain_ok H es" by (simp add: log_ok_def)
  let ?base = "if length es > cap then length es - cap else 0"
  show ?thesis
  proof (cases "es = []")
    case True
    then show ?thesis
      by (simp add: session_ok_def rehydrate_def Let_def c position_Nil ring_ok_def)
  next
    case False
    have "?base < length es" using False assms(2) by auto
    with ch have "Seq (es ! ?base) = ?base" by (rule chain_Seq)
    moreover have "Seq (es ! (length es - 1)) = length es - 1" using ch False by (simp add: chain_Seq)
    ultimately show ?thesis using False assms(2)
      by (auto simp: session_ok_def rehydrate_def Let_def c position_def ring_ok_def head_hash_def last_conv_nth)
  qed
qed

lemma sessionFor_ok:
  assumes "in_sync H cfg s i rs" "0 < RingSize cfg"
  shows "session_ok (RingSize cfg) rs (fst (sessionFor cfg s i))"
    and "in_sync H cfg (snd (sessionFor cfg s i)) i rs"
    and "Sessions (snd (sessionFor cfg s i)) i = Some (fst (sessionFor cfg s i))"
proof -
  have r: "session_ok (RingSize cfg) rs (rehydrate (RingSize cfg) (log_content rs))"
    using assms by (intro rehydrate_ok [of H "Unm cfg"]) (simp_all add: in_sync_def)
  show "session_ok (RingSize cfg) rs (fst (sessionFor cfg s i))"
    using r assms by (auto simp: sessionFor_def Let_def load_in_sync [OF assms(1)] in_sync_def split: option.splits)
  show "in_sync H cfg (snd (sessionFor cfg s i)) i rs"
    using r assms
    by (auto simp: sessionFor_def Let_def load_in_sync [OF assms(1)] in_sync_def disk_bytes_def split: option.splits)
  show "Sessions (snd (sessionFor cfg s i)) i = Some (fst (sessionFor cfg s i))"
    by (auto simp: sessionFor_def Let_def split: option.splits)
qed

subsection \<open>Operations keep the abstraction\<close>

lemma trim_tail:
  assumes "r = drop k xs"
  shows "(if length r > cap then drop (length r - cap) r else r) =
           drop (if length r > cap then length r - cap + k else k) xs"
    and "length (if length r > cap then drop (length r - cap) r else r) \<le> cap"
  by (simp_all add: assms)

lemma ring_ok_push:
  assumes "ring_ok cap es fs" "chain_ok H es" "0 < cap" "chain_ok H (es @ [e])"
  shows "ring_ok cap (es @ [e]) (pushRing cap e fs)"
proof -
  let ?r = "Ring fs @ [e]"
  let ?r' = "if length ?r > cap then drop (length ?r - cap) ?r else ?r"
  have "\<exists>k. ?r = drop k (es @ [e]) \<and> k \<le> length es"
  proof (cases "Ring fs = []")
    case True
    then show ?thesis by (intro exI [of _ "length es"]) simp
  next
    case False
    with assms(1) have "Ring fs = drop (RingBase fs) es" by (simp add: ring_ok_def)
    moreover from this False have "RingBase fs < length es" by (metis drop_all not_le)
    ultimately show ?thesis by (intro exI [of _ "RingBase fs"]) simp
  qed
  then obtain k where k: "?r = drop k (es @ [e])" "k \<le> length es" by blast
  define m where "m = (if length ?r > cap then length ?r - cap + k else k)"
  have r': "?r' = drop m (es @ [e])" unfolding m_def by (rule trim_tail(1) [OF k(1)])
  have "length ?r = Suc (length es) - k" using arg_cong [OF k(1), of length] by simp
  then have m: "m \<le> length es" using k(2) assms(3) by (auto simp: m_def)
  have "hd ?r' = (es @ [e]) ! m" unfolding r' by (rule hd_drop_conv_nth) (use m in simp)
  then have "Seq (hd ?r') = m" using chain_Seq [OF assms(4), of m] m by simp
  moreover have "?r' \<noteq> []" unfolding r' using m by simp
  moreover have "length ?r' \<le> cap" by (rule trim_tail(2) [OF k(1)])
  ultimately show ?thesis unfolding ring_ok_def pushRing_def Let_def r' by simp
qed

lemma ring_ok_cong: "Ring fs = Ring fs' \<Longrightarrow> RingBase fs = RingBase fs' \<Longrightarrow> ring_ok c es fs = ring_ok c es fs'"
  by (simp add: ring_ok_def)

lemma log_ok_snoc_event:
  assumes "log_ok H unm rs" "reads_back unm [EventRec (stamp H (fst (log_content rs)) ev)]"
  shows "log_ok H unm (rs @ [EventRec (stamp H (fst (log_content rs)) ev)])"
  using assms by (cases "log_content rs") (auto simp: log_ok_def reads_back_def log_content_append chain_ok_stamp)

lemma log_ok_snoc_seal:
  assumes "log_ok H unm rs" "reads_back unm [SealRec g]"
  shows "log_ok H unm (rs @ [SealRec g])"
  using assms by (cases "log_content rs") (auto simp: log_ok_def reads_back_def log_content_append)

lemma disk_bytes_append: "disk_bytes (append_bytes s i b) j = (if j = i then disk_bytes s i @ b else disk_bytes s j)"
  by (simp add: append_bytes_def disk_bytes_def)

lemma disk_bytes_put [simp]: "disk_bytes (put_session s i fs) j = disk_bytes s j"
  by (simp add: put_session_def disk_bytes_def)

lemma Sessions_put [simp]: "Sessions (put_session s i fs) j = (if j = i then Some fs else Sessions s j)"
  by (simp add: put_session_def)

lemma Sessions_append [simp]: "Sessions (append_bytes s i b) = Sessions s"
  by (simp add: append_bytes_def)

lemma sessionFor_other:
  "j \<noteq> i \<Longrightarrow> Sessions (snd (sessionFor cfg s i)) j = Sessions s j \<and>
     disk_bytes (snd (sessionFor cfg s i)) j = disk_bytes s j"
  by (auto simp: sessionFor_def Let_def disk_bytes_def split: option.splits)

lemma in_sync_cong:
  "Sessions s' j = Sessions s j \<Longrightarrow> disk_bytes s' j = disk_bytes s j \<Longrightarrow> in_sync H cfg s j rs \<Longrightarrow> in_sync H cfg s' j rs"
  by (simp add: in_sync_def)

lemma file_append_sync:
  assumes "in_sync H cfg s i rs" "0 < RingSize cfg" "SessionID ev = i"
    and "snd (log_content rs) = None"
    and "reads_back (Unm cfg) [EventRec (stamp H (fst (log_content rs)) ev)]"
  shows "fst (file_append H cfg s ev IoOk) = Inr ()"
    and "in_sync H cfg (snd (file_append H cfg s ev IoOk)) i (rs @ [EventRec (stamp H (fst (log_content rs)) ev)])"
proof -
  obtain fs s1 where f: "sessionFor cfg s i = (fs, s1)" by (cases "sessionFor cfg s i")
  let ?es = "fst (log_content rs)" and ?e = "stamp H (fst (log_content rs)) ev"
  note ok = sessionFor_ok [OF assms(1,2), unfolded f fst_conv snd_conv]
  have st: "FState fs = position ?es" "FSeal fs = None" "ring_ok (RingSize cfg) ?es fs"
    using ok(1) assms(4) by (simp_all add: session_ok_def)
  have lo: "log_ok H (Unm cfg) rs" using assms(1) by (simp add: in_sync_def)
  have ch: "chain_ok H ?es" using lo by (simp add: log_ok_def)
  let ?fs1 = "fs\<lparr>FState := position (?es @ [?e])\<rparr>"
  let ?fs2 = "fanout (RingSize cfg) ?e (pushRing (RingSize cfg) ?e ?fs1)"
  have a: "file_append H cfg s ev IoOk =
      (Inr (), put_session (append_bytes s1 i (record_line (EventRec ?e))) i ?fs2)"
    by (simp add: file_append_def assms(3) f st assign_position Let_def)
  show "fst (file_append H cfg s ev IoOk) = Inr ()" by (simp add: a)
  have "ring_ok (RingSize cfg) (?es @ [?e]) ?fs2"
    using ring_ok_push [OF _ ch assms(2) chain_ok_stamp [OF ch], of ?fs1 ev] st(3)
    by (simp add: ring_ok_def fanout_def)
  then have so: "session_ok (RingSize cfg) (rs @ [EventRec ?e]) ?fs2"
    using st(2) assms(4)
    by (cases "log_content rs") (simp add: session_ok_def log_content_append fanout_def pushRing_def Let_def)
  have "disk_bytes s1 i = log_bytes rs" using ok(2) by (simp add: in_sync_def)
  then show "in_sync H cfg (snd (file_append H cfg s ev IoOk)) i (rs @ [EventRec ?e])"
    using so log_ok_snoc_event [OF lo assms(5)]
    by (simp add: a in_sync_def disk_bytes_append log_bytes_append) (simp add: log_bytes_def)
qed

lemma file_append_sealed:
  assumes "in_sync H cfg s i rs" "0 < RingSize cfg" "SessionID ev = i" "snd (log_content rs) \<noteq> None"
  shows "file_append H cfg s ev out = (Inl (FSinkError (AlreadySealed i)), snd (sessionFor cfg s i))"
  using sessionFor_ok(1) [OF assms(1,2)] assms(3,4)
  by (cases "sessionFor cfg s i") (auto simp: file_append_def Let_def session_ok_def)

lemma file_append_other:
  "j \<noteq> SessionID ev \<Longrightarrow> in_sync H cfg s j rs \<Longrightarrow> in_sync H cfg (snd (file_append H cfg s ev out)) j rs"
proof -
  assume j: "j \<noteq> SessionID ev" and s: "in_sync H cfg s j rs"
  obtain fs s1 where f: "sessionFor cfg s (SessionID ev) = (fs, s1)" by (cases "sessionFor cfg s (SessionID ev)")
  have "Sessions (snd (file_append H cfg s ev out)) j = Sessions s j \<and>
      disk_bytes (snd (file_append H cfg s ev out)) j = disk_bytes s j"
    using sessionFor_other [OF j, of cfg s] j
    by (auto simp: file_append_def f Let_def disk_bytes_append split: prod.splits io_outcome.splits)
  with s show ?thesis using in_sync_cong by blast
qed

lemma restart_sync: "in_sync H cfg s i rs \<Longrightarrow> in_sync H cfg (restart s) i rs"
  by (simp add: in_sync_def restart_def disk_bytes_def)

lemma position_seq: "seq (position es) = length es"
  by (simp add: position_def)

lemma file_seal_sync:
  assumes "in_sync H cfg s i rs" "0 < RingSize cfg" "snd (log_content rs) = None"
    and "fst (log_content rs) \<noteq> []"
    and "reads_back (Unm cfg) [SealRec (seal_of k now (EHash (last (fst (log_content rs)))))]"
  shows "in_sync H cfg (snd (file_seal (Some k) cfg s i now IoOk)) i
           (rs @ [SealRec (seal_of k now (EHash (last (fst (log_content rs)))))])"
proof -
  obtain fs s1 where f: "sessionFor cfg s i = (fs, s1)" by (cases "sessionFor cfg s i")
  let ?es = "fst (log_content rs)"
  let ?g = "seal_of k now (EHash (last ?es))"
  note ok = sessionFor_ok [OF assms(1,2), unfolded f fst_conv snd_conv]
  have st: "FState fs = position ?es" "FSeal fs = None" "ring_ok (RingSize cfg) ?es fs"
    using ok(1) assms(3) by (simp_all add: session_ok_def)
  have lo: "log_ok H (Unm cfg) rs" using assms(1) by (simp add: in_sync_def)
  have a: "file_seal (Some k) cfg s i now IoOk =
      (Inr ?g, put_session (append_bytes s1 i (record_line (SealRec ?g))) i (fs\<lparr>FSeal := Some ?g\<rparr>))"
    using assms(4) by (simp add: file_seal_def f st position_def sealHash_Some head_hash_def Let_def)
  have so: "session_ok (RingSize cfg) (rs @ [SealRec ?g]) (fs\<lparr>FSeal := Some ?g\<rparr>)"
    using st by (cases "log_content rs") (simp add: session_ok_def log_content_append ring_ok_def)
  have "disk_bytes s1 i = log_bytes rs" using ok(2) by (simp add: in_sync_def)
  then show ?thesis
    using so log_ok_snoc_seal [OF lo assms(5)]
    by (simp add: a in_sync_def disk_bytes_append log_bytes_append) (simp add: log_bytes_def)
qed

lemma file_seal_skip:
  assumes "in_sync H cfg s i rs" "0 < RingSize cfg"
    and "snd (log_content rs) \<noteq> None \<or> fst (log_content rs) = [] \<or> sg = None"
  shows "snd (file_seal sg cfg s i now out) = snd (sessionFor cfg s i)"
proof -
  obtain fs s1 where f: "sessionFor cfg s i = (fs, s1)" by (cases "sessionFor cfg s i")
  have st: "FState fs = position (fst (log_content rs))" "FSeal fs = snd (log_content rs)"
    using sessionFor_ok(1) [OF assms(1,2)] by (simp_all add: session_ok_def f)
  show ?thesis
  proof (cases "FSeal fs")
    case None
    with assms(3) st f show ?thesis
      by (cases "fst (log_content rs) = []") (simp_all add: file_seal_def position_def sealHash_def)
  qed (simp add: file_seal_def f)
qed

lemma file_seal_other:
  assumes "j \<noteq> i" "in_sync H cfg s j rs"
  shows "in_sync H cfg (snd (file_seal sg cfg s i now out)) j rs"
proof -
  obtain fs s1 where f: "sessionFor cfg s i = (fs, s1)" by (cases "sessionFor cfg s i")
  have "Sessions (snd (file_seal sg cfg s i now out)) j = Sessions s j \<and>
      disk_bytes (snd (file_seal sg cfg s i now out)) j = disk_bytes s j"
    using sessionFor_other [OF assms(1), of cfg s] assms(1)
    by (auto simp: file_seal_def f Let_def disk_bytes_append split: option.splits sum.splits io_outcome.splits)
  with assms(2) show ?thesis using in_sync_cong by blast
qed

end
