(* ===== verification/Trace_Recovery.thy ===== *)
theory Trace_Recovery
  imports Trace_File
begin

text \<open>
  What the durable sink guarantees: it holds the same logs as the in-memory sink, across
  restarts; a crash tears at most the last record; a subscriber's backfill is the log from the
  requested position on. And what it does not: after a torn tail the next record is written onto
  the torn line.
\<close>

datatype file_op = FSink sink_op | FRestart

fun file_step ::
  "(string \<Rightarrow> string) \<Rightarrow> signer option \<Rightarrow> sink_config \<Rightarrow> file_sink \<Rightarrow> file_op \<Rightarrow> file_sink" where
  "file_step H sg cfg s (FSink (Append ev)) = snd (file_append H cfg s ev IoOk)"
| "file_step H sg cfg s (FSink (SealOp i now)) = snd (file_seal sg cfg s i now IoOk)"
| "file_step H sg cfg s FRestart = restart s"

definition file_run :: "(string \<Rightarrow> string) \<Rightarrow> signer option \<Rightarrow> sink_config \<Rightarrow> file_op list \<Rightarrow> file_sink" where
  "file_run H sg cfg ops = foldl (file_step H sg cfg) NewFileSink ops"

text \<open>The same operations for the in-memory sink, which knows no restart.\<close>

fun sink_ops :: "file_op list \<Rightarrow> sink_op list" where
  "sink_ops [] = []"
| "sink_ops (FSink p # ops) = p # sink_ops ops"
| "sink_ops (FRestart # ops) = sink_ops ops"

lemma sink_ops_append: "sink_ops (as @ bs) = sink_ops as @ sink_ops bs"
  by (induction as rule: sink_ops.induct) simp_all

text \<open>The records of a session in the order they are written.\<close>

definition mem_records :: "mem_sink \<Rightarrow> string \<Rightarrow> log_record list" where
  "mem_records m i = map EventRec (mem_log m i) @
     (case mem_sealed m i of None \<Rightarrow> [] | Some g \<Rightarrow> [SealRec g])"

lemma log_content_events: "foldl apply_record (es, g) (map EventRec fs) = (es @ fs, g)"
  by (induction fs arbitrary: es) simp_all

lemma log_content_mem: "log_content (mem_records m i) = (mem_log m i, mem_sealed m i)"
  by (simp add: log_content_def mem_records_def log_content_events split: option.splits)

subsection \<open>Simulation\<close>

definition simulates :: "(string \<Rightarrow> string) \<Rightarrow> sink_config \<Rightarrow> file_sink \<Rightarrow> mem_sink \<Rightarrow> bool" where
  "simulates H cfg s m \<longleftrightarrow> (\<forall>i. in_sync H cfg s i (mem_records m i))"

definition all_read_back :: "sink_config \<Rightarrow> mem_sink \<Rightarrow> bool" where
  "all_read_back cfg m \<longleftrightarrow> (\<forall>i. reads_back (Unm cfg) (mem_records m i))"

lemma reads_back_append: "reads_back unm (rs @ ss) \<longleftrightarrow> reads_back unm rs \<and> reads_back unm ss"
  by (simp add: reads_back_def)

lemma mem_append_log:
  assumes "mem_inv m"
  shows "mem_log (snd (mem_append H m ev)) i =
      (if i = SessionID ev \<and> mem_sealed m i = None then mem_log m i @ [stamp H (mem_log m i) ev] else mem_log m i)"
    and "mem_sealed (snd (mem_append H m ev)) i = mem_sealed m i"
  by (auto simp: mem_log_def mem_sealed_def mem_append_eq [OF assms] Let_def)

lemma mem_seal_log:
  assumes "mem_inv m"
  shows "mem_log (snd (mem_seal sg m j now)) i = mem_log m i"
    and "mem_sealed (snd (mem_seal sg m j now)) i =
      (if i = j \<and> mem_sealed m i = None \<and> mem_log m i \<noteq> [] \<and> sg \<noteq> None
       then Some (seal_of (the sg) now (EHash (last (mem_log m i)))) else mem_sealed m i)"
  using assms
  by (auto simp: mem_log_def mem_sealed_def mem_seal_eq Let_def mem_inv_def position_def head_hash_def)

lemma records_append:
  assumes "mem_inv m"
  shows "mem_records (snd (mem_append H m ev)) i =
     (if i = SessionID ev \<and> mem_sealed m i = None
      then mem_records m i @ [EventRec (stamp H (mem_log m i) ev)] else mem_records m i)"
  by (auto simp: mem_records_def mem_append_log [OF assms])

lemma records_seal:
  assumes "mem_inv m"
  shows "mem_records (snd (mem_seal sg m j now)) i =
     (if i = j \<and> mem_sealed m i = None \<and> mem_log m i \<noteq> [] \<and> sg \<noteq> None
      then mem_records m i @ [SealRec (seal_of (the sg) now (EHash (last (mem_log m i))))] else mem_records m i)"
  by (auto simp: mem_records_def mem_seal_log [OF assms] split: option.splits)

lemma all_read_back_step:
  assumes "mem_inv m" "all_read_back cfg (mem_step H sg m p)"
  shows "all_read_back cfg m"
  unfolding all_read_back_def
proof
  fix i
  from assms(2) have "reads_back (Unm cfg) (mem_records (mem_step H sg m p) i)"
    by (simp add: all_read_back_def)
  then show "reads_back (Unm cfg) (mem_records m i)"
    by (cases p) (auto simp: records_append [OF assms(1)] records_seal [OF assms(1)] reads_back_append
        split: if_splits)
qed

lemma simulates_append:
  assumes "simulates H cfg s m" "mem_inv m" "0 < RingSize cfg"
    and "all_read_back cfg (snd (mem_append H m ev))"
  shows "simulates H cfg (snd (file_append H cfg s ev IoOk)) (snd (mem_append H m ev))"
  unfolding simulates_def
proof
  fix i
  have sync: "in_sync H cfg s i (mem_records m i)" using assms(1) by (simp add: simulates_def)
  show "in_sync H cfg (snd (file_append H cfg s ev IoOk)) i (mem_records (snd (mem_append H m ev)) i)"
  proof (cases "i = SessionID ev")
    case False
    with file_append_other [OF False sync] show ?thesis by (simp add: records_append [OF assms(2)])
  next
    case True
    show ?thesis
    proof (cases "mem_sealed m i")
      case None
      have "reads_back (Unm cfg) (mem_records (snd (mem_append H m ev)) i)"
        using assms(4) by (simp add: all_read_back_def)
      with True None have "reads_back (Unm cfg) [EventRec (stamp H (fst (log_content (mem_records m i))) ev)]"
        by (simp add: records_append [OF assms(2)] reads_back_append log_content_mem)
      with file_append_sync(2) [OF sync assms(3) True [symmetric]] True None show ?thesis
        by (simp add: records_append [OF assms(2)] log_content_mem)
    next
      case (Some g)
      then have "snd (log_content (mem_records m i)) \<noteq> None" by (simp add: log_content_mem)
      with file_append_sealed [OF sync assms(3) True [symmetric]] sessionFor_ok(2) [OF sync assms(3)] Some
      show ?thesis by (simp add: records_append [OF assms(2)])
    qed
  qed
qed

lemma simulates_seal:
  assumes "simulates H cfg s m" "mem_inv m" "0 < RingSize cfg"
    and "all_read_back cfg (snd (mem_seal sg m j now))"
  shows "simulates H cfg (snd (file_seal sg cfg s j now IoOk)) (snd (mem_seal sg m j now))"
  unfolding simulates_def
proof
  fix i
  have sync: "in_sync H cfg s i (mem_records m i)" using assms(1) by (simp add: simulates_def)
  show "in_sync H cfg (snd (file_seal sg cfg s j now IoOk)) i (mem_records (snd (mem_seal sg m j now)) i)"
  proof (cases "i = j")
    case False
    with file_seal_other [OF False sync] show ?thesis by (simp add: records_seal [OF assms(2)])
  next
    case True
    show ?thesis
    proof (cases "mem_sealed m i = None \<and> mem_log m i \<noteq> [] \<and> sg \<noteq> None")
      case yes: True
      then obtain k where k: "sg = Some k" by auto
      have "reads_back (Unm cfg) (mem_records (snd (mem_seal sg m j now)) i)"
        using assms(4) by (simp add: all_read_back_def)
      with yes True k have "reads_back (Unm cfg)
          [SealRec (seal_of k now (EHash (last (fst (log_content (mem_records m i))))))]"
        by (simp add: records_seal [OF assms(2)] reads_back_append log_content_mem)
      with file_seal_sync [OF sync assms(3)] yes True k show ?thesis
        by (simp add: records_seal [OF assms(2)] log_content_mem)
    next
      case no: False
      then have "snd (log_content (mem_records m i)) \<noteq> None \<or> fst (log_content (mem_records m i)) = [] \<or> sg = None"
        by (simp add: log_content_mem)
      from file_seal_skip [OF sync assms(3) this] sessionFor_ok(2) [OF sync assms(3)] True
      have "in_sync H cfg (snd (file_seal sg cfg s j now IoOk)) i (mem_records m i)" by simp
      moreover have "mem_records (snd (mem_seal sg m j now)) i = mem_records m i"
        unfolding records_seal [OF assms(2)] using no by (simp only: simp_thms if_False)
      ultimately show ?thesis by simp
    qed
  qed
qed

lemma simulates_run:
  "0 < RingSize cfg \<Longrightarrow> all_read_back cfg (mem_run H sg (sink_ops ops)) \<Longrightarrow>
   simulates H cfg (file_run H sg cfg ops) (mem_run H sg (sink_ops ops))"
proof (induction ops rule: rev_induct)
  case Nil
  show ?case
    by (simp add: simulates_def file_run_def mem_run_def NewFileSink_def NewMemSink_def in_sync_def log_ok_def
        mem_records_def mem_log_def mem_sealed_def mem_chain_of_def empty_chain_def reads_back_def
        log_content_def chain_ok_def disk_bytes_def log_bytes_def)
next
  case (snoc p ops)
  let ?m = "mem_run H sg (sink_ops ops)"
  have inv: "mem_inv ?m" unfolding mem_run_eq by (rule mem.inv_run) (rule mem.inv_init)
  show ?case
  proof (cases p)
    case (FSink q)
    have m: "mem_run H sg (sink_ops (ops @ [p])) = mem_step H sg ?m q"
      by (simp add: FSink sink_ops_append mem_run_def)
    from snoc.prems(2) have rb: "all_read_back cfg (mem_step H sg ?m q)" by (simp only: m)
    have "simulates H cfg (file_run H sg cfg ops) ?m"
      using snoc.IH [OF snoc.prems(1)] all_read_back_step [OF inv rb] .
    then show ?thesis
      unfolding m
      using simulates_append [OF _ inv snoc.prems(1)] simulates_seal [OF _ inv snoc.prems(1)] rb
      by (cases q) (simp_all add: FSink file_run_def)
  next
    case FRestart
    then have m: "mem_run H sg (sink_ops (ops @ [p])) = ?m" by (simp add: sink_ops_append)
    with snoc have "simulates H cfg (file_run H sg cfg ops) ?m" by simp
    then show ?thesis unfolding m using restart_sync by (simp add: FRestart file_run_def simulates_def)
  qed
qed

lemma load_simulated:
  "simulates H cfg s m \<Longrightarrow> loadSessionLog (Unm cfg) s i = (mem_log m i, mem_sealed m i)"
  using load_in_sync [of H cfg s i "mem_records m i"] by (simp add: simulates_def log_content_mem)

subsection \<open>Torn tails\<close>

lemma log_content_snoc_event: "log_content (rs @ [EventRec e]) = (fst (log_content rs) @ [e], snd (log_content rs))"
  by (cases "log_content rs") (simp add: log_content_append)

lemma torn_apply: "unm t = None \<Longrightarrow> apply_line unm st t = st"
  by (cases st) simp

lemma load_torn:
  assumes "reads_back unm rs" "no_nl t" "unm t = None"
  shows "load_bytes unm (log_bytes rs @ t) = log_content rs"
  using assms(2,3)
  by (simp add: load_log_tail [OF assms(1)] no_nl_def split_on_absent torn_apply)

lemma no_nl_take: "no_nl s \<Longrightarrow> no_nl (take k s)"
  by (auto simp: no_nl_def dest: in_set_takeD)

subsection \<open>Backfill\<close>

lemma filter_Seq_drop: "chain_ok H es \<Longrightarrow> filter (\<lambda>ev. n \<le> Seq ev) es = drop n es"
proof (induction es rule: rev_induct)
  case (snoc e es)
  then have "chain_ok H es" "Seq e = length es"
    by (simp_all add: chain_ok_from chain_from_append)
  with snoc.IH show ?case by auto
qed simp

lemma backfill_drop:
  assumes "in_sync H cfg s i rs" "session_ok (RingSize cfg) rs fs"
  shows "subscribe_backfill cfg s fs i n = drop n (fst (log_content rs))"
proof -
  let ?es = "fst (log_content rs)"
  have ch: "chain_ok H ?es" using assms(1) by (simp add: in_sync_def log_ok_def)
  have sq: "seq (FState fs) = length ?es" and ring: "ring_ok (RingSize cfg) ?es fs"
    using assms(2) by (simp_all add: session_ok_def position_seq)
  have r: "drop (n - RingBase fs) (Ring fs) = drop n ?es" if "Ring fs \<noteq> []" "RingBase fs \<le> n"
  proof -
    from that(1) ring have "Ring fs = drop (RingBase fs) ?es" by (simp add: ring_ok_def)
    then have "drop (n - RingBase fs) (Ring fs) = drop (n - RingBase fs) (drop (RingBase fs) ?es)" by simp
    with that(2) show ?thesis by simp
  qed
  show ?thesis
    using r filter_Seq_drop [OF ch, of n]
    by (simp add: subscribe_backfill_def sq load_in_sync [OF assms(1)])
qed

subsection \<open>Properties\<close>

text \<open>
  C11: The durable sink refines the in-memory sink: after any sequence of appends, seals and
  daemon restarts, over any number of interleaved sessions, what it exports for a session from
  the bytes on disk is exactly what the in-memory sink holds after the same appends and seals. It
  is assumed that the writes succeed and that the JSON decoder reads back the records written.
\<close>

theorem file_sink_refines_mem_sink:
  assumes "0 < RingSize cfg" and "all_read_back cfg (mem_run H sg (sink_ops ops))"
  shows "file_export cfg (file_run H sg cfg ops) i = fst (mem_export (mem_run H sg (sink_ops ops)) i)"
  using load_simulated [OF simulates_run [OF assms]]
  by (simp add: file_export_def mem_export_eq)

definition line_decoder :: "log_record \<Rightarrow> unmarshal" where
  "line_decoder r = (\<lambda>s. if s = marshal r then Some r else None)"

text \<open>A stand-in for the hash function in the examples.\<close>

definition const_hash :: "string \<Rightarrow> string" where
  "const_hash s = ''00''"

definition test_config :: sink_config where
  "test_config = \<lparr>FsyncAlways = False, RingSize = 2, Unm = line_decoder (EventRec (stamp const_hash [] test_event))\<rparr>"

lemma mem_run_one:
  "mem_log (mem_run const_hash sg [Append test_event]) i = (if i = ''s'' then [stamp const_hash [] test_event] else [])"
  "mem_sealed (mem_run const_hash sg [Append test_event]) i = None"
  by (simp_all add: mem_run_def mem_append_def chainFor_eq mem_log_def mem_sealed_def mem_chain_of_def NewMemSink_def
      empty_chain_def assign_position [of const_hash "[]", unfolded position_Nil] test_event_def)

lemma jok_test_stamp: "jok (j_record (EventRec (stamp const_hash [] test_event)))"
  by (simp add: stamp_def assign_def position_Nil Let_def j_event_def payload_jv_def test_event_def Root_def
      computeHash_def const_hash_def)

theorem file_sink_refines_mem_sink_witness:
  "file_export test_config (file_run const_hash None test_config [FSink (Append test_event), FRestart]) ''s'' =
     Some ([stamp const_hash [] test_event], None)"
proof -
  have rb: "all_read_back test_config (mem_run const_hash None (sink_ops [FSink (Append test_event), FRestart]))"
    using jok_test_stamp
    by (simp add: all_read_back_def mem_records_def mem_run_one reads_back_def test_config_def line_decoder_def
        utf8_record_def)
  have "0 < RingSize test_config" by (simp add: test_config_def)
  from file_sink_refines_mem_sink [OF this rb, of "''s''"] show ?thesis
    by (simp add: mem_export_eq mem_run_one)
qed

text \<open>
  Crash safety of one append. If the crash leaves any prefix of the last record's line on
  disk, the loader returns the log without that record, or with it when only the newline (or
  nothing) is missing; the records before it are untouched. A torn line is one the decoder
  rejects.
\<close>

theorem torn_append_loses_only_itself:
  assumes "reads_back unm (rs @ [EventRec e])"
    and "\<forall>k < length (marshal (EventRec e)). unm (take k (marshal (EventRec e))) = None"
  shows "load_bytes unm (log_bytes rs @ take k (record_line (EventRec e))) =
     (if k < length (marshal (EventRec e)) then log_content rs else log_content (rs @ [EventRec e]))"
proof -
  let ?m = "marshal (EventRec e)"
  have rb: "reads_back unm rs" and u: "utf8_record (EventRec e)" "unm ?m = Some (EventRec e)"
    using assms(1) by (simp_all add: reads_back_def)
  have nl: "no_nl ?m" by (rule no_nl_marshal [OF u(1)])
  consider "k < length ?m" | "k = length ?m" | "k > length ?m" by linarith
  then show ?thesis
  proof cases
    case 1
    then have "take k (record_line (EventRec e)) = take k ?m" by (simp add: record_line_def)
    with load_torn [OF rb no_nl_take [OF nl]] assms(2) 1 show ?thesis by simp
  next
    case 2
    then have "take k (record_line (EventRec e)) = ?m" by (simp add: record_line_def)
    moreover have "load_bytes unm (log_bytes rs @ ?m) = apply_line unm (log_content rs) ?m"
      using nl by (simp add: load_log_tail [OF rb] no_nl_def split_on_absent)
    ultimately show ?thesis using 2 u(2)
      by (simp add: apply_line_marshal log_content_append)
  next
    case 3
    then have "log_bytes rs @ take k (record_line (EventRec e)) = log_bytes (rs @ [EventRec e])"
      by (simp add: record_line_def log_bytes_append) (simp add: log_bytes_def record_line_def)
    with load_log_bytes [OF assms(1)] 3 show ?thesis by simp
  qed
qed

theorem torn_append_loses_only_itself_witness:
  "load_bytes (line_decoder (EventRec (stamp const_hash [] test_event)))
     (log_bytes [] @ take 5 (record_line (EventRec (stamp const_hash [] test_event)))) = ([], None)"
proof -
  let ?r = "EventRec (stamp const_hash [] test_event)"
  have rb: "reads_back (line_decoder ?r) ([] @ [?r])"
    using jok_test_stamp by (simp add: reads_back_def line_decoder_def utf8_record_def)
  have torn: "\<forall>k < length (marshal ?r). line_decoder ?r (take k (marshal ?r)) = None"
    by (auto simp: line_decoder_def dest: arg_cong [of _ _ length])
  have "5 < length (marshal ?r)" by (simp add: marshal_def j_event_def jstr_def)
  with torn_append_loses_only_itself [OF rb torn, of 5] show ?thesis by (simp add: log_content_def)
qed

text \<open>
  A subscriber that asks for the log from position \<open>n\<close> is handed every recorded event from
  \<open>n\<close> on, once and in order, whether the ring buffer still holds them or they are read back
  from disk, also right after a restart.
\<close>

theorem subscribe_backfills_log:
  assumes "0 < RingSize cfg" and "all_read_back cfg (mem_run H sg (sink_ops ops))"
  shows "fst (fst (file_subscribe cfg (file_run H sg cfg ops) i n)) =
     drop n (mem_log (mem_run H sg (sink_ops ops)) i)"
proof -
  let ?s = "file_run H sg cfg ops" and ?m = "mem_run H sg (sink_ops ops)"
  have sync: "in_sync H cfg ?s i (mem_records ?m i)"
    using simulates_run [OF assms] by (simp add: simulates_def)
  note so = sessionFor_ok [OF sync assms(1)]
  show ?thesis
    using backfill_drop [OF so(2) so(1), of n]
    by (cases "sessionFor cfg ?s i") (simp add: file_subscribe_def Let_def log_content_mem)
qed

theorem subscribe_backfills_log_witness:
  "fst (fst (file_subscribe test_config (file_run const_hash None test_config [FSink (Append test_event), FRestart]) ''s'' 0)) =
     [stamp const_hash [] test_event]"
proof -
  have rb: "all_read_back test_config (mem_run const_hash None (sink_ops [FSink (Append test_event), FRestart]))"
    using jok_test_stamp
    by (simp add: all_read_back_def mem_records_def mem_run_one reads_back_def test_config_def line_decoder_def
        utf8_record_def)
  have "0 < RingSize test_config" by (simp add: test_config_def)
  from subscribe_backfills_log [OF this rb, of "''s''" 0] show ?thesis by (simp add: mem_run_one)
qed

subsection \<open>After a torn tail\<close>

text \<open>
  The disk of a session whose last append was torn by a crash, after the restart: an intact,
  unsealed log \<open>rs\<close> and a fragment \<open>t\<close> that the decoder rejects, alone and with the next
  record written behind it.
\<close>

definition torn_disk ::
  "(string \<Rightarrow> string) \<Rightarrow> sink_config \<Rightarrow> file_sink \<Rightarrow> string \<Rightarrow> log_record list \<Rightarrow> string \<Rightarrow> event \<Rightarrow> bool" where
  "torn_disk H cfg s i rs t e \<longleftrightarrow>
     reads_back (Unm cfg) rs \<and> snd (log_content rs) = None \<and> chain_ok H (fst (log_content rs)) \<and>
     Disk s i = Some (log_bytes rs @ t) \<and> Sessions s i = None \<and> no_nl t \<and> Unm cfg t = None \<and>
     Unm cfg (t @ marshal (EventRec e)) = None"

lemma apply_blank [simp]: "apply_line unm st [] = st"
  by (cases st) simp

lemma apply_record_event: "apply_record st (EventRec e) = (fst st @ [e], snd st)"
  by (cases st) simp

lemma load_merged_line:
  assumes "reads_back unm rs" "no_nl t" "utf8_record r" "unm (t @ marshal r) = None"
  shows "load_bytes unm (log_bytes rs @ (t @ record_line r) @ d) =
     foldl (apply_line unm) (log_content rs) (split_on (byte 10) d)"
proof -
  have "byte 10 \<notin> set (t @ marshal r)" using assms(2) no_nl_marshal [OF assms(3)] by (simp add: no_nl_def)
  from split_on_append [OF this, of d]
  have "split_on (byte 10) ((t @ record_line r) @ d) = (t @ marshal r) # split_on (byte 10) d"
    by (simp add: record_line_def)
  with assms(4) show ?thesis by (simp add: load_log_tail [OF assms(1)] torn_apply)
qed

lemma append_open_session:
  assumes "sessionFor cfg s i = (fs, s1)" "FSeal fs = None" "FState fs = position es" "SessionID ev = i"
  shows "fst (file_append H cfg s ev IoOk) = Inr ()"
    and "disk_bytes (snd (file_append H cfg s ev IoOk)) i =
           disk_bytes s1 i @ record_line (EventRec (stamp H es ev))"
    and "\<exists>fs'. Sessions (snd (file_append H cfg s ev IoOk)) i = Some fs' \<and> FSeal fs' = None \<and>
           FState fs' = position (es @ [stamp H es ev])"
  using assms
  by (simp_all add: file_append_def Let_def assign_position disk_bytes_append fanout_def pushRing_def)

lemma loadSessionLog_bytes: "loadSessionLog unm s i = load_bytes unm (disk_bytes s i)"
  by (simp add: loadSessionLog_def disk_bytes_def load_bytes_foldl split: option.splits)

lemma rehydrate_position:
  assumes "chain_ok H es"
  shows "FState (rehydrate cap (es, g)) = position es" and "FSeal (rehydrate cap (es, g)) = g"
proof -
  have "es \<noteq> [] \<Longrightarrow> Seq (es ! (length es - 1)) = length es - 1"
    using chain_Seq [OF assms] by simp
  then show "FState (rehydrate cap (es, g)) = position es"
    by (auto simp: rehydrate_def Let_def position_def head_hash_def last_conv_nth)
  show "FSeal (rehydrate cap (es, g)) = g" by (simp add: rehydrate_def Let_def)
qed

text \<open>
  A torn tail poisons the log. After the restart the sink appends behind the torn fragment:
  the next event is acknowledged but is not in the log, and with the one after it the log
  no longer verifies, although nobody tampered with it.
\<close>

theorem torn_tail_poisons_log:
  assumes "torn_disk H cfg s i rs t (stamp H (fst (log_content rs)) ev)"
    and "SessionID ev = i" and "SessionID ev' = i"
    and "reads_back (Unm cfg) [EventRec (stamp H (fst (log_content rs)) ev),
           EventRec (stamp H (fst (log_content rs) @ [stamp H (fst (log_content rs)) ev]) ev')]"
  shows "fst (file_append H cfg s ev IoOk) = Inr () \<and>
     fst (loadSessionLog (Unm cfg) (snd (file_append H cfg s ev IoOk)) i) = fst (log_content rs) \<and>
     fst (file_append H cfg (snd (file_append H cfg s ev IoOk)) ev' IoOk) = Inr () \<and>
     \<not> OK (Verify H edv (fst (loadSessionLog (Unm cfg)
              (snd (file_append H cfg (snd (file_append H cfg s ev IoOk)) ev' IoOk)) i)) None tp)"
proof -
  let ?es = "fst (log_content rs)"
  let ?e = "stamp H ?es ev" and ?e' = "stamp H (?es @ [stamp H ?es ev]) ev'"
  let ?s1 = "snd (file_append H cfg s ev IoOk)"
  let ?s2 = "snd (file_append H cfg ?s1 ev' IoOk)"
  from assms(1) have t: "reads_back (Unm cfg) rs" "snd (log_content rs) = None" "chain_ok H ?es"
    "Disk s i = Some (log_bytes rs @ t)" "Sessions s i = None" "no_nl t" "Unm cfg t = None"
    "Unm cfg (t @ marshal (EventRec ?e)) = None"
    by (simp_all add: torn_disk_def)
  have u: "utf8_record (EventRec ?e)" "reads_back (Unm cfg) [EventRec ?e']"
    using assms(4) by (simp_all add: reads_back_def)
  have content: "log_content rs = (?es, None)" using t(2) by (simp add: prod_eq_iff)
  have load: "loadSessionLog (Unm cfg) s i = (?es, None)"
    using load_torn [OF t(1,6,7)] content by (simp add: loadSessionLog_def t(4))
  define fs where "fs = rehydrate (RingSize cfg) (?es, None)"
  obtain s1 where sf: "sessionFor cfg s i = (fs, s1)" and d1: "disk_bytes s1 i = log_bytes rs @ t"
    by (simp add: sessionFor_def t(5) load fs_def Let_def disk_bytes_def t(4))
  have fs: "FSeal fs = None" "FState fs = position ?es"
    by (simp_all add: fs_def rehydrate_position [OF t(3)])
  note a = append_open_session [OF sf fs assms(2), of H]
  from a(3) obtain fs' where fs': "Sessions ?s1 i = Some fs'" "FSeal fs' = None"
    "FState fs' = position (?es @ [?e])" by blast
  have sf': "sessionFor cfg ?s1 i = (fs', ?s1)" using fs'(1) by (simp add: sessionFor_def)
  note b = append_open_session [OF sf' fs'(2,3) assms(3), of H]
  have b1: "disk_bytes ?s1 i = log_bytes rs @ (t @ record_line (EventRec ?e)) @ []"
    using a(2) by (simp add: d1)
  have l1: "loadSessionLog (Unm cfg) ?s1 i = (?es, None)"
    unfolding loadSessionLog_bytes b1
    using load_merged_line [OF t(1,6) u(1) t(8), of "[]"] content by simp
  have b2: "disk_bytes ?s2 i = log_bytes rs @ (t @ record_line (EventRec ?e)) @ record_line (EventRec ?e') @ []"
    using b(2) a(2) by (simp add: d1)
  have ue': "utf8_record (EventRec ?e')" "Unm cfg (marshal (EventRec ?e')) = Some (EventRec ?e')"
    using u(2) by (simp_all add: reads_back_def)
  have l2: "loadSessionLog (Unm cfg) ?s2 i = (?es @ [?e'], None)"
    unfolding loadSessionLog_bytes b2 load_merged_line [OF t(1,6) u(1) t(8)] split_record_line [OF ue'(1)]
    using apply_line_marshal [of "Unm cfg" "EventRec ?e'" "log_content rs"] ue'(2)
    by (simp add: apply_record_event t(2))
  have "Seq ?e' = length ?es + 1"
    by (simp add: stamp_def assign_def position_def Let_def)
  then have "\<not> chain_ok H (?es @ [?e'])" by (simp add: chain_ok_from chain_from_append)
  then have "\<not> OK (Verify H edv (?es @ [?e']) None tp)" by (simp add: Verify_OK_iff)
  with a(1) b(1) l1 l2 show ?thesis by simp
qed

definition torn_sink :: file_sink where
  "torn_sink = \<lparr>Disk = (\<lambda>_. Some ''{''), Sessions = (\<lambda>_. None)\<rparr>"

definition first_stamp :: event where "first_stamp = stamp const_hash [] test_event"
definition second_stamp :: event where "second_stamp = stamp const_hash [first_stamp] test_event"

definition two_decoder :: unmarshal where
  "two_decoder = (\<lambda>s. if s = marshal (EventRec first_stamp) then Some (EventRec first_stamp)
     else if s = marshal (EventRec second_stamp) then Some (EventRec second_stamp) else None)"

definition torn_config :: sink_config where
  "torn_config = \<lparr>FsyncAlways = False, RingSize = 2, Unm = two_decoder\<rparr>"

lemma marshal_second: "\<exists>t. marshal (EventRec e) = CHR ''{'' # dquote # t"
  by (simp add: marshal_def jstr_def)

theorem torn_tail_poisons_log_witness:
  "fst (loadSessionLog two_decoder (snd (file_append const_hash torn_config torn_sink test_event IoOk)) ''s'') = []"
proof -
  have bq: "CHR ''{'' \<noteq> dquote" by (simp add: dquote_def)
  have torn: "torn_disk const_hash torn_config torn_sink ''s'' [] ''{'' (stamp const_hash (fst (log_content [])) test_event)"
    using marshal_second [of first_stamp] marshal_second [of second_stamp] bq
    by (auto simp: torn_disk_def reads_back_def log_content_def chain_ok_def torn_sink_def log_bytes_def no_nl_def
        torn_config_def two_decoder_def nl_char simp flip: first_stamp_def)
  have sid: "SessionID test_event = ''s''" by (simp add: test_event_def)
  have ne: "marshal (EventRec second_stamp) \<noteq> marshal (EventRec first_stamp)"
    by (simp add: marshal_def j_event_def second_stamp_def first_stamp_def stamp_def assign_def position_def Let_def
        int_dec_def dec.simps digit_char_def payload_jv_def test_event_def Root_def computeHash_def const_hash_def
        head_hash_def)
  have u: "jok (j_record (EventRec first_stamp))" "jok (j_record (EventRec second_stamp))"
    by (simp_all add: first_stamp_def second_stamp_def stamp_def assign_def position_def Let_def j_event_def
        payload_jv_def test_event_def Root_def computeHash_def const_hash_def head_hash_def)
  have "reads_back (Unm torn_config) [EventRec (stamp const_hash (fst (log_content [])) test_event),
      EventRec (stamp const_hash (fst (log_content []) @ [stamp const_hash (fst (log_content [])) test_event]) test_event)]"
    using u ne by (simp add: reads_back_def utf8_record_def torn_config_def two_decoder_def log_content_def
        flip: first_stamp_def second_stamp_def)
  from torn_tail_poisons_log [OF torn sid sid this] show ?thesis
    by (simp add: log_content_def torn_config_def)
qed

end
