(* ===== verification/Change_Model.thy ===== *)
theory Change_Model
  imports Go_Path
begin

text \<open>
  \<^verbatim>\<open>internal/change/change.go\<close> and \<^verbatim>\<open>pin.go\<close>: the reviewable change, its status graph,
  validation and the plan pin. SHA-256 with its hex rendering is the parameter \<open>H\<close>.
\<close>

datatype status =
    StatusProposed
  | StatusPreviewed
  | StatusAwaitingApproval
  | StatusApplying
  | StatusApplied
  | StatusDenied
  | StatusFailed
  | StatusReverted
  | StatusExpired
  | StatusOther string

text \<open>The only legal status graph; \<open>None\<close> for a status that is not a key of the map.\<close>

fun transitions :: "status \<Rightarrow> status list option" where
  "transitions StatusProposed = Some [StatusPreviewed, StatusDenied, StatusExpired, StatusFailed]"
| "transitions StatusPreviewed =
     Some [StatusAwaitingApproval, StatusApplying, StatusDenied, StatusExpired, StatusFailed]"
| "transitions StatusAwaitingApproval = Some [StatusApplying, StatusDenied, StatusExpired]"
| "transitions StatusApplying = Some [StatusApplied, StatusFailed]"
| "transitions StatusApplied = Some [StatusReverted]"
| "transitions StatusFailed = Some [StatusReverted]"
| "transitions StatusDenied = Some []"
| "transitions StatusExpired = Some []"
| "transitions StatusReverted = Some []"
| "transitions (StatusOther s) = None"

definition Terminal :: "status \<Rightarrow> bool" where
  "Terminal s = (transitions s = Some [])"

definition Valid :: "status \<Rightarrow> bool" where
  "Valid s = (transitions s \<noteq> None)"

definition CanMoveTo :: "status \<Rightarrow> status \<Rightarrow> bool" where
  "CanMoveTo s next = (case transitions s of None \<Rightarrow> False | Some ts \<Rightarrow> next \<in> set ts)"

record proposer =
  PKind :: string
  PName :: string
  PModel :: string

record resource_count =
  RKind :: string
  RCount :: int

record plan_step =
  StepIndex :: int
  Argv :: "string list"
  Gated :: bool
  Description :: string

record inverse =
  IKind :: string
  ISteps :: "plan_step list"
  IReason :: string

definition InverseNone :: string where "InverseNone = ''none''"

definition Available :: "inverse \<Rightarrow> bool" where
  "Available i = (IKind i \<noteq> InverseNone \<and> IKind i \<noteq> [])"

datatype change_error =
    InverseNoKind
  | InverseNoReason
  | InverseNoneWithSteps
  | InverseNoSteps string
  | BadId string
  | NoIntent string
  | IntentTooLong string
  | UnknownStatus string status
  | BadProposerKind string string
  | NoProposer string
  | BlastNoKind string
  | BlastNegative string string
  | InverseInvalid string change_error
  | StepNoCommand string nat
  | AlreadyExists string
  | NotFound string
  | PreviewNoSteps
  | NoPinnedPlan string
  | Unattributed
  | NotPinned
  | PinMismatch string string
  | AlreadyFinal string status
  | IllegalMove string status status
  | NotRevertible string
  | UnsafeId string
  | EmptyId
  | Unparseable string

definition validate_inverse :: "inverse \<Rightarrow> change_error option" where
  "validate_inverse i =
     (if IKind i = [] then Some InverseNoKind
      else if IKind i = InverseNone then
        (if trim_space (IReason i) = [] then Some InverseNoReason
         else if ISteps i \<noteq> [] then Some InverseNoneWithSteps else None)
      else if ISteps i = [] then Some (InverseNoSteps (IKind i)) else None)"

record change =
  ID :: string
  Intent :: string
  Proposer :: proposer
  ProjectID :: string
  EnvironmentID :: string
  PolicyRule :: string
  PolicyEffect :: string
  Steps :: "plan_step list"
  PlanHash :: string
  PreviewText :: string
  BlastRadius :: "resource_count list"
  Inverse :: inverse
  PolicyHash :: string
  ContextHash :: string
  AgentName :: string
  AgentModel :: string
  ConnectionRefs :: "string list"
  SessionID :: string
  Status :: status
  CreatedAt :: string
  UpdatedAt :: string
  DecidedBy :: string
  DecisionNote :: string
  FailureReason :: string

text \<open>The zero value of the struct, which callers fill in.\<close>

definition new_change :: change where
  "new_change = \<lparr>ID = [], Intent = [], Proposer = \<lparr>PKind = [], PName = [], PModel = []\<rparr>,
     ProjectID = [], EnvironmentID = [], PolicyRule = [], PolicyEffect = [], Steps = [],
     PlanHash = [], PreviewText = [], BlastRadius = [],
     Inverse = \<lparr>IKind = [], ISteps = [], IReason = []\<rparr>,
     PolicyHash = [], ContextHash = [], AgentName = [], AgentModel = [], ConnectionRefs = [],
     SessionID = [], Status = StatusOther [], CreatedAt = [], UpdatedAt = [], DecidedBy = [],
     DecisionNote = [], FailureReason = []\<rparr>"

text \<open>\<open>^[a-z0-9]([a-z0-9-]{0,62}[a-z0-9])?$\<close>\<close>

definition id_char :: "char \<Rightarrow> bool" where
  "id_char c = ((97 \<le> (of_char c :: nat) \<and> (of_char c :: nat) \<le> 122) \<or> is_digit c)"

definition valid_id :: "string \<Rightarrow> bool" where
  "valid_id s = (s \<noteq> [] \<and> length s \<le> 64 \<and> id_char (hd s) \<and> id_char (last s) \<and>
     list_all (\<lambda>c. id_char c \<or> c = CHR ''-'') s)"

fun validate_blast :: "string \<Rightarrow> resource_count list \<Rightarrow> change_error option" where
  "validate_blast i [] = None"
| "validate_blast i (b # bs) =
     (if RKind b = [] then Some (BlastNoKind i)
      else if RCount b < 0 then Some (BlastNegative i (RKind b))
      else validate_blast i bs)"

fun validate_steps :: "string \<Rightarrow> nat \<Rightarrow> plan_step list \<Rightarrow> change_error option" where
  "validate_steps i n [] = None"
| "validate_steps i n (s # ss) =
     (if Argv s = [] then Some (StepNoCommand i n) else validate_steps i (Suc n) ss)"

definition Validate :: "change \<Rightarrow> change_error option" where
  "Validate c =
     (if \<not> valid_id (ID c) then Some (BadId (ID c))
      else if trim_space (Intent c) = [] then Some (NoIntent (ID c))
      else if length (Intent c) > 4096 then Some (IntentTooLong (ID c))
      else if \<not> Valid (Status c) then Some (UnknownStatus (ID c) (Status c))
      else if PKind (Proposer c) \<noteq> ''agent'' \<and> PKind (Proposer c) \<noteq> ''human''
      then Some (BadProposerKind (ID c) (PKind (Proposer c)))
      else if PName (Proposer c) = [] then Some (NoProposer (ID c))
      else case validate_blast (ID c) (BlastRadius c) of
        Some e \<Rightarrow> Some e
      | None \<Rightarrow>
          (case (if Status c \<noteq> StatusProposed then validate_inverse (Inverse c) else None) of
             Some e \<Rightarrow> Some (InverseInvalid (ID c) e)
           | None \<Rightarrow> validate_steps (ID c) 0 (Steps c)))"

definition Revertible :: "change \<Rightarrow> bool" where
  "Revertible c = (Available (Inverse c) \<and> (Status c = StatusApplied \<or> Status c = StatusFailed))"

fun TotalBlast :: "resource_count list \<Rightarrow> int" where
  "TotalBlast [] = 0"
| "TotalBlast (b # bs) = RCount b + TotalBlast bs"

subsection \<open>The pin (pin.go)\<close>

definition pinVersion :: string where
  "pinVersion = ''opslify.change.plan.v1''"

definition nl :: char where "nl = byte 10"

fun pin_argv :: "string list \<Rightarrow> string" where
  "pin_argv [] = []"
| "pin_argv (a # as) = dec (length a) @ '':'' @ a @ ''|'' @ pin_argv as"

definition pin_step :: "nat \<Rightarrow> plan_step \<Rightarrow> string" where
  "pin_step i s = dec i @ ''|'' @ dec (length (Argv s)) @ ''|'' @ pin_argv (Argv s) @
     (if Gated s then ''gated'' else []) @ [nl]"

fun pin_steps :: "nat \<Rightarrow> plan_step list \<Rightarrow> string" where
  "pin_steps i [] = []"
| "pin_steps i (s # ss) = pin_step i s @ pin_steps (Suc i) ss"

definition pin_preimage :: "plan_step list \<Rightarrow> string" where
  "pin_preimage ss = pinVersion @ nl # pin_steps 0 ss"

definition Pin :: "(string \<Rightarrow> string) \<Rightarrow> plan_step list \<Rightarrow> string" where
  "Pin H ss = H (pin_preimage ss)"

definition short :: "string \<Rightarrow> string" where
  "short h = (if length h > 12 then take 12 h else h)"

definition VerifyPin :: "(string \<Rightarrow> string) \<Rightarrow> string \<Rightarrow> plan_step list \<Rightarrow> change_error option" where
  "VerifyPin H approved steps =
     (if approved = [] then Some NotPinned
      else if Pin H steps \<noteq> approved then Some (PinMismatch (short approved) (short (Pin H steps)))
      else None)"

subsection \<open>The pin is injective on what runs\<close>

definition runs_as :: "plan_step \<Rightarrow> string list \<times> bool" where
  "runs_as s = (Argv s, Gated s)"

lemma not_digit_seps [simp]: "\<not> is_digit (CHR '':'')" "\<not> is_digit (CHR ''|'')"
  by (simp_all add: is_digit_def)

lemma pin_argv_inj:
  "length as = length bs \<Longrightarrow> pin_argv as @ x = pin_argv bs @ y \<Longrightarrow> as = bs \<and> x = y"
proof (induction as arbitrary: bs)
  case (Cons a as)
  then obtain b bs' where bs: "bs = b # bs'" "length as = length bs'" by (cases bs) auto
  from Cons.prems(2) bs have "dec (length a) @ CHR '':'' # (a @ ''|'' @ pin_argv as @ x) =
      dec (length b) @ CHR '':'' # (b @ ''|'' @ pin_argv bs' @ y)" by simp
  from dec_sep_inj [OF _ this] have "length a = length b" "a @ ''|'' @ pin_argv as @ x = b @ ''|'' @ pin_argv bs' @ y"
    by simp_all
  then have "a = b" "pin_argv as @ x = pin_argv bs' @ y" by simp_all
  with Cons.IH [OF bs(2)] bs(1) show ?case by simp
qed simp

lemma gate_inj:
  "(if g then ''gated'' else []) @ nl # x = (if h then ''gated'' else []) @ nl # y \<Longrightarrow> g = h \<and> x = y"
proof -
  have "nl \<noteq> CHR ''g''" by code_simp
  then show "(if g then ''gated'' else []) @ nl # x = (if h then ''gated'' else []) @ nl # y \<Longrightarrow> g = h \<and> x = y"
    by (auto split: if_splits)
qed

lemma pin_step_inj:
  assumes "pin_step i s @ x = pin_step i t @ y"
  shows "runs_as s = runs_as t \<and> x = y"
proof -
  let ?g = "\<lambda>s x. (if Gated s then ''gated'' else []) @ nl # x"
  from assms have "dec (length (Argv s)) @ CHR ''|'' # (pin_argv (Argv s) @ ?g s x) =
      dec (length (Argv t)) @ CHR ''|'' # (pin_argv (Argv t) @ ?g t y)"
    by (simp add: pin_step_def)
  from dec_sep_inj [OF _ this] have l: "length (Argv s) = length (Argv t)"
    and r: "pin_argv (Argv s) @ ?g s x = pin_argv (Argv t) @ ?g t y" by simp_all
  from pin_argv_inj [OF l r] have "Argv s = Argv t" "?g s x = ?g t y" by blast+
  then show ?thesis using gate_inj [of "Gated s" x "Gated t" y] by (simp only: runs_as_def simp_thms)
qed

lemma pin_step_not_Nil: "pin_step i s \<noteq> []"
  by (simp add: pin_step_def)

lemma pin_steps_inj: "pin_steps i ss = pin_steps i ts \<Longrightarrow> map runs_as ss = map runs_as ts"
proof (induction ss arbitrary: i ts)
  case Nil
  then show ?case by (cases ts) (simp_all add: pin_step_not_Nil)
next
  case (Cons s ss)
  then obtain t ts' where ts: "ts = t # ts'" by (cases ts) (simp_all add: pin_step_not_Nil)
  with Cons.prems have "pin_step i s @ pin_steps (Suc i) ss = pin_step i t @ pin_steps (Suc i) ts'" by simp
  from pin_step_inj [OF this] have "runs_as s = runs_as t" "pin_steps (Suc i) ss = pin_steps (Suc i) ts'"
    by blast+
  from this(1) Cons.IH [OF this(2)] ts show ?case by simp
qed

lemma pin_argv_cong: "runs_as s = runs_as t \<Longrightarrow> pin_step i s = pin_step i t"
  by (simp add: runs_as_def pin_step_def)

lemma pin_steps_cong: "map runs_as ss = map runs_as ts \<Longrightarrow> pin_steps i ss = pin_steps i ts"
proof (induction ss arbitrary: i ts)
  case (Cons s ss)
  then obtain t ts' where ts: "ts = t # ts'" "runs_as s = runs_as t" "map runs_as ss = map runs_as ts'"
    by (cases ts) auto
  from pin_argv_cong [OF ts(2), of i] Cons.IH [OF ts(3), of "Suc i"] ts(1) show ?case by simp
qed simp

lemma pin_preimage_eq_iff: "pin_preimage ss = pin_preimage ts \<longleftrightarrow> map runs_as ss = map runs_as ts"
  using pin_steps_inj [of 0 ss ts] pin_steps_cong [of ss ts 0] by (auto simp: pin_preimage_def)

lemma VerifyPin_None: "VerifyPin H a ss = None \<longleftrightarrow> a \<noteq> [] \<and> Pin H ss = a"
  by (simp add: VerifyPin_def)

subsection \<open>Properties\<close>

text \<open>
  The pin identifies what runs and nothing else: with a hash function that does not collide
  on the two preimages, two plans have the same pin exactly when they run the same argument
  vectors in the same order with the same steps gated. Descriptions do not matter, and no
  regrouping of arguments can forge a pin.
\<close>

theorem Pin_identifies_plan:
  assumes "inj_on H {pin_preimage ss, pin_preimage ts}"
  shows "(Pin H ss = Pin H ts) = (map runs_as ss = map runs_as ts)"
proof -
  have "(Pin H ss = Pin H ts) = (pin_preimage ss = pin_preimage ts)"
    unfolding Pin_def by (rule inj_on_eq_iff [OF assms]) simp_all
  with pin_preimage_eq_iff show ?thesis by simp
qed

definition cmd :: "string list \<Rightarrow> plan_step" where
  "cmd as = \<lparr>StepIndex = 0, Argv = as, Gated = True, Description = []\<rparr>"

theorem Pin_identifies_plan_witness:
  "Pin id [cmd [''a'', ''bc'']] \<noteq> Pin id [cmd [''ab'', ''c'']]"
proof -
  have "inj_on id {pin_preimage [cmd [''a'', ''bc'']], pin_preimage [cmd [''ab'', ''c'']]}" by simp
  from Pin_identifies_plan [OF this] show ?thesis by (simp add: runs_as_def cmd_def)
qed

end
