(* ===== verification/Change_Service.thy ===== *)
theory Change_Service
  imports Change_Model
begin

text \<open>
  \<^verbatim>\<open>internal/change/service.go\<close> and \<^verbatim>\<open>store.go\<close>. The store the service works on is a
  \<open>store_ops\<close>; what it relies on is the locale \<open>change_store\<close>, interpreted on the file
  store. Every service call takes the store and the time and returns its result with the store.
  The service holds its lock for a whole call, so a history of calls is a list.
\<close>

record 'st store_ops =
  Save :: "'st \<Rightarrow> change \<Rightarrow> change_error + 'st"
  LoadC :: "'st \<Rightarrow> string \<Rightarrow> change_error + change option"

subsection \<open>The service\<close>

definition Propose :: "'st store_ops \<Rightarrow> string \<Rightarrow> 'st \<Rightarrow> change \<Rightarrow> (change_error + change) \<times> 'st" where
  "Propose S now st c0 =
     (let c = c0\<lparr>Status := StatusProposed, CreatedAt := now, UpdatedAt := now\<rparr> in
      case Validate c of Some e \<Rightarrow> (Inl e, st)
      | None \<Rightarrow>
         (case LoadC S st (ID c) of
            Inl e \<Rightarrow> (Inl e, st)
          | Inr (Some _) \<Rightarrow> (Inl (AlreadyExists (ID c)), st)
          | Inr None \<Rightarrow> (case Save S st c of Inl e \<Rightarrow> (Inl e, st) | Inr st' \<Rightarrow> (Inr c, st'))))"

definition mutate ::
  "'st store_ops \<Rightarrow> string \<Rightarrow> 'st \<Rightarrow> string \<Rightarrow> status \<Rightarrow> (change \<Rightarrow> change_error + change) \<Rightarrow>
   (change_error + change) \<times> 'st" where
  "mutate S now st i next apply_fn =
     (case LoadC S st i of
        Inl e \<Rightarrow> (Inl e, st)
      | Inr None \<Rightarrow> (Inl (NotFound i), st)
      | Inr (Some c) \<Rightarrow>
          if \<not> CanMoveTo (Status c) next then
            (Inl (if Terminal (Status c) then AlreadyFinal i (Status c) else IllegalMove i (Status c) next), st)
          else case apply_fn c of
            Inl e \<Rightarrow> (Inl e, st)
          | Inr c1 \<Rightarrow>
              let c2 = c1\<lparr>Status := next, UpdatedAt := now\<rparr> in
              (case Validate c2 of
                 Some e \<Rightarrow> (Inl e, st)
               | None \<Rightarrow> (case Save S st c2 of Inl e \<Rightarrow> (Inl e, st) | Inr st' \<Rightarrow> (Inr c2, st'))))"

definition preview_fn ::
  "(string \<Rightarrow> string) \<Rightarrow> plan_step list \<Rightarrow> string \<Rightarrow> resource_count list \<Rightarrow> inverse \<Rightarrow> change \<Rightarrow> change_error + change" where
  "preview_fn H steps descr blast undo c =
     (if steps = [] then Inl PreviewNoSteps
      else case validate_inverse undo of Some e \<Rightarrow> Inl e
      | None \<Rightarrow> Inr (c\<lparr>Steps := steps, PlanHash := Pin H steps, PreviewText := descr, BlastRadius := blast,
                     Inverse := undo\<rparr>))"

definition Preview ::
  "(string \<Rightarrow> string) \<Rightarrow> 'st store_ops \<Rightarrow> string \<Rightarrow> 'st \<Rightarrow> string \<Rightarrow> plan_step list \<Rightarrow> string \<Rightarrow> resource_count list \<Rightarrow>
   inverse \<Rightarrow> (change_error + change) \<times> 'st" where
  "Preview H S now st i steps descr blast undo =
     mutate S now st i StatusPreviewed (preview_fn H steps descr blast undo)"

definition RequestApproval :: "'st store_ops \<Rightarrow> string \<Rightarrow> 'st \<Rightarrow> string \<Rightarrow> (change_error + change) \<times> 'st" where
  "RequestApproval S now st i = mutate S now st i StatusAwaitingApproval
     (\<lambda>c. if PlanHash c = [] then Inl (NoPinnedPlan i) else Inr c)"

text \<open>\<open>None\<close> is the nil slice: the recorded steps are the ones about to run.\<close>

definition approve_fn ::
  "(string \<Rightarrow> string) \<Rightarrow> string \<Rightarrow> string \<Rightarrow> plan_step list option \<Rightarrow> change \<Rightarrow> change_error + change" where
  "approve_fn H decidedBy remark stepsAboutToRun c =
     (if decidedBy = [] then Inl Unattributed
      else let steps = (case stepsAboutToRun of None \<Rightarrow> Steps c | Some ss \<Rightarrow> ss)
           in case VerifyPin H (PlanHash c) steps of Some e \<Rightarrow> Inl e
              | None \<Rightarrow> Inr (c\<lparr>DecidedBy := decidedBy, DecisionNote := remark\<rparr>))"

definition Approve ::
  "(string \<Rightarrow> string) \<Rightarrow> 'st store_ops \<Rightarrow> string \<Rightarrow> 'st \<Rightarrow> string \<Rightarrow> string \<Rightarrow> string \<Rightarrow> plan_step list option \<Rightarrow>
   (change_error + change) \<times> 'st" where
  "Approve H S now st i decidedBy remark stepsAboutToRun =
     mutate S now st i StatusApplying (approve_fn H decidedBy remark stepsAboutToRun)"

definition Deny :: "'st store_ops \<Rightarrow> string \<Rightarrow> 'st \<Rightarrow> string \<Rightarrow> string \<Rightarrow> string \<Rightarrow> (change_error + change) \<times> 'st" where
  "Deny S now st i decidedBy remark = mutate S now st i StatusDenied
     (\<lambda>c. if decidedBy = [] then Inl Unattributed
          else Inr (c\<lparr>DecidedBy := decidedBy, DecisionNote := remark\<rparr>))"

definition Expire :: "'st store_ops \<Rightarrow> string \<Rightarrow> 'st \<Rightarrow> string \<Rightarrow> string \<Rightarrow> (change_error + change) \<times> 'st" where
  "Expire S now st i reason = mutate S now st i StatusExpired (\<lambda>c. Inr (c\<lparr>FailureReason := reason\<rparr>))"

definition MarkApplied :: "'st store_ops \<Rightarrow> string \<Rightarrow> 'st \<Rightarrow> string \<Rightarrow> (change_error + change) \<times> 'st" where
  "MarkApplied S now st i = mutate S now st i StatusApplied Inr"

definition MarkFailed :: "'st store_ops \<Rightarrow> string \<Rightarrow> 'st \<Rightarrow> string \<Rightarrow> string \<Rightarrow> (change_error + change) \<times> 'st" where
  "MarkFailed S now st i reason = mutate S now st i StatusFailed (\<lambda>c. Inr (c\<lparr>FailureReason := reason\<rparr>))"

definition Revert :: "'st store_ops \<Rightarrow> string \<Rightarrow> 'st \<Rightarrow> string \<Rightarrow> string \<Rightarrow> (change_error + change) \<times> 'st" where
  "Revert S now st i decidedBy = mutate S now st i StatusReverted
     (\<lambda>c. if decidedBy = [] then Inl Unattributed
          else if \<not> Revertible c then Inl (NotRevertible i) else Inr c)"

definition Get :: "'st store_ops \<Rightarrow> 'st \<Rightarrow> string \<Rightarrow> change_error + change" where
  "Get S st i = (case LoadC S st i of Inl e \<Rightarrow> Inl e | Inr None \<Rightarrow> Inl (NotFound i) | Inr (Some c) \<Rightarrow> Inr c)"

text \<open>A call of the service, with its time.\<close>

datatype service_call =
    DoPropose change
  | DoPreview string "plan_step list" string "resource_count list" inverse
  | DoRequestApproval string
  | DoApprove string string string "plan_step list option"
  | DoDeny string string string
  | DoExpire string string
  | DoMarkApplied string
  | DoMarkFailed string string
  | DoRevert string string

fun service_step ::
  "(string \<Rightarrow> string) \<Rightarrow> 'st store_ops \<Rightarrow> 'st \<Rightarrow> string \<times> service_call \<Rightarrow> (change_error + change) \<times> 'st" where
  "service_step H S st (now, DoPropose c) = Propose S now st c"
| "service_step H S st (now, DoPreview i steps descr blast undo) = Preview H S now st i steps descr blast undo"
| "service_step H S st (now, DoRequestApproval i) = RequestApproval S now st i"
| "service_step H S st (now, DoApprove i who remark steps) = Approve H S now st i who remark steps"
| "service_step H S st (now, DoDeny i who remark) = Deny S now st i who remark"
| "service_step H S st (now, DoExpire i reason) = Expire S now st i reason"
| "service_step H S st (now, DoMarkApplied i) = MarkApplied S now st i"
| "service_step H S st (now, DoMarkFailed i reason) = MarkFailed S now st i reason"
| "service_step H S st (now, DoRevert i who) = Revert S now st i who"

definition service_run :: "(string \<Rightarrow> string) \<Rightarrow> 'st store_ops \<Rightarrow> 'st \<Rightarrow> (string \<times> service_call) list \<Rightarrow> 'st" where
  "service_run H S st calls = foldl (\<lambda>s c. snd (service_step H S s c)) st calls"

subsection \<open>How a stored change may move\<close>

text \<open>One step of the life of a change, as every service call takes it.\<close>

inductive change_step :: "(string \<Rightarrow> string) \<Rightarrow> change \<Rightarrow> change \<Rightarrow> bool" for H where
  Previewed: "Status c = StatusProposed \<Longrightarrow> preview_fn H steps descr blast undo c = Inr c' \<Longrightarrow>
     change_step H c (c'\<lparr>Status := StatusPreviewed, UpdatedAt := now\<rparr>)"
| Awaiting: "Status c = StatusPreviewed \<Longrightarrow> PlanHash c \<noteq> [] \<Longrightarrow>
     change_step H c (c\<lparr>Status := StatusAwaitingApproval, UpdatedAt := now\<rparr>)"
| Approved: "CanMoveTo (Status c) StatusApplying \<Longrightarrow> approve_fn H who remark steps c = Inr c' \<Longrightarrow>
     change_step H c (c'\<lparr>Status := StatusApplying, UpdatedAt := now\<rparr>)"
| Denied: "CanMoveTo (Status c) StatusDenied \<Longrightarrow> who \<noteq> [] \<Longrightarrow>
     change_step H c (c\<lparr>DecidedBy := who, DecisionNote := remark, Status := StatusDenied, UpdatedAt := now\<rparr>)"
| Expired: "CanMoveTo (Status c) StatusExpired \<Longrightarrow>
     change_step H c (c\<lparr>FailureReason := r, Status := StatusExpired, UpdatedAt := now\<rparr>)"
| Applied: "Status c = StatusApplying \<Longrightarrow>
     change_step H c (c\<lparr>Status := StatusApplied, UpdatedAt := now\<rparr>)"
| Failed: "CanMoveTo (Status c) StatusFailed \<Longrightarrow>
     change_step H c (c\<lparr>FailureReason := r, Status := StatusFailed, UpdatedAt := now\<rparr>)"
| Reverted: "Revertible c \<Longrightarrow> change_step H c (c\<lparr>Status := StatusReverted, UpdatedAt := now\<rparr>)"

inductive_cases change_stepE: "change_step H c d"

lemma CanMoveTo_iff [simp]:
  "CanMoveTo s StatusPreviewed \<longleftrightarrow> s = StatusProposed"
  "CanMoveTo s StatusAwaitingApproval \<longleftrightarrow> s = StatusPreviewed"
  "CanMoveTo s StatusApplying \<longleftrightarrow> s = StatusPreviewed \<or> s = StatusAwaitingApproval"
  "CanMoveTo s StatusDenied \<longleftrightarrow> s = StatusProposed \<or> s = StatusPreviewed \<or> s = StatusAwaitingApproval"
  "CanMoveTo s StatusExpired \<longleftrightarrow> s = StatusProposed \<or> s = StatusPreviewed \<or> s = StatusAwaitingApproval"
  "CanMoveTo s StatusApplied \<longleftrightarrow> s = StatusApplying"
  "CanMoveTo s StatusFailed \<longleftrightarrow> s = StatusProposed \<or> s = StatusPreviewed \<or> s = StatusApplying"
  "CanMoveTo s StatusReverted \<longleftrightarrow> s = StatusApplied \<or> s = StatusFailed"
  "CanMoveTo s StatusProposed \<longleftrightarrow> False"
  by (cases s; simp add: CanMoveTo_def)+

text \<open>The three ways a call leaves the store.\<close>

definition call_effect ::
  "(string \<Rightarrow> string) \<Rightarrow> 'st store_ops \<Rightarrow> 'st \<Rightarrow> string \<times> service_call \<Rightarrow> (change_error + change) \<times> 'st \<Rightarrow> bool" where
  "call_effect H S st call r \<longleftrightarrow>
     (\<exists>e. r = (Inl e, st)) \<or>
     (\<exists>c st'. r = (Inr c, st') \<and> Save S st c = Inr st' \<and> Validate c = None \<and>
        (LoadC S st (ID c) = Inr None \<and> Status c = StatusProposed \<or>
         (\<exists>c0 i. LoadC S st i = Inr (Some c0) \<and> change_step H c0 c)))"

lemma mutate_effect:
  assumes "\<And>c c1. CanMoveTo (Status c) next \<Longrightarrow> f c = Inr c1 \<Longrightarrow>
    change_step H c (c1\<lparr>Status := next, UpdatedAt := now\<rparr>)"
  shows "call_effect H S st call (mutate S now st i next f)"
  using assms
  by (auto simp: call_effect_def mutate_def Let_def split: sum.splits option.splits)

lemma service_step_effect: "call_effect H S st call (service_step H S st call)"
proof (cases call)
  case (Pair now c)
  show ?thesis
  proof (cases c)
    case (DoPropose c0)
    then show ?thesis
      by (auto simp: Pair Propose_def Let_def call_effect_def split: sum.splits option.splits)
  next
    case (DoPreview i steps descr blast undo)
    then show ?thesis unfolding Pair DoPreview service_step.simps Preview_def
      by (intro mutate_effect) (simp add: Previewed)
  next
    case (DoRequestApproval i)
    then show ?thesis unfolding Pair DoRequestApproval service_step.simps RequestApproval_def
      by (intro mutate_effect) (auto intro: Awaiting split: if_splits)
  next
    case (DoApprove i who remark steps)
    then show ?thesis unfolding Pair DoApprove service_step.simps Approve_def
      by (intro mutate_effect) (rule Approved)
  next
    case (DoDeny i who remark)
    then show ?thesis unfolding Pair DoDeny service_step.simps Deny_def
      by (intro mutate_effect) (auto intro: Denied split: if_splits)
  next
    case (DoExpire i reason)
    then show ?thesis unfolding Pair DoExpire service_step.simps Expire_def
      by (intro mutate_effect) (auto intro: Expired)
  next
    case (DoMarkApplied i)
    then show ?thesis unfolding Pair DoMarkApplied service_step.simps MarkApplied_def
      by (intro mutate_effect) (auto intro: Applied)
  next
    case (DoMarkFailed i reason)
    then show ?thesis unfolding Pair DoMarkFailed service_step.simps MarkFailed_def
      by (intro mutate_effect) (auto intro: Failed)
  next
    case (DoRevert i who)
    then show ?thesis unfolding Pair DoRevert service_step.simps Revert_def
      by (intro mutate_effect) (auto intro: Reverted split: if_splits)
  qed
qed

subsection \<open>What every change satisfies\<close>

definition plan_pinned :: "(string \<Rightarrow> string) \<Rightarrow> change \<Rightarrow> bool" where
  "plan_pinned H c \<longleftrightarrow> Steps c \<noteq> [] \<and> PlanHash c = Pin H (Steps c)"

text \<open>
  From preview on the recorded plan is the pinned one; a change that runs or has run was decided
  by somebody.
\<close>

definition change_ok :: "(string \<Rightarrow> string) \<Rightarrow> change \<Rightarrow> bool" where
  "change_ok H c \<longleftrightarrow>
     (Status c \<in> {StatusPreviewed, StatusAwaitingApproval, StatusApplying, StatusApplied} \<longrightarrow> plan_pinned H c) \<and>
     (Status c \<in> {StatusApplying, StatusApplied, StatusDenied} \<longrightarrow> DecidedBy c \<noteq> [])"

lemma preview_fn_Inr:
  "preview_fn H steps descr blast undo c = Inr c' \<longleftrightarrow>
     steps \<noteq> [] \<and> validate_inverse undo = None \<and>
     c' = c\<lparr>Steps := steps, PlanHash := Pin H steps, PreviewText := descr, BlastRadius := blast, Inverse := undo\<rparr>"
  by (auto simp: preview_fn_def split: option.splits)

lemma approve_fn_Inr:
  "approve_fn H who remark steps c = Inr c' \<longleftrightarrow>
     who \<noteq> [] \<and> PlanHash c \<noteq> [] \<and>
     Pin H (case steps of None \<Rightarrow> Steps c | Some ss \<Rightarrow> ss) = PlanHash c \<and>
     c' = c\<lparr>DecidedBy := who, DecisionNote := remark\<rparr>"
  by (auto simp: approve_fn_def Let_def VerifyPin_def split: option.splits if_splits)

lemmas fn_simps = preview_fn_Inr approve_fn_Inr

lemma change_step_ID: "change_step H c d \<Longrightarrow> ID d = ID c"
  by (induction rule: change_step.induct) (auto simp: fn_simps)

lemma change_step_ok: "change_step H c d \<Longrightarrow> change_ok H c \<Longrightarrow> change_ok H d"
  by (induction rule: change_step.induct) (auto simp: change_ok_def plan_pinned_def fn_simps)

lemma change_step_not_final: "change_step H c d \<Longrightarrow> \<not> Terminal (Status c)"
  by (induction rule: change_step.induct) (auto simp: Terminal_def Revertible_def)

text \<open>What runs after an approval is what was previewed.\<close>

lemma change_step_applying:
  "change_step H c d \<Longrightarrow> Status d = StatusApplying \<Longrightarrow> change_ok H c \<Longrightarrow>
   Steps d = Steps c \<and> PlanHash d = PlanHash c \<and> plan_pinned H d \<and> DecidedBy d \<noteq> []"
  by (induction rule: change_step.induct) (auto simp: change_ok_def plan_pinned_def fn_simps)

subsection \<open>The interface to the store\<close>

locale change_store =
  fixes S :: "'st store_ops" and ok :: "'st \<Rightarrow> bool" and empty :: 'st
  assumes ok_empty: "ok empty" "LoadC S empty i \<noteq> Inr (Some c)"
    and ok_save: "ok st \<Longrightarrow> Save S st c = Inr st' \<Longrightarrow> ok st'"
    and load_save: "ok st \<Longrightarrow> Save S st c = Inr st' \<Longrightarrow>
        LoadC S st' i = (if i = ID c then Inr (Some c) else LoadC S st i)"
    and load_id: "ok st \<Longrightarrow> LoadC S st i = Inr (Some c) \<Longrightarrow> ID c = i"
begin

definition all_stored :: "(change \<Rightarrow> bool) \<Rightarrow> 'st \<Rightarrow> bool" where
  "all_stored P st \<longleftrightarrow> (\<forall>i c. LoadC S st i = Inr (Some c) \<longrightarrow> P c)"

lemma ok_step: "ok st \<Longrightarrow> ok (snd (service_step H S st call))"
  using service_step_effect [of H S st call] ok_save by (auto simp: call_effect_def)

lemma ok_run: "ok st \<Longrightarrow> ok (service_run H S st calls)"
  by (induction calls rule: rev_induct) (simp_all add: service_run_def ok_step)

text \<open>A property that proposals have and steps keep holds of everything in the store.\<close>

lemma stored_step:
  assumes "ok st" "all_stored P st"
    and new: "\<And>c. Validate c = None \<Longrightarrow> Status c = StatusProposed \<Longrightarrow> P c"
    and step: "\<And>c d. P c \<Longrightarrow> change_step H c d \<Longrightarrow> Validate d = None \<Longrightarrow> P d"
  shows "all_stored P (snd (service_step H S st call))"
  using service_step_effect [of H S st call, unfolded call_effect_def]
proof
  assume "\<exists>e. service_step H S st call = (Inl e, st)"
  with assms(2) show ?thesis by auto
next
  assume "\<exists>c st'. service_step H S st call = (Inr c, st') \<and> Save S st c = Inr st' \<and> Validate c = None \<and>
      (LoadC S st (ID c) = Inr None \<and> Status c = StatusProposed \<or>
       (\<exists>c0 i. LoadC S st i = Inr (Some c0) \<and> change_step H c0 c))"
  then obtain c st' where r: "service_step H S st call = (Inr c, st')" and s: "Save S st c = Inr st'"
    and v: "Validate c = None" and w: "LoadC S st (ID c) = Inr None \<and> Status c = StatusProposed \<or>
       (\<exists>c0 i. LoadC S st i = Inr (Some c0) \<and> change_step H c0 c)" by blast
  have "P c"
    using w
  proof
    assume "LoadC S st (ID c) = Inr None \<and> Status c = StatusProposed"
    with new v show ?thesis by blast
  next
    assume "\<exists>c0 i. LoadC S st i = Inr (Some c0) \<and> change_step H c0 c"
    with assms(2) step v show ?thesis unfolding all_stored_def by blast
  qed
  with assms(2) show ?thesis by (auto simp: r all_stored_def load_save [OF assms(1) s])
qed

lemma stored_run:
  assumes "ok st" "all_stored P st"
    and "\<And>c. Validate c = None \<Longrightarrow> Status c = StatusProposed \<Longrightarrow> P c"
    and "\<And>c d. P c \<Longrightarrow> change_step H c d \<Longrightarrow> Validate d = None \<Longrightarrow> P d"
  shows "all_stored P (service_run H S st calls)"
proof (induction calls rule: rev_induct)
  case Nil
  show ?case using assms(2) by (simp add: service_run_def)
next
  case (snoc call calls)
  have "all_stored P (snd (service_step H S (service_run H S st calls) call))"
    by (rule stored_step [OF ok_run [OF assms(1)] snoc assms(3,4)])
  then show ?case by (simp add: service_run_def)
qed

lemma stored_reachable:
  "(\<And>c. Validate c = None \<Longrightarrow> Status c = StatusProposed \<Longrightarrow> P c) \<Longrightarrow>
   (\<And>c d. P c \<Longrightarrow> change_step H c d \<Longrightarrow> Validate d = None \<Longrightarrow> P d) \<Longrightarrow>
   LoadC S (service_run H S empty calls) i = Inr (Some c) \<Longrightarrow> P c"
  using stored_run [of empty P H calls] ok_empty unfolding all_stored_def by blast

text \<open>A change in a final status is never written again.\<close>

lemma final_step:
  assumes "ok st" "LoadC S st i = Inr (Some c)" "Terminal (Status c)"
  shows "LoadC S (snd (service_step H S st call)) i = Inr (Some c)"
  using service_step_effect [of H S st call, unfolded call_effect_def]
proof
  assume "\<exists>e. service_step H S st call = (Inl e, st)"
  with assms(2) show ?thesis by auto
next
  assume "\<exists>d st'. service_step H S st call = (Inr d, st') \<and> Save S st d = Inr st' \<and> Validate d = None \<and>
      (LoadC S st (ID d) = Inr None \<and> Status d = StatusProposed \<or>
       (\<exists>c0 i. LoadC S st i = Inr (Some c0) \<and> change_step H c0 d))"
  then obtain d st' where r: "service_step H S st call = (Inr d, st')" and s: "Save S st d = Inr st'"
    and w: "LoadC S st (ID d) = Inr None \<or> (\<exists>c0 j. LoadC S st j = Inr (Some c0) \<and> change_step H c0 d)" by blast
  have "i \<noteq> ID d"
  proof
    assume eq: "i = ID d"
    from w show False
    proof
      assume "LoadC S st (ID d) = Inr None"
      with assms(2) eq show False by simp
    next
      assume "\<exists>c0 j. LoadC S st j = Inr (Some c0) \<and> change_step H c0 d"
      then obtain c0 j where c0: "LoadC S st j = Inr (Some c0)" "change_step H c0 d" by blast
      with load_id [OF assms(1)] change_step_ID have "j = i" using eq by metis
      with c0 assms(2) have "c0 = c" by simp
      with c0(2) assms(3) change_step_not_final show False by blast
    qed
  qed
  with assms(2) show ?thesis by (simp add: r load_save [OF assms(1) s])
qed

lemma final_run:
  "ok st \<Longrightarrow> LoadC S st i = Inr (Some c) \<Longrightarrow> Terminal (Status c) \<Longrightarrow>
   LoadC S (service_run H S st calls) i = Inr (Some c)"
proof (induction calls rule: rev_induct)
  case (snoc call calls)
  then show ?case using final_step ok_run by (simp add: service_run_def)
qed (simp add: service_run_def)

end

subsection \<open>The file store (store.go)\<close>

text \<open>
  The record directory maps a file name to the change that was marshalled into it; \<open>None\<close> is a
  file that does not parse. A record is read back as it was written: the JSON round trip is the
  identity here, as it is in the code for strings that are valid UTF-8 (others come back with the
  replacement character).
\<close>

type_synonym record_dir = "string \<Rightarrow> change option option"

definition safeRecordID :: "string \<Rightarrow> change_error option" where
  "safeRecordID i =
     (if i = [] then Some EmptyId
      else if i \<noteq> path_base i \<or> i = ''.'' \<or> i = ''..'' \<or>
              CHR ''/'' \<in> set i \<or> CHR 0x5C \<in> set i \<or> CHR 0x00 \<in> set i
      then Some (UnsafeId i) else None)"

definition record_path :: "string \<Rightarrow> change_error + string" where
  "record_path i = (case safeRecordID i of Some e \<Rightarrow> Inl e | None \<Rightarrow> Inr (i @ ''.json''))"

definition fs_save :: "record_dir \<Rightarrow> change \<Rightarrow> change_error + record_dir" where
  "fs_save dir c = rbind (record_path (ID c)) (\<lambda>p. Inr (dir(p \<mapsto> Some c)))"

definition fs_load :: "record_dir \<Rightarrow> string \<Rightarrow> change_error + change option" where
  "fs_load dir i = rbind (record_path i) (\<lambda>p. case dir p of
     None \<Rightarrow> Inr None | Some None \<Rightarrow> Inl (Unparseable i) | Some (Some c) \<Rightarrow> Inr (Some c))"

definition fileStore :: "record_dir store_ops" where
  "fileStore = \<lparr>Save = fs_save, LoadC = fs_load\<rparr>"

text \<open>\<open>newer\<close> ranks times, the newest first; \<open>names\<close> are the entries of the directory.\<close>

definition fs_list :: "record_dir \<Rightarrow> (string \<Rightarrow> int) \<Rightarrow> string list \<Rightarrow> change list" where
  "fs_list dir newer names = sort_key (\<lambda>c. (newer (CreatedAt c), ID c))
     (concat (map (\<lambda>n. case dir n of Some (Some c) \<Rightarrow> [c] | _ \<Rightarrow> [])
       (filter (\<lambda>n. has_suffix n ''.json'') names)))"

text \<open>Every record sits in the file its id names.\<close>

definition dir_ok :: "record_dir \<Rightarrow> bool" where
  "dir_ok dir \<longleftrightarrow> (\<forall>n c. dir n = Some (Some c) \<longrightarrow> n = ID c @ ''.json'')"

definition empty_dir :: record_dir where
  "empty_dir = (\<lambda>_. None)"

lemma record_path_Inr: "record_path i = Inr p \<longleftrightarrow> safeRecordID i = None \<and> p = i @ ''.json''"
  by (auto simp: record_path_def split: option.splits)

interpretation files: change_store fileStore dir_ok empty_dir
proof unfold_locales
  fix i c st st'
  show "dir_ok empty_dir" by (simp add: dir_ok_def empty_dir_def)
  show "LoadC fileStore empty_dir i \<noteq> Inr (Some c)"
    by (auto simp: fileStore_def fs_load_def empty_dir_def rbind_Inr_iff)
  assume ok: "dir_ok st"
  show "dir_ok st'" if "Save fileStore st c = Inr st'"
    using that ok by (auto simp: fileStore_def fs_save_def rbind_Inr_iff record_path_Inr dir_ok_def split: if_splits)
  show "LoadC fileStore st' i = (if i = ID c then Inr (Some c) else LoadC fileStore st i)"
    if "Save fileStore st c = Inr st'"
    using that
    by (cases "i = ID c"; cases "safeRecordID i"; cases "safeRecordID (ID c)")
      (auto simp: fileStore_def fs_save_def fs_load_def record_path_def)
  show "ID c = i" if "LoadC fileStore st i = Inr (Some c)"
    using that ok by (auto simp: fileStore_def fs_load_def rbind_Inr_iff record_path_Inr dir_ok_def split: option.splits)
qed

lemma stored_change_ok:
  assumes "LoadC fileStore (service_run H fileStore empty_dir calls) i = Inr (Some c)"
  shows "Validate c = None \<and> change_ok H c"
proof (rule files.stored_reachable [OF _ _ assms, where P = "\<lambda>c. Validate c = None \<and> change_ok H c"])
  show "\<And>c. Validate c = None \<Longrightarrow> Status c = StatusProposed \<Longrightarrow> Validate c = None \<and> change_ok H c"
    by (simp add: change_ok_def)
  show "\<And>c d. Validate c = None \<and> change_ok H c \<Longrightarrow> change_step H c d \<Longrightarrow> Validate d = None \<Longrightarrow>
      Validate d = None \<and> change_ok H d"
    using change_step_ok by blast
qed

subsection \<open>Properties\<close>

text \<open>
  Whatever sequence of service calls is made on the file store, every change it holds passes
  \<open>Validate\<close>; from preview on its plan is non-empty and pinned by its hash; and a change that is
  applying, applied or denied names who decided it.
\<close>

theorem stored_changes_ok:
  assumes "LoadC fileStore (service_run H fileStore empty_dir calls) i = Inr (Some c)"
  shows "Validate c = None \<and> change_ok H c"
  by (rule stored_change_ok [OF assms])

definition sample_inverse :: inverse where
  "sample_inverse = \<lparr>IKind = ''command'', ISteps = [cmd [''undo'']], IReason = []\<rparr>"

definition sample_change :: change where
  "sample_change = new_change\<lparr>ID := ''c1'', Intent := ''x'',
     Proposer := \<lparr>PKind = ''human'', PName = ''o'', PModel = []\<rparr>, Status := StatusProposed\<rparr>"

definition sample_calls :: "(string \<times> service_call) list" where
  "sample_calls =
     [(''t1'', DoPropose sample_change),
      (''t2'', DoPreview ''c1'' [cmd [''do'']] ''diff'' [] sample_inverse)]"

definition sample_hash :: "string \<Rightarrow> string" where
  "sample_hash s = CHR ''h'' # s"

text \<open>What the store holds after the sample calls.\<close>

definition sample_stored :: change where
  "sample_stored = sample_change\<lparr>Steps := [cmd [''do'']], PlanHash := Pin sample_hash [cmd [''do'']],
     PreviewText := ''diff'', Inverse := sample_inverse, Status := StatusPreviewed,
     CreatedAt := ''t1'', UpdatedAt := ''t2''\<rparr>"

lemma sample_load:
  "LoadC fileStore (service_run sample_hash fileStore empty_dir sample_calls) ''c1'' = Inr (Some sample_stored)"
  by code_simp

theorem stored_changes_ok_witness: "change_ok sample_hash sample_stored"
  using stored_changes_ok [OF sample_load] by simp

text \<open>
  A decision is final: once a change is denied, expired or reverted, no later sequence of
  service calls changes its record, so nothing runs after a denial.
\<close>

theorem final_changes_stay:
  assumes "LoadC fileStore (service_run H fileStore empty_dir calls) i = Inr (Some c)"
    and "Terminal (Status c)"
  shows "LoadC fileStore (service_run H fileStore empty_dir (calls @ later)) i = Inr (Some c)"
proof -
  let ?st = "service_run H fileStore empty_dir calls"
  have "dir_ok ?st" by (rule files.ok_run) (rule files.ok_empty)
  from files.final_run [OF this assms, of H later] show ?thesis by (simp add: service_run_def)
qed

theorem final_changes_stay_witness:
  "LoadC fileStore (service_run sample_hash fileStore empty_dir
     ((sample_calls @ [(''t3'', DoDeny ''c1'' ''op'' [])]) @ [(''t4'', DoApprove ''c1'' ''op'' [] None)])) ''c1'' =
   Inr (Some (sample_stored\<lparr>DecidedBy := ''op'', Status := StatusDenied, UpdatedAt := ''t3''\<rparr>))"
proof (rule final_changes_stay)
  show "LoadC fileStore (service_run sample_hash fileStore empty_dir
      (sample_calls @ [(''t3'', DoDeny ''c1'' ''op'' [])])) ''c1'' =
      Inr (Some (sample_stored\<lparr>DecidedBy := ''op'', Status := StatusDenied, UpdatedAt := ''t3''\<rparr>))"
    by code_simp
  show "Terminal (Status (sample_stored\<lparr>DecidedBy := ''op'', Status := StatusDenied, UpdatedAt := ''t3''\<rparr>))"
    by code_simp
qed

text \<open>
  C12: An approval binds to what was reviewed. When \<open>Approve\<close> succeeds, in any reachable state of
  the file store, the change was in a state awaiting a decision, the approver is recorded, and
  the steps about to run have exactly the argument vectors and gates of the steps that were
  previewed and stored (hash collisions on the two plans apart).
\<close>

theorem approved_plan_is_reviewed_plan:
  assumes "Approve H fileStore now (service_run H fileStore empty_dir calls) i who remark (Some run) = (Inr c, st')"
    and "inj_on H {pin_preimage run, pin_preimage (Steps c)}"
  shows "map runs_as run = map runs_as (Steps c) \<and> Status c = StatusApplying \<and> DecidedBy c = who \<and> who \<noteq> [] \<and>
     (\<exists>c0. LoadC fileStore (service_run H fileStore empty_dir calls) i = Inr (Some c0) \<and>
        Steps c0 = Steps c \<and> Status c0 \<in> {StatusPreviewed, StatusAwaitingApproval})"
proof -
  let ?st = "service_run H fileStore empty_dir calls"
  from assms(1) obtain c0 c1 where c0: "LoadC fileStore ?st i = Inr (Some c0)"
      "CanMoveTo (Status c0) StatusApplying" "approve_fn H who remark (Some run) c0 = Inr c1"
      "c = c1\<lparr>Status := StatusApplying, UpdatedAt := now\<rparr>"
    by (auto simp: Approve_def mutate_def Let_def split: sum.splits option.splits if_splits)
  have "change_ok H c0" using stored_change_ok [OF c0(1)] by blast
  with c0(2) have "PlanHash c0 = Pin H (Steps c0)" by (auto simp: change_ok_def plan_pinned_def)
  with c0 have "Pin H run = Pin H (Steps c)" "who \<noteq> []" "DecidedBy c = who" "Steps c0 = Steps c"
    "Status c = StatusApplying" by (auto simp: fn_simps)
  moreover from this(1) have "map runs_as run = map runs_as (Steps c)"
    using inj_on_eq_iff [OF assms(2)] pin_preimage_eq_iff by (simp add: Pin_def)
  ultimately show ?thesis using c0(1,2) by auto
qed

theorem approved_plan_is_reviewed_plan_witness:
  "map runs_as [cmd [''do'']] = map runs_as (Steps (sample_stored\<lparr>DecidedBy := ''op'',
     Status := StatusApplying, UpdatedAt := ''t3''\<rparr>))"
proof -
  let ?c = "sample_stored\<lparr>DecidedBy := ''op'', Status := StatusApplying, UpdatedAt := ''t3''\<rparr>"
  have r: "fst (Approve sample_hash fileStore ''t3'' (service_run sample_hash fileStore empty_dir sample_calls)
      ''c1'' ''op'' [] (Some [cmd [''do'']])) = Inr ?c"
    by code_simp
  have "inj_on sample_hash {pin_preimage [cmd [''do'']], pin_preimage (Steps ?c)}"
    by (auto simp: inj_on_def sample_hash_def)
  from approved_plan_is_reviewed_plan [OF _ this] r show ?thesis by (metis prod.collapse)
qed

text \<open>
  A proposed change can neither be denied, expired nor failed while it has no inverse, which is
  the state every fresh proposal is in: the status graph allows the move and \<open>Validate\<close> then
  refuses the record, so the call fails and the change stays open.
\<close>

theorem fresh_proposal_cannot_be_refused:
  assumes "LoadC S st i = Inr (Some c)" and "Status c = StatusProposed" and "IKind (Inverse c) = []"
  shows "snd (Deny S now st i who remark) = st \<and> fst (Deny S now st i who remark) \<noteq> Inr d \<and>
         snd (Expire S now st i reason) = st \<and> snd (MarkFailed S now st i reason) = st"
proof -
  have v: "Validate (x\<lparr>Status := s, UpdatedAt := now\<rparr>) \<noteq> None"
    if "IKind (Inverse x) = []" "s \<noteq> StatusProposed" for x s
    using that by (auto simp: Validate_def validate_inverse_def split: option.splits)
  have m: "mutate S now st i s f = (Inl e, st)"
    if "f c = Inr x" "IKind (Inverse x) = []" "s \<noteq> StatusProposed" "CanMoveTo StatusProposed s"
      "Validate (x\<lparr>Status := s, UpdatedAt := now\<rparr>) = Some e" for s f x e
    using that assms(1,2) by (simp add: mutate_def Let_def)
  have fails: "\<exists>e. mutate S now st i s f = (Inl e, st)"
    if "(\<exists>e. f c = Inl e) \<or> (\<exists>x. f c = Inr x \<and> IKind (Inverse x) = [])" "s \<noteq> StatusProposed"
      "CanMoveTo StatusProposed s" for s f
    using that assms(1,2) m v by (fastforce simp: mutate_def)
  have "\<exists>e. Deny S now st i who remark = (Inl e, st)"
    unfolding Deny_def by (rule fails) (use assms(3) in auto)
  moreover have "\<exists>e. Expire S now st i reason = (Inl e, st)"
    unfolding Expire_def by (rule fails) (use assms(3) in auto)
  moreover have "\<exists>e. MarkFailed S now st i reason = (Inl e, st)"
    unfolding MarkFailed_def by (rule fails) (use assms(3) in auto)
  ultimately show ?thesis by auto
qed

theorem fresh_proposal_cannot_be_refused_witness:
  "fst (Deny fileStore ''t2'' (service_run sample_hash fileStore empty_dir [(''t1'', DoPropose sample_change)])
     ''c1'' ''op'' []) \<noteq> Inr sample_change"
proof -
  have "LoadC fileStore (service_run sample_hash fileStore empty_dir [(''t1'', DoPropose sample_change)]) ''c1'' =
      Inr (Some (sample_change\<lparr>CreatedAt := ''t1'', UpdatedAt := ''t1''\<rparr>))"
    by code_simp
  from fresh_proposal_cannot_be_refused [OF this] show ?thesis by (simp add: sample_change_def new_change_def)
qed

end
