(* ===== verification/Session_Exec.thy ===== *)
theory Session_Exec
  imports Go_Path
begin

text \<open>
  The output side of a mediated exec: \<^verbatim>\<open>internal/session/exec.go\<close> (\<open>pump\<close>, \<open>streamExec\<close>),
  the trace-wrapping sink of \<^verbatim>\<open>trace.go\<close>, the capped buffer of \<^verbatim>\<open>approval.go\<close>
  (\<open>bufferSink\<close>) and \<^verbatim>\<open>ExecOptions.validate\<close> of \<^verbatim>\<open>manager.go\<close>. What the process writes is an
  input: the list of outcomes of the calls of \<^verbatim>\<open>Read\<close> on each of its two pipes. The two
  goroutines of \<open>streamExec\<close> run in the order of a schedule, one turn being one iteration
  of the loop of \<open>pump\<close>; after the schedule both are run to their end, as \<^verbatim>\<open>Wait\<close> does.
\<close>

datatype out_stream = Stdout | Stderr

text \<open>The \<^verbatim>\<open>ExecSink\<close> interface: every call returns an optional error.\<close>

record 's exec_sink =
  SinkChunk :: "'s \<Rightarrow> out_stream \<Rightarrow> string \<Rightarrow> string option \<times> 's"
  SinkTruncated :: "'s \<Rightarrow> out_stream \<Rightarrow> string option \<times> 's"
  SinkExit :: "'s \<Rightarrow> int \<Rightarrow> string option \<times> 's"

datatype read_end = More | AtEOF | ReadError string

text \<open>One turn of the reader: the context was cancelled, or \<^verbatim>\<open>Read\<close> returned bytes and an end.\<close>

datatype read_step = CtxDone string | ReadN string read_end

subsection \<open>pump\<close>

record pump =
  Reads :: "read_step list"
  Sent :: nat
  Done :: "(bool \<times> string option) option"

definition new_pump :: "read_step list \<Rightarrow> pump" where
  "new_pump rs = \<lparr>Reads = rs, Sent = 0, Done = None\<rparr>"

fun pump_end :: "read_end \<Rightarrow> pump \<Rightarrow> pump" where
  "pump_end More p = p"
| "pump_end AtEOF p = p\<lparr>Done := Some (False, None)\<rparr>"
| "pump_end (ReadError e) p = p\<lparr>Done := Some (True, Some e)\<rparr>"

text \<open>One iteration of the loop. A reader that is spent is at its end.\<close>

definition pump_iter :: "'s exec_sink \<Rightarrow> nat \<Rightarrow> out_stream \<Rightarrow> pump \<Rightarrow> 's \<Rightarrow> pump \<times> 's" where
  "pump_iter k cap st p s =
     (if Done p \<noteq> None then (p, s)
      else case Reads p of
        [] \<Rightarrow> (p\<lparr>Done := Some (False, None)\<rparr>, s)
      | CtxDone e # rs \<Rightarrow> (p\<lparr>Reads := rs, Done := Some (True, Some e)\<rparr>, s)
      | ReadN d en # rs \<Rightarrow>
          if d = [] then (pump_end en (p\<lparr>Reads := rs\<rparr>), s)
          else if cap \<le> Sent p then
            (let (e, s') = SinkTruncated k s st in (p\<lparr>Reads := rs, Done := Some (True, e)\<rparr>, s'))
          else
            (let (e, s') = SinkChunk k s st (take (cap - Sent p) d) in
             if e \<noteq> None then (p\<lparr>Reads := rs, Done := Some (True, e)\<rparr>, s')
             else if length d > cap - Sent p then
               (let (e', s'') = SinkTruncated k s' st
                in (p\<lparr>Reads := rs, Sent := cap, Done := Some (True, e')\<rparr>, s''))
             else (pump_end en (p\<lparr>Reads := rs, Sent := Sent p + length d\<rparr>), s')))"

subsection \<open>streamExec\<close>

text \<open>
  \<open>FirstErr\<close> is the first error a pump returned, \<open>Killed\<close> whether the process was killed
  because a pump stopped early.
\<close>

record 's stream_run =
  OutPump :: pump
  ErrPump :: pump
  FirstErr :: "string option"
  Killed :: bool
  SinkState :: 's

definition setResult :: "pump \<Rightarrow> 's stream_run \<Rightarrow> 's stream_run" where
  "setResult p r =
     (case Done p of None \<Rightarrow> r
      | Some (tr, e) \<Rightarrow> r\<lparr>Killed := Killed r \<or> tr,
          FirstErr := (if FirstErr r = None then e else FirstErr r)\<rparr>)"

lemma setResult_simps [simp]:
  "OutPump (setResult p r) = OutPump r" "ErrPump (setResult p r) = ErrPump r"
  "SinkState (setResult p r) = SinkState r"
  by (auto simp: setResult_def split: option.split prod.split)

fun stream_turn :: "'s exec_sink \<Rightarrow> nat \<Rightarrow> out_stream \<Rightarrow> 's stream_run \<Rightarrow> 's stream_run" where
  "stream_turn k cap Stdout r =
     (let (p, s) = pump_iter k cap Stdout (OutPump r) (SinkState r); r' = r\<lparr>OutPump := p, SinkState := s\<rparr>
      in if Done (OutPump r) = None then setResult p r' else r')"
| "stream_turn k cap Stderr r =
     (let (p, s) = pump_iter k cap Stderr (ErrPump r) (SinkState r); r' = r\<lparr>ErrPump := p, SinkState := s\<rparr>
      in if Done (ErrPump r) = None then setResult p r' else r')"

fun run_turns :: "'s exec_sink \<Rightarrow> nat \<Rightarrow> out_stream list \<Rightarrow> 's stream_run \<Rightarrow> 's stream_run" where
  "run_turns k cap [] r = r"
| "run_turns k cap (t # ts) r = run_turns k cap ts (stream_turn k cap t r)"

text \<open>
  The process the runtime started: what its pipes deliver, its exit code, and the result of
  reaping it (\<^verbatim>\<open>Wait\<close>), when there is one.
\<close>

record exec_stream =
  OutReads :: "read_step list"
  ErrReads :: "read_step list"
  ExitCode :: int
  WaitResult :: "(int \<times> string option) option"

definition start_run :: "exec_stream \<Rightarrow> 's \<Rightarrow> 's stream_run" where
  "start_run es s = \<lparr>OutPump = new_pump (OutReads es), ErrPump = new_pump (ErrReads es),
     FirstErr = None, Killed = False, SinkState = s\<rparr>"

definition all_turns :: "out_stream list \<Rightarrow> exec_stream \<Rightarrow> out_stream list" where
  "all_turns sched es = sched @ replicate (Suc (length (OutReads es))) Stdout @
     replicate (Suc (length (ErrReads es))) Stderr"

definition streamExec ::
  "'s exec_sink \<Rightarrow> nat \<Rightarrow> out_stream list \<Rightarrow> exec_stream \<Rightarrow> 's \<Rightarrow> string option \<times> 's" where
  "streamExec k cap sched es s =
     (let r = run_turns k cap (all_turns sched es) (start_run es s);
          (code, err) = (case WaitResult es of
              None \<Rightarrow> (ExitCode es, FirstErr r)
            | Some (c, werr) \<Rightarrow> (c, if FirstErr r = None then werr else FirstErr r))
      in if err \<noteq> None then (err, SinkState r) else SinkExit k (SinkState r) code)"

subsection \<open>bufferSink\<close>

definition DefaultOutputCap :: nat where "DefaultOutputCap = 1048576"

record buffer_sink =
  BufCap :: nat
  BufOut :: string
  BufErr :: string
  OutOmit :: nat
  ErrOmit :: nat
  BufTrunc :: "out_stream \<Rightarrow> bool"
  BufCode :: int

definition newBufferSink :: "int \<Rightarrow> buffer_sink" where
  "newBufferSink c = \<lparr>BufCap = (if c \<le> 0 then DefaultOutputCap else nat c), BufOut = [], BufErr = [],
     OutOmit = 0, ErrOmit = 0, BufTrunc = (\<lambda>_. False), BufCode = -1\<rparr>"

definition appendCapped :: "string \<Rightarrow> nat \<Rightarrow> string \<Rightarrow> nat \<Rightarrow> string \<times> nat" where
  "appendCapped buf omitted d cap =
     (if cap \<le> length buf then (buf, omitted + length d)
      else if length d \<le> cap - length buf then (buf @ d, omitted)
      else (buf @ take (cap - length buf) d, omitted + (length d - (cap - length buf))))"

definition cappedString :: "string \<Rightarrow> nat \<Rightarrow> bool \<Rightarrow> string" where
  "cappedString buf omitted truncated =
     (if omitted > 0 then buf @ byte 10 # ''[truncated: '' @ dec omitted @ '' bytes omitted]''
      else if truncated then buf @ byte 10 # ''[output truncated at cap]''
      else buf)"

fun buf_chunk :: "buffer_sink \<Rightarrow> out_stream \<Rightarrow> string \<Rightarrow> string option \<times> buffer_sink" where
  "buf_chunk b Stderr d = (let (x, n) = appendCapped (BufErr b) (ErrOmit b) d (BufCap b)
     in (None, b\<lparr>BufErr := x, ErrOmit := n\<rparr>))"
| "buf_chunk b Stdout d = (let (x, n) = appendCapped (BufOut b) (OutOmit b) d (BufCap b)
     in (None, b\<lparr>BufOut := x, OutOmit := n\<rparr>))"

definition bufferSink :: "buffer_sink exec_sink" where
  "bufferSink = \<lparr>SinkChunk = buf_chunk,
     SinkTruncated = (\<lambda>b st. (None, b\<lparr>BufTrunc := (BufTrunc b)(st := True)\<rparr>)),
     SinkExit = (\<lambda>b code. (None, b\<lparr>BufCode := code\<rparr>))\<rparr>"

definition stdoutString :: "buffer_sink \<Rightarrow> string" where
  "stdoutString b = cappedString (BufOut b) (OutOmit b) (BufTrunc b Stdout)"

definition stderrString :: "buffer_sink \<Rightarrow> string" where
  "stderrString b = cappedString (BufErr b) (ErrOmit b) (BufTrunc b Stderr)"

subsection \<open>traceExecSink\<close>

text \<open>
  The payload of an \<^verbatim>\<open>exec.output\<close> event: a chunk with its offset, or the truncation marker. The
  recorder is a parameter: \<open>emit\<close> is one call of its \<^verbatim>\<open>Emit\<close>, which redacts the payload and may
  fail to append it; the sink logs that failure and goes on, so only the recorder's state shows it.
\<close>

datatype exec_output = OutputChunk out_stream nat string | OutputTruncated out_stream

record ('r, 's) trace_exec_sink =
  TraceRec :: 'r
  Offsets :: "out_stream \<Rightarrow> nat"
  TraceCode :: int
  Inner :: 's

definition newTraceExecSink :: "'r \<Rightarrow> 's \<Rightarrow> ('r, 's) trace_exec_sink" where
  "newTraceExecSink rec inner = \<lparr>TraceRec = rec, Offsets = (\<lambda>_. 0), TraceCode = -1, Inner = inner\<rparr>"

definition trace_chunk ::
  "('r \<Rightarrow> exec_output \<Rightarrow> 'r) \<Rightarrow> 's exec_sink \<Rightarrow> ('r, 's) trace_exec_sink \<Rightarrow> out_stream \<Rightarrow> string \<Rightarrow>
   string option \<times> ('r, 's) trace_exec_sink" where
  "trace_chunk emit k t st d =
     (let off = Offsets t st; (e, inner) = SinkChunk k (Inner t) st d
      in (e, t\<lparr>TraceRec := emit (TraceRec t) (OutputChunk st off d),
               Offsets := (Offsets t)(st := off + length d), Inner := inner\<rparr>))"

definition traceExecSink ::
  "('r \<Rightarrow> exec_output \<Rightarrow> 'r) \<Rightarrow> 's exec_sink \<Rightarrow> ('r, 's) trace_exec_sink exec_sink" where
  "traceExecSink emit k = \<lparr>SinkChunk = trace_chunk emit k,
     SinkTruncated = (\<lambda>t st. let (e, inner) = SinkTruncated k (Inner t) st
        in (e, t\<lparr>TraceRec := emit (TraceRec t) (OutputTruncated st), Inner := inner\<rparr>)),
     SinkExit = (\<lambda>t code. let (e, inner) = SinkExit k (Inner t) code
        in (e, t\<lparr>TraceCode := code, Inner := inner\<rparr>))\<rparr>"

subsection \<open>The interface: what a sink delivers\<close>

text \<open>The bytes a reader hands over before its end.\<close>

fun stream_data :: "read_step list \<Rightarrow> string" where
  "stream_data [] = []"
| "stream_data (CtxDone e # rs) = []"
| "stream_data (ReadN d en # rs) = (if en = More then d @ stream_data rs else d)"

definition pump_ok :: "nat \<Rightarrow> string \<Rightarrow> pump \<Rightarrow> string \<Rightarrow> bool" where
  "pump_ok cap D p x \<longleftrightarrow> length x \<le> cap \<and> x = take (length x) D \<and>
     (Done p = None \<longrightarrow> Sent p = length x \<and> D = x @ stream_data (Reads p))"

lemma pump_ok_new: "pump_ok cap (stream_data rs) (new_pump rs) []"
  by (simp add: pump_ok_def new_pump_def)

lemma pump_end_simps [simp]:
  "Reads (pump_end en p) = Reads p" "Sent (pump_end en p) = Sent p"
  "Done p = None \<Longrightarrow> (Done (pump_end en p) = None) = (en = More)"
  by (cases en; simp)+

text \<open>Both pumps are over after the turns of \<open>all_turns\<close>.\<close>

definition turns_left :: "pump \<Rightarrow> nat" where
  "turns_left p = (if Done p \<noteq> None then 0 else Suc (length (Reads p)))"

lemma pump_iter_left: "turns_left (fst (pump_iter k cap st p s)) \<le> turns_left p - 1"
  by (auto simp: pump_iter_def turns_left_def split: list.split read_step.split prod.split)

lemma stream_turn_left:
  "turns_left (OutPump (stream_turn k cap t r)) \<le> turns_left (OutPump r) - (if t = Stdout then 1 else 0)"
  "turns_left (ErrPump (stream_turn k cap t r)) \<le> turns_left (ErrPump r) - (if t = Stderr then 1 else 0)"
  using pump_iter_left [of k cap Stdout "OutPump r" "SinkState r"]
    pump_iter_left [of k cap Stderr "ErrPump r" "SinkState r"]
  by (cases t; auto simp: Let_def split: prod.split)+

lemma run_turns_left:
  "turns_left (OutPump (run_turns k cap ts r)) \<le> turns_left (OutPump r) - count_list ts Stdout"
  "turns_left (ErrPump (run_turns k cap ts r)) \<le> turns_left (ErrPump r) - count_list ts Stderr"
proof (induction ts arbitrary: r)
  case (Cons t ts)
  { case 1 show ?case
      using order_trans [OF Cons.IH(1) diff_le_mono [OF stream_turn_left(1)], of k cap t r]
      by (auto split: if_splits) }
  { case 2 show ?case
      using order_trans [OF Cons.IH(2) diff_le_mono [OF stream_turn_left(2)], of k cap t r]
      by (auto split: if_splits) }
qed simp_all

lemma count_list_replicate: "count_list (replicate n x) y = (if x = y then n else 0)"
  by (induction n) auto

lemma run_turns_done:
  "Done (OutPump (run_turns k cap (all_turns sched es) (start_run es s))) \<noteq> None"
  "Done (ErrPump (run_turns k cap (all_turns sched es) (start_run es s))) \<noteq> None"
proof -
  let ?r = "run_turns k cap (all_turns sched es) (start_run es s)"
  have "turns_left (OutPump ?r) = 0" "turns_left (ErrPump ?r) = 0"
    using run_turns_left [of k cap "all_turns sched es" "start_run es s"]
    by (simp_all add: all_turns_def start_run_def new_pump_def count_list_replicate
        turns_left_def [of "\<lparr>Reads = _, Sent = _, Done = _\<rparr>"])
  then show "Done (OutPump ?r) \<noteq> None" "Done (ErrPump ?r) \<noteq> None"
    by (simp_all add: turns_left_def split: if_splits)
qed

definition pump_full :: "nat \<Rightarrow> string \<Rightarrow> pump \<Rightarrow> string \<Rightarrow> bool \<Rightarrow> bool" where
  "pump_full cap D p x m \<longleftrightarrow>
     (if Done p = None then \<not> m else x = take cap D \<and> (m \<longleftrightarrow> cap < length D))"

text \<open>
  A sink delivers what it is given up to \<open>limit\<close> bytes a stream: \<open>out\<close> is what it holds of each
  stream. A call that fails may or may not have delivered its chunk.
\<close>

locale output_sink =
  fixes k :: "'s exec_sink"
    and out :: "'s \<Rightarrow> out_stream \<Rightarrow> string"
    and ok :: "'s \<Rightarrow> bool"
    and limit :: nat
  assumes chunk_ok: "\<lbrakk>ok s; length (out s st) + length d \<le> limit\<rbrakk> \<Longrightarrow> ok (snd (SinkChunk k s st d))"
    and chunk_out: "\<lbrakk>ok s; length (out s st) + length d \<le> limit; fst (SinkChunk k s st d) = None\<rbrakk> \<Longrightarrow>
      out (snd (SinkChunk k s st d)) = (out s)(st := out s st @ d)"
    and chunk_fail: "\<lbrakk>ok s; length (out s st) + length d \<le> limit; fst (SinkChunk k s st d) \<noteq> None\<rbrakk> \<Longrightarrow>
      out (snd (SinkChunk k s st d)) = out s \<or>
      out (snd (SinkChunk k s st d)) = (out s)(st := out s st @ d)"
    and trunc_ok: "ok s \<Longrightarrow> ok (snd (SinkTruncated k s st))"
    and trunc_out: "ok s \<Longrightarrow> out (snd (SinkTruncated k s st)) = out s"
    and exit_ok: "ok s \<Longrightarrow> ok (snd (SinkExit k s code))"
    and exit_out: "ok s \<Longrightarrow> out (snd (SinkExit k s code)) = out s"
begin

lemma chunk_other:
  assumes "ok s" "length (out s st) + length d \<le> limit" "st' \<noteq> st"
  shows "out (snd (SinkChunk k s st d)) st' = out s st'"
  using chunk_out [OF assms(1,2)] chunk_fail [OF assms(1,2)] assms(3)
  by (cases "fst (SinkChunk k s st d) = None") auto

lemma pump_iter_ok:
  assumes "ok s" and p: "pump_ok cap D p (out s st)" and "cap \<le> limit"
    and it: "pump_iter k cap st p s = (p', s')"
  shows "ok s' \<and> pump_ok cap D p' (out s' st) \<and> (\<forall>st'. st' \<noteq> st \<longrightarrow> out s' st' = out s st')"
proof (cases "Done p = None \<and> (\<exists>d en rs. Reads p = ReadN d en # rs \<and> d \<noteq> [] \<and> Sent p < cap)")
  case False
  then consider (finished) "Done p \<noteq> None" | (spent) "Done p = None" "Reads p = []"
    | (ctx) e rs where "Done p = None" "Reads p = CtxDone e # rs"
    | (blank) en rs where "Done p = None" "Reads p = ReadN [] en # rs"
    | (full) d en rs where "Done p = None" "Reads p = ReadN d en # rs" "d \<noteq> []" "cap \<le> Sent p"
    by (metis list.exhaust read_step.exhaust not_le)
  then show ?thesis
  proof cases
    case full
    obtain e s1 where t: "SinkTruncated k s st = (e, s1)" by (cases "SinkTruncated k s st") auto
    from it full t have "p' = p\<lparr>Reads := rs, Done := Some (True, e)\<rparr>" "s' = s1"
      by (auto simp: pump_iter_def)
    then show ?thesis
      using trunc_ok [OF assms(1), of st] trunc_out [OF assms(1), of st] t p by (auto simp: pump_ok_def)
  next
    case (blank en rs)
    from it blank have "p' = pump_end en (p\<lparr>Reads := rs\<rparr>)" "s' = s"
      by (auto simp: pump_iter_def)
    then show ?thesis using assms(1) p blank by (auto simp: pump_ok_def split: if_splits)
  qed (use assms in \<open>auto simp: pump_iter_def pump_ok_def\<close>)
next
  case True
  then obtain d en rs where r: "Done p = None" "Reads p = ReadN d en # rs" "d \<noteq> []" "Sent p < cap" by auto
  let ?x = "out s st" and ?t = "take (cap - Sent p) d"
  from p r have x: "Sent p = length ?x" "D = ?x @ stream_data (ReadN d en # rs)" "length ?x \<le> cap"
    by (auto simp: pump_ok_def)
  have len: "length ?x + length ?t \<le> limit" using r(4) x(1) assms(3) by auto
  obtain e s1 where c: "SinkChunk k s st ?t = (e, s1)" by (cases "SinkChunk k s st ?t") auto
  have ok1: "ok s1" using chunk_ok [OF assms(1) len] c by simp
  have other: "\<forall>st'. st' \<noteq> st \<longrightarrow> out s1 st' = out s st'"
    using chunk_other [OF assms(1) len] c by auto
  have pre: "?x @ ?t = take (length (?x @ ?t)) D" "?x = take (length ?x) D" "length (?x @ ?t) \<le> cap"
    using x r(4) by (auto simp: min_def)
  show ?thesis
  proof (cases e)
    case (Some err)
    from chunk_fail [OF assms(1) len] c Some have "out s1 st = ?x \<or> out s1 st = ?x @ ?t" by auto
    moreover have "p' = p\<lparr>Reads := rs, Done := Some (True, e)\<rparr>" "s' = s1"
      using it r c Some by (auto simp: pump_iter_def)
    ultimately show ?thesis using ok1 other pre x(3) by (auto simp: pump_ok_def simp del: length_append)
  next
    case None
    from chunk_out [OF assms(1) len] c None have out1: "out s1 st = ?x @ ?t" by auto
    show ?thesis
    proof (cases "length d > cap - Sent p")
      case True
      obtain e2 s2 where t: "SinkTruncated k s1 st = (e2, s2)" by (cases "SinkTruncated k s1 st") auto
      from it r c None True t have "p' = p\<lparr>Reads := rs, Sent := cap, Done := Some (True, e2)\<rparr>" "s' = s2"
        by (auto simp: pump_iter_def)
      then show ?thesis
        using trunc_ok [OF ok1, of st] trunc_out [OF ok1, of st] t out1 other pre
        by (auto simp: pump_ok_def simp del: length_append)
    next
      case False
      from it r c None False
      have "p' = pump_end en (p\<lparr>Reads := rs, Sent := Sent p + length d\<rparr>)" "s' = s1"
        by (auto simp: pump_iter_def)
      then show ?thesis
        using ok1 other pre out1 x False r by (auto simp: pump_ok_def split: if_splits)
    qed
  qed
qed

lemma stream_turn_ok:
  fixes t :: out_stream
  assumes "ok (SinkState r)" "cap \<le> limit"
    and "pump_ok cap D (OutPump r) (out (SinkState r) Stdout)"
    and "pump_ok cap E (ErrPump r) (out (SinkState r) Stderr)"
  defines "r' \<equiv> stream_turn k cap t r"
  shows "ok (SinkState r') \<and> pump_ok cap D (OutPump r') (out (SinkState r') Stdout) \<and>
    pump_ok cap E (ErrPump r') (out (SinkState r') Stderr)"
proof (cases t)
  case Stdout
  obtain p s where it: "pump_iter k cap Stdout (OutPump r) (SinkState r) = (p, s)" by fastforce
  from pump_iter_ok [OF assms(1,3,2) it] assms(4) it Stdout show ?thesis by (simp add: r'_def Let_def)
next
  case Stderr
  obtain p s where it: "pump_iter k cap Stderr (ErrPump r) (SinkState r) = (p, s)" by fastforce
  from pump_iter_ok [OF assms(1,4,2) it] assms(3) it Stderr show ?thesis by (simp add: r'_def Let_def)
qed

lemma run_turns_ok:
  assumes "ok (SinkState r)" "cap \<le> limit"
    and "pump_ok cap D (OutPump r) (out (SinkState r) Stdout)"
    and "pump_ok cap E (ErrPump r) (out (SinkState r) Stderr)"
  shows "ok (SinkState (run_turns k cap ts r)) \<and>
    pump_ok cap D (OutPump (run_turns k cap ts r)) (out (SinkState (run_turns k cap ts r)) Stdout) \<and>
    pump_ok cap E (ErrPump (run_turns k cap ts r)) (out (SinkState (run_turns k cap ts r)) Stderr)"
  using assms
proof (induction ts arbitrary: r)
  case (Cons t ts)
  from stream_turn_ok [OF Cons.prems, of t] Cons.IH [of "stream_turn k cap t r"] Cons.prems(2)
  show ?case by simp
qed simp

end

text \<open>
  A sink none of whose calls fails; \<open>marked\<close> tells the streams whose truncation it was told of.
\<close>

locale reliable_sink = output_sink k out ok limit
  for k :: "'s exec_sink" and out :: "'s \<Rightarrow> out_stream \<Rightarrow> string" and ok :: "'s \<Rightarrow> bool" and limit :: nat +
  fixes marked :: "'s \<Rightarrow> out_stream \<Rightarrow> bool"
  assumes chunk_None: "fst (SinkChunk k s st d) = None"
    and trunc_None: "fst (SinkTruncated k s st) = None"
    and exit_None: "fst (SinkExit k s code) = None"
    and chunk_mark: "ok s \<Longrightarrow> marked (snd (SinkChunk k s st d)) = marked s"
    and trunc_mark: "ok s \<Longrightarrow> marked (snd (SinkTruncated k s st)) = (marked s)(st := True)"
    and exit_mark: "ok s \<Longrightarrow> marked (snd (SinkExit k s code)) = marked s"
begin

lemma pump_iter_full:
  assumes "ok s" and p: "pump_ok cap D p (out s st)" "pump_full cap D p (out s st) (marked s st)"
    and "cap \<le> limit" and it: "pump_iter k cap st p s = (p', s')"
  shows "pump_full cap D p' (out s' st) (marked s' st) \<and> (\<forall>st'. st' \<noteq> st \<longrightarrow> marked s' st' = marked s st')"
proof -
  consider (finished) "Done p \<noteq> None" | (spent) "Done p = None" "Reads p = []"
    | (ctx) e rs where "Done p = None" "Reads p = CtxDone e # rs"
    | (blank) en rs where "Done p = None" "Reads p = ReadN [] en # rs"
    | (full) d en rs where "Done p = None" "Reads p = ReadN d en # rs" "d \<noteq> []" "cap \<le> Sent p"
    | (chunk) d en rs where "Done p = None" "Reads p = ReadN d en # rs" "d \<noteq> []" "Sent p < cap"
    by (metis list.exhaust read_step.exhaust not_le)
  then show ?thesis
  proof cases
    case (full d en rs)
    obtain s1 where t: "SinkTruncated k s st = (None, s1)"
      using trunc_None [of s st] by (cases "SinkTruncated k s st") auto
    from it full t have "p' = p\<lparr>Reads := rs, Done := Some (True, None)\<rparr>" "s' = s1"
      by (auto simp: pump_iter_def)
    then show ?thesis
      using trunc_mark [OF assms(1), of st] trunc_out [OF assms(1), of st] t p full
      by (auto simp: pump_ok_def pump_full_def)
  next
    case (blank en rs)
    from it blank have "p' = pump_end en (p\<lparr>Reads := rs\<rparr>)" "s' = s"
      by (auto simp: pump_iter_def)
    then show ?thesis using p blank by (auto simp: pump_ok_def pump_full_def split: if_splits)
  next
    case (chunk d en rs)
    let ?x = "out s st" and ?t = "take (cap - Sent p) d"
    from p chunk have x: "Sent p = length ?x" "D = ?x @ stream_data (ReadN d en # rs)" "length ?x \<le> cap"
      "\<not> marked s st"
      by (auto simp: pump_ok_def pump_full_def)
    have len: "length ?x + length ?t \<le> limit" using chunk(4) x(1) assms(4) by auto
    obtain s1 where c: "SinkChunk k s st ?t = (None, s1)"
      using chunk_None [of s st ?t] by (cases "SinkChunk k s st ?t") auto
    have out1: "out s1 st = ?x @ ?t" using chunk_out [OF assms(1) len] c by simp
    have ok1: "ok s1" using chunk_ok [OF assms(1) len] c by simp
    have mark1: "marked s1 = marked s" using chunk_mark [OF assms(1), of st ?t] c by simp
    show ?thesis
    proof (cases "length d > cap - Sent p")
      case True
      obtain s2 where t: "SinkTruncated k s1 st = (None, s2)"
        using trunc_None [of s1 st] by (cases "SinkTruncated k s1 st") auto
      from it chunk c True t have "p' = p\<lparr>Reads := rs, Sent := cap, Done := Some (True, None)\<rparr>" "s' = s2"
        by (auto simp: pump_iter_def)
      then show ?thesis
        using trunc_out [OF ok1, of st] trunc_mark [OF ok1, of st] t out1 mark1 x True
        by (auto simp: pump_full_def)
    next
      case False
      from it chunk c False
      have "p' = pump_end en (p\<lparr>Reads := rs, Sent := Sent p + length d\<rparr>)" "s' = s1"
        by (auto simp: pump_iter_def)
      then show ?thesis using out1 mark1 x False chunk by (auto simp: pump_full_def split: if_splits)
    qed
  qed (use assms in \<open>auto simp: pump_iter_def pump_ok_def pump_full_def\<close>)
qed

lemma stream_turn_full:
  fixes t :: out_stream
  assumes "ok (SinkState r)" "cap \<le> limit"
    and "pump_ok cap D (OutPump r) (out (SinkState r) Stdout)"
    and "pump_ok cap E (ErrPump r) (out (SinkState r) Stderr)"
    and "pump_full cap D (OutPump r) (out (SinkState r) Stdout) (marked (SinkState r) Stdout)"
    and "pump_full cap E (ErrPump r) (out (SinkState r) Stderr) (marked (SinkState r) Stderr)"
  defines "r' \<equiv> stream_turn k cap t r"
  shows "pump_full cap D (OutPump r') (out (SinkState r') Stdout) (marked (SinkState r') Stdout) \<and>
    pump_full cap E (ErrPump r') (out (SinkState r') Stderr) (marked (SinkState r') Stderr)"
proof (cases t)
  case Stdout
  obtain p s where it: "pump_iter k cap Stdout (OutPump r) (SinkState r) = (p, s)" by fastforce
  from pump_iter_full [OF assms(1,3,5,2) it] pump_iter_ok [OF assms(1,3,2) it] assms(6) it Stdout
  show ?thesis by (simp add: r'_def Let_def)
next
  case Stderr
  obtain p s where it: "pump_iter k cap Stderr (ErrPump r) (SinkState r) = (p, s)" by fastforce
  from pump_iter_full [OF assms(1,4,6,2) it] pump_iter_ok [OF assms(1,4,2) it] assms(5) it Stderr
  show ?thesis by (simp add: r'_def Let_def)
qed

lemma run_turns_full:
  fixes ts :: "out_stream list"
  assumes "ok (SinkState r)" "cap \<le> limit"
    and "pump_ok cap D (OutPump r) (out (SinkState r) Stdout)"
    and "pump_ok cap E (ErrPump r) (out (SinkState r) Stderr)"
    and "pump_full cap D (OutPump r) (out (SinkState r) Stdout) (marked (SinkState r) Stdout)"
    and "pump_full cap E (ErrPump r) (out (SinkState r) Stderr) (marked (SinkState r) Stderr)"
  defines "r' \<equiv> run_turns k cap ts r"
  shows "pump_full cap D (OutPump r') (out (SinkState r') Stdout) (marked (SinkState r') Stdout) \<and>
    pump_full cap E (ErrPump r') (out (SinkState r') Stderr) (marked (SinkState r') Stderr)"
  using assms(1-6) unfolding r'_def
proof (induction ts arbitrary: r)
  case (Cons t ts)
  from stream_turn_full [OF Cons.prems, of t] stream_turn_ok [OF Cons.prems(1-4), of t]
    Cons.IH [of "stream_turn k cap t r"] Cons.prems(2)
  show ?case by simp
qed simp

text \<open>What the sink holds once the exec is over, whatever the schedule.\<close>

lemma streamExec_delivers:
  fixes sched :: "out_stream list" and es :: exec_stream
  assumes "ok s" "cap \<le> limit" and "out s = (\<lambda>_. [])" "marked s = (\<lambda>_. False)"
  defines "s' \<equiv> snd (streamExec k cap sched es s)"
  shows "ok s' \<and>
    out s' Stdout = take cap (stream_data (OutReads es)) \<and>
    out s' Stderr = take cap (stream_data (ErrReads es)) \<and>
    (marked s' Stdout \<longleftrightarrow> cap < length (stream_data (OutReads es))) \<and>
    (marked s' Stderr \<longleftrightarrow> cap < length (stream_data (ErrReads es)))"
proof -
  let ?D = "stream_data (OutReads es)" and ?E = "stream_data (ErrReads es)"
  let ?r = "run_turns k cap (all_turns sched es) (start_run es s)"
  have init: "ok (SinkState (start_run es s))"
    "pump_ok cap ?D (OutPump (start_run es s)) (out (SinkState (start_run es s)) Stdout)"
    "pump_ok cap ?E (ErrPump (start_run es s)) (out (SinkState (start_run es s)) Stderr)"
    "pump_full cap ?D (OutPump (start_run es s)) (out (SinkState (start_run es s)) Stdout)
      (marked (SinkState (start_run es s)) Stdout)"
    "pump_full cap ?E (ErrPump (start_run es s)) (out (SinkState (start_run es s)) Stderr)
      (marked (SinkState (start_run es s)) Stderr)"
    using assms by (simp_all add: start_run_def pump_ok_new) (simp_all add: pump_full_def new_pump_def)
  note ok = run_turns_ok [OF init(1) assms(2) init(2,3), of "all_turns sched es"]
  note full = run_turns_full [OF init(1) assms(2) init(2-5), of "all_turns sched es"]
  have over: "Done (OutPump ?r) \<noteq> None" "Done (ErrPump ?r) \<noteq> None"
    using run_turns_done [of k cap sched es s] by simp_all
  have keep: "ok s' \<and> out s' = out (SinkState ?r) \<and> marked s' = marked (SinkState ?r)"
    using ok exit_ok exit_out exit_mark
    by (auto simp: s'_def streamExec_def Let_def split: option.splits prod.splits)
  from full over keep show ?thesis by (auto simp: pump_full_def)
qed

end

subsection \<open>The two sinks\<close>

definition buf_out :: "buffer_sink \<Rightarrow> out_stream \<Rightarrow> string" where
  "buf_out b st = (case st of Stdout \<Rightarrow> BufOut b | Stderr \<Rightarrow> BufErr b)"

definition buf_ok :: "nat \<Rightarrow> buffer_sink \<Rightarrow> bool" where
  "buf_ok n b \<longleftrightarrow> BufCap b = n \<and> OutOmit b = 0 \<and> ErrOmit b = 0"

lemma appendCapped_fits: "length buf + length d \<le> cap \<Longrightarrow> appendCapped buf om d cap = (buf @ d, om)"
  by (cases "d = []") (auto simp: appendCapped_def)

interpretation buffer: reliable_sink bufferSink buf_out "buf_ok n" n BufTrunc for n :: nat
proof
  fix b :: buffer_sink and st d code
  assume b: "buf_ok n b"
  show "buf_ok n (snd (SinkTruncated bufferSink b st))"
    "buf_out (snd (SinkTruncated bufferSink b st)) = buf_out b"
    "buf_ok n (snd (SinkExit bufferSink b code))"
    "buf_out (snd (SinkExit bufferSink b code)) = buf_out b"
    "BufTrunc (snd (SinkTruncated bufferSink b st)) = (BufTrunc b)(st := True)"
    "BufTrunc (snd (SinkExit bufferSink b code)) = BufTrunc b"
    using b by (auto simp: bufferSink_def buf_ok_def buf_out_def fun_eq_iff split: out_stream.split)
  show "BufTrunc (snd (SinkChunk bufferSink b st d)) = BufTrunc b"
    by (cases st) (auto simp: bufferSink_def split: prod.split)
  assume len: "length (buf_out b st) + length d \<le> n"
  show "buf_ok n (snd (SinkChunk bufferSink b st d))"
    using b len by (cases st) (auto simp: bufferSink_def buf_ok_def buf_out_def appendCapped_fits)
  have chunk: "buf_out (snd (SinkChunk bufferSink b st d)) = (buf_out b)(st := buf_out b st @ d)"
    using b len
    by (cases st) (auto simp: bufferSink_def buf_ok_def buf_out_def appendCapped_fits fun_eq_iff
        split: out_stream.split)
  show "buf_out (snd (SinkChunk bufferSink b st d)) = (buf_out b)(st := buf_out b st @ d)"
    by (rule chunk)
  show "buf_out (snd (SinkChunk bufferSink b st d)) = buf_out b \<or>
      buf_out (snd (SinkChunk bufferSink b st d)) = (buf_out b)(st := buf_out b st @ d)"
    by (simp add: chunk)
next
  fix b :: buffer_sink and st d code
  show "fst (SinkChunk bufferSink b st d) = None"
    by (cases st) (auto simp: bufferSink_def split: prod.split)
  show "fst (SinkTruncated bufferSink b st) = None" "fst (SinkExit bufferSink b code) = None"
    by (simp_all add: bufferSink_def)
qed

text \<open>What the trace of an exec recorded of a stream, and that its offsets are contiguous.\<close>

fun recorded :: "out_stream \<Rightarrow> exec_output list \<Rightarrow> string" where
  "recorded st [] = []"
| "recorded st (OutputChunk s off d # l) = (if s = st then d @ recorded st l else recorded st l)"
| "recorded st (OutputTruncated s # l) = recorded st l"

fun offsets_ok :: "out_stream \<Rightarrow> nat \<Rightarrow> exec_output list \<Rightarrow> bool" where
  "offsets_ok st n [] = True"
| "offsets_ok st n (OutputChunk s off d # l) =
     (if s = st then off = n \<and> offsets_ok st (n + length d) l else offsets_ok st n l)"
| "offsets_ok st n (OutputTruncated s # l) = offsets_ok st n l"

lemma recorded_append: "recorded st (l @ m) = recorded st l @ recorded st m"
  by (induction st l rule: recorded.induct) auto

lemma offsets_ok_append:
  "offsets_ok st n (l @ m) \<longleftrightarrow> offsets_ok st n l \<and> offsets_ok st (n + length (recorded st l)) m"
  by (induction st n l rule: offsets_ok.induct) (auto simp: add.assoc)

text \<open>
  The calls of the recorder: their bytes are those the inner sink was given, at contiguous offsets,
  and the recorder is in the state those calls leave it in.
\<close>

definition trace_faithful ::
  "('r \<Rightarrow> exec_output \<Rightarrow> 'r) \<Rightarrow> 'r \<Rightarrow> (out_stream \<Rightarrow> string) \<Rightarrow> ('r, 's) trace_exec_sink \<Rightarrow> bool" where
  "trace_faithful emit r0 x t \<longleftrightarrow>
     (\<exists>calls. TraceRec t = foldl emit r0 calls \<and>
       (\<forall>st. recorded st calls = x st \<and> Offsets t st = length (x st) \<and> offsets_ok st 0 calls))"

lemma trace_faithful_chunk:
  assumes "trace_faithful emit r0 x t"
  shows "trace_faithful emit r0 (x(st := x st @ d))
     (t\<lparr>TraceRec := emit (TraceRec t) (OutputChunk st (Offsets t st) d),
        Offsets := (Offsets t)(st := Offsets t st + length d), Inner := i\<rparr>)"
proof -
  from assms obtain calls where c: "TraceRec t = foldl emit r0 calls"
    "\<And>st. recorded st calls = x st \<and> Offsets t st = length (x st) \<and> offsets_ok st 0 calls"
    by (auto simp: trace_faithful_def)
  then show ?thesis
    unfolding trace_faithful_def
    by (intro exI [of _ "calls @ [OutputChunk st (Offsets t st) d]"])
      (auto simp: recorded_append offsets_ok_append)
qed

lemma trace_faithful_other:
  "trace_faithful emit r0 x t \<Longrightarrow>
     trace_faithful emit r0 x (t\<lparr>TraceRec := emit (TraceRec t) (OutputTruncated st), Inner := i\<rparr>)"
  "trace_faithful emit r0 x t \<Longrightarrow> trace_faithful emit r0 x (t\<lparr>TraceCode := c, Inner := i\<rparr>)"
proof -
  assume "trace_faithful emit r0 x t"
  then obtain calls where c: "TraceRec t = foldl emit r0 calls"
    "\<And>st. recorded st calls = x st \<and> Offsets t st = length (x st) \<and> offsets_ok st 0 calls"
    by (auto simp: trace_faithful_def)
  then show "trace_faithful emit r0 x (t\<lparr>TraceRec := emit (TraceRec t) (OutputTruncated st), Inner := i\<rparr>)"
    unfolding trace_faithful_def
    by (intro exI [of _ "calls @ [OutputTruncated st]"]) (auto simp: recorded_append offsets_ok_append)
  from c show "trace_faithful emit r0 x (t\<lparr>TraceCode := c, Inner := i\<rparr>)"
    unfolding trace_faithful_def by (intro exI [of _ calls]) auto
qed

text \<open>Tracing forwards every frame unchanged, over any reliable sink.\<close>

locale traced_sink = inner: reliable_sink k out ok limit marked
  for k :: "'s exec_sink" and out :: "'s \<Rightarrow> out_stream \<Rightarrow> string" and ok :: "'s \<Rightarrow> bool"
    and limit :: nat and marked :: "'s \<Rightarrow> out_stream \<Rightarrow> bool" +
  fixes emit :: "'r \<Rightarrow> exec_output \<Rightarrow> 'r" and r0 :: 'r

sublocale traced_sink < traced: reliable_sink "traceExecSink emit k" "\<lambda>t. out (Inner t)"
  "\<lambda>t. ok (Inner t) \<and> trace_faithful emit r0 (out (Inner t)) t" limit "\<lambda>t. marked (Inner t)"
proof
  fix t :: "('r, 's) trace_exec_sink" and st d code
  assume t: "ok (Inner t) \<and> trace_faithful emit r0 (out (Inner t)) t"
  show "ok (Inner (snd (SinkTruncated (traceExecSink emit k) t st))) \<and>
      trace_faithful emit r0 (out (Inner (snd (SinkTruncated (traceExecSink emit k) t st))))
        (snd (SinkTruncated (traceExecSink emit k) t st))"
    using t inner.trunc_ok [of "Inner t" st] inner.trunc_out [of "Inner t" st]
    by (auto simp: traceExecSink_def trace_faithful_other split: prod.split)
  show "out (Inner (snd (SinkTruncated (traceExecSink emit k) t st))) = out (Inner t)"
    "marked (Inner (snd (SinkTruncated (traceExecSink emit k) t st))) = (marked (Inner t))(st := True)"
    using t inner.trunc_out [of "Inner t" st] inner.trunc_mark [of "Inner t" st]
    by (auto simp: traceExecSink_def split: prod.split)
  show "ok (Inner (snd (SinkExit (traceExecSink emit k) t code))) \<and>
      trace_faithful emit r0 (out (Inner (snd (SinkExit (traceExecSink emit k) t code))))
        (snd (SinkExit (traceExecSink emit k) t code))"
    using t inner.exit_ok [of "Inner t" code] inner.exit_out [of "Inner t" code]
    by (auto simp: traceExecSink_def trace_faithful_other split: prod.split)
  show "out (Inner (snd (SinkExit (traceExecSink emit k) t code))) = out (Inner t)"
    "marked (Inner (snd (SinkExit (traceExecSink emit k) t code))) = marked (Inner t)"
    using t inner.exit_out [of "Inner t" code] inner.exit_mark [of "Inner t" code]
    by (auto simp: traceExecSink_def split: prod.split)
  show "marked (Inner (snd (SinkChunk (traceExecSink emit k) t st d))) = marked (Inner t)"
    using t inner.chunk_mark [of "Inner t" st d]
    by (auto simp: traceExecSink_def trace_chunk_def Let_def split: prod.split)
  assume len: "length (out (Inner t) st) + length d \<le> limit"
  have chunk: "out (snd (SinkChunk k (Inner t) st d)) = (out (Inner t))(st := out (Inner t) st @ d)"
    using t len inner.chunk_out inner.chunk_None by blast
  then show "out (Inner (snd (SinkChunk (traceExecSink emit k) t st d))) =
        (out (Inner t))(st := out (Inner t) st @ d)"
    "out (Inner (snd (SinkChunk (traceExecSink emit k) t st d))) = out (Inner t) \<or>
      out (Inner (snd (SinkChunk (traceExecSink emit k) t st d))) = (out (Inner t))(st := out (Inner t) st @ d)"
    by (auto simp: traceExecSink_def trace_chunk_def Let_def split: prod.split)
  show "ok (Inner (snd (SinkChunk (traceExecSink emit k) t st d))) \<and>
      trace_faithful emit r0 (out (Inner (snd (SinkChunk (traceExecSink emit k) t st d))))
        (snd (SinkChunk (traceExecSink emit k) t st d))"
    using t inner.chunk_ok [OF _ len] chunk
    by (auto simp: traceExecSink_def trace_chunk_def Let_def trace_faithful_chunk split: prod.split)
next
  fix t :: "('r, 's) trace_exec_sink" and st d code
  show "fst (SinkChunk (traceExecSink emit k) t st d) = None"
    "fst (SinkTruncated (traceExecSink emit k) t st) = None" "fst (SinkExit (traceExecSink emit k) t code) = None"
    using inner.chunk_None [of "Inner t" st d] inner.trunc_None [of "Inner t" st]
      inner.exit_None [of "Inner t" code]
    by (auto simp: traceExecSink_def trace_chunk_def Let_def split: prod.split)
qed

interpretation exec_buffer: traced_sink bufferSink buf_out "buf_ok n" n BufTrunc emit r0
  for n :: nat and emit :: "'r \<Rightarrow> exec_output \<Rightarrow> 'r" and r0 :: 'r
  by unfold_locales

definition capped :: "nat \<Rightarrow> string \<Rightarrow> string" where
  "capped n D = take n D @ (if n < length D then byte 10 # ''[output truncated at cap]'' else [])"

lemma streamExec_exit_code:
  assumes "streamExec (traceExecSink emit bufferSink) cap sched es (newTraceExecSink r0 b) = (None, t)"
  shows "BufCode (Inner t) = TraceCode t \<and>
    TraceCode t = (case WaitResult es of None \<Rightarrow> ExitCode es | Some (c, e) \<Rightarrow> c)"
  using assms
  by (auto simp: streamExec_def Let_def traceExecSink_def bufferSink_def split: option.splits prod.splits
      if_splits)

text \<open>
  C9: Bounded and faithful output. Whatever a command writes and in whatever order the two
  readers run, the captured output of each stream is its first \<open>n\<close> bytes (with the truncation
  marker exactly when there was more), the calls made of the trace recorder hand it the same bytes
  at contiguous offsets, and an exec that reports no error delivers the exit code of the process.
  The recorder is any: what it makes of its calls (the redaction of the payload, an append that
  fails) is its own, and it changes neither the captured output nor the exit code.
\<close>

theorem exec_output_bounded:
  assumes "0 < n"
    and "streamExec (traceExecSink emit bufferSink) n sched es (newTraceExecSink r0 (newBufferSink (int n))) =
      (err, t)"
  shows "stdoutString (Inner t) = capped n (stream_data (OutReads es)) \<and>
    stderrString (Inner t) = capped n (stream_data (ErrReads es)) \<and>
    (\<exists>calls. TraceRec t = foldl emit r0 calls \<and>
       recorded Stdout calls = take n (stream_data (OutReads es)) \<and>
       recorded Stderr calls = take n (stream_data (ErrReads es)) \<and>
       offsets_ok Stdout 0 calls \<and> offsets_ok Stderr 0 calls) \<and>
    (err = None \<longrightarrow> BufCode (Inner t) = (case WaitResult es of None \<Rightarrow> ExitCode es | Some (c, e) \<Rightarrow> c))"
proof -
  let ?s = "newTraceExecSink r0 (newBufferSink (int n))"
  have "trace_faithful emit r0 (buf_out (Inner ?s)) ?s"
    unfolding trace_faithful_def
    by (intro exI [of _ "[]"]) (auto simp: newTraceExecSink_def newBufferSink_def buf_out_def split: out_stream.split)
  then have s: "buf_ok n (Inner ?s) \<and> trace_faithful emit r0 (buf_out (Inner ?s)) ?s"
    "buf_out (Inner ?s) = (\<lambda>_. [])" "BufTrunc (Inner ?s) = (\<lambda>_. False)"
    using assms(1)
    by (auto simp: newTraceExecSink_def newBufferSink_def buf_ok_def buf_out_def split: out_stream.split)
  note d = exec_buffer.traced.streamExec_delivers [OF s(1) order_refl s(2,3), of sched es, unfolded assms(2) snd_conv]
  have "OutOmit (Inner t) = 0" "ErrOmit (Inner t) = 0"
    using d by (simp_all add: buf_ok_def)
  moreover have "BufOut (Inner t) = buf_out (Inner t) Stdout" "BufErr (Inner t) = buf_out (Inner t) Stderr"
    by (simp_all add: buf_out_def)
  ultimately have out: "stdoutString (Inner t) = capped n (stream_data (OutReads es))"
    "stderrString (Inner t) = capped n (stream_data (ErrReads es))"
    using d by (auto simp: stdoutString_def stderrString_def cappedString_def capped_def)
  have "trace_faithful emit r0 (buf_out (Inner t)) t" using d by simp
  then obtain calls where "TraceRec t = foldl emit r0 calls"
    "\<And>st. recorded st calls = buf_out (Inner t) st \<and> offsets_ok st 0 calls"
    by (auto simp: trace_faithful_def)
  with d have "\<exists>calls. TraceRec t = foldl emit r0 calls \<and>
       recorded Stdout calls = take n (stream_data (OutReads es)) \<and>
       recorded Stderr calls = take n (stream_data (ErrReads es)) \<and>
       offsets_ok Stdout 0 calls \<and> offsets_ok Stderr 0 calls"
    by (intro exI [of _ calls]) auto
  with out show ?thesis
    using streamExec_exit_code [of emit n sched es r0 "newBufferSink (int n)" t] assms(2) by auto
qed

definition sample_exec :: exec_stream where
  "sample_exec = \<lparr>OutReads = [ReadN ''ab'' More, ReadN ''cd'' More, ReadN ''e'' AtEOF],
     ErrReads = [ReadN ''x'' AtEOF], ExitCode = 0, WaitResult = Some (0, None)\<rparr>"

text \<open>A recorder whose every append fails.\<close>

theorem exec_output_bounded_witness:
  "stdoutString (Inner (snd (streamExec (traceExecSink (\<lambda>r x. r) bufferSink) 3 [Stderr, Stdout] sample_exec
      (newTraceExecSink () (newBufferSink 3))))) = ''abc'' @ byte 10 # ''[output truncated at cap]''"
proof -
  let ?r = "streamExec (traceExecSink (\<lambda>r x. r) bufferSink) 3 [Stderr, Stdout] sample_exec
      (newTraceExecSink () (newBufferSink 3))"
  have "stdoutString (Inner (snd ?r)) = capped 3 (stream_data (OutReads sample_exec))"
    using exec_output_bounded [of 3 "\<lambda>r x. r" "[Stderr, Stdout]" sample_exec "()" "fst ?r" "snd ?r"] by simp
  then show ?thesis by (simp add: capped_def sample_exec_def)
qed

subsection \<open>The input of an exec\<close>

record exec_options =
  ExecArgv :: "string list"
  Cwd :: string
  Env :: "string list"
  Writable :: "string list"

datatype exec_invalid =
  EmptyArgv | ArgvTooLong | NulInArgv | BadEnv string | NulInCwd | CwdNotAbsolute string | BadGrant string

definition has_nul :: "string \<Rightarrow> bool" where
  "has_nul s = (byte 0 \<in> set s)"

text \<open>\<^verbatim>\<open>strings.Cut(e, "=")\<close> found a separator after at least one byte.\<close>

definition env_ok :: "string \<Rightarrow> bool" where
  "env_ok e = (case str_index e ''='' of None \<Rightarrow> False | Some i \<Rightarrow> i > 0 \<and> \<not> has_nul e)"

fun check_env :: "string list \<Rightarrow> exec_invalid option" where
  "check_env [] = None"
| "check_env (e # es) = (if env_ok e then check_env es else Some (BadEnv e))"

definition under_workspace :: "string \<Rightarrow> bool" where
  "under_workspace p =
     (path_clean p = ''/workspace'' \<or> has_prefix (path_clean p) ''/workspace/'')"

fun check_grants :: "string list \<Rightarrow> exec_invalid option" where
  "check_grants [] = None"
| "check_grants (p # ps) = (if under_workspace p then check_grants ps else Some (BadGrant p))"

definition validate_exec :: "exec_options \<Rightarrow> exec_invalid option" where
  "validate_exec opts =
     (if ExecArgv opts = [] then Some EmptyArgv
      else if length (ExecArgv opts) > 4096 then Some ArgvTooLong
      else if list_ex has_nul (ExecArgv opts) then Some NulInArgv
      else case check_env (Env opts) of Some e \<Rightarrow> Some e
      | None \<Rightarrow>
          if Cwd opts \<noteq> [] \<and> has_nul (Cwd opts) then Some NulInCwd
          else if Cwd opts \<noteq> [] \<and> \<not> has_prefix (Cwd opts) ''/'' then Some (CwdNotAbsolute (Cwd opts))
          else check_grants (Writable opts))"

lemma check_env_None: "check_env es = None \<longleftrightarrow> list_all env_ok es"
  by (induction es) auto

lemma check_grants_None: "check_grants ps = None \<longleftrightarrow> list_all under_workspace ps"
  by (induction ps) auto

lemma validate_exec_None:
  "validate_exec opts = None \<longleftrightarrow>
     ExecArgv opts \<noteq> [] \<and> length (ExecArgv opts) \<le> 4096 \<and> (\<forall>a \<in> set (ExecArgv opts). \<not> has_nul a) \<and>
     list_all env_ok (Env opts) \<and> (Cwd opts = [] \<or> \<not> has_nul (Cwd opts) \<and> has_prefix (Cwd opts) ''/'') \<and>
     list_all under_workspace (Writable opts)"
  by (cases "check_env (Env opts)")
    (auto simp: validate_exec_def list_ex_iff check_env_None [symmetric] check_grants_None [symmetric] not_less)

end
