(* ===== verification/Session_Approval.thy ===== *)
theory Session_Approval
  imports Session_Exec Policy_DryRun
begin

text \<open>
  The mediated exec and its approval gates: \<^verbatim>\<open>Exec\<close>, \<^verbatim>\<open>runExec\<close> and \<^verbatim>\<open>Destroy\<close> of
  \<^verbatim>\<open>internal/session/manager.go\<close> and the gate operations of \<^verbatim>\<open>approval.go\<close>. An operation
  is cut where the code releases its locks, and the pieces are composed both in the order of
  one call and, in \<open>Session_Gates\<close>, interleaved with every other operation. The clock, the
  outcome of the runtime, the bytes of the plan file and the new exec id are inputs. The log
  holds the calls the code makes: the calls of the trace recorder, as they are made, before it
  redacts or refuses them, and the commands handed to the runtime, each with its call site.
\<close>

datatype session_state =
  StateCreating | StateReady | StateWarm | StateExecing | StateAwaitingApproval | StateEnded

record live_session =
  LState :: session_state
  LTier :: string
  LPolicy :: policy
  LPolicyHash :: string
  CredEnv :: "string list"
  LastActivity :: int
  LTTL :: int

datatype approval_status = GatePending | GateApproved | GateDenied

fun status_text :: "approval_status \<Rightarrow> string" where
  "status_text GatePending = ''pending''"
| "status_text GateApproved = ''approved''"
| "status_text GateDenied = ''denied''"

record approval =
  ASession :: string
  AExec :: string
  AArgv :: "string list"
  ACwd :: string
  AEnv :: "string list"
  ArgvSummary :: string
  ARule :: string
  AReason :: string
  APolicyHash :: string
  RequestedAt :: int
  Deadline :: int
  PreviewCmd :: string
  PreviewDiff :: string
  PreviewStatus :: string
  PlanRelPath :: string
  PlanHash :: string
  AStatus :: approval_status
  AComment :: string
  DenyReason :: string
  Ran :: bool
  AStdout :: string
  AStderr :: string
  AExitCode :: int
  RunErr :: string

text \<open>The call site a command handed to the runtime comes from.\<close>

datatype origin = DirectExec | PreviewOf string | ApprovedRun string

datatype effect =
    Emit string string "(string \<times> string) list"
  | EmitExecStart string "string list" string
  | EmitOutput string exec_output
  | EmitExecEnd string int "string option"
  | RtExec origin string "string list" "string list" string

record 'c manager =
  Live :: "string \<Rightarrow> live_session option"
  Gates :: "(string \<times> approval) list"
  Log :: "effect list"
  ChangeStore :: 'c

datatype session_error =
    InvalidExec exec_invalid
  | NotFound string
  | NotReady string session_state
  | NoRuntime string
  | PolicyDenied string string
  | PreviewBlocked string
  | ApprovalPendingError string string string string string
  | ExecFailed string
  | GateNotFound string string
  | GateResolved string string approval_status
  | InvalidDecision string

text \<open>
  What a manager is configured with: the regex engine, SHA-256 in hexadecimal, the redactor,
  the change recorder, the runtime lookup of a tier (its error, if any) and the caller's sink.
\<close>

record ('c, 's) config =
  Re :: regexp
  Sha :: "string \<Rightarrow> string"
  Redact :: "string \<Rightarrow> string"
  RecordChange :: "live_session option \<Rightarrow> string \<Rightarrow> string \<Rightarrow> string list \<Rightarrow> string list \<Rightarrow>
    decision \<Rightarrow> string \<Rightarrow> 'c \<Rightarrow> string \<times> 'c"
  ResolveRt :: "string \<Rightarrow> string option"
  DryRunEnabled :: bool
  ApprovalTTL :: int
  OutputCap :: nat
  CallerSink :: "'s exec_sink"
  CallerState :: 's

datatype exec_outcome = ExecFails string | ExecRuns exec_stream "out_stream list"

text \<open>The outside world of one operation.\<close>

record world =
  PreviewOutcome :: exec_outcome
  PlanFile :: "string + string"
  RunOutcome :: exec_outcome

definition log_all :: "'c manager \<Rightarrow> effect list \<Rightarrow> 'c manager" where
  "log_all m es = m\<lparr>Log := Log m @ es\<rparr>"

definition set_state :: "string \<Rightarrow> session_state \<Rightarrow> 'c manager \<Rightarrow> 'c manager" where
  "set_state i st m =
     (case Live m i of None \<Rightarrow> m | Some s \<Rightarrow> m\<lparr>Live := (Live m)(i \<mapsto> s\<lparr>LState := st\<rparr>)\<rparr>)"

subsection \<open>runExec\<close>

definition runExec ::
  "'s exec_sink \<Rightarrow> nat \<Rightarrow> origin \<Rightarrow> string list \<Rightarrow> string \<Rightarrow> exec_options \<Rightarrow> exec_outcome \<Rightarrow> 's \<Rightarrow>
   (string option \<times> 's) \<times> effect list" where
  "runExec k cap org cred i opts out s =
     (let start = [EmitExecStart i (ExecArgv opts) (Cwd opts),
                   RtExec org i (ExecArgv opts) (Env opts @ cred) (Cwd opts)]
      in case out of
           ExecFails e \<Rightarrow>
             ((Some (''session: exec in '' @ i @ '': '' @ e), s), start @ [EmitExecEnd i (-1) (Some e)])
         | ExecRuns es sched \<Rightarrow>
             (let (err, t) = streamExec (traceExecSink (\<lambda>l x. l @ [x]) k) cap sched es (newTraceExecSink [] s)
              in ((err, Inner t), start @ map (EmitOutput i) (TraceRec t) @ [EmitExecEnd i (TraceCode t) None])))"

definition cred_env :: "'c manager \<Rightarrow> string \<Rightarrow> string list" where
  "cred_env m i = (case Live m i of None \<Rightarrow> [] | Some s \<Rightarrow> CredEnv s)"

subsection \<open>Registering a gate\<close>

definition redactString :: "(string \<Rightarrow> string) \<Rightarrow> string \<Rightarrow> string" where
  "redactString redact s = (if s = [] then s else redact s)"

definition runPreview ::
  "('c, 's) config \<Rightarrow> string \<Rightarrow> string \<Rightarrow> exec_options \<Rightarrow> string list \<Rightarrow> exec_outcome \<Rightarrow> 'c manager \<Rightarrow>
   (string \<times> bool) \<times> 'c manager" where
  "runPreview cfg i execID opts argv out m =
     (let ((err, b), es) = runExec bufferSink (OutputCap cfg) (PreviewOf execID) (cred_env m i) i
            (opts\<lparr>ExecArgv := argv\<rparr>) out (newBufferSink (int (OutputCap cfg)));
          d = stdoutString b; e = stderrString b;
          diff = (if e = [] then d else if d = [] then e else d @ byte 10 # e)
      in ((diff, err = None \<and> BufCode b = 0), log_all m es))"

definition blockOnPreviewFailure ::
  "string \<Rightarrow> decision \<Rightarrow> string \<Rightarrow> string \<Rightarrow> string \<Rightarrow> string \<Rightarrow> 'c manager \<Rightarrow> session_error \<times> 'c manager" where
  "blockOnPreviewFailure i dcn policyHash summary previewCmd previewDiff m =
     (PreviewBlocked (Rule dcn),
      log_all m
        [Emit i ''approval.requested'' [(''argv_summary'', summary), (''rule'', Rule dcn),
           (''reason'', Reason dcn), (''preview_cmd'', previewCmd), (''preview_diff'', previewDiff),
           (''preview_status'', ''failed'')],
         Emit i ''policy.decision'' [(''decision'', ''denied''), (''rule'', Rule dcn),
           (''argv_summary'', summary), (''reason'', ''preview_failed''), (''policy_hash'', policyHash)]])"

definition approvalKey :: "string \<Rightarrow> string \<Rightarrow> string" where
  "approvalKey sessionID execID = sessionID @ ''/'' @ execID"

text \<open>What is left to do once the record is in the table: the pause and its announcement.\<close>

record pause =
  PSession :: string
  PExec :: string
  POpts :: exec_options
  PArgv :: "string list"
  PDecision :: decision
  PCmd :: string
  PDiff :: string
  PStatus :: string

datatype exec_result = ExecDone "session_error option" | ExecPaused pause

definition new_gate ::
  "('c, 's) config \<Rightarrow> string \<Rightarrow> string \<Rightarrow> exec_options \<Rightarrow> decision \<Rightarrow> string \<Rightarrow> int \<Rightarrow>
   string list \<Rightarrow> string \<Rightarrow> string \<Rightarrow> string \<Rightarrow> string \<Rightarrow> string \<Rightarrow> approval" where
  "new_gate cfg i execID opts dcn policyHash now argvToRun previewCmd previewDiff previewStatus
       planRelPath planHash =
     \<lparr>ASession = i, AExec = execID, AArgv = argvToRun, ACwd = Cwd opts, AEnv = Env opts,
      ArgvSummary = str_join '' '' (ExecArgv opts), ARule = Rule dcn, AReason = Reason dcn,
      APolicyHash = policyHash, RequestedAt = now, Deadline = now + ApprovalTTL cfg,
      PreviewCmd = previewCmd, PreviewDiff = previewDiff, PreviewStatus = previewStatus,
      PlanRelPath = planRelPath, PlanHash = planHash, AStatus = GatePending, AComment = [],
      DenyReason = [], Ran = False, AStdout = [], AStderr = [], AExitCode = 0, RunErr = []\<rparr>"

definition insert_gate ::
  "('c, 's) config \<Rightarrow> string \<Rightarrow> string \<Rightarrow> exec_options \<Rightarrow> decision \<Rightarrow> string \<Rightarrow> int \<Rightarrow>
   string list \<Rightarrow> string \<Rightarrow> string \<Rightarrow> string \<Rightarrow> string \<Rightarrow> string \<Rightarrow> 'c manager \<Rightarrow> exec_result \<times> 'c manager" where
  "insert_gate cfg i execID opts dcn policyHash now argvToRun previewCmd previewDiff previewStatus
       planRelPath planHash m =
     (ExecPaused \<lparr>PSession = i, PExec = execID, POpts = opts, PArgv = argvToRun, PDecision = dcn,
        PCmd = previewCmd, PDiff = previewDiff, PStatus = previewStatus\<rparr>,
      m\<lparr>Gates := al_put (approvalKey i execID)
          (new_gate cfg i execID opts dcn policyHash now argvToRun previewCmd previewDiff previewStatus
             planRelPath planHash) (Gates m)\<rparr>)"

text \<open>\<^verbatim>\<open>registerApproval\<close> up to the insertion of the record.\<close>

definition register_gate ::
  "('c, 's) config \<Rightarrow> string \<Rightarrow> exec_options \<Rightarrow> live_session \<Rightarrow> decision \<Rightarrow> string \<Rightarrow> int \<Rightarrow> world \<Rightarrow>
   'c manager \<Rightarrow> exec_result \<times> 'c manager" where
  "register_gate cfg i opts s dcn execID now w m =
     (let pv = RewriteForDryRun (Re cfg) (ExecArgv opts) (DryRun (LPolicy s))
                 (''/workspace/.opslify-plan-'' @ execID @ ''.tfplan'');
          summary = str_join '' '' (ExecArgv opts);
          ins = insert_gate cfg i execID opts dcn (LPolicyHash s) now
      in if \<not> DryRunEnabled cfg \<or> \<not> Matched pv then ins (ExecArgv opts) [] [] ''none'' [] [] m
         else
           let previewCmd = str_join '' '' (PreviewArgv pv);
               ((diff, ok), m1) = runPreview cfg i execID opts (PreviewArgv pv) (PreviewOutcome w) m;
               previewDiff = redactString (Redact cfg) diff;
               block = (\<lambda>d. let (e, m2) = blockOnPreviewFailure i dcn (LPolicyHash s) summary previewCmd d m1
                            in (ExecDone (Some e), m2))
           in if ok then
                if Guarantee pv = GuaranteeSavedPlan then
                  (case PlanFile w of
                     Inl e \<Rightarrow> block (redactString (Redact cfg) (''saved plan unreadable after preview: '' @ e))
                   | Inr b \<Rightarrow> ins (ApprovedArgv pv) previewCmd previewDiff ''ok''
                                (''.opslify-plan-'' @ execID @ ''.tfplan'') (Sha cfg b) m1)
                else ins (ApprovedArgv pv) previewCmd previewDiff ''ok'' [] [] m1
              else if DryRunWarnOnFailure (LPolicy s)
              then ins (ExecArgv opts) previewCmd previewDiff ''failed'' [] [] m1
              else block previewDiff)"

text \<open>The rest of \<^verbatim>\<open>registerApproval\<close>: the session is paused and the gate announced.\<close>

definition restore_exec :: "string \<Rightarrow> int \<Rightarrow> 'c manager \<Rightarrow> 'c manager" where
  "restore_exec i now m =
     (case Live m i of None \<Rightarrow> m
      | Some s \<Rightarrow> if LState s = StateExecing
          then m\<lparr>Live := (Live m)(i \<mapsto> s\<lparr>LState := StateReady, LastActivity := now\<rparr>)\<rparr> else m)"

definition exec_pause :: "('c, 's) config \<Rightarrow> pause \<Rightarrow> int \<Rightarrow> 'c manager \<Rightarrow> session_error \<times> 'c manager" where
  "exec_pause cfg p now m =
     (let i = PSession p; dcn = PDecision p; summary = str_join '' '' (ExecArgv (POpts p));
          m1 = (case Live m i of
                  Some s \<Rightarrow> if LState s = StateExecing then set_state i StateAwaitingApproval m else m
                | None \<Rightarrow> m);
          (changeID, c) = RecordChange cfg (Live m1 i) i (PExec p) (ExecArgv (POpts p)) (PArgv p) dcn
                            (PDiff p) (ChangeStore m1);
          m2 = log_all (m1\<lparr>ChangeStore := c\<rparr>)
            [Emit i ''approval.requested'' [(''exec_id'', PExec p), (''argv_summary'', summary),
               (''rule'', Rule dcn), (''reason'', Reason dcn), (''preview_cmd'', PCmd p),
               (''preview_diff'', PDiff p), (''preview_status'', PStatus p), (''change_id'', changeID)]]
      in (ApprovalPendingError i (PExec p) (Rule dcn) (Reason dcn) summary, restore_exec i now m2))"

subsection \<open>Exec\<close>

definition exec_begin ::
  "('c, 's) config \<Rightarrow> string \<Rightarrow> exec_options \<Rightarrow> 'c manager \<Rightarrow> (session_error + live_session) \<times> 'c manager" where
  "exec_begin cfg i opts m =
     (case validate_exec opts of Some e \<Rightarrow> (Inl (InvalidExec e), m)
      | None \<Rightarrow>
          (case Live m i of None \<Rightarrow> (Inl (NotFound i), m)
           | Some s \<Rightarrow>
               if LState s \<noteq> StateReady then (Inl (NotReady i (LState s)), m)
               else case ResolveRt cfg (LTier s) of
                 Some e \<Rightarrow> (Inl (NoRuntime e), m)
               | None \<Rightarrow> (Inr s, set_state i StateExecing m)))"

fun verdict_text :: "verdict \<Rightarrow> string" where
  "verdict_text VerdictAllow = ''allow''"
| "verdict_text VerdictDeny = ''deny''"
| "verdict_text VerdictNeedsApproval = ''needs_approval''"

definition exec_decide ::
  "('c, 's) config \<Rightarrow> string \<Rightarrow> exec_options \<Rightarrow> live_session \<Rightarrow> string \<Rightarrow> int \<Rightarrow> world \<Rightarrow> 'c manager \<Rightarrow>
   exec_result \<times> 'c manager" where
  "exec_decide cfg i opts s execID now w m =
     (let dcn = Classify (Re cfg) (LPolicy s) (ExecArgv opts);
          m1 = log_all m [Emit i ''policy.decision'' [(''decision'', verdict_text (Verdict dcn)),
                 (''rule'', Rule dcn), (''argv_summary'', str_join '' '' (ExecArgv opts)),
                 (''policy_hash'', LPolicyHash s)]]
      in case Verdict dcn of
           VerdictDeny \<Rightarrow> (ExecDone (Some (PolicyDenied (Reason dcn) (Rule dcn))), restore_exec i now m1)
         | VerdictNeedsApproval \<Rightarrow>
             (case register_gate cfg i opts s dcn execID now w m1 of
                (ExecDone r, m2) \<Rightarrow> (ExecDone r, restore_exec i now m2)
              | (ExecPaused p, m2) \<Rightarrow> (ExecPaused p, m2))
         | VerdictAllow \<Rightarrow>
             (let ((err, snk), es) = runExec (CallerSink cfg) (OutputCap cfg) DirectExec (cred_env m1 i) i opts
                    (RunOutcome w) (CallerState cfg)
              in (ExecDone (map_option ExecFailed err), restore_exec i now (log_all m1 es))))"

text \<open>One call of \<^verbatim>\<open>Exec\<close> that nothing interleaves with.\<close>

definition Exec ::
  "('c, 's) config \<Rightarrow> string \<Rightarrow> exec_options \<Rightarrow> string \<Rightarrow> int \<Rightarrow> world \<Rightarrow> 'c manager \<Rightarrow>
   session_error option \<times> 'c manager" where
  "Exec cfg i opts execID now w m =
     (case exec_begin cfg i opts m of
        (Inl e, m1) \<Rightarrow> (Some e, m1)
      | (Inr s, m1) \<Rightarrow>
          (case exec_decide cfg i opts s execID now w m1 of
             (ExecDone r, m2) \<Rightarrow> (r, m2)
           | (ExecPaused p, m2) \<Rightarrow> (let (e, m3) = exec_pause cfg p now m2 in (Some e, m3))))"

subsection \<open>Resolving a gate\<close>

definition claimPending ::
  "string \<Rightarrow> string \<Rightarrow> approval_status \<Rightarrow> string \<Rightarrow> string \<Rightarrow> 'c manager \<Rightarrow>
   (session_error + approval) \<times> 'c manager" where
  "claimPending sid eid to comment denyReason m =
     (case map_of (Gates m) (approvalKey sid eid) of
        None \<Rightarrow> (Inl (GateNotFound sid eid), m)
      | Some a \<Rightarrow>
          if AStatus a \<noteq> GatePending then (Inl (GateResolved sid eid (AStatus a)), m)
          else let a' = a\<lparr>AStatus := to, AComment := comment, DenyReason := denyReason\<rparr>
               in (Inr a', m\<lparr>Gates := al_put (approvalKey sid eid) a' (Gates m)\<rparr>))"

definition resolution :: "approval \<Rightarrow> string \<Rightarrow> effect" where
  "resolution a verdict =
     Emit (ASession a) ''policy.decision''
       ([(''decision'', verdict), (''rule'', ARule a), (''argv_summary'', ArgvSummary a),
         (''comment'', AComment a), (''policy_hash'', APolicyHash a), (''exec_id'', AExec a)] @
        (if DenyReason a \<noteq> [] then [(''reason'', DenyReason a)] else []))"

definition emitResolution :: "approval \<Rightarrow> string \<Rightarrow> 'c manager \<Rightarrow> 'c manager" where
  "emitResolution a verdict m = log_all m [resolution a verdict]"

definition restoreReady :: "string \<Rightarrow> int \<Rightarrow> 'c manager \<Rightarrow> 'c manager" where
  "restoreReady i now m =
     (case Live m i of None \<Rightarrow> m
      | Some s \<Rightarrow> if LState s = StateAwaitingApproval
          then m\<lparr>Live := (Live m)(i \<mapsto> s\<lparr>LState := StateReady, LastActivity := now\<rparr>)\<rparr> else m)"

text \<open>
  The fields of a gate's record are set through its pointer: the table shows them as long as it
  holds that record, which is gone once its session has ended.
\<close>

definition store_run :: "approval \<Rightarrow> 'c manager \<Rightarrow> 'c manager" where
  "store_run a m =
     (case map_of (Gates m) (approvalKey (ASession a) (AExec a)) of None \<Rightarrow> m
      | Some b \<Rightarrow> if AExec b = AExec a
          then m\<lparr>Gates := al_put (approvalKey (ASession a) (AExec a)) a (Gates m)\<rparr> else m)"

definition run_failed :: "approval \<Rightarrow> string \<Rightarrow> approval" where
  "run_failed a e = a\<lparr>RunErr := e, AExitCode := -1, Ran := True\<rparr>"

definition plan_intact :: "('c, 's) config \<Rightarrow> approval \<Rightarrow> string + string \<Rightarrow> bool" where
  "plan_intact cfg a file =
     (PlanHash a = [] \<or> (case file of Inl e \<Rightarrow> False | Inr b \<Rightarrow> Sha cfg b = PlanHash a))"

definition tampered :: "approval \<Rightarrow> effect" where
  "tampered a = Emit (ASession a) ''policy.decision'' [(''decision'', ''denied''), (''rule'', ARule a),
     (''reason'', ''plan_tampered''), (''exec_id'', AExec a), (''policy_hash'', APolicyHash a)]"

definition runApproved ::
  "('c, 's) config \<Rightarrow> approval \<Rightarrow> int \<Rightarrow> world \<Rightarrow> 'c manager \<Rightarrow> approval \<times> 'c manager" where
  "runApproved cfg a now w m =
     (let i = ASession a; fail = (\<lambda>e m'. (run_failed a e, store_run (run_failed a e) m'))
      in case Live m i of
           None \<Rightarrow> fail ''session ended before approval could run'' m
         | Some s \<Rightarrow>
             if LState s \<noteq> StateAwaitingApproval \<and> LState s \<noteq> StateReady
             then fail ''session ended before approval could run'' m
             else case ResolveRt cfg (LTier s) of
               Some e \<Rightarrow> fail e m
             | None \<Rightarrow>
                 if \<not> plan_intact cfg a (PlanFile w)
                 then fail ''saved plan changed after review (tamper detected); apply refused''
                        (log_all (set_state i StateReady m) [tampered a])
                 else
                   let ((err, b), es) = runExec bufferSink (OutputCap cfg) (ApprovedRun (AExec a)) (CredEnv s) i
                          \<lparr>ExecArgv = AArgv a, Cwd = ACwd a, Env = AEnv a, Writable = []\<rparr>
                          (RunOutcome w) (newBufferSink (int (OutputCap cfg)));
                       a' = a\<lparr>Ran := True, AStdout := stdoutString b, AStderr := stderrString b,
                              AExitCode := BufCode b, RunErr := (case err of None \<Rightarrow> [] | Some e \<Rightarrow> e)\<rparr>
                   in (a', store_run a' (restore_exec i now (log_all (set_state i StateExecing m) es))))"

text \<open>The claim of \<^verbatim>\<open>ResolveApproval\<close>; on approval the run follows as a step of its own.\<close>

definition resolve_claim ::
  "string \<Rightarrow> string \<Rightarrow> string \<Rightarrow> string \<Rightarrow> int \<Rightarrow> 'c manager \<Rightarrow> (session_error + approval) \<times> 'c manager" where
  "resolve_claim sid eid dcn comment now m =
     (if dcn = ''approve'' then
        (case claimPending sid eid GateApproved comment [] m of
           (Inl e, m1) \<Rightarrow> (Inl e, m1)
         | (Inr a, m1) \<Rightarrow> (Inr a, emitResolution a ''approved'' m1))
      else if dcn = ''deny'' then
        (case claimPending sid eid GateDenied comment ''operator'' m of
           (Inl e, m1) \<Rightarrow> (Inl e, m1)
         | (Inr a, m1) \<Rightarrow> (Inr a, restoreReady sid now (emitResolution a ''denied'' m1)))
      else (Inl (InvalidDecision dcn), m))"

definition ResolveApproval ::
  "('c, 's) config \<Rightarrow> string \<Rightarrow> string \<Rightarrow> string \<Rightarrow> string \<Rightarrow> int \<Rightarrow> world \<Rightarrow> 'c manager \<Rightarrow>
   (session_error + approval) \<times> 'c manager" where
  "ResolveApproval cfg sid eid dcn comment now w m =
     (case resolve_claim sid eid dcn comment now m of
        (Inl e, m1) \<Rightarrow> (Inl e, m1)
      | (Inr a, m1) \<Rightarrow>
          if dcn = ''approve'' then (let (a', m2) = runApproved cfg a now w m1 in (Inr a', m2))
          else (Inr a, m1))"

subsection \<open>Timeout and the end of a session\<close>

definition due_gates :: "int \<Rightarrow> 'c manager \<Rightarrow> approval list" where
  "due_gates now m = filter (\<lambda>a. AStatus a = GatePending \<and> Deadline a \<le> now) (map snd (Gates m))"

fun expire_each :: "int \<Rightarrow> approval list \<Rightarrow> 'c manager \<Rightarrow> string list \<times> 'c manager" where
  "expire_each now [] m = ([], m)"
| "expire_each now (a # as) m =
     (case claimPending (ASession a) (AExec a) GateDenied [] ''timeout'' m of
        (Inl e, m1) \<Rightarrow> expire_each now as m1
      | (Inr res, m1) \<Rightarrow>
          (let (ids, m2) = expire_each now as (restoreReady (ASession res) now (emitResolution res ''denied'' m1))
           in (AExec a # ids, m2)))"

definition ExpireApprovals :: "int \<Rightarrow> 'c manager \<Rightarrow> string list \<times> 'c manager" where
  "ExpireApprovals now m = expire_each now (due_gates now m) m"

definition cancelSessionApprovals :: "string \<Rightarrow> string \<Rightarrow> 'c manager \<Rightarrow> 'c manager" where
  "cancelSessionApprovals i reason m =
     (let owned = filter (\<lambda>a. ASession a = i) (map snd (Gates m))
      in log_all (m\<lparr>Gates := filter (\<lambda>(k, a). ASession a \<noteq> i) (Gates m)\<rparr>)
           (map (\<lambda>a. resolution (a\<lparr>AStatus := GateDenied, DenyReason := reason\<rparr>) ''denied'')
              (filter (\<lambda>a. AStatus a = GatePending) owned)))"

text \<open>
  \<^verbatim>\<open>Destroy\<close> as far as gates and the trace are concerned; the seal of the log is
  \<open>Trace_Sink\<close>, and the sandbox, its listeners and its files are outside the model.
\<close>

definition teardown :: "string \<Rightarrow> string \<Rightarrow> 'c manager \<Rightarrow> 'c manager" where
  "teardown i reason m =
     log_all (cancelSessionApprovals i ''session_end'' m) [Emit i ''session.end'' [(''reason'', reason)]]"

definition Destroy :: "string \<Rightarrow> 'c manager \<Rightarrow> session_error option \<times> 'c manager" where
  "Destroy i m =
     (case Live m i of None \<Rightarrow> (Some (NotFound i), m)
      | Some s \<Rightarrow> (None, teardown i ''destroyed'' (m\<lparr>Live := (Live m)(i := None)\<rparr>)))"

text \<open>
  The reaper and the shutdown walk over the table of sessions in the order \<open>ids\<close>; sessions that
  are executing or wait for a human are not reaped.
\<close>

definition expired :: "int \<Rightarrow> live_session \<Rightarrow> bool" where
  "expired now s = (LTTL s > 0 \<and> LastActivity s + LTTL s \<le> now)"

definition reap_due :: "int \<Rightarrow> string list \<Rightarrow> 'c manager \<Rightarrow> string list" where
  "reap_due now ids m = filter (\<lambda>i. case Live m i of None \<Rightarrow> False
     | Some s \<Rightarrow> LState s \<noteq> StateExecing \<and> LState s \<noteq> StateAwaitingApproval \<and> expired now s) ids"

definition drop_sessions :: "string list \<Rightarrow> 'c manager \<Rightarrow> 'c manager" where
  "drop_sessions ids m = m\<lparr>Live := (\<lambda>i. if i \<in> set ids then None else Live m i)\<rparr>"

fun teardown_all :: "string \<Rightarrow> string list \<Rightarrow> 'c manager \<Rightarrow> 'c manager" where
  "teardown_all reason [] m = m"
| "teardown_all reason (i # is) m = teardown_all reason is (teardown i reason m)"

definition ReapExpired :: "int \<Rightarrow> string list \<Rightarrow> 'c manager \<Rightarrow> string list \<times> 'c manager" where
  "ReapExpired now ids m =
     (let due = reap_due now ids m in (due, teardown_all ''ttl'' due (drop_sessions due m)))"

definition Shutdown :: "string list \<Rightarrow> 'c manager \<Rightarrow> 'c manager" where
  "Shutdown ids m =
     (let live = filter (\<lambda>i. Live m i \<noteq> None) ids
      in teardown_all ''shutdown'' live (drop_sessions live m))"

definition ListApprovals :: "'c manager \<Rightarrow> approval list" where
  "ListApprovals m =
     sort_key (\<lambda>a. (RequestedAt a, AExec a)) (filter (\<lambda>a. AStatus a = GatePending) (map snd (Gates m)))"

definition GetApproval :: "string \<Rightarrow> string \<Rightarrow> 'c manager \<Rightarrow> session_error + approval" where
  "GetApproval sid eid m =
     (case map_of (Gates m) (approvalKey sid eid) of None \<Rightarrow> Inl (GateNotFound sid eid) | Some a \<Rightarrow> Inr a)"

end
