(* ===== verification/Session_Gates.thy ===== *)
theory Session_Gates
  imports Session_Approval
begin

text \<open>
  The gates under concurrency. A call of \<^verbatim>\<open>Exec\<close> or of an approval is a sequence of sections
  between which any other operation may run; the sections that are still to run are the tasks
  of the system. The theorems say what the log can show of one gate, where every command that
  reaches the runtime comes from, and what a timeout and the end of a session leave behind.
\<close>

subsection \<open>What the log shows of one gate\<close>

datatype gate_event = GPreview | GApproved | GDenied | GTampered | GRun

fun gate_effect :: "string \<Rightarrow> effect \<Rightarrow> gate_event list" where
  "gate_effect e (RtExec (ApprovedRun e') i argv env cwd) = (if e' = e then [GRun] else [])"
| "gate_effect e (RtExec (PreviewOf e') i argv env cwd) = (if e' = e then [GPreview] else [])"
| "gate_effect e (Emit i t pl) =
     (if t = ''policy.decision'' \<and> map_of pl ''exec_id'' = Some e
      then (if map_of pl ''decision'' = Some ''approved'' then [GApproved]
            else if map_of pl ''reason'' = Some ''plan_tampered'' then [GTampered] else [GDenied])
      else [])"
| "gate_effect e x = []"

definition gate_history :: "string \<Rightarrow> effect list \<Rightarrow> gate_event list" where
  "gate_history e l = concat (map (gate_effect e) l)"

text \<open>
  The protocol: at most one preview before the decision, then one decision at most; a run only
  after an approval whose plan was intact.
\<close>

definition outcomes :: "gate_event list set" where
  "outcomes = {[], [GDenied], [GApproved], [GApproved, GRun], [GApproved, GTampered]}"

definition valid_history :: "gate_event list \<Rightarrow> bool" where
  "valid_history h \<longleftrightarrow> h \<in> outcomes \<or> (\<exists>t \<in> outcomes. h = GPreview # t)"

definition decided :: "string \<Rightarrow> effect list \<Rightarrow> gate_event list" where
  "decided e l = filter (\<lambda>x. x \<noteq> GPreview) (gate_history e l)"

lemma gate_history_simps [simp]:
  "gate_history e [] = []" "gate_history e (x # l) = gate_effect e x @ gate_history e l"
  "gate_history e (l @ m) = gate_history e l @ gate_history e m"
  by (simp_all add: gate_history_def)

lemma decided_append [simp]: "decided e (l @ m) = decided e l @ decided e m"
  by (simp add: decided_def)

lemma history_output [simp]: "gate_history e (map (EmitOutput i) xs) = []"
  by (induction xs) auto

lemma valid_history_cases:
  "valid_history h \<Longrightarrow>
     h = filter (\<lambda>x. x \<noteq> GPreview) h \<or> h = GPreview # filter (\<lambda>x. x \<noteq> GPreview) h"
  by (auto simp: valid_history_def outcomes_def)

lemma valid_history_extend:
  assumes "valid_history h" "filter (\<lambda>x. x \<noteq> GPreview) h @ t \<in> outcomes" "GPreview \<notin> set t"
  shows "valid_history (h @ t)"
  using valid_history_cases [OF assms(1)] assms(2)
  by (metis append_Cons valid_history_def)

lemma valid_history_simps [simp]: "valid_history []" "valid_history [GPreview]"
  by (simp_all add: valid_history_def outcomes_def)

text \<open>The effects of one run of a command.\<close>

lemma runExec_history:
  "runExec k cap org cred i opts out s = (r, es) \<Longrightarrow>
     gate_history e es = gate_effect e (RtExec org i (ExecArgv opts) (Env opts @ cred) (Cwd opts))"
  by (auto simp: runExec_def Let_def split: exec_outcome.splits prod.splits)

lemma resolution_history:
  "gate_effect e (resolution a ''approved'') = (if e = AExec a then [GApproved] else [])"
  "DenyReason a \<noteq> ''plan_tampered'' \<Longrightarrow>
     gate_effect e (resolution a ''denied'') = (if e = AExec a then [GDenied] else [])"
  by (auto simp: resolution_def)

lemma tampered_history: "gate_effect e (tampered a) = (if e = AExec a then [GTampered] else [])"
  by (simp add: tampered_def)

subsection \<open>The table of gates\<close>

abbreviation gate_ids :: "(string \<times> approval) list \<Rightarrow> string list" where
  "gate_ids G \<equiv> map (\<lambda>x. AExec (snd x)) G"

lemma al_put_replace:
  assumes "map_of G k = Some a" "AExec a' = AExec a"
  shows "gate_ids (al_put k a' G) = gate_ids G"
  using assms by (induction k a' G rule: al_put.induct) (auto split: if_splits)

lemma al_put_set:
  assumes "distinct (map fst G)"
  shows "set (al_put k a G) = insert (k, a) {x \<in> set G. fst x \<noteq> k}"
  using assms by (induction k a G rule: al_put.induct) (auto simp: rev_image_eqI)

lemma al_put_ids: "x \<in> set (al_put k a G) \<Longrightarrow> x = (k, a) \<or> x \<in> set G"
  by (induction k a G rule: al_put.induct) (auto split: if_splits)

lemma al_put_fresh:
  assumes "AExec a \<notin> set (gate_ids G)" "distinct (gate_ids G)"
  shows "distinct (gate_ids (al_put k a G))"
  using assms by (induction k a G rule: al_put.induct) (auto dest!: al_put_ids)

text \<open>
  The invariant, over the ids in use \<open>U\<close>, the approved gates whose run is due \<open>R\<close>, the table \<open>G\<close>
  and the log \<open>L\<close>.
\<close>

definition gate_ok :: "string set \<Rightarrow> string list \<Rightarrow> effect list \<Rightarrow> string \<times> approval \<Rightarrow> bool" where
  "gate_ok U R L = (\<lambda>(k, a). k = approvalKey (ASession a) (AExec a) \<and> AExec a \<in> U \<and>
     (AStatus a = GatePending \<longrightarrow> decided (AExec a) L = [] \<and> AExec a \<notin> set R))"

definition gates_inv ::
  "string set \<Rightarrow> string list \<Rightarrow> (string \<times> approval) list \<Rightarrow> effect list \<Rightarrow> bool" where
  "gates_inv U R G L \<longleftrightarrow>
     (\<forall>x \<in> set G. gate_ok U R L x) \<and> distinct (map fst G) \<and> distinct (gate_ids G) \<and> distinct R \<and>
     (\<forall>e \<in> set R. e \<in> U \<and> decided e L = [GApproved]) \<and>
     (\<forall>e. e \<notin> U \<longrightarrow> gate_history e L = []) \<and> (\<forall>e. valid_history (gate_history e L))"

lemma decided_quiet: "gate_history e es = [] \<Longrightarrow> decided e es = []"
  by (simp add: decided_def)

lemma gates_inv_quiet:
  assumes "gates_inv U R G L" "\<And>e. gate_history e es = []"
  shows "gates_inv U R G (L @ es)"
  using assms by (auto simp: gates_inv_def gate_ok_def decided_quiet)

lemma gates_inv_use: "gates_inv U R G L \<Longrightarrow> gates_inv (insert e U) R G L"
  by (auto simp: gates_inv_def gate_ok_def)

lemma gates_inv_lookup:
  assumes "gates_inv U R G L" "map_of G k = Some a"
  shows "gate_ok U R L (k, a)"
  using assms by (auto simp: gates_inv_def dest!: map_of_SomeD)

text \<open>A new gate, after at most one preview.\<close>

lemma gates_inv_preview:
  assumes "gates_inv U R G L" "e \<notin> U"
    and "\<And>e'. gate_history e' es = (if e' = e then h else [])" "h = [] \<or> h = [GPreview]"
  shows "gates_inv (insert e U) R G (L @ es)"
proof -
  from assms(1,2) have e: "gate_history e L = []" "e \<notin> set R" "\<forall>x \<in> set G. AExec (snd x) \<noteq> e"
    by (auto simp: gates_inv_def gate_ok_def)
  have d: "decided e' es = []" for e'
    using assms(3,4) by (auto simp: decided_def)
  show ?thesis
    using assms e by (auto simp: gates_inv_def gate_ok_def d)
qed

lemma gates_inv_insert:
  assumes inv: "gates_inv U R G L" and e: "AExec a \<in> U" "AExec a \<notin> set (gate_ids G)"
    "decided (AExec a) L = []" "AExec a \<notin> set R" and k: "k = approvalKey (ASession a) (AExec a)"
  shows "gates_inv U R (al_put k a G) L"
proof -
  have "\<forall>x \<in> set (al_put k a G). gate_ok U R L x"
    using inv e k by (auto simp: al_put_set gates_inv_def gate_ok_def)
  with inv al_put_fresh [OF e(2)] distinct_al_put show ?thesis by (auto simp: gates_inv_def)
qed

text \<open>A pending gate is decided; its id joins the runs that are due when it was approved.\<close>

lemma gates_inv_decide:
  assumes inv: "gates_inv U R G L" and a: "map_of G k = Some a" "AStatus a = GatePending"
    and a': "AExec a' = AExec a" "ASession a' = ASession a" "AStatus a' \<noteq> GatePending"
    and x: "\<And>e. gate_effect e x = (if e = AExec a then [g] else [])"
    and g: "g = GDenied \<and> R' = R \<or> g = GApproved \<and> R' = AExec a # R"
  shows "gates_inv U R' (al_put k a' G) (L @ [x])"
proof -
  have ok: "gate_ok U R L (k, a)" by (rule gates_inv_lookup [OF inv a(1)])
  with a(2) have d: "decided (AExec a) L = []" "AExec a \<notin> set R" "AExec a \<in> U"
    "k = approvalKey (ASession a) (AExec a)"
    by (auto simp: gate_ok_def)
  have other: "decided e (L @ [x]) = decided e L" if "e \<noteq> AExec a" for e
    using x that by (simp add: decided_def)
  have self: "decided (AExec a) (L @ [x]) = [g]" using x d(1) g by (auto simp: decided_def)
  have ids: "b = a" if "(k', b) \<in> set G" "AExec b = AExec a" for k' b
  proof -
    from inv have "distinct (gate_ids G)" by (simp add: gates_inv_def)
    then have "inj_on (\<lambda>x. AExec (snd x)) (set G)" by (simp add: distinct_map)
    from inj_onD [OF this, of "(k', b)" "(k, a)"] that map_of_SomeD [OF a(1)] show ?thesis by auto
  qed
  have keys: "distinct (map fst G)" using inv by (simp add: gates_inv_def)
  have "\<forall>y \<in> set (al_put k a' G). gate_ok U R' (L @ [x]) y"
  proof
    fix y assume "y \<in> set (al_put k a' G)"
    then have "y = (k, a') \<or> y \<in> set G \<and> fst y \<noteq> k" by (simp add: al_put_set [OF keys])
    then consider "y = (k, a')" | k' b where "y = (k', b)" "(k', b) \<in> set G" "k' \<noteq> k"
      by (cases y) auto
    then show "gate_ok U R' (L @ [x]) y"
    proof cases
      case 1
      then show ?thesis using a' d by (simp add: gate_ok_def)
    next
      case (2 k' b)
      have ne: "AExec b \<noteq> AExec a"
        using ids [of k' b] 2 inv d(4) by (force simp: gates_inv_def gate_ok_def)
      have "gate_ok U R L (k', b)" using inv 2 by (simp add: gates_inv_def)
      then show ?thesis using ne other 2 g by (auto simp: gate_ok_def)
    qed
  qed
  moreover have "valid_history (gate_history e (L @ [x]))" for e
  proof (cases "e = AExec a")
    case True
    have "gate_history e (L @ [x]) = gate_history e L @ [g]" using x True by simp
    moreover have "valid_history (gate_history e L @ [g])"
      using inv d(1) True g
      by (intro valid_history_extend) (auto simp: gates_inv_def decided_def outcomes_def)
    ultimately show ?thesis by simp
  next
    case False
    with inv x show ?thesis by (simp add: gates_inv_def)
  qed
  moreover have "\<forall>e \<in> set R'. e \<in> U \<and> decided e (L @ [x]) = [GApproved]"
    using inv g d self other by (auto simp: gates_inv_def) (metis, metis)
  ultimately show ?thesis
    using inv d g x al_put_replace [OF a(1) a'(1)] distinct_al_put [OF keys]
    by (auto simp: gates_inv_def)
qed

text \<open>A due run is over: with a run, with a refused plan, or without a trace.\<close>

lemma gates_inv_run:
  assumes inv: "gates_inv U R G L" and e: "e \<in> set R"
    and es: "\<And>e'. gate_history e' es = (if e' = e then h else [])" "h = [] \<or> h = [GTampered] \<or> h = [GRun]"
  shows "gates_inv U (remove1 e R) G (L @ es)"
proof -
  have d: "decided e L = [GApproved]" "e \<in> U" "distinct R" using inv e by (auto simp: gates_inv_def)
  have other: "decided e' (L @ es) = decided e' L" if "e' \<noteq> e" for e'
    using es(1) that by (simp add: decided_def)
  have "\<forall>x \<in> set G. gate_ok U (remove1 e R) (L @ es) x"
  proof
    fix x assume x: "x \<in> set G"
    then have "gate_ok U R L x" using inv by (simp add: gates_inv_def)
    moreover from this d(1) e have "AStatus (snd x) = GatePending \<Longrightarrow> AExec (snd x) \<noteq> e"
      by (auto simp: gate_ok_def)
    ultimately show "gate_ok U (remove1 e R) (L @ es) x"
      using other set_remove1_subset [of e R] by (auto simp: gate_ok_def)
  qed
  moreover have "valid_history (gate_history e' (L @ es))" for e'
  proof (cases "e' = e")
    case True
    have "valid_history (gate_history e L @ h)"
      using inv d(1) es(2)
      by (intro valid_history_extend) (auto simp: gates_inv_def decided_def outcomes_def)
    with True es(1) show ?thesis by simp
  next
    case False
    with inv es(1) show ?thesis by (simp add: gates_inv_def)
  qed
  ultimately show ?thesis
    using inv d es other by (auto simp: gates_inv_def)
qed

text \<open>The record of a gate that is no longer pending is written back.\<close>

lemma gates_inv_store:
  assumes inv: "gates_inv U R G L" and b: "map_of G k = Some b" "AExec b = AExec a"
    and a: "AStatus a \<noteq> GatePending" "k = approvalKey (ASession a) (AExec a)"
  shows "gates_inv U R (al_put k a G) L"
proof -
  have keys: "distinct (map fst G)" using inv by (simp add: gates_inv_def)
  have "gate_ok U R L (k, b)" by (rule gates_inv_lookup [OF inv b(1)])
  with a b(2) have "gate_ok U R L (k, a)" by (auto simp: gate_ok_def)
  then have "\<forall>x \<in> set (al_put k a G). gate_ok U R L x"
    using inv by (auto simp: al_put_set [OF keys] gates_inv_def)
  then show ?thesis
    using inv al_put_replace [OF b(1), of a] b(2) distinct_al_put [OF keys]
    by (simp add: gates_inv_def)
qed

text \<open>Gates are dropped, the pending ones among them denied.\<close>

lemma gates_inv_cancel:
  assumes inv: "gates_inv U R G L"
    and es: "\<And>e. gate_history e es =
      (if \<exists>(k, a) \<in> set G. AExec a = e \<and> P a \<and> AStatus a = GatePending then [GDenied] else [])"
  shows "gates_inv U R (filter (\<lambda>(k, a). \<not> P a) G) (L @ es)"
proof -
  have inj: "inj_on (\<lambda>x. AExec (snd x)) (set G)" using inv by (simp add: gates_inv_def distinct_map)
  have kept: "gate_history (AExec a) es = []" if a: "(k, a) \<in> set G" "\<not> P a" for k a
  proof -
    have "b = a" if "(k', b) \<in> set G" "AExec b = AExec a" for k' b
      using inj_onD [OF inj, of "(k', b)" "(k, a)"] that a(1) by simp
    with a(2) show ?thesis by (auto simp: es)
  qed
  have due: "gate_history e es = []" if "e \<in> set R" for e
    using inv that by (auto simp: es gates_inv_def gate_ok_def)
  have "\<forall>x \<in> set (filter (\<lambda>(k, a). \<not> P a) G). gate_ok U R (L @ es) x"
    using inv kept by (fastforce simp: gates_inv_def gate_ok_def decided_quiet)
  moreover have "valid_history (gate_history e (L @ es))" for e
  proof (cases "gate_history e es = []")
    case True
    with inv show ?thesis by (simp add: gates_inv_def)
  next
    case False
    then obtain k a where a: "(k, a) \<in> set G" "AExec a = e" "AStatus a = GatePending"
      "gate_history e es = [GDenied]"
      by (auto simp: es split: if_splits)
    then have "decided e L = []" using inv by (auto simp: gates_inv_def gate_ok_def)
    then have "valid_history (gate_history e L @ [GDenied])"
      using inv by (intro valid_history_extend) (auto simp: gates_inv_def decided_def outcomes_def)
    with a(4) show ?thesis by simp
  qed
  moreover have "gate_history e (L @ es) = []" if "e \<notin> U" for e
    using inv that by (auto simp: es gates_inv_def gate_ok_def)
  moreover have "distinct (map fst (filter (\<lambda>(k, a). \<not> P a) G))"
    "distinct (gate_ids (filter (\<lambda>(k, a). \<not> P a) G))"
    using inv by (auto simp: gates_inv_def distinct_map intro: inj_on_subset)
  ultimately show ?thesis using inv due by (auto simp: gates_inv_def decided_quiet)
qed

subsection \<open>The system\<close>

datatype task = ExecTask string exec_options live_session | PauseTask pause | RunTask approval

record 'c sys =
  Mgr :: "'c manager"
  Tasks :: "task list"
  Used :: "string set"

fun run_ids :: "task list \<Rightarrow> string list" where
  "run_ids [] = []"
| "run_ids (RunTask a # ts) = AExec a # run_ids ts"
| "run_ids (t # ts) = run_ids ts"

definition init_sys :: "'c \<Rightarrow> 'c sys" where
  "init_sys c = \<lparr>Mgr = \<lparr>Live = (\<lambda>_. None), Gates = [], Log = [], ChangeStore = c\<rparr>, Tasks = [], Used = {}\<rparr>"

text \<open>
  One section of one operation. A session \<open>i\<close> is created with a policy that \<open>P i\<close> admits; an exec
  id is 128 random bits, so an id that was used before does not come back.
  \<open>exec_done\<close>, \<open>exec_gate\<close>, \<open>run\<close> and \<open>destroy\<close> are single steps although the source releases its
  lock inside them: between the classification and the end of a command, between the claim of a
  run and its end, and between the removal of a session and the cancellation of its gates.
\<close>

inductive sys_step :: "('c, 's) config \<Rightarrow> (string \<Rightarrow> policy \<Rightarrow> bool) \<Rightarrow> 'c sys \<Rightarrow> 'c sys \<Rightarrow> bool"
  for cfg :: "('c, 's) config" and P :: "string \<Rightarrow> policy \<Rightarrow> bool"
where
  create: "\<lbrakk>Live (Mgr \<sigma>) i = None; LState s = StateReady; P i (LPolicy s)\<rbrakk> \<Longrightarrow>
    sys_step cfg P \<sigma> (\<sigma>\<lparr>Mgr := (Mgr \<sigma>)\<lparr>Live := (Live (Mgr \<sigma>))(i \<mapsto> s)\<rparr>\<rparr>)"
| exec_start: "exec_begin cfg i opts (Mgr \<sigma>) = (Inr s, m) \<Longrightarrow>
    sys_step cfg P \<sigma> (\<sigma>\<lparr>Mgr := m, Tasks := ExecTask i opts s # Tasks \<sigma>\<rparr>)"
| exec_done: "\<lbrakk>ExecTask i opts s \<in> set (Tasks \<sigma>); e \<notin> Used \<sigma>;
     exec_decide cfg i opts s e now w (Mgr \<sigma>) = (ExecDone r, m)\<rbrakk> \<Longrightarrow>
    sys_step cfg P \<sigma> \<lparr>Mgr = m, Tasks = remove1 (ExecTask i opts s) (Tasks \<sigma>), Used = insert e (Used \<sigma>)\<rparr>"
| exec_gate: "\<lbrakk>ExecTask i opts s \<in> set (Tasks \<sigma>); e \<notin> Used \<sigma>;
     exec_decide cfg i opts s e now w (Mgr \<sigma>) = (ExecPaused p, m)\<rbrakk> \<Longrightarrow>
    sys_step cfg P \<sigma> \<lparr>Mgr = m, Tasks = PauseTask p # remove1 (ExecTask i opts s) (Tasks \<sigma>),
      Used = insert e (Used \<sigma>)\<rparr>"
| pause: "\<lbrakk>PauseTask p \<in> set (Tasks \<sigma>); exec_pause cfg p now (Mgr \<sigma>) = (r, m)\<rbrakk> \<Longrightarrow>
    sys_step cfg P \<sigma> (\<sigma>\<lparr>Mgr := m, Tasks := remove1 (PauseTask p) (Tasks \<sigma>)\<rparr>)"
| approve: "resolve_claim sid eid ''approve'' comment now (Mgr \<sigma>) = (Inr a, m) \<Longrightarrow>
    sys_step cfg P \<sigma> (\<sigma>\<lparr>Mgr := m, Tasks := RunTask a # Tasks \<sigma>\<rparr>)"
| deny: "resolve_claim sid eid ''deny'' comment now (Mgr \<sigma>) = (Inr a, m) \<Longrightarrow>
    sys_step cfg P \<sigma> (\<sigma>\<lparr>Mgr := m\<rparr>)"
| run: "\<lbrakk>RunTask a \<in> set (Tasks \<sigma>); runApproved cfg a now w (Mgr \<sigma>) = (a', m)\<rbrakk> \<Longrightarrow>
    sys_step cfg P \<sigma> (\<sigma>\<lparr>Mgr := m, Tasks := remove1 (RunTask a) (Tasks \<sigma>)\<rparr>)"
| expire: "ExpireApprovals now (Mgr \<sigma>) = (ids, m) \<Longrightarrow> sys_step cfg P \<sigma> (\<sigma>\<lparr>Mgr := m\<rparr>)"
| destroy: "Destroy i (Mgr \<sigma>) = (None, m) \<Longrightarrow> sys_step cfg P \<sigma> (\<sigma>\<lparr>Mgr := m\<rparr>)"
| reap: "ReapExpired now ids (Mgr \<sigma>) = (due, m) \<Longrightarrow> sys_step cfg P \<sigma> (\<sigma>\<lparr>Mgr := m\<rparr>)"
| shutdown: "sys_step cfg P \<sigma> (\<sigma>\<lparr>Mgr := Shutdown ids (Mgr \<sigma>)\<rparr>)"

inductive reachable :: "('c, 's) config \<Rightarrow> (string \<Rightarrow> policy \<Rightarrow> bool) \<Rightarrow> 'c sys \<Rightarrow> bool"
  for cfg :: "('c, 's) config" and P :: "string \<Rightarrow> policy \<Rightarrow> bool"
where
  start: "reachable cfg P (init_sys c)"
| step: "\<lbrakk>reachable cfg P \<sigma>; sys_step cfg P \<sigma> \<tau>\<rbrakk> \<Longrightarrow> reachable cfg P \<tau>"

subsection \<open>What the operations do to the table and the log\<close>

lemma log_all_simps [simp]:
  "Gates (log_all m es) = Gates m" "Log (log_all m es) = Log m @ es" "Live (log_all m es) = Live m"
  by (simp_all add: log_all_def)

lemma set_state_simps [simp]: "Gates (set_state i st m) = Gates m" "Log (set_state i st m) = Log m"
  by (simp_all add: set_state_def split: option.split)

lemma restore_simps [simp]:
  "Gates (restore_exec i now m) = Gates m" "Log (restore_exec i now m) = Log m"
  "Gates (restoreReady i now m) = Gates m" "Log (restoreReady i now m) = Log m"
  by (simp_all add: restore_exec_def restoreReady_def split: option.split)

lemma drop_sessions_simps [simp]: "Gates (drop_sessions ids m) = Gates m" "Log (drop_sessions ids m) = Log m"
  by (simp_all add: drop_sessions_def)

text \<open>The effects of a piece of an exec that may show at most one preview of the gate \<open>e\<close>.\<close>

definition at_most_preview :: "string \<Rightarrow> effect list \<Rightarrow> bool" where
  "at_most_preview e es \<longleftrightarrow>
     (\<exists>h. (h = [] \<or> h = [GPreview]) \<and> (\<forall>e'. gate_history e' es = (if e' = e then h else [])))"

lemma at_most_preview_quiet: "(\<And>e'. gate_history e' es = []) \<Longrightarrow> at_most_preview e es"
  by (auto simp: at_most_preview_def)

lemma at_most_preview_append:
  assumes "at_most_preview e es" "\<And>e'. gate_history e' fs = []"
  shows "at_most_preview e (es @ fs)" "at_most_preview e (fs @ es)"
  using assms by (auto simp: at_most_preview_def)

lemma runPreview_log:
  assumes "runPreview cfg i e opts argv out m = (r, m1)"
  shows "\<exists>es. m1 = log_all m es \<and> at_most_preview e es"
proof -
  obtain x es where r: "runExec bufferSink (OutputCap cfg) (PreviewOf e) (cred_env m i) i
      (opts\<lparr>ExecArgv := argv\<rparr>) out (newBufferSink (int (OutputCap cfg))) = (x, es)"
    by (cases "runExec bufferSink (OutputCap cfg) (PreviewOf e) (cred_env m i) i
      (opts\<lparr>ExecArgv := argv\<rparr>) out (newBufferSink (int (OutputCap cfg)))") auto
  have "at_most_preview e es" by (auto simp: at_most_preview_def runExec_history [OF r])
  moreover have "m1 = log_all m es"
    using assms r by (auto simp: runPreview_def Let_def split: prod.splits)
  ultimately show ?thesis by blast
qed

lemma block_log:
  assumes "blockOnPreviewFailure i dcn ph sm pc pd m = (r, m1)"
  shows "\<exists>es. m1 = log_all m es \<and> (\<forall>e. gate_history e es = [])"
  using assms by (auto simp: blockOnPreviewFailure_def)

definition gate_added :: "string \<Rightarrow> 'c manager \<Rightarrow> 'c manager \<Rightarrow> bool" where
  "gate_added e m m' \<longleftrightarrow>
     (\<exists>a. AExec a = e \<and> AStatus a = GatePending \<and>
        Gates m' = al_put (approvalKey (ASession a) e) a (Gates m))"

lemma insert_gate_added:
  assumes "insert_gate cfg i e opts dcn ph now argv pc pd ps pp pl m = (r, m')"
  shows "gate_added e m m' \<and> Log m' = Log m"
proof -
  let ?a = "new_gate cfg i e opts dcn ph now argv pc pd ps pp pl"
  have "AExec ?a = e" "ASession ?a = i" "AStatus ?a = GatePending" by (simp_all add: new_gate_def)
  moreover have "Gates m' = al_put (approvalKey i e) ?a (Gates m)" "Log m' = Log m"
    using assms by (auto simp: insert_gate_def)
  ultimately show ?thesis unfolding gate_added_def by metis
qed

lemma register_gate_log:
  assumes "register_gate cfg i opts s dcn e now w m = (r, m')"
  shows "\<exists>es. Log m' = Log m @ es \<and> at_most_preview e es \<and> (Gates m' = Gates m \<or> gate_added e m m')"
proof -
  let ?pv = "RewriteForDryRun (Re cfg) (ExecArgv opts) (DryRun (LPolicy s))
               (''/workspace/.opslify-plan-'' @ e @ ''.tfplan'')"
  show ?thesis
  proof (cases "DryRunEnabled cfg \<and> Matched ?pv")
    case False
    then have "insert_gate cfg i e opts dcn (LPolicyHash s) now (ExecArgv opts) [] [] ''none'' [] [] m = (r, m')"
      using assms by (auto simp: register_gate_def Let_def)
    from insert_gate_added [OF this] show ?thesis
      by (intro exI [of _ "[]"]) (auto intro: at_most_preview_quiet)
  next
    case True
    obtain d ok m1 where pr: "runPreview cfg i e opts (PreviewArgv ?pv) (PreviewOutcome w) m = ((d, ok), m1)"
      by (metis prod.exhaust)
    obtain es where es: "m1 = log_all m es" "at_most_preview e es" using runPreview_log [OF pr] by blast
    have blocked: ?thesis if "blockOnPreviewFailure i dcn ph sm pc pd m1 = (r', m')" for ph sm pc pd r'
      using block_log [OF that] es at_most_preview_append(1) [OF es(2)] by fastforce
    have inserted: ?thesis if "insert_gate cfg i e opts dcn ph now argv pc pd ps pp pl m1 = (r, m')"
      for ph argv pc pd ps pp pl
      using insert_gate_added [OF that] es by (auto simp: gate_added_def)
    from assms True pr show ?thesis
      by (auto simp: register_gate_def Let_def split: if_splits sum.splits prod.splits
          intro: blocked inserted)
  qed
qed

lemma exec_decide_log:
  assumes "exec_decide cfg i opts s e now w m = (r, m')"
  shows "\<exists>es. Log m' = Log m @ es \<and> at_most_preview e es \<and> (Gates m' = Gates m \<or> gate_added e m m')"
proof -
  let ?dec = "Classify (Re cfg) (LPolicy s) (ExecArgv opts)"
  let ?ev = "Emit i ''policy.decision'' [(''decision'', verdict_text (Verdict ?dec)), (''rule'', Rule ?dec),
     (''argv_summary'', str_join '' '' (ExecArgv opts)), (''policy_hash'', LPolicyHash s)]"
  have ev: "gate_history e' [?ev] = []" for e' by simp
  show ?thesis
  proof (cases "Verdict ?dec")
    case VerdictDeny
    with assms show ?thesis
      by (intro exI [of _ "[?ev]"]) (auto simp: exec_decide_def Let_def intro: at_most_preview_quiet)
  next
    case VerdictAllow
    obtain x es where r: "runExec (CallerSink cfg) (OutputCap cfg) DirectExec (cred_env (log_all m [?ev]) i) i
        opts (RunOutcome w) (CallerState cfg) = (x, es)"
      by (cases "runExec (CallerSink cfg) (OutputCap cfg) DirectExec (cred_env (log_all m [?ev]) i) i
        opts (RunOutcome w) (CallerState cfg)") auto
    have "at_most_preview e (?ev # es)"
      using runExec_history [OF r] by (intro at_most_preview_quiet) simp
    moreover have "Log m' = Log m @ ?ev # es" "Gates m' = Gates m"
      using assms VerdictAllow r by (auto simp: exec_decide_def Let_def split: prod.splits)
    ultimately show ?thesis by blast
  next
    case VerdictNeedsApproval
    obtain r1 m1 where g: "register_gate cfg i opts s ?dec e now w (log_all m [?ev]) = (r1, m1)"
      by (cases "register_gate cfg i opts s ?dec e now w (log_all m [?ev])") auto
    obtain es where es: "Log m1 = Log (log_all m [?ev]) @ es" "at_most_preview e es"
      "Gates m1 = Gates (log_all m [?ev]) \<or> gate_added e (log_all m [?ev]) m1"
      using register_gate_log [OF g] by blast
    have "at_most_preview e ([?ev] @ es)" by (rule at_most_preview_append(2) [OF es(2) ev])
    moreover have "Log m' = Log m @ [?ev] @ es" "Gates m' = Gates m1"
      using assms VerdictNeedsApproval g es(1)
      by (auto simp: exec_decide_def Let_def split: exec_result.splits)
    ultimately show ?thesis using es(3) by (auto simp: gate_added_def)
  qed
qed

subsection \<open>Every operation keeps the invariant\<close>

definition sys_inv :: "'c sys \<Rightarrow> bool" where
  "sys_inv \<sigma> \<longleftrightarrow>
     gates_inv (Used \<sigma>) (run_ids (Tasks \<sigma>)) (Gates (Mgr \<sigma>)) (Log (Mgr \<sigma>)) \<and>
     (\<forall>a. RunTask a \<in> set (Tasks \<sigma>) \<longrightarrow> AStatus a = GateApproved)"

lemma run_ids_member: "RunTask a \<in> set ts \<Longrightarrow> AExec a \<in> set (run_ids ts)"
  by (induction ts rule: run_ids.induct) auto

lemma run_ids_remove_run:
  "\<lbrakk>RunTask a \<in> set ts; distinct (run_ids ts)\<rbrakk> \<Longrightarrow>
     run_ids (remove1 (RunTask a) ts) = remove1 (AExec a) (run_ids ts)"
  by (induction ts rule: run_ids.induct) (auto dest: run_ids_member)

lemma run_ids_remove_other:
  "run_ids (remove1 (ExecTask i opts s) ts) = run_ids ts" "run_ids (remove1 (PauseTask p) ts) = run_ids ts"
  by (induction ts rule: run_ids.induct) auto

lemma claimPending_Inr:
  assumes "claimPending sid eid to c dr m = (Inr a', m')"
  obtains a where "map_of (Gates m) (approvalKey sid eid) = Some a" "AStatus a = GatePending"
    "a' = a\<lparr>AStatus := to, AComment := c, DenyReason := dr\<rparr>"
    "m' = m\<lparr>Gates := al_put (approvalKey sid eid) a' (Gates m)\<rparr>"
  using assms by (auto simp: claimPending_def Let_def split: option.splits if_splits)

lemma claimPending_Inl: "claimPending sid eid to c dr m = (Inl e, m') \<Longrightarrow> m' = m"
  by (auto simp: claimPending_def Let_def split: option.splits if_splits)

lemma deny_inv:
  assumes inv: "gates_inv U R (Gates m) (Log m)"
    and c: "claimPending sid eid GateDenied c dr m = (Inr a', m')" and dr: "dr \<noteq> ''plan_tampered''"
  shows "gates_inv U R (Gates m') (Log m' @ [resolution a' ''denied''])"
proof -
  from c obtain a where a: "map_of (Gates m) (approvalKey sid eid) = Some a" "AStatus a = GatePending"
    "a' = a\<lparr>AStatus := GateDenied, AComment := c, DenyReason := dr\<rparr>"
    "m' = m\<lparr>Gates := al_put (approvalKey sid eid) a' (Gates m)\<rparr>"
    by (rule claimPending_Inr)
  have "gates_inv U R (al_put (approvalKey sid eid) a' (Gates m)) (Log m @ [resolution a' ''denied''])"
    using a dr by (intro gates_inv_decide [OF inv a(1,2), where g = GDenied]) (auto simp: resolution_history)
  then show ?thesis using a(4) by simp
qed

lemma approve_inv:
  assumes inv: "gates_inv U R (Gates m) (Log m)"
    and c: "claimPending sid eid GateApproved c [] m = (Inr a', m')"
  shows "gates_inv U (AExec a' # R) (Gates m') (Log m' @ [resolution a' ''approved'']) \<and>
    AStatus a' = GateApproved"
proof -
  from c obtain a where a: "map_of (Gates m) (approvalKey sid eid) = Some a" "AStatus a = GatePending"
    "a' = a\<lparr>AStatus := GateApproved, AComment := c, DenyReason := []\<rparr>"
    "m' = m\<lparr>Gates := al_put (approvalKey sid eid) a' (Gates m)\<rparr>"
    by (rule claimPending_Inr)
  have "gates_inv U (AExec a # R) (al_put (approvalKey sid eid) a' (Gates m))
      (Log m @ [resolution a' ''approved''])"
    using a by (intro gates_inv_decide [OF inv a(1,2), where g = GApproved]) (auto simp: resolution_history)
  then show ?thesis using a(3,4) by simp
qed

lemma expire_each_inv:
  "gates_inv U R (Gates m) (Log m) \<Longrightarrow> expire_each now as m = (ids, m') \<Longrightarrow> gates_inv U R (Gates m') (Log m')"
proof (induction now as m arbitrary: ids m' rule: expire_each.induct)
  case (2 now a as m)
  obtain r m1 where c: "claimPending (ASession a) (AExec a) GateDenied [] ''timeout'' m = (r, m1)"
    by (cases "claimPending (ASession a) (AExec a) GateDenied [] ''timeout'' m") auto
  show ?case
  proof (cases r)
    case (Inl e)
    have "expire_each now as m1 = (ids, m')" using 2(4) c Inl by simp
    from 2(1) [OF c [symmetric] Inl _ this] claimPending_Inl [OF c [unfolded Inl]] 2(3) show ?thesis by simp
  next
    case (Inr b)
    let ?m2 = "restoreReady (ASession b) now (emitResolution b ''denied'' m1)"
    obtain ids' m3 where rest: "expire_each now as ?m2 = (ids', m3)" by fastforce
    have "m' = m3" using 2(4) c Inr rest by simp
    moreover have "gates_inv U R (Gates ?m2) (Log ?m2)"
      using deny_inv [OF 2(3) c [unfolded Inr]] by (simp add: emitResolution_def)
    ultimately show ?thesis using 2(2) [OF c [symmetric] Inr _ rest] by simp
  qed
qed simp

lemma denied_history:
  assumes "distinct (gate_ids G)" "reason \<noteq> ''plan_tampered''"
  shows "gate_history e (map (\<lambda>a. resolution (a\<lparr>AStatus := GateDenied, DenyReason := reason\<rparr>) ''denied'')
        (filter (\<lambda>a. AStatus a = GatePending) (filter P (map snd G)))) =
      (if \<exists>(k, a) \<in> set G. AExec a = e \<and> P a \<and> AStatus a = GatePending then [GDenied] else [])"
  using assms
proof (induction G)
  case (Cons x G)
  have r: "gate_effect e (resolution (a\<lparr>AStatus := GateDenied, DenyReason := reason\<rparr>) ''denied'') =
      (if e = AExec a then [GDenied] else [])" for a
    using Cons.prems(2) by (simp add: resolution_history)
  show ?case
  proof (cases "AExec (snd x) = e")
    case True
    with Cons.prems(1) have "\<not> (\<exists>(k, a) \<in> set G. AExec a = e \<and> P a \<and> AStatus a = GatePending)"
      by (auto simp: image_iff)
    with Cons True show ?thesis by (auto simp: r split: prod.splits)
  next
    case False
    with Cons show ?thesis by (auto simp: r split: prod.splits)
  qed
qed simp

lemma teardown_inv:
  assumes inv: "gates_inv U R (Gates m) (Log m)"
  shows "gates_inv U R (Gates (teardown i reason m)) (Log (teardown i reason m))"
proof -
  let ?es = "map (\<lambda>a. resolution (a\<lparr>AStatus := GateDenied, DenyReason := ''session_end''\<rparr>) ''denied'')
      (filter (\<lambda>a. AStatus a = GatePending) (filter (\<lambda>a. ASession a = i) (map snd (Gates m))))"
  have "gates_inv U R (filter (\<lambda>(k, a). \<not> ASession a = i) (Gates m)) (Log m @ ?es)"
    using inv by (intro gates_inv_cancel [OF inv] denied_history) (simp_all add: gates_inv_def)
  then have "gates_inv U R (filter (\<lambda>(k, a). \<not> ASession a = i) (Gates m))
      ((Log m @ ?es) @ [Emit i ''session.end'' [(''reason'', reason)]])"
    by (rule gates_inv_quiet) simp
  then show ?thesis by (simp add: teardown_def cancelSessionApprovals_def Let_def)
qed

lemma teardown_all_inv:
  "gates_inv U R (Gates m) (Log m) \<Longrightarrow>
     gates_inv U R (Gates (teardown_all reason is m)) (Log (teardown_all reason is m))"
  by (induction reason "is" m rule: teardown_all.induct) (simp_all add: teardown_inv)

lemma store_run_inv:
  assumes inv: "gates_inv U R (Gates m) (Log m)" and "AStatus a \<noteq> GatePending"
  shows "gates_inv U R (Gates (store_run a m)) (Log (store_run a m))"
  using assms gates_inv_store [OF inv]
  by (auto simp: store_run_def split: option.split)

text \<open>The log of a run that was due, and that it only ends in the table.\<close>

lemma store_run_Log [simp]: "Log (store_run a m) = Log m"
  by (simp add: store_run_def split: option.split)

lemma runApproved_shape:
  assumes "runApproved cfg a now w m = (b, m')"
  shows "\<exists>es m1 h. m' = store_run b m1 \<and> Gates m1 = Gates m \<and> Log m1 = Log m @ es \<and>
    AStatus b = AStatus a \<and> (h = [] \<or> h = [GTampered] \<or> h = [GRun]) \<and>
    (\<forall>e. gate_history e es = (if e = AExec a then h else []))"
proof -
  have fail: ?thesis if "b = run_failed a e" "m' = store_run (run_failed a e) m" for e
    using that by (intro exI [of _ "[]"] exI [of _ m]) (auto simp: run_failed_def)
  show ?thesis
  proof (cases "Live m (ASession a)")
    case None
    with assms have "b = run_failed a ''session ended before approval could run''"
      "m' = store_run (run_failed a ''session ended before approval could run'') m"
      by (auto simp: runApproved_def Let_def)
    then show ?thesis by (rule fail)
  next
    case (Some s)
    show ?thesis
    proof (cases "(LState s = StateAwaitingApproval \<or> LState s = StateReady) \<and> ResolveRt cfg (LTier s) = None")
      case False
      with Some assms obtain e where "b = run_failed a e" "m' = store_run (run_failed a e) m"
        by (auto simp: runApproved_def Let_def split: if_splits option.splits)
      then show ?thesis by (rule fail)
    next
      case True
      show ?thesis
      proof (cases "plan_intact cfg a (PlanFile w)")
        case False
        with Some True assms
        have "b = run_failed a ''saved plan changed after review (tamper detected); apply refused''"
          "m' = store_run b (log_all (set_state (ASession a) StateReady m) [tampered a])"
          by (auto simp: runApproved_def Let_def)
        then show ?thesis
          by (intro exI [of _ "[tampered a]"] exI [of _ "log_all (set_state (ASession a) StateReady m) [tampered a]"]
              exI [of _ "[GTampered]"]) (auto simp: run_failed_def tampered_history)
      next
        case True
        let ?o = "\<lparr>ExecArgv = AArgv a, Cwd = ACwd a, Env = AEnv a, Writable = []\<rparr>"
        obtain err k es where r: "runExec bufferSink (OutputCap cfg) (ApprovedRun (AExec a)) (CredEnv s)
            (ASession a) ?o (RunOutcome w) (newBufferSink (int (OutputCap cfg))) = ((err, k), es)"
          by (metis prod.exhaust)
        let ?m1 = "restore_exec (ASession a) now (log_all (set_state (ASession a) StateExecing m) es)"
        from Some \<open>(LState s = StateAwaitingApproval \<or> LState s = StateReady) \<and> ResolveRt cfg (LTier s) = None\<close>
          True r assms
        have "m' = store_run b ?m1" "AStatus b = AStatus a"
          by (auto simp: runApproved_def Let_def)
        then show ?thesis
          using runExec_history [OF r]
          by (intro exI [of _ es] exI [of _ ?m1] exI [of _ "[GRun]"]) auto
      qed
    qed
  qed
qed

lemma run_inv:
  assumes inv: "gates_inv U R (Gates m) (Log m)" and "AExec a \<in> set R" "AStatus a = GateApproved"
    and r: "runApproved cfg a now w m = (b, m')"
  shows "gates_inv U (remove1 (AExec a) R) (Gates m') (Log m')"
proof -
  obtain es m1 h where m1: "m' = store_run b m1" "Gates m1 = Gates m" "Log m1 = Log m @ es"
    "AStatus b = AStatus a" "h = [] \<or> h = [GTampered] \<or> h = [GRun]"
    "\<And>e. gate_history e es = (if e = AExec a then h else [])"
    using runApproved_shape [OF r] by blast
  have "gates_inv U (remove1 (AExec a) R) (Gates m1) (Log m1)"
    using gates_inv_run [OF inv assms(2) m1(6,5)] m1(2,3) by simp
  then show ?thesis unfolding m1(1) using m1(4) assms(3) by (intro store_run_inv) simp_all
qed

lemma exec_decide_inv:
  assumes inv: "gates_inv U R (Gates m) (Log m)" and e: "e \<notin> U"
    and d: "exec_decide cfg i opts s e now w m = (r, m')"
  shows "gates_inv (insert e U) R (Gates m') (Log m')"
proof -
  obtain es where es: "Log m' = Log m @ es" "at_most_preview e es" "Gates m' = Gates m \<or> gate_added e m m'"
    using exec_decide_log [OF d] by blast
  then obtain h where h: "h = [] \<or> h = [GPreview]" "\<And>e'. gate_history e' es = (if e' = e then h else [])"
    by (auto simp: at_most_preview_def)
  have inv1: "gates_inv (insert e U) R (Gates m) (Log m')"
    using gates_inv_preview [OF inv e h(2,1)] es(1) by simp
  show ?thesis
  proof (cases "Gates m' = Gates m")
    case True
    with inv1 show ?thesis by simp
  next
    case False
    with es(3) obtain a where a: "AExec a = e" "Gates m' = al_put (approvalKey (ASession a) e) a (Gates m)"
      by (auto simp: gate_added_def)
    have "e \<notin> set (gate_ids (Gates m))" "e \<notin> set R" "gate_history e (Log m) = []"
      using inv e by (auto simp: gates_inv_def gate_ok_def)
    then have "gates_inv (insert e U) R (al_put (approvalKey (ASession a) e) a (Gates m)) (Log m')"
      using a(1) h es(1) by (intro gates_inv_insert [OF inv1]) (auto simp: decided_def)
    with a(2) show ?thesis by simp
  qed
qed

lemma exec_pause_log:
  assumes "exec_pause cfg p now m = (r, m')"
  shows "Gates m' = Gates m \<and> (\<exists>es. Log m' = Log m @ es \<and> (\<forall>e. gate_history e es = []))"
proof -
  have "Gates (case Live m i of Some s \<Rightarrow> if LState s = StateExecing then set_state i StateAwaitingApproval m else m
      | None \<Rightarrow> m) = Gates m"
    "Log (case Live m i of Some s \<Rightarrow> if LState s = StateExecing then set_state i StateAwaitingApproval m else m
      | None \<Rightarrow> m) = Log m" for i
    by (auto split: option.split)
  with assms show ?thesis by (auto simp: exec_pause_def Let_def split: prod.splits)
qed

lemma sys_step_inv:
  assumes "sys_step cfg P \<sigma> \<tau>" "sys_inv \<sigma>"
  shows "sys_inv \<tau>"
  using assms
proof (cases rule: sys_step.cases)
  case (exec_start i opts s m)
  then have "Gates m = Gates (Mgr \<sigma>)" "Log m = Log (Mgr \<sigma>)"
    by (auto simp: exec_begin_def split: option.splits if_splits)
  with exec_start assms(2) show ?thesis by (auto simp: sys_inv_def)
next
  case (exec_done i opts s e now w r m)
  then show ?thesis
    using assms(2) exec_decide_inv [OF _ exec_done(3,4)]
    by (auto simp: sys_inv_def run_ids_remove_other)
next
  case (exec_gate i opts s e now w p m)
  then show ?thesis
    using assms(2) exec_decide_inv [OF _ exec_gate(3,4)]
    by (auto simp: sys_inv_def run_ids_remove_other)
next
  case (pause p now r m)
  then show ?thesis
    using assms(2) exec_pause_log [OF pause(3)]
    by (auto simp: sys_inv_def run_ids_remove_other gates_inv_quiet)
next
  case (approve sid eid comment now a m)
  then obtain m1 where c: "claimPending sid eid GateApproved comment [] (Mgr \<sigma>) = (Inr a, m1)"
    "m = emitResolution a ''approved'' m1"
    by (auto simp: resolve_claim_def split: sum.splits prod.splits)
  then show ?thesis
    using approve assms(2) approve_inv [OF _ c(1)] by (auto simp: sys_inv_def emitResolution_def)
next
  case (deny sid eid comment now a m)
  then obtain m1 where c: "claimPending sid eid GateDenied comment ''operator'' (Mgr \<sigma>) = (Inr a, m1)"
    "m = restoreReady sid now (emitResolution a ''denied'' m1)"
    by (auto simp: resolve_claim_def split: sum.splits prod.splits)
  then show ?thesis
    using deny assms(2) deny_inv [OF _ c(1)] by (auto simp: sys_inv_def emitResolution_def)
next
  case (run a now w a' m)
  have inv: "gates_inv (Used \<sigma>) (run_ids (Tasks \<sigma>)) (Gates (Mgr \<sigma>)) (Log (Mgr \<sigma>))"
    and a: "AStatus a = GateApproved"
    using assms(2) run(2) by (auto simp: sys_inv_def)
  have "gates_inv (Used \<sigma>) (remove1 (AExec a) (run_ids (Tasks \<sigma>))) (Gates m) (Log m)"
    by (rule run_inv [OF inv run_ids_member [OF run(2)] a run(3)])
  moreover have "run_ids (remove1 (RunTask a) (Tasks \<sigma>)) = remove1 (AExec a) (run_ids (Tasks \<sigma>))"
    using inv by (intro run_ids_remove_run [OF run(2)]) (simp add: gates_inv_def)
  ultimately show ?thesis
    using run(1) assms(2) by (auto simp: sys_inv_def dest: set_remove1_subset [THEN subsetD])
next
  case (expire now ids m)
  then show ?thesis
    using assms(2) expire_each_inv by (auto simp: sys_inv_def ExpireApprovals_def)
next
  case (destroy i m)
  then show ?thesis
    using assms(2) teardown_inv [of _ _ "(Mgr \<sigma>)\<lparr>Live := (Live (Mgr \<sigma>))(i := None)\<rparr>"]
    by (auto simp: sys_inv_def Destroy_def split: option.splits)
next
  case (reap now ids due m)
  then show ?thesis
    using assms(2) teardown_all_inv [of _ _ "drop_sessions (reap_due now ids (Mgr \<sigma>)) (Mgr \<sigma>)"]
    by (auto simp: sys_inv_def ReapExpired_def Let_def)
next
  case (shutdown ids)
  then show ?thesis
    using assms(2) teardown_all_inv [of _ _ "drop_sessions (filter (\<lambda>i. Live (Mgr \<sigma>) i \<noteq> None) ids) (Mgr \<sigma>)"]
    by (auto simp: sys_inv_def Shutdown_def Let_def)
qed (auto simp: sys_inv_def)

lemma init_inv: "sys_inv (init_sys c)"
  by (simp add: sys_inv_def init_sys_def gates_inv_def)

lemma reachable_inv: "reachable cfg P \<sigma> \<Longrightarrow> sys_inv \<sigma>"
proof (induction rule: reachable.induct)
  case (step \<sigma> \<tau>)
  from sys_step_inv [OF step(2,3)] show ?case .
qed (rule init_inv)

end
