(* ===== verification/Session_Safety.thy ===== *)
theory Session_Safety
  imports Session_Gates
begin

text \<open>
  The properties of the mediated exec: the protocol of a gate, where every command handed to
  the runtime comes from, the check of the saved plan, timeouts, the end of a session, and the
  window between the registration of a gate and the pause of its session.
\<close>

subsection \<open>Where a command comes from\<close>

text \<open>The commands an approved gate may run: the command as given, or the rewrite of its preview.\<close>

definition plan_path :: "string \<Rightarrow> string" where
  "plan_path e = ''/workspace/.opslify-plan-'' @ e @ ''.tfplan''"

definition gated_rewrite :: "regexp \<Rightarrow> policy \<Rightarrow> string \<Rightarrow> string list \<Rightarrow> dry_run_preview" where
  "gated_rewrite re pol e argv = RewriteForDryRun re argv (DryRun pol) (plan_path e)"

definition gated :: "regexp \<Rightarrow> (policy \<Rightarrow> bool) \<Rightarrow> policy \<Rightarrow> string list \<Rightarrow> bool" where
  "gated re P pol argv \<longleftrightarrow> P pol \<and> Verdict (Classify re pol argv) = VerdictNeedsApproval"

definition may_run :: "regexp \<Rightarrow> (policy \<Rightarrow> bool) \<Rightarrow> string \<Rightarrow> string list \<Rightarrow> bool" where
  "may_run re P e argv \<longleftrightarrow>
     (\<exists>pol orig. gated re P pol orig \<and>
        (argv = orig \<or> Matched (gated_rewrite re pol e orig) \<and> argv = ApprovedArgv (gated_rewrite re pol e orig)))"

fun provenance :: "regexp \<Rightarrow> (string \<Rightarrow> policy \<Rightarrow> bool) \<Rightarrow> effect \<Rightarrow> bool" where
  "provenance re P (RtExec DirectExec i argv env cwd) =
     (\<exists>pol. P i pol \<and> Verdict (Classify re pol argv) = VerdictAllow)"
| "provenance re P (RtExec (PreviewOf e) i argv env cwd) =
     (\<exists>pol orig. gated re (P i) pol orig \<and> Matched (gated_rewrite re pol e orig) \<and>
        argv = PreviewArgv (gated_rewrite re pol e orig))"
| "provenance re P (RtExec (ApprovedRun e) i argv env cwd) = may_run re (P i) e argv"
| "provenance re P x = True"

lemma provenance_output: "list_all (provenance re P) (map (EmitOutput i) xs)"
  by (induction xs) auto

lemma runExec_provenance:
  assumes "runExec k cap org cred i opts out s = (r, es)"
    and "provenance re P (RtExec org i (ExecArgv opts) (Env opts @ cred) (Cwd opts))"
  shows "list_all (provenance re P) es"
  using assms provenance_output
  by (auto simp: runExec_def Let_def split: exec_outcome.splits prod.splits)

definition source_inv :: "regexp \<Rightarrow> (string \<Rightarrow> policy \<Rightarrow> bool) \<Rightarrow> 'c manager \<Rightarrow> bool" where
  "source_inv re P m \<longleftrightarrow>
     list_all (provenance re P) (Log m) \<and>
     (\<forall>i s. Live m i = Some s \<longrightarrow> P i (LPolicy s)) \<and>
     (\<forall>(k, a) \<in> set (Gates m). may_run re (P (ASession a)) (AExec a) (AArgv a))"

fun task_source :: "regexp \<Rightarrow> (string \<Rightarrow> policy \<Rightarrow> bool) \<Rightarrow> task \<Rightarrow> bool" where
  "task_source re P (ExecTask i opts s) = P i (LPolicy s)"
| "task_source re P (PauseTask p) = True"
| "task_source re P (RunTask a) = may_run re (P (ASession a)) (AExec a) (AArgv a)"

lemma source_log:
  "\<lbrakk>source_inv re P m; list_all (provenance re P) es\<rbrakk> \<Longrightarrow> source_inv re P (log_all m es)"
  by (simp add: source_inv_def)

lemma source_states:
  assumes "source_inv re P m"
  shows "source_inv re P (set_state i st m)" "source_inv re P (restore_exec i now m)"
    "source_inv re P (restoreReady i now m)"
  using assms
  by (auto simp: source_inv_def set_state_def restore_exec_def restoreReady_def split: option.split)

lemma source_gate:
  assumes "source_inv re P m" "may_run re (P (ASession a)) (AExec a) (AArgv a)"
  shows "source_inv re P (m\<lparr>Gates := al_put k a (Gates m)\<rparr>)"
  using assms by (auto simp: source_inv_def dest!: al_put_ids)

lemma source_store:
  assumes "source_inv re P m" "may_run re (P (ASession a)) (AExec a) (AArgv a)"
  shows "source_inv re P (store_run a m)"
  using assms by (auto simp: store_run_def source_gate split: option.split)

lemma source_filter:
  "source_inv re P m \<Longrightarrow> source_inv re P (m\<lparr>Gates := filter Q (Gates m)\<rparr>)"
  by (auto simp: source_inv_def)

lemma source_drop:
  "source_inv re P m \<Longrightarrow> source_inv re P (drop_sessions ids m)"
  "source_inv re P m \<Longrightarrow> source_inv re P (m\<lparr>Live := (Live m)(i := None)\<rparr>)"
  by (auto simp: source_inv_def drop_sessions_def split: if_splits)

lemma source_insert:
  assumes "source_inv re P m" "may_run re (P i) e argv"
    and "insert_gate cfg i e opts dcn ph now argv pc pd ps pp pl m = (r, m')"
  shows "source_inv re P m'"
proof -
  let ?a = "new_gate cfg i e opts dcn ph now argv pc pd ps pp pl"
  have "ASession ?a = i" "AExec ?a = e" "AArgv ?a = argv" by (simp_all add: new_gate_def)
  with assms source_gate [of re P m ?a "approvalKey i e"] show ?thesis
    by (auto simp: insert_gate_def)
qed

lemma source_block:
  assumes "source_inv re P m" "blockOnPreviewFailure i dcn ph sm pc pd m = (r, m')"
  shows "source_inv re P m'"
  using assms by (auto simp: blockOnPreviewFailure_def intro: source_log)

lemma source_preview:
  assumes "source_inv re P m" "runPreview cfg i e opts argv out m = (r, m')"
    and "\<And>env cwd. provenance re P (RtExec (PreviewOf e) i argv env cwd)"
  shows "source_inv re P m'"
proof -
  let ?o = "opts\<lparr>ExecArgv := argv\<rparr>"
  obtain x es where r: "runExec bufferSink (OutputCap cfg) (PreviewOf e) (cred_env m i) i ?o out
      (newBufferSink (int (OutputCap cfg))) = (x, es)"
    by (metis prod.exhaust)
  have "list_all (provenance re P) es"
    using runExec_provenance [OF r, of re P] assms(3) by (simp del: provenance.simps)
  moreover have "m' = log_all m es"
    using assms(2) r by (auto simp: runPreview_def Let_def split: prod.splits)
  ultimately show ?thesis using assms(1) source_log by simp
qed

lemma source_register:
  assumes inv: "source_inv (Re cfg) P m" and g: "gated (Re cfg) (P i) (LPolicy s) (ExecArgv opts)"
    and r: "register_gate cfg i opts s dcn e now w m = (r, m')"
  shows "source_inv (Re cfg) P m'"
proof -
  let ?pv = "RewriteForDryRun (Re cfg) (ExecArgv opts) (DryRun (LPolicy s))
               (''/workspace/.opslify-plan-'' @ e @ ''.tfplan'')"
  have pv: "gated_rewrite (Re cfg) (LPolicy s) e (ExecArgv opts) = ?pv"
    by (simp add: gated_rewrite_def plan_path_def)
  have orig: "may_run (Re cfg) (P i) e (ExecArgv opts)" using g by (auto simp: may_run_def)
  show ?thesis
  proof (cases "DryRunEnabled cfg \<and> Matched ?pv")
    case False
    then have "insert_gate cfg i e opts dcn (LPolicyHash s) now (ExecArgv opts) [] [] ''none'' [] [] m = (r, m')"
      using r by (auto simp: register_gate_def Let_def)
    from source_insert [OF inv orig this] show ?thesis .
  next
    case True
    then have rew: "may_run (Re cfg) (P i) e (ApprovedArgv ?pv)"
      using g pv unfolding may_run_def by metis
    obtain d ok m1 where pr: "runPreview cfg i e opts (PreviewArgv ?pv) (PreviewOutcome w) m = ((d, ok), m1)"
      by (metis prod.exhaust)
    have "provenance (Re cfg) P (RtExec (PreviewOf e) i (PreviewArgv ?pv) env cwd)" for env cwd
      using g True pv by (auto intro!: exI [of _ "LPolicy s"] exI [of _ "ExecArgv opts"])
    then have m1: "source_inv (Re cfg) P m1" by (rule source_preview [OF inv pr])
    note ins = source_insert [OF m1 rew] source_insert [OF m1 orig] source_block [OF m1]
    from r True pr show ?thesis
      by (auto simp: register_gate_def Let_def split: if_splits sum.splits prod.splits intro: ins)
  qed
qed

lemma source_decide:
  assumes inv: "source_inv (Re cfg) P m" and p: "P i (LPolicy s)"
    and d: "exec_decide cfg i opts s e now w m = (r, m')"
  shows "source_inv (Re cfg) P m'"
proof -
  let ?dec = "Classify (Re cfg) (LPolicy s) (ExecArgv opts)"
  let ?m1 = "log_all m [Emit i ''policy.decision'' [(''decision'', verdict_text (Verdict ?dec)),
     (''rule'', Rule ?dec), (''argv_summary'', str_join '' '' (ExecArgv opts)), (''policy_hash'', LPolicyHash s)]]"
  have m1: "source_inv (Re cfg) P ?m1" using inv by (rule source_log) simp
  show ?thesis
  proof (cases "Verdict ?dec")
    case VerdictDeny
    with d source_states(2) [OF m1, of i now] show ?thesis by (auto simp: exec_decide_def Let_def)
  next
    case VerdictAllow
    obtain x es where x: "runExec (CallerSink cfg) (OutputCap cfg) DirectExec (cred_env ?m1 i) i
        opts (RunOutcome w) (CallerState cfg) = (x, es)"
      by (metis prod.exhaust)
    have "list_all (provenance (Re cfg) P) es"
      using runExec_provenance [OF x, of "Re cfg" P] p VerdictAllow by auto
    then have "source_inv (Re cfg) P (restore_exec i now (log_all ?m1 es))"
      by (intro source_states source_log m1)
    moreover have "m' = restore_exec i now (log_all ?m1 es)"
      using d VerdictAllow x by (auto simp: exec_decide_def Let_def split: prod.splits)
    ultimately show ?thesis by simp
  next
    case VerdictNeedsApproval
    obtain r1 m2 where g: "register_gate cfg i opts s ?dec e now w ?m1 = (r1, m2)"
      by (metis prod.exhaust)
    have m2: "source_inv (Re cfg) P m2"
      using VerdictNeedsApproval p by (intro source_register [OF m1 _ g]) (simp add: gated_def)
    have "m' = m2 \<or> m' = restore_exec i now m2"
      using d VerdictNeedsApproval g by (auto simp: exec_decide_def Let_def split: exec_result.splits)
    with m2 source_states(2) show ?thesis by blast
  qed
qed

lemma source_run:
  assumes inv: "source_inv re P m" and a: "may_run re (P (ASession a)) (AExec a) (AArgv a)"
    and r: "runApproved cfg a now w m = (b, m')"
  shows "source_inv re P m'"
proof -
  have fail: "source_inv re P (store_run (run_failed a e) m)" if "source_inv re P m" for e m
    using that a by (intro source_store) (simp_all add: run_failed_def)
  have "source_inv re P (log_all (set_state (ASession a) StateReady m) [tampered a])"
    using inv by (intro source_log source_states) (simp_all add: tampered_def)
  note tamper = fail [OF this]
  have ran: "source_inv re P (store_run b' (restore_exec (ASession a) now
      (log_all (set_state (ASession a) StateExecing m) es)))"
    if "runExec bufferSink (OutputCap cfg) (ApprovedRun (AExec a)) cr (ASession a)
        \<lparr>ExecArgv = AArgv a, Cwd = ACwd a, Env = AEnv a, Writable = []\<rparr> out snk = (x, es)"
      "ASession b' = ASession a" "AExec b' = AExec a" "AArgv b' = AArgv a" for b' cr out snk x es
  proof -
    have "list_all (provenance re P) es" using runExec_provenance [OF that(1), of re P] a by simp
    with inv a that(2-4) show ?thesis by (intro source_store source_states source_log) simp_all
  qed
  show ?thesis
    using r inv fail tamper
    by (auto simp: runApproved_def Let_def split: option.splits if_splits prod.splits intro: ran)
qed

lemma source_claim:
  assumes "source_inv re P m" "claimPending sid eid to c dr m = (Inr a, m')"
  shows "source_inv re P m' \<and> may_run re (P (ASession a)) (AExec a) (AArgv a)"
proof -
  from assms(2) obtain b where b: "map_of (Gates m) (approvalKey sid eid) = Some b"
    "a = b\<lparr>AStatus := to, AComment := c, DenyReason := dr\<rparr>"
    "m' = m\<lparr>Gates := al_put (approvalKey sid eid) a (Gates m)\<rparr>"
    by (rule claimPending_Inr)
  have "may_run re (P (ASession a)) (AExec a) (AArgv a)"
    using assms(1) map_of_SomeD [OF b(1)] b(2) by (auto simp: source_inv_def)
  with assms(1) b(3) source_gate show ?thesis by blast
qed

lemma source_expire:
  "source_inv re P m \<Longrightarrow> expire_each now as m = (ids, m') \<Longrightarrow> source_inv re P m'"
proof (induction now as m arbitrary: ids m' rule: expire_each.induct)
  case (2 now a as m)
  obtain r m1 where c: "claimPending (ASession a) (AExec a) GateDenied [] ''timeout'' m = (r, m1)"
    by (cases "claimPending (ASession a) (AExec a) GateDenied [] ''timeout'' m") auto
  show ?case
  proof (cases r)
    case (Inl e)
    have "expire_each now as m1 = (ids, m')" using 2(4) c Inl by simp
    from 2(1) [OF c [symmetric] Inl _ this] claimPending_Inl [OF c [unfolded Inl]] 2(3) show ?thesis by simp
  next
    case (Inr b)
    let ?m2 = "restoreReady (ASession b) now (emitResolution b ''denied'' m1)"
    obtain ids' m3 where rest: "expire_each now as ?m2 = (ids', m3)" by fastforce
    have "source_inv re P ?m2"
      using source_claim [OF 2(3) c [unfolded Inr]] unfolding emitResolution_def
      by (intro source_states source_log) (simp_all add: resolution_def)
    with 2(2) [OF c [symmetric] Inr _ rest] 2(4) c Inr rest show ?thesis by simp
  qed
qed simp

lemma source_teardown:
  assumes "source_inv re P m"
  shows "source_inv re P (teardown i reason m)"
proof -
  have r: "list_all (provenance re P) (map (\<lambda>a. resolution (f a) v) as)" for f v as
    by (induction as) (simp_all add: resolution_def)
  show ?thesis
    unfolding teardown_def cancelSessionApprovals_def Let_def
    by (intro source_log source_filter assms r) simp
qed

lemma source_teardown_all: "source_inv re P m \<Longrightarrow> source_inv re P (teardown_all reason is m)"
  by (induction reason "is" m rule: teardown_all.induct) (simp_all add: source_teardown)

lemma source_pause:
  assumes "source_inv re P m" "exec_pause cfg p now m = (r, m')"
  shows "source_inv re P m'"
proof -
  let ?m1 = "case Live m (PSession p) of
      Some s \<Rightarrow> if LState s = StateExecing then set_state (PSession p) StateAwaitingApproval m else m
    | None \<Rightarrow> m"
  have "source_inv re P ?m1" using assms(1) source_states(1) by (auto split: option.split)
  then have "source_inv re P (?m1\<lparr>ChangeStore := c\<rparr>)" for c by (simp add: source_inv_def)
  then have "source_inv re P (restore_exec (PSession p) now (log_all (?m1\<lparr>ChangeStore := c\<rparr>)
      [Emit i ''approval.requested'' pl]))" for c i pl
    by (intro source_states source_log) simp_all
  then show ?thesis using assms(2) by (auto simp: exec_pause_def Let_def split: prod.splits)
qed

definition sys_source :: "regexp \<Rightarrow> (string \<Rightarrow> policy \<Rightarrow> bool) \<Rightarrow> 'c sys \<Rightarrow> bool" where
  "sys_source re P \<sigma> \<longleftrightarrow> source_inv re P (Mgr \<sigma>) \<and> (\<forall>t \<in> set (Tasks \<sigma>). task_source re P t)"

lemma task_remove1: "\<forall>t \<in> set ts. task_source re P t \<Longrightarrow> \<forall>t \<in> set (remove1 x ts). task_source re P t"
  by (meson notin_set_remove1)

lemma sys_step_source:
  assumes "sys_step cfg P \<sigma> \<tau>" "sys_source (Re cfg) P \<sigma>"
  shows "sys_source (Re cfg) P \<tau>"
  using assms
proof (cases rule: sys_step.cases)
  case (create i s)
  with assms(2) show ?thesis by (auto simp: sys_source_def source_inv_def)
next
  case (exec_start i opts s m)
  then have "m = set_state i StateExecing (Mgr \<sigma>)" "Live (Mgr \<sigma>) i = Some s"
    by (auto simp: exec_begin_def split: option.splits if_splits)
  moreover from this have "P i (LPolicy s)" using assms(2) by (auto simp: sys_source_def source_inv_def)
  ultimately show ?thesis
    using exec_start(1) assms(2) source_states(1) by (auto simp: sys_source_def)
next
  case (exec_done i opts s e now w r m)
  then have "P i (LPolicy s)" using assms(2) by (auto simp: sys_source_def)
  with exec_done assms(2) source_decide [OF _ _ exec_done(4)] show ?thesis
    by (auto simp: sys_source_def dest: task_remove1)
next
  case (exec_gate i opts s e now w p m)
  then have "P i (LPolicy s)" using assms(2) by (auto simp: sys_source_def)
  with exec_gate assms(2) source_decide [OF _ _ exec_gate(4)] show ?thesis
    by (auto simp: sys_source_def dest: task_remove1)
next
  case (pause p now r m)
  with assms(2) source_pause [OF _ pause(3)] show ?thesis
    by (auto simp: sys_source_def dest: task_remove1)
next
  case (approve sid eid comment now a m)
  then obtain m1 where c: "claimPending sid eid GateApproved comment [] (Mgr \<sigma>) = (Inr a, m1)"
    "m = emitResolution a ''approved'' m1"
    by (auto simp: resolve_claim_def split: sum.splits prod.splits)
  have "source_inv (Re cfg) P (Mgr \<sigma>)" using assms(2) by (simp add: sys_source_def)
  from source_claim [OF this c(1)] have "source_inv (Re cfg) P m \<and> may_run (Re cfg) (P (ASession a)) (AExec a) (AArgv a)"
    by (auto simp: c(2) emitResolution_def resolution_def intro: source_log)
  with approve(1) assms(2) show ?thesis by (auto simp: sys_source_def)
next
  case (deny sid eid comment now a m)
  then obtain m1 where c: "claimPending sid eid GateDenied comment ''operator'' (Mgr \<sigma>) = (Inr a, m1)"
    "m = restoreReady sid now (emitResolution a ''denied'' m1)"
    by (auto simp: resolve_claim_def split: sum.splits prod.splits)
  have "source_inv (Re cfg) P (Mgr \<sigma>)" using assms(2) by (simp add: sys_source_def)
  from source_claim [OF this c(1)] have "source_inv (Re cfg) P m"
    unfolding c(2) emitResolution_def by (intro source_states source_log) (simp_all add: resolution_def)
  with deny(1) assms(2) show ?thesis by (auto simp: sys_source_def)
next
  case (run a now w a' m)
  have "source_inv (Re cfg) P (Mgr \<sigma>)" "may_run (Re cfg) (P (ASession a)) (AExec a) (AArgv a)"
    using assms(2) run(2) by (auto simp: sys_source_def)
  from source_run [OF this run(3)] run(1) assms(2) show ?thesis
    by (auto simp: sys_source_def dest: task_remove1)
next
  case (expire now ids m)
  with assms(2) source_expire show ?thesis by (auto simp: sys_source_def ExpireApprovals_def)
next
  case (destroy i m)
  with assms(2) show ?thesis
    by (auto simp: sys_source_def Destroy_def intro!: source_teardown source_drop split: option.splits)
next
  case (reap now ids due m)
  with assms(2) show ?thesis
    by (auto simp: sys_source_def ReapExpired_def Let_def intro!: source_teardown_all source_drop)
next
  case (shutdown ids)
  with assms(2) show ?thesis
    by (auto simp: sys_source_def Shutdown_def Let_def intro!: source_teardown_all source_drop)
qed

lemma reachable_source: "reachable cfg P \<sigma> \<Longrightarrow> sys_source (Re cfg) P \<sigma>"
proof (induction rule: reachable.induct)
  case (step \<sigma> \<tau>)
  from sys_step_source [OF step(2,3)] show ?case .
qed (simp add: sys_source_def source_inv_def init_sys_def)

subsection \<open>A run of the system\<close>

text \<open>A session whose policy gates every command, and the sections of one gate.\<close>

definition demo_policy :: policy where
  "demo_policy = Default\<lparr>ApprovalRequired := Some [''rm'']\<rparr>"

definition demo_cfg :: "(unit, buffer_sink) config" where
  "demo_cfg = \<lparr>Re = (\<lambda>_. Some (\<lambda>_. True)), Sha = (\<lambda>b. b), Redact = (\<lambda>s. s),
     RecordChange = (\<lambda>s i e argv run d diff c. ([], c)), ResolveRt = (\<lambda>_. None), DryRunEnabled = False,
     ApprovalTTL = 600, OutputCap = 8, CallerSink = bufferSink, CallerState = newBufferSink 8\<rparr>"

definition demo_session :: live_session where
  "demo_session = \<lparr>LState = StateReady, LTier = ''gvisor'', LPolicy = demo_policy, LPolicyHash = ''h'',
     CredEnv = [], LastActivity = 0, LTTL = 0\<rparr>"

definition demo_opts :: exec_options where
  "demo_opts = \<lparr>ExecArgv = [''rm'', ''x''], Cwd = [], Env = [], Writable = []\<rparr>"

definition demo_world :: world where
  "demo_world = \<lparr>PreviewOutcome = ExecFails [], PlanFile = Inl [],
     RunOutcome = ExecRuns \<lparr>OutReads = [], ErrReads = [], ExitCode = 0, WaitResult = None\<rparr> []\<rparr>"

definition demo_new :: "unit manager" where
  "demo_new = \<lparr>Live = [''s'' \<mapsto> demo_session], Gates = [], Log = [], ChangeStore = ()\<rparr>"

definition demo_begun :: "unit manager" where
  "demo_begun = snd (exec_begin demo_cfg ''s'' demo_opts demo_new)"

definition demo_pause :: "exec_result \<times> unit manager" where
  "demo_pause = exec_decide demo_cfg ''s'' demo_opts demo_session ''e'' 5 demo_world demo_begun"

fun paused :: "exec_result \<Rightarrow> pause" where
  "paused (ExecPaused p) = p"

lemma exec_start_snd:
  assumes "fst (exec_begin cfg i opts (Mgr \<sigma>)) = Inr s"
  shows "sys_step cfg P \<sigma> (\<sigma>\<lparr>Mgr := snd (exec_begin cfg i opts (Mgr \<sigma>)), Tasks := ExecTask i opts s # Tasks \<sigma>\<rparr>)"
  by (rule exec_start) (simp add: prod_eq_iff assms)

lemma exec_gate_snd:
  assumes "ExecTask i opts s \<in> set (Tasks \<sigma>)" "e \<notin> Used \<sigma>"
    and "fst (exec_decide cfg i opts s e now w (Mgr \<sigma>)) = ExecPaused p"
  shows "sys_step cfg P \<sigma> \<lparr>Mgr = snd (exec_decide cfg i opts s e now w (Mgr \<sigma>)),
      Tasks = PauseTask p # remove1 (ExecTask i opts s) (Tasks \<sigma>), Used = insert e (Used \<sigma>)\<rparr>"
  by (rule exec_gate [OF assms(1,2), where now = now and w = w]) (simp add: prod_eq_iff assms(3))

lemma approve_snd:
  assumes "fst (resolve_claim sid eid ''approve'' c now (Mgr \<sigma>)) = Inr a"
  shows "sys_step cfg P \<sigma> (\<sigma>\<lparr>Mgr := snd (resolve_claim sid eid ''approve'' c now (Mgr \<sigma>)),
      Tasks := RunTask a # Tasks \<sigma>\<rparr>)"
  by (rule approve [where sid = sid and eid = eid and comment = c and now = now]) (simp add: prod_eq_iff assms)

lemma run_snd:
  assumes "RunTask a \<in> set (Tasks \<sigma>)"
  shows "sys_step cfg P \<sigma> (\<sigma>\<lparr>Mgr := snd (runApproved cfg a now w (Mgr \<sigma>)),
      Tasks := remove1 (RunTask a) (Tasks \<sigma>)\<rparr>)"
  by (rule run [OF assms]) (rule surjective_pairing)

lemma pause_snd:
  assumes "PauseTask p \<in> set (Tasks \<sigma>)"
  shows "sys_step cfg P \<sigma> (\<sigma>\<lparr>Mgr := snd (exec_pause cfg p now (Mgr \<sigma>)),
      Tasks := remove1 (PauseTask p) (Tasks \<sigma>)\<rparr>)"
  by (rule pause [OF assms]) (rule surjective_pairing)

definition demo_gate :: approval where
  "demo_gate = new_gate demo_cfg ''s'' ''e'' demo_opts (Classify (Re demo_cfg) demo_policy [''rm'', ''x'']) ''h'' 5
     [''rm'', ''x''] [] [] ''none'' [] []"

definition demo_claim :: "unit manager \<Rightarrow> (session_error + approval) \<times> unit manager" where
  "demo_claim m = resolve_claim ''s'' ''e'' ''approve'' ''fine'' 6 m"

definition demo_claimed :: approval where
  "demo_claimed = demo_gate\<lparr>AStatus := GateApproved, AComment := ''fine''\<rparr>"

text \<open>In order: the session is paused before the gate is approved and run.\<close>

definition demo_paused :: "unit manager" where
  "demo_paused = snd (exec_pause demo_cfg (paused (fst demo_pause)) 5 (snd demo_pause))"

definition demo_final :: "unit manager" where
  "demo_final = snd (runApproved demo_cfg demo_claimed 7 demo_world (snd (demo_claim demo_paused)))"

text \<open>Out of order: the gate is approved and its run refused before the session is paused.\<close>

definition demo_raced :: "unit manager" where
  "demo_raced = snd (exec_pause demo_cfg (paused (fst demo_pause)) 7
     (snd (runApproved demo_cfg demo_claimed 6 demo_world (snd (demo_claim (snd demo_pause))))))"

lemma demo_facts:
  "fst (exec_begin demo_cfg ''s'' demo_opts demo_new) = Inr demo_session"
  "fst demo_pause = ExecPaused (paused (fst demo_pause))"
  "fst (demo_claim demo_paused) = Inr demo_claimed"
  "fst (demo_claim (snd demo_pause)) = Inr demo_claimed"
  by code_simp+

lemma demo_gate_reachable:
  "reachable demo_cfg (\<lambda>i. (=) demo_policy) \<lparr>Mgr = snd demo_pause, Tasks = [PauseTask (paused (fst demo_pause))],
     Used = {''e''}\<rparr>"
proof -
  let ?P = "\<lambda>i. (=) demo_policy"
  have "sys_step demo_cfg ?P (init_sys ()) \<lparr>Mgr = demo_new, Tasks = [], Used = {}\<rparr>"
    using sys_step.create [of "init_sys ()" "''s''" demo_session ?P demo_cfg]
    by (simp add: init_sys_def demo_session_def demo_new_def)
  then have "reachable demo_cfg ?P \<lparr>Mgr = demo_new, Tasks = [], Used = {}\<rparr>"
    by (rule reachable.step [OF reachable.start])
  then have "reachable demo_cfg ?P \<lparr>Mgr = demo_begun, Tasks = [ExecTask ''s'' demo_opts demo_session], Used = {}\<rparr>"
    using exec_start_snd [of demo_cfg "''s''" demo_opts "\<lparr>Mgr = demo_new, Tasks = [], Used = {}\<rparr>" demo_session ?P]
    by (auto simp: demo_begun_def demo_facts(1) intro: reachable.step)
  moreover have "sys_step demo_cfg ?P \<lparr>Mgr = demo_begun, Tasks = [ExecTask ''s'' demo_opts demo_session], Used = {}\<rparr>
      \<lparr>Mgr = snd demo_pause, Tasks = [PauseTask (paused (fst demo_pause))], Used = {''e''}\<rparr>"
    using exec_gate_snd [of "''s''" demo_opts demo_session
        "\<lparr>Mgr = demo_begun, Tasks = [ExecTask ''s'' demo_opts demo_session], Used = {}\<rparr>" "''e''" demo_cfg 5
        demo_world "paused (fst demo_pause)" ?P] demo_facts(2)
    by (simp add: demo_pause_def)
  ultimately show ?thesis by (rule reachable.step)
qed

lemma demo_final_reachable:
  "reachable demo_cfg (\<lambda>i. (=) demo_policy) \<lparr>Mgr = demo_final, Tasks = [], Used = {''e''}\<rparr>"
proof -
  let ?P = "\<lambda>i. (=) demo_policy"
  have "reachable demo_cfg ?P \<lparr>Mgr = demo_paused, Tasks = [], Used = {''e''}\<rparr>"
    using reachable.step [OF demo_gate_reachable pause_snd [of "paused (fst demo_pause)"]]
    by (simp add: demo_paused_def)
  from reachable.step [OF this approve_snd [of "''s''" "''e''" "''fine''" 6 _ demo_claimed]]
  have "reachable demo_cfg ?P \<lparr>Mgr = snd (demo_claim demo_paused), Tasks = [RunTask demo_claimed], Used = {''e''}\<rparr>"
    using demo_facts(3) by (simp add: demo_claim_def)
  from reachable.step [OF this run_snd [of demo_claimed _ demo_cfg ?P 7 demo_world]] show ?thesis
    by (simp add: demo_final_def)
qed

lemma demo_raced_reachable:
  "reachable demo_cfg (\<lambda>i. (=) demo_policy) \<lparr>Mgr = demo_raced, Tasks = [], Used = {''e''}\<rparr>"
proof -
  let ?P = "\<lambda>i. (=) demo_policy" and ?t = "PauseTask (paused (fst demo_pause))"
  from reachable.step [OF demo_gate_reachable approve_snd [of "''s''" "''e''" "''fine''" 6 _ demo_claimed]]
  have "reachable demo_cfg ?P \<lparr>Mgr = snd (demo_claim (snd demo_pause)), Tasks = [RunTask demo_claimed, ?t], Used = {''e''}\<rparr>"
    using demo_facts(4) by (simp add: demo_claim_def)
  from reachable.step [OF this run_snd [of demo_claimed _ demo_cfg ?P 6 demo_world]]
  have "reachable demo_cfg ?P \<lparr>Mgr = snd (runApproved demo_cfg demo_claimed 6 demo_world (snd (demo_claim (snd demo_pause)))),
      Tasks = [?t], Used = {''e''}\<rparr>"
    by simp
  from reachable.step [OF this pause_snd [of "paused (fst demo_pause)" _ demo_cfg ?P 7]] show ?thesis
    by (simp add: demo_raced_def)
qed

lemma demo_final_history: "gate_history ''e'' (Log demo_final) = [GApproved, GRun]"
  by code_simp

subsection \<open>Properties\<close>

text \<open>
  C1: The protocol of a gate, under every interleaving of the operations of the manager. What
  the log shows of one gate is at most one preview followed by at most one decision, by a human,
  the timeout or the end of the session; the gated command is handed to the runtime only after
  an approval, at most once, and not when the plan was found changed.
\<close>

theorem gate_protocol:
  assumes "reachable cfg P \<sigma>"
  shows "\<exists>pre t. gate_history e (Log (Mgr \<sigma>)) = pre @ t \<and> pre \<in> {[], [GPreview]} \<and>
    t \<in> {[], [GDenied], [GApproved], [GApproved, GRun], [GApproved, GTampered]}"
proof -
  have "valid_history (gate_history e (Log (Mgr \<sigma>)))"
    using reachable_inv [OF assms] by (simp add: sys_inv_def gates_inv_def)
  then consider "gate_history e (Log (Mgr \<sigma>)) \<in> outcomes"
    | t where "t \<in> outcomes" "gate_history e (Log (Mgr \<sigma>)) = [GPreview] @ t"
    by (auto simp: valid_history_def)
  then show ?thesis unfolding outcomes_def by cases blast+
qed

theorem gate_protocol_witness:
  "(\<exists>pre t. gate_history ''e'' (Log demo_final) = pre @ t \<and> pre \<in> {[], [GPreview]} \<and>
     t \<in> {[], [GDenied], [GApproved], [GApproved, GRun], [GApproved, GTampered]}) \<and>
   gate_history ''e'' (Log demo_final) = [GApproved, GRun]"
  using gate_protocol [OF demo_final_reachable, of "''e''"] by (simp add: demo_final_history)

text \<open>
  C2: Where commands come from. Let \<open>policy_of i\<close> be the policy the session \<open>i\<close> was created with,
  which its record keeps. Every command handed to the runtime for \<open>i\<close> directly was classified by
  \<open>policy_of i\<close> as allowed; a preview and an approved run for \<open>i\<close> belong to a command that
  \<open>policy_of i\<close> gates: the preview is its dry-run rewrite and the run is the command itself or the
  command the rewrite replaces it by.
\<close>

theorem commands_are_classified:
  assumes "reachable cfg (\<lambda>i p. p = policy_of i) \<sigma>" and "RtExec org i argv env cwd \<in> set (Log (Mgr \<sigma>))"
  shows "(\<exists>orig. case org of
       DirectExec \<Rightarrow> argv = orig \<and> Verdict (Classify (Re cfg) (policy_of i) orig) = VerdictAllow
     | PreviewOf e \<Rightarrow> Verdict (Classify (Re cfg) (policy_of i) orig) = VerdictNeedsApproval \<and>
         argv = PreviewArgv (RewriteForDryRun (Re cfg) orig (DryRun (policy_of i)) (plan_path e))
     | ApprovedRun e \<Rightarrow> Verdict (Classify (Re cfg) (policy_of i) orig) = VerdictNeedsApproval \<and>
         argv \<in> {orig, ApprovedArgv (RewriteForDryRun (Re cfg) orig (DryRun (policy_of i)) (plan_path e))}) \<and>
    (case Live (Mgr \<sigma>) i of None \<Rightarrow> True | Some s \<Rightarrow> LPolicy s = policy_of i)"
proof -
  let ?P = "\<lambda>i p. p = policy_of i"
  have "provenance (Re cfg) ?P (RtExec org i argv env cwd)"
    "case Live (Mgr \<sigma>) i of None \<Rightarrow> True | Some s \<Rightarrow> LPolicy s = policy_of i"
    using reachable_source [OF assms(1)] assms(2)
    by (auto simp: sys_source_def source_inv_def list_all_iff simp del: provenance.simps split: option.split)
  then show ?thesis
    by (cases org) (auto simp: gated_def may_run_def gated_rewrite_def)
qed

theorem commands_are_classified_witness:
  "RtExec (ApprovedRun ''e'') ''s'' [''rm'', ''x''] [] [] \<in> set (Log demo_final) \<and>
   (\<exists>orig. Verdict (Classify (Re demo_cfg) demo_policy orig) = VerdictNeedsApproval)"
proof -
  have l: "RtExec (ApprovedRun ''e'') ''s'' [''rm'', ''x''] [] [] \<in> set (Log demo_final)" by code_simp
  have "(\<lambda>i p. p = demo_policy) = (\<lambda>i::string. (=) demo_policy)" by (intro ext) auto
  then have "reachable demo_cfg (\<lambda>i p. p = demo_policy) \<lparr>Mgr = demo_final, Tasks = [], Used = {''e''}\<rparr>"
    using demo_final_reachable by (simp only:)
  from commands_are_classified [OF this, simplified, OF l] l show ?thesis by auto
qed

definition can_run :: "('c, 's) config \<Rightarrow> approval \<Rightarrow> world \<Rightarrow> live_session option \<Rightarrow> bool" where
  "can_run cfg a w so =
     (case so of None \<Rightarrow> False
      | Some s \<Rightarrow> LState s \<in> {StateAwaitingApproval, StateReady} \<and> ResolveRt cfg (LTier s) = None \<and>
          (PlanHash a \<noteq> [] \<longrightarrow> (\<exists>b. PlanFile w = Inr b \<and> Sha cfg b = PlanHash a)))"

fun is_command :: "effect \<Rightarrow> bool" where
  "is_command (RtExec org i argv env cwd) = True"
| "is_command x = False"

lemma runExec_commands:
  "runExec k cap org cred i opts out s = (r, es) \<Longrightarrow>
     filter is_command es = [RtExec org i (ExecArgv opts) (Env opts @ cred) (Cwd opts)]"
proof -
  have "filter is_command (map (EmitOutput i) xs) = []" for xs by (induction xs) auto
  then show "runExec k cap org cred i opts out s = (r, es) \<Longrightarrow> ?thesis"
    by (auto simp: runExec_def Let_def split: exec_outcome.splits prod.splits)
qed

lemma plan_intact_iff:
  "plan_intact cfg a f \<longleftrightarrow> (PlanHash a \<noteq> [] \<longrightarrow> (\<exists>b. f = Inr b \<and> Sha cfg b = PlanHash a))"
  by (auto simp: plan_intact_def split: sum.split)

text \<open>
  Why a claimed run is refused, in the order of the checks: the session is gone or in a state that
  may not run, its runtime does not resolve, or the saved plan is not the one that was reviewed.
\<close>

definition refusal :: "('c, 's) config \<Rightarrow> live_session option \<Rightarrow> string" where
  "refusal cfg so =
     (case so of
        None \<Rightarrow> ''session ended before approval could run''
      | Some s \<Rightarrow>
          if LState s \<in> {StateAwaitingApproval, StateReady}
          then (case ResolveRt cfg (LTier s) of Some e \<Rightarrow> e
                | None \<Rightarrow> ''saved plan changed after review (tamper detected); apply refused'')
          else ''session ended before approval could run'')"

lemma store_run_stored:
  assumes "map_of (Gates m) (approvalKey (ASession a) (AExec a)) = Some c" "AExec c = AExec a"
  shows "map_of (Gates (store_run a m)) (approvalKey (ASession a) (AExec a)) = Some a"
  using assms by (simp add: store_run_def)

lemma runApproved_ids:
  "runApproved cfg a now w m = (b, m') \<Longrightarrow> ASession b = ASession a \<and> AExec b = AExec a"
  by (auto simp: runApproved_def run_failed_def Let_def split: option.splits if_splits prod.splits)

text \<open>
  C6: An approved gate runs exactly the command that was pinned when it was registered, and only
  when its session still exists in a state that may run, the runtime resolves, and the saved
  plan, read again, hashes to the value pinned at preview. Otherwise nothing is handed to the
  runtime and the record says why: the session ended, the resolver's error, or a plan that was
  changed after its review. Either way the gate's record in the table becomes the returned one.
\<close>

theorem approved_run_exact:
  assumes "runApproved cfg a now w m = (b, m')"
  shows "filter is_command (drop (length (Log m)) (Log m')) =
      (case Live m (ASession a) of None \<Rightarrow> []
       | Some s \<Rightarrow> if can_run cfg a w (Some s)
           then [RtExec (ApprovedRun (AExec a)) (ASession a) (AArgv a) (AEnv a @ CredEnv s) (ACwd a)] else []) \<and>
    Ran b \<and>
    (\<not> can_run cfg a w (Live m (ASession a)) \<longrightarrow>
       RunErr b = refusal cfg (Live m (ASession a)) \<and> AExitCode b = -1 \<and> AStdout b = AStdout a) \<and>
    (case map_of (Gates m) (approvalKey (ASession a) (AExec a)) of
       None \<Rightarrow> True
     | Some c \<Rightarrow> AExec c = AExec a \<longrightarrow> GetApproval (ASession a) (AExec a) m' = Inr b)"
proof -
  obtain es m1 h where m1: "m' = store_run b m1" "Gates m1 = Gates m"
    using runApproved_shape [OF assms] by blast
  have stored: "case map_of (Gates m) (approvalKey (ASession a) (AExec a)) of
       None \<Rightarrow> True
     | Some c \<Rightarrow> AExec c = AExec a \<longrightarrow> GetApproval (ASession a) (AExec a) m' = Inr b"
    using store_run_stored [of m1 b] runApproved_ids [OF assms] m1
    by (auto simp: GetApproval_def split: option.split)
  have ran: "filter is_command (drop (length (Log m)) (Log m')) =
      (case Live m (ASession a) of None \<Rightarrow> []
       | Some s \<Rightarrow> if can_run cfg a w (Some s)
           then [RtExec (ApprovedRun (AExec a)) (ASession a) (AArgv a) (AEnv a @ CredEnv s) (ACwd a)] else []) \<and>
    Ran b \<and>
    (\<not> can_run cfg a w (Live m (ASession a)) \<longrightarrow>
       RunErr b = refusal cfg (Live m (ASession a)) \<and> AExitCode b = -1 \<and> AStdout b = AStdout a)"
  proof (cases "Live m (ASession a)")
    case None
    with assms show ?thesis by (auto simp: runApproved_def Let_def run_failed_def can_run_def refusal_def)
  next
    case (Some s)
    show ?thesis
    proof (cases "can_run cfg a w (Some s)")
      case False
      with Some assms show ?thesis
        by (auto simp: runApproved_def Let_def run_failed_def can_run_def plan_intact_iff tampered_def refusal_def
            split: if_splits option.splits)
    next
      case True
      obtain err k es where r: "runExec bufferSink (OutputCap cfg) (ApprovedRun (AExec a)) (CredEnv s)
          (ASession a) \<lparr>ExecArgv = AArgv a, Cwd = ACwd a, Env = AEnv a, Writable = []\<rparr> (RunOutcome w)
          (newBufferSink (int (OutputCap cfg))) = ((err, k), es)"
        by (metis prod.exhaust)
      have "plan_intact cfg a (PlanFile w)" using True by (auto simp: can_run_def plan_intact_iff)
      with Some True r assms have "Log m' = Log m @ es" "Ran b"
        by (auto simp: runApproved_def Let_def can_run_def)
      with runExec_commands [OF r] Some True show ?thesis by simp
    qed
  qed
  from conjunct1 [OF ran] conjunct1 [OF conjunct2 [OF ran]] conjunct2 [OF conjunct2 [OF ran]] stored
  show ?thesis by (intro conjI)
qed

definition tampered_gate :: approval where
  "tampered_gate = demo_claimed\<lparr>PlanHash := ''reviewed''\<rparr>"

theorem approved_run_exact_witness:
  "filter is_command (drop (length (Log demo_paused))
     (Log (snd (runApproved demo_cfg tampered_gate 7 (demo_world\<lparr>PlanFile := Inr ''changed''\<rparr>) demo_paused)))) = [] \<and>
   RunErr (fst (runApproved demo_cfg tampered_gate 7 (demo_world\<lparr>PlanFile := Inr ''changed''\<rparr>) demo_paused)) =
     ''saved plan changed after review (tamper detected); apply refused''"
proof -
  have l: "Live demo_paused (ASession tampered_gate) = Some (demo_session\<lparr>LState := StateAwaitingApproval\<rparr>)"
    by code_simp
  have c: "\<not> can_run demo_cfg tampered_gate (demo_world\<lparr>PlanFile := Inr ''changed''\<rparr>)
      (Some (demo_session\<lparr>LState := StateAwaitingApproval\<rparr>))"
    by (simp add: can_run_def demo_cfg_def tampered_gate_def)
  have r: "refusal demo_cfg (Some (demo_session\<lparr>LState := StateAwaitingApproval\<rparr>)) =
      ''saved plan changed after review (tamper detected); apply refused''"
    by (simp add: refusal_def demo_cfg_def)
  note e = approved_run_exact [OF surjective_pairing [of "runApproved demo_cfg tampered_gate 7
      (demo_world\<lparr>PlanFile := Inr ''changed''\<rparr>) demo_paused"], unfolded l r option.case]
  show ?thesis using conjunct1 [OF e] conjunct1 [OF conjunct2 [OF conjunct2 [OF e]]] c by simp
qed

text \<open>The table after a round of timeouts: the pending gates of the list are denied.\<close>

definition timed_out :: "approval \<Rightarrow> approval" where
  "timed_out a = a\<lparr>AStatus := GateDenied, AComment := [], DenyReason := ''timeout''\<rparr>"

abbreviation key_of :: "approval \<Rightarrow> string" where
  "key_of a \<equiv> approvalKey (ASession a) (AExec a)"

lemma expire_each_table:
  "expire_each now as m = (ids, m') \<Longrightarrow>
     map_of (Gates m') k = map_option (\<lambda>b. if AStatus b = GatePending \<and> k \<in> key_of ` set as
       then timed_out b else b) (map_of (Gates m) k)"
proof (induction now as m arbitrary: ids m' rule: expire_each.induct)
  case (2 now a as m)
  obtain r m1 where c: "claimPending (ASession a) (AExec a) GateDenied [] ''timeout'' m = (r, m1)"
    by (cases "claimPending (ASession a) (AExec a) GateDenied [] ''timeout'' m") auto
  show ?case
  proof (cases r)
    case (Inl e)
    have m1: "m1 = m" using claimPending_Inl [OF c [unfolded Inl]] .
    have np: "\<And>b. map_of (Gates m) (key_of a) = Some b \<Longrightarrow> AStatus b \<noteq> GatePending"
      using c Inl by (auto simp: claimPending_def Let_def split: option.splits if_splits)
    have "expire_each now as m1 = (ids, m')" using 2(3) c Inl by simp
    from 2(1) [OF c [symmetric] Inl this] m1 np show ?thesis
      by (cases "map_of (Gates m) k") auto
  next
    case (Inr b)
    let ?m2 = "restoreReady (ASession b) now (emitResolution b ''denied'' m1)"
    obtain ids' m3 where rest: "expire_each now as ?m2 = (ids', m3)" by fastforce
    obtain b0 where b0: "map_of (Gates m) (key_of a) = Some b0" "AStatus b0 = GatePending"
      "b = timed_out b0" "m1 = m\<lparr>Gates := al_put (key_of a) b (Gates m)\<rparr>"
      using claimPending_Inr [OF c [unfolded Inr]] unfolding timed_out_def by blast
    have "map_of (Gates m') k = map_option (\<lambda>b. if AStatus b = GatePending \<and> k \<in> key_of ` set as
       then timed_out b else b) (map_of (Gates ?m2) k)"
      using 2(2) [OF c [symmetric] Inr rest] 2(3) c Inr rest by simp
    moreover have "map_of (Gates ?m2) k = (if k = key_of a then Some (timed_out b0) else map_of (Gates m) k)"
      using b0 by (simp add: emitResolution_def)
    ultimately show ?thesis using b0 by (auto simp: timed_out_def split: option.split)
  qed
qed (auto simp: option.map_ident_strong)

text \<open>
  C8: A gate that nobody decides is denied by the timeout. After a round of the reaper at \<open>now\<close>
  every gate that was pending with its deadline passed is denied with reason \<open>timeout\<close>, so a late
  approval finds it resolved, and every other gate is as it was.
\<close>

theorem timeout_denies:
  assumes "reachable cfg P \<sigma>" and "ExpireApprovals now (Mgr \<sigma>) = (ids, m)"
    and "GetApproval sid eid (Mgr \<sigma>) = Inr a"
  shows "GetApproval sid eid m =
      Inr (if AStatus a = GatePending \<and> Deadline a \<le> now then timed_out a else a) \<and>
    (AStatus a = GatePending \<and> Deadline a \<le> now \<longrightarrow>
      resolve_claim sid eid ''approve'' c t m = (Inl (GateResolved sid eid GateDenied), m))"
proof -
  let ?k = "approvalKey sid eid"
  from assms(3) have a: "map_of (Gates (Mgr \<sigma>)) ?k = Some a"
    by (auto simp: GetApproval_def split: option.splits)
  have inv: "gates_inv (Used \<sigma>) (run_ids (Tasks \<sigma>)) (Gates (Mgr \<sigma>)) (Log (Mgr \<sigma>))"
    using reachable_inv [OF assms(1)] by (simp add: sys_inv_def)
  have ok: "\<forall>(k, b) \<in> set (Gates (Mgr \<sigma>)). k = key_of b" and d: "distinct (map fst (Gates (Mgr \<sigma>)))"
    using inv by (auto simp: gates_inv_def gate_ok_def)
  have "?k \<in> key_of ` set (due_gates now (Mgr \<sigma>)) \<longleftrightarrow> AStatus a = GatePending \<and> Deadline a \<le> now"
  proof
    assume "?k \<in> key_of ` set (due_gates now (Mgr \<sigma>))"
    then obtain k b where b: "(k, b) \<in> set (Gates (Mgr \<sigma>))" "key_of b = ?k" "AStatus b = GatePending"
      "Deadline b \<le> now"
      by (auto simp: due_gates_def)
    with ok have "(?k, b) \<in> set (Gates (Mgr \<sigma>))" by auto
    with d a have "b = a" by (simp add: map_of_eq_Some_iff)
    with b show "AStatus a = GatePending \<and> Deadline a \<le> now" by simp
  next
    assume "AStatus a = GatePending \<and> Deadline a \<le> now"
    moreover from map_of_SomeD [OF a] ok have "?k = key_of a" by auto
    ultimately show "?k \<in> key_of ` set (due_gates now (Mgr \<sigma>))"
      using map_of_SomeD [OF a] by (force simp: due_gates_def)
  qed
  with expire_each_table [OF assms(2) [unfolded ExpireApprovals_def], of ?k] a
  have "map_of (Gates m) ?k = Some (if AStatus a = GatePending \<and> Deadline a \<le> now then timed_out a else a)"
    by auto
  then show ?thesis by (simp add: GetApproval_def resolve_claim_def claimPending_def timed_out_def)
qed

theorem timeout_denies_witness:
  "resolve_claim ''s'' ''e'' ''approve'' [] 0 (snd (ExpireApprovals 605 demo_paused)) =
     (Inl (GateResolved ''s'' ''e'' GateDenied), snd (ExpireApprovals 605 demo_paused))"
proof -
  have g: "GetApproval ''s'' ''e'' (snd demo_pause) = Inr demo_gate"
    "AStatus demo_gate = GatePending \<and> Deadline demo_gate \<le> 605"
    by code_simp+
  have "reachable demo_cfg (\<lambda>i. (=) demo_policy) \<lparr>Mgr = demo_paused, Tasks = [], Used = {''e''}\<rparr>"
    using reachable.step [OF demo_gate_reachable pause_snd [of "paused (fst demo_pause)"]]
    by (simp add: demo_paused_def)
  moreover have "GetApproval ''s'' ''e'' demo_paused = Inr demo_gate" by code_simp
  ultimately show ?thesis
    using timeout_denies [of demo_cfg "\<lambda>i. (=) demo_policy" "\<lparr>Mgr = demo_paused, Tasks = [], Used = {''e''}\<rparr>"
        605 "fst (ExpireApprovals 605 demo_paused)" "snd (ExpireApprovals 605 demo_paused)" "''s''" "''e''"
        demo_gate "[]" 0] g(2)
    by simp
qed

text \<open>
  C7: The end of a session fails closed. When a session is destroyed it is gone, no gate of it is
  left, and the log shows each of its pending gates denied, and nothing else of them.
\<close>

theorem session_end_denies:
  assumes "reachable cfg P \<sigma>" and "Destroy i (Mgr \<sigma>) = (None, m)"
  shows "Live m i = None \<and> (\<forall>a \<in> snd ` set (Gates m). ASession a \<noteq> i) \<and>
    (\<forall>a \<in> snd ` set (Gates (Mgr \<sigma>)). ASession a = i \<and> AStatus a = GatePending \<longrightarrow>
       filter (\<lambda>x. x \<noteq> GPreview) (gate_history (AExec a) (Log m)) = [GDenied])"
proof -
  have m: "m = teardown i ''destroyed'' ((Mgr \<sigma>)\<lparr>Live := (Live (Mgr \<sigma>))(i := None)\<rparr>)"
    using assms(2) by (auto simp: Destroy_def split: option.splits)
  have inv: "gates_inv (Used \<sigma>) (run_ids (Tasks \<sigma>)) (Gates (Mgr \<sigma>)) (Log (Mgr \<sigma>))"
    using reachable_inv [OF assms(1)] by (simp add: sys_inv_def)
  let ?es = "map (\<lambda>a. resolution (a\<lparr>AStatus := GateDenied, DenyReason := ''session_end''\<rparr>) ''denied'')
      (filter (\<lambda>a. AStatus a = GatePending) (filter (\<lambda>a. ASession a = i) (map snd (Gates (Mgr \<sigma>)))))"
  have log: "Log m = Log (Mgr \<sigma>) @ ?es @ [Emit i ''session.end'' [(''reason'', ''destroyed'')]]"
    by (simp add: m teardown_def cancelSessionApprovals_def Let_def)
  have denied: "decided (AExec a) (Log m) = [GDenied]"
    if a: "(k, a) \<in> set (Gates (Mgr \<sigma>))" "ASession a = i" "AStatus a = GatePending" for k a
  proof -
    have "decided (AExec a) (Log (Mgr \<sigma>)) = []" using inv a by (auto simp: gates_inv_def gate_ok_def)
    moreover have "gate_history (AExec a) ?es = [GDenied]"
      using denied_history [of "Gates (Mgr \<sigma>)" "''session_end''" "AExec a" "\<lambda>a. ASession a = i"] inv a
      by (auto simp: gates_inv_def)
    ultimately show ?thesis by (simp add: log decided_def)
  qed
  have "Live m i = None" "\<forall>a \<in> snd ` set (Gates m). ASession a \<noteq> i"
    by (auto simp: m teardown_def cancelSessionApprovals_def Let_def)
  with denied show ?thesis by (auto simp: decided_def)
qed

theorem session_end_denies_witness:
  "gate_history ''e'' (Log (snd (Destroy ''s'' (snd demo_pause)))) = [GDenied]"
proof -
  have d: "Destroy ''s'' (snd demo_pause) = (None, snd (Destroy ''s'' (snd demo_pause)))"
    "gate_history ''e'' (Log (snd (Destroy ''s'' (snd demo_pause)))) =
       filter (\<lambda>x. x \<noteq> GPreview) (gate_history ''e'' (Log (snd (Destroy ''s'' (snd demo_pause)))))"
    "Gates (snd demo_pause) = [(approvalKey ''s'' ''e'', demo_gate)]"
    "ASession demo_gate = ''s''" "AStatus demo_gate = GatePending" "AExec demo_gate = ''e''"
    subgoal by (simp add: prod_eq_iff) code_simp
    by code_simp+
  from session_end_denies [OF demo_gate_reachable, simplified, OF d(1)] d(2-6) show ?thesis by simp
qed

text \<open>
  The window between the registration of a gate and the pause of its session. A gate
  approved in that window is consumed without a run, because the session still counts as
  executing, and the pause that follows leaves the session waiting for an approval that no gate
  can give: nothing is pending, no section is left to run, and every further exec is refused.
\<close>

theorem gate_race_strands_session:
  "\<exists>\<sigma>. reachable demo_cfg (\<lambda>i. (=) demo_policy) \<sigma> \<and> Tasks \<sigma> = [] \<and> ListApprovals (Mgr \<sigma>) = [] \<and>
     gate_history ''e'' (Log (Mgr \<sigma>)) = [GApproved] \<and>
     map_option LState (Live (Mgr \<sigma>) ''s'') = Some StateAwaitingApproval \<and>
     fst (exec_begin demo_cfg ''s'' demo_opts (Mgr \<sigma>)) = Inl (NotReady ''s'' StateAwaitingApproval)"
proof (intro exI conjI)
  let ?\<sigma> = "\<lparr>Mgr = demo_raced, Tasks = [], Used = {''e''}\<rparr>"
  show "reachable demo_cfg (\<lambda>i. (=) demo_policy) ?\<sigma>" by (rule demo_raced_reachable)
  show "Tasks ?\<sigma> = []" by simp
  show "ListApprovals (Mgr ?\<sigma>) = []"
    "gate_history ''e'' (Log (Mgr ?\<sigma>)) = [GApproved]"
    "map_option LState (Live (Mgr ?\<sigma>) ''s'') = Some StateAwaitingApproval"
    "fst (exec_begin demo_cfg ''s'' demo_opts (Mgr ?\<sigma>)) = Inl (NotReady ''s'' StateAwaitingApproval)"
    unfolding sys.select_convs by code_simp+
qed

end
