(* ===== verification/Ssh_Agent.thy ===== *)
theory Ssh_Agent
  imports "HOL-Library.Word" Ops_Prelude
begin

unbundle bit_operations_syntax

text \<open>
  \<^verbatim>\<open>internal/sshagent\<close>: the framing and the messages of the SSH agent protocol (\<^verbatim>\<open>protocol.go\<close>)
  and the proxy between a sandbox and the daemon's agent (\<^verbatim>\<open>proxy.go\<close>). Bytes are 8-bit and
  lengths 32-bit words. What the sandbox sends on one connection is a list of bytes, the agent
  is a function on its own state, and \<open>ws\<close> tells which writes to the sandbox succeed. SHA-256
  with its base64 text is the parameter \<open>sha\<close>.
\<close>

type_synonym bytes = "8 word list"

datatype agent_error =
    EOF | UnexpectedEOF | TruncatedLength | StringTooLong | TruncatedUint32 | TruncatedBool
  | SliceOutOfRange | NoHostKey | NoHostSignature | ZeroLength | MessageTooLong nat

subsection \<open>Big-endian 32-bit integers\<close>

fun Uint32 :: "bytes \<Rightarrow> 32 word" where
  "Uint32 (a # b # c # d # r) =
     push_bit 24 (ucast a) OR push_bit 16 (ucast b) OR push_bit 8 (ucast c) OR ucast d"
| "Uint32 r = 0"

definition PutUint32 :: "32 word \<Rightarrow> bytes" where
  "PutUint32 v = [ucast (drop_bit 24 v), ucast (drop_bit 16 v), ucast (drop_bit 8 v), ucast v]"

lemma length_PutUint32 [simp]: "length (PutUint32 v) = 4"
  by (simp add: PutUint32_def)

lemma Uint32_PutUint32: "Uint32 (PutUint32 v @ r) = v"
proof (rule bit_word_eqI)
  fix n assume "n < LENGTH(32)"
  then have "n < 8 \<or> (8 \<le> n \<and> n < 16) \<or> (16 \<le> n \<and> n < 24) \<or> (24 \<le> n \<and> n < 32)" by auto
  then show "bit (Uint32 (PutUint32 v @ r)) n \<longleftrightarrow> bit v n"
    by (auto simp: PutUint32_def bit_simps)
qed

lemma high_bits_clear [simp]: "8 \<le> n \<Longrightarrow> \<not> bit (w :: 8 word) n"
  by (auto dest: bit_imp_le_length)

lemma PutUint32_Uint32:
  "PutUint32 (Uint32 [a, b, c, d]) = [a, b, c, d]"
  by (simp add: PutUint32_def) (auto intro!: bit_word_eqI simp: bit_simps)

subsection \<open>The reader\<close>

text \<open>
  The bound is compared in 64 bits, but the end of the slice is the 32-bit sum \<open>4 + n\<close>: for a length of
  \<open>2\<^sup>32 - 4\<close> or more, which only an input of that size passes, the sum wraps and the slice panics.
\<close>

definition readString :: "bytes \<Rightarrow> agent_error + bytes \<times> bytes" where
  "readString b =
     (if length b < 4 then Inl TruncatedLength
      else let n = Uint32 (take 4 b); hi = unat (4 + n)
           in if unat n > length b - 4 then Inl StringTooLong
              else if hi < 4 then Inl SliceOutOfRange
              else Inr (take (hi - 4) (drop 4 b), drop hi b))"

definition readUint32 :: "bytes \<Rightarrow> agent_error + 32 word \<times> bytes" where
  "readUint32 b = (if length b < 4 then Inl TruncatedUint32 else Inr (Uint32 (take 4 b), drop 4 b))"

definition readBool :: "bytes \<Rightarrow> agent_error + bool \<times> bytes" where
  "readBool b = (case b of [] \<Rightarrow> Inl TruncatedBool | x # r \<Rightarrow> Inr (x \<noteq> 0, r))"

text \<open>The encoding the reader takes apart.\<close>

definition ssh_string :: "bytes \<Rightarrow> bytes" where
  "ssh_string s = PutUint32 (of_nat (length s)) @ s"

lemma four_bytes: "4 \<le> length b \<Longrightarrow> \<exists>x y z w r. b = x # y # z # w # r"
  by (cases b; cases "tl b"; cases "tl (tl b)"; cases "tl (tl (tl b))") auto

lemma drop_four: "drop (4 + n) (x # y # z # w # t) = drop n t"
  by (simp add: eval_nat_numeral)

lemma word_bound: "unat (n :: 32 word) < 2 ^ 32"
  by (rule order_less_le_trans [OF unsigned_less]) simp

lemma slice_end:
  "unat (4 + n :: 32 word) = (if unat n + 4 < 2 ^ 32 then unat n + 4 else unat n + 4 - 2 ^ 32)"
proof -
  have "unat (4 + n) = (if 4 + unat n < 2 ^ 32 then 4 + unat n else 4 + unat n - 2 ^ 32)"
    using unat_plus_if_size [of 4 n] by (simp only: word_size unat_numeral len_of_numeral_defs) simp
  then show ?thesis by (simp only: add.commute)
qed

lemma slice_end_wraps: "unat (4 + n :: 32 word) < 4 \<longleftrightarrow> 2 ^ 32 \<le> unat n + 4"
  using word_bound [of n] by (simp add: slice_end) linarith

lemma readString_iff:
  "readString b = Inr (s, r) \<longleftrightarrow> length s + 4 < 2 ^ 32 \<and> b = ssh_string s @ r"
proof
  assume rd: "readString b = Inr (s, r)"
  then have "4 \<le> length b" by (auto simp: readString_def split: if_splits)
  then obtain x y z w t where b: "b = x # y # z # w # t" using four_bytes by blast
  let ?w = "Uint32 [x, y, z, w]"
  have "\<not> unat (4 + ?w) < 4" using rd b by (auto simp: readString_def Let_def simp del: Uint32.simps split: if_splits)
  then have w: "unat ?w + 4 < 2 ^ 32" unfolding slice_end_wraps by simp
  then have hi: "unat (4 + ?w) = unat ?w + 4" by (simp add: slice_end del: Uint32.simps)
  from rd b hi have n: "unat ?w \<le> length t" "s = take (unat ?w) t" "r = drop (unat ?w) t"
    by (auto simp: readString_def Let_def drop_four add.commute [of _ 4] simp del: Uint32.simps split: if_splits)
  then have l: "length s = unat ?w" by simp
  then have "of_nat (length s) = ?w" by simp
  then show "length s + 4 < 2 ^ 32 \<and> b = ssh_string s @ r"
    using b n(2,3) l w PutUint32_Uint32 [of x y z w] by (simp add: ssh_string_def del: Uint32.simps)
next
  assume a: "length s + 4 < 2 ^ 32 \<and> b = ssh_string s @ r"
  let ?w = "of_nat (length s) :: 32 word"
  have w: "unat ?w = length s" "b = PutUint32 ?w @ s @ r"
    using a by (auto simp: ssh_string_def unsigned_of_nat take_bit_nat_eq_self)
  then have "unat (4 + ?w) = length s + 4" using a by (simp add: slice_end)
  then show "readString b = Inr (s, r)"
    using Uint32_PutUint32 [of ?w "[]"] w by (simp add: readString_def Let_def)
qed

lemma readUint32_iff: "readUint32 b = Inr (v, r) \<longleftrightarrow> b = PutUint32 v @ r"
proof
  assume "readUint32 b = Inr (v, r)"
  then have l: "4 \<le> length b" "v = Uint32 (take 4 b)" "r = drop 4 b"
    by (auto simp: readUint32_def split: if_splits)
  from four_bytes [OF l(1)] obtain x y z w t where "b = x # y # z # w # t" by blast
  with l PutUint32_Uint32 [of x y z w] show "b = PutUint32 v @ r" by (simp del: Uint32.simps)
next
  assume "b = PutUint32 v @ r"
  then show "readUint32 b = Inr (v, r)"
    using Uint32_PutUint32 [of v "[]"] by (simp add: readUint32_def)
qed

subsection \<open>Messages of the protocol\<close>

definition MsgFailure :: "8 word" where "MsgFailure = 5"
definition MsgSuccess :: "8 word" where "MsgSuccess = 6"
definition MsgRequestIdentities :: "8 word" where "MsgRequestIdentities = 11"
definition MsgSignRequest :: "8 word" where "MsgSignRequest = 13"
definition MsgExtension :: "8 word" where "MsgExtension = 27"

lemmas message_numbers = MsgFailure_def MsgSuccess_def MsgRequestIdentities_def MsgSignRequest_def
  MsgExtension_def

definition of_text :: "string \<Rightarrow> bytes" where "of_text t = map of_char t"

definition SessionBindExtension :: bytes where
  "SessionBindExtension = of_text ''session-bind@openssh.com''"

definition maxMessage :: nat where "maxMessage = 256 * 1024"

lemma maxMessage_eq: "maxMessage = 262144"
  by (simp add: maxMessage_def)

definition fingerprint :: "(bytes \<Rightarrow> string) \<Rightarrow> bytes \<Rightarrow> string" where
  "fingerprint sha blob = (if blob = [] then '''' else ''SHA256:'' @ sha blob)"

record SignRequest =
  KeyBlob :: bytes
  Data :: bytes
  Flags :: "32 word"

definition KeyFingerprint :: "(bytes \<Rightarrow> string) \<Rightarrow> SignRequest \<Rightarrow> string" where
  "KeyFingerprint sha r = fingerprint sha (KeyBlob r)"

definition ParseSignRequest :: "bytes \<Rightarrow> agent_error + SignRequest" where
  "ParseSignRequest body =
     (case readString body of
        Inl e \<Rightarrow> Inl e
      | Inr (key, b) \<Rightarrow>
          (case readString b of
             Inl e \<Rightarrow> Inl e
           | Inr (d, b') \<Rightarrow>
               (case readUint32 b' of
                  Inl e \<Rightarrow> Inl e
                | Inr (flags, _) \<Rightarrow> Inr \<lparr>KeyBlob = key, Data = d, Flags = flags\<rparr>)))"

record SessionBind =
  HostKeyBlob :: bytes
  SessionID :: bytes
  Signature :: bytes
  IsForwarding :: bool

definition HostKeyFingerprint :: "(bytes \<Rightarrow> string) \<Rightarrow> SessionBind \<Rightarrow> string" where
  "HostKeyFingerprint sha b = fingerprint sha (HostKeyBlob b)"

definition HostKeyType :: "SessionBind \<Rightarrow> bytes" where
  "HostKeyType b = (case readString (HostKeyBlob b) of Inl _ \<Rightarrow> [] | Inr (t, _) \<Rightarrow> t)"

definition ParseSessionBind :: "bytes \<Rightarrow> agent_error + SessionBind" where
  "ParseSessionBind body =
     (case readString body of
        Inl e \<Rightarrow> Inl e
      | Inr (hostKey, b1) \<Rightarrow>
          (case readString b1 of
             Inl e \<Rightarrow> Inl e
           | Inr (sessionID, b2) \<Rightarrow>
               (case readString b2 of
                  Inl e \<Rightarrow> Inl e
                | Inr (sig, b3) \<Rightarrow>
                    (case readBool b3 of
                       Inl e \<Rightarrow> Inl e
                     | Inr (fwd, _) \<Rightarrow>
                         if hostKey = [] then Inl NoHostKey
                         else if sig = [] then Inl NoHostSignature
                         else Inr \<lparr>HostKeyBlob = hostKey, SessionID = sessionID,
                                   Signature = sig, IsForwarding = fwd\<rparr>))))"

definition ExtensionName :: "bytes \<Rightarrow> agent_error + bytes \<times> bytes" where
  "ExtensionName body = readString body"

subsection \<open>Framing\<close>

text \<open>
  \<^verbatim>\<open>io.ReadFull\<close> answers \<^verbatim>\<open>io.EOF\<close> when it reads nothing at all and
  \<^verbatim>\<open>io.ErrUnexpectedEOF\<close> when the stream ends in between.
\<close>

definition ReadFull :: "nat \<Rightarrow> bytes \<Rightarrow> agent_error + bytes \<times> bytes" where
  "ReadFull n b =
     (if n \<le> length b then Inr (take n b, drop n b)
      else if b = [] then Inl EOF else Inl UnexpectedEOF)"

definition readMessage :: "bytes \<Rightarrow> agent_error + bytes \<times> bytes" where
  "readMessage r =
     (case ReadFull 4 r of
        Inl e \<Rightarrow> Inl e
      | Inr (hdr, r') \<Rightarrow>
          let n = unat (Uint32 hdr)
          in if n = 0 then Inl ZeroLength
             else if n > maxMessage then Inl (MessageTooLong n)
             else ReadFull n r')"

definition writeMessage :: "bytes \<Rightarrow> bytes" where
  "writeMessage m = PutUint32 (of_nat (length m)) @ m"

lemma readMessage_iff:
  "readMessage b = Inr (m, r) \<longleftrightarrow> m \<noteq> [] \<and> length m \<le> maxMessage \<and> b = writeMessage m @ r"
proof
  assume rd: "readMessage b = Inr (m, r)"
  then have "4 \<le> length b" by (auto simp: readMessage_def ReadFull_def split: if_splits)
  then obtain x y z w t where b: "b = x # y # z # w # t" using four_bytes by blast
  let ?n = "unat (Uint32 [x, y, z, w])"
  from rd b have n: "0 < ?n" "?n \<le> maxMessage" "?n \<le> length t" "m = take ?n t" "r = drop ?n t"
    by (auto simp: readMessage_def ReadFull_def Let_def simp del: Uint32.simps split: if_splits)
  then have l: "length m = ?n" by simp
  then have "of_nat (length m) = Uint32 [x, y, z, w]" by simp
  with b n l PutUint32_Uint32 [of x y z w]
  show "m \<noteq> [] \<and> length m \<le> maxMessage \<and> b = writeMessage m @ r"
    by (auto simp: writeMessage_def simp del: Uint32.simps)
next
  assume m: "m \<noteq> [] \<and> length m \<le> maxMessage \<and> b = writeMessage m @ r"
  then have "unat (of_nat (length m) :: 32 word) = length m"
    by (simp add: unsigned_of_nat take_bit_nat_eq_self maxMessage_def)
  with m show "readMessage b = Inr (m, r)"
    using Uint32_PutUint32 [of "of_nat (length m)" "[]"]
    by (simp add: readMessage_def ReadFull_def writeMessage_def Let_def)
qed

lemma readMessage_shorter: "readMessage b = Inr (m, r) \<Longrightarrow> length r < length b"
  by (simp add: readMessage_iff writeMessage_def)

lemma readString_ssh [simp]: "length s + 4 < 2 ^ 32 \<Longrightarrow> readString (ssh_string s @ r) = Inr (s, r)"
  by (simp add: readString_iff)

lemma readUint32_Put [simp]: "readUint32 (PutUint32 v @ r) = Inr (v, r)"
  by (simp add: readUint32_iff)

lemma readBool_iff: "readBool b = Inr (v, r) \<longleftrightarrow> (\<exists>x. b = x # r \<and> v = (x \<noteq> 0))"
  by (auto simp: readBool_def split: list.splits)

lemma ParseSignRequest_iff:
  "ParseSignRequest body = Inr q \<longleftrightarrow>
   length (KeyBlob q) + 4 < 2 ^ 32 \<and> length (Data q) + 4 < 2 ^ 32 \<and>
   (\<exists>r. body = ssh_string (KeyBlob q) @ ssh_string (Data q) @ PutUint32 (Flags q) @ r)"
  (is "?L \<longleftrightarrow> ?R")
proof
  assume ?L then show ?R
    by (auto simp: ParseSignRequest_def readString_iff readUint32_iff split: sum.splits prod.splits)
next
  assume ?R then show ?L by (cases q) (auto simp: ParseSignRequest_def)
qed

lemma ParseSessionBind_iff:
  "ParseSessionBind body = Inr q \<longleftrightarrow>
   length (HostKeyBlob q) + 4 < 2 ^ 32 \<and> length (SessionID q) + 4 < 2 ^ 32 \<and> length (Signature q) + 4 < 2 ^ 32 \<and>
   HostKeyBlob q \<noteq> [] \<and> Signature q \<noteq> [] \<and>
   (\<exists>x r. body = ssh_string (HostKeyBlob q) @ ssh_string (SessionID q) @ ssh_string (Signature q) @
       x # r \<and> IsForwarding q = (x \<noteq> 0))"
  (is "?L \<longleftrightarrow> ?R")
proof
  assume ?L then show ?R
    by (auto simp: ParseSessionBind_def readString_iff readBool_iff
        split: sum.splits prod.splits if_splits)
next
  assume ?R then show ?L by (cases q) (auto simp: ParseSessionBind_def readBool_def)
qed

text \<open>
  C16: The wire format is unambiguous. Reading a message succeeds with \<open>m\<close> and the rest \<open>r\<close> exactly
  when the input is the frame of \<open>m\<close> followed by \<open>r\<close>, \<open>m\<close> is not empty and at most 256 KiB: what
  \<open>writeMessage\<close> writes is read back, and nothing else is read as \<open>m\<close>. In the same way a sign
  request, or a session-bind with a host key and a host signature, parses to exactly the fields
  it encodes, each of which is shorter than \<open>2\<^sup>32 - 4\<close> bytes: the end of a field is computed in 32 bits.
\<close>
theorem agent_messages_round_trip:
  "(readMessage b = Inr (m, r) \<longleftrightarrow> m \<noteq> [] \<and> length m \<le> 262144 \<and> b = writeMessage m @ r) \<and>
   (ParseSignRequest b = Inr q \<longleftrightarrow>
      length (KeyBlob q) + 4 < 2 ^ 32 \<and> length (Data q) + 4 < 2 ^ 32 \<and>
      (\<exists>r. b = ssh_string (KeyBlob q) @ ssh_string (Data q) @ PutUint32 (Flags q) @ r)) \<and>
   (ParseSessionBind b = Inr s \<longleftrightarrow>
      length (HostKeyBlob s) + 4 < 2 ^ 32 \<and> length (SessionID s) + 4 < 2 ^ 32 \<and>
      length (Signature s) + 4 < 2 ^ 32 \<and> HostKeyBlob s \<noteq> [] \<and> Signature s \<noteq> [] \<and>
      (\<exists>x r. b = ssh_string (HostKeyBlob s) @ ssh_string (SessionID s) @ ssh_string (Signature s) @
         x # r \<and> IsForwarding s = (x \<noteq> 0)))"
  by (rule conjI [OF readMessage_iff [of b m r, unfolded maxMessage_eq]
        conjI [OF ParseSignRequest_iff [of b q] ParseSessionBind_iff [of b s]]])

end
