(* ===== verification/Ssh_Proxy.thy ===== *)
theory Ssh_Proxy
  imports Ssh_Agent
begin

text \<open>
  \<^verbatim>\<open>internal/sshagent/proxy.go\<close>: what the proxy forwards to the daemon's agent, what it refuses
  and what it records. The upstream agent is a function of its own state: the bytes written to
  it give its next state and the bytes it sends back, or nothing when the write fails. The \<open>n\<close>th
  message written to the sandbox arrives when \<open>cw n\<close>. \<open>trail\<close> lists, in order, the messages
  that went to either side and the audited events.
\<close>

record SignEvent =
  ev_KeyFingerprint :: string
  ev_HostKeyFingerprint :: string
  ev_HostKeyType :: bytes
  ev_Allowed :: bool
  ev_Reason :: string

record Proxy =
  audits :: bool
  proxy_policy :: "(SignEvent \<Rightarrow> string) option"

datatype action = ToClient bytes | ToAgent bytes | Audited SignEvent

datatype serve_error =
    Client agent_error | ClientWrite | DialUpstream | ForwardUpstream | ReadUpstream agent_error
  | EmptyMessage

record 'u conn =
  inp :: bytes
  up :: 'u
  up_in :: bytes
  boundHost :: "SessionBind option"
  trail :: "action list"
  writes :: nat

datatype 'u turn = Return "serve_error option" "'u conn" | Continue "'u conn"

definition forwardable :: "8 word \<Rightarrow> bool" where
  "forwardable t \<longleftrightarrow> t = MsgRequestIdentities \<or> t = MsgSignRequest \<or> t = MsgExtension"

definition act :: "action \<Rightarrow> 'u conn \<Rightarrow> 'u conn" where
  "act a s = s\<lparr>trail := trail s @ [a]\<rparr>"

definition to_client :: "(nat \<Rightarrow> bool) \<Rightarrow> bytes \<Rightarrow> 'u conn \<Rightarrow> 'u turn" where
  "to_client cw m s =
     (let s' = s\<lparr>writes := Suc (writes s)\<rparr>
      in if cw (writes s) then Continue (act (ToClient m) s') else Return (Some ClientWrite) s')"

definition forward ::
    "('u \<Rightarrow> bytes \<Rightarrow> ('u \<times> bytes) option) \<Rightarrow> (nat \<Rightarrow> bool) \<Rightarrow> bytes \<Rightarrow> 'u conn \<Rightarrow> 'u turn" where
  "forward agent cw m s =
     (let s = act (ToAgent m) s
      in case agent (up s) (writeMessage m) of
           None \<Rightarrow> Return (Some ForwardUpstream) s
         | Some (u, b) \<Rightarrow>
             (case readMessage (up_in s @ b) of
                Inl e \<Rightarrow> Return (Some (ReadUpstream e)) (s\<lparr>up := u\<rparr>)
              | Inr (reply, left) \<Rightarrow> to_client cw reply (s\<lparr>up := u, up_in := left\<rparr>)))"

definition NoBind :: string where
  "NoBind = ''no session-bind: the target host is unknown, so this signature cannot be attributed''"

definition sign_event ::
    "(bytes \<Rightarrow> string) \<Rightarrow> Proxy \<Rightarrow> SessionBind option \<Rightarrow> SignRequest \<Rightarrow> SignEvent" where
  "sign_event sha p bound req =
     (case bound of
        None \<Rightarrow>
          \<lparr>ev_KeyFingerprint = KeyFingerprint sha req, ev_HostKeyFingerprint = '''',
           ev_HostKeyType = [], ev_Allowed = False, ev_Reason = NoBind\<rparr>
      | Some b \<Rightarrow>
          (let ev = \<lparr>ev_KeyFingerprint = KeyFingerprint sha req,
                     ev_HostKeyFingerprint = HostKeyFingerprint sha b,
                     ev_HostKeyType = HostKeyType b, ev_Allowed = True, ev_Reason = ''''\<rparr>
           in case proxy_policy p of
                None \<Rightarrow> ev
              | Some pol \<Rightarrow>
                  (let reason = pol ev
                   in if reason \<noteq> '''' then ev\<lparr>ev_Allowed := False, ev_Reason := reason\<rparr> else ev)))"

definition serve_turn ::
    "(bytes \<Rightarrow> string) \<Rightarrow> Proxy \<Rightarrow> ('u \<Rightarrow> bytes \<Rightarrow> ('u \<times> bytes) option) \<Rightarrow> (nat \<Rightarrow> bool) \<Rightarrow>
     'u conn \<Rightarrow> 'u turn" where
  "serve_turn sha p agent cw s =
     (case readMessage (inp s) of
        Inl EOF \<Rightarrow> Return None s
      | Inl e \<Rightarrow> Return (Some (Client e)) s
      | Inr (m, r) \<Rightarrow>
          (let s = s\<lparr>inp := r\<rparr>
           in case m of
                [] \<Rightarrow> Return (Some EmptyMessage) s
              | ty # body \<Rightarrow>
                  if \<not> forwardable ty then to_client cw [MsgFailure] s
                  else if ty = MsgExtension then
                    (case ExtensionName body of
                       Inl e \<Rightarrow> Return (Some (Client e)) s
                     | Inr (name, rest) \<Rightarrow>
                         if name = SessionBindExtension then
                           (case ParseSessionBind rest of
                              Inl _ \<Rightarrow> to_client cw [MsgFailure] s
                            | Inr b \<Rightarrow> forward agent cw m (s\<lparr>boundHost := Some b\<rparr>))
                         else forward agent cw m s)
                  else if ty = MsgSignRequest then
                    (case ParseSignRequest body of
                       Inl e \<Rightarrow> Return (Some (Client e)) s
                     | Inr req \<Rightarrow>
                         (let ev = sign_event sha p (boundHost s) req;
                              s = (if audits p then act (Audited ev) s else s)
                          in if \<not> ev_Allowed ev then to_client cw [MsgFailure] s
                             else forward agent cw m s))
                  else forward agent cw m s))"

lemma inp_act [simp]: "inp (act a s) = inp s"
  by (simp add: act_def)

lemma inp_to_client: "to_client cw m s = Continue s' \<Longrightarrow> inp s' = inp s"
  by (auto simp: to_client_def Let_def split: if_splits)

lemma inp_forward: "forward agent cw m s = Continue s' \<Longrightarrow> inp s' = inp s"
  by (auto simp: forward_def Let_def dest!: inp_to_client split: option.splits sum.splits prod.splits)

lemma serve_turn_consumes:
  assumes "serve_turn sha p agent cw s = Continue s'"
  shows "\<exists>m. readMessage (inp s) = Inr (m, inp s')"
  using assms
  by (auto simp: serve_turn_def Let_def
      split: sum.splits agent_error.splits prod.splits list.splits if_splits
      dest!: inp_to_client inp_forward)

function serve ::
    "(bytes \<Rightarrow> string) \<Rightarrow> Proxy \<Rightarrow> ('u \<Rightarrow> bytes \<Rightarrow> ('u \<times> bytes) option) \<Rightarrow> (nat \<Rightarrow> bool) \<Rightarrow>
     'u conn \<Rightarrow> serve_error option \<times> 'u conn" where
  "serve sha p agent cw s =
     (case serve_turn sha p agent cw s of
        Return e s' \<Rightarrow> (e, s')
      | Continue s' \<Rightarrow> serve sha p agent cw s')"
  by pat_completeness auto

termination
  by (relation "measure (\<lambda>(sha, p, agent, cw, s). length (inp s))")
    (auto dest!: serve_turn_consumes readMessage_shorter)

declare serve.simps [simp del]

definition accept :: "bytes \<Rightarrow> 'u \<Rightarrow> 'u conn" where
  "accept b u = \<lparr>inp = b, up = u, up_in = [], boundHost = None, trail = [], writes = 0\<rparr>"

definition Serve ::
    "(bytes \<Rightarrow> string) \<Rightarrow> Proxy \<Rightarrow> 'u option \<Rightarrow> ('u \<Rightarrow> bytes \<Rightarrow> ('u \<times> bytes) option) \<Rightarrow>
     (nat \<Rightarrow> bool) \<Rightarrow> bytes \<Rightarrow> serve_error option \<times> action list" where
  "Serve sha p dial agent cw b =
     (case dial of
        None \<Rightarrow> (Some DialUpstream, [])
      | Some u \<Rightarrow> (let (e, s) = serve sha p agent cw (accept b u) in (e, trail s)))"

subsection \<open>What the trail shows\<close>

definition bind_in :: "bytes \<Rightarrow> SessionBind option" where
  "bind_in m =
     (case m of
        [] \<Rightarrow> None
      | ty # body \<Rightarrow>
          if ty \<noteq> MsgExtension then None
          else (case ExtensionName body of
                  Inl _ \<Rightarrow> None
                | Inr (name, rest) \<Rightarrow>
                    if name \<noteq> SessionBindExtension then None
                    else (case ParseSessionBind rest of Inl _ \<Rightarrow> None | Inr b \<Rightarrow> Some b)))"

text \<open>The target of the most recent session-bind among the messages that went to the agent.\<close>

definition last_bind :: "action list \<Rightarrow> SessionBind option" where
  "last_bind l =
     foldl (\<lambda>b a. case a of
                    ToAgent m \<Rightarrow> (case bind_in m of None \<Rightarrow> b | Some x \<Rightarrow> Some x)
                  | _ \<Rightarrow> b) None l"

text \<open>
  A message may follow the actions \<open>l\<close> upstream when it is on the allowlist, when a session-bind
  is well formed, and when a signature is for a target that is known, that the policy accepts
  and that was audited just before.
\<close>

definition justified :: "(bytes \<Rightarrow> string) \<Rightarrow> Proxy \<Rightarrow> action list \<Rightarrow> bytes \<Rightarrow> bool" where
  "justified sha p l m \<longleftrightarrow>
     (\<exists>ty body. m = ty # body \<and> forwardable ty \<and>
        (ty = MsgExtension \<longrightarrow>
           (\<exists>name rest. ExtensionName body = Inr (name, rest) \<and>
              (name = SessionBindExtension \<longrightarrow> (\<exists>b. ParseSessionBind rest = Inr b)))) \<and>
        (ty = MsgSignRequest \<longrightarrow>
           (\<exists>q b ev. ParseSignRequest body = Inr q \<and> last_bind l = Some b \<and>
              ev = \<lparr>ev_KeyFingerprint = fingerprint sha (KeyBlob q),
                    ev_HostKeyFingerprint = fingerprint sha (HostKeyBlob b),
                    ev_HostKeyType = HostKeyType b, ev_Allowed = True, ev_Reason = ''''\<rparr> \<and>
              (\<forall>pol. proxy_policy p = Some pol \<longrightarrow> pol ev = '''') \<and>
              (audits p \<longrightarrow> l \<noteq> [] \<and> last l = Audited ev))))"

definition accountable :: "(bytes \<Rightarrow> string) \<Rightarrow> Proxy \<Rightarrow> action list \<Rightarrow> bool" where
  "accountable sha p l \<longleftrightarrow>
     (\<forall>i m. i < length l \<and> l ! i = ToAgent m \<longrightarrow> justified sha p (take i l) m)"

lemma accountable_Nil [simp]: "accountable sha p []"
  by (simp add: accountable_def)

lemma accountable_snoc [simp]:
  "accountable sha p (l @ [a]) \<longleftrightarrow>
   accountable sha p l \<and> (\<forall>m. a = ToAgent m \<longrightarrow> justified sha p l m)"
  (is "?L \<longleftrightarrow> ?R")
proof
  assume ?L
  then show ?R
    by (auto simp: accountable_def nth_append) (metis diff_self_eq_0 lessI less_irrefl nth_Cons_0 take_all order_refl)
next
  assume ?R
  then show ?L by (auto simp: accountable_def nth_append less_Suc_eq)
qed

lemma accountable_append: "accountable sha p (pre @ ToAgent m # post) \<Longrightarrow> justified sha p pre m"
  unfolding accountable_def by (drule spec [of _ "length pre"]) simp

lemma last_bind_Nil [simp]: "last_bind [] = None"
  by (simp add: last_bind_def)

lemma last_bind_snoc [simp]:
  "last_bind (l @ [a]) =
     (case a of ToAgent m \<Rightarrow> (case bind_in m of None \<Rightarrow> last_bind l | Some x \<Rightarrow> Some x)
      | _ \<Rightarrow> last_bind l)"
  by (cases a) (simp_all add: last_bind_def cong: option.case_cong)

text \<open>The invariant of a connection, and what it says of the end of a turn.\<close>

definition conn_inv :: "(bytes \<Rightarrow> string) \<Rightarrow> Proxy \<Rightarrow> 'u conn \<Rightarrow> bool" where
  "conn_inv sha p s \<longleftrightarrow> accountable sha p (trail s) \<and> boundHost s = last_bind (trail s)"

fun turn_ok :: "(bytes \<Rightarrow> string) \<Rightarrow> Proxy \<Rightarrow> 'u turn \<Rightarrow> bool" where
  "turn_ok sha p (Return e s) = accountable sha p (trail s)"
| "turn_ok sha p (Continue s) = conn_inv sha p s"

lemma to_client_ok: "conn_inv sha p s \<Longrightarrow> turn_ok sha p (to_client cw m s)"
  by (simp add: to_client_def Let_def act_def conn_inv_def)

lemma forward_ok:
  assumes "accountable sha p (trail s)" "justified sha p (trail s) m"
    "boundHost s = (case bind_in m of None \<Rightarrow> last_bind (trail s) | Some x \<Rightarrow> Some x)"
  shows "turn_ok sha p (forward agent cw m s)"
  using assms
  by (auto simp: forward_def Let_def act_def conn_inv_def intro!: to_client_ok
      split: option.splits sum.splits prod.splits)

lemma sign_event_allowed:
  "ev_Allowed (sign_event sha p bound q) \<longleftrightarrow>
     (\<exists>b. bound = Some b \<and>
        sign_event sha p bound q =
          \<lparr>ev_KeyFingerprint = fingerprint sha (KeyBlob q),
           ev_HostKeyFingerprint = fingerprint sha (HostKeyBlob b),
           ev_HostKeyType = HostKeyType b, ev_Allowed = True, ev_Reason = ''''\<rparr> \<and>
        (\<forall>pol. proxy_policy p = Some pol \<longrightarrow> pol (sign_event sha p bound q) = ''''))"
  by (auto simp: sign_event_def KeyFingerprint_def HostKeyFingerprint_def Let_def split: option.splits)

lemma serve_turn_ok:
  assumes inv: "conn_inv sha p s"
  shows "turn_ok sha p (serve_turn sha p agent cw s)"
proof (cases "readMessage (inp s)")
  case (Inl e)
  with inv show ?thesis by (cases e) (auto simp: serve_turn_def conn_inv_def)
next
  case (Inr x)
  obtain m r where x: "x = (m, r)" by (cases x)
  define t where "t = s\<lparr>inp := r\<rparr>"
  have t: "conn_inv sha p t" "trail t = trail s" using inv by (simp_all add: t_def conn_inv_def)
  note turn = serve_turn_def Inr x t_def [symmetric] Let_def
  show ?thesis
  proof (cases m)
    case Nil then show ?thesis using t by (simp add: turn conn_inv_def)
  next
    case (Cons ty body)
    note turn = turn this
    consider "\<not> forwardable ty" | "ty = MsgExtension" | "ty = MsgSignRequest"
      | "forwardable ty" "ty \<noteq> MsgExtension" "ty \<noteq> MsgSignRequest" by blast
    then show ?thesis
    proof cases
      case 1 then show ?thesis using t by (simp add: turn to_client_ok)
    next
      case 2
      have "forwardable ty" using 2 by (simp add: forwardable_def)
      then show ?thesis
        using t 2 by (auto simp: turn conn_inv_def bind_in_def justified_def message_numbers
            intro!: forward_ok to_client_ok split: sum.splits prod.splits)
    next
      case 3
      have f: "forwardable ty" "ty \<noteq> MsgExtension" using 3 by (auto simp: forwardable_def message_numbers)
      show ?thesis
      proof (cases "ParseSignRequest body")
        case (Inl e) then show ?thesis using t 3 f by (simp add: turn conn_inv_def)
      next
        case (Inr q)
        define ev where "ev = sign_event sha p (boundHost t) q"
        define v where "v = (if audits p then act (Audited ev) t else t)"
        have v: "conn_inv sha p v" "boundHost v = boundHost t"
          "audits p \<Longrightarrow> trail v \<noteq> [] \<and> last (trail v) = Audited ev"
          using t by (simp_all add: v_def act_def conn_inv_def)
        have bt: "boundHost s = boundHost t" by (simp add: t_def)
        have e: "serve_turn sha p agent cw s =
            (if \<not> ev_Allowed ev then to_client cw [MsgFailure] v else forward agent cw m v)"
          using 3 f Inr bt by (simp add: turn v_def ev_def)
        have b: "bind_in m = None" using f Cons by (simp add: bind_in_def)
        show ?thesis
        proof (cases "ev_Allowed ev")
          case False with e v show ?thesis by (simp add: to_client_ok)
        next
          case True
          then have "justified sha p (trail v) m"
            using sign_event_allowed [of sha p "boundHost t" q] v 3 f Inr Cons
            by (auto simp: justified_def ev_def conn_inv_def)
          with True e v b show ?thesis by (auto simp: conn_inv_def intro!: forward_ok)
        qed
      qed
    next
      case 4
      then show ?thesis
        using t by (auto simp: turn conn_inv_def bind_in_def justified_def intro!: forward_ok)
    qed
  qed
qed

lemma serve_ok: "conn_inv sha p s \<Longrightarrow> accountable sha p (trail (snd (serve sha p agent cw s)))"
proof (induction sha p agent cw s rule: serve.induct)
  case (1 sha p agent cw s)
  show ?case
  proof (cases "serve_turn sha p agent cw s")
    case (Return e s')
    then show ?thesis using serve_turn_ok [OF 1(2), of agent cw] by (subst serve.simps) simp
  next
    case (Continue s')
    then show ?thesis
      using serve_turn_ok [OF 1(2), of agent cw] 1(1) by (subst serve.simps) simp
  qed
qed

lemma Serve_accountable: "accountable sha p (snd (Serve sha p dial agent cw b))"
proof (cases dial)
  case None then show ?thesis by (simp add: Serve_def)
next
  case (Some u)
  have "conn_inv sha p (accept b u)" by (simp add: conn_inv_def accept_def)
  from serve_ok [OF this, of agent cw] Some show ?thesis
    by (cases "serve sha p agent cw (accept b u)") (simp add: Serve_def)
qed

subsection \<open>Every message is answered\<close>

definition replies :: "action list \<Rightarrow> nat" where
  "replies l = length (filter (\<lambda>a. case a of ToClient _ \<Rightarrow> True | _ \<Rightarrow> False) l)"

lemma replies_simps [simp]:
  "replies [] = 0" "replies (l @ [ToClient m]) = Suc (replies l)"
  "replies (l @ [ToAgent m]) = replies l" "replies (l @ [Audited ev]) = replies l"
  by (simp_all add: replies_def)

definition sendable :: "bytes \<Rightarrow> bool" where
  "sendable m \<longleftrightarrow>
     m \<noteq> [] \<and> length m \<le> maxMessage \<and>
     (hd m = MsgExtension \<longrightarrow> (\<exists>x. ExtensionName (tl m) = Inr x)) \<and>
     (hd m = MsgSignRequest \<longrightarrow> (\<exists>q. ParseSignRequest (tl m) = Inr q))"

definition answers :: "('u \<Rightarrow> bytes \<Rightarrow> ('u \<times> bytes) option) \<Rightarrow> bool" where
  "answers agent \<longleftrightarrow>
     (\<forall>u m. \<exists>u' r. agent u (writeMessage m) = Some (u', writeMessage r) \<and>
        r \<noteq> [] \<and> length r \<le> maxMessage)"

definition one_reply :: "'u conn \<Rightarrow> bytes \<Rightarrow> 'u turn \<Rightarrow> bool" where
  "one_reply s r t \<longleftrightarrow>
     (\<exists>s'. t = Continue s' \<and> inp s' = r \<and> up_in s' = [] \<and>
        replies (trail s') = Suc (replies (trail s)))"

lemma to_client_replies:
  assumes "\<forall>n. cw n" "inp s = r" "up_in s = []" "replies (trail s) = replies (trail s0)"
  shows "one_reply s0 r (to_client cw m s)"
  using assms by (simp add: one_reply_def to_client_def act_def)

lemma forward_replies:
  assumes ok: "answers agent" "\<forall>n. cw n" "inp s = r" "up_in s = []"
    and l: "replies (trail s) = replies (trail s0)"
  shows "one_reply s0 r (forward agent cw m s)"
proof -
  obtain u' rep where a: "agent (up s) (writeMessage m) = Some (u', writeMessage rep)"
    "rep \<noteq> []" "length rep \<le> maxMessage"
    using ok(1) unfolding answers_def by blast
  then have "readMessage (writeMessage rep) = Inr (rep, [])" by (simp add: readMessage_iff)
  with a ok l show ?thesis
    by (auto simp: forward_def act_def Let_def intro!: to_client_replies)
qed

lemma turn_replies:
  assumes ok: "answers agent" "\<forall>n. cw n" "up_in s = []" "sendable m" "inp s = writeMessage m @ r"
  shows "one_reply s r (serve_turn sha p agent cw s)"
proof -
  from ok have rd: "readMessage (inp s) = Inr (m, r)" by (simp add: sendable_def readMessage_iff)
  obtain ty body where m: "m = ty # body" using ok(4) by (cases m) (auto simp: sendable_def)
  have ext: "ty = MsgExtension \<Longrightarrow> \<exists>n rest. ExtensionName body = Inr (n, rest)"
    and req: "ty = MsgSignRequest \<Longrightarrow> \<exists>q. ParseSignRequest body = Inr q"
    using ok(4) m by (auto simp: sendable_def)
  note rd = rd [unfolded m]
  note replies = to_client_replies [OF ok(2)] forward_replies [OF ok(1,2)]
  consider "\<not> forwardable ty" | "ty = MsgExtension" | "ty = MsgSignRequest"
    | "forwardable ty" "ty \<noteq> MsgExtension" "ty \<noteq> MsgSignRequest" by blast
  then show ?thesis
  proof cases
    case 1 then show ?thesis using ok(2,3) by (auto simp: serve_turn_def rd m intro!: replies)
  next
    case 2
    with ext obtain n rest where "ExtensionName body = Inr (n, rest)" by blast
    with 2 ok(2,3) show ?thesis
      by (auto simp: serve_turn_def rd m forwardable_def Let_def intro!: replies split: sum.splits)
  next
    case 3
    with req obtain q where "ParseSignRequest body = Inr q" by blast
    with 3 ok(2,3) show ?thesis
      by (auto simp: serve_turn_def rd m forwardable_def Let_def act_def message_numbers
          intro!: replies)
  next
    case 4 then show ?thesis using ok(2,3) by (auto simp: serve_turn_def rd m intro!: replies)
  qed
qed

lemma serve_replies:
  assumes "answers agent" "\<forall>n. cw n" "up_in s = []" "\<forall>m \<in> set ms. sendable m"
    "inp s = concat (map writeMessage ms)"
  shows "\<exists>s'. serve sha p agent cw s = (None, s') \<and> replies (trail s') = replies (trail s) + length ms"
  using assms(3-5)
proof (induction ms arbitrary: s)
  case Nil
  then have "readMessage (inp s) = Inl EOF" by (simp add: readMessage_def ReadFull_def)
  then show ?case by (subst serve.simps) (simp add: serve_turn_def)
next
  case (Cons m ms)
  then have "one_reply s (concat (map writeMessage ms)) (serve_turn sha p agent cw s)"
    by (intro turn_replies [OF assms(1,2)]) auto
  then obtain s' where "serve_turn sha p agent cw s = Continue s'"
    "inp s' = concat (map writeMessage ms)" "up_in s' = []"
    "replies (trail s') = Suc (replies (trail s))"
    by (auto simp: one_reply_def)
  with Cons.IH [of s'] Cons.prems show ?case by (subst serve.simps) simp
qed

subsection \<open>One turn at a time\<close>

lemma read_frame:
  "length body < maxMessage \<Longrightarrow>
   readMessage (writeMessage (ty # body) @ r) = Inr (ty # body, r)"
  by (simp add: readMessage_iff)

lemma serve_step:
  "serve_turn sha p agent cw s = Continue s' \<Longrightarrow> serve sha p agent cw s = serve sha p agent cw s'"
  by (subst serve.simps) simp

lemma serve_end: "inp s = [] \<Longrightarrow> serve sha p agent cw s = (None, s)"
  by (subst serve.simps) (simp add: serve_turn_def readMessage_def ReadFull_def)

lemma serve_bind:
  assumes "inp s = writeMessage (MsgExtension # body) @ r" "length body < maxMessage"
    "ExtensionName body = Inr (SessionBindExtension, rest)" "ParseSessionBind rest = Inr b"
  shows "serve_turn sha p agent cw s =
    forward agent cw (MsgExtension # body) (s\<lparr>inp := r, boundHost := Some b\<rparr>)"
  using assms by (simp add: serve_turn_def read_frame forwardable_def)

lemma serve_sign:
  assumes "inp s = writeMessage (MsgSignRequest # body) @ r" "length body < maxMessage"
    "ParseSignRequest body = Inr q" "audits p"
  shows "serve_turn sha p agent cw s =
    (let ev = sign_event sha p (boundHost s) q; t = act (Audited ev) (s\<lparr>inp := r\<rparr>)
     in if ev_Allowed ev then forward agent cw (MsgSignRequest # body) t
        else to_client cw [MsgFailure] t)"
  using assms by (simp add: serve_turn_def read_frame forwardable_def message_numbers Let_def)

lemma to_client_all: "\<forall>n. cw n \<Longrightarrow>
  to_client cw m s = Continue (act (ToClient m) (s\<lparr>writes := Suc (writes s)\<rparr>))"
  by (simp add: to_client_def)

lemma forward_all:
  assumes "\<forall>n. cw n" "agent (up s) (writeMessage m) = Some (u, writeMessage reply)"
    "up_in s = []" "reply \<noteq> []" "length reply \<le> maxMessage"
  shows "forward agent cw m s =
    Continue (act (ToClient reply)
      ((act (ToAgent m) s)\<lparr>up := u, up_in := [], writes := Suc (writes s)\<rparr>))"
proof -
  have "readMessage (writeMessage reply) = Inr (reply, [])"
    using assms by (simp add: readMessage_iff)
  with assms show ?thesis by (simp add: forward_def act_def to_client_all)
qed

subsection \<open>A run of the proxy\<close>

definition demo_bind :: bytes where
  "demo_bind = MsgExtension # ssh_string SessionBindExtension @ ssh_string [1] @ ssh_string [2] @
     ssh_string [3] @ [0]"

definition demo_sign :: bytes where
  "demo_sign = MsgSignRequest # ssh_string [9] @ ssh_string [8] @ PutUint32 0"

definition demo_proxy :: Proxy where
  "demo_proxy = \<lparr>audits = True, proxy_policy = None\<rparr>"

definition demo_event :: SignEvent where
  "demo_event = \<lparr>ev_KeyFingerprint = ''SHA256:h'', ev_HostKeyFingerprint = ''SHA256:h'',
     ev_HostKeyType = [], ev_Allowed = True, ev_Reason = ''''\<rparr>"

definition demo_agent :: "unit \<Rightarrow> bytes \<Rightarrow> (unit \<times> bytes) option" where
  "demo_agent u b = Some (u, writeMessage [MsgSuccess])"

definition demo_input :: bytes where
  "demo_input = writeMessage demo_sign @ writeMessage demo_bind @ writeMessage demo_sign"

lemma demo_sign_parses:
  "ParseSignRequest (tl demo_sign) = Inr \<lparr>KeyBlob = [9], Data = [8], Flags = 0\<rparr>"
  by code_simp

lemma demo_bind_parses:
  "ExtensionName (tl demo_bind) = Inr (SessionBindExtension, drop 29 demo_bind)"
  "ParseSessionBind (drop 29 demo_bind) =
     Inr \<lparr>HostKeyBlob = [1], SessionID = [2], Signature = [3], IsForwarding = False\<rparr>"
  by code_simp+

lemma demo_frames:
  "demo_sign = MsgSignRequest # tl demo_sign" "length (tl demo_sign) < maxMessage"
  "demo_bind = MsgExtension # tl demo_bind" "length (tl demo_bind) < maxMessage"
proof -
  have "length demo_sign < 100" "length demo_bind < 100" by code_simp+
  then show "demo_sign = MsgSignRequest # tl demo_sign" "length (tl demo_sign) < maxMessage"
    "demo_bind = MsgExtension # tl demo_bind" "length (tl demo_bind) < maxMessage"
    by (simp_all add: maxMessage_def) (simp_all add: demo_sign_def demo_bind_def)
qed

lemma demo_run:
  "Serve (\<lambda>_. ''h'') demo_proxy (Some ()) demo_agent (\<lambda>_. True) demo_input =
   (None, [Audited \<lparr>ev_KeyFingerprint = ''SHA256:h'', ev_HostKeyFingerprint = '''',
             ev_HostKeyType = [], ev_Allowed = False, ev_Reason = NoBind\<rparr>,
           ToClient [MsgFailure], ToAgent demo_bind, ToClient [MsgSuccess],
           Audited demo_event, ToAgent demo_sign, ToClient [MsgSuccess]])"
proof -
  obtain sb bb where m: "demo_sign = MsgSignRequest # sb" "demo_bind = MsgExtension # bb"
    using demo_frames by metis
  note parses = demo_sign_parses [unfolded m list.sel] demo_bind_parses(1) [unfolded m list.sel]
    demo_bind_parses(2) [unfolded m]
  note small = demo_frames(2,4) [unfolded m list.sel]
  note turn = Let_def demo_proxy_def sign_event_def KeyFingerprint_def HostKeyFingerprint_def
    fingerprint_def to_client_all forward_all demo_agent_def act_def demo_event_def HostKeyType_def
    readString_def maxMessage_eq
  define s0 where "s0 = accept demo_input ()"
  obtain s1 where s1: "serve_turn (\<lambda>_. ''h'') demo_proxy demo_agent (\<lambda>_. True) s0 = Continue s1"
    "inp s1 = writeMessage demo_bind @ writeMessage demo_sign" "up_in s1 = []"
    "trail s1 = [Audited \<lparr>ev_KeyFingerprint = ''SHA256:h'', ev_HostKeyFingerprint = '''',
       ev_HostKeyType = [], ev_Allowed = False, ev_Reason = NoBind\<rparr>, ToClient [MsgFailure]]"
    using serve_sign [OF _ small(1) parses(1), of s0 "writeMessage demo_bind @ writeMessage demo_sign"
        demo_proxy "\<lambda>_. ''h''" demo_agent "\<lambda>_. True"]
    by (auto simp: s0_def accept_def demo_input_def m turn)
  obtain s2 where s2: "serve_turn (\<lambda>_. ''h'') demo_proxy demo_agent (\<lambda>_. True) s1 = Continue s2"
    "inp s2 = writeMessage demo_sign" "up_in s2 = []"
    "boundHost s2 = Some \<lparr>HostKeyBlob = [1], SessionID = [2], Signature = [3], IsForwarding = False\<rparr>"
    "trail s2 = trail s1 @ [ToAgent demo_bind, ToClient [MsgSuccess]]"
    using serve_bind [OF _ small(2) parses(2,3), of s1 "writeMessage demo_sign"
        "\<lambda>_. ''h''" demo_proxy demo_agent "\<lambda>_. True"]
    by (auto simp: s1(2,3) m turn)
  obtain s3 where s3: "serve_turn (\<lambda>_. ''h'') demo_proxy demo_agent (\<lambda>_. True) s2 = Continue s3"
    "inp s3 = []"
    "trail s3 = trail s2 @ [Audited demo_event, ToAgent demo_sign, ToClient [MsgSuccess]]"
    using serve_sign [OF _ small(1) parses(1), of s2 "[]"
        demo_proxy "\<lambda>_. ''h''" demo_agent "\<lambda>_. True"]
    by (auto simp: s2(2-4) m turn)
  have "serve (\<lambda>_. ''h'') demo_proxy demo_agent (\<lambda>_. True) s0 = (None, s3)"
    by (simp add: serve_step [OF s1(1)] serve_step [OF s2(1)] serve_step [OF s3(1)]
        serve_end [OF s3(2)])
  then show ?thesis by (simp add: Serve_def s0_def s1 s2 s3)
qed

text \<open>
  C14: Whatever a sandbox sends on a connection, every message that reaches the daemon's agent is
  a request for the identities, a signature request or an extension; a session-bind reaches it
  only when it is well formed, with a host key and a host signature; and a signature request
  reaches it only when a session-bind went to the agent before it on this connection, the policy
  gave no reason to refuse, and the last thing recorded before it is the allowed event that names
  the signing key and the target of the most recent session-bind.
\<close>
theorem forwarded_signatures_are_attributed:
  assumes "snd (Serve sha p dial agent cw b) = pre @ ToAgent m # post"
  shows "\<exists>ty body. m = ty # body \<and>
     (ty = MsgRequestIdentities \<or> ty = MsgSignRequest \<or> ty = MsgExtension) \<and>
     (ty = MsgExtension \<longrightarrow>
        (\<exists>name rest. ExtensionName body = Inr (name, rest) \<and>
          (name = SessionBindExtension \<longrightarrow> (\<exists>s. ParseSessionBind rest = Inr s)))) \<and>
     (ty = MsgSignRequest \<longrightarrow>
        (\<exists>q s ev. ParseSignRequest body = Inr q \<and> last_bind pre = Some s \<and>
          ev = \<lparr>ev_KeyFingerprint = fingerprint sha (KeyBlob q),
                ev_HostKeyFingerprint = fingerprint sha (HostKeyBlob s),
                ev_HostKeyType = HostKeyType s, ev_Allowed = True, ev_Reason = ''''\<rparr> \<and>
          (\<forall>pol. proxy_policy p = Some pol \<longrightarrow> pol ev = '''') \<and>
          (audits p \<longrightarrow> pre \<noteq> [] \<and> last pre = Audited ev)))"
proof -
  have "accountable sha p (pre @ ToAgent m # post)"
    using Serve_accountable [of sha p dial agent cw b] assms by simp
  then have "justified sha p pre m" by (rule accountable_append)
  then show ?thesis by (simp only: justified_def forwardable_def)
qed

theorem forwarded_signatures_are_attributed_witness:
  "\<exists>q s pre. Serve (\<lambda>_. ''h'') demo_proxy (Some ()) demo_agent (\<lambda>_. True) demo_input =
       (None, pre @ [ToAgent demo_sign, ToClient [MsgSuccess]]) \<and>
     ParseSignRequest (tl demo_sign) = Inr q \<and> last_bind pre = Some s \<and>
     last pre = Audited demo_event"
proof -
  let ?pre = "[Audited \<lparr>ev_KeyFingerprint = ''SHA256:h'', ev_HostKeyFingerprint = '''',
             ev_HostKeyType = [], ev_Allowed = False, ev_Reason = NoBind\<rparr>,
           ToClient [MsgFailure], ToAgent demo_bind, ToClient [MsgSuccess], Audited demo_event]"
  have run: "snd (Serve (\<lambda>_. ''h'') demo_proxy (Some ()) demo_agent (\<lambda>_. True) demo_input) =
      ?pre @ ToAgent demo_sign # [ToClient [MsgSuccess]]"
    by (simp add: demo_run)
  obtain q s where "ParseSignRequest (tl demo_sign) = Inr q" "last_bind ?pre = Some s"
    using forwarded_signatures_are_attributed [OF run] demo_frames(1)
    by (metis list.sel(3) list.inject)
  then show ?thesis using demo_run
    by (intro exI [where x = q] exI [where x = s] exI [where x = ?pre]) simp
qed

text \<open>
  C15: The proxy never goes silent. When the sandbox sends complete messages of a legal size whose
  sign requests and extensions can be parsed, the agent answers what it is sent, and the sandbox
  can be written to, the proxy handles all of them and ends without an error, having written
  exactly one reply per message: refusals are answered too.
\<close>
theorem every_message_answered:
  assumes "answers agent" and "\<forall>n. cw n" and "\<forall>m \<in> set ms. sendable m"
  shows "\<exists>l. Serve sha p (Some u) agent cw (concat (map writeMessage ms)) = (None, l) \<and>
           replies l = length ms"
  using serve_replies [OF assms(1,2), of "accept (concat (map writeMessage ms)) u" ms sha p] assms(3)
  by (auto simp: Serve_def accept_def)

theorem every_message_answered_witness:
  "\<exists>l. Serve (\<lambda>_. ''h'') demo_proxy (Some ()) demo_agent (\<lambda>_. True)
       (concat (map writeMessage [demo_sign, [19], demo_bind])) = (None, l) \<and> replies l = 3"
proof -
  have "answers demo_agent" by (auto simp: answers_def demo_agent_def maxMessage_def)
  moreover have "sendable (ty # body)" if "length body < maxMessage" "ty \<noteq> MsgExtension"
    "ty \<noteq> MsgSignRequest" for ty body using that by (simp add: sendable_def)
  then have "sendable [19]" by (simp add: message_numbers maxMessage_def)
  moreover have "sendable demo_sign"
    by (subst demo_frames(1)) (use demo_frames(2) demo_sign_parses in \<open>simp add: sendable_def message_numbers\<close>)
  moreover have "sendable demo_bind"
    by (subst demo_frames(3)) (use demo_frames(4) demo_bind_parses(1) in \<open>simp add: sendable_def message_numbers\<close>)
  ultimately show ?thesis
    using every_message_answered [of demo_agent "\<lambda>_. True" "[demo_sign, [19], demo_bind]"
        "\<lambda>_. ''h''" demo_proxy "()"]
    by (simp add: eval_nat_numeral)
qed

text \<open>
  The proxy takes the target from the session-bind itself, not from the agent's answer to it.
  When the agent rejects the bind, because its host signature does not verify, the proxy relays
  the refusal and keeps the binding: a signature request that follows is audited as allowed for
  the host the sandbox named, and goes to the agent.
\<close>
theorem rejected_bind_is_audited:
  assumes bind: "ExtensionName body = Inr (SessionBindExtension, rest)"
      "ParseSessionBind rest = Inr s" "length body < maxMessage"
    and sign: "ParseSignRequest sbody = Inr q" "length sbody < maxMessage"
    and agent: "agent u (writeMessage (MsgExtension # body)) = Some (u', writeMessage [MsgFailure])"
      "agent u' (writeMessage (MsgSignRequest # sbody)) = Some (u'', writeMessage reply)"
      "reply \<noteq> []" "length reply \<le> maxMessage"
    and p: "audits p" "proxy_policy p = None" and cw: "\<forall>n. cw n"
  shows "\<exists>ev. ev_Allowed ev \<and> ev_HostKeyFingerprint ev = fingerprint sha (HostKeyBlob s) \<and>
     Serve sha p (Some u) agent cw
       (writeMessage (MsgExtension # body) @ writeMessage (MsgSignRequest # sbody)) =
     (None, [ToAgent (MsgExtension # body), ToClient [MsgFailure], Audited ev,
             ToAgent (MsgSignRequest # sbody), ToClient reply])"
proof -
  define ev where "ev = sign_event sha p (Some s) q"
  have ev: "ev_Allowed ev" "ev_HostKeyFingerprint ev = fingerprint sha (HostKeyBlob s)"
    using p by (simp_all add: ev_def sign_event_def HostKeyFingerprint_def)
  let ?mb = "writeMessage (MsgExtension # body)" and ?ms = "writeMessage (MsgSignRequest # sbody)"
  let ?s0 = "accept (?mb @ ?ms) u"
  obtain s1 where s1: "serve_turn sha p agent cw ?s0 = Continue s1"
    "inp s1 = ?ms" "boundHost s1 = Some s" "up s1 = u'" "up_in s1 = []"
    "trail s1 = [ToAgent (MsgExtension # body), ToClient [MsgFailure]]"
    using serve_bind [of ?s0 body ?ms rest s sha p agent cw] bind agent(1) cw
    by (simp add: accept_def forward_all maxMessage_def act_def)
  obtain s2 where s2: "serve_turn sha p agent cw s1 = Continue s2" "inp s2 = []"
    "trail s2 = trail s1 @ [Audited ev, ToAgent (MsgSignRequest # sbody), ToClient reply]"
    using serve_sign [of s1 sbody "[]" q p sha agent cw] sign agent(2-4) p cw s1(2-5) ev(1)
    by (simp add: ev_def Let_def act_def forward_all)
  have "serve sha p agent cw ?s0 = (None, s2)"
    by (simp add: serve_step [OF s1(1)] serve_step [OF s2(1)] serve_end [OF s2(2)])
  then show ?thesis using ev s1(6) s2(3) by (auto simp: Serve_def)
qed

definition rejecting_agent :: "unit \<Rightarrow> bytes \<Rightarrow> (unit \<times> bytes) option" where
  "rejecting_agent u b =
     Some (u, writeMessage [if b = writeMessage demo_bind then MsgFailure else MsgSuccess])"

theorem rejected_bind_is_audited_witness:
  "\<exists>ev. ev_Allowed ev \<and> ev_HostKeyFingerprint ev = ''SHA256:h'' \<and>
     Serve (\<lambda>_. ''h'') demo_proxy (Some ()) rejecting_agent (\<lambda>_. True)
       (writeMessage demo_bind @ writeMessage demo_sign) =
     (None, [ToAgent demo_bind, ToClient [MsgFailure], Audited ev, ToAgent demo_sign,
             ToClient [MsgSuccess]])"
proof -
  have ne: "writeMessage demo_sign \<noteq> writeMessage demo_bind" by code_simp
  have "rejecting_agent () (writeMessage (MsgExtension # tl demo_bind)) = Some ((), writeMessage [MsgFailure])"
    "rejecting_agent () (writeMessage (MsgSignRequest # tl demo_sign)) = Some ((), writeMessage [MsgSuccess])"
    using ne demo_frames(1,3) by (simp_all add: rejecting_agent_def)
  then show ?thesis
    using rejected_bind_is_audited [where agent = rejecting_agent and u = "()" and u' = "()" and
        u'' = "()" and reply = "[MsgSuccess]" and body = "tl demo_bind" and sbody = "tl demo_sign"
        and p = demo_proxy and cw = "\<lambda>_. True" and sha = "\<lambda>_. ''h''",
        OF demo_bind_parses demo_frames(4) demo_sign_parses demo_frames(2)]
      demo_frames(1,3)
    by (simp add: maxMessage_def demo_proxy_def fingerprint_def)
qed

end
