(* ===== verification/Policy_Edit.thy ===== *)
theory Policy_Edit
  imports Policy_Scope Policy_Classify Change_Service
begin

text \<open>
  Governed policy edits: \<^verbatim>\<open>internal/policyedit\<close> (the service that applies an edit or opens a
  change for it), the layer files of \<^verbatim>\<open>cmd/opslifyd/policyedit.go\<close> and the composition of an
  edit request in \<^verbatim>\<open>internal/daemon/policyedit.go\<close>. The service works on any layer store
  (\<open>layer_ops\<close>) and on the change service of \<open>Change_Service\<close>; the clock values and the fresh
  id a submission takes are its inputs. The YAML library is the record \<open>yaml\<close>.
\<close>

subsection \<open>Layers and scopes (edit.go)\<close>

definition LayerDaemon :: string where "LayerDaemon = ''daemon''"
definition LayerProject :: string where "LayerProject = ''project''"
definition LayerEnvironment :: string where "LayerEnvironment = ''environment''"
definition LayerWorkspace :: string where "LayerWorkspace = ''workspace''"

definition Editable :: "string \<Rightarrow> bool" where
  "Editable l \<longleftrightarrow> l = LayerProject \<or> l = LayerEnvironment"

record edit_scope =
  EditLayer :: string
  EditProject :: string
  EditEnvironment :: string

datatype edit_error =
    NoLayer
  | ReadOnlyLayer string string
  | NoProject
  | NoEnvironment
  | UnsafeLayerId string
  | LayerUnreadable string
  | LayerUnparseable string
  | LayerUnwritable string
  | NoChangeSurface
  | GateError change_error
  | NoPendingEdit string
  | NotApproved string status

definition whyReadOnly :: "string \<Rightarrow> string" where
  "whyReadOnly l =
     (if l = LayerDaemon then
        ''the daemon baseline is host-side by design: every other layer can only narrow it, '' @
        ''so edit /etc/opslify/policy.yaml and reload''
      else if l = LayerWorkspace then
        ''the workspace policy lives in the repo and changes by a reviewed commit, '' @
        ''which is a stronger control than this surface''
      else ''unknown layer'')"

definition validate_scope :: "edit_scope \<Rightarrow> edit_error option" where
  "validate_scope s =
     (if EditLayer s = [] then Some NoLayer
      else if \<not> Editable (EditLayer s) then Some (ReadOnlyLayer (EditLayer s) (whyReadOnly (EditLayer s)))
      else if EditLayer s = LayerProject \<and> EditProject s = [] then Some NoProject
      else if EditLayer s = LayerEnvironment \<and> EditEnvironment s = [] then Some NoEnvironment
      else None)"

record edit =
  EditScope :: edit_scope
  EditTo :: policy
  EditReason :: string

record outcome =
  EditApplied :: bool
  ChangeID :: string
  EditClass :: classification

definition Summary :: "outcome \<Rightarrow> string" where
  "Summary o1 =
     (if EditApplied o1 \<and> Direction (EditClass o1) = DirectionEquivalent then ''no effective change''
      else if EditApplied o1
      then ''applied now (narrowing): '' @ str_join ''; '' (Narrowings (EditClass o1))
      else ''needs approval (widening): '' @ str_join ''; '' (Widenings (EditClass o1)))"

subsection \<open>What a change says of an edit (service.go)\<close>

fun direction_text :: "direction \<Rightarrow> string" where
  "direction_text DirectionNarrowing = ''narrowing''"
| "direction_text DirectionWidening = ''widening''"
| "direction_text DirectionEquivalent = ''equivalent''"

definition scopeID :: "edit_scope \<Rightarrow> string" where
  "scopeID s = (if EditEnvironment s \<noteq> [] then EditEnvironment s else EditProject s)"

definition planArgv :: "edit_scope \<Rightarrow> string list" where
  "planArgv s = [''opslify'', ''policy'', ''apply'', EditLayer s, scopeID s]"

definition intentFor :: "edit \<Rightarrow> string" where
  "intentFor e =
     ''widen the '' @ EditLayer (EditScope e) @ '' policy'' @
     (if EditEnvironment (EditScope e) \<noteq> [] then '' for '' @ EditEnvironment (EditScope e)
      else if EditProject (EditScope e) \<noteq> [] then '' for '' @ EditProject (EditScope e) else []) @
     (if EditReason e \<noteq> [] then '': '' @ EditReason e else [])"

fun joinLines :: "string list \<Rightarrow> string" where
  "joinLines [] = []"
| "joinLines [l] = l"
| "joinLines (l # ls) = l @ nl # joinLines ls"

definition previewFor :: "classification \<Rightarrow> string" where
  "previewFor c = joinLines (map (\<lambda>w. ''+ '' @ w) (Widenings c) @ map (\<lambda>n. ''- '' @ n) (Narrowings c))"

definition edit_change :: "string \<Rightarrow> edit \<Rightarrow> proposer \<Rightarrow> classification \<Rightarrow> change" where
  "edit_change i e who class = new_change\<lparr>
     ID := i, Intent := intentFor e, Proposer := who,
     ProjectID := EditProject (EditScope e), EnvironmentID := EditEnvironment (EditScope e),
     PolicyRule := ''policy-edit:'' @ EditLayer (EditScope e),
     PolicyEffect := direction_text (Direction class)\<rparr>"

definition edit_steps :: "edit_scope \<Rightarrow> plan_step list" where
  "edit_steps s = [\<lparr>StepIndex = 0, Argv = planArgv s, Gated = True,
     Description = ''apply this policy edit''\<rparr>]"

definition edit_blast :: "classification \<Rightarrow> resource_count list" where
  "edit_blast c = [\<lparr>RKind = ''policy widenings'', RCount = int (length (Widenings c))\<rparr>]"

definition edit_inverse :: "edit_scope \<Rightarrow> inverse" where
  "edit_inverse s = \<lparr>IKind = ''command'',
     ISteps = [\<lparr>StepIndex = 0, Argv = planArgv s, Gated = False,
       Description = ''restore the previous policy document''\<rparr>],
     IReason = []\<rparr>"

subsection \<open>The service\<close>

record 'w layer_ops =
  LoadDoc :: "'w \<Rightarrow> edit_scope \<Rightarrow> edit_error + policy \<times> bool"
  SaveDoc :: "'w \<Rightarrow> edit_scope \<Rightarrow> policy \<Rightarrow> edit_error + 'w"

record ('w, 'st) editor =
  layer_docs :: 'w
  change_records :: 'st
  pending :: "string \<Rightarrow> (edit_scope \<times> policy) option"

definition NewService :: "'w \<Rightarrow> 'st \<Rightarrow> ('w, 'st) editor" where
  "NewService w st = \<lparr>layer_docs = w, change_records = st, pending = Map.empty\<rparr>"

text \<open>
  The part of \<open>Submit\<close> that opens the change, with the three clock values its calls read. The
  records stay as the calls left them when one of them fails.
\<close>

definition open_change ::
    "(string \<Rightarrow> string) \<Rightarrow> 'st store_ops \<Rightarrow> string \<times> string \<times> string \<Rightarrow> string \<Rightarrow> edit \<Rightarrow>
     proposer \<Rightarrow> classification \<Rightarrow> 'st \<Rightarrow> (change_error + change) \<times> 'st" where
  "open_change H S ts i e who class st =
     (case ts of (t1, t2, t3) \<Rightarrow>
      (case Propose S t1 st (edit_change i e who class) of
         (Inl er, st) \<Rightarrow> (Inl er, st)
       | (Inr _, st) \<Rightarrow>
          (case Change_Service.Preview H S t2 st i (edit_steps (EditScope e)) (previewFor class)
                  (edit_blast class) (edit_inverse (EditScope e)) of
             (Inl er, st) \<Rightarrow> (Inl er, st)
           | (Inr _, st) \<Rightarrow> RequestApproval S t3 st i)))"

definition Submit ::
    "(string \<Rightarrow> string) \<Rightarrow> 'w layer_ops \<Rightarrow> 'st store_ops option \<Rightarrow> string \<times> string \<times> string \<Rightarrow>
     string \<Rightarrow> edit \<Rightarrow> proposer \<Rightarrow> ('w, 'st) editor \<Rightarrow> (edit_error + outcome) \<times> ('w, 'st) editor" where
  "Submit H L gate ts i e who s =
     (case validate_scope (EditScope e) of
        Some er \<Rightarrow> (Inl er, s)
      | None \<Rightarrow>
         (case LoadDoc L (layer_docs s) (EditScope e) of
            Inl er \<Rightarrow> (Inl er, s)
          | Inr (from, _) \<Rightarrow>
             (let class = ClassifyEdit from (EditTo e) in
              if Direction class \<noteq> DirectionWidening then
                (case SaveDoc L (layer_docs s) (EditScope e) (EditTo e) of
                   Inl er \<Rightarrow> (Inl er, s)
                 | Inr w \<Rightarrow> (Inr \<lparr>EditApplied = True, ChangeID = [], EditClass = class\<rparr>,
                             s\<lparr>layer_docs := w\<rparr>))
              else
                (case gate of
                   None \<Rightarrow> (Inl NoChangeSurface, s)
                 | Some S \<Rightarrow>
                    (case open_change H S ts i e who class (change_records s) of
                       (Inl er, st) \<Rightarrow> (Inl (GateError er), s\<lparr>change_records := st\<rparr>)
                     | (Inr _, st) \<Rightarrow>
                         (Inr \<lparr>EditApplied = False, ChangeID = i, EditClass = class\<rparr>,
                          s\<lparr>change_records := st,
                            pending := (pending s)(i \<mapsto> (EditScope e, EditTo e))\<rparr>))))))"

definition Apply ::
    "'w layer_ops \<Rightarrow> 'st store_ops option \<Rightarrow> string \<Rightarrow> ('w, 'st) editor \<Rightarrow>
     edit_error option \<times> ('w, 'st) editor" where
  "Apply L gate i s =
     (case pending s i of
        None \<Rightarrow> (Some (NoPendingEdit i), s)
      | Some (sc, to) \<Rightarrow>
         (case gate of
            None \<Rightarrow> (Some NoChangeSurface, s)
          | Some S \<Rightarrow>
             (case Get S (change_records s) i of
                Inl er \<Rightarrow> (Some (GateError er), s)
              | Inr c \<Rightarrow>
                 if Status c = StatusApplying \<or> Status c = StatusApplied then
                   (case SaveDoc L (layer_docs s) sc to of
                      Inl er \<Rightarrow> (Some er, s)
                    | Inr w \<Rightarrow> (None, s\<lparr>layer_docs := w, pending := (pending s)(i := None)\<rparr>))
                 else (Some (NotApproved i (Status c)), s))))"

subsection \<open>The layer files\<close>

record yaml =
  Marshal :: "policy \<Rightarrow> string option"
  Unmarshal :: "string \<Rightarrow> policy option"

definition layer_path :: "edit_scope \<Rightarrow> edit_error + string" where
  "layer_path s =
     (let i = EditLayer s @ ''__'' @ EditProject s @ ''__'' @ EditEnvironment s
      in if i \<noteq> path_base i \<or> i = ''.'' \<or> i = ''..'' then Inl (UnsafeLayerId i)
         else Inr (i @ ''.yaml''))"

definition layers_load :: "yaml \<Rightarrow> (string \<Rightarrow> read_result) \<Rightarrow> edit_scope \<Rightarrow> edit_error + policy \<times> bool" where
  "layers_load Y files s =
     (case layer_path s of
        Inl er \<Rightarrow> Inl er
      | Inr p \<Rightarrow>
         (case files p of
            NotExist \<Rightarrow> Inr (Default, False)
          | ReadFailed er \<Rightarrow> Inl (LayerUnreadable er)
          | Bytes b \<Rightarrow> (case Unmarshal Y b of None \<Rightarrow> Inl (LayerUnparseable p)
                                             | Some pol \<Rightarrow> Inr (pol, True))))"

text \<open>A document is written beside the layer file and renamed over it; \<open>writable\<close> tells for which
  paths both succeed.\<close>

definition layers_save ::
    "yaml \<Rightarrow> (string \<Rightarrow> bool) \<Rightarrow> (string \<Rightarrow> read_result) \<Rightarrow> edit_scope \<Rightarrow> policy \<Rightarrow>
     edit_error + (string \<Rightarrow> read_result)" where
  "layers_save Y writable files s pol =
     (case layer_path s of
        Inl er \<Rightarrow> Inl er
      | Inr p \<Rightarrow>
         (case Marshal Y pol of
            None \<Rightarrow> Inl (LayerUnwritable p)
          | Some b \<Rightarrow> if writable p then Inr (files(p := Bytes b)) else Inl (LayerUnwritable p)))"

definition policyLayers :: "yaml \<Rightarrow> (string \<Rightarrow> bool) \<Rightarrow> (string \<Rightarrow> read_result) layer_ops" where
  "policyLayers Y writable = \<lparr>LoadDoc = layers_load Y, SaveDoc = layers_save Y writable\<rparr>"

definition project_scope :: "string \<Rightarrow> edit_scope" where
  "project_scope p = \<lparr>EditLayer = LayerProject, EditProject = p, EditEnvironment = []\<rparr>"

definition environment_scope :: "string \<Rightarrow> string \<Rightarrow> edit_scope" where
  "environment_scope p e = \<lparr>EditLayer = LayerEnvironment, EditProject = p, EditEnvironment = e\<rparr>"

definition edited_layer ::
    "yaml \<Rightarrow> (string \<Rightarrow> read_result) \<Rightarrow> edit_scope \<Rightarrow> string \<Rightarrow> edit_error + layer list" where
  "edited_layer Y files s name =
     (case layers_load Y files s of
        Inl er \<Rightarrow> Inl er
      | Inr (pol, ok) \<Rightarrow> Inr (if ok then [\<lparr>LayerName = name, LayerPolicy = pol\<rparr>] else []))"

definition EditedLayers ::
    "yaml \<Rightarrow> (string \<Rightarrow> read_result) \<Rightarrow> string \<Rightarrow> string \<Rightarrow> edit_error + layer list" where
  "EditedLayers Y files projectID environmentID =
     (case edited_layer Y files (project_scope projectID) (''project '' @ projectID @ '' (edited)'') of
        Inl er \<Rightarrow> Inl er
      | Inr ls \<Rightarrow>
          if environmentID = [] then Inr ls
          else (case edited_layer Y files (environment_scope projectID environmentID)
                       (''environment '' @ environmentID @ '' (edited)'') of
                  Inl er \<Rightarrow> Inl er
                | Inr ls' \<Rightarrow> Inr (ls @ ls')))"

subsection \<open>Edit requests (daemon/policyedit.go)\<close>

record edit_request =
  ReqProject :: string
  ReqEnvironment :: string
  ReqReason :: string
  AddEgress :: "string list"
  RemoveEgress :: "string list"
  AddGates :: "string list"
  RemoveGates :: "string list"

definition addRemove :: "string slice \<Rightarrow> string list \<Rightarrow> string list \<Rightarrow> string slice" where
  "addRemove cur add remove =
     mk_slice (sort (remdups (filter (\<lambda>s. s \<notin> set remove)
       (sl cur @ filter (\<lambda>s. s \<noteq> []) add))))"

definition applyPolicyEdit :: "policy \<Rightarrow> edit_request \<Rightarrow> policy" where
  "applyPolicyEdit p r =
     p\<lparr>Egress := \<lparr>Domains = addRemove (Domains (Egress p)) (AddEgress r) (RemoveEgress r)\<rparr>,
       ApprovalRequired := addRemove (ApprovalRequired p) (AddGates r) (RemoveGates r)\<rparr>"

definition request_scope :: "edit_request \<Rightarrow> edit_scope" where
  "request_scope r =
     \<lparr>EditLayer = (if ReqEnvironment r = [] then LayerProject else LayerEnvironment),
      EditProject = ReqProject r, EditEnvironment = ReqEnvironment r\<rparr>"

datatype handler_error = Unattributable | EditFailed edit_error

definition handlePolicyEdit ::
    "(string \<Rightarrow> string) \<Rightarrow> 'w layer_ops \<Rightarrow> 'st store_ops option \<Rightarrow> string \<times> string \<times> string \<Rightarrow>
     string \<Rightarrow> string \<Rightarrow> edit_request \<Rightarrow> ('w, 'st) editor \<Rightarrow>
     (handler_error + outcome) \<times> ('w, 'st) editor" where
  "handlePolicyEdit H L gate ts i who r s =
     (if who = [] then (Inl Unattributable, s)
      else (case LoadDoc L (layer_docs s) (request_scope r) of
              Inl er \<Rightarrow> (Inl (EditFailed er), s)
            | Inr (current, _) \<Rightarrow>
               (let e = \<lparr>EditScope = request_scope r, EditTo = applyPolicyEdit current r,
                         EditReason = ReqReason r\<rparr>
                in case Submit H L gate ts i e \<lparr>PKind = ''human'', PName = who, PModel = []\<rparr> s of
                     (Inl er, s') \<Rightarrow> (Inl (EditFailed er), s')
                   | (Inr o1, s') \<Rightarrow> (Inr o1, s'))))"

subsection \<open>Histories of the service\<close>

text \<open>
  Submissions, applications and whatever is called on the change service, in any order. The lock
  of the service covers a whole call.
\<close>

datatype editor_call =
    Submitting "string \<times> string \<times> string" string edit proposer
  | Applying string
  | Reviewing "string \<times> service_call"

fun edit_step ::
    "(string \<Rightarrow> string) \<Rightarrow> 'w layer_ops \<Rightarrow> 'st store_ops \<Rightarrow> ('w, 'st) editor \<Rightarrow> editor_call \<Rightarrow>
     ('w, 'st) editor" where
  "edit_step H L S s (Submitting ts i e who) = snd (Submit H L (Some S) ts i e who s)"
| "edit_step H L S s (Applying i) = snd (Apply L (Some S) i s)"
| "edit_step H L S s (Reviewing c) =
     s\<lparr>change_records := snd (service_step H S (change_records s) c)\<rparr>"

definition edit_run ::
    "(string \<Rightarrow> string) \<Rightarrow> 'w layer_ops \<Rightarrow> 'st store_ops \<Rightarrow> ('w, 'st) editor \<Rightarrow> editor_call list \<Rightarrow>
     ('w, 'st) editor" where
  "edit_run H L S s calls = foldl (edit_step H L S) s calls"

lemma edit_run_simps [simp]:
  "edit_run H L S s [] = s"
  "edit_run H L S s (calls @ [c]) = edit_step H L S (edit_run H L S s calls) c"
  by (simp_all add: edit_run_def)

text \<open>The record of a widening, from the moment its plan is attached.\<close>

definition records_edit :: "(string \<Rightarrow> string) \<Rightarrow> edit_scope \<Rightarrow> change \<Rightarrow> bool" where
  "records_edit H sc c \<longleftrightarrow>
     Status c \<noteq> StatusProposed \<and> PolicyRule c = ''policy-edit:'' @ EditLayer sc \<and>
     PolicyEffect c = ''widening'' \<and> Steps c = edit_steps sc \<and> change_ok H c"

lemma change_step_records_edit:
  "change_step H c d \<Longrightarrow> records_edit H sc c \<Longrightarrow> records_edit H sc d"
  using change_step_ok [of H c d]
  by (auto simp: records_edit_def fn_simps elim!: change_stepE)

lemma mutate_Inr:
  "mutate S now st i next f = (Inr r, st') \<Longrightarrow>
   \<exists>c c1. LoadC S st i = Inr (Some c) \<and> CanMoveTo (Status c) next \<and> f c = Inr c1 \<and>
     r = c1\<lparr>Status := next, UpdatedAt := now\<rparr> \<and> Save S st r = Inr st'"
  by (auto simp: mutate_def Let_def split: sum.splits option.splits if_splits)

lemma Propose_Inr:
  "Propose S now st c = (Inr r, st') \<Longrightarrow>
   r = c\<lparr>Status := StatusProposed, CreatedAt := now, UpdatedAt := now\<rparr> \<and> Save S st r = Inr st'"
  by (auto simp: Propose_def Let_def split: sum.splits option.splits)

context change_store
begin

lemma kept_step:
  assumes "ok st" "LoadC S st i = Inr (Some c)" "P c"
    and step: "\<And>c d. P c \<Longrightarrow> change_step H c d \<Longrightarrow> P d"
  shows "\<exists>d. LoadC S (snd (service_step H S st call)) i = Inr (Some d) \<and> P d"
  using service_step_effect [of H S st call, unfolded call_effect_def]
proof
  assume "\<exists>e. service_step H S st call = (Inl e, st)"
  with assms(2,3) show ?thesis by auto
next
  assume "\<exists>d st'. service_step H S st call = (Inr d, st') \<and> Save S st d = Inr st' \<and> Validate d = None \<and>
      (LoadC S st (ID d) = Inr None \<and> Status d = StatusProposed \<or>
       (\<exists>c0 j. LoadC S st j = Inr (Some c0) \<and> change_step H c0 d))"
  then obtain d st' where r: "service_step H S st call = (Inr d, st')" "Save S st d = Inr st'"
    and w: "LoadC S st (ID d) = Inr None \<or> (\<exists>c0 j. LoadC S st j = Inr (Some c0) \<and> change_step H c0 d)"
    by blast
  show ?thesis
  proof (cases "i = ID d")
    case False
    with assms(2,3) show ?thesis by (simp add: r load_save [OF assms(1) r(2)])
  next
    case True
    with w assms(2) obtain c0 j where c0: "LoadC S st j = Inr (Some c0)" "change_step H c0 d" by auto
    with load_id [OF assms(1)] change_step_ID True have "j = i" by metis
    with c0 assms(2,3) step have "P d" by auto
    with True show ?thesis by (simp add: r load_save [OF assms(1) r(2)])
  qed
qed

text \<open>Opening a change is a run of at most three service calls.\<close>

lemma open_change_run:
  "\<exists>calls. snd (open_change H S ts i e who class st) = service_run H S st calls"
proof -
  obtain t1 t2 t3 where ts: "ts = (t1, t2, t3)" by (metis prod.exhaust)
  let ?p = "(t1, DoPropose (edit_change i e who class))"
  let ?v = "(t2, DoPreview i (edit_steps (EditScope e)) (previewFor class) (edit_blast class)
               (edit_inverse (EditScope e)))"
  let ?r = "(t3, DoRequestApproval i)"
  obtain r1 st1 where p: "Propose S t1 st (edit_change i e who class) = (r1, st1)"
    by (metis prod.exhaust)
  obtain r2 st2 where v: "Change_Service.Preview H S t2 st1 i (edit_steps (EditScope e)) (previewFor class)
      (edit_blast class) (edit_inverse (EditScope e)) = (r2, st2)" by (metis prod.exhaust)
  have "snd (open_change H S ts i e who class st) =
      (case r1 of Inl _ \<Rightarrow> service_run H S st [?p]
       | Inr _ \<Rightarrow> (case r2 of Inl _ \<Rightarrow> service_run H S st [?p, ?v]
                  | Inr _ \<Rightarrow> service_run H S st [?p, ?v, ?r]))"
    by (simp add: open_change_def ts p v service_run_def split: sum.split)
  then show ?thesis by (cases r1; cases r2) auto
qed

lemma open_change_recorded:
  assumes "ok st" "all_stored (change_ok H) st" "Direction class = DirectionWidening"
    and r: "open_change H S ts i e who class st = (Inr r, st')"
  shows "LoadC S st' i = Inr (Some r) \<and> records_edit H (EditScope e) r"
proof -
  obtain t1 t2 t3 where ts: "ts = (t1, t2, t3)" by (metis prod.exhaust)
  from r obtain r1 st1 r2 st2 where
    p: "Propose S t1 st (edit_change i e who class) = (Inr r1, st1)" and
    v: "Change_Service.Preview H S t2 st1 i (edit_steps (EditScope e)) (previewFor class)
          (edit_blast class) (edit_inverse (EditScope e)) = (Inr r2, st2)" and
    a: "RequestApproval S t3 st2 i = (Inr r, st')"
    by (auto simp: open_change_def ts split: prod.splits sum.splits)
  from Propose_Inr [OF p] have e1: "r1 = (edit_change i e who class)
      \<lparr>Status := StatusProposed, CreatedAt := t1, UpdatedAt := t1\<rparr>" and s1: "Save S st r1 = Inr st1"
    by (rule conjunct1, rule conjunct2)
  have r1: "ID r1 = i" "PolicyRule r1 = ''policy-edit:'' @ EditLayer (EditScope e)"
    "PolicyEffect r1 = ''widening''"
    by (simp_all add: e1 edit_change_def assms(3))
  have ok1: "ok st1" and l1: "LoadC S st1 i = Inr (Some r1)"
    using ok_save [OF assms(1) s1] load_save [OF assms(1) s1] r1(1) by simp_all
  from mutate_Inr [OF v [unfolded Change_Service.Preview_def]] l1
  have r2: "ID r2 = i" "PolicyRule r2 = PolicyRule r1" "PolicyEffect r2 = ''widening''"
    "Steps r2 = edit_steps (EditScope e)" "PlanHash r2 = Pin H (Steps r2)"
    and s2: "Save S st1 r2 = Inr st2"
    by (auto simp: preview_fn_Inr r1)
  have ok2: "ok st2" and l2: "LoadC S st2 i = Inr (Some r2)"
    using ok_save [OF ok1 s2] load_save [OF ok1 s2] r2(1) by simp_all
  from mutate_Inr [OF a [unfolded RequestApproval_def]] l2
  have r3: "ID r = i" "PolicyRule r = PolicyRule r1" "PolicyEffect r = ''widening''"
    "Steps r = edit_steps (EditScope e)" "PlanHash r = Pin H (Steps r)" "Status r = StatusAwaitingApproval"
    and s3: "Save S st2 r = Inr st'"
    by (auto simp: r2 split: if_splits)
  have "change_ok H r" by (simp add: change_ok_def plan_pinned_def r3 edit_steps_def)
  then show ?thesis using load_save [OF ok2 s3] r3 r1 by (simp add: records_edit_def)
qed

text \<open>The invariant of the service: every pending edit has its change on record.\<close>

definition editor_inv :: "(string \<Rightarrow> string) \<Rightarrow> ('w, 'st) editor \<Rightarrow> bool" where
  "editor_inv H s \<longleftrightarrow>
     ok (change_records s) \<and> all_stored (change_ok H) (change_records s) \<and>
     (\<forall>i sc p. pending s i = Some (sc, p) \<longrightarrow>
        (\<exists>c. LoadC S (change_records s) i = Inr (Some c) \<and> records_edit H sc c))"

lemma service_run_inv:
  assumes "editor_inv H s"
  shows "editor_inv H (s\<lparr>change_records := service_run H S (change_records s) calls\<rparr>)"
proof (induction calls rule: rev_induct)
  case Nil
  show ?case using assms by (simp add: service_run_def)
next
  case (snoc call calls)
  define st where "st = service_run H S (change_records s) calls"
  have inv: "ok st" "all_stored (change_ok H) st"
    "\<And>i sc p. pending s i = Some (sc, p) \<Longrightarrow> \<exists>c. LoadC S st i = Inr (Some c) \<and> records_edit H sc c"
    using snoc by (auto simp: editor_inv_def st_def)
  have st': "service_run H S (change_records s) (calls @ [call]) = snd (service_step H S st call)"
    by (simp add: service_run_def st_def)
  have "all_stored (change_ok H) (snd (service_step H S st call))"
    by (rule stored_step [OF inv(1,2)]) (simp add: change_ok_def, erule (1) change_step_ok)
  moreover have "\<exists>c. LoadC S (snd (service_step H S st call)) i = Inr (Some c) \<and> records_edit H sc c"
    if "pending s i = Some (sc, p)" for i sc p
  proof -
    from inv(3) [OF that] obtain c where "LoadC S st i = Inr (Some c)" "records_edit H sc c" by blast
    then show ?thesis
      using kept_step [where P = "records_edit H sc", OF inv(1)] change_step_records_edit by blast
  qed
  ultimately show ?case using ok_step [OF inv(1)] by (simp add: editor_inv_def st')
qed

lemma service_step_inv:
  "editor_inv H s \<Longrightarrow> editor_inv H (s\<lparr>change_records := snd (service_step H S (change_records s) c)\<rparr>)"
  using service_run_inv [of H s "[c]"] by (simp add: service_run_def)

lemma editor_inv_docs: "editor_inv H (s\<lparr>layer_docs := w\<rparr>) = editor_inv H s"
  by (simp add: editor_inv_def)

lemma Submit_inv:
  assumes inv: "editor_inv H s"
  shows "editor_inv H (snd (Submit H L (Some S) ts i e who s))"
proof (cases "\<exists>from ok1. validate_scope (EditScope e) = None \<and>
    LoadDoc L (layer_docs s) (EditScope e) = Inr (from, ok1) \<and>
    Direction (ClassifyEdit from (EditTo e)) = DirectionWidening")
  case False
  consider "\<exists>er. validate_scope (EditScope e) = Some er"
    | "\<exists>er. validate_scope (EditScope e) = None \<and> LoadDoc L (layer_docs s) (EditScope e) = Inl er"
    | "\<exists>f k. validate_scope (EditScope e) = None \<and> LoadDoc L (layer_docs s) (EditScope e) = Inr (f, k) \<and>
         Direction (ClassifyEdit f (EditTo e)) \<noteq> DirectionWidening"
    using False by (cases "validate_scope (EditScope e)"; cases "LoadDoc L (layer_docs s) (EditScope e)") auto
  then show ?thesis
  proof cases
    case 1
    then show ?thesis using inv by (elim exE) (simp add: Submit_def)
  next
    case 2
    then show ?thesis using inv by (elim exE conjE) (simp add: Submit_def)
  next
    case 3
    then obtain f k where f: "validate_scope (EditScope e) = None"
      "LoadDoc L (layer_docs s) (EditScope e) = Inr (f, k)"
      "Direction (ClassifyEdit f (EditTo e)) \<noteq> DirectionWidening" by blast
    then show ?thesis
      by (cases "SaveDoc L (layer_docs s) (EditScope e) (EditTo e)")
        (simp_all add: Submit_def inv editor_inv_docs)
  qed
next
  case True
  then obtain from0 ok1 where t: "validate_scope (EditScope e) = None"
    "LoadDoc L (layer_docs s) (EditScope e) = Inr (from0, ok1)"
    "Direction (ClassifyEdit from0 (EditTo e)) = DirectionWidening" by blast
  define cls where "cls = ClassifyEdit from0 (EditTo e)"
  obtain res st where r: "open_change H S ts i e who cls (change_records s) = (res, st)"
    by (metis prod.exhaust)
  from open_change_run [of H ts i e who cls "change_records s"] r
  obtain calls where "st = service_run H S (change_records s) calls" by auto
  then have st: "editor_inv H (s\<lparr>change_records := st\<rparr>)" using service_run_inv [OF inv] by simp
  show ?thesis
  proof (cases res)
    case (Inl er)
    then show ?thesis using t r st by (simp add: Submit_def cls_def)
  next
    case (Inr c)
    have "LoadC S st i = Inr (Some c) \<and> records_edit H (EditScope e) c"
      using open_change_recorded [of "change_records s" H cls ts i e who c st] inv t(3) r Inr
      by (simp add: editor_inv_def cls_def)
    then show ?thesis using t r st Inr by (auto simp: Submit_def cls_def editor_inv_def)
  qed
qed

lemma Apply_inv: "editor_inv H s \<Longrightarrow> editor_inv H (snd (Apply L (Some S) i s))"
  by (auto simp: Apply_def editor_inv_def split: option.splits sum.splits prod.splits if_splits)

lemma edit_run_inv: "editor_inv H (edit_run H L S (NewService w empty) calls)"
proof (induction calls rule: rev_induct)
  case Nil
  show ?case using ok_empty by (simp add: editor_inv_def NewService_def all_stored_def)
next
  case (snoc c calls)
  then show ?case
    by (cases c) (simp_all add: Submit_inv Apply_inv service_step_inv)
qed

end

text \<open>Pending edits come from submissions.\<close>

lemma pending_step:
  "pending (edit_step H L S s c) i = Some (sc, p) \<Longrightarrow>
   pending s i = Some (sc, p) \<or>
   (\<exists>ts e who. c = Submitting ts i e who \<and> EditScope e = sc \<and> EditTo e = p)"
  by (cases c)
    (auto simp: Submit_def Apply_def Let_def
      split: option.splits sum.splits prod.splits if_splits)

lemma pending_run:
  "pending (edit_run H L S (NewService w st) calls) i = Some (sc, p) \<Longrightarrow>
   \<exists>ts e who. Submitting ts i e who \<in> set calls \<and> EditScope e = sc \<and> EditTo e = p"
proof (induction calls rule: rev_induct)
  case Nil
  then show ?case by (simp add: NewService_def)
next
  case (snoc c calls)
  from pending_step [OF snoc.prems [unfolded edit_run_simps]] snoc.IH show ?case by fastforce
qed

subsection \<open>Edits and resolution\<close>

lemma set_addRemove:
  "set (sl (addRemove cur add remove)) = (set (sl cur) \<union> (set add - {[]})) - set remove"
  by (auto simp: addRemove_def)

lemma addRemove_None: "addRemove cur add remove = None \<longleftrightarrow> set (sl (addRemove cur add remove)) = {}"
  by (simp add: addRemove_def mk_slice_def)

lemma Resolve_keeps_gates:
  "set (sl (ApprovalRequired (Policy cur))) \<subseteq>
   set (sl (ApprovalRequired (Policy (fst (resolve_layers H cur cl ls)))))"
proof (induction ls arbitrary: cur cl)
  case (Cons l ls)
  let ?n = "Resolve H (Policy cur) (LayerPolicy l)"
  have "set (sl (ApprovalRequired (Policy cur))) \<subseteq> set (sl (ApprovalRequired (Policy ?n)))"
    by (simp add: Resolve_sections(7))
  also have "\<dots> \<subseteq> set (sl (ApprovalRequired (Policy (fst (resolve_layers H ?n
      (cl @ map (\<lambda>n. (LayerName l, n)) (Notes ?n)) ls)))))"
    by (rule Cons.IH)
  finally show ?case by (simp add: Let_def)
qed simp

lemma layer_gates_in_force:
  assumes "l \<in> set ls"
  shows "set (sl (ApprovalRequired (LayerPolicy l))) \<subseteq>
    set (sl (ApprovalRequired (ScopePolicy (ResolvePolicy H base ls))))"
proof -
  have "set (sl (ApprovalRequired (LayerPolicy l))) \<subseteq>
      set (sl (ApprovalRequired (Policy (fst (resolve_layers H cur cl ls)))))" for cur cl
    using assms
  proof (induction ls arbitrary: cur cl)
    case (Cons k ls)
    show ?case
    proof (cases "l = k")
      case True
      have "set (sl (ApprovalRequired (LayerPolicy l))) \<subseteq>
          set (sl (ApprovalRequired (Policy (Resolve H (Policy cur) (LayerPolicy l)))))"
        by (simp add: Resolve_sections(7))
      also have "\<dots> \<subseteq> set (sl (ApprovalRequired (Policy (fst (resolve_layers H
          (Resolve H (Policy cur) (LayerPolicy l)) (cl @ map (\<lambda>n. (LayerName l, n))
            (Notes (Resolve H (Policy cur) (LayerPolicy l)))) ls)))))"
        by (rule Resolve_keeps_gates)
      finally show ?thesis using True by (simp add: Let_def)
    next
      case False
      with Cons.prems have "l \<in> set ls" by simp
      from Cons.IH [OF this] show ?thesis by (simp add: Let_def)
    qed
  qed simp
  then show ?thesis by (simp add: ResolvePolicy_def case_prod_beta)
qed

text \<open>Which file a scope has.\<close>

lemma layer_path_Inr:
  "layer_path s = Inr p \<Longrightarrow> p = EditLayer s @ ''__'' @ EditProject s @ ''__'' @ EditEnvironment s @ ''.yaml''"
  by (auto simp: layer_path_def Let_def split: if_splits)

lemma layers_save_Inr:
  "layers_save Y writable files s pol = Inr files' \<Longrightarrow>
   \<exists>p b. layer_path s = Inr p \<and> Marshal Y pol = Some b \<and> files' = files(p := Bytes b)"
  by (auto simp: layers_save_def split: sum.splits option.splits if_splits)

lemma load_saved:
  assumes "layers_save Y writable files s pol = Inr files'" "\<And>p b. Marshal Y p = Some b \<Longrightarrow> Unmarshal Y b = Some p"
  shows "layers_load Y files' s = Inr (pol, True)"
  using layers_save_Inr [OF assms(1)] assms(2) by (auto simp: layers_load_def)

lemma load_other:
  assumes "layers_save Y writable files s pol = Inr files'" "layer_path s \<noteq> layer_path t"
  shows "layers_load Y files' t = layers_load Y files t"
  using layers_save_Inr [OF assms(1)] assms(2) by (auto simp: layers_load_def split: sum.split)

lemma EditedLayers_loads:
  assumes "EditedLayers Y files p e = Inr ls"
  shows "layers_load Y files (project_scope p) = Inr (pol, True) \<Longrightarrow>
      \<exists>l \<in> set ls. LayerPolicy l = pol"
    and "e \<noteq> [] \<Longrightarrow> layers_load Y files (environment_scope p e) = Inr (pol, True) \<Longrightarrow>
      \<exists>l \<in> set ls. LayerPolicy l = pol"
  using assms by (auto simp: EditedLayers_def edited_layer_def split: sum.splits if_splits)

lemma Submit_applied:
  assumes "Submit H L gate ts i e who s = (Inr out, s')" "EditApplied out"
  shows "\<exists>w. SaveDoc L (layer_docs s) (EditScope e) (EditTo e) = Inr w \<and> s' = s\<lparr>layer_docs := w\<rparr>"
  using assms
  by (auto simp: Submit_def Let_def split: option.splits sum.splits prod.splits if_splits)

lemma Submit_writes:
  assumes "layer_docs (snd (Submit H L gate ts i e who s)) \<noteq> layer_docs s"
  shows "Editable (EditLayer (EditScope e)) \<and>
    (\<exists>old k. LoadDoc L (layer_docs s) (EditScope e) = Inr (old, k) \<and>
       Direction (ClassifyEdit old (EditTo e)) \<noteq> DirectionWidening)"
proof -
  have "validate_scope sc = None \<Longrightarrow> Editable (EditLayer sc)" for sc
    by (auto simp: validate_scope_def split: if_splits)
  with assms show ?thesis
    by (auto simp: Submit_def Let_def split: option.splits sum.splits if_splits prod.splits)
qed

lemma handled_edit:
  assumes "handlePolicyEdit H L gate ts i who r s = (Inr out, s')" "EditApplied out"
  shows "\<exists>cur k w. LoadDoc L (layer_docs s) (request_scope r) = Inr (cur, k) \<and>
    SaveDoc L (layer_docs s) (request_scope r) (applyPolicyEdit cur r) = Inr w \<and>
    s' = s\<lparr>layer_docs := w\<rparr>"
proof -
  from assms(1) obtain cur k where l: "LoadDoc L (layer_docs s) (request_scope r) = Inr (cur, k)"
    by (auto simp: handlePolicyEdit_def split: if_splits sum.splits)
  with assms(1) have "Submit H L gate ts i \<lparr>EditScope = request_scope r, EditTo = applyPolicyEdit cur r,
        EditReason = ReqReason r\<rparr> \<lparr>PKind = ''human'', PName = who, PModel = []\<rparr> s = (Inr out, s')"
    by (auto simp: handlePolicyEdit_def Let_def split: if_splits sum.splits prod.splits)
  from Submit_applied [OF this assms(2)] l show ?thesis by auto
qed

lemma Narrowings_TTL: "Narrowings (classifyTTL c f t) = [] \<Longrightarrow> Narrowings c = []"
  by (auto simp: classifyTTL_def reason_simps split: if_splits option.splits)

lemma no_narrowings_domains:
  "Narrowings (edit_reasons f t) = [] \<Longrightarrow> set (sl (Domains (Egress f))) \<subseteq> set (sl (Domains (Egress t)))"
  by (auto simp: edit_reasons_def Let_def reason_simps dest!: Narrowings_TTL)

subsection \<open>Properties\<close>

text \<open>
  C17: A guardrail is loosened only by an approved change. In every history of submissions,
  applications and calls of the change service, a call that alters the layer documents is either
  a submission for an editable layer that the classifier finds no widening in against the
  document then stored, or the application of a change that a submission of exactly this
  document for exactly this layer opened, that is recorded as a widening of that layer with the
  pinned plan of that layer, that is applying or applied, and that names who decided it.
\<close>

theorem widening_needs_approval:
  fixes L :: "'w layer_ops"
  defines "e \<equiv> \<lambda>H w calls. edit_run H L fileStore (NewService w empty_dir) calls"
  assumes change: "layer_docs (edit_step H L fileStore (e H w calls) call) \<noteq> layer_docs (e H w calls)"
  shows
    "(\<exists>ts i ed who old k. call = Submitting ts i ed who \<and> Editable (EditLayer (EditScope ed)) \<and>
        LoadDoc L (layer_docs (e H w calls)) (EditScope ed) = Inr (old, k) \<and>
        Direction (ClassifyEdit old (EditTo ed)) \<noteq> DirectionWidening) \<or>
     (\<exists>i ts ed who c. call = Applying i \<and> Submitting ts i ed who \<in> set calls \<and>
        SaveDoc L (layer_docs (e H w calls)) (EditScope ed) (EditTo ed) =
          Inr (layer_docs (edit_step H L fileStore (e H w calls) call)) \<and>
        LoadC fileStore (change_records (e H w calls)) i = Inr (Some c) \<and>
        (Status c = StatusApplying \<or> Status c = StatusApplied) \<and> DecidedBy c \<noteq> [] \<and>
        PolicyRule c = ''policy-edit:'' @ EditLayer (EditScope ed) \<and> PolicyEffect c = ''widening'' \<and>
        Steps c = edit_steps (EditScope ed) \<and> PlanHash c = Pin H (Steps c))"
proof (cases call)
  case (Submitting ts i ed who)
  with change have "layer_docs (snd (Submit H L (Some fileStore) ts i ed who (e H w calls))) \<noteq>
      layer_docs (e H w calls)" by simp
  from Submit_writes [OF this] Submitting show ?thesis by blast
next
  case (Reviewing c)
  with change show ?thesis by simp
next
  case (Applying i)
  let ?s = "e H w calls"
  from change Applying obtain sc p c w' where a: "pending ?s i = Some (sc, p)"
    "Get fileStore (change_records ?s) i = Inr c" "Status c = StatusApplying \<or> Status c = StatusApplied"
    "SaveDoc L (layer_docs ?s) sc p = Inr w'"
    "layer_docs (edit_step H L fileStore ?s call) = w'"
    by (auto simp: Apply_def split: option.splits sum.splits if_splits)
  have g: "LoadC fileStore (change_records ?s) i = Inr (Some c)"
    using a(2) by (auto simp: Get_def split: sum.splits option.splits)
  from files.edit_run_inv [of H L w calls] have "\<exists>c. LoadC fileStore (change_records ?s) i = Inr (Some c) \<and>
      records_edit H sc c"
    unfolding files.editor_inv_def e_def using a(1) [unfolded e_def] by blast
  with g have "records_edit H sc c" by auto
  then have f: "PolicyRule c = ''policy-edit:'' @ EditLayer sc" "PolicyEffect c = ''widening''"
    "Steps c = edit_steps sc" "PlanHash c = Pin H (Steps c)" "DecidedBy c \<noteq> []"
    using a(3) by (auto simp: records_edit_def change_ok_def plan_pinned_def)
  obtain ts ed who where ed: "Submitting ts i ed who \<in> set calls" "EditScope ed = sc" "EditTo ed = p"
    using pending_run [OF a(1) [unfolded e_def]] by blast
  show ?thesis
    by (rule disjI2, intro exI [of _ i] exI [of _ ts] exI [of _ ed] exI [of _ who] exI [of _ c] conjI)
      (use f a(3-5) g ed Applying in simp_all)
qed

subsection \<open>A run of the service\<close>

definition domain_doc :: policy where
  "domain_doc = Default\<lparr>Egress := \<lparr>Domains = Some [''b'']\<rparr>\<rparr>"

definition gate_doc :: policy where
  "gate_doc = Default\<lparr>ApprovalRequired := Some [''rm'']\<rparr>"

definition demo_yaml :: yaml where
  "demo_yaml = \<lparr>
     Marshal = (\<lambda>p. if p = domain_doc then Some ''d'' else if p = gate_doc then Some ''g'' else None),
     Unmarshal = (\<lambda>b. if b = ''d'' then Some domain_doc else if b = ''g'' then Some gate_doc else None)\<rparr>"

definition demo_layers :: "(string \<Rightarrow> read_result) layer_ops" where
  "demo_layers = policyLayers demo_yaml (\<lambda>_. True)"

definition operator :: proposer where
  "operator = \<lparr>PKind = ''human'', PName = ''op'', PModel = []\<rparr>"

definition demo_edit :: "policy \<Rightarrow> edit" where
  "demo_edit p = \<lparr>EditScope = project_scope ''p'', EditTo = p, EditReason = []\<rparr>"

text \<open>A widening is proposed, a gate is added meanwhile, the widening is approved and applied.\<close>

definition demo_calls :: "editor_call list" where
  "demo_calls =
     [Submitting (''t1'', ''t2'', ''t3'') ''c1'' (demo_edit domain_doc) operator,
      Submitting (''t4'', ''t5'', ''t6'') ''c2'' (demo_edit gate_doc) operator,
      Reviewing (''t7'', DoApprove ''c1'' ''alice'' [] None),
      Applying ''c1'']"

definition demo_editor :: "nat \<Rightarrow> (string \<Rightarrow> read_result, record_dir) editor" where
  "demo_editor n = edit_run sample_hash demo_layers fileStore (NewService (\<lambda>_. NotExist) empty_dir)
     (take n demo_calls)"

lemma demo_docs:
  "layers_load demo_yaml (layer_docs (demo_editor 3)) (project_scope ''p'') = Inr (gate_doc, True)"
  "layers_load demo_yaml (layer_docs (demo_editor 4)) (project_scope ''p'') = Inr (domain_doc, True)"
  by code_simp+

theorem widening_needs_approval_witness:
  "\<exists>c. LoadC fileStore (change_records (demo_editor 3)) ''c1'' = Inr (Some c) \<and>
     (Status c = StatusApplying \<or> Status c = StatusApplied) \<and> DecidedBy c \<noteq> []"
proof -
  have step: "demo_editor 4 = edit_step sample_hash demo_layers fileStore (demo_editor 3) (Applying ''c1'')"
    by (simp add: demo_editor_def demo_calls_def edit_run_def eval_nat_numeral)
  have "gate_doc \<noteq> domain_doc" by code_simp
  with demo_docs have "layer_docs (demo_editor 4) \<noteq> layer_docs (demo_editor 3)" by auto
  with widening_needs_approval [of sample_hash demo_layers "\<lambda>_. NotExist" "take 3 demo_calls" "Applying ''c1''"]
  show ?thesis unfolding step unfolding demo_editor_def by blast
qed

text \<open>
  An approval is carried onto a document nobody reviewed it against. While the widening that
  allows host \<open>b\<close> waits, an operator adds the gate \<open>rm\<close>, which is in force at once. When the
  widening is approved and applied, its document replaces the stored one and the gate is gone,
  although the preview the approver saw names only the host: against the document it replaced,
  the classifier reports the removal of the gate.
\<close>

theorem approved_edit_drops_later_gate:
  "layers_load demo_yaml (layer_docs (demo_editor 3)) (project_scope ''p'') = Inr (gate_doc, True) \<and>
   layers_load demo_yaml (layer_docs (demo_editor 4)) (project_scope ''p'') = Inr (domain_doc, True) \<and>
   ''approval gate REMOVED: rm'' \<in> set (Widenings (ClassifyEdit gate_doc domain_doc)) \<and>
   (case LoadC fileStore (change_records (demo_editor 4)) ''c1'' of
      Inr (Some c) \<Rightarrow> PreviewText c = ''+ egress host allowed: b'' \<and> Status c = StatusApplying
    | _ \<Rightarrow> False)"
proof (intro conjI demo_docs)
  show "''approval gate REMOVED: rm'' \<in> set (Widenings (ClassifyEdit gate_doc domain_doc))"
    by code_simp
  show "case LoadC fileStore (change_records (demo_editor 4)) ''c1'' of
      Inr (Some c) \<Rightarrow> PreviewText c = ''+ egress host allowed: b'' \<and> Status c = StatusApplying
    | _ \<Rightarrow> False"
    by code_simp
qed

text \<open>
  A gate added through the edit surface gates every session of its scope. When a request
  with the gate \<open>g\<close> is answered as applied, then in the policy that is resolved for the project
  and the environment it names, over any base and after any host-side layers, \<open>g\<close> is among the
  commands that need approval. The request must name the environment as resolution does, by its
  qualified id, or no environment at all.
\<close>

theorem added_gate_in_force:
  assumes yaml: "\<And>p b. Marshal Y p = Some b \<Longrightarrow> Unmarshal Y b = Some p"
    and edit: "handlePolicyEdit H (policyLayers Y writable) gate ts i who r s = (Inr out, s')"
      "EditApplied out"
    and g: "g \<in> set (AddGates r)" "g \<noteq> []" "g \<notin> set (RemoveGates r)"
    and env: "ReqEnvironment r = [] \<or> ReqEnvironment r = envid"
    and read: "EditedLayers Y (layer_docs s') (ReqProject r) envid = Inr edited"
  shows "g \<in> set (sl (ApprovalRequired (ScopePolicy (ResolvePolicy H base (host @ edited)))))"
proof -
  from handled_edit [OF edit] obtain cur w where
    w: "layers_save Y writable (layer_docs s) (request_scope r) (applyPolicyEdit cur r) = Inr w"
      "s' = s\<lparr>layer_docs := w\<rparr>"
    by (auto simp: policyLayers_def)
  have load: "layers_load Y w (request_scope r) = Inr (applyPolicyEdit cur r, True)"
    by (rule load_saved [OF w(1) yaml])
  have read': "EditedLayers Y w (ReqProject r) envid = Inr edited" using read w(2) by simp
  obtain l where l: "l \<in> set edited" "LayerPolicy l = applyPolicyEdit cur r"
  proof (cases "ReqEnvironment r = []")
    case True
    then have "request_scope r = project_scope (ReqProject r)"
      by (simp add: request_scope_def project_scope_def)
    with EditedLayers_loads(1) [OF read'] load that show ?thesis by metis
  next
    case False
    with env have "request_scope r = environment_scope (ReqProject r) envid" "envid \<noteq> []"
      by (auto simp: request_scope_def environment_scope_def)
    with EditedLayers_loads(2) [OF read'] load that show ?thesis by metis
  qed
  have "g \<in> set (sl (ApprovalRequired (LayerPolicy l)))"
    using g l(2) by (simp add: applyPolicyEdit_def set_addRemove)
  with layer_gates_in_force [of l "host @ edited" H base] l(1) show ?thesis by auto
qed

definition demo_request :: "string \<Rightarrow> edit_request" where
  "demo_request env = \<lparr>ReqProject = ''p'', ReqEnvironment = env, ReqReason = [], AddEgress = [],
     RemoveEgress = [], AddGates = [''rm''], RemoveGates = []\<rparr>"

definition demo_handled :: "string \<Rightarrow> (handler_error + outcome) \<times> (string \<Rightarrow> read_result, record_dir) editor" where
  "demo_handled env = handlePolicyEdit sample_hash demo_layers (Some fileStore) ([], [], []) ''c'' ''op''
     (demo_request env) (NewService (\<lambda>_. NotExist) empty_dir)"

lemma demo_handled_ok:
  "case fst (demo_handled []) of Inr out \<Rightarrow> EditApplied out | _ \<Rightarrow> False"
  "case fst (demo_handled ''prod'') of Inr out \<Rightarrow> EditApplied out | _ \<Rightarrow> False"
  by code_simp+

lemma demo_yaml_roundtrip: "Marshal demo_yaml p = Some b \<Longrightarrow> Unmarshal demo_yaml b = Some p"
  by (auto simp: demo_yaml_def split: if_splits)

theorem added_gate_in_force_witness:
  "\<exists>edited. EditedLayers demo_yaml (layer_docs (snd (demo_handled []))) ''p'' ''p.prod'' = Inr edited \<and>
     ''rm'' \<in> set (sl (ApprovalRequired (ScopePolicy (ResolvePolicy sample_hash Default ([] @ edited)))))"
proof -
  from demo_handled_ok(1) obtain out s' where h: "demo_handled [] = (Inr out, s')" "EditApplied out"
    by (cases "demo_handled []"; cases "fst (demo_handled [])") auto
  have "case EditedLayers demo_yaml (layer_docs (snd (demo_handled []))) ''p'' ''p.prod'' of
      Inr ls \<Rightarrow> length ls = 1 | _ \<Rightarrow> False"
    by code_simp
  then obtain ls where ls: "EditedLayers demo_yaml (layer_docs s') ''p'' ''p.prod'' = Inr ls"
    by (auto simp: h split: sum.splits)
  have r: "ReqProject (demo_request []) = ''p''" "ReqEnvironment (demo_request []) = []"
    "AddGates (demo_request []) = [''rm'']" "RemoveGates (demo_request []) = []"
    by (simp_all add: demo_request_def)
  show ?thesis
    using added_gate_in_force [OF demo_yaml_roundtrip h(1) [unfolded demo_handled_def demo_layers_def] h(2),
        of "''rm''" "''p.prod''" ls Default "[]"] ls
    by (simp add: r h)
qed

text \<open>
  An edit for an environment that is named without its project is accepted and lost. The
  request is answered as applied, but its document goes to a file that resolution never reads:
  the layers of the environment \<open>p.n\<close> are the same before and after.
\<close>

theorem unqualified_edit_is_lost:
  assumes edit: "handlePolicyEdit H (policyLayers Y writable) gate ts i who r s = (Inr out, s')"
      "EditApplied out"
    and env: "ReqEnvironment r = n" "n \<noteq> []" "CHR ''.'' \<notin> set n"
  shows "EditedLayers Y (layer_docs s') p (p @ ''.'' @ n) = EditedLayers Y (layer_docs s) p (p @ ''.'' @ n)"
proof -
  from handled_edit [OF edit] obtain cur w where
    w: "layers_save Y writable (layer_docs s) (request_scope r) (applyPolicyEdit cur r) = Inr w"
      "s' = s\<lparr>layer_docs := w\<rparr>"
    by (auto simp: policyLayers_def)
  from layers_save_Inr [OF w(1)] obtain q where q: "layer_path (request_scope r) = Inr q" by blast
  from layer_path_Inr [OF this] env(1,2)
  have q': "q = LayerEnvironment @ ''__'' @ ReqProject r @ ''__'' @ n @ ''.yaml''"
    by (simp add: request_scope_def)
  have "layer_path (project_scope p) \<noteq> Inr q"
    using layer_path_Inr [of "project_scope p" q] q'
    by (auto simp: project_scope_def LayerProject_def LayerEnvironment_def)
  moreover have "layer_path (environment_scope p (p @ ''.'' @ n)) \<noteq> Inr q"
  proof
    assume "layer_path (environment_scope p (p @ ''.'' @ n)) = Inr q"
    from layer_path_Inr [OF this] q'
    have "ReqProject r @ ''__'' = p @ ''__'' @ p @ ''.''" 
      by (simp add: environment_scope_def append.assoc [symmetric] del: append.assoc)
    then have "last (ReqProject r @ ''__'') = last (p @ ''__'' @ p @ ''.'')" by simp
    then show False by simp
  qed
  ultimately have same: "layers_load Y w (project_scope p) = layers_load Y (layer_docs s) (project_scope p)"
    "layers_load Y w (environment_scope p (p @ ''.'' @ n)) =
       layers_load Y (layer_docs s) (environment_scope p (p @ ''.'' @ n))"
    using load_other [OF w(1)] q by metis+
  have "layer_docs s' = w" by (simp add: w(2))
  then show ?thesis by (simp only: EditedLayers_def edited_layer_def same)
qed

theorem unqualified_edit_is_lost_witness:
  "EditedLayers demo_yaml (layer_docs (snd (demo_handled ''prod''))) ''p'' (''p'' @ ''.'' @ ''prod'') =
   EditedLayers demo_yaml (\<lambda>_. NotExist) ''p'' (''p'' @ ''.'' @ ''prod'')"
proof -
  from demo_handled_ok(2) obtain out s' where h: "demo_handled ''prod'' = (Inr out, s')" "EditApplied out"
    by (cases "demo_handled ''prod''"; cases "fst (demo_handled ''prod'')") auto
  show ?thesis
    using unqualified_edit_is_lost [OF h(1) [unfolded demo_handled_def demo_layers_def] h(2), of "''prod''" "''p''"]
    by (simp add: demo_request_def h NewService_def)
qed

text \<open>
  Taking the last host out of an egress layer opens egress. The request to remove the only
  host \<open>d\<close> a layer allows is classified as narrowing and is applied without approval, and the
  document it leaves has no host list at all, which resolution reads as no restriction: where
  the layer allowed \<open>d\<close> alone, the resolved policy now allows every host of the policy above.
\<close>

theorem removing_last_host_opens_egress:
  assumes cur: "Domains (Egress cur) = Some [d]" and d: "d \<in> set (sl (Domains (Egress base)))"
    and r: "AddEgress r = []" "RemoveEgress r = [d]" "AddGates r = []" "RemoveGates r = []"
  shows "Direction (ClassifyEdit cur (applyPolicyEdit cur r)) = DirectionNarrowing \<and>
    set (sl (Domains (Egress (Policy (Resolve H base cur))))) = {d} \<and>
    set (sl (Domains (Egress (Policy (Resolve H base (applyPolicyEdit cur r)))))) =
      set (sl (Domains (Egress base)))"
proof (intro conjI)
  let ?new = "applyPolicyEdit cur r"
  have new: "Domains (Egress ?new) = None" "set (sl (ApprovalRequired ?new)) = set (sl (ApprovalRequired cur))"
    "Allow ?new = Allow cur" "Creds ?new = Creds cur" "DryRun ?new = DryRun cur"
    "StrictExec ?new = StrictExec cur" "DryRunWarnOnFailure ?new = DryRunWarnOnFailure cur"
    "Session ?new = Session cur"
    using cur r by (auto simp: applyPolicyEdit_def addRemove_None set_addRemove)
  have "edit_tightens cur ?new"
    by (simp add: edit_tightens_def exec_narrows_def new ttl_tightens_def)
  then have "Direction (ClassifyEdit cur ?new) \<noteq> DirectionWidening" by (simp add: Direction_widening_iff)
  moreover have "Narrowings (edit_reasons (normalize cur) (normalize ?new)) \<noteq> []"
    using no_narrowings_domains [of "normalize cur" "normalize ?new"] by (auto simp: new cur)
  ultimately show "Direction (ClassifyEdit cur ?new) = DirectionNarrowing"
    by (auto simp: ClassifyEdit_def Let_def split: if_splits)
  show "set (sl (Domains (Egress (Policy (Resolve H base cur))))) = {d}"
    using cur d by (simp add: Resolve_sections(5) grants_def)
  show "set (sl (Domains (Egress (Policy (Resolve H base ?new))))) = set (sl (Domains (Egress base)))"
    by (simp add: Resolve_sections(5) grants_def new)
qed

theorem removing_last_host_opens_egress_witness:
  "set (sl (Domains (Egress (Policy (Resolve sample_hash
     (Default\<lparr>Egress := \<lparr>Domains = Some [''a'', ''b'']\<rparr>\<rparr>)
     (applyPolicyEdit domain_doc ((demo_request [])\<lparr>RemoveEgress := [''b''], AddGates := []\<rparr>))))))) =
   {''a'', ''b''}"
  using removing_last_host_opens_egress [of domain_doc "''b''" "Default\<lparr>Egress := \<lparr>Domains = Some [''a'', ''b'']\<rparr>\<rparr>"
      "(demo_request [])\<lparr>RemoveEgress := [''b''], AddGates := []\<rparr>" sample_hash]
  by (simp add: domain_doc_def demo_request_def)

end
