(* ===== verification/Trace_Redact.thy ===== *)
theory Trace_Redact
  imports Complex_Main Trace_Sink
begin

text \<open>
  \<^verbatim>\<open>internal/trace/redact.go\<close> (the redactor every payload passes before it is hashed) and the
  emit path of \<^verbatim>\<open>recorder.go\<close>. The five regular expressions are the parameter \<open>rx\<close>: for each
  type, the number of matches in a string and the string with every match replaced. Entropy is
  computed over the real numbers, where the code uses floats.
\<close>

datatype redact_type =
    RedactAWSKey | RedactGCPSA | RedactBearer | RedactJWT | RedactAssignment | RedactEntropy
  | redactError

fun type_name :: "redact_type \<Rightarrow> string" where
  "type_name RedactAWSKey = ''aws-key''"
| "type_name RedactGCPSA = ''gcp-sa''"
| "type_name RedactBearer = ''bearer''"
| "type_name RedactJWT = ''jwt''"
| "type_name RedactAssignment = ''assignment''"
| "type_name RedactEntropy = ''entropy''"
| "type_name redactError = ''error''"

definition marker :: "redact_type \<Rightarrow> string" where
  "marker t = ''[REDACTED:'' @ type_name t @ '']''"

definition DefaultEntropyThreshold :: real where "DefaultEntropyThreshold = 4.2"
definition DefaultEntropyLengthFloor :: int where "DefaultEntropyLengthFloor = 24"

record redactor_config =
  EntropyThreshold :: real
  EntropyLengthFloor :: int
  DisabledPatterns :: "string list"

record redactor =
  rpatterns :: "redact_type list"
  entropyOn :: bool
  entropyMin :: real
  entropyFloor :: int

definition NewPatternRedactor :: "redactor_config \<Rightarrow> redactor" where
  "NewPatternRedactor cfg =
     (let disabled = map trim_space (DisabledPatterns cfg);
          on = (\<lambda>t. type_name t \<notin> set disabled)
      in \<lparr>rpatterns = filter on [RedactAWSKey, RedactGCPSA, RedactJWT, RedactBearer, RedactAssignment],
          entropyOn = on RedactEntropy,
          entropyMin = (if EntropyThreshold cfg \<le> 0 then DefaultEntropyThreshold else EntropyThreshold cfg),
          entropyFloor = (if EntropyLengthFloor cfg \<le> 0 then DefaultEntropyLengthFloor
                          else EntropyLengthFloor cfg)\<rparr>)"

subsection \<open>Entropy\<close>

definition shannonBits :: "string \<Rightarrow> real" where
  "shannonBits s =
     (\<Sum>c \<in> set s. - (real (count_list s c) / real (length s)) *
        log 2 (real (count_list s c) / real (length s)))"

definition secret_shaped :: "redactor \<Rightarrow> string \<Rightarrow> bool" where
  "secret_shaped r p \<longleftrightarrow> int (length p) \<ge> entropyFloor r \<and> shannonBits p \<ge> entropyMin r"

definition tokenChar :: "char \<Rightarrow> bool" where
  "tokenChar c \<longleftrightarrow> (let n = of_char c :: nat in
     65 \<le> n \<and> n \<le> 90 \<or> 97 \<le> n \<and> n \<le> 122 \<or> 48 \<le> n \<and> n \<le> 57) \<or>
     c \<in> {CHR ''+'', CHR ''/'', CHR ''='', CHR ''_'', CHR ''-''}"

definition looksLikePath :: "string \<Rightarrow> bool" where
  "looksLikePath run \<longleftrightarrow> run \<noteq> [] \<and> hd run = CHR ''/'' \<and> CHR ''+'' \<notin> set run \<and> CHR ''='' \<notin> set run"

text \<open>The run as it is written, and how many markers went into it. \<open>hot\<close> is the test of a token
  against the floor and the threshold.\<close>

definition scoreRun :: "(string \<Rightarrow> bool) \<Rightarrow> string \<Rightarrow> string \<times> nat" where
  "scoreRun hot run =
     (if looksLikePath run then
        (let parts = split_on (CHR ''/'') run
         in (str_join ''/'' (map (\<lambda>p. if hot p then marker RedactEntropy else p) parts),
             length (filter hot parts)))
      else if hot run then (marker RedactEntropy, 1)
      else (run, 0))"

function scrubEntropy :: "(string \<Rightarrow> bool) \<Rightarrow> string \<Rightarrow> string \<times> nat" where
  "scrubEntropy hot [] = ([], 0)"
| "scrubEntropy hot (c # s) =
     (if \<not> tokenChar c then
        (let (t, n) = scrubEntropy hot s in (c # t, n))
      else
        (let (r, k) = scoreRun hot (c # takeWhile tokenChar s);
             (t, n) = scrubEntropy hot (dropWhile tokenChar s)
         in (r @ t, k + n)))"
  by pat_completeness auto

termination
  by (relation "measure (\<lambda>(hot, s). length s)") (auto simp: le_imp_less_Suc length_dropWhile_le)

subsection \<open>Strings and payloads\<close>

type_synonym counts = "redact_type \<Rightarrow> nat"

definition add_counts :: "counts \<Rightarrow> counts \<Rightarrow> counts" where
  "add_counts a b = (\<lambda>t. a t + b t)"

definition pattern_step ::
    "(redact_type \<Rightarrow> string \<Rightarrow> nat \<times> string) \<Rightarrow> string \<times> counts \<Rightarrow> redact_type \<Rightarrow> string \<times> counts" where
  "pattern_step rx sc t =
     (case sc of (s, counts) \<Rightarrow>
        (case rx t s of (n, s') \<Rightarrow> if n = 0 then (s, counts) else (s', counts(t := counts t + n))))"

definition scrubString ::
    "(redact_type \<Rightarrow> string \<Rightarrow> nat \<times> string) \<Rightarrow> redactor \<Rightarrow> string \<Rightarrow> string \<times> counts" where
  "scrubString rx r s =
     (let (s, counts) = foldl (pattern_step rx) (s, (\<lambda>_. 0)) (rpatterns r)
      in if entropyOn r then
           (let (s', n) = scrubEntropy (secret_shaped r) s
            in (s', counts(RedactEntropy := counts RedactEntropy + n)))
         else (s, counts))"

text \<open>
  A payload value as the type switch sees it. \<open>GOther\<close> is a value of any other Go type, with the
  JSON it encodes to: a number, but also a slice of maps, whose strings the switch does not reach.
\<close>

datatype gv = GStr string | GStrs "string list" | GArr "gv list" | GObj "(string \<times> gv) list"
  | GOther jv

fun scrubValue :: "(redact_type \<Rightarrow> string \<Rightarrow> nat \<times> string) \<Rightarrow> redactor \<Rightarrow> gv \<Rightarrow> gv" where
  "scrubValue rx r (GStr s) = GStr (fst (scrubString rx r s))"
| "scrubValue rx r (GStrs ss) = GStrs (map (\<lambda>s. fst (scrubString rx r s)) ss)"
| "scrubValue rx r (GArr vs) = GArr (map (scrubValue rx r) vs)"
| "scrubValue rx r (GObj kvs) = GObj (map (\<lambda>(k, v). (k, scrubValue rx r v)) kvs)"
| "scrubValue rx r (GOther v) = GOther v"

text \<open>What one call adds to the tally.\<close>

fun scrubCounts :: "(redact_type \<Rightarrow> string \<Rightarrow> nat \<times> string) \<Rightarrow> redactor \<Rightarrow> gv \<Rightarrow> counts" where
  "scrubCounts rx r (GStr s) = snd (scrubString rx r s)"
| "scrubCounts rx r (GStrs ss) =
     foldr (\<lambda>s. add_counts (snd (scrubString rx r s))) ss (\<lambda>_. 0)"
| "scrubCounts rx r (GArr vs) = foldr (\<lambda>v. add_counts (scrubCounts rx r v)) vs (\<lambda>_. 0)"
| "scrubCounts rx r (GObj kvs) = foldr (\<lambda>(k, v). add_counts (scrubCounts rx r v)) kvs (\<lambda>_. 0)"
| "scrubCounts rx r (GOther v) = (\<lambda>_. 0)"

fun hardRedact :: "gv \<Rightarrow> gv" where
  "hardRedact (GStr s) = GStr (marker redactError)"
| "hardRedact (GStrs ss) = GStrs (map (\<lambda>_. marker redactError) ss)"
| "hardRedact (GArr vs) = GArr (map hardRedact vs)"
| "hardRedact (GObj kvs) = GObj (map (\<lambda>(k, v). (k, hardRedact v)) kvs)"
| "hardRedact (GOther v) = GOther v"

text \<open>A payload is a map, or nil. \<open>panics\<close> tells whether scanning it panics.\<close>

definition Redact ::
    "(redact_type \<Rightarrow> string \<Rightarrow> nat \<times> string) \<Rightarrow> redactor \<Rightarrow> bool \<Rightarrow> (string \<times> gv) list option \<Rightarrow>
     counts \<Rightarrow> (string \<times> gv) list option \<times> counts" where
  "Redact rx r panics payload tally =
     (case payload of
        None \<Rightarrow> (None, tally)
      | Some kvs \<Rightarrow>
          if panics then (Some (map (\<lambda>(k, v). (k, hardRedact v)) kvs), tally)
          else (Some (map (\<lambda>(k, v). (k, scrubValue rx r v)) kvs),
                add_counts tally (scrubCounts rx r (GObj kvs))))"

subsection \<open>The emit path (recorder.go)\<close>

fun to_jv :: "gv \<Rightarrow> jv" where
  "to_jv (GStr s) = JStr s"
| "to_jv (GStrs ss) = JArr (map JStr ss)"
| "to_jv (GArr vs) = JArr (map to_jv vs)"
| "to_jv (GObj kvs) = JObj (map (\<lambda>(k, v). (k, to_jv v)) kvs)"
| "to_jv (GOther v) = v"

definition to_payload :: "(string \<times> gv) list option \<Rightarrow> payload" where
  "to_payload p = map_option (map (\<lambda>(k, v). (k, to_jv v))) p"

text \<open>\<open>None\<close> is the nil recorder; \<open>app\<close> is the sink's \<open>Append\<close>, with its state.\<close>

definition Emit ::
    "('s \<Rightarrow> event \<Rightarrow> (sink_error + unit) \<times> 's) \<Rightarrow>
     ((string \<times> gv) list option \<Rightarrow> (string \<times> gv) list option) \<Rightarrow> string \<Rightarrow> string option \<Rightarrow> string \<Rightarrow>
     (string \<times> gv) list option \<Rightarrow> 's \<Rightarrow> (sink_error + unit) \<times> 's" where
  "Emit app redact now recorder evType p s =
     (case recorder of
        None \<Rightarrow> (Inr (), s)
      | Some sid \<Rightarrow>
          app s \<lparr>TS = now, SessionID = sid, Seq = 0, Type = evType, Payload = to_payload (redact p),
                 PrevHash = [], EHash = []\<rparr>)"

subsection \<open>The entropy of a string is bounded by its alphabet\<close>

lemma shannonBits_bound:
  assumes "s \<noteq> []"
  shows "shannonBits s \<le> log 2 (real (card (set s)))"
proof -
  define n where "n = real (length s)"
  define m where "m = real (card (set s))"
  define p where "p = (\<lambda>c. real (count_list s c) / n)"
  have n: "n > 0" and m: "m > 0" using assms by (auto simp: n_def m_def card_gt_0_iff)
  have p: "p c > 0" if "c \<in> set s" for c
    using that n count_list_0_iff [of s c] by (simp add: p_def)
  have sum_p: "(\<Sum>c\<in>set s. p c) = 1"
  proof -
    have "(\<Sum>c\<in>set s. real (count_list s c)) = n"
      unfolding n_def of_nat_sum [symmetric] by (simp add: sum_count_set)
    with n show ?thesis by (simp add: p_def sum_divide_distrib [symmetric])
  qed
  have "ln 2 * (shannonBits s - log 2 m) = (\<Sum>c\<in>set s. p c * ln (1 / (p c * m)))"
  proof -
    have "shannonBits s = (\<Sum>c\<in>set s. - p c * log 2 (p c))"
      by (simp add: shannonBits_def p_def n_def)
    moreover have "log 2 m = (\<Sum>c\<in>set s. p c * log 2 m)"
      by (simp add: sum_distrib_right [symmetric] sum_p)
    ultimately have "shannonBits s - log 2 m = (\<Sum>c\<in>set s. - p c * log 2 (p c) - p c * log 2 m)"
      by (simp add: sum_subtractf)
    also have "ln 2 * \<dots> = (\<Sum>c\<in>set s. p c * ln (1 / (p c * m)))"
      unfolding sum_distrib_left
    proof (rule sum.cong [OF refl])
      fix c assume c: "c \<in> set s"
      have "ln (1 / (p c * m)) = - (ln (p c) + ln m)"
        using p [OF c] m by (simp add: ln_div ln_mult)
      moreover have "ln 2 * log 2 (p c) = ln (p c)" "ln 2 * log 2 m = ln m"
        by (simp_all add: log_def)
      moreover have "ln 2 * (- p c * log 2 (p c) - p c * log 2 m) =
          p c * - (ln 2 * log 2 (p c) + ln 2 * log 2 m)"
        by (simp add: algebra_simps)
      ultimately show "ln 2 * (- p c * log 2 (p c) - p c * log 2 m) = p c * ln (1 / (p c * m))"
        by simp
    qed
    finally show ?thesis .
  qed
  also have "\<dots> \<le> (\<Sum>c\<in>set s. p c * (1 / (p c * m) - 1))"
  proof (rule sum_mono)
    fix c assume c: "c \<in> set s"
    have "ln (1 / (p c * m)) \<le> 1 / (p c * m) - 1"
      using p [OF c] m by (intro ln_le_minus_one) simp
    then show "p c * ln (1 / (p c * m)) \<le> p c * (1 / (p c * m) - 1)"
      using p [OF c] by (simp add: mult_left_mono)
  qed
  also have "\<dots> = (\<Sum>c\<in>set s. 1 / m - p c)"
  proof (rule sum.cong [OF refl])
    fix c assume c: "c \<in> set s"
    then show "p c * (1 / (p c * m) - 1) = 1 / m - p c"
      using p [OF c] m by (simp add: field_simps)
  qed
  also have "\<dots> = 0"
    using assms by (simp add: sum_subtractf sum_p m_def)
  finally have "ln 2 * (shannonBits s - log 2 m) \<le> 0" .
  moreover have "ln (2 :: real) > 0" by simp
  ultimately have "shannonBits s - log 2 m \<le> 0" by (simp add: mult_le_0_iff)
  then show ?thesis by (simp add: m_def)
qed

lemma shannonBits_alphabet:
  assumes "set s \<subseteq> A" "finite A" "card A \<le> 16"
  shows "shannonBits s \<le> 4"
proof (cases "s = []")
  case True
  then show ?thesis by (simp add: shannonBits_def)
next
  case False
  have c: "card (set s) \<le> 16" using assms card_mono [of A "set s"] by linarith
  have pos: "0 < card (set s)" using False by (simp add: card_gt_0_iff)
  have "shannonBits s \<le> log 2 (real (card (set s)))" by (rule shannonBits_bound [OF False])
  also have "\<dots> \<le> log 2 16"
    using c pos by (intro log_mono) auto
  also have "log 2 16 = log 2 (2 ^ 4)" by simp
  also have "\<dots> = 4" by (subst log_nat_power) auto
  finally show ?thesis .
qed

subsection \<open>Runs of token characters\<close>

lemma scrub_append:
  "t = [] \<or> \<not> tokenChar (hd t) \<Longrightarrow>
   scrubEntropy hot (r @ t) =
     (fst (scrubEntropy hot r) @ fst (scrubEntropy hot t),
      snd (scrubEntropy hot r) + snd (scrubEntropy hot t))"
proof (induction hot r rule: scrubEntropy.induct)
  case (1 hot)
  then show ?case by simp
next
  case (2 hot c s)
  show ?case
  proof (cases "tokenChar c")
    case False
    with 2 show ?thesis by (simp add: case_prod_beta)
  next
    case True
    have "takeWhile tokenChar (s @ t) = takeWhile tokenChar s \<and>
        dropWhile tokenChar (s @ t) = dropWhile tokenChar s @ t"
      using 2(3) by (induction s) (cases t, auto)
    with 2 True show ?thesis
      by (cases "scoreRun hot (c # takeWhile tokenChar s)") (simp add: case_prod_beta)
  qed
qed

lemma scrub_run:
  assumes "run \<noteq> []" "\<forall>c \<in> set run. tokenChar c"
  shows "scrubEntropy hot run = scoreRun hot run"
proof -
  obtain c s where run: "run = c # s" using assms(1) by (cases run) auto
  have c: "tokenChar c" and e: "takeWhile tokenChar s = s" "dropWhile tokenChar s = []"
    using assms(2) run by (simp_all add: takeWhile_eq_all_conv dropWhile_eq_Nil_conv)
  show ?thesis
    unfolding run scrubEntropy.simps(2) e using c by (simp add: case_prod_beta)
qed

subsection \<open>A second pass finds nothing\<close>

text \<open>Tests that no token shorter than nine characters passes, as any floor above eight gives.\<close>

definition long_only :: "(string \<Rightarrow> bool) \<Rightarrow> bool" where
  "long_only hot \<longleftrightarrow> (\<forall>p. hot p \<longrightarrow> 8 < length p)"

lemma scrub_literal [simp]: "\<not> tokenChar c \<Longrightarrow>
    scrubEntropy hot (c # s) = (c # fst (scrubEntropy hot s), snd (scrubEntropy hot s))"
  by (simp add: case_prod_beta)

lemma scrub_token: "tokenChar c \<Longrightarrow>
    scrubEntropy hot (c # s) =
      (fst (scoreRun hot (c # takeWhile tokenChar s)) @ fst (scrubEntropy hot (dropWhile tokenChar s)),
       snd (scoreRun hot (c # takeWhile tokenChar s)) + snd (scrubEntropy hot (dropWhile tokenChar s)))"
  by (simp add: case_prod_beta)

declare scrubEntropy.simps(2) [simp del]

lemma scrub_short:
  assumes "long_only hot" "w \<noteq> []" "\<forall>c \<in> set w. tokenChar c" "length w \<le> 8" "hd w \<noteq> CHR ''/''"
    "\<not> tokenChar d"
  shows "scrubEntropy hot (w @ d # t) = (w @ d # fst (scrubEntropy hot t), snd (scrubEntropy hot t))"
proof -
  have "\<not> hot w" using assms(1,4) by (force simp: long_only_def)
  then have "scrubEntropy hot w = (w, 0)"
    using assms(2,3,5) by (simp add: scrub_run scoreRun_def looksLikePath_def)
  then show ?thesis using scrub_append [of "d # t" hot w] assms(6) by simp
qed

lemma scrub_marker:
  assumes "long_only hot"
  shows "scrubEntropy hot (marker RedactEntropy @ s) =
    (marker RedactEntropy @ fst (scrubEntropy hot s), snd (scrubEntropy hot s))"
proof -
  define v w where "v = ''REDACTED''" and "w = ''entropy''"
  have m: "marker RedactEntropy = CHR ''['' # v @ CHR '':'' # w @ [CHR '']'']"
    by (simp add: marker_def v_def w_def)
  have "\<forall>c \<in> set v. tokenChar c" "length v \<le> 8" "hd v \<noteq> CHR ''/''" "v \<noteq> []"
    "\<forall>c \<in> set w. tokenChar c" "length w \<le> 8" "hd w \<noteq> CHR ''/''" "w \<noteq> []"
    unfolding v_def w_def by code_simp+
  moreover have "\<not> tokenChar (CHR ''['')" "\<not> tokenChar (CHR '':'')" "\<not> tokenChar (CHR '']'')"
    by code_simp+
  ultimately show ?thesis
    using scrub_short [OF assms, of v "CHR '':''" "w @ CHR '']'' # s"]
      scrub_short [OF assms, of w "CHR '']''" s]
    by (simp add: m)
qed

text \<open>A path is its segments, each after a slash.\<close>

definition segments :: "string list \<Rightarrow> string" where
  "segments ps = concat (map (\<lambda>p. CHR ''/'' # p) ps)"

lemma segments_simps [simp]:
  "segments [] = []" "segments (p # ps) = CHR ''/'' # p @ segments ps"
  "segments (ps @ qs) = segments ps @ segments qs"
  by (simp_all add: segments_def)

lemma str_join_segments: "str_join ''/'' ([] # ps) = segments ps"
proof -
  have "str_join ''/'' (w # ps) = w @ segments ps" for w
    by (induction ps arbitrary: w) simp_all
  then show ?thesis by simp
qed

definition segment_ok :: "string \<Rightarrow> bool" where
  "segment_ok p \<longleftrightarrow> (\<forall>c \<in> set p. tokenChar c \<and> c \<noteq> CHR ''/'' \<and> c \<noteq> CHR ''+'' \<and> c \<noteq> CHR ''='')"

lemma segments_path:
  assumes "ps \<noteq> []" "\<forall>p \<in> set ps. segment_ok p"
  shows "looksLikePath (segments ps)" "\<forall>c \<in> set (segments ps). tokenChar c"
    "split_on (CHR ''/'') (segments ps) = [] # ps"
proof -
  have t: "tokenChar (CHR ''/'')" by code_simp
  show "looksLikePath (segments ps)"
    using assms by (cases ps) (auto simp: looksLikePath_def segment_ok_def segments_def)
  show "\<forall>c \<in> set (segments ps). tokenChar c"
    using assms t by (auto simp: segment_ok_def segments_def)
  have "\<forall>w \<in> set ([] # ps). CHR ''/'' \<notin> set w" using assms by (auto simp: segment_ok_def)
  from split_on_str_join [OF _ this] show "split_on (CHR ''/'') (segments ps) = [] # ps"
    by (simp add: str_join_segments)
qed

lemma scrub_segments:
  assumes "long_only hot" "\<forall>p \<in> set ps. segment_ok p \<and> \<not> hot p" "t = [] \<or> \<not> tokenChar (hd t)"
  shows "scrubEntropy hot (segments ps @ t) =
    (segments ps @ fst (scrubEntropy hot t), snd (scrubEntropy hot t))"
proof (cases "ps = []")
  case False
  have ok: "\<forall>p \<in> set ps. segment_ok p" using assms(2) by blast
  note path = segments_path [OF False ok]
  have "\<not> hot []" using assms(1) by (auto simp: long_only_def)
  then have cold: "\<forall>p \<in> set ([] # ps). \<not> hot p" using assms(2) by simp
  then have "map (\<lambda>p. if hot p then marker RedactEntropy else p) ([] # ps) = [] # ps"
    "filter hot ([] # ps) = []"
    by (auto intro: map_idI simp: filter_empty_conv)
  then have "scoreRun hot (segments ps) = (segments ps, 0)"
    by (simp add: scoreRun_def path(1,3) str_join_segments del: list.map filter.simps)
  moreover have "segments ps \<noteq> []" using False by (cases ps) simp_all
  ultimately have "scrubEntropy hot (segments ps) = (segments ps, 0)"
    using scrub_run [OF _ path(2)] by simp
  then show ?thesis using scrub_append [OF assms(3)] by simp
qed simp

text \<open>A path whose hot segments are marked stays as it is; \<open>done0\<close> are cold segments before it.\<close>

lemma scrub_marked_path:
  assumes "long_only hot" "\<forall>p \<in> set ps. segment_ok p" "\<forall>p \<in> set done0. segment_ok p \<and> \<not> hot p"
  defines "m \<equiv> \<lambda>p. if hot p then marker RedactEntropy else p"
  shows "scrubEntropy hot (segments done0 @ segments (map m ps)) = (segments done0 @ segments (map m ps), 0)"
  using assms(2,3)
proof (induction ps arbitrary: done0)
  case Nil
  then show ?case using scrub_segments [OF assms(1), of done0 "[]"] by simp
next
  case (Cons p ps)
  show ?case
  proof (cases "hot p")
    case False
    then have "\<forall>q \<in> set (done0 @ [p]). segment_ok q \<and> \<not> hot q" using Cons.prems by auto
    from Cons.IH [OF _ this] Cons.prems False show ?thesis by (simp add: m_def)
  next
    case True
    let ?rest = "marker RedactEntropy @ segments (map m ps)"
    have "\<not> hot []" using assms(1) by (auto simp: long_only_def)
    then have cold: "\<forall>q \<in> set (done0 @ [[]]). segment_ok q \<and> \<not> hot q"
      using Cons.prems by (auto simp: segment_ok_def)
    have bracket: "\<not> tokenChar (CHR ''['')" by code_simp
    have "scrubEntropy hot (segments (done0 @ [[]]) @ ?rest) =
        (segments (done0 @ [[]]) @ fst (scrubEntropy hot ?rest), snd (scrubEntropy hot ?rest))"
      using bracket by (intro scrub_segments [OF assms(1) cold]) (simp add: marker_def)
    moreover have "scrubEntropy hot ?rest = (?rest, 0)"
      using scrub_marker [OF assms(1)] Cons.IH [of "[]"] Cons.prems by simp
    ultimately show ?thesis using True by (simp add: m_def)
  qed
qed

lemma scoreRun_stable:
  assumes "long_only hot" "run \<noteq> []" "\<forall>c \<in> set run. tokenChar c"
  shows "scrubEntropy hot (fst (scoreRun hot run)) = (fst (scoreRun hot run), 0)"
proof (cases "looksLikePath run")
  case False
  then show ?thesis
    using scrub_marker [OF assms(1), of "[]"] scrub_run [OF assms(2,3), of hot]
    by (cases "hot run") (simp_all add: scoreRun_def)
next
  case True
  define ps where "ps = tl (split_on (CHR ''/'') run)"
  have sp: "split_on (CHR ''/'') run = [] # ps"
    using True by (cases run) (auto simp: looksLikePath_def ps_def)
  have "segment_ok p" if "p \<in> set ps" for p
  proof -
    have p: "p \<in> set (split_on (CHR ''/'') run)" using that sp by simp
    then have "set p \<subseteq> set run" using set_split_on [of "CHR ''/''" run] by blast
    with True assms(3) split_on_no_sep [OF p] show ?thesis
      by (auto simp: segment_ok_def looksLikePath_def)
  qed
  moreover have "fst (scoreRun hot run) =
      segments (map (\<lambda>p. if hot p then marker RedactEntropy else p) ps)"
    using True assms(1) by (auto simp: scoreRun_def sp long_only_def str_join_segments [simplified])
  ultimately show ?thesis using scrub_marked_path [OF assms(1), of ps "[]"] by simp
qed

lemma scrub_stable:
  "long_only hot \<Longrightarrow> scrubEntropy hot (fst (scrubEntropy hot s)) = (fst (scrubEntropy hot s), 0)"
proof (induction hot s rule: scrubEntropy.induct)
  case (1 hot)
  then show ?case by simp
next
  case (2 hot c s)
  show ?case
  proof (cases "tokenChar c")
    case False
    with 2 show ?thesis by simp
  next
    case True
    let ?run = "c # takeWhile tokenChar s" and ?rest = "dropWhile tokenChar s"
    have "\<forall>x \<in> set ?run. tokenChar x" using True by (auto dest: set_takeWhileD)
    then have r: "scrubEntropy hot (fst (scoreRun hot ?run)) = (fst (scoreRun hot ?run), 0)"
      using scoreRun_stable [OF 2(3)] by blast
    have "fst (scrubEntropy hot ?rest) = [] \<or> \<not> tokenChar (hd (fst (scrubEntropy hot ?rest)))"
    proof (cases ?rest)
      case Nil
      show ?thesis unfolding Nil by simp
    next
      case (Cons d u)
      then have "\<not> tokenChar d" by (metis hd_dropWhile list.distinct(1) list.sel(1))
      then show ?thesis using Cons by simp
    qed
    from scrub_append [OF this, of hot "fst (scoreRun hot ?run)"] r 2(2) [OF _ refl prod.collapse 2(3)] True
    show ?thesis by (simp add: scrub_token)
  qed
qed

lemma scrub_hot_run:
  assumes "run \<noteq> []" "\<forall>c \<in> set run. tokenChar c" "a = [] \<or> \<not> tokenChar (last a)"
    "b = [] \<or> \<not> tokenChar (hd b)" "hot run" "\<not> looksLikePath run"
  shows "fst (scrubEntropy hot (a @ run @ b)) =
    fst (scrubEntropy hot a) @ marker RedactEntropy @ fst (scrubEntropy hot b)"
proof -
  have e: "scrubEntropy hot run = (marker RedactEntropy, 1)"
    using scrub_run [OF assms(1,2), of hot] assms(5,6) by (simp add: scoreRun_def)
  have tail: "scrubEntropy hot (run @ b) =
      (marker RedactEntropy @ fst (scrubEntropy hot b), 1 + snd (scrubEntropy hot b))"
    using scrub_append [OF assms(4), of hot run] e by simp
  show ?thesis
    using assms(3)
  proof (induction a rule: rev_induct)
    case Nil
    then show ?case using tail by simp
  next
    case (snoc x a)
    then have x: "\<not> tokenChar x" by simp
    have "scrubEntropy hot (a @ x # run @ b) =
        (fst (scrubEntropy hot a) @ fst (scrubEntropy hot (x # run @ b)),
         snd (scrubEntropy hot a) + snd (scrubEntropy hot (x # run @ b)))"
      using x by (intro scrub_append) simp
    moreover have "scrubEntropy hot (a @ [x]) =
        (fst (scrubEntropy hot a) @ [x], snd (scrubEntropy hot a))"
      using x scrub_append [of "[x]" hot a] by simp
    ultimately show ?case using x tail by simp
  qed
qed

subsection \<open>Properties\<close>

text \<open>
  The entropy pass takes out every token that looks like a secret, and is stable. A maximal
  run of token characters that reaches the length floor and the entropy threshold and is not a
  path is replaced by the marker wherever it stands; and a second pass over the result changes
  nothing and counts nothing, so the markers are never scored themselves and no run or path
  segment that would be redacted is left. The floor has to be above eight, the length of the
  longest word of the marker.
\<close>

theorem entropy_pass_removes_secrets:
  assumes floor: "8 < entropyFloor r"
  shows "(run \<noteq> [] \<and> (\<forall>c \<in> set run. tokenChar c) \<and> secret_shaped r run \<and> \<not> looksLikePath run \<and>
      (a = [] \<or> \<not> tokenChar (last a)) \<and> (b = [] \<or> \<not> tokenChar (hd b)) \<longrightarrow>
      fst (scrubEntropy (secret_shaped r) (a @ run @ b)) =
        fst (scrubEntropy (secret_shaped r) a) @ marker RedactEntropy @
        fst (scrubEntropy (secret_shaped r) b)) \<and>
    scrubEntropy (secret_shaped r) (fst (scrubEntropy (secret_shaped r) s)) =
      (fst (scrubEntropy (secret_shaped r) s), 0)"
proof -
  have "long_only (secret_shaped r)" using floor by (auto simp: long_only_def secret_shaped_def)
  from scrub_stable [OF this] show ?thesis using scrub_hot_run by blast
qed

text \<open>Thirty-two different characters carry five bits each.\<close>

definition demo_token :: string where
  "demo_token = ''ABCDEFGHIJKLMNOPQRSTUVWXYZ234567''"

definition demo_redactor :: redactor where
  "demo_redactor = NewPatternRedactor \<lparr>EntropyThreshold = 0, EntropyLengthFloor = 0, DisabledPatterns = []\<rparr>"

lemma demo_redactor_limits: "entropyFloor demo_redactor = 24" "entropyMin demo_redactor = 4.2"
  by (simp_all add: demo_redactor_def NewPatternRedactor_def Let_def DefaultEntropyLengthFloor_def
      DefaultEntropyThreshold_def)

lemma demo_token_secret: "secret_shaped demo_redactor demo_token"
proof -
  have l: "length demo_token = 32" by (simp add: demo_token_def)
  have c: "\<forall>x \<in> set demo_token. count_list demo_token x = 1" unfolding demo_token_def by code_simp
  have "card (set demo_token) = 32" unfolding demo_token_def by code_simp
  moreover have "log 2 (1 / 32) = (- 5 :: real)"
  proof -
    have "log 2 (1 / 32) = - log 2 (2 ^ 5)" by (simp add: log_divide)
    then show ?thesis by (simp only: log_pow_cancel)
  qed
  ultimately have "shannonBits demo_token = 5"
    by (simp add: shannonBits_def l c)
  then show ?thesis by (simp add: secret_shaped_def demo_redactor_limits l)
qed

theorem entropy_pass_removes_secrets_witness:
  "fst (scrubEntropy (secret_shaped demo_redactor) (''id '' @ demo_token @ [])) =
   fst (scrubEntropy (secret_shaped demo_redactor) ''id '') @ marker RedactEntropy @
   fst (scrubEntropy (secret_shaped demo_redactor) [])"
proof -
  have "demo_token \<noteq> []" "\<forall>c \<in> set demo_token. tokenChar c" "\<not> looksLikePath demo_token"
    "\<not> tokenChar (last ''id '')"
    unfolding demo_token_def by code_simp+
  with demo_token_secret show ?thesis
    using entropy_pass_removes_secrets [of demo_redactor demo_token "''id ''" "[]"]
    by (simp add: demo_redactor_limits)
qed

text \<open>
  Ordinary hexadecimal output is never redacted by the entropy pass. Entropy is at most the
  logarithm of the number of different characters, so a token over at most sixteen of them (a
  git hash, a digest, a hexadecimal id) stays below any threshold above 4 bits, the default of
  4.2 included, and is written as it is.
\<close>

theorem hex_tokens_survive:
  assumes "4 < entropyMin r" and "run \<noteq> []" and "\<forall>c \<in> set run. tokenChar c"
    and "set run \<subseteq> A" "finite A" "card A \<le> 16"
  shows "shannonBits run \<le> 4 \<and> scrubEntropy (secret_shaped r) run = (run, 0)"
proof -
  have cold: "\<not> secret_shaped r p" if "set p \<subseteq> set run" for p
    using shannonBits_alphabet [of p A] that assms by (force simp: secret_shaped_def)
  have "scoreRun (secret_shaped r) run = (run, 0)"
  proof (cases "looksLikePath run")
    case True
    have "\<not> secret_shaped r p" if "p \<in> set (split_on (CHR ''/'') run)" for p
      using cold [of p] that set_split_on [of "CHR ''/''" run] by blast
    then have "map (\<lambda>p. if secret_shaped r p then marker RedactEntropy else p) (split_on (CHR ''/'') run) =
        split_on (CHR ''/'') run" "filter (secret_shaped r) (split_on (CHR ''/'') run) = []"
      by (auto intro: map_idI simp: filter_empty_conv)
    with True show ?thesis by (simp add: scoreRun_def)
  next
    case False
    with cold [of run] show ?thesis by (simp add: scoreRun_def)
  qed
  then show ?thesis
    using scrub_run [OF assms(2,3)] shannonBits_alphabet [OF assms(4-6)] by simp
qed

theorem hex_tokens_survive_witness:
  "scrubEntropy (secret_shaped demo_redactor) ''da39a3ee5e6b4b0d3255bfef95601890afd80709'' =
     (''da39a3ee5e6b4b0d3255bfef95601890afd80709'', 0)"
proof -
  have "set ''da39a3ee5e6b4b0d3255bfef95601890afd80709'' \<subseteq> set ''0123456789abcdef''"
    "\<forall>c \<in> set ''da39a3ee5e6b4b0d3255bfef95601890afd80709''. tokenChar c"
    "card (set ''0123456789abcdef'') \<le> 16"
    by code_simp+
  then show ?thesis
    using hex_tokens_survive [of demo_redactor "''da39a3ee5e6b4b0d3255bfef95601890afd80709''"
        "set ''0123456789abcdef''"]
    by (simp add: demo_redactor_limits)
qed

subsection \<open>What reaches the log\<close>

text \<open>The strings of a value that the redactor sees, and the values it passes by.\<close>

fun gv_strings :: "gv \<Rightarrow> string list" where
  "gv_strings (GStr s) = [s]"
| "gv_strings (GStrs ss) = ss"
| "gv_strings (GArr vs) = concat (map gv_strings vs)"
| "gv_strings (GObj kvs) = concat (map (\<lambda>(k, v). gv_strings v) kvs)"
| "gv_strings (GOther v) = []"

fun gv_others :: "gv \<Rightarrow> jv list" where
  "gv_others (GStr s) = []"
| "gv_others (GStrs ss) = []"
| "gv_others (GArr vs) = concat (map gv_others vs)"
| "gv_others (GObj kvs) = concat (map (\<lambda>(k, v). gv_others v) kvs)"
| "gv_others (GOther v) = [v]"

lemma gv_others_scrub: "gv_others (scrubValue rx r v) = gv_others v"
  by (induction v) (auto intro!: arg_cong [where f = concat] simp: comp_def)

lemma gv_others_hard: "gv_others (hardRedact v) = gv_others v"
  by (induction v) (auto intro!: arg_cong [where f = concat] simp: comp_def)

lemma gv_strings_scrub:
  "gv_strings (scrubValue rx r v) = map (\<lambda>s. fst (scrubString rx r s)) (gv_strings v)"
  by (induction v) (auto intro!: arg_cong [where f = concat] simp: map_concat comp_def)

lemma gv_strings_hard: "gv_strings (hardRedact v) = map (\<lambda>_. marker redactError) (gv_strings v)"
  by (induction v) (auto intro!: arg_cong [where f = concat] simp: map_concat comp_def)

definition payload_strings :: "(string \<times> gv) list option \<Rightarrow> string list" where
  "payload_strings p = (case p of None \<Rightarrow> [] | Some kvs \<Rightarrow> gv_strings (GObj kvs))"

definition payload_others :: "(string \<times> gv) list option \<Rightarrow> jv list" where
  "payload_others p = (case p of None \<Rightarrow> [] | Some kvs \<Rightarrow> gv_others (GObj kvs))"

lemma Redact_strings:
  "payload_strings (fst (Redact rx r panics p tally)) =
     map (\<lambda>s. if panics then marker redactError else fst (scrubString rx r s)) (payload_strings p)"
  "payload_others (fst (Redact rx r panics p tally)) = payload_others p"
  using gv_strings_scrub [of rx r "GObj (the p)"] gv_strings_hard [of "GObj (the p)"]
    gv_others_scrub [of rx r "GObj (the p)"] gv_others_hard [of "GObj (the p)"]
  by (auto simp: Redact_def payload_strings_def payload_others_def split: option.split)

text \<open>The strings of a JSON value, and of what is written.\<close>

fun jv_strings :: "jv \<Rightarrow> string list" where
  "jv_strings (JStr s) = [s]"
| "jv_strings (JArr vs) = concat (map jv_strings vs)"
| "jv_strings (JObj kvs) = concat (map (\<lambda>(k, v). jv_strings v) kvs)"
| "jv_strings v = []"

definition written_strings :: "payload \<Rightarrow> string set" where
  "written_strings p = (case p of None \<Rightarrow> {} | Some kvs \<Rightarrow> \<Union>kv \<in> set kvs. set (jv_strings (snd kv)))"

lemma jv_strings_to_jv:
  "set (jv_strings (to_jv v)) = set (gv_strings v) \<union> (\<Union>x \<in> set (gv_others v). set (jv_strings x))"
  by (induction v) (auto simp: split_beta, force+)

lemma written_strings_payload:
  "written_strings (to_payload q) =
     set (payload_strings q) \<union> (\<Union>x \<in> set (payload_others q). set (jv_strings x))"
  using jv_strings_to_jv
  by (auto simp: written_strings_def to_payload_def payload_strings_def payload_others_def split_beta
      split: option.split)

text \<open>
  C18: The log commits to what the redactor returns. Emitting an event for an open session of the
  in-memory sink appends exactly one event, whose payload is the redacted one and whose hash is
  computed over it. The redactor scans strings in strings, slices of strings, slices of \<open>any\<close> and
  maps to \<open>any\<close>: each of those is scrubbed, or replaced by the error marker when scanning panics. A
  value of another Go type is written as it is, and so is every string in it; the strings of the
  written payload are the scrubbed ones and those, and no others.
\<close>

theorem emitted_payload_is_redacted:
  fixes rx r panics p tally
  defines "q \<equiv> fst (Redact rx r panics p tally)"
  assumes inv: "mem_inv s" and open0: "mem_sealed s sid = None"
  shows "\<exists>ev. fst (Emit (mem_append H) (\<lambda>p. fst (Redact rx r panics p tally)) now (Some sid) ty p s) = Inr () \<and>
     mem_log (snd (Emit (mem_append H) (\<lambda>p. fst (Redact rx r panics p tally)) now (Some sid) ty p s)) sid =
       mem_log s sid @ [ev] \<and>
     SessionID ev = sid \<and> Payload ev = to_payload q \<and> EHash ev = computeHash H ev \<and>
     payload_strings q =
       map (\<lambda>s. if panics then marker redactError else fst (scrubString rx r s)) (payload_strings p) \<and>
     payload_others q = payload_others p \<and>
     written_strings (Payload ev) =
       (\<lambda>s. if panics then marker redactError else fst (scrubString rx r s)) ` set (payload_strings p) \<union>
       (\<Union>x \<in> set (payload_others p). set (jv_strings x))"
proof -
  let ?ev = "\<lparr>TS = now, SessionID = sid, Seq = 0, Type = ty, Payload = to_payload q, PrevHash = [], EHash = []\<rparr>"
  let ?c = "mem_chain_of s sid"
  have emit: "Emit (mem_append H) (\<lambda>p. fst (Redact rx r panics p tally)) now (Some sid) ty p s =
      mem_append H s ?ev" by (simp add: Emit_def q_def)
  have o: "MSeal ?c = None" using open0 by (simp add: mem_sealed_def)
  have log: "mem_log (snd (mem_append H s ?ev)) sid = mem_log s sid @ [stamp H (mem_log s sid) ?ev]"
    using mem_append_eq(1) [OF inv, of H ?ev sid] o by (simp add: mem_log_def Let_def)
  have fst: "fst (mem_append H s ?ev) = Inr ()"
    using mem_append_eq(2) [OF inv, of H ?ev] o by simp
  have st: "SessionID (stamp H es ?ev) = sid" "Payload (stamp H es ?ev) = to_payload q"
    "EHash (stamp H es ?ev) = computeHash H (stamp H es ?ev)" for es
    by (simp_all add: stamp_def assign_def Let_def computeHash_def hashed_bytes_def canonicalPreimage_ev_def)
  have q: "payload_strings q = map (\<lambda>s. if panics then marker redactError else fst (scrubString rx r s)) (payload_strings p)"
    "payload_others q = payload_others p"
    unfolding q_def by (rule Redact_strings)+
  have w: "written_strings (to_payload q) =
       (\<lambda>s. if panics then marker redactError else fst (scrubString rx r s)) ` set (payload_strings p) \<union>
       (\<Union>x \<in> set (payload_others p). set (jv_strings x))"
    unfolding written_strings_payload q by (simp only: set_map)
  show ?thesis unfolding emit
    by (intro exI [of _ "stamp H (mem_log s sid) ?ev"] conjI) (simp_all only: log fst st q w)
qed

text \<open>
  The event \<^verbatim>\<open>context.assemble\<close> carries its layers as a slice of maps: a layer's name reaches the log as
  it is, whatever the redactor.
\<close>

definition context_assemble :: "string \<Rightarrow> (string \<times> gv) list option" where
  "context_assemble name = Some [(''hash'', GStr ''h''), (''layers'', GOther (JArr [JObj [(''kind'', JStr ''role''), (''name'', JStr name)]]))]"

lemma layer_name_is_not_scanned:
  "name \<in> written_strings (to_payload (fst (Redact rx r panics (context_assemble name) tally)))"
  by (simp add: written_strings_def to_payload_def Redact_def context_assemble_def)

definition demo_payload :: "(string \<times> gv) list option" where
  "demo_payload = Some [(''argv'', GStrs [''env'', ''A=b'']), (''code'', GOther (JInt 7))]"

theorem emitted_payload_is_redacted_witness:
  "\<exists>ev. mem_log (snd (Emit (mem_append (\<lambda>s. s)) (\<lambda>p. fst (Redact (\<lambda>_ s. (0, s)) demo_redactor True p (\<lambda>_. 0)))
       ''t'' (Some ''s1'') ''exec'' demo_payload Map.empty)) ''s1'' = [ev] \<and>
     payload_strings (fst (Redact (\<lambda>_ s. (0, s)) demo_redactor True demo_payload (\<lambda>_. 0))) =
       [marker redactError, marker redactError]"
proof -
  have "mem_inv Map.empty" "mem_sealed Map.empty ''s1'' = None" "mem_log Map.empty ''s1'' = []"
    by (simp_all add: mem_inv_def mem_sealed_def mem_log_def mem_chain_of_def empty_chain_def position_Nil)
  with emitted_payload_is_redacted [where s = Map.empty and sid = "''s1''" and H = "\<lambda>s. s" and
      rx = "\<lambda>_ s. (0, s)" and r = demo_redactor and panics = True and p = demo_payload and
      tally = "\<lambda>_. 0" and now = "''t''" and ty = "''exec''"]
  show ?thesis by (auto simp: payload_strings_def demo_payload_def)
qed

end
