(* ===== verification/Egress_Policy.thy ===== *)
theory Egress_Policy
  imports Policy_Scope
begin

text \<open>
  \<^verbatim>\<open>internal/egressproxy\<close>: the decision table of a session's proxy (\<^verbatim>\<open>policy.go\<close>) and the parser
  that reads the server name out of a TLS ClientHello (\<^verbatim>\<open>sni.go\<close>). Bytes are characters;
  \<^verbatim>\<open>strings.ToLower\<close> and \<^verbatim>\<open>EqualFold\<close> act on the ASCII letters, as host names are ASCII.
\<close>

subsection \<open>The decision table (policy.go)\<close>

datatype proxy_mode = ModeDeny | ModeTerminate | ModePassthrough

record InjectRule =
  Host :: string
  PathPrefix :: string
  Methods :: "string list"
  CredRef :: string
  HeaderName :: string
  HeaderFormat :: string

definition rule_matches :: "InjectRule \<Rightarrow> string \<Rightarrow> string \<Rightarrow> string \<Rightarrow> bool" where
  "rule_matches r md host path =
     (if \<not> equal_fold host (Host r) then False
      else if PathPrefix r \<noteq> [] \<and> PathPrefix r \<noteq> ''/'' \<and> \<not> has_prefix path (PathPrefix r) then False
      else if Methods r \<noteq> [] \<and> \<not> list_ex (\<lambda>m. equal_fold m md) (Methods r) then False
      else True)"

record proxy_config =
  allow_hosts :: "string list"
  never_mitm :: "string list"
  inject_rules :: "InjectRule list"

definition BuildConfig :: "policy \<Rightarrow> InjectRule list \<Rightarrow> string list \<Rightarrow> proxy_config" where
  "BuildConfig resolved rules neverMITM =
     (let allow = map to_lower (sl (Domains (Egress resolved)));
          granted = map CredName (sl (Creds resolved));
          never = map to_lower neverMITM
      in \<lparr>allow_hosts = allow, never_mitm = never,
          inject_rules = filter (\<lambda>r. to_lower (Host r) \<in> set allow \<and> CredRef r \<in> set granted \<and>
                                     to_lower (Host r) \<notin> set never) rules\<rparr>)"

text \<open>The host of \<open>host:port\<close>; with several colons it is an IPv6 literal and stays.\<close>

definition hostname :: "string \<Rightarrow> string" where
  "hostname hp =
     (if count_list hp (CHR '':'') = 1 then takeWhile (\<lambda>c. c \<noteq> CHR '':'') hp else hp)"

record proxy_decision =
  DMode :: proxy_mode
  Inject :: "InjectRule option"

definition Decide :: "proxy_config \<Rightarrow> string \<Rightarrow> string \<Rightarrow> string \<Rightarrow> proxy_decision" where
  "Decide c md host path =
     (let h = to_lower (hostname host)
      in if h \<notin> set (allow_hosts c) then \<lparr>DMode = ModeDeny, Inject = None\<rparr>
         else if h \<in> set (never_mitm c) then \<lparr>DMode = ModePassthrough, Inject = None\<rparr>
         else case find (\<lambda>r. rule_matches r md h path) (inject_rules c) of
                Some r \<Rightarrow> \<lparr>DMode = ModeTerminate, Inject = Some r\<rparr>
              | None \<Rightarrow> \<lparr>DMode = ModePassthrough, Inject = None\<rparr>)"

definition Allowed :: "proxy_config \<Rightarrow> string \<Rightarrow> bool" where
  "Allowed c host \<longleftrightarrow> to_lower (hostname host) \<in> set (allow_hosts c)"

subsection \<open>The server name of a ClientHello (sni.go)\<close>

definition u16 :: "char \<Rightarrow> char \<Rightarrow> nat" where
  "u16 a b = of_char a * 256 + of_char b"

text \<open>A field with a length of one or two bytes before it: the rest after the field.\<close>

definition skip8 :: "string \<Rightarrow> string option" where
  "skip8 b = (case b of [] \<Rightarrow> None | n # r \<Rightarrow> if length r < of_char n then None else Some (drop (of_char n) r))"

definition skip16 :: "string \<Rightarrow> string option" where
  "skip16 b = (case b of x # y # r \<Rightarrow> if length r < u16 x y then None else Some (drop (u16 x y) r) | _ \<Rightarrow> None)"

text \<open>A list whose length is in the two bytes before it.\<close>

definition take16 :: "string \<Rightarrow> string option" where
  "take16 b = (case b of x # y # r \<Rightarrow> if length r < u16 x y then None else Some (take (u16 x y) r) | _ \<Rightarrow> None)"

text \<open>
  The entries of a server name list: \<open>None\<close> is a malformed one; otherwise the first host name, if
  there is one.
\<close>

function name_list :: "string \<Rightarrow> string option option" where
  "name_list (t # x # y # r) =
     (if length r < u16 x y then None
      else if t = CHR 0x00 then Some (Some (to_lower (take (u16 x y) r)))
      else name_list (drop (u16 x y) r))"
| "name_list [] = Some None"
| "name_list [a] = Some None"
| "name_list [a, b] = Some None"
  by pat_completeness auto
termination by (relation "measure length") auto

function extension_list :: "string \<Rightarrow> string option" where
  "extension_list (t1 # t2 # x # y # r) =
     (if length r < u16 x y then None
      else if u16 t1 t2 \<noteq> 0 then extension_list (drop (u16 x y) r)
      else case take16 (take (u16 x y) r) of
             None \<Rightarrow> None
           | Some names \<Rightarrow>
               (case name_list names of
                  None \<Rightarrow> None
                | Some (Some n) \<Rightarrow> Some n
                | Some None \<Rightarrow> extension_list (drop (u16 x y) r)))"
| "extension_list [] = None"
| "extension_list [a] = None"
| "extension_list [a, b] = None"
| "extension_list [a, b, c] = None"
  by pat_completeness auto
termination by (relation "measure length") auto

definition sniFromClientHello :: "string \<Rightarrow> string option" where
  "sniFromClientHello b =
     (if length b < 5 \<or> b ! 0 \<noteq> CHR 0x16 then None
      else
        let rec0 = u16 (b ! 3) (b ! 4); hs = drop 5 b
        in if length hs < rec0 then None
           else
             let hs = take rec0 hs
             in if length hs < 4 \<or> hs ! 0 \<noteq> CHR 0x01 then None
                else
                  let body = drop 4 hs
                  in if length body < 34 then None
                     else
                       Option.bind (skip8 (drop 34 body)) (\<lambda>body.
                       Option.bind (skip16 body) (\<lambda>body.
                       Option.bind (skip8 body) (\<lambda>body.
                       Option.bind (take16 body) extension_list))))"

subsection \<open>Encoding a ClientHello\<close>

text \<open>RFC 8446 and RFC 6066, as far as the parser looks: \<open>field8\<close> and \<open>field16\<close> prefix a length.\<close>

definition put16 :: "nat \<Rightarrow> string" where
  "put16 n = [byte (n div 256), byte (n mod 256)]"

definition field8 :: "string \<Rightarrow> string" where "field8 s = byte (length s) # s"
definition field16 :: "string \<Rightarrow> string" where "field16 s = put16 (length s) @ s"

definition extension :: "nat \<times> string \<Rightarrow> string" where
  "extension e = put16 (fst e) @ field16 (snd e)"

definition name_entry :: "nat \<times> string \<Rightarrow> string" where
  "name_entry e = byte (fst e) # field16 (snd e)"

definition server_name :: "string \<Rightarrow> string" where
  "server_name n = field16 (name_entry (0, n))"

definition client_hello :: "string \<Rightarrow> string \<Rightarrow> string \<Rightarrow> string \<Rightarrow> (nat \<times> string) list \<Rightarrow> string" where
  "client_hello versionRandom sid suites compr exts =
     (let body = versionRandom @ field8 sid @ field16 suites @ field8 compr @
                 field16 (concat (map extension exts));
          hs = byte 1 # byte 0 # put16 (length body) @ body
      in byte 22 # byte 3 # byte 1 # put16 (length hs) @ hs)"

lemma byte_value [simp]: "n < 256 \<Longrightarrow> of_char (byte n) = n"
  by (simp add: byte_def)

lemma u16_put16: "n < 65536 \<Longrightarrow> u16 (byte (n div 256)) (byte (n mod 256)) = n"
  by (simp add: u16_def)

lemma skip8_field8 [simp]: "length s < 256 \<Longrightarrow> skip8 (field8 s @ r) = Some r"
  by (simp add: skip8_def field8_def)

lemma skip16_field16 [simp]: "length s < 65536 \<Longrightarrow> skip16 (field16 s @ r) = Some r"
  by (simp add: skip16_def field16_def put16_def u16_put16)

lemma take16_field16 [simp]: "length s < 65536 \<Longrightarrow> take16 (field16 s @ r) = Some s"
  by (simp add: take16_def field16_def put16_def u16_put16)

lemma bytes_of_hello: "byte 0 = CHR 0x00" "byte 1 = CHR 0x01" "byte 22 = CHR 0x16"
  by code_simp+

lemma name_list_entry:
  assumes "length n < 65536"
  shows "name_list (name_entry (0, n)) = Some (Some (to_lower n))"
proof -
  have "name_entry (0, n) = CHR 0x00 # byte (length n div 256) # byte (length n mod 256) # n"
    by (simp add: name_entry_def field16_def put16_def bytes_of_hello)
  then show ?thesis using u16_put16 [OF assms] by simp
qed

lemma extension_list_other:
  assumes "0 < fst e" "fst e < 65536" "length (snd e) < 65536"
  shows "extension_list (extension e @ r) = extension_list r"
  using assms by (simp add: extension_def field16_def put16_def u16_put16)

lemma extension_list_name:
  assumes "length n < 65530"
  shows "extension_list (extension (0, server_name n) @ r) = Some (to_lower n)"
proof -
  have l: "length (server_name n) < 65536" "length (name_entry (0, n)) < 65536"
    using assms by (simp_all add: server_name_def name_entry_def field16_def put16_def)
  have "take16 (server_name n) = Some (name_entry (0, n))"
    using take16_field16 [of "name_entry (0, n)" "[]"] l(2) by (simp add: server_name_def)
  moreover have "name_list (name_entry (0, n)) = Some (Some (to_lower n))"
    using assms by (simp add: name_list_entry)
  ultimately show ?thesis
    using l(1) by (simp add: extension_def field16_def put16_def u16_put16 u16_def)
qed

lemma extension_list_hello:
  assumes "\<forall>e \<in> set pre. 0 < fst e \<and> fst e < 65536 \<and> length (snd e) < 65536" "length n < 65530"
  shows "extension_list (concat (map extension (pre @ (0, server_name n) # post))) = Some (to_lower n)"
  using assms(1)
  by (induction pre) (simp_all add: extension_list_name [OF assms(2)] extension_list_other)

lemma length_fields [simp]:
  "length (field8 s) = Suc (length s)" "length (field16 s) = Suc (Suc (length s))" "length (put16 n) = 2"
  by (simp_all add: field8_def field16_def put16_def)

lemma drop_header:
  "drop 4 ([a, b, c, d] @ s) = s" "drop 5 ([a, b, c, d, e] @ s) = s"
  by simp_all

definition sni_of_handshake :: "string \<Rightarrow> string option" where
  "sni_of_handshake hs =
     (if length hs < 4 \<or> hs ! 0 \<noteq> CHR 0x01 then None
      else
        let body = drop 4 hs
        in if length body < 34 then None
           else
             Option.bind (skip8 (drop 34 body)) (\<lambda>body.
             Option.bind (skip16 body) (\<lambda>body.
             Option.bind (skip8 body) (\<lambda>body.
             Option.bind (take16 body) extension_list))))"

lemma sni_of_record:
  assumes "u16 x y = length hs"
  shows "sniFromClientHello ([CHR 0x16, v, w, x, y] @ hs) = sni_of_handshake hs"
proof -
  have "([CHR 0x16, v, w, x, y] @ hs) ! 3 = x" "([CHR 0x16, v, w, x, y] @ hs) ! 4 = y"
    "([CHR 0x16, v, w, x, y] @ hs) ! 0 = CHR 0x16" "\<not> length ([CHR 0x16, v, w, x, y] @ hs) < 5"
    by (simp_all add: nth_append)
  then show ?thesis
    by (simp only: sniFromClientHello_def sni_of_handshake_def Let_def drop_header assms take_all order_refl) simp
qed

lemma client_hello_record:
  assumes "length (client_hello vr sid suites compr exts) < 65536"
  obtains hs x y where "client_hello vr sid suites compr exts = [CHR 0x16, byte 3, byte 1, x, y] @ hs"
    "u16 x y = length hs"
proof -
  define body where "body = vr @ field8 sid @ field16 suites @ field8 compr @ field16 (concat (map extension exts))"
  define hs where "hs = byte 1 # byte 0 # put16 (length body) @ body"
  have ch: "client_hello vr sid suites compr exts =
      [CHR 0x16, byte 3, byte 1, byte (length hs div 256), byte (length hs mod 256)] @ hs"
    by (simp only: client_hello_def Let_def hs_def body_def put16_def bytes_of_hello append.simps)
  then have "length hs < 65536" using assms by simp
  from that [OF ch u16_put16 [OF this]] show ?thesis .
qed

lemma sni_of_hello:
  assumes "length vr = 34" "length sid < 256" "length compr < 256"
    and "length (client_hello vr sid suites compr exts) < 65536"
  shows "sniFromClientHello (client_hello vr sid suites compr exts) =
    extension_list (concat (map extension exts))"
proof -
  define es where "es = concat (map extension exts)"
  define body where "body = vr @ field8 sid @ field16 suites @ field8 compr @ field16 es"
  define hs where "hs = byte 1 # byte 0 # put16 (length body) @ body"
  have ch: "client_hello vr sid suites compr exts = byte 22 # byte 3 # byte 1 # put16 (length hs) @ hs"
    by (simp add: client_hello_def Let_def hs_def body_def es_def)
  have l: "length hs < 65536" "length suites < 65536" "length es < 65536"
    using assms(4) unfolding ch by (simp_all add: hs_def body_def)
  have hs: "hs = [CHR 0x01, byte 0, byte (length body div 256), byte (length body mod 256)] @ body"
    by (simp only: hs_def put16_def bytes_of_hello append.simps)
  have hs4: "drop 4 hs = body" "hs ! 0 = CHR 0x01" "4 \<le> length hs"
    by (simp_all only: hs drop_header) (simp_all add: nth_append)
  have b34: "34 \<le> length body" "drop 34 body = field8 sid @ field16 suites @ field8 compr @ field16 es"
    using assms(1) by (simp_all add: body_def)
  have t: "take16 (field16 es) = Some es" using take16_field16 [OF l(3), of "[]"] by simp
  have u: "u16 (byte (length hs div 256)) (byte (length hs mod 256)) = length hs"
    using l(1) by (rule u16_put16)
  have ch': "client_hello vr sid suites compr exts =
      [CHR 0x16, byte 3, byte 1, byte (length hs div 256), byte (length hs mod 256)] @ hs"
    by (simp only: ch put16_def bytes_of_hello append.simps)
  show ?thesis
    unfolding ch' sni_of_record [OF u] es_def [symmetric]
    using hs4 b34 assms(2,3) l(2) t by (simp add: sni_of_handshake_def)
qed

subsection \<open>What the table lets through\<close>

lemma find_SomeD: "find P xs = Some x \<Longrightarrow> x \<in> set xs \<and> P x"
  by (induction xs) (auto split: if_splits)

lemma Decide_terminate:
  assumes "DMode (Decide (BuildConfig resolved rules never) md host path) = ModeTerminate"
  shows "\<exists>r. Inject (Decide (BuildConfig resolved rules never) md host path) = Some r \<and> r \<in> set rules \<and>
    rule_matches r md (to_lower (hostname host)) path \<and>
    to_lower (Host r) = to_lower (hostname host) \<and>
    to_lower (hostname host) \<in> to_lower ` set (sl (Domains (Egress resolved))) \<and>
    CredRef r \<in> CredName ` set (sl (Creds resolved)) \<and>
    to_lower (hostname host) \<notin> to_lower ` set never"
proof -
  let ?c = "BuildConfig resolved rules never" and ?h = "to_lower (hostname host)"
  from assms have h: "?h \<in> set (allow_hosts ?c)" "?h \<notin> set (never_mitm ?c)"
    by (auto simp: Decide_def Let_def split: if_splits)
  with assms obtain r where f: "find (\<lambda>r. rule_matches r md ?h path) (inject_rules ?c) = Some r"
    by (auto simp: Decide_def Let_def split: option.splits)
  from find_SomeD [OF f] have r: "r \<in> set (inject_rules ?c)" "rule_matches r md ?h path" by auto
  from h f have "Inject (Decide ?c md host path) = Some r" by (simp add: Decide_def Let_def)
  moreover from r(2) have "to_lower (Host r) = ?h"
    by (auto simp: rule_matches_def equal_fold_def split: if_splits)
  ultimately show ?thesis using r h by (auto simp: BuildConfig_def Let_def)
qed

subsection \<open>Properties\<close>

text \<open>
  The parser finds the name the client sends. For every ClientHello with a server name
  extension, whatever its session id, cipher suites, compression methods and the extensions
  around it, the server name that is read is the one that was encoded, in lower case.
\<close>

theorem sni_round_trip:
  assumes "length vr = 34" "length sid < 256" "length compr < 256" "length n < 65530"
    and "\<forall>e \<in> set pre. 0 < fst e \<and> fst e < 65536 \<and> length (snd e) < 65536"
    and "length (client_hello vr sid suites compr (pre @ (0, server_name n) # post)) < 65536"
  shows "sniFromClientHello (client_hello vr sid suites compr (pre @ (0, server_name n) # post)) =
    Some (to_lower n)"
  using sni_of_hello [OF assms(1-3,6)] extension_list_hello [OF assms(5,4)] by simp

theorem sni_round_trip_witness:
  "sniFromClientHello (client_hello (replicate 34 (CHR ''r'')) [] ''ss'' ''c''
     ([(10, ''x'')] @ (0, server_name ''Api.Example.com'') # [(16, ''y'')])) = Some ''api.example.com''"
proof -
  have "length (client_hello (replicate 34 (CHR ''r'')) [] ''ss'' ''c''
      ([(10, ''x'')] @ (0, server_name ''Api.Example.com'') # [(16, ''y'')])) < 65536"
    by (simp add: client_hello_def Let_def extension_def server_name_def name_entry_def)
  from sni_round_trip [OF _ _ _ _ _ this] have
    "sniFromClientHello (client_hello (replicate 34 (CHR ''r'')) [] ''ss'' ''c''
     ([(10, ''x'')] @ (0, server_name ''Api.Example.com'') # [(16, ''y'')])) = Some (to_lower ''Api.Example.com'')"
    by simp
  moreover have "to_lower ''Api.Example.com'' = ''api.example.com''" by code_simp
  ultimately show ?thesis by simp
qed

end
