(* ===== verification/Broker_Resolve.thy ===== *)
theory Broker_Resolve
  imports Policy_Model
begin

text \<open>
  \<^verbatim>\<open>internal/broker/resolve.go\<close> and the metadata of \<^verbatim>\<open>backend.go\<close>: the gated resolution of a
  credential reference. The backend is a parameter (\<open>None\<close> is the nil backend): it returns the
  value with its metadata or an error. Every call returns the audit events it emits.
\<close>

record SecretMeta =
  Ref :: string
  MetaProvider :: string
  MetaScope :: string
  MetaTTL :: string
  CreatedAt :: int
  LastUsed :: int
  RotatedAt :: int

definition meta_of :: "string \<Rightarrow> string \<Rightarrow> SecretMeta" where
  "meta_of ref prov = \<lparr>Ref = ref, MetaProvider = prov, MetaScope = [], MetaTTL = [],
     CreatedAt = 0, LastUsed = 0, RotatedAt = 0\<rparr>"

datatype broker_error =
    NotGranted string
  | NoBackend
  | BackendError string
  | ProviderMismatch string string string

type_synonym backend = "string \<Rightarrow> string + string \<times> SecretMeta"

text \<open>The payload of a \<^verbatim>\<open>cred.resolve\<close> event; it has no place for the value.\<close>

record cred_event =
  EvRef :: string
  EvProvider :: string
  EvScope :: string
  EvTTL :: string
  EvRule :: string
  EvSuccess :: bool

definition audit :: "SecretMeta \<Rightarrow> string \<Rightarrow> bool \<Rightarrow> cred_event" where
  "audit m rule ok = \<lparr>EvRef = Ref m, EvProvider = MetaProvider m, EvScope = MetaScope m,
     EvTTL = MetaTTL m, EvRule = rule, EvSuccess = ok\<rparr>"

definition matchGrant :: "cred list \<Rightarrow> string \<Rightarrow> cred option" where
  "matchGrant grants ref = find (\<lambda>g. CredName g = ref) grants"

definition ruleFor :: "cred \<Rightarrow> string" where
  "ruleFor g = (if Provider g \<noteq> [] then ''creds:'' @ CredName g @ ''/'' @ Provider g
                else ''creds:'' @ CredName g)"

definition broker_Resolve ::
  "backend option \<Rightarrow> cred list \<Rightarrow> string \<Rightarrow> (broker_error + string \<times> SecretMeta) \<times> cred_event list" where
  "broker_Resolve backend grants ref =
     (case matchGrant grants ref of
        None \<Rightarrow> (Inl (NotGranted ref), [audit (meta_of ref []) ''deny-by-default'' False])
      | Some g \<Rightarrow>
          (case backend of
             None \<Rightarrow> (Inl NoBackend, [audit (meta_of ref (Provider g)) ''no-backend'' False])
           | Some get \<Rightarrow>
               (case get ref of
                  Inl e \<Rightarrow> (Inl (BackendError e), [audit (meta_of ref (Provider g)) (ruleFor g) False])
                | Inr (val, m) \<Rightarrow>
                    if Provider g \<noteq> [] \<and> MetaProvider m \<noteq> [] \<and> Provider g \<noteq> MetaProvider m
                    then (Inl (ProviderMismatch ref (MetaProvider m) (Provider g)),
                          [audit m ''provider-mismatch'' False])
                    else (Inr (val, m), [audit m (ruleFor g) True]))))"

lemma matchGrant_SomeD: "matchGrant gs ref = Some g \<Longrightarrow> g \<in> set gs \<and> CredName g = ref"
  unfolding matchGrant_def by (induction gs) (auto split: if_splits)

lemma matchGrant_None_iff: "matchGrant gs ref = None \<longleftrightarrow> ref \<notin> CredName ` set gs"
  unfolding matchGrant_def by (induction gs) auto

lemma broker_Resolve_event:
  obtains e where "snd (broker_Resolve b gs ref) = [e]"
    "EvSuccess e \<longleftrightarrow> (\<exists>r. fst (broker_Resolve b gs ref) = Inr r)"
  by (fastforce simp: broker_Resolve_def audit_def split: option.splits sum.splits prod.splits if_splits)

lemma broker_Resolve_InrD:
  assumes "fst (broker_Resolve b gs ref) = Inr (val, m)"
  obtains g get where "b = Some get" "g \<in> set gs" "CredName g = ref" "get ref = Inr (val, m)"
    "Provider g = [] \<or> MetaProvider m = [] \<or> Provider g = MetaProvider m"
    "snd (broker_Resolve b gs ref) = [audit m (ruleFor g) True]"
proof -
  obtain g where g: "matchGrant gs ref = Some g"
    using assms by (auto simp: broker_Resolve_def split: option.splits)
  obtain get where b: "b = Some get"
    using assms g by (auto simp: broker_Resolve_def split: option.splits)
  have r: "get ref = Inr (val, m)" "Provider g = [] \<or> MetaProvider m = [] \<or> Provider g = MetaProvider m"
    using assms g b by (auto simp: broker_Resolve_def split: sum.splits prod.splits if_splits)
  have "snd (broker_Resolve b gs ref) = [audit m (ruleFor g) True]"
    using g b r by (auto simp: broker_Resolve_def)
  with that [OF b _ _ r] matchGrant_SomeD [OF g] show ?thesis by blast
qed

end
