(* ===== verification/Egress_Proxy.thy ===== *)
theory Egress_Proxy
  imports Egress_Policy Broker_Resolve Complex_Main "HOL-Library.AList" "HOL-Library.Word"
begin

text \<open>
  \<^verbatim>\<open>internal/egressproxy\<close>: the outbound scan (\<^verbatim>\<open>anomaly.go\<close>), the ClientHello peek (\<^verbatim>\<open>conn.go\<close>)
  and one session's proxy (\<^verbatim>\<open>proxy.go\<close>): header injection on the forwarded request, the CONNECT
  handler, the terminated connection and the tunnel. Parameters: \<open>sprintf\<close> (\<^verbatim>\<open>fmt.Sprintf\<close> with one
  argument), \<open>url_ok\<close> (whether \<^verbatim>\<open>http.NewRequest\<close> accepts a URL), \<open>upstream\<close> (the transport),
  \<open>dial\<close> and \<open>tls\<close> (the TLS library: what a decrypted connection delivers). A certificate for the
  host is always issued; the reader of a body ends or fails.
\<close>

subsection \<open>The outbound scan (anomaly.go)\<close>

record AnomalyConfig =
  UploadCap :: "64 word"
  EntropyThreshold :: real

definition upload_cap :: "AnomalyConfig \<Rightarrow> 64 word" where
  "upload_cap a = (if sint (UploadCap a) \<le> 0 then 8388608 else UploadCap a)"

definition threshold :: "AnomalyConfig \<Rightarrow> real" where
  "threshold a = (if EntropyThreshold a \<le> 0 then 7.5 else EntropyThreshold a)"

definition shannonEntropy :: "string \<Rightarrow> real" where
  "shannonEntropy b =
     (if b = [] then 0
      else - (\<Sum>c \<in> set b. let p = real (count_list b c) / real (length b) in p * log 2 p))"

record AnomalyResult =
  Bytes :: int
  Entropy :: real
  Capped :: bool
  Flagged :: bool
  Reason :: string

definition scanBody :: "string \<Rightarrow> AnomalyConfig \<Rightarrow> AnomalyResult" where
  "scanBody body cfg =
     (let n = int (length body); h = shannonEntropy body;
          capped = n \<ge> sint (upload_cap cfg);
          high = n \<ge> 1024 \<and> h \<ge> threshold cfg
      in \<lparr>Bytes = n, Entropy = h, Capped = capped, Flagged = capped \<or> high,
          Reason = (if capped then ''upload-cap'' else []) @
                   (if high then if capped then ''+high-entropy'' else ''high-entropy'' else [])\<rparr>)"

subsection \<open>Requests and headers (net/http, as the proxy uses it)\<close>

type_synonym header = "(string \<times> string list) list"

definition token_char :: "char \<Rightarrow> bool" where
  "token_char c \<longleftrightarrow> (CHR ''0'' \<le> c \<and> c \<le> CHR ''9'') \<or> (CHR ''a'' \<le> c \<and> c \<le> CHR ''z'') \<or>
     (CHR ''A'' \<le> c \<and> c \<le> CHR ''Z'') \<or> c \<in> set ''!#$%&*+-.^_`|~'' \<or> c = CHR 0x27"

fun canonical_from :: "bool \<Rightarrow> string \<Rightarrow> string" where
  "canonical_from up [] = []"
| "canonical_from up (c # s) =
     (if up \<and> CHR ''a'' \<le> c \<and> c \<le> CHR ''z'' then char_of (of_char c - 32 :: nat)
      else if \<not> up \<and> CHR ''A'' \<le> c \<and> c \<le> CHR ''Z'' then char_of (of_char c + 32 :: nat)
      else c) # canonical_from (c = CHR ''-'') s"

definition CanonicalHeaderKey :: "string \<Rightarrow> string" where
  "CanonicalHeaderKey s = (if list_all token_char s then canonical_from True s else s)"

definition header_values :: "header \<Rightarrow> string \<Rightarrow> string list" where
  "header_values h k = (case map_of h k of None \<Rightarrow> [] | Some vs \<Rightarrow> vs)"

definition header_add :: "header \<Rightarrow> string \<Rightarrow> string \<Rightarrow> header" where
  "header_add h k v = (let k = CanonicalHeaderKey k in AList.update k (header_values h k @ [v]) h)"

definition header_set :: "header \<Rightarrow> string \<Rightarrow> string \<Rightarrow> header" where
  "header_set h k v = AList.update (CanonicalHeaderKey k) [v] h"

definition header_copy :: "header \<Rightarrow> header" where
  "header_copy h = foldl (\<lambda>acc (k, vs). foldl (\<lambda>acc v. header_add acc k v) acc vs) [] h"

record reader =
  Data :: string
  Fails :: bool

record url =
  Scheme :: string
  UrlHost :: string
  Path :: string
  RequestURI :: string

record request =
  Method :: string
  ReqHost :: string
  URL :: url
  ReqHeader :: header
  ReqBody :: "reader option"
  ReqClose :: bool

record upstream_request =
  UpMethod :: string
  UpURL :: string
  UpHeader :: header
  UpBody :: string
  ContentLength :: int

record response =
  StatusCode :: int
  RespHeader :: header
  RespBody :: string
  RespClose :: bool
  Writable :: bool

subsection \<open>One session's proxy (proxy.go)\<close>

datatype proxy_error =
    Denied string
  | ReadBody
  | BuildUpstream string
  | RoundTripFailed string
  | PeekFailed
  | DialFailed
  | HelloNotForwarded
  | NoCA
  | HandshakeFailed
  | ReadRequestFailed
  | NotUpgradable
  | WriteFailed

datatype proxy_event =
    Cred cred_event
  | Anomaly string string string string int real bool  \<comment> \<open>host, method, path, reason, bytes, entropy, capped\<close>

record proxy =
  Cfg :: proxy_config
  HasCA :: bool
  Brk :: "backend option option"
  Grants :: "cred list"
  AnomalyCfg :: AnomalyConfig



definition emitAnomaly :: "string \<Rightarrow> string \<Rightarrow> string \<Rightarrow> AnomalyResult \<Rightarrow> proxy_event" where
  "emitAnomaly md host path res =
     Anomaly host md path (Reason res) (Bytes res)
       (real_of_int \<lfloor>Entropy res * 1000 + 1 / 2\<rfloor> / 1000) (Capped res)"

text \<open>\<^verbatim>\<open>io.LimitReader\<close> is at its end once the limit is used up, also where the limit is negative.\<close>

definition limit_read :: "int \<Rightarrow> reader \<Rightarrow> string option" where
  "limit_read n r =
     (if n \<le> int (length (Data r)) then Some (take (nat n) (Data r))
      else if Fails r then None else Some (Data r))"

definition readBounded :: "AnomalyConfig \<Rightarrow> reader option \<Rightarrow> string option" where
  "readBounded cfg r =
     (case r of None \<Rightarrow> Some [] | Some r \<Rightarrow> limit_read (sint (upload_cap cfg + 1)) r)"

definition buildUpstream :: "(string \<Rightarrow> bool) \<Rightarrow> request \<Rightarrow> string \<Rightarrow> string \<Rightarrow> proxy_error + upstream_request" where
  "buildUpstream url_ok req host body =
     (let scheme = (if Scheme (URL req) = [] then ''https'' else Scheme (URL req));
          u = scheme @ ''://'' @ host @ RequestURI (URL req)
      in if \<not> url_ok u then Inl (BuildUpstream u)
         else Inr \<lparr>UpMethod = Method req, UpURL = u, UpHeader = header_copy (ReqHeader req),
                   UpBody = body, ContentLength = int (length body)\<rparr>)"

definition header_value :: "(string \<Rightarrow> string \<Rightarrow> string) \<Rightarrow> InjectRule \<Rightarrow> string \<Rightarrow> string" where
  "header_value sprintf rule v = (if HeaderFormat rule \<noteq> [] then sprintf (HeaderFormat rule) v else v)"

definition header_name :: "InjectRule \<Rightarrow> string" where
  "header_name rule = (if HeaderName rule = [] then ''Authorization'' else HeaderName rule)"

definition injectHeader ::
  "(string \<Rightarrow> string \<Rightarrow> string) \<Rightarrow> proxy \<Rightarrow> upstream_request \<Rightarrow> InjectRule \<Rightarrow> upstream_request \<times> proxy_event list" where
  "injectHeader sprintf p up rule =
     (case Brk p of
        None \<Rightarrow> (up, [])
      | Some brk \<Rightarrow>
          (case broker_Resolve brk (Grants p) (CredRef rule) of
             (Inl _, ev) \<Rightarrow> (up, map Cred ev)
           | (Inr (v, _), ev) \<Rightarrow>
               (up\<lparr>UpHeader := header_set (UpHeader up) (header_name rule) (header_value sprintf rule v)\<rparr>,
                map Cred ev)))"

text \<open>\<open>Forward\<close> up to the round trip: the request that goes out, or the error, and the events.\<close>

definition Forward ::
  "(string \<Rightarrow> string \<Rightarrow> string) \<Rightarrow> (string \<Rightarrow> bool) \<Rightarrow> proxy \<Rightarrow> request \<Rightarrow>
   (proxy_error + upstream_request) \<times> proxy_event list" where
  "Forward sprintf url_ok p req =
     (let host = (if hostname (ReqHost req) = [] then hostname (UrlHost (URL req)) else hostname (ReqHost req));
          path = Path (URL req);
          dcs = Decide (Cfg p) (Method req) host path
      in if DMode dcs = ModeDeny then (Inl (Denied host), [])
         else case readBounded (AnomalyCfg p) (ReqBody req) of
           None \<Rightarrow> (Inl ReadBody, [])
         | Some body \<Rightarrow>
             let res = scanBody body (AnomalyCfg p);
                 ev = (if Flagged res then [emitAnomaly (Method req) host path res] else [])
             in case buildUpstream url_ok req host body of
                  Inl e \<Rightarrow> (Inl e, ev)
                | Inr up \<Rightarrow>
                    (case (DMode dcs, Inject dcs) of
                       (ModeTerminate, Some rule) \<Rightarrow>
                         let (up', ev') = injectHeader sprintf p up rule in (Inr up', ev @ ev')
                     | _ \<Rightarrow> (Inr up, ev)))"

subsection \<open>A terminated connection\<close>

text \<open>
  What a decrypted connection delivers: requests, each with whether the response can be written
  back, or a malformed one. The end of the list is the end of the stream. A run records the
  requests sent upstream, the replies written to the client and the events.
\<close>

datatype incoming = Incoming request bool | Malformed

datatype reply = Reply response | UpgradeHead response | Forbidden proxy_error

record conn_run =
  Err :: "proxy_error option"
  Sent :: "upstream_request list"
  Replies :: "reply list"
  Events :: "proxy_event list"
  Tunnel :: "(string \<times> string) option"  \<comment> \<open>the host dialled and the client bytes it is sent\<close>

definition stop :: "proxy_error option \<Rightarrow> conn_run" where
  "stop e = \<lparr>Err = e, Sent = [], Replies = [], Events = [], Tunnel = None\<rparr>"

definition run_add :: "upstream_request list \<Rightarrow> reply list \<Rightarrow> proxy_event list \<Rightarrow> conn_run \<Rightarrow> conn_run" where
  "run_add us rs ev r = r\<lparr>Sent := us @ Sent r, Replies := rs @ Replies r, Events := ev @ Events r\<rparr>"

definition retarget :: "string \<Rightarrow> request \<Rightarrow> request" where
  "retarget host req = req\<lparr>ReqHost := host, URL := (URL req)\<lparr>Scheme := ''https'', UrlHost := host\<rparr>\<rparr>"

fun serve_requests ::
  "(string \<Rightarrow> string \<Rightarrow> string) \<Rightarrow> (string \<Rightarrow> bool) \<Rightarrow> (upstream_request \<Rightarrow> string + response) \<Rightarrow>
   proxy \<Rightarrow> string \<Rightarrow> incoming list \<Rightarrow> conn_run" where
  "serve_requests sprintf url_ok upstream p host [] = stop None"
| "serve_requests sprintf url_ok upstream p host (Malformed # is) = stop (Some ReadRequestFailed)"
| "serve_requests sprintf url_ok upstream p host (Incoming req w # is) =
     (case Forward sprintf url_ok p (retarget host req) of
        (Inl e, ev) \<Rightarrow> run_add [] [Forbidden e] ev (stop (Some e))
      | (Inr up, ev) \<Rightarrow>
          (case upstream up of
             Inl m \<Rightarrow> run_add [up] [Forbidden (RoundTripFailed m)] ev (stop (Some (RoundTripFailed m)))
           | Inr resp \<Rightarrow>
               if StatusCode resp = 101
               then if \<not> Writable resp then run_add [up] [] ev (stop (Some NotUpgradable))
                    else if \<not> w then run_add [up] [] ev (stop (Some WriteFailed))
                    else run_add [up] [UpgradeHead resp] ev (stop None)
               else if \<not> w then run_add [up] [] ev (stop (Some WriteFailed))
               else if ReqClose req \<or> RespClose resp then run_add [up] [Reply resp] ev (stop None)
               else run_add [up] [Reply resp] ev (serve_requests sprintf url_ok upstream p host is)))"

definition serveTerminate ::
  "(string \<Rightarrow> string \<Rightarrow> string) \<Rightarrow> (string \<Rightarrow> bool) \<Rightarrow> (upstream_request \<Rightarrow> string + response) \<Rightarrow>
   (string \<Rightarrow> string \<Rightarrow> incoming list option) \<Rightarrow> proxy \<Rightarrow> string \<Rightarrow> string \<Rightarrow> conn_run" where
  "serveTerminate sprintf url_ok upstream tls p host stream =
     (if \<not> HasCA p then stop (Some NoCA)
      else case tls host stream of
             None \<Rightarrow> stop (Some HandshakeFailed)
           | Some is \<Rightarrow> serve_requests sprintf url_ok upstream p host is)"

subsection \<open>The tunnel\<close>

definition maxClientHello :: nat where
  "maxClientHello = 16384"

definition peekClientHello :: "string \<Rightarrow> (string \<times> string) option" where
  "peekClientHello s =
     (if length s < 5 then Some (s, [])
      else let total = min (5 + u16 (s ! 3) (s ! 4)) maxClientHello
           in if length s < total then None else Some (take total s, drop total s))"

text \<open>\<open>dial host\<close>: \<open>None\<close> is a dial error, otherwise whether the first write succeeds.\<close>

definition servePassthrough :: "(string \<Rightarrow> bool option) \<Rightarrow> proxy \<Rightarrow> string \<Rightarrow> string \<Rightarrow> conn_run" where
  "servePassthrough dial p host stream =
     (case peekClientHello stream of
        None \<Rightarrow> stop (Some PeekFailed)
      | Some (buffered, rest) \<Rightarrow>
          let refused = (case sniFromClientHello buffered of
                           Some sni \<Rightarrow> \<not> Allowed (Cfg p) sni \<or> sni \<noteq> host
                         | None \<Rightarrow> False)
          in if refused then stop (Some (Denied host))
             else case dial host of
                    None \<Rightarrow> stop (Some DialFailed)
                  | Some False \<Rightarrow> stop (Some HelloNotForwarded)
                  | Some True \<Rightarrow> (stop None)\<lparr>Tunnel := Some (host, buffered @ rest)\<rparr>)"

definition hostTerminates :: "proxy \<Rightarrow> string \<Rightarrow> bool" where
  "hostTerminates p host \<longleftrightarrow>
     list_ex (\<lambda>r. rule_matches r [] host [] \<or> Host r = host) (inject_rules (Cfg p))"

definition ServeCONNECT ::
  "(string \<Rightarrow> string \<Rightarrow> string) \<Rightarrow> (string \<Rightarrow> bool) \<Rightarrow> (upstream_request \<Rightarrow> string + response) \<Rightarrow>
   (string \<Rightarrow> string \<Rightarrow> incoming list option) \<Rightarrow> (string \<Rightarrow> bool option) \<Rightarrow> proxy \<Rightarrow>
   string \<Rightarrow> string \<Rightarrow> conn_run" where
  "ServeCONNECT sprintf url_ok upstream tls dial p authority stream =
     (let host = hostname authority
      in if \<not> Allowed (Cfg p) host then stop (Some (Denied host))
         else if hostTerminates p host then serveTerminate sprintf url_ok upstream tls p host stream
         else servePassthrough dial p host stream)"

subsection \<open>What a run sends\<close>

lemma run_add_simps [simp]:
  "Sent (run_add us rs ev r) = us @ Sent r" "Replies (run_add us rs ev r) = rs @ Replies r"
  "Events (run_add us rs ev r) = ev @ Events r" "Err (run_add us rs ev r) = Err r"
  "Tunnel (run_add us rs ev r) = Tunnel r"
  by (simp_all add: run_add_def)

lemma stop_simps [simp]:
  "Sent (stop e) = []" "Replies (stop e) = []" "Events (stop e) = []" "Err (stop e) = e" "Tunnel (stop e) = None"
  by (simp_all add: stop_def)

lemma hostname_idem [simp]: "hostname (hostname h) = hostname h"
proof (cases "count_list h (CHR '':'') = 1")
  case True
  have "count_list (takeWhile (\<lambda>c. c \<noteq> CHR '':'') h) (CHR '':'') = 0"
    by (induction h) auto
  with True show ?thesis by (simp add: hostname_def)
qed (simp add: hostname_def)

lemma hostname_Nil [simp]: "hostname [] = []"
  by (simp add: hostname_def)

text \<open>The header of a forwarded request: a copy, or a copy with the one header of a rule.\<close>

definition injected ::
  "(string \<Rightarrow> string \<Rightarrow> string) \<Rightarrow> proxy \<Rightarrow> InjectRule \<Rightarrow> header \<Rightarrow> proxy_event list \<Rightarrow> header \<Rightarrow> bool" where
  "injected sprintf p rule h ev h' \<longleftrightarrow>
     (\<exists>get v m g. Brk p = Some (Some get) \<and> get (CredRef rule) = Inr (v, m) \<and> g \<in> set (Grants p) \<and>
        CredName g = CredRef rule \<and> Cred (audit m (ruleFor g) True) \<in> set ev \<and>
        h' = header_set h (header_name rule) (header_value sprintf rule v))"

lemma injectHeader_cases:
  assumes "injectHeader sprintf p up rule = (up', ev)"
  shows "up' = up \<or> (\<exists>h'. up' = up\<lparr>UpHeader := h'\<rparr> \<and> injected sprintf p rule (UpHeader up) ev h')"
proof (cases "Brk p")
  case None
  then show ?thesis using assms by (simp add: injectHeader_def)
next
  case (Some brk)
  show ?thesis
  proof (cases "fst (broker_Resolve brk (Grants p) (CredRef rule))")
    case (Inl e)
    then show ?thesis using assms Some
      by (auto simp: injectHeader_def split: prod.splits sum.splits)
  next
    case (Inr vm)
    obtain v m where vm: "vm = (v, m)" by (cases vm)
    from broker_Resolve_InrD [OF Inr [unfolded vm]] obtain g get where
      r: "brk = Some get" "g \<in> set (Grants p)" "CredName g = CredRef rule" "get (CredRef rule) = Inr (v, m)"
      "snd (broker_Resolve brk (Grants p) (CredRef rule)) = [audit m (ruleFor g) True]" by metis
    have pr: "broker_Resolve brk (Grants p) (CredRef rule) = (Inr (v, m), [audit m (ruleFor g) True])"
      using Inr r(5) vm by (simp add: prod_eq_iff)
    have "up' = up\<lparr>UpHeader := header_set (UpHeader up) (header_name rule) (header_value sprintf rule v)\<rparr>"
      "ev = [Cred (audit m (ruleFor g) True)]"
      using assms Some pr by (simp_all add: injectHeader_def)
    moreover have "injected sprintf p rule (UpHeader up) [Cred (audit m (ruleFor g) True)]
        (header_set (UpHeader up) (header_name rule) (header_value sprintf rule v))"
      unfolding injected_def using Some r by auto
    ultimately show ?thesis by blast
  qed
qed

definition forward_host :: "request \<Rightarrow> string" where
  "forward_host req = (if hostname (ReqHost req) = [] then hostname (UrlHost (URL req)) else hostname (ReqHost req))"

lemma Forward_sent:
  assumes "Forward sprintf url_ok p req = (Inr u, ev)"
  obtains body up where "readBounded (AnomalyCfg p) (ReqBody req) = Some body"
    "buildUpstream url_ok req (forward_host req) body = Inr up"
    "u = up \<or> (\<exists>rule h'. DMode (Decide (Cfg p) (Method req) (forward_host req) (Path (URL req))) = ModeTerminate \<and>
        Inject (Decide (Cfg p) (Method req) (forward_host req) (Path (URL req))) = Some rule \<and>
        u = up\<lparr>UpHeader := h'\<rparr> \<and> injected sprintf p rule (UpHeader up) ev h')"
    "Flagged (scanBody body (AnomalyCfg p)) \<Longrightarrow>
       emitAnomaly (Method req) (forward_host req) (Path (URL req)) (scanBody body (AnomalyCfg p)) \<in> set ev"
proof -
  let ?d = "Decide (Cfg p) (Method req) (forward_host req) (Path (URL req))"
  have F: "Forward sprintf url_ok p req = (if DMode ?d = ModeDeny then (Inl (Denied (forward_host req)), [])
      else case readBounded (AnomalyCfg p) (ReqBody req) of None \<Rightarrow> (Inl ReadBody, [])
         | Some body \<Rightarrow>
             let res = scanBody body (AnomalyCfg p);
                 ev = (if Flagged res then [emitAnomaly (Method req) (forward_host req) (Path (URL req)) res] else [])
             in case buildUpstream url_ok req (forward_host req) body of
                  Inl e \<Rightarrow> (Inl e, ev)
                | Inr up \<Rightarrow>
                    (case (DMode ?d, Inject ?d) of
                       (ModeTerminate, Some rule) \<Rightarrow>
                         let (up', ev') = injectHeader sprintf p up rule in (Inr up', ev @ ev')
                     | _ \<Rightarrow> (Inr up, ev)))"
    unfolding Forward_def forward_host_def Let_def by (rule refl)
  from assms F have nd: "DMode ?d \<noteq> ModeDeny" by (auto split: if_splits)
  with assms F obtain body where b: "readBounded (AnomalyCfg p) (ReqBody req) = Some body"
    by (auto split: option.splits)
  with nd assms F obtain up where up: "buildUpstream url_ok req (forward_host req) body = Inr up"
    by (auto simp: Let_def split: sum.splits)
  define ev0 where "ev0 = (if Flagged (scanBody body (AnomalyCfg p))
    then [emitAnomaly (Method req) (forward_host req) (Path (URL req)) (scanBody body (AnomalyCfg p))] else [])"
  have "Forward sprintf url_ok p req = (case (DMode ?d, Inject ?d) of
      (ModeTerminate, Some rule) \<Rightarrow> let (up', ev') = injectHeader sprintf p up rule in (Inr up', ev0 @ ev')
    | _ \<Rightarrow> (Inr up, ev0))"
    unfolding F using nd b up by (simp only: if_False option.case sum.case Let_def ev0_def)
  note G = trans [OF assms [symmetric] this]
  show ?thesis
  proof (cases "DMode ?d = ModeTerminate \<and> Inject ?d \<noteq> None")
    case True
    then obtain rule where rl: "DMode ?d = ModeTerminate" "Inject ?d = Some rule" by auto
    obtain up' ev' where i: "injectHeader sprintf p up rule = (up', ev')" by (cases "injectHeader sprintf p up rule")
    have u: "u = up'" "ev = ev0 @ ev'" using G rl i by simp_all
    have c: "u = up \<or> (\<exists>rule h'. DMode ?d = ModeTerminate \<and> Inject ?d = Some rule \<and>
        u = up\<lparr>UpHeader := h'\<rparr> \<and> injected sprintf p rule (UpHeader up) ev h')"
      using injectHeader_cases [OF i] rl u unfolding injected_def by fastforce
    show ?thesis by (rule that [OF b up c]) (simp add: u ev0_def)
  next
    case False
    then have u: "u = up" "ev = ev0" using G by (auto split: proxy_mode.splits option.splits)
    show ?thesis by (rule that [OF b up]) (simp_all add: u ev0_def)
  qed
qed


subsection \<open>What the tunnel looks at\<close>

lemma peek_record:
  assumes "u16 x y = length hs" "5 + length hs \<le> maxClientHello"
  shows "peekClientHello ([a, b, c, x, y] @ hs @ rest) = Some ([a, b, c, x, y] @ hs, rest)"
proof -
  have n: "([a, b, c, x, y] @ hs @ rest) ! 3 = x" "([a, b, c, x, y] @ hs @ rest) ! 4 = y"
    by (simp_all add: nth_append)
  have "min (5 + u16 x y) maxClientHello = length ([a, b, c, x, y] @ hs)" using assms by simp
  then show ?thesis
    by (simp only: peekClientHello_def Let_def n append_assoc [symmetric]) (simp add: n)
qed

lemma servePassthrough_hello:
  assumes "length hello \<le> maxClientHello" "hello = [a, b, c, x, y] @ hs" "u16 x y = length hs"
    and "dial host = Some True"
  shows "servePassthrough dial p host (hello @ rest) =
    (case sniFromClientHello hello of
       Some n \<Rightarrow> if Allowed (Cfg p) n \<and> n = host
                 then (stop None)\<lparr>Tunnel := Some (host, hello @ rest)\<rparr> else stop (Some (Denied host))
     | None \<Rightarrow> (stop None)\<lparr>Tunnel := Some (host, hello @ rest)\<rparr>)"
proof -
  have "peekClientHello (hello @ rest) = Some (hello, rest)"
    using peek_record [OF assms(3), of a b c rest] assms(1,2) by simp
  then show ?thesis
    using assms(4) by (auto simp: servePassthrough_def split: option.splits)
qed

text \<open>The same handshake bytes in two records, the first of \<open>k\<close> bytes; RFC 8446 5.1 allows it.\<close>

definition split_hello :: "nat \<Rightarrow> string \<Rightarrow> string" where
  "split_hello k hello =
     (let hs = drop 5 hello
      in [CHR 0x16, byte 3, byte 1] @ field16 (take k hs) @ [CHR 0x16, byte 3, byte 1] @ field16 (drop k hs))"

lemma sni_of_short_handshake: "length hs < 38 \<Longrightarrow> sni_of_handshake hs = None"
  by (auto simp: sni_of_handshake_def Let_def)

lemma servePassthrough_split:
  assumes "k < 38" "dial host = Some True"
  shows "servePassthrough dial p host (split_hello k hello @ rest) =
    (stop None)\<lparr>Tunnel := Some (host, split_hello k hello @ rest)\<rparr>"
proof -
  define t where "t = take k (drop 5 hello)"
  define r where "r = [CHR 0x16, byte 3, byte 1] @ field16 (drop k (drop 5 hello)) @ rest"
  have l: "length t < 38" using assms(1) by (simp add: t_def)
  let ?b = "[CHR 0x16, byte 3, byte 1, byte (length t div 256), byte (length t mod 256)] @ t"
  have s: "split_hello k hello @ rest = ?b @ r"
    by (simp only: split_hello_def Let_def t_def [symmetric] r_def field16_def put16_def append_assoc append.simps)
  have u: "u16 (byte (length t div 256)) (byte (length t mod 256)) = length t"
    using l by (intro u16_put16) simp
  have "sniFromClientHello ?b = None"
    using sni_of_record [OF u] sni_of_short_handshake [OF l] by (simp only:)
  moreover have "length ?b \<le> maxClientHello" using l by (simp add: maxClientHello_def)
  ultimately show ?thesis
    unfolding s
    using servePassthrough_hello [where hello = ?b and hs = t and dial = dial and host = host and p = p
        and rest = r, OF _ refl u assms(2)] by simp
qed

lemma sint_plus_one: "sint (w + 1 :: 64 word) \<le> sint w + 1"
proof -
  have "- 9223372036854775808 \<le> sint w" using sint_ge [of w] by simp
  then show ?thesis by (simp add: sint_word_ariths signed_take_bit_int_less_eq_self_iff)
qed

lemma upload_cap_pos: "0 < sint (upload_cap a)"
  by (simp add: upload_cap_def)

lemma readBounded_take:
  assumes "readBounded a (Some r) = Some body"
  shows "body = take (nat (sint (upload_cap a + 1))) (Data r)"
  using assms by (auto simp: readBounded_def limit_read_def split: if_splits)

lemma scanBody_capped:
  "sint (upload_cap a) \<le> int (length b) \<Longrightarrow> Capped (scanBody b a) \<and> Flagged (scanBody b a)"
  by (simp add: scanBody_def Let_def)

lemma buildUpstream_fields:
  "buildUpstream url_ok req host body = Inr up \<Longrightarrow>
     UpBody up = body \<and> ContentLength up = int (length body) \<and> UpMethod up = Method req \<and>
     UpHeader up = header_copy (ReqHeader req) \<and>
     UpURL up = (if Scheme (URL req) = [] then ''https'' else Scheme (URL req)) @ ''://'' @ host @ RequestURI (URL req)"
  by (auto simp: buildUpstream_def Let_def split: if_splits)

subsection \<open>Properties\<close>












text \<open>
  The tunnel follows the name in the ClientHello. For a host that is not terminated and a
  well-formed ClientHello in one record of at most 16 KiB, the connection is tunnelled exactly
  when the name is the CONNECT host; the upstream is then sent the client's bytes as they are, and
  no request is read from them. Otherwise nothing is dialled.
\<close>

theorem tunnel_follows_sni:
  fixes n pre post vr sid suites compr
  defines "hello \<equiv> client_hello vr sid suites compr (pre @ (0, server_name n) # post)"
  assumes "Allowed (Cfg p) (hostname authority)" "\<not> hostTerminates p (hostname authority)"
    and "dial (hostname authority) = Some True"
    and "length vr = 34" "length sid < 256" "length compr < 256" "length n < 65530"
    and "\<forall>e \<in> set pre. 0 < fst e \<and> fst e < 65536 \<and> length (snd e) < 65536"
    and "length hello \<le> maxClientHello"
  shows "ServeCONNECT sprintf url_ok upstream tls dial p authority (hello @ rest) =
    (if to_lower n = hostname authority
     then (stop None)\<lparr>Tunnel := Some (hostname authority, hello @ rest)\<rparr>
     else stop (Some (Denied (hostname authority))))"
proof -
  have l: "length hello < 65536" using assms(10) by (simp add: maxClientHello_def)
  from client_hello_record [OF l [unfolded hello_def]] obtain hs x y where
    h: "hello = [CHR 0x16, byte 3, byte 1, x, y] @ hs" "u16 x y = length hs"
    unfolding hello_def by metis
  have "sniFromClientHello hello = Some (to_lower n)"
    unfolding hello_def sni_of_hello [OF assms(5-7) l [unfolded hello_def]]
    by (rule extension_list_hello [OF assms(9,8)])
  then show ?thesis
    using servePassthrough_hello [where p = p and rest = rest and hello = hello and hs = hs and x = x and y = y
        and dial = dial and host = "hostname authority", OF assms(10) h assms(4)] assms(2,3)
    by (auto simp: ServeCONNECT_def Let_def)
qed

definition github_proxy :: proxy where
  "github_proxy = \<lparr>Cfg = \<lparr>allow_hosts = [''github.com''], never_mitm = [], inject_rules = []\<rparr>, HasCA = True,
     Brk = None, Grants = [], AnomalyCfg = \<lparr>UploadCap = 0, EntropyThreshold = 0\<rparr>\<rparr>"

lemma github_proxy_simps:
  "hostname ''github.com:443'' = ''github.com''" "Allowed (Cfg github_proxy) ''github.com''"
  "\<not> hostTerminates github_proxy ''github.com''"
  by code_simp+

definition hello_for :: "string \<Rightarrow> string" where
  "hello_for n = client_hello (replicate 34 (CHR ''r'')) [] ''ss'' ''c'' ([] @ (0, server_name n) # [])"

lemma length_hello_for: "length (hello_for ''evil.example'') \<le> maxClientHello"
  by (simp add: hello_for_def client_hello_def Let_def extension_def server_name_def name_entry_def maxClientHello_def)

lemma evil_is_not_github: "to_lower ''evil.example'' \<noteq> ''github.com''"
  by code_simp

theorem tunnel_follows_sni_witness:
  "ServeCONNECT (\<lambda>f v. v) (\<lambda>_. True) (\<lambda>_. Inl []) (\<lambda>_ _. None) (\<lambda>_. Some True) github_proxy
     ''github.com:443'' (hello_for ''evil.example'' @ ''data'') = stop (Some (Denied ''github.com''))"
  using tunnel_follows_sni [where n = "''evil.example''" and p = github_proxy and authority = "''github.com:443''"
      and vr = "replicate 34 (CHR ''r'')" and sid = "[]" and suites = "''ss''" and compr = "''c''" and pre = "[]"
      and post = "[]" and rest = "''data''" and dial = "\<lambda>_. Some True" and sprintf = "\<lambda>f v. v"
      and url_ok = "\<lambda>_. True" and upstream = "\<lambda>_. Inl []" and tls = "\<lambda>_ _. None",
      folded hello_for_def, unfolded github_proxy_simps(1)]
    github_proxy_simps length_hello_for evil_is_not_github
  by simp

text \<open>
  The name check is lost when the ClientHello is split over two TLS records. A connection whose
  ClientHello names another server is refused; the same handshake bytes, with at most 37 of them in
  the first record, are tunnelled to the host, whatever the name in them is.
\<close>

theorem split_hello_is_not_checked:
  fixes n vr sid suites compr
  defines "hello \<equiv> client_hello vr sid suites compr ([] @ (0, server_name n) # [])"
  assumes "Allowed (Cfg p) (hostname authority)" "\<not> hostTerminates p (hostname authority)"
    and "dial (hostname authority) = Some True" "to_lower n \<noteq> hostname authority"
    and "length vr = 34" "length sid < 256" "length compr < 256" "length n < 65530"
    and "length hello \<le> maxClientHello" "k < 38"
  shows "ServeCONNECT sprintf url_ok upstream tls dial p authority (hello @ rest) =
      stop (Some (Denied (hostname authority))) \<and>
    ServeCONNECT sprintf url_ok upstream tls dial p authority (split_hello k hello @ rest) =
      (stop None)\<lparr>Tunnel := Some (hostname authority, split_hello k hello @ rest)\<rparr>"
proof
  have l: "length hello < 65536" using assms(10) by (simp add: maxClientHello_def)
  from client_hello_record [OF l [unfolded hello_def]] obtain hs x y where
    h: "hello = [CHR 0x16, byte 3, byte 1, x, y] @ hs" "u16 x y = length hs"
    unfolding hello_def by metis
  have "sniFromClientHello hello = Some (to_lower n)"
    unfolding hello_def using l [unfolded hello_def] assms(6-9) extension_list_hello [of "[]" n "[]"]
    by (simp add: sni_of_hello)
  then show "ServeCONNECT sprintf url_ok upstream tls dial p authority (hello @ rest) =
      stop (Some (Denied (hostname authority)))"
    using servePassthrough_hello [where p = p and rest = rest and hello = hello and hs = hs and x = x and y = y
        and dial = dial and host = "hostname authority", OF assms(10) h assms(4)] assms(2,3,5)
    by (auto simp: ServeCONNECT_def Let_def)
  show "ServeCONNECT sprintf url_ok upstream tls dial p authority (split_hello k hello @ rest) =
      (stop None)\<lparr>Tunnel := Some (hostname authority, split_hello k hello @ rest)\<rparr>"
    using servePassthrough_split [where dial = dial and host = "hostname authority", OF assms(11,4)] assms(2,3) by (simp add: ServeCONNECT_def Let_def)
qed

theorem split_hello_is_not_checked_witness:
  "ServeCONNECT (\<lambda>f v. v) (\<lambda>_. True) (\<lambda>_. Inl []) (\<lambda>_ _. None) (\<lambda>_. Some True) github_proxy
     ''github.com:443'' (split_hello 7 (hello_for ''evil.example'') @ ''data'') =
   (stop None)\<lparr>Tunnel := Some (''github.com'', split_hello 7 (hello_for ''evil.example'') @ ''data'')\<rparr>"
  using split_hello_is_not_checked [where n = "''evil.example''" and p = github_proxy and authority = "''github.com:443''"
      and vr = "replicate 34 (CHR ''r'')" and sid = "[]" and suites = "''ss''" and compr = "''c''"
      and rest = "''data''" and dial = "\<lambda>_. Some True" and sprintf = "\<lambda>f v. v" and k = 7
      and url_ok = "\<lambda>_. True" and upstream = "\<lambda>_. Inl []" and tls = "\<lambda>_ _. None",
      folded hello_for_def, unfolded github_proxy_simps(1)]
    github_proxy_simps length_hello_for evil_is_not_github
  by simp

text \<open>
  What of a body is forwarded. The request that goes upstream carries the first cap + 1 bytes
  of the sandbox's body and says that this is all of it: a longer body is cut, with an anomaly
  event, and forwarded. With a cap of 2^63 - 1 the sum wraps and the body is dropped.
\<close>

theorem forwarded_body_is_cut:
  assumes "Forward sprintf url_ok p req = (Inr u, ev)" "ReqBody req = Some r"
  shows "UpBody u = take (nat (sint (upload_cap (AnomalyCfg p) + 1))) (Data r) \<and>
    ContentLength u = int (length (UpBody u)) \<and>
    ContentLength u \<le> sint (upload_cap (AnomalyCfg p)) + 1 \<and>
    (sint (upload_cap (AnomalyCfg p)) \<le> ContentLength u \<longrightarrow>
       (\<exists>host path why entropy. Anomaly host (Method req) path why (ContentLength u) entropy True \<in> set ev)) \<and>
    (upload_cap (AnomalyCfg p) = 9223372036854775807 \<longrightarrow> UpBody u = [])"
proof -
  let ?a = "AnomalyCfg p"
  from Forward_sent [OF assms(1)] obtain body up where
    b: "readBounded ?a (ReqBody req) = Some body" and up: "buildUpstream url_ok req (forward_host req) body = Inr up"
    and c: "u = up \<or> (\<exists>rule h'. u = up\<lparr>UpHeader := h'\<rparr>)"
    and e: "Flagged (scanBody body ?a) \<Longrightarrow>
       emitAnomaly (Method req) (forward_host req) (Path (URL req)) (scanBody body ?a) \<in> set ev" by metis
  have body: "UpBody u = body" "ContentLength u = int (length body)"
    using c buildUpstream_fields [OF up] by auto
  have t: "body = take (nat (sint (upload_cap ?a + 1))) (Data r)"
    using b assms(2) by (intro readBounded_take) simp
  have "int (length body) \<le> sint (upload_cap ?a) + 1"
    using sint_plus_one [of "upload_cap ?a"] upload_cap_pos [of ?a] unfolding t by simp
  moreover have "\<exists>host path why entropy. Anomaly host (Method req) path why (ContentLength u) entropy True \<in> set ev"
    if "sint (upload_cap ?a) \<le> ContentLength u"
  proof -
    have s: "Capped (scanBody body ?a)" "Flagged (scanBody body ?a)" "Bytes (scanBody body ?a) = int (length body)"
      using that body scanBody_capped [of ?a body] by (simp_all add: scanBody_def Let_def)
    from e [OF s(2)] show ?thesis unfolding emitAnomaly_def using s(1,3) body(2) by auto
  qed
  moreover have "body = []" if "upload_cap ?a = 9223372036854775807"
    unfolding t that by simp
  ultimately show ?thesis using t body by simp
qed

definition capped_proxy :: proxy where
  "capped_proxy = github_proxy\<lparr>AnomalyCfg := \<lparr>UploadCap = 3, EntropyThreshold = 0\<rparr>\<rparr>"

definition upload :: request where
  "upload = \<lparr>Method = ''PUT'', ReqHost = ''github.com'', URL = \<lparr>Scheme = ''https'', UrlHost = [], Path = ''/x'',
     RequestURI = ''/x''\<rparr>, ReqHeader = [], ReqBody = Some \<lparr>Data = ''abcdefgh'', Fails = False\<rparr>, ReqClose = False\<rparr>"

theorem forwarded_body_is_cut_witness:
  "\<exists>u ev. Forward (\<lambda>f v. v) (\<lambda>_. True) capped_proxy upload = (Inr u, ev) \<and> UpBody u = ''abcd'' \<and> ContentLength u = 4"
proof -
  have d: "DMode (Decide (Cfg capped_proxy) (Method upload) ''github.com'' ''/x'') = ModePassthrough"
    "Inject (Decide (Cfg capped_proxy) (Method upload) ''github.com'' ''/x'') = None"
    by code_simp+
  have h: "forward_host upload = ''github.com''" by code_simp
  obtain u ev where f: "Forward (\<lambda>f v. v) (\<lambda>_. True) capped_proxy upload = (Inr u, ev)"
  proof -
    have "\<exists>u ev. Forward (\<lambda>f v. v) (\<lambda>_. True) capped_proxy upload = (Inr u, ev)"
      unfolding Forward_def forward_host_def [symmetric] h
      using d by (simp add: Let_def upload_def capped_proxy_def readBounded_def limit_read_def upload_cap_def
          buildUpstream_def)
    with that show ?thesis by blast
  qed
  have "ReqBody upload = Some \<lparr>Data = ''abcdefgh'', Fails = False\<rparr>" by (simp add: upload_def)
  from forwarded_body_is_cut [OF f this] f show ?thesis
    by (intro exI [of _ u] exI [of _ ev]) (simp add: capped_proxy_def upload_cap_def)
qed

end
