(* ===== verification/Net_Rules.thy ===== *)
theory Net_Rules
  imports Ops_Prelude "HOL-Library.Word"
begin

text \<open>
  \<^verbatim>\<open>internal/session/egress/ruleset.go\<close>: the nftables script of one session. \<open>session_table\<close> is its
  content as data, \<open>buildApplyScript\<close> the text that is handed to nft. \<open>eval\<close> is the meaning of a
  chain: the first rule that matches a packet decides, and the policy at the end accepts; a match on
  an address of one family never matches a packet of the other. \<^verbatim>\<open>netip.ParseAddr\<close> and
  \<^verbatim>\<open>Addr.String\<close> are the parameters \<open>parse_addr\<close> and \<open>show_addr\<close>.
\<close>

subsection \<open>Addresses (net/netip)\<close>

datatype addr = NoAddr | V4 "32 word" | V6 "128 word" string

definition IsValid :: "addr \<Rightarrow> bool" where "IsValid a \<longleftrightarrow> a \<noteq> NoAddr"

definition Is4 :: "addr \<Rightarrow> bool" where "Is4 a \<longleftrightarrow> (case a of V4 _ \<Rightarrow> True | _ \<Rightarrow> False)"

definition Unmap :: "addr \<Rightarrow> addr" where
  "Unmap a = (case a of V6 w z \<Rightarrow> if drop_bit 32 w = 0xFFFF then V4 (ucast w) else a | _ \<Rightarrow> a)"

fun addr_key :: "addr \<Rightarrow> nat \<times> nat \<times> string" where
  "addr_key NoAddr = (0, 0, [])"
| "addr_key (V4 w) = (32, unat w, [])"
| "addr_key (V6 w z) = (128, unat w, z)"

lemma addr_key_inject [simp]: "addr_key a = addr_key b \<longleftrightarrow> a = b"
  by (cases a; cases b) (auto simp: word_unat_eq_iff)

instantiation addr :: linorder
begin

definition less_eq_addr :: "addr \<Rightarrow> addr \<Rightarrow> bool" where "less_eq_addr a b \<longleftrightarrow> addr_key a \<le> addr_key b"
definition less_addr :: "addr \<Rightarrow> addr \<Rightarrow> bool" where "less_addr a b \<longleftrightarrow> addr_key a < addr_key b"

instance
  by intro_classes (auto simp: less_eq_addr_def less_addr_def less_le_not_le simp del: less_eq_prod_simp less_prod_simp)

end

lemma Unmap_Unmap [simp]: "Unmap (Unmap a) = Unmap a"
  by (simp add: Unmap_def split: addr.split)

lemma IsValid_Unmap [simp]: "IsValid (Unmap a) = IsValid a"
  by (auto simp: Unmap_def IsValid_def split: addr.split)

subsection \<open>Names and sets\<close>

definition id_char :: "char \<Rightarrow> bool" where
  "id_char r \<longleftrightarrow> (CHR ''a'' \<le> r \<and> r \<le> CHR ''z'') \<or> (CHR ''A'' \<le> r \<and> r \<le> CHR ''Z'') \<or>
     (CHR ''0'' \<le> r \<and> r \<le> CHR ''9'') \<or> r = CHR ''_''"

definition sanitizeID :: "string \<Rightarrow> string" where
  "sanitizeID s = (if s = [] then ''anon'' else map (\<lambda>r. if id_char r then r else CHR ''_'') s)"

definition tableName :: "string \<Rightarrow> string" where
  "tableName sessionID = ''opslify_sess_'' @ sanitizeID sessionID"

definition splitFamilies :: "addr list \<Rightarrow> addr list \<times> addr list" where
  "splitFamilies ips =
     (let us = map Unmap (filter IsValid ips)
      in (canon (filter Is4 us), canon (filter (\<lambda>a. \<not> Is4 a) us)))"

subsection \<open>The rules of a session\<close>

record SessionNet =
  NetSession :: string
  SandboxIP :: string
  Bridge :: string
  GatewayIP :: string
  LocalTCPPorts :: "int list"

definition DefaultBridge :: string where "DefaultBridge = ''opslify0''"

definition bridge :: "SessionNet \<Rightarrow> string" where
  "bridge n = (if Bridge n = [] then DefaultBridge else Bridge n)"

datatype nft_rule =
    IifNotAccept string
  | SaddrNotAccept addr
  | EstablishedAccept
  | UdpDportDrop int
  | TcpDportDrop int
  | DaddrAllow4Accept
  | DaddrAllow6Accept
  | DaddrPortsAccept addr "int list"
  | Drop

record nft_table =
  TblName :: string
  Allow4 :: "addr list"
  Allow6 :: "addr list"
  EgressChain :: "nft_rule list"
  HostInputChain :: "nft_rule list"

definition writeSandboxScope :: "(string \<Rightarrow> addr option) \<Rightarrow> string \<Rightarrow> string \<Rightarrow> nft_rule list" where
  "writeSandboxScope parse_addr br sandboxIP =
     IifNotAccept br #
     (if sandboxIP = [] then []
      else case parse_addr sandboxIP of None \<Rightarrow> [] | Some ip \<Rightarrow> [SaddrNotAccept (Unmap ip)])"

definition gateway_ports :: "int list \<Rightarrow> int list" where
  "gateway_ports ports = dedup [] (filter (\<lambda>p. 0 < p \<and> p \<le> 65535 \<and> p \<noteq> 53) ports)"

definition writeGatewayPortAllow :: "(string \<Rightarrow> addr option) \<Rightarrow> string \<Rightarrow> int list \<Rightarrow> nft_rule list" where
  "writeGatewayPortAllow parse_addr gatewayIP ports =
     (if gatewayIP = [] \<or> ports = [] then []
      else case parse_addr gatewayIP of None \<Rightarrow> []
      | Some gw \<Rightarrow> if gateway_ports ports = [] then [] else [DaddrPortsAccept (Unmap gw) (gateway_ports ports)])"

definition session_table :: "(string \<Rightarrow> addr option) \<Rightarrow> SessionNet \<Rightarrow> addr list \<Rightarrow> nft_table" where
  "session_table parse_addr n ips =
     (let (v4, v6) = splitFamilies ips; br = bridge n;
          scope = writeSandboxScope parse_addr br (SandboxIP n)
      in \<lparr>TblName = tableName (NetSession n), Allow4 = v4, Allow6 = v6,
          EgressChain = scope @ [EstablishedAccept, UdpDportDrop 53, TcpDportDrop 53,
            DaddrAllow4Accept, DaddrAllow6Accept, Drop],
          HostInputChain = scope @ [EstablishedAccept, UdpDportDrop 53, TcpDportDrop 53] @
            writeGatewayPortAllow parse_addr (GatewayIP n) (LocalTCPPorts n) @ [Drop]\<rparr>)"

subsection \<open>The script\<close>

definition family :: "addr \<Rightarrow> string" where
  "family a = (if Is4 a then ''ip'' else ''ip6'')"

definition joinAddrs :: "(addr \<Rightarrow> string) \<Rightarrow> addr list \<Rightarrow> string" where
  "joinAddrs show_addr as = str_join '', '' (map show_addr as)"

definition tab :: string where "tab = [CHR 0x09]"
definition nl :: string where "nl = [CHR 0x0A]"

fun rule_text :: "(addr \<Rightarrow> string) \<Rightarrow> nft_rule \<Rightarrow> string" where
  "rule_text show_addr (IifNotAccept br) = ''iifname != '' @ [CHR 0x22] @ br @ [CHR 0x22] @ '' accept''"
| "rule_text show_addr (SaddrNotAccept a) = family a @ '' saddr != '' @ show_addr a @ '' accept''"
| "rule_text show_addr EstablishedAccept = ''ct state established,related accept''"
| "rule_text show_addr (UdpDportDrop p) = ''udp dport '' @ dec (nat p) @ '' drop''"
| "rule_text show_addr (TcpDportDrop p) = ''tcp dport '' @ dec (nat p) @ '' drop''"
| "rule_text show_addr DaddrAllow4Accept = ''ip daddr @allow4 accept''"
| "rule_text show_addr DaddrAllow6Accept = ''ip6 daddr @allow6 accept''"
| "rule_text show_addr (DaddrPortsAccept a ps) =
     family a @ '' daddr '' @ show_addr a @ '' tcp dport { '' @ str_join '', '' (map (\<lambda>p. dec (nat p)) ps) @ '' } accept''"
| "rule_text show_addr Drop = ''drop''"

definition set_text :: "(addr \<Rightarrow> string) \<Rightarrow> string \<Rightarrow> string \<Rightarrow> addr list \<Rightarrow> string" where
  "set_text show_addr name ty as =
     tab @ ''set '' @ name @ '' {'' @ nl @ tab @ tab @ ''type '' @ ty @ nl @
     (if as \<noteq> [] then tab @ tab @ ''elements = { '' @ joinAddrs show_addr as @ '' }'' @ nl else []) @
     tab @ ''}'' @ nl"

definition chain_text :: "(addr \<Rightarrow> string) \<Rightarrow> string \<Rightarrow> string \<Rightarrow> nft_rule list \<Rightarrow> string" where
  "chain_text show_addr name hook rules =
     tab @ ''chain '' @ name @ '' {'' @ nl @
     tab @ tab @ ''type filter hook '' @ hook @ '' priority filter; policy accept;'' @ nl @
     concat (map (\<lambda>r. tab @ tab @ rule_text show_addr r @ nl) rules) @
     tab @ ''}'' @ nl"

definition buildApplyScript ::
  "(string \<Rightarrow> addr option) \<Rightarrow> (addr \<Rightarrow> string) \<Rightarrow> SessionNet \<Rightarrow> addr list \<Rightarrow> string" where
  "buildApplyScript parse_addr show_addr n ips =
     (let t = session_table parse_addr n ips
      in ''add table inet '' @ TblName t @ nl @ ''delete table inet '' @ TblName t @ nl @
         ''table inet '' @ TblName t @ '' {'' @ nl @
         set_text show_addr ''allow4'' ''ipv4_addr'' (Allow4 t) @
         set_text show_addr ''allow6'' ''ipv6_addr'' (Allow6 t) @
         chain_text show_addr ''egress'' ''forward'' (EgressChain t) @
         chain_text show_addr ''host_input'' ''input'' (HostInputChain t) @
         ''}'' @ nl)"

definition buildTeardownScript :: "string \<Rightarrow> string" where
  "buildTeardownScript sessionID =
     (let tbl = tableName sessionID
      in ''add table inet '' @ tbl @ nl @ ''delete table inet '' @ tbl @ nl)"

subsection \<open>What the rules do to a packet\<close>

datatype proto = UDP | TCP | OtherProto

record packet =
  Iif :: string
  Src :: addr
  Dst :: addr
  Proto :: proto
  Dport :: int
  Tracked :: bool  \<comment> \<open>part of an established or related flow\<close>

datatype verdict2 = Accept | Dropped

fun rule_verdict :: "nft_table \<Rightarrow> packet \<Rightarrow> nft_rule \<Rightarrow> verdict2 option" where
  "rule_verdict t p (IifNotAccept br) = (if Iif p \<noteq> br then Some Accept else None)"
| "rule_verdict t p (SaddrNotAccept a) = (if Is4 (Src p) = Is4 a \<and> Src p \<noteq> a then Some Accept else None)"
| "rule_verdict t p EstablishedAccept = (if Tracked p then Some Accept else None)"
| "rule_verdict t p (UdpDportDrop n) = (if Proto p = UDP \<and> Dport p = n then Some Dropped else None)"
| "rule_verdict t p (TcpDportDrop n) = (if Proto p = TCP \<and> Dport p = n then Some Dropped else None)"
| "rule_verdict t p DaddrAllow4Accept = (if Is4 (Dst p) \<and> Dst p \<in> set (Allow4 t) then Some Accept else None)"
| "rule_verdict t p DaddrAllow6Accept = (if \<not> Is4 (Dst p) \<and> Dst p \<in> set (Allow6 t) then Some Accept else None)"
| "rule_verdict t p (DaddrPortsAccept a ps) =
     (if Dst p = a \<and> Proto p = TCP \<and> Dport p \<in> set ps then Some Accept else None)"
| "rule_verdict t p Drop = Some Dropped"

fun eval :: "nft_table \<Rightarrow> packet \<Rightarrow> nft_rule list \<Rightarrow> verdict2" where
  "eval t p [] = Accept"
| "eval t p (r # rs) = (case rule_verdict t p r of Some v \<Rightarrow> v | None \<Rightarrow> eval t p rs)"

definition forwarded :: "nft_table list \<Rightarrow> packet \<Rightarrow> bool" where
  "forwarded ts p \<longleftrightarrow> (\<forall>t \<in> set ts. eval t p (EgressChain t) = Accept)"

definition delivered :: "nft_table list \<Rightarrow> packet \<Rightarrow> bool" where
  "delivered ts p \<longleftrightarrow> (\<forall>t \<in> set ts. eval t p (HostInputChain t) = Accept)"

subsection \<open>Lemmas\<close>

lemma set_splitFamilies:
  "set (fst (splitFamilies ips)) = {a \<in> Unmap ` set ips. IsValid a \<and> Is4 a}"
  "set (snd (splitFamilies ips)) = {a \<in> Unmap ` set ips. IsValid a \<and> \<not> Is4 a}"
  by (auto simp: splitFamilies_def Let_def)

definition in_scope :: "(string \<Rightarrow> addr option) \<Rightarrow> SessionNet \<Rightarrow> packet \<Rightarrow> bool" where
  "in_scope parse_addr n p \<longleftrightarrow> Iif p = bridge n \<and>
     (SandboxIP n \<noteq> [] \<longrightarrow> (\<forall>ip. parse_addr (SandboxIP n) = Some ip \<longrightarrow>
        Is4 (Src p) = Is4 (Unmap ip) \<longrightarrow> Src p = Unmap ip))"

lemma eval_scope:
  "eval t p (writeSandboxScope parse_addr (bridge n) (SandboxIP n) @ rs) =
     (if in_scope parse_addr n p then eval t p rs else Accept)"
  by (auto simp: writeSandboxScope_def in_scope_def split: option.splits)

definition is_dns :: "packet \<Rightarrow> bool" where
  "is_dns p \<longleftrightarrow> Proto p \<in> {UDP, TCP} \<and> Dport p = 53"

lemma EgressChain_session:
  "EgressChain (session_table parse_addr n ips) =
     writeSandboxScope parse_addr (bridge n) (SandboxIP n) @ [EstablishedAccept, UdpDportDrop 53, TcpDportDrop 53,
       DaddrAllow4Accept, DaddrAllow6Accept, Drop]"
  by (simp add: session_table_def Let_def case_prod_beta)

lemma HostInputChain_session:
  "HostInputChain (session_table parse_addr n ips) =
     writeSandboxScope parse_addr (bridge n) (SandboxIP n) @ ([EstablishedAccept, UdpDportDrop 53, TcpDportDrop 53] @
       writeGatewayPortAllow parse_addr (GatewayIP n) (LocalTCPPorts n) @ [Drop])"
  by (simp add: session_table_def Let_def case_prod_beta)

lemma Allow_session:
  "Allow4 (session_table parse_addr n ips) = fst (splitFamilies ips)"
  "Allow6 (session_table parse_addr n ips) = snd (splitFamilies ips)"
  "TblName (session_table parse_addr n ips) = tableName (NetSession n)"
  by (simp_all add: session_table_def Let_def case_prod_beta)

lemma forward_verdict:
  assumes "IsValid (Dst p)"
  shows "eval (session_table parse_addr n ips) p (EgressChain (session_table parse_addr n ips)) = Accept \<longleftrightarrow>
    (in_scope parse_addr n p \<and> \<not> Tracked p \<longrightarrow> \<not> is_dns p \<and> Dst p \<in> Unmap ` set ips)"
  unfolding EgressChain_session eval_scope
  using assms by (auto simp: is_dns_def Allow_session set_splitFamilies)

definition gateway_open :: "(string \<Rightarrow> addr option) \<Rightarrow> SessionNet \<Rightarrow> packet \<Rightarrow> bool" where
  "gateway_open parse_addr n p \<longleftrightarrow> Proto p = TCP \<and> Dport p \<in> set (LocalTCPPorts n) \<and> 0 < Dport p \<and> Dport p \<le> 65535 \<and>
     GatewayIP n \<noteq> [] \<and> (\<exists>gw. parse_addr (GatewayIP n) = Some gw \<and> Dst p = Unmap gw)"

lemma set_gateway_ports: "set (gateway_ports ps) = {q \<in> set ps. 0 < q \<and> q \<le> 65535 \<and> q \<noteq> 53}"
  by (auto simp: gateway_ports_def)

lemma eval_gateway:
  "eval t p (writeGatewayPortAllow parse_addr (GatewayIP n) (LocalTCPPorts n) @ [Drop]) = Accept \<longleftrightarrow>
     gateway_open parse_addr n p \<and> Dport p \<noteq> 53"
proof (cases "GatewayIP n = [] \<or> LocalTCPPorts n = []")
  case True
  then show ?thesis by (auto simp: writeGatewayPortAllow_def gateway_open_def)
next
  case False
  show ?thesis
  proof (cases "parse_addr (GatewayIP n)")
    case None
    with False show ?thesis by (auto simp: writeGatewayPortAllow_def gateway_open_def)
  next
    case (Some gw)
    have "gateway_ports (LocalTCPPorts n) = [] \<longleftrightarrow> set (gateway_ports (LocalTCPPorts n)) = {}" by simp
    with False Some show ?thesis
      by (auto simp: writeGatewayPortAllow_def gateway_open_def set_gateway_ports)
  qed
qed

lemma input_verdict:
  "eval (session_table parse_addr n ips) p (HostInputChain (session_table parse_addr n ips)) = Accept \<longleftrightarrow>
    (in_scope parse_addr n p \<and> \<not> Tracked p \<longrightarrow> \<not> is_dns p \<and> gateway_open parse_addr n p)"
proof -
  let ?t = "session_table parse_addr n ips"
  have g: "eval ?t p (writeGatewayPortAllow parse_addr (GatewayIP n) (LocalTCPPorts n) @ [Drop]) = Accept \<longleftrightarrow>
      gateway_open parse_addr n p \<and> Dport p \<noteq> 53"
    by (rule eval_gateway)
  show ?thesis
    unfolding HostInputChain_session eval_scope
    using g by (auto simp: is_dns_def gateway_open_def)
qed

subsection \<open>Properties\<close>

text \<open>
  C23: What a sandbox can reach. With the tables of any set of sessions installed, a packet that a
  sandbox sends and that does not belong to an established flow is forwarded exactly when no table
  whose scope it is in closes it: it is not DNS and goes to an address pinned for that session. A
  packet to the host itself is delivered exactly when it goes to an open port of the gateway of every
  session whose scope it is in, and never to port 53. Packets outside every scope are untouched.
\<close>

theorem sandbox_reach:
  assumes "IsValid (Dst p)" "\<not> Tracked p"
  shows "(forwarded (map (\<lambda>(n, ips). session_table parse_addr n ips) sessions) p \<longleftrightarrow>
      (\<forall>(n, ips) \<in> set sessions. in_scope parse_addr n p \<longrightarrow> \<not> is_dns p \<and> Dst p \<in> Unmap ` set ips)) \<and>
    (delivered (map (\<lambda>(n, ips). session_table parse_addr n ips) sessions) p \<longleftrightarrow>
      (\<forall>(n, ips) \<in> set sessions. in_scope parse_addr n p \<longrightarrow> \<not> is_dns p \<and> gateway_open parse_addr n p))"
  using assms by (auto simp: forwarded_def delivered_def forward_verdict input_verdict)

definition quad :: "nat \<Rightarrow> addr" where "quad n = V4 (word_of_nat n)"

definition demo_parse :: "string \<Rightarrow> addr option" where
  "demo_parse s = (if s = ''10.0.0.2'' then Some (quad 2) else if s = ''10.0.0.1'' then Some (quad 1) else None)"

definition net_a :: SessionNet where
  "net_a = \<lparr>NetSession = ''a'', SandboxIP = ''10.0.0.2'', Bridge = [], GatewayIP = ''10.0.0.1'', LocalTCPPorts = [8080]\<rparr>"

definition syn :: "addr \<Rightarrow> int \<Rightarrow> packet" where
  "syn dst port = \<lparr>Iif = ''opslify0'', Src = quad 2, Dst = dst, Proto = TCP, Dport = port, Tracked = False\<rparr>"

theorem sandbox_reach_witness:
  "forwarded [session_table demo_parse net_a [quad 7]] (syn (quad 7) 443) \<and>
   \<not> forwarded [session_table demo_parse net_a [quad 7]] (syn (quad 8) 443) \<and>
   \<not> forwarded [session_table demo_parse net_a [quad 7]] (syn (quad 7) 53) \<and>
   delivered [session_table demo_parse net_a [quad 7]] (syn (quad 1) 8080)"
proof -
  have v: "IsValid (Dst (syn (quad k) q))" "\<not> Tracked (syn (quad k) q)" for k q
    by (simp_all add: syn_def IsValid_def quad_def)
  have s: "in_scope demo_parse net_a (syn d q)" for d q
    by (simp add: in_scope_def syn_def net_a_def bridge_def DefaultBridge_def demo_parse_def quad_def Unmap_def)
  have q: "quad 7 \<noteq> quad 8" "Unmap (quad k) = quad k" for k by (simp_all add: quad_def Unmap_def)
  have d: "is_dns (syn d 53)" "\<not> is_dns (syn d 443)" "\<not> is_dns (syn d 8080)" for d
    by (simp_all add: is_dns_def syn_def)
  have g: "gateway_open demo_parse net_a (syn (quad 1) 8080)"
    by (simp add: gateway_open_def syn_def net_a_def demo_parse_def quad_def Unmap_def)
  have dst: "Dst (syn x y) = x" for x y by (simp add: syn_def)
  show ?thesis
    using sandbox_reach [OF v, where parse_addr = demo_parse and sessions = "[(net_a, [quad 7])]"] s q d g
    by (simp add: dst)
qed

text \<open>
  A table without a sandbox address closes the listeners of every session. Once one session is
  programmed for the whole bridge and without gateway ports, as every session is when it is created
  while no address is known and as a warm one stays, no sandbox on that bridge reaches a
  listener of its own session on the gateway any more, whatever its own table opens.
\<close>

theorem unscoped_table_closes_gateways:
  assumes "IsValid (Dst p)" "\<not> Tracked p" "(n, ips) \<in> set sessions"
    and "SandboxIP n = []" "LocalTCPPorts n = []" "Iif p = bridge n"
  shows "\<not> delivered (map (\<lambda>(n, ips). session_table parse_addr n ips) sessions) p"
proof -
  have "\<not> gateway_open parse_addr n p" "in_scope parse_addr n p"
    using assms(4-6) by (simp_all add: gateway_open_def in_scope_def)
  with assms(1-3) show ?thesis by (force simp: delivered_def input_verdict)
qed

definition net_warm :: SessionNet where
  "net_warm = \<lparr>NetSession = ''w'', SandboxIP = [], Bridge = [], GatewayIP = [], LocalTCPPorts = []\<rparr>"

theorem unscoped_table_closes_gateways_witness:
  "\<not> delivered [session_table demo_parse net_a [], session_table demo_parse net_warm []] (syn (quad 1) 8080)"
  using unscoped_table_closes_gateways
    [where p = "syn (quad 1) 8080" and n = net_warm and ips = "[]" and sessions = "[(net_a, []), (net_warm, [])]"
       and parse_addr = demo_parse]
  by (simp add: syn_def IsValid_def quad_def net_warm_def bridge_def DefaultBridge_def)

end
