(* ===== verification/Net_Control.thy ===== *)
theory Net_Control
  imports Net_Rules
begin

text \<open>
  \<^verbatim>\<open>internal/session/egress\<close>: the resolver (\<^verbatim>\<open>resolver.go\<close>) and the controller (\<^verbatim>\<open>controller.go\<close>)
  that pins the addresses of the allowlist and programs the table of every session. Durations are
  integers. The answers of the DNS resolver are an argument of every refresh, \<^verbatim>\<open>nft -f\<close> is an outcome: it applies a script whole or
  not at all. Operations are cut where the code gives up its lock, so that they interleave.
\<close>

subsection \<open>Resolving the allowlist (resolver.go)\<close>

record Resolution =
  Addrs :: "addr list"
  RTTL :: int

definition DefaultTTL :: int where "DefaultTTL = 60000000000"

definition NewDefaultResolver :: "int \<Rightarrow> int" where
  "NewDefaultResolver ttl = (if ttl \<le> 0 then DefaultTTL else ttl)"

text \<open>\<^verbatim>\<open>DefaultResolver.Resolve\<close>: an address stands for itself; \<open>lookup\<close> is the DNS.\<close>

definition default_Resolve ::
  "(string \<Rightarrow> addr option) \<Rightarrow> (string \<Rightarrow> string + addr list) \<Rightarrow> int \<Rightarrow> string \<Rightarrow> string + Resolution" where
  "default_Resolve parse_addr lookup ttl host =
     (case parse_addr host of
        Some ip \<Rightarrow> Inr \<lparr>Addrs = [Unmap ip], RTTL = ttl\<rparr>
      | None \<Rightarrow> (case lookup host of
            Inl e \<Rightarrow> Inl e
          | Inr as \<Rightarrow> Inr \<lparr>Addrs = map Unmap as, RTTL = ttl\<rparr>))"

definition split_host_port :: "string \<Rightarrow> string option" where
  "split_host_port s =
     (let h = takeWhile (\<lambda>c. c \<noteq> CHR '':'') s
      in if CHR ''['' \<in> set s \<or> CHR '']'' \<in> set s then None else Some h)"

definition normalizeHost :: "string \<Rightarrow> string" where
  "normalizeHost entry =
     (let s = trim_space entry
      in if s = [] then []
         else
           let s = (case str_index s ''://'' of Some i \<Rightarrow> drop (i + 3) s | None \<Rightarrow> s);
               s = takeWhile (\<lambda>c. c \<noteq> CHR ''/'' \<and> c \<noteq> CHR ''?'') s
           in if has_prefix s ''['' \<and> CHR '']'' \<in> set s then takeWhile (\<lambda>c. c \<noteq> CHR '']'') (tl s)
              else if count_list s (CHR '':'') = 1
              then (case split_host_port s of Some h \<Rightarrow> h | None \<Rightarrow> s)
              else s)"

record resolve_acc =
  Out :: "addr list"
  Next :: int
  Errs :: "string list"
  Resolved :: nat

definition resolve_entry :: "(string \<Rightarrow> string + Resolution) \<Rightarrow> string \<Rightarrow> resolve_acc \<Rightarrow> resolve_acc" where
  "resolve_entry resolve entry acc =
     (let host = normalizeHost entry
      in if host = [] then acc
         else case resolve host of
           Inl e \<Rightarrow> acc\<lparr>Errs := Errs acc @ [e]\<rparr>
         | Inr r \<Rightarrow>
             acc\<lparr>Resolved := Resolved acc + 1,
                 Next := (if 0 < RTTL r \<and> RTTL r < Next acc then RTTL r else Next acc),
                 Out := Out acc @ dedup (Out acc) (filter IsValid (map Unmap (Addrs r)))\<rparr>)"

definition resolveAll ::
  "(string \<Rightarrow> string + Resolution) \<Rightarrow> string list \<Rightarrow> int \<Rightarrow> int \<Rightarrow> (string list + addr list) \<times> int" where
  "resolveAll resolve allowlist minTTL maxTTL =
     (let acc = fold (resolve_entry resolve) allowlist \<lparr>Out = [], Next = maxTTL, Errs = [], Resolved = 0\<rparr>;
          nxt = (if Next acc < minTTL then minTTL else Next acc);
          nxt = (if nxt > maxTTL then maxTTL else nxt)
      in if Resolved acc = 0 \<and> Errs acc \<noteq> [] then (Inl (Errs acc), nxt)
         else (Inr (sort (Out acc)), nxt))"

definition addrsEqual :: "addr list \<Rightarrow> addr list \<Rightarrow> bool" where
  "addrsEqual a b \<longleftrightarrow> length a = length b \<and> list_all2 (=) a b"

subsection \<open>The controller (controller.go)\<close>

text \<open>The resolver of the configuration is not a field here: what it answers changes from call to call.\<close>

record Config =
  Allowlist :: "string list"
  CBridge :: string
  MinRefresh :: int
  MaxRefresh :: int

definition with_defaults :: "Config \<Rightarrow> Config" where
  "with_defaults c =
     c\<lparr>CBridge := (if CBridge c = [] then DefaultBridge else CBridge c),
       MinRefresh := (if MinRefresh c \<le> 0 then 30000000000 else MinRefresh c),
       MaxRefresh := (if MaxRefresh c \<le> 0 then 3600000000000 else MaxRefresh c)\<rparr>"

text \<open>
  The state: the pin, the active sessions, the tables of the kernel by name, and the scripts that
  running operations have still to apply.
\<close>

datatype job =
    SetupJob SessionNet "addr list"
  | TeardownJob string
  | RefreshJob "SessionNet list" "addr list"

record net_state =
  Pinned :: "addr list"
  Active :: "string \<Rightarrow> SessionNet option"
  Kernel :: "string \<Rightarrow> nft_table option"
  Jobs :: "job list"

definition NewController :: net_state where
  "NewController = \<lparr>Pinned = [], Active = Map.empty, Kernel = Map.empty, Jobs = []\<rparr>"

text \<open>\<^verbatim>\<open>Runner.Apply\<close> of the two scripts: \<open>add\<close> and \<open>delete\<close> first, then the table.\<close>

definition apply_table :: "nft_table \<Rightarrow> bool \<Rightarrow> net_state \<Rightarrow> net_state" where
  "apply_table t ok s = (if ok then s\<lparr>Kernel := (Kernel s)(TblName t \<mapsto> t)\<rparr> else s)"

definition delete_table :: "string \<Rightarrow> bool \<Rightarrow> net_state \<Rightarrow> net_state" where
  "delete_table name ok s = (if ok then s\<lparr>Kernel := (Kernel s)(name := None)\<rparr> else s)"

definition setup_begin :: "Config \<Rightarrow> SessionNet \<Rightarrow> net_state \<Rightarrow> (SessionNet \<times> addr list) option \<times> net_state" where
  "setup_begin cfg n s =
     (if NetSession n = [] then (None, s)
      else let n = (if Bridge n = [] then n\<lparr>Bridge := CBridge cfg\<rparr> else n)
           in (Some (n, Pinned s), s\<lparr>Active := (Active s)(NetSession n \<mapsto> n)\<rparr>))"

definition setup_apply :: "(string \<Rightarrow> addr option) \<Rightarrow> SessionNet \<Rightarrow> addr list \<Rightarrow> bool \<Rightarrow> net_state \<Rightarrow> bool \<times> net_state" where
  "setup_apply parse_addr n ips ok s =
     (let s = apply_table (session_table parse_addr n ips) ok s
      in if ok then (True, s) else (False, s\<lparr>Active := (Active s)(NetSession n := None)\<rparr>))"

definition SetupSession ::
  "(string \<Rightarrow> addr option) \<Rightarrow> Config \<Rightarrow> SessionNet \<Rightarrow> bool \<Rightarrow> net_state \<Rightarrow> bool \<times> net_state" where
  "SetupSession parse_addr cfg n ok s =
     (case setup_begin cfg n s of
        (None, s) \<Rightarrow> (False, s)
      | (Some (n, ips), s) \<Rightarrow> setup_apply parse_addr n ips ok s)"

definition teardown_begin :: "string \<Rightarrow> net_state \<Rightarrow> net_state" where
  "teardown_begin i s = s\<lparr>Active := (Active s)(i := None)\<rparr>"

definition TeardownSession :: "string \<Rightarrow> bool \<Rightarrow> net_state \<Rightarrow> bool \<times> net_state" where
  "TeardownSession i ok s = (ok, delete_table (tableName i) ok (teardown_begin i s))"

text \<open>
  \<open>refreshOnce\<close> takes the new pin and a snapshot of the sessions under the lock; \<open>order\<close> is the order
  in which Go's map iteration yields them, \<open>resolve\<close> what the resolver answers at this refresh.
\<close>

definition refresh_begin ::
  "addr list \<Rightarrow> string list \<Rightarrow> net_state \<Rightarrow> SessionNet list option \<times> net_state" where
  "refresh_begin ips order s =
     (if addrsEqual ips (Pinned s) then (None, s)
      else (Some (List.map_filter (Active s) order), s\<lparr>Pinned := ips\<rparr>))"

fun refresh_apply :: "(string \<Rightarrow> addr option) \<Rightarrow> SessionNet list \<Rightarrow> addr list \<Rightarrow> bool list \<Rightarrow> net_state \<Rightarrow> net_state" where
  "refresh_apply parse_addr [] ips oks s = s"
| "refresh_apply parse_addr (n # ns) ips oks s =
     refresh_apply parse_addr ns ips (tl oks)
       (apply_table (session_table parse_addr n ips) (oks \<noteq> [] \<and> hd oks) s)"

definition refreshOnce ::
  "(string \<Rightarrow> addr option) \<Rightarrow> Config \<Rightarrow> (string \<Rightarrow> string + Resolution) \<Rightarrow> string list \<Rightarrow> bool list \<Rightarrow> net_state \<Rightarrow>
   (bool \<times> int) \<times> net_state" where
  "refreshOnce parse_addr cfg resolve order oks s =
     (case resolveAll resolve (Allowlist cfg) (MinRefresh cfg) (MaxRefresh cfg) of
        (Inl _, nxt) \<Rightarrow> ((False, nxt), s)
      | (Inr ips, nxt) \<Rightarrow>
          (case refresh_begin ips order s of
             (None, s) \<Rightarrow> ((True, nxt), s)
           | (Some ns, s) \<Rightarrow> ((True, nxt), refresh_apply parse_addr ns ips oks s)))"

text \<open>
  \<^verbatim>\<open>Start\<close> refreshes once and ignores a failure; the loop waits for the interval a refresh returned,
  but never less than the minimum.
\<close>

definition Start ::
  "(string \<Rightarrow> addr option) \<Rightarrow> Config \<Rightarrow> (string \<Rightarrow> string + Resolution) \<Rightarrow> string list \<Rightarrow> bool list \<Rightarrow> net_state \<Rightarrow> net_state" where
  "Start parse_addr cfg resolve order oks s = snd (refreshOnce parse_addr cfg resolve order oks s)"

definition loop_interval :: "Config \<Rightarrow> int \<Rightarrow> int" where
  "loop_interval cfg nxt = (if nxt < MinRefresh cfg then MinRefresh cfg else nxt)"

subsection \<open>Interleaved operations\<close>

text \<open>
  One step of the controller: an operation takes its locked part, or a running one applies its next
  script. The jobs of the state are the running operations, in any order.
\<close>

datatype net_step =
    BeginSetup SessionNet
  | BeginTeardown string
  | BeginRefresh "addr list" "string list"
  | RunJob nat bool

definition run_job :: "(string \<Rightarrow> addr option) \<Rightarrow> job \<Rightarrow> bool \<Rightarrow> net_state \<Rightarrow> job list \<times> net_state" where
  "run_job parse_addr j ok s =
     (case j of
        SetupJob n ips \<Rightarrow> ([], snd (setup_apply parse_addr n ips ok s))
      | TeardownJob i \<Rightarrow> ([], delete_table (tableName i) ok s)
      | RefreshJob ns ips \<Rightarrow>
          (case ns of [] \<Rightarrow> ([], s)
           | n # ns \<Rightarrow> ([RefreshJob ns ips], apply_table (session_table parse_addr n ips) ok s)))"

definition net_step :: "(string \<Rightarrow> addr option) \<Rightarrow> Config \<Rightarrow> net_step \<Rightarrow> net_state \<Rightarrow> net_state" where
  "net_step parse_addr cfg st s =
     (case st of
        BeginSetup n \<Rightarrow>
          (case setup_begin cfg n s of (None, s) \<Rightarrow> s | (Some (n, ips), s) \<Rightarrow> s\<lparr>Jobs := SetupJob n ips # Jobs s\<rparr>)
      | BeginTeardown i \<Rightarrow> (let s = teardown_begin i s in s\<lparr>Jobs := TeardownJob i # Jobs s\<rparr>)
      | BeginRefresh ips order \<Rightarrow>
          (case refresh_begin ips order s of (None, s) \<Rightarrow> s | (Some ns, s) \<Rightarrow> s\<lparr>Jobs := RefreshJob ns ips # Jobs s\<rparr>)
      | RunJob k ok \<Rightarrow>
          if k < length (Jobs s)
          then let (more, s') = run_job parse_addr (Jobs s ! k) ok s
               in s'\<lparr>Jobs := take k (Jobs s) @ more @ drop (Suc k) (Jobs s)\<rparr>
          else s)"

subsection \<open>What is resolved\<close>

definition entry_addrs :: "(string \<Rightarrow> string + Resolution) \<Rightarrow> string \<Rightarrow> addr set" where
  "entry_addrs resolve entry =
     (if normalizeHost entry = [] then {}
      else case resolve (normalizeHost entry) of Inl _ \<Rightarrow> {}
           | Inr r \<Rightarrow> {a \<in> Unmap ` set (Addrs r). IsValid a})"

definition entry_ttls :: "(string \<Rightarrow> string + Resolution) \<Rightarrow> string \<Rightarrow> int set" where
  "entry_ttls resolve entry =
     (if normalizeHost entry = [] then {}
      else case resolve (normalizeHost entry) of Inl _ \<Rightarrow> {} | Inr r \<Rightarrow> {t. t = RTTL r \<and> 0 < t})"

lemma resolve_entry_out:
  "set (Out (resolve_entry resolve e acc)) = set (Out acc) \<union> entry_addrs resolve e"
  "distinct (Out acc) \<Longrightarrow> distinct (Out (resolve_entry resolve e acc))"
  by (auto simp: resolve_entry_def entry_addrs_def Let_def split: sum.split)

lemma resolve_entry_next:
  "Next (resolve_entry resolve e acc) \<le> Next acc"
  "t \<in> entry_ttls resolve e \<Longrightarrow> Next (resolve_entry resolve e acc) \<le> t"
  "Next (resolve_entry resolve e acc) \<in> insert (Next acc) (entry_ttls resolve e)"
  by (auto simp: resolve_entry_def entry_ttls_def Let_def split: sum.splits if_splits)

lemma fold_resolve_out:
  "set (Out (fold (resolve_entry resolve) es acc)) = set (Out acc) \<union> (\<Union>e \<in> set es. entry_addrs resolve e)"
  by (induction es arbitrary: acc) (auto simp: resolve_entry_out)

lemma fold_resolve_distinct:
  "distinct (Out acc) \<Longrightarrow> distinct (Out (fold (resolve_entry resolve) es acc))"
  by (induction es arbitrary: acc) (auto simp: resolve_entry_out)

lemma fold_resolve_next:
  "Next (fold (resolve_entry resolve) es acc) \<le> Next acc \<and>
   (\<forall>e \<in> set es. \<forall>t \<in> entry_ttls resolve e. Next (fold (resolve_entry resolve) es acc) \<le> t)"
proof (induction es arbitrary: acc)
  case (Cons e es)
  have "Next (fold (resolve_entry resolve) es (resolve_entry resolve e acc)) \<le> Next (resolve_entry resolve e acc)"
    using Cons.IH by blast
  then show ?case using Cons.IH resolve_entry_next(1,2) by (fastforce intro: order_trans)
qed simp

lemma resolveAll_Inr:
  assumes "resolveAll resolve allowlist minTTL maxTTL = (Inr ips, nxt)"
  shows "set ips = (\<Union>e \<in> set allowlist. entry_addrs resolve e)" "sorted ips" "distinct ips"
proof -
  let ?acc = "fold (resolve_entry resolve) allowlist \<lparr>Out = [], Next = maxTTL, Errs = [], Resolved = 0\<rparr>"
  have ips: "ips = sort (Out ?acc)"
    using assms by (auto simp: resolveAll_def Let_def split: if_splits)
  show "set ips = (\<Union>e \<in> set allowlist. entry_addrs resolve e)" "sorted ips" "distinct ips"
    unfolding ips using fold_resolve_out fold_resolve_distinct by auto
qed

lemma resolveAll_next:
  assumes "resolveAll resolve allowlist minTTL maxTTL = (r, nxt)"
  shows "nxt \<le> maxTTL" "minTTL \<le> maxTTL \<Longrightarrow> minTTL \<le> nxt"
    "e \<in> set allowlist \<Longrightarrow> t \<in> entry_ttls resolve e \<Longrightarrow> nxt \<le> max minTTL t"
proof -
  let ?acc = "fold (resolve_entry resolve) allowlist \<lparr>Out = [], Next = maxTTL, Errs = [], Resolved = 0\<rparr>"
  have n: "nxt = (let n = (if Next ?acc < minTTL then minTTL else Next ?acc) in if n > maxTTL then maxTTL else n)"
    using assms by (auto simp: resolveAll_def Let_def split: if_splits)
  show "nxt \<le> maxTTL" "minTTL \<le> maxTTL \<Longrightarrow> minTTL \<le> nxt" unfolding n by (auto simp: Let_def)
  show "e \<in> set allowlist \<Longrightarrow> t \<in> entry_ttls resolve e \<Longrightarrow> nxt \<le> max minTTL t"
  proof -
    assume "e \<in> set allowlist" "t \<in> entry_ttls resolve e"
    then have "Next ?acc \<le> t" using fold_resolve_next by blast
    then show ?thesis unfolding n by (auto simp: Let_def)
  qed
qed

lemma addrsEqual_iff [simp]: "addrsEqual a b \<longleftrightarrow> a = b"
  by (auto simp: addrsEqual_def list.rel_eq)

subsection \<open>Every interleaving\<close>

definition run_steps :: "(string \<Rightarrow> addr option) \<Rightarrow> Config \<Rightarrow> net_step list \<Rightarrow> net_state" where
  "run_steps parse_addr cfg sts = fold (net_step parse_addr cfg) sts NewController"

definition step_ids :: "net_step \<Rightarrow> string set" where
  "step_ids st = (case st of BeginSetup n \<Rightarrow> {NetSession n} | BeginTeardown i \<Rightarrow> {i} | _ \<Rightarrow> {})"

text \<open>The names of sessions are nft identifiers, as the daemon generates them in hex.\<close>

definition clean_id :: "string \<Rightarrow> bool" where "clean_id i \<longleftrightarrow> sanitizeID i = i"

lemma tableName_inject: "clean_id i \<Longrightarrow> clean_id j \<Longrightarrow> tableName i = tableName j \<longleftrightarrow> i = j"
  by (simp add: tableName_def clean_id_def)

definition job_ids :: "job \<Rightarrow> string set" where
  "job_ids j = (case j of SetupJob n _ \<Rightarrow> {NetSession n} | TeardownJob i \<Rightarrow> {i} | RefreshJob ns _ \<Rightarrow> NetSession ` set ns)"

definition has_table :: "(string \<Rightarrow> addr option) \<Rightarrow> net_state \<Rightarrow> string \<Rightarrow> bool" where
  "has_table parse_addr s i \<longleftrightarrow>
     (\<exists>n ips. NetSession n = i \<and> Kernel s (tableName i) = Some (session_table parse_addr n ips))"

definition governed_inv :: "(string \<Rightarrow> addr option) \<Rightarrow> net_step list \<Rightarrow> net_state \<Rightarrow> bool" where
  "governed_inv parse_addr sts s \<longleftrightarrow>
     (\<forall>j \<in> set (Jobs s). \<forall>i \<in> job_ids j. clean_id i) \<and>
     (\<forall>i n. Active s i = Some n \<longrightarrow> NetSession n = i \<and> clean_id i) \<and>
     (\<forall>i. TeardownJob i \<in> set (Jobs s) \<longrightarrow> BeginTeardown i \<in> set sts) \<and>
     (\<forall>i. Active s i \<noteq> None \<and> BeginTeardown i \<notin> set sts \<longrightarrow>
        (\<exists>n ips. SetupJob n ips \<in> set (Jobs s) \<and> NetSession n = i) \<or> has_table parse_addr s i)"

lemma has_table_apply:
  assumes "clean_id (NetSession m)" "clean_id i"
  shows "has_table parse_addr s i \<Longrightarrow> has_table parse_addr (apply_table (session_table parse_addr m ips) ok s) i"
  using assms by (auto simp: has_table_def apply_table_def Allow_session tableName_inject)

lemma has_table_new:
  "has_table parse_addr (apply_table (session_table parse_addr m ips) True s) (NetSession m)"
  by (auto simp: has_table_def apply_table_def Allow_session)

lemma has_table_delete:
  "clean_id i \<Longrightarrow> clean_id j \<Longrightarrow> i \<noteq> j \<Longrightarrow> has_table parse_addr s i \<Longrightarrow>
     has_table parse_addr (delete_table (tableName j) ok s) i"
  by (auto simp: has_table_def delete_table_def tableName_inject)

lemma has_table_fields [simp]:
  "has_table parse_addr (s\<lparr>Active := a\<rparr>) i = has_table parse_addr s i"
  "has_table parse_addr (s\<lparr>Jobs := js\<rparr>) i = has_table parse_addr s i"
  "has_table parse_addr (s\<lparr>Pinned := ips\<rparr>) i = has_table parse_addr s i"
  by (simp_all add: has_table_def)

lemma table_ops_fields [simp]:
  "Active (apply_table t ok s) = Active s" "Jobs (apply_table t ok s) = Jobs s" "Pinned (apply_table t ok s) = Pinned s"
  "Active (delete_table n ok s) = Active s" "Jobs (delete_table n ok s) = Jobs s" "Pinned (delete_table n ok s) = Pinned s"
  by (simp_all add: apply_table_def delete_table_def)

lemma set_take_drop: "k < length xs \<Longrightarrow> set xs = set (take k xs) \<union> {xs ! k} \<union> set (drop (Suc k) xs)"
  by (metis Un_insert_right boolean_algebra_cancel.sup0 id_take_nth_drop list.simps(15) set_append Un_commute Un_insert_left)

lemma governed_begin:
  assumes inv: "governed_inv parse_addr sts s" and clean: "\<forall>i \<in> step_ids st. clean_id i"
    and st: "\<And>k ok. st \<noteq> RunJob k ok"
  shows "governed_inv parse_addr (sts @ [st]) (net_step parse_addr cfg st s)"
proof (cases st)
  case (BeginSetup n)
  define n' where "n' = (if Bridge n = [] then n\<lparr>Bridge := CBridge cfg\<rparr> else n)"
  have id: "NetSession n' = NetSession n" by (simp add: n'_def)
  show ?thesis
  proof (cases "NetSession n = []")
    case True
    then show ?thesis using inv BeginSetup by (simp add: net_step_def setup_begin_def governed_inv_def)
  next
    case False
    then have s': "net_step parse_addr cfg st s =
        s\<lparr>Active := (Active s)(NetSession n \<mapsto> n'), Jobs := SetupJob n' (Pinned s) # Jobs s\<rparr>"
      using BeginSetup id by (simp add: net_step_def setup_begin_def n'_def Let_def)
    have c: "clean_id (NetSession n)" using clean BeginSetup by (simp add: step_ids_def)
    have gov: "(\<exists>n ips. SetupJob n ips \<in> set (Jobs s) \<and> NetSession n = i) \<or> has_table parse_addr s i"
      if "Active s i \<noteq> None" "BeginTeardown i \<notin> set sts" for i using inv that by (simp add: governed_inv_def)
    show ?thesis
      unfolding s' governed_inv_def
    proof (intro conjI allI impI, goal_cases)
      case 1
      then show ?case using inv c id by (auto simp: governed_inv_def job_ids_def)
    next
      case (2 i m)
      then show ?case using inv id by (auto simp: governed_inv_def split: if_splits)
    next
      case (3 i m)
      then show ?case using inv c by (auto simp: governed_inv_def split: if_splits)
    next
      case (4 i)
      then show ?case using inv by (simp add: governed_inv_def)
    next
      case (5 i)
      show ?case
      proof (cases "i = NetSession n")
        case True
        then show ?thesis using id by auto
      next
        case False
        then have "Active s i \<noteq> None" "BeginTeardown i \<notin> set sts" using 5 by auto
        from gov [OF this] show ?thesis by auto
      qed
    qed
  qed
next
  case (BeginTeardown i)
  then show ?thesis
    using inv clean by (auto simp: net_step_def teardown_begin_def governed_inv_def job_ids_def step_ids_def Let_def)
next
  case (BeginRefresh ips order)
  have ids: "\<forall>i \<in> NetSession ` set (List.map_filter (Active s) order). clean_id i"
    using inv by (fastforce simp: governed_inv_def map_filter_def)
  show ?thesis
    using inv ids BeginRefresh
    by (auto simp: net_step_def refresh_begin_def governed_inv_def job_ids_def step_ids_def)
next
  case (RunJob k ok)
  then show ?thesis using st by blast
qed

lemma governed_run:
  assumes inv: "governed_inv parse_addr sts s"
  shows "governed_inv parse_addr (sts @ [RunJob k ok]) (net_step parse_addr cfg (RunJob k ok) s)"
proof (cases "k < length (Jobs s)")
  case False
  then show ?thesis using inv by (simp add: net_step_def governed_inv_def)
next
  case True
  define j where "j = Jobs s ! k"
  obtain more s1 where r: "run_job parse_addr j ok s = (more, s1)" by (cases "run_job parse_addr j ok s")
  define js where "js = take k (Jobs s) @ more @ drop (Suc k) (Jobs s)"
  have s': "net_step parse_addr cfg (RunJob k ok) s = s1\<lparr>Jobs := js\<rparr>"
    using True r by (simp add: net_step_def j_def js_def)
  have split: "set (Jobs s) = insert j (set (take k (Jobs s)) \<union> set (drop (Suc k) (Jobs s)))"
    using set_take_drop [OF True] by (auto simp: j_def)
  have jin: "j \<in> set (Jobs s)" using split by simp
  have other: "x \<in> set js" if "x \<in> set (Jobs s)" "x \<noteq> j" for x using that split by (auto simp: js_def)
  have sub: "set js \<subseteq> set (Jobs s) \<union> set more" using split by (auto simp: js_def)
  have cl: "\<forall>i \<in> job_ids j. clean_id i" using inv jin by (simp add: governed_inv_def)
  have act: "Active s i = Some n \<Longrightarrow> NetSession n = i \<and> clean_id i" for i n using inv by (simp add: governed_inv_def)
  have torn: "TeardownJob i \<in> set (Jobs s) \<Longrightarrow> BeginTeardown i \<in> set sts" for i using inv by (simp add: governed_inv_def)
  have gov: "(\<exists>n ips. SetupJob n ips \<in> set (Jobs s) \<and> NetSession n = i) \<or> has_table parse_addr s i"
    if "Active s i \<noteq> None" "BeginTeardown i \<notin> set sts" for i using inv that by (simp add: governed_inv_def)
  have act1: "Active s1 i = Some n \<Longrightarrow> Active s i = Some n" for i n
    using r by (cases j) (auto simp: run_job_def setup_apply_def Let_def split: if_splits list.splits)
  have more: "\<forall>x \<in> set more. job_ids x \<subseteq> job_ids j \<and> (\<forall>i. x \<noteq> TeardownJob i)"
    using r by (cases j) (auto simp: run_job_def job_ids_def split: list.splits)
  have key: "(\<exists>n ips. SetupJob n ips \<in> set js \<and> NetSession n = i) \<or> has_table parse_addr s1 i"
    if a: "Active s1 i \<noteq> None" and t: "BeginTeardown i \<notin> set sts" for i
  proof -
    from a act1 obtain n where n: "Active s i = Some n" by blast
    then have ci: "clean_id i" using act by blast
    show ?thesis
    proof (cases j)
      case (SetupJob m ips)
      show ?thesis
      proof (cases "NetSession m = i")
        case True
        have ok
        proof (rule ccontr)
          assume "\<not> ok"
          then have "Active s1 i = None" using r SetupJob True by (auto simp: run_job_def setup_apply_def Let_def)
          with a show False by simp
        qed
        then have "s1 = apply_table (session_table parse_addr m ips) True s"
          using r SetupJob by (simp add: run_job_def setup_apply_def Let_def)
        then show ?thesis using has_table_new True by metis
      next
        case False
        have m: "clean_id (NetSession m)" using cl SetupJob by (simp add: job_ids_def)
        have s1: "has_table parse_addr s i \<Longrightarrow> has_table parse_addr s1 i"
          using r SetupJob has_table_apply [OF m ci] by (auto simp: run_job_def setup_apply_def Let_def split: if_splits)
        from gov [OF _ t] n show ?thesis using s1 other SetupJob False by fastforce
      qed
    next
      case (TeardownJob l)
      then have "l \<noteq> i" using torn jin t by metis
      moreover have "clean_id l" using cl TeardownJob by (simp add: job_ids_def)
      ultimately have "has_table parse_addr s i \<Longrightarrow> has_table parse_addr s1 i"
        using r TeardownJob has_table_delete [OF ci] by (auto simp: run_job_def)
      with gov [OF _ t] n show ?thesis using other TeardownJob by fastforce
    next
      case (RefreshJob ns ips)
      have "has_table parse_addr s i \<Longrightarrow> has_table parse_addr s1 i"
        using r RefreshJob cl ci by (cases ns) (auto simp: run_job_def job_ids_def has_table_apply)
      with gov [OF _ t] n show ?thesis using other RefreshJob by fastforce
    qed
  qed
  show ?thesis
    unfolding s' governed_inv_def
  proof (intro conjI allI impI ballI)
    fix x i assume "x \<in> set (Jobs (s1\<lparr>Jobs := js\<rparr>))" "i \<in> job_ids x"
    then have "x \<in> set (Jobs s) \<or> (x \<in> set more \<and> i \<in> job_ids j)" using sub more by auto
    then show "clean_id i" using cl inv \<open>i \<in> job_ids x\<close> unfolding governed_inv_def by blast
  next
    fix i n assume "Active (s1\<lparr>Jobs := js\<rparr>) i = Some n"
    then show "NetSession n = i" "clean_id i" using act1 act by auto
  next
    fix i assume "TeardownJob i \<in> set (Jobs (s1\<lparr>Jobs := js\<rparr>))"
    then show "BeginTeardown i \<in> set (sts @ [RunJob k ok])" using sub more torn by fastforce
  next
    fix i assume "Active (s1\<lparr>Jobs := js\<rparr>) i \<noteq> None \<and> BeginTeardown i \<notin> set (sts @ [RunJob k ok])"
    then show "(\<exists>n ips. SetupJob n ips \<in> set (Jobs (s1\<lparr>Jobs := js\<rparr>)) \<and> NetSession n = i) \<or> has_table parse_addr (s1\<lparr>Jobs := js\<rparr>) i"
      using key by simp
  qed
qed

lemma governed_reachable:
  assumes "\<forall>st \<in> set sts. \<forall>i \<in> step_ids st. clean_id i"
  shows "governed_inv parse_addr sts (run_steps parse_addr cfg sts)"
  using assms
proof (induction sts rule: rev_induct)
  case Nil
  then show ?case by (simp add: run_steps_def NewController_def governed_inv_def)
next
  case (snoc st sts)
  then have i: "governed_inv parse_addr sts (run_steps parse_addr cfg sts)" by simp
  have r: "run_steps parse_addr cfg (sts @ [st]) = net_step parse_addr cfg st (run_steps parse_addr cfg sts)"
    by (simp add: run_steps_def)
  show ?case
  proof (cases "\<exists>k ok. st = RunJob k ok")
    case True
    then show ?thesis using governed_run [OF i] r by auto
  next
    case False
    then show ?thesis using governed_begin [OF i] snoc.prems r by simp
  qed
qed

subsection \<open>Whole operations\<close>

datatype net_op = OpSetup SessionNet | OpTeardown string | OpRefresh "string \<Rightarrow> string + Resolution" "string list"

text \<open>Operations that run one after the other, with every script applied.\<close>

definition net_op :: "(string \<Rightarrow> addr option) \<Rightarrow> Config \<Rightarrow> net_op \<Rightarrow> net_state \<Rightarrow> net_state" where
  "net_op parse_addr cfg op s =
     (case op of
        OpSetup n \<Rightarrow> snd (SetupSession parse_addr cfg n True s)
      | OpTeardown i \<Rightarrow> snd (TeardownSession i True s)
      | OpRefresh resolve order \<Rightarrow> snd (refreshOnce parse_addr cfg resolve order (replicate (length order) True) s))"

definition op_ok :: "net_op \<Rightarrow> net_state \<Rightarrow> bool" where
  "op_ok op s \<longleftrightarrow> (case op of OpSetup n \<Rightarrow> clean_id (NetSession n) | OpTeardown i \<Rightarrow> clean_id i
     | OpRefresh resolve order \<Rightarrow> set order = dom (Active s))"

fun ops_ok :: "(string \<Rightarrow> addr option) \<Rightarrow> Config \<Rightarrow> net_op list \<Rightarrow> net_state \<Rightarrow> bool" where
  "ops_ok parse_addr cfg [] s = True"
| "ops_ok parse_addr cfg (op # ops) s \<longleftrightarrow> op_ok op s \<and> ops_ok parse_addr cfg ops (net_op parse_addr cfg op s)"

text \<open>What the controller promises: one table per active session, with the current pin, no other.\<close>

definition kernel_spec :: "(string \<Rightarrow> addr option) \<Rightarrow> net_state \<Rightarrow> bool" where
  "kernel_spec parse_addr s \<longleftrightarrow>
     (\<forall>i n. Active s i = Some n \<longrightarrow> NetSession n = i \<and> clean_id i) \<and>
     (\<forall>name t. Kernel s name = Some t \<longleftrightarrow>
        (\<exists>i n. Active s i = Some n \<and> name = tableName i \<and> t = session_table parse_addr n (Pinned s)))"

lemma kernel_spec_active:
  assumes "kernel_spec parse_addr s" "Active s i = Some n"
  shows "NetSession n = i" "clean_id i" "Kernel s (tableName i) = Some (session_table parse_addr n (Pinned s))"
  using assms by (auto simp: kernel_spec_def)

lemma kernel_spec_clean:
  assumes "kernel_spec parse_addr s" "clean_id i"
  shows "Kernel s (tableName i) = map_option (\<lambda>n. session_table parse_addr n (Pinned s)) (Active s i)"
proof (cases "Active s i")
  case None
  have "Kernel s (tableName i) \<noteq> Some t" for t
    using assms None by (auto simp: kernel_spec_def tableName_inject)
  then show ?thesis using None by auto
next
  case (Some n)
  then show ?thesis using kernel_spec_active [OF assms(1)] by simp
qed

lemma kernel_spec_setup:
  assumes "kernel_spec parse_addr s" "clean_id (NetSession n)"
  shows "kernel_spec parse_addr (snd (SetupSession parse_addr cfg n True s))"
proof (cases "NetSession n = []")
  case True
  then show ?thesis using assms by (simp add: SetupSession_def setup_begin_def)
next
  case False
  define n' where "n' = (if Bridge n = [] then n\<lparr>Bridge := CBridge cfg\<rparr> else n)"
  have id: "NetSession n' = NetSession n" by (simp add: n'_def)
  have s': "snd (SetupSession parse_addr cfg n True s) =
      s\<lparr>Active := (Active s)(NetSession n \<mapsto> n'), Kernel := (Kernel s)(tableName (NetSession n) \<mapsto> session_table parse_addr n' (Pinned s))\<rparr>"
    using False id by (simp add: SetupSession_def setup_begin_def setup_apply_def apply_table_def n'_def Let_def Allow_session)
  show ?thesis
    using assms id unfolding s' kernel_spec_def by (auto simp: tableName_inject)
qed

lemma kernel_spec_teardown:
  assumes "kernel_spec parse_addr s" "clean_id i"
  shows "kernel_spec parse_addr (snd (TeardownSession i True s))"
  using assms by (auto simp: kernel_spec_def TeardownSession_def teardown_begin_def delete_table_def tableName_inject)

lemma refresh_apply_kernel:
  assumes "length oks = length ns" "\<forall>ok \<in> set oks. ok" "inj_on (\<lambda>n. tableName (NetSession n)) (set ns)"
  shows "refresh_apply parse_addr ns ips oks s = s\<lparr>Kernel := (\<lambda>name.
    case find (\<lambda>n. tableName (NetSession n) = name) ns of
      Some n \<Rightarrow> Some (session_table parse_addr n ips) | None \<Rightarrow> Kernel s name)\<rparr>"
  using assms
proof (induction ns arbitrary: oks s)
  case (Cons n ns)
  obtain oks' where oks: "oks = True # oks'" "length oks' = length ns" "\<forall>ok \<in> set oks'. ok"
    using Cons.prems(1,2) by (cases oks) auto
  let ?s = "apply_table (session_table parse_addr n ips) True s"
  have "refresh_apply parse_addr (n # ns) ips oks s = refresh_apply parse_addr ns ips oks' ?s"
    using oks(1) by simp
  also have "\<dots> = ?s\<lparr>Kernel := (\<lambda>name. case find (\<lambda>n. tableName (NetSession n) = name) ns of
      Some n \<Rightarrow> Some (session_table parse_addr n ips) | None \<Rightarrow> Kernel ?s name)\<rparr>"
    using Cons.IH [OF oks(2,3)] Cons.prems(3) by simp
  also have "\<dots> = s\<lparr>Kernel := (\<lambda>name. case find (\<lambda>n. tableName (NetSession n) = name) (n # ns) of
      Some n \<Rightarrow> Some (session_table parse_addr n ips) | None \<Rightarrow> Kernel s name)\<rparr>"
  proof -
    have "(case find (\<lambda>n. tableName (NetSession n) = name) ns of
        Some n \<Rightarrow> Some (session_table parse_addr n ips) | None \<Rightarrow> Kernel ?s name) =
      (case find (\<lambda>n. tableName (NetSession n) = name) (n # ns) of
        Some n \<Rightarrow> Some (session_table parse_addr n ips) | None \<Rightarrow> Kernel s name)" for name
    proof (cases "tableName (NetSession n) = name")
      case True
      have "find (\<lambda>n. tableName (NetSession n) = name) ns = None \<or>
          find (\<lambda>n. tableName (NetSession n) = name) ns = Some n"
      proof (cases "find (\<lambda>n. tableName (NetSession n) = name) ns")
        case (Some m)
        then have "m \<in> set ns" "tableName (NetSession m) = name" by (auto simp: find_Some_iff)
        then have "m = n" using Cons.prems(3) True by (auto simp: inj_on_def)
        then show ?thesis using Some by simp
      qed simp
      then show ?thesis using True by (auto simp: apply_table_def Allow_session)
    next
      case False
      then show ?thesis by (auto simp: apply_table_def Allow_session split: option.split)
    qed
    then show ?thesis by (simp add: apply_table_def)
  qed
  finally show ?case .
qed simp

lemma kernel_spec_refresh:
  assumes inv: "kernel_spec parse_addr s" and order: "set order = dom (Active s)"
  shows "kernel_spec parse_addr (snd (refreshOnce parse_addr cfg resolve order (replicate (length order) True) s))"
proof (cases "resolveAll resolve (Allowlist cfg) (MinRefresh cfg) (MaxRefresh cfg)")
  case (Pair r nxt)
  show ?thesis
  proof (cases r)
    case (Inl e)
    then show ?thesis using inv Pair by (simp add: refreshOnce_def)
  next
    case (Inr ips)
    show ?thesis
    proof (cases "ips = Pinned s")
      case True
      then show ?thesis using inv Pair Inr by (simp add: refreshOnce_def refresh_begin_def)
    next
      case False
      define ns where "ns = List.map_filter (Active s) order"
      have ns: "ns = map (\<lambda>i. the (Active s i)) order"
      proof -
        have "set xs \<subseteq> dom (Active s) \<Longrightarrow> List.map_filter (Active s) xs = map (\<lambda>i. the (Active s i)) xs" for xs
          by (induction xs) (auto simp: map_filter_def)
        then show ?thesis unfolding ns_def using order by simp
      qed
      have mem: "n \<in> set ns \<longleftrightarrow> Active s (NetSession n) = Some n" for n
      proof
        assume "n \<in> set ns"
        then obtain i where "i \<in> dom (Active s)" "n = the (Active s i)" unfolding ns using order by auto
        then have "Active s i = Some n" by auto
        then show "Active s (NetSession n) = Some n" using kernel_spec_active(1) [OF inv, of i n] by simp
      next
        assume a: "Active s (NetSession n) = Some n"
        then have "NetSession n \<in> set order" unfolding order by blast
        then have "the (Active s (NetSession n)) \<in> (\<lambda>i. the (Active s i)) ` set order" by (rule imageI)
        then show "n \<in> set ns" unfolding ns using a by simp
      qed
      have inj: "inj_on (\<lambda>n. tableName (NetSession n)) (set ns)"
      proof (rule inj_onI)
        fix m n assume mn: "m \<in> set ns" "n \<in> set ns" "tableName (NetSession m) = tableName (NetSession n)"
        then have a: "Active s (NetSession m) = Some m" "Active s (NetSession n) = Some n" using mem by blast+
        have "NetSession m = NetSession n"
          by (rule iffD1 [OF tableName_inject [OF kernel_spec_active(2) [OF inv a(1)] kernel_spec_active(2) [OF inv a(2)]] mn(3)])
        then have "Some m = Some n" using a by (simp only:)
        then show "m = n" by simp
      qed
      have s': "snd (refreshOnce parse_addr cfg resolve order (replicate (length order) True) s) =
          refresh_apply parse_addr ns ips (replicate (length order) True) (s\<lparr>Pinned := ips\<rparr>)"
        using Pair Inr False by (simp add: refreshOnce_def refresh_begin_def ns_def)
      have f: "find (\<lambda>n. tableName (NetSession n) = name) ns = Some n \<longleftrightarrow>
          Active s (NetSession n) = Some n \<and> name = tableName (NetSession n)" for name n
      proof
        assume "find (\<lambda>n. tableName (NetSession n) = name) ns = Some n"
        then have "n \<in> set ns" "tableName (NetSession n) = name" by (auto simp: find_Some_iff)
        then show "Active s (NetSession n) = Some n \<and> name = tableName (NetSession n)" using mem by auto
      next
        assume a: "Active s (NetSession n) = Some n \<and> name = tableName (NetSession n)"
        then have n: "n \<in> set ns" using mem by blast
        show "find (\<lambda>n. tableName (NetSession n) = name) ns = Some n"
        proof (cases "find (\<lambda>n. tableName (NetSession n) = name) ns")
          case None
          then show ?thesis using n a by (auto simp: find_None_iff)
        next
          case (Some m)
          then have "m \<in> set ns" "tableName (NetSession m) = name" by (auto simp: find_Some_iff)
          then have "m = n" using inj n a by (auto simp: inj_on_def)
          then show ?thesis using Some by simp
        qed
      qed
      have k: "Kernel s name = Some t \<Longrightarrow> find (\<lambda>n. tableName (NetSession n) = name) ns \<noteq> None" for name t
        using inv f unfolding kernel_spec_def by (metis not_None_eq)
      define K where "K = (\<lambda>name. case find (\<lambda>n. tableName (NetSession n) = name) ns of
        Some n \<Rightarrow> Some (session_table parse_addr n ips) | None \<Rightarrow> Kernel s name)"
      have len: "length (replicate (length order) True) = length ns" by (simp add: ns)
      have r: "refresh_apply parse_addr ns ips (replicate (length order) True) (s\<lparr>Pinned := ips\<rparr>) = s\<lparr>Pinned := ips, Kernel := K\<rparr>"
      proof -
        have "Kernel (s\<lparr>Pinned := ips\<rparr>) = Kernel s" by simp
        moreover have "\<forall>ok \<in> set (replicate (length order) True). ok" by simp
        ultimately show ?thesis
          using refresh_apply_kernel [OF len _ inj, of parse_addr ips "s\<lparr>Pinned := ips\<rparr>"] unfolding K_def by (simp only:)
      qed
      have K: "K name = Some t \<longleftrightarrow> (\<exists>i n. Active s i = Some n \<and> name = tableName i \<and> t = session_table parse_addr n ips)" for name t
      proof (cases "find (\<lambda>n. tableName (NetSession n) = name) ns")
        case None
        then have "Kernel s name = None" using k by (cases "Kernel s name") auto
        moreover have "name \<noteq> tableName i" if "Active s i = Some n" for i n
          using None f kernel_spec_active(1) [OF inv that] that by (metis option.distinct(1))
        ultimately show ?thesis unfolding K_def None by auto
      next
        case (Some m)
        then have m: "Active s (NetSession m) = Some m" "name = tableName (NetSession m)" using f by blast+
        have u: "n = m" if "Active s i = Some n" "name = tableName i" for i n
        proof -
          have "tableName i = tableName (NetSession m)" using that(2) m(2) by (simp only:)
          then have "i = NetSession m"
            using tableName_inject [OF kernel_spec_active(2) [OF inv that(1)] kernel_spec_active(2) [OF inv m(1)]] by blast
          then have "Some n = Some m" using that(1) m(1) by (simp only:)
          then show ?thesis by simp
        qed
        have Kn: "K name = Some (session_table parse_addr m ips)" using Some by (simp add: K_def)
        show ?thesis
        proof
          assume "K name = Some t"
          then have "t = session_table parse_addr m ips" using Kn by simp
          then show "\<exists>i n. Active s i = Some n \<and> name = tableName i \<and> t = session_table parse_addr n ips"
            using m by (intro exI conjI)
        next
          assume "\<exists>i n. Active s i = Some n \<and> name = tableName i \<and> t = session_table parse_addr n ips"
          then obtain i n where "Active s i = Some n" "name = tableName i" "t = session_table parse_addr n ips" by blast
          with u Kn show "K name = Some t" by (simp only:)
        qed
      qed
      have act: "Active s i = Some n \<Longrightarrow> NetSession n = i \<and> clean_id i" for i n
        using kernel_spec_active(1,2) [OF inv] by blast
      show ?thesis
        unfolding s' r kernel_spec_def using act K by simp
    qed
  qed
qed

lemma kernel_spec_ops:
  assumes "ops_ok parse_addr cfg ops s" "kernel_spec parse_addr s"
  shows "kernel_spec parse_addr (fold (net_op parse_addr cfg) ops s)"
  using assms
proof (induction ops arbitrary: s)
  case (Cons op ops)
  have "kernel_spec parse_addr (net_op parse_addr cfg op s)"
    using Cons.prems kernel_spec_setup kernel_spec_teardown kernel_spec_refresh
    by (cases op) (auto simp: net_op_def op_ok_def)
  then show ?case using Cons by simp
qed simp

text \<open>The pin is the one of the last refresh that resolved.\<close>

fun last_pin :: "Config \<Rightarrow> net_op list \<Rightarrow> addr list \<Rightarrow> addr list" where
  "last_pin cfg [] pin = pin"
| "last_pin cfg (OpRefresh resolve order # ops) pin =
     last_pin cfg ops (case resolveAll resolve (Allowlist cfg) (MinRefresh cfg) (MaxRefresh cfg) of
       (Inr ips, _) \<Rightarrow> ips | (Inl _, _) \<Rightarrow> pin)"
| "last_pin cfg (op # ops) pin = last_pin cfg ops pin"

lemma refresh_apply_simps [simp]:
  "Pinned (refresh_apply parse_addr ns ips oks s) = Pinned s" "Active (refresh_apply parse_addr ns ips oks s) = Active s"
  by (induction ns arbitrary: oks s) (simp_all add: apply_table_def)

lemma refresh_Active: "Active (snd (refreshOnce parse_addr cfg resolve order oks s)) = Active s"
  by (auto simp: refreshOnce_def refresh_begin_def split: prod.splits sum.splits)

lemma pinned_ops: "Pinned (fold (net_op parse_addr cfg) ops s) = last_pin cfg ops (Pinned s)"
proof (induction cfg ops "Pinned s" arbitrary: s rule: last_pin.induct)
  case (2 cfg resolve order ops)
  show ?case
  proof -
    have p: "Pinned (net_op parse_addr cfg (OpRefresh resolve order) s) =
        (case resolveAll resolve (Allowlist cfg) (MinRefresh cfg) (MaxRefresh cfg) of (Inr ips, _) \<Rightarrow> ips | (Inl _, _) \<Rightarrow> Pinned s)"
      by (auto simp: net_op_def refreshOnce_def refresh_begin_def split: prod.splits sum.splits)
    from 2 [OF p [symmetric]] show ?thesis by (simp add: p)
  qed
qed (simp_all add: net_op_def SetupSession_def setup_begin_def setup_apply_def apply_table_def TeardownSession_def
    teardown_begin_def delete_table_def Let_def)

subsection \<open>Properties\<close>

text \<open>
  What is pinned. When the allowlist resolves, the pin is, without duplicates and in order, the
  valid addresses of exactly the entries that resolve, and the next refresh is due within the
  configured bounds and no later than the shortest lifetime among them, or the lower bound if that
  is shorter.
\<close>

theorem resolveAll_pins:
  assumes "resolveAll resolve allowlist minTTL maxTTL = (Inr ips, nxt)" "minTTL \<le> maxTTL"
  shows "set ips = (\<Union>e \<in> set allowlist. entry_addrs resolve e) \<and> sorted ips \<and> distinct ips \<and>
    minTTL \<le> nxt \<and> nxt \<le> maxTTL \<and> (\<forall>e \<in> set allowlist. \<forall>t \<in> entry_ttls resolve e. nxt \<le> max minTTL t)"
  using resolveAll_Inr [OF assms(1)] resolveAll_next [OF assms(1)] assms(2) by blast

definition demo_resolve :: "string \<Rightarrow> string + Resolution" where
  "demo_resolve h = (if h = ''api.io'' then Inr \<lparr>Addrs = [quad 7, quad 5, quad 7], RTTL = 40\<rparr> else Inl ''no such host'')"

theorem resolveAll_pins_witness:
  "set [quad 5, quad 7] = (\<Union>e \<in> set [''https://api.io/v1'', ''gone.io'']. entry_addrs demo_resolve e) \<and>
   (\<forall>e \<in> set [''https://api.io/v1'', ''gone.io'']. \<forall>t \<in> entry_ttls demo_resolve e. 40 \<le> max 30 t)"
proof -
  have n: "normalizeHost ''https://api.io/v1'' = ''api.io''" "normalizeHost ''gone.io'' = ''gone.io''"
    by code_simp+
  have q: "dedup [] (filter IsValid (map Unmap [quad 7, quad 5, quad 7])) = [quad 7, quad 5]"
    "sort [quad 7, quad 5] = [quad 5, quad 7]" by code_simp+
  have "resolveAll demo_resolve [''https://api.io/v1'', ''gone.io''] 30 3600 = (Inr [quad 5, quad 7], 40)"
    using q by (simp add: resolveAll_def resolve_entry_def n demo_resolve_def Let_def)
  from resolveAll_pins [OF this] show ?thesis by simp
qed

text \<open>
  C24: The kernel follows the controller. After any sequence of set-ups, teardowns and refreshes that
  run one after the other, with every script applied, whatever the resolver answers each time, the pin
  is the one of the last refresh that resolved, and the kernel holds exactly one table per active
  session, programmed with that pin: nothing of a removed session is left and no session keeps an
  old pin.
\<close>

theorem kernel_tracks_sessions:
  assumes "ops_ok parse_addr cfg ops NewController" and "s = fold (net_op parse_addr cfg) ops NewController"
  shows "(\<forall>i n. Active s i = Some n \<longrightarrow> NetSession n = i \<and> clean_id i) \<and>
    (\<forall>name t. Kernel s name = Some t \<longleftrightarrow>
       (\<exists>i n. Active s i = Some n \<and> name = tableName i \<and> t = session_table parse_addr n (last_pin cfg ops [])))"
proof -
  have "Pinned s = last_pin cfg ops []"
    unfolding assms(2) by (simp add: pinned_ops NewController_def)
  moreover have "kernel_spec parse_addr s"
    unfolding assms(2) by (rule kernel_spec_ops [OF assms(1)]) (simp add: kernel_spec_def NewController_def)
  ultimately show ?thesis by (simp add: kernel_spec_def)
qed

definition demo_cfg :: Config where
  "demo_cfg = \<lparr>Allowlist = [''api.io''], CBridge = ''opslify0'', MinRefresh = 30, MaxRefresh = 3600\<rparr>"

text \<open>Two refreshes with different answers.\<close>

definition demo_moved :: "string \<Rightarrow> string + Resolution" where
  "demo_moved h = Inr \<lparr>Addrs = [quad 9], RTTL = 40\<rparr>"

theorem kernel_tracks_sessions_witness:
  "Kernel (fold (net_op demo_parse demo_cfg) [OpSetup net_a, OpRefresh demo_resolve [''a''], OpRefresh demo_moved [''a'']]
      NewController) (tableName ''a'') =
     Some (session_table demo_parse (net_a\<lparr>Bridge := ''opslify0''\<rparr>) [quad 9])"
proof -
  let ?ops = "[OpSetup net_a, OpRefresh demo_resolve [''a''], OpRefresh demo_moved [''a'']]"
  let ?n = "net_a\<lparr>Bridge := ''opslify0''\<rparr>"
  have c: "clean_id (NetSession net_a)" by code_simp
  have m: "NetSession net_a = ''a''" "Bridge net_a = []" "CBridge demo_cfg = ''opslify0''"
    by (simp_all add: net_a_def demo_cfg_def)
  have started: "Active (net_op demo_parse demo_cfg (OpSetup net_a) NewController) = [''a'' \<mapsto> ?n]"
    using m by (simp add: net_op_def SetupSession_def setup_begin_def setup_apply_def apply_table_def NewController_def Let_def)
  have keep: "Active (net_op demo_parse demo_cfg (OpRefresh r ord) t) = Active t" for r ord t
    by (simp add: net_op_def refresh_Active)
  have "ops_ok demo_parse demo_cfg ?ops NewController"
    using c by (simp add: op_ok_def started keep)
  note k = kernel_tracks_sessions [OF this refl]
  have "normalizeHost ''api.io'' = ''api.io''" "dedup [] (filter IsValid (map Unmap [quad 9])) = [quad 9]" by code_simp+
  then have pin: "last_pin demo_cfg ?ops [] = [quad 9]"
    by (simp add: resolveAll_def resolve_entry_def demo_cfg_def demo_moved_def Let_def)
  have "Active (fold (net_op demo_parse demo_cfg) ?ops NewController) ''a'' = Some ?n"
    by (simp add: started keep)
  with k pin show ?thesis by (metis (no_types, lifting))
qed

text \<open>
  C25: A session in use is governed. In every interleaving of the locked parts and the scripts of
  set-ups, teardowns and refreshes, whichever scripts nft refuses, a session that is active, has no
  set-up in flight and was never torn down has a table with its name in the kernel, and that table
  is one the generator wrote for it.
\<close>

theorem active_session_is_governed:
  assumes "\<forall>st \<in> set sts. \<forall>i \<in> step_ids st. clean_id i"
    and "s = run_steps parse_addr cfg sts"
    and "Active s i \<noteq> None" "BeginTeardown i \<notin> set sts" "\<forall>n ips. SetupJob n ips \<in> set (Jobs s) \<longrightarrow> NetSession n \<noteq> i"
  shows "\<exists>n ips. NetSession n = i \<and> Kernel s (tableName i) = Some (session_table parse_addr n ips)"
  using governed_reachable [OF assms(1), of parse_addr cfg] assms(3-5)
  unfolding assms(2) governed_inv_def has_table_def by blast

theorem active_session_is_governed_witness:
  "\<exists>n ips. NetSession n = ''a'' \<and>
     Kernel (run_steps demo_parse demo_cfg [BeginSetup net_a, RunJob 0 True]) (tableName ''a'') = Some (session_table demo_parse n ips)"
proof (rule active_session_is_governed [OF _ refl])
  have "clean_id (NetSession net_a)" by code_simp
  then show "\<forall>st \<in> set [BeginSetup net_a, RunJob 0 True]. \<forall>i \<in> step_ids st. clean_id i"
    by (simp add: step_ids_def)
  let ?s = "run_steps demo_parse demo_cfg [BeginSetup net_a, RunJob 0 True]"
  define m where "m = net_a\<lparr>Bridge := ''opslify0''\<rparr>"
  have m: "NetSession net_a = ''a''" "Bridge net_a = []" "CBridge demo_cfg = ''opslify0''" "NetSession m = ''a''"
    by (simp_all add: net_a_def demo_cfg_def m_def)
  have "net_step demo_parse demo_cfg (BeginSetup net_a) NewController =
      NewController\<lparr>Active := [''a'' \<mapsto> m], Jobs := [SetupJob m []]\<rparr>"
    using m by (simp add: net_step_def setup_begin_def NewController_def Let_def m_def)
  then have "?s = net_step demo_parse demo_cfg (RunJob 0 True) (NewController\<lparr>Active := [''a'' \<mapsto> m], Jobs := [SetupJob m []]\<rparr>)"
    unfolding run_steps_def by simp
  then have "Active ?s ''a'' = Some m" "Jobs ?s = []"
    by (simp_all add: net_step_def run_job_def setup_apply_def Let_def)
  then show "Active ?s ''a'' \<noteq> None" "\<forall>n ips. SetupJob n ips \<in> set (Jobs ?s) \<longrightarrow> NetSession n \<noteq> ''a''"
    by simp_all
  show "BeginTeardown ''a'' \<notin> set [BeginSetup net_a, RunJob 0 True]" by simp
qed

text \<open>
  A refresh that overlaps a teardown leaves a table behind. When a session is torn down, table and
  all, after a refresh took its snapshot and before the refresh reaches it, the refresh programs the
  table again: no operation is left running, the session is gone, and its table stays in the
  kernel.
\<close>

theorem refresh_resurrects_table:
  assumes "Active s i = Some n" "NetSession n = i" "Jobs s = []" "ips \<noteq> Pinned s"
  shows "let s' = fold (net_step parse_addr cfg)
      [BeginRefresh ips [i], BeginTeardown i, RunJob 0 True, RunJob 0 True, RunJob 0 True] s
    in Active s' i = None \<and> Jobs s' = [] \<and> Kernel s' (tableName i) = Some (session_table parse_addr n ips)"
  using assms
  by (simp add: Let_def net_step_def refresh_begin_def teardown_begin_def run_job_def map_filter_def
      delete_table_def apply_table_def Allow_session)

theorem refresh_resurrects_table_witness:
  "\<exists>s :: net_state. Active s ''a'' = None \<and> Jobs s = [] \<and> Kernel s (tableName ''a'') \<noteq> None"
proof -
  let ?s = "NewController\<lparr>Active := [''a'' \<mapsto> net_a]\<rparr>"
  have "Active ?s ''a'' = Some net_a" "NetSession net_a = ''a''" "Jobs ?s = []" "[quad 7] \<noteq> Pinned ?s"
    by (simp_all add: NewController_def net_a_def)
  note r = refresh_resurrects_table [OF this, of demo_parse demo_cfg, unfolded Let_def]
  define S where "S = fold (net_step demo_parse demo_cfg)
    [BeginRefresh [quad 7] [''a''], BeginTeardown ''a'', RunJob 0 True, RunJob 0 True, RunJob 0 True] ?s"
  have "Active S ''a'' = None \<and> Jobs S = [] \<and> Kernel S (tableName ''a'') \<noteq> None"
    using r unfolding S_def [symmetric] by simp
  then show ?thesis by (rule exI)
qed

end
