(* ===== verification/Warm_Pool.thy ===== *)
theory Warm_Pool
  imports Ops_Prelude "HOL-Library.Multiset"
begin

text \<open>
  \<^verbatim>\<open>internal/session/warm_pool.go\<close>: the pool of pre-created sandboxes. Every goroutine is cut where
  it takes or gives up the pool's lock, so a run is a list of steps of any of them: claims, the
  background builders (bounded by the semaphore), a drain on a new toolchain digest with the
  goroutine that destroys the stale containers, and the shutdown. A container is its number and the
  generation it was built for; \<open>Live\<close> are the containers that exist. Whether the engine builds,
  thaws, or the store saves, is an outcome of the step, and so is which containers a teardown fails to
  destroy: such a failure is only logged, and the container is left behind.
\<close>

type_synonym warm = "nat \<times> string"

datatype builder =
    Queued string     \<comment> \<open>waits for the semaphore\<close>
  | Building string
  | Built warm        \<comment> \<open>created, the lock not yet taken\<close>
  | BuildFailed string
  | Discarding warm   \<comment> \<open>refused by the pool, to be destroyed\<close>

datatype drainer =
    Detached "warm list"    \<comment> \<open>taken from the pool, goroutine not yet counted\<close>
  | Draining "warm list"

datatype closer = Open | Waiting "warm list" | Destroying "warm list" | Closed

record pool =
  Ready :: "warm list"
  Inflight :: nat
  Digest :: string
  IsClosed :: bool
  Builders :: "builder list"
  Drainers :: "drainer list"
  Closer :: closer
  Claiming :: "warm list"   \<comment> \<open>popped by a claim, not yet handed out\<close>
  Claimed :: "warm list"
  Leaked :: "warm list"     \<comment> \<open>their teardown failed\<close>
  Live :: "warm set"
  NextId :: nat

definition newWarmPool :: "string \<Rightarrow> pool" where
  "newWarmPool digest = \<lparr>Ready = [], Inflight = 0, Digest = digest, IsClosed = False, Builders = [], Drainers = [],
     Closer = Open, Claiming = [], Claimed = [], Leaked = [], Live = {}, NextId = 0\<rparr>"

definition replenish :: "nat \<Rightarrow> pool \<Rightarrow> pool" where
  "replenish sz p =
     (if IsClosed p then p
      else let need = sz - length (Ready p) - Inflight p
           in p\<lparr>Inflight := Inflight p + need, Builders := Builders p @ replicate need (Queued (Digest p))\<rparr>)"

text \<open>\<open>fails\<close> are the containers that the engine does not remove.\<close>

definition destroy :: "warm list \<Rightarrow> warm list \<Rightarrow> pool \<Rightarrow> pool" where
  "destroy fails cs p =
     p\<lparr>Live := Live p - set (filter (\<lambda>c. c \<notin> set fails) cs),
       Leaked := filter (\<lambda>c. c \<in> set fails) cs @ Leaked p\<rparr>"

text \<open>A build that fails after its container was created is rolled back, which can fail as well.\<close>

datatype build_result = BuildOk | BuildFails | BuildLeaks

datatype pool_step =
    Claim bool              \<comment> \<open>whether the rung of the request is the pool's\<close>
  | ClaimDone warm bool "warm list"  \<comment> \<open>whether thawing and saving worked; the teardowns that fail\<close>
  | Acquire string
  | Realize string build_result
  | Publish builder
  | Discard warm "warm list"
  | Drain string
  | Launch "warm list"
  | Drained "warm list" "warm list"
  | Close
  | Waited
  | Finish "warm list"

definition claim :: "nat \<Rightarrow> bool \<Rightarrow> pool \<Rightarrow> pool" where
  "claim sz rung p =
     (if \<not> rung then p
      else if IsClosed p \<or> Ready p = [] then replenish sz p
      else p\<lparr>Ready := butlast (Ready p), Claiming := last (Ready p) # Claiming p\<rparr>)"

definition claim_done :: "nat \<Rightarrow> warm \<Rightarrow> bool \<Rightarrow> warm list \<Rightarrow> pool \<Rightarrow> pool" where
  "claim_done sz c ok fails p =
     (let p = p\<lparr>Claiming := remove1 c (Claiming p)\<rparr>
      in replenish sz (if ok then p\<lparr>Claimed := c # Claimed p\<rparr> else destroy fails [c] p))"

definition holds_sem :: "builder \<Rightarrow> bool" where
  "holds_sem b \<longleftrightarrow> (case b of Queued _ \<Rightarrow> False | _ \<Rightarrow> True)"

definition publish :: "builder \<Rightarrow> pool \<Rightarrow> pool" where
  "publish b p =
     (let p = p\<lparr>Inflight := Inflight p - 1, Builders := remove1 b (Builders p)\<rparr>
      in case b of
           Built c \<Rightarrow>
             if IsClosed p \<or> Digest p \<noteq> snd c then p\<lparr>Builders := Discarding c # Builders p\<rparr>
             else p\<lparr>Ready := Ready p @ [c]\<rparr>
         | _ \<Rightarrow> p)"

definition drain :: "string \<Rightarrow> pool \<Rightarrow> pool" where
  "drain new p =
     (if IsClosed p \<or> Digest p = new then p
      else p\<lparr>Ready := [], Digest := new, Drainers := Detached (Ready p) # Drainers p\<rparr>)"

definition launch :: "nat \<Rightarrow> warm list \<Rightarrow> pool \<Rightarrow> pool" where
  "launch sz stale p =
     replenish sz
       (p\<lparr>Drainers := (if stale = [] then [] else [Draining stale]) @ remove1 (Detached stale) (Drainers p)\<rparr>)"

definition waited_for :: "pool \<Rightarrow> bool" where
  "waited_for p \<longleftrightarrow> Builders p = [] \<and> (\<forall>d \<in> set (Drainers p). \<forall>cs. d \<noteq> Draining cs)"

text \<open>A step that is not enabled changes nothing.\<close>

definition pool_step :: "nat \<Rightarrow> nat \<Rightarrow> pool_step \<Rightarrow> pool \<Rightarrow> pool" where
  "pool_step sz maxConc st p =
     (case st of
        Claim rung \<Rightarrow> claim sz rung p
      | ClaimDone c ok fails \<Rightarrow> if c \<in> set (Claiming p) then claim_done sz c ok fails p else p
      | Acquire g \<Rightarrow>
          if Queued g \<in> set (Builders p) \<and> length (filter holds_sem (Builders p)) < maxConc
          then p\<lparr>Builders := Building g # remove1 (Queued g) (Builders p)\<rparr> else p
      | Realize g res \<Rightarrow>
          if Building g \<notin> set (Builders p) then p
          else (case res of
              BuildOk \<Rightarrow> p\<lparr>Builders := Built (NextId p, g) # remove1 (Building g) (Builders p),
                 Live := insert (NextId p, g) (Live p), NextId := Suc (NextId p)\<rparr>
            | BuildFails \<Rightarrow> p\<lparr>Builders := BuildFailed g # remove1 (Building g) (Builders p)\<rparr>
            | BuildLeaks \<Rightarrow> p\<lparr>Builders := BuildFailed g # remove1 (Building g) (Builders p),
                 Leaked := (NextId p, g) # Leaked p,
                 Live := insert (NextId p, g) (Live p), NextId := Suc (NextId p)\<rparr>)
      | Publish b \<Rightarrow>
          if b \<in> set (Builders p) \<and> (case b of Built _ \<Rightarrow> True | BuildFailed _ \<Rightarrow> True | _ \<Rightarrow> False)
          then publish b p else p
      | Discard c fails \<Rightarrow>
          if Discarding c \<in> set (Builders p)
          then destroy fails [c] (p\<lparr>Builders := remove1 (Discarding c) (Builders p)\<rparr>) else p
      | Drain new \<Rightarrow> drain new p
      | Launch stale \<Rightarrow> if Detached stale \<in> set (Drainers p) then launch sz stale p else p
      | Drained stale fails \<Rightarrow>
          if Draining stale \<in> set (Drainers p)
          then destroy fails stale (p\<lparr>Drainers := remove1 (Draining stale) (Drainers p)\<rparr>) else p
      | Close \<Rightarrow>
          if IsClosed p then p else p\<lparr>IsClosed := True, Ready := [], Closer := Waiting (Ready p)\<rparr>
      | Waited \<Rightarrow>
          (case Closer p of Waiting rem \<Rightarrow> if waited_for p then p\<lparr>Closer := Destroying rem\<rparr> else p | _ \<Rightarrow> p)
      | Finish fails \<Rightarrow>
          (case Closer p of Destroying rem \<Rightarrow> destroy fails rem (p\<lparr>Closer := Closed\<rparr>) | _ \<Rightarrow> p))"

definition run_pool :: "nat \<Rightarrow> nat \<Rightarrow> string \<Rightarrow> pool_step list \<Rightarrow> pool" where
  "run_pool sz maxConc digest sts =
     fold (pool_step sz maxConc) sts (replenish sz (newWarmPool digest))"

subsection \<open>Who owns a container\<close>

definition builder_owns :: "builder \<Rightarrow> warm list" where
  "builder_owns b = (case b of Built c \<Rightarrow> [c] | Discarding c \<Rightarrow> [c] | _ \<Rightarrow> [])"

definition drainer_owns :: "drainer \<Rightarrow> warm list" where
  "drainer_owns d = (case d of Detached cs \<Rightarrow> cs | Draining cs \<Rightarrow> cs)"

definition closer_owns :: "closer \<Rightarrow> warm list" where
  "closer_owns c = (case c of Waiting cs \<Rightarrow> cs | Destroying cs \<Rightarrow> cs | _ \<Rightarrow> [])"

lemmas owns_defs = builder_owns_def drainer_owns_def closer_owns_def

definition owned :: "pool \<Rightarrow> warm multiset" where
  "owned p = mset (Ready p) + mset (Claiming p) + mset (Claimed p) + mset (concat (map builder_owns (Builders p))) +
     mset (concat (map drainer_owns (Drainers p))) + mset (closer_owns (Closer p)) + mset (Leaked p)"

definition unlocked :: "builder \<Rightarrow> bool" where
  "unlocked b \<longleftrightarrow> (case b of Discarding _ \<Rightarrow> False | _ \<Rightarrow> True)"

text \<open>Every container that exists has exactly one owner or was left behind once, and its number is its own.\<close>

definition own_inv :: "pool \<Rightarrow> bool" where
  "own_inv p \<longleftrightarrow> owned p = mset_set (Live p) \<and> finite (Live p) \<and> (\<forall>c \<in> Live p. fst c < NextId p) \<and> inj_on fst (Live p)"

definition count_inv :: "nat \<Rightarrow> nat \<Rightarrow> pool \<Rightarrow> bool" where
  "count_inv sz maxConc p \<longleftrightarrow>
     (\<forall>c \<in> set (Ready p). snd c = Digest p) \<and>
     Inflight p = length (filter unlocked (Builders p)) \<and>
     length (Ready p) + Inflight p \<le> sz \<and>
     length (filter holds_sem (Builders p)) \<le> maxConc"

definition close_inv :: "pool \<Rightarrow> bool" where
  "close_inv p \<longleftrightarrow>
     (IsClosed p \<longleftrightarrow> Closer p \<noteq> Open) \<and> (IsClosed p \<longrightarrow> Ready p = []) \<and>
     (\<forall>rem. Closer p = Destroying rem \<longrightarrow> Builders p = []) \<and> (Closer p = Closed \<longrightarrow> Builders p = [])"

lemma mset_concat_remove1:
  "x \<in> set xs \<Longrightarrow> mset (concat (map f xs)) = mset (f x) + mset (concat (map f (remove1 x xs)))"
  by (induction xs) (auto simp: ac_simps)

lemma length_filter_remove1:
  "x \<in> set xs \<Longrightarrow> length (filter P xs) = (if P x then Suc (length (filter P (remove1 x xs))) else length (filter P (remove1 x xs)))"
  by (induction xs) auto

lemma mset_set_minus:
  assumes "finite A" "mset_set A = M + mset xs"
  shows "M = mset_set (A - set xs)"
proof (rule multiset_eqI)
  fix x
  have c: "count (mset_set A) x = count M x + count (mset xs) x" using assms(2) by simp
  have a: "count (mset_set A) x = (if x \<in> A then 1 else 0)" using assms(1) by simp
  have d: "count (mset_set (A - set xs)) x = (if x \<in> A \<and> x \<notin> set xs then 1 else 0)" using assms(1) by simp
  have z: "count (mset xs) x = 0 \<longleftrightarrow> x \<notin> set xs" by (rule count_mset_0_iff)
  show "count M x = count (mset_set (A - set xs)) x"
  proof (cases "x \<in> set xs")
    case True
    then have "count (mset xs) x \<noteq> 0" using z by blast
    moreover have "count M x + count (mset xs) x \<le> 1" unfolding c [symmetric] a by simp
    ultimately have "count M x = 0" by linarith
    then show ?thesis using True unfolding d by simp
  next
    case False
    then have "count (mset xs) x = 0" using z by blast
    then show ?thesis using c False unfolding a d by simp
  qed
qed

lemma own_inv_moves:
  assumes "own_inv p" "owned p' = owned p" "Live p' = Live p" "NextId p' = NextId p"
  shows "own_inv p'"
  using assms by (simp add: own_inv_def)

lemma destroy_fields [simp]:
  "Ready (destroy fails cs p) = Ready p" "NextId (destroy fails cs p) = NextId p" "Inflight (destroy fails cs p) = Inflight p"
  "Digest (destroy fails cs p) = Digest p" "IsClosed (destroy fails cs p) = IsClosed p" "Closer (destroy fails cs p) = Closer p"
  "Builders (destroy fails cs p) = Builders p" "Drainers (destroy fails cs p) = Drainers p"
  "Claiming (destroy fails cs p) = Claiming p" "Claimed (destroy fails cs p) = Claimed p"
  by (simp_all add: destroy_def)

lemma owned_destroy:
  "owned (destroy fails cs p) + mset (filter (\<lambda>c. c \<notin> set fails) cs) = owned p + mset cs"
proof -
  have "mset cs = mset (filter (\<lambda>c. c \<in> set fails) cs) + mset (filter (\<lambda>c. c \<notin> set fails) cs)"
    by (simp add: mset_filter multiset_partition [symmetric])
  then show ?thesis by (simp add: owned_def destroy_def)
qed

lemma own_inv_destroy:
  assumes "own_inv p" "owned p = owned q + mset cs" "Live q = Live p" "NextId q = NextId p"
  shows "own_inv (destroy fails cs q)"
proof -
  let ?gone = "filter (\<lambda>c. c \<notin> set fails) cs"
  have o: "owned p = mset_set (Live p)" "finite (Live p)" using assms(1) by (simp_all add: own_inv_def)
  have "mset_set (Live p) = owned (destroy fails cs q) + mset ?gone"
    using owned_destroy [of fails cs q] o(1) assms(2) by simp
  then have "owned (destroy fails cs q) = mset_set (Live p - set ?gone)" by (rule mset_set_minus [OF o(2)])
  moreover have "Live (destroy fails cs q) = Live p - set ?gone" by (simp add: destroy_def assms(3))
  ultimately show ?thesis using assms(1,4) by (auto simp: own_inv_def inj_on_def)
qed

lemma own_inv_create:
  assumes "own_inv p" "owned p' = add_mset (NextId p, g) (owned p)" "Live p' = insert (NextId p, g) (Live p)"
    "NextId p' = Suc (NextId p)"
  shows "own_inv p'"
proof -
  have "(NextId p, g) \<notin> Live p" using assms(1) by (auto simp: own_inv_def)
  then have "owned p' = mset_set (Live p')" using assms by (simp add: own_inv_def)
  then show ?thesis using assms by (force simp: own_inv_def inj_on_def)
qed

lemma owned_replenish [simp]: "owned (replenish sz p) = owned p"
  by (simp add: replenish_def owned_def Let_def owns_defs map_replicate_const)

lemma replenish_fields [simp]:
  "Ready (replenish sz p) = Ready p" "Live (replenish sz p) = Live p" "NextId (replenish sz p) = NextId p"
  "Digest (replenish sz p) = Digest p" "IsClosed (replenish sz p) = IsClosed p" "Closer (replenish sz p) = Closer p"
  "Drainers (replenish sz p) = Drainers p" "Claiming (replenish sz p) = Claiming p" "Claimed (replenish sz p) = Claimed p"
  "Leaked (replenish sz p) = Leaked p"
  by (simp_all add: replenish_def Let_def)

lemma own_inv_replenish [simp]: "own_inv (replenish sz p) \<longleftrightarrow> own_inv p"
  by (simp add: own_inv_def)

lemma filter_queued: "filter unlocked (replicate n (Queued g)) = replicate n (Queued g)"
  "filter holds_sem (replicate n (Queued g)) = []"
  by (simp_all add: filter_replicate unlocked_def holds_sem_def)

lemma count_inv_replenish: "count_inv sz k p \<Longrightarrow> count_inv sz k (replenish sz p)"
  by (auto simp: count_inv_def replenish_def Let_def filter_queued)

lemma close_inv_replenish: "close_inv p \<Longrightarrow> close_inv (replenish sz p)"
  by (auto simp: close_inv_def replenish_def Let_def)

subsection \<open>Each step\<close>

definition pool_inv :: "nat \<Rightarrow> nat \<Rightarrow> pool \<Rightarrow> bool" where
  "pool_inv sz k p \<longleftrightarrow> own_inv p \<and> count_inv sz k p \<and> close_inv p"

lemmas pool_inv_defs = pool_inv_def count_inv_def close_inv_def

lemma replenish_inv: "pool_inv sz k p \<Longrightarrow> pool_inv sz k (replenish sz p)"
  by (simp add: pool_inv_def count_inv_replenish close_inv_replenish)

lemma claim_inv:
  assumes inv: "pool_inv sz k p"
  shows "pool_inv sz k (claim sz rung p)"
proof (cases "\<not> rung \<or> IsClosed p \<or> Ready p = []")
  case True
  then show ?thesis using inv replenish_inv [OF inv] by (auto simp: claim_def)
next
  case False
  define p' where "p' = p\<lparr>Ready := butlast (Ready p), Claiming := last (Ready p) # Claiming p\<rparr>"
  have r: "claim sz rung p = p'" "Ready p \<noteq> []" using False by (simp_all add: claim_def p'_def)
  have "mset (butlast (Ready p) @ [last (Ready p)]) = mset (Ready p)" using r(2) by simp
  then have "add_mset (last (Ready p)) (mset (butlast (Ready p))) = mset (Ready p)" by simp
  then have "owned p' = owned p" unfolding owned_def p'_def by (simp add: union_mset_add_mset_left [symmetric] del: union_mset_add_mset_left)
  then have "own_inv p'" using inv own_inv_moves [of p p'] by (simp add: pool_inv_def p'_def)
  then show ?thesis
    unfolding r(1) using inv False by (auto simp: pool_inv_defs p'_def dest: in_set_butlastD)
qed

lemma remove1_owned:
  "c \<in> set (Claiming p) \<Longrightarrow> owned p = add_mset c (owned (p\<lparr>Claiming := remove1 c (Claiming p)\<rparr>))"
  by (simp add: owned_def)

lemma claim_done_inv:
  assumes inv: "pool_inv sz k p" and c: "c \<in> set (Claiming p)"
  shows "pool_inv sz k (claim_done sz c ok fails p)"
proof (cases ok)
  case True
  define p' where "p' = p\<lparr>Claiming := remove1 c (Claiming p), Claimed := c # Claimed p\<rparr>"
  have "owned p' = owned p" using remove1_owned [OF c] by (simp add: owned_def p'_def)
  then have "own_inv p'" using inv own_inv_moves [of p p'] by (simp add: pool_inv_def p'_def)
  then have "pool_inv sz k p'" using inv by (auto simp: pool_inv_defs p'_def)
  then show ?thesis using True replenish_inv by (simp add: claim_done_def Let_def p'_def)
next
  case False
  let ?q = "p\<lparr>Claiming := remove1 c (Claiming p)\<rparr>"
  define p' where "p' = destroy fails [c] ?q"
  have "owned p = owned ?q + mset [c]" using remove1_owned [OF c] by simp
  then have "own_inv p'" unfolding p'_def using inv by (intro own_inv_destroy) (simp_all add: pool_inv_def)
  then have "pool_inv sz k p'" using inv by (auto simp: pool_inv_defs p'_def)
  then show ?thesis using False replenish_inv by (simp add: claim_done_def Let_def p'_def)
qed

lemma owned_builders:
  "b \<in> set (Builders p) \<Longrightarrow>
     owned p = owned (p\<lparr>Builders := remove1 b (Builders p)\<rparr>) + mset (builder_owns b)"
  using mset_concat_remove1 [of b "Builders p" builder_owns] by (simp add: owned_def)

lemma owned_drainers:
  "d \<in> set (Drainers p) \<Longrightarrow>
     owned p = owned (p\<lparr>Drainers := remove1 d (Drainers p)\<rparr>) + mset (drainer_owns d)"
  using mset_concat_remove1 [of d "Drainers p" drainer_owns] by (simp add: owned_def)

lemma acquire_inv:
  assumes inv: "pool_inv sz k p" and b: "Queued g \<in> set (Builders p)" "length (filter holds_sem (Builders p)) < k"
  shows "pool_inv sz k (p\<lparr>Builders := Building g # remove1 (Queued g) (Builders p)\<rparr>)"
proof -
  let ?p = "p\<lparr>Builders := Building g # remove1 (Queued g) (Builders p)\<rparr>"
  have "owned ?p = owned p" using owned_builders [OF b(1)] by (simp add: owned_def owns_defs)
  then have "own_inv ?p" using inv own_inv_moves [of p ?p] by (simp add: pool_inv_def)
  moreover have "Suc (length (filter unlocked (remove1 (Queued g) (Builders p)))) = length (filter unlocked (Builders p))"
    "length (filter holds_sem (remove1 (Queued g) (Builders p))) = length (filter holds_sem (Builders p))"
    using length_filter_remove1 [OF b(1), of unlocked] length_filter_remove1 [OF b(1), of holds_sem]
    by (simp_all add: unlocked_def holds_sem_def)
  ultimately show ?thesis
    using inv b by (auto simp: pool_inv_defs unlocked_def holds_sem_def)
qed

lemma realize_inv:
  assumes inv: "pool_inv sz k p" and b: "Building g \<in> set (Builders p)"
  shows "pool_inv sz k (p\<lparr>Builders := Built (NextId p, g) # remove1 (Building g) (Builders p),
      Live := insert (NextId p, g) (Live p), NextId := Suc (NextId p)\<rparr>)"
    and "pool_inv sz k (p\<lparr>Builders := BuildFailed g # remove1 (Building g) (Builders p)\<rparr>)"
    and "pool_inv sz k (p\<lparr>Builders := BuildFailed g # remove1 (Building g) (Builders p), Leaked := (NextId p, g) # Leaked p,
      Live := insert (NextId p, g) (Live p), NextId := Suc (NextId p)\<rparr>)"
proof -
  let ?p = "p\<lparr>Builders := Built (NextId p, g) # remove1 (Building g) (Builders p),
      Live := insert (NextId p, g) (Live p), NextId := Suc (NextId p)\<rparr>"
  let ?q = "p\<lparr>Builders := BuildFailed g # remove1 (Building g) (Builders p)\<rparr>"
  have n: "Suc (length (filter unlocked (remove1 (Building g) (Builders p)))) = length (filter unlocked (Builders p))"
    "Suc (length (filter holds_sem (remove1 (Building g) (Builders p)))) = length (filter holds_sem (Builders p))"
    using length_filter_remove1 [OF b, of unlocked] length_filter_remove1 [OF b, of holds_sem]
    by (simp_all add: unlocked_def holds_sem_def)
  have "owned ?p = add_mset (NextId p, g) (owned p)" using owned_builders [OF b] by (simp add: owned_def owns_defs)
  then have "own_inv ?p" using inv own_inv_create [of p ?p g] by (simp add: pool_inv_def)
  then show "pool_inv sz k ?p" using inv n b by (auto simp: pool_inv_defs unlocked_def holds_sem_def)
  have "owned ?q = owned p" using owned_builders [OF b] by (simp add: owned_def owns_defs)
  then have "own_inv ?q" using inv own_inv_moves [of p ?q] by (simp add: pool_inv_def)
  then show "pool_inv sz k ?q" using inv n b by (auto simp: pool_inv_defs unlocked_def holds_sem_def)
  let ?r = "p\<lparr>Builders := BuildFailed g # remove1 (Building g) (Builders p), Leaked := (NextId p, g) # Leaked p,
      Live := insert (NextId p, g) (Live p), NextId := Suc (NextId p)\<rparr>"
  have "owned ?r = add_mset (NextId p, g) (owned p)" using owned_builders [OF b] by (simp add: owned_def owns_defs)
  then have "own_inv ?r" using inv own_inv_create [of p ?r g] by (simp add: pool_inv_def)
  then show "pool_inv sz k ?r" using inv n b by (auto simp: pool_inv_defs unlocked_def holds_sem_def)
qed

lemma publish_inv:
  assumes inv: "pool_inv sz k p" and b: "b \<in> set (Builders p)" "b = Built c \<or> b = BuildFailed g"
  shows "pool_inv sz k (publish b p)"
proof -
  have ne: "Builders p \<noteq> []" using b(1) by auto
  have n: "Suc (length (filter unlocked (remove1 b (Builders p)))) = length (filter unlocked (Builders p))"
    "Suc (length (filter holds_sem (remove1 b (Builders p)))) = length (filter holds_sem (Builders p))"
    using length_filter_remove1 [OF b(1), of unlocked] length_filter_remove1 [OF b(1), of holds_sem] b(2)
    by (auto simp: unlocked_def holds_sem_def)
  let ?p = "p\<lparr>Inflight := Inflight p - 1, Builders := remove1 b (Builders p)\<rparr>"
  show ?thesis
  proof (cases "b = Built c")
    case False
    then have r: "publish b p = ?p" using b(2) by (auto simp: publish_def Let_def)
    have "owned ?p = owned p" using owned_builders [OF b(1)] False b(2) by (auto simp: owned_def owns_defs)
    then have "own_inv ?p" using inv own_inv_moves [of p ?p] by (simp add: pool_inv_def)
    then show ?thesis unfolding r using inv n ne by (auto simp: pool_inv_defs)
  next
    case True
    show ?thesis
    proof (cases "IsClosed p \<or> Digest p \<noteq> snd c")
      case True
      let ?q = "?p\<lparr>Builders := Discarding c # remove1 b (Builders p)\<rparr>"
      have r: "publish b p = ?q" using True \<open>b = Built c\<close> by (auto simp: publish_def Let_def)
      have "owned ?q = owned p" using owned_builders [OF b(1)] \<open>b = Built c\<close> by (simp add: owned_def owns_defs)
      then have "own_inv ?q" using inv own_inv_moves [of p ?q] by (simp add: pool_inv_def)
      then show ?thesis unfolding r using inv n ne by (auto simp: pool_inv_defs unlocked_def holds_sem_def)
    next
      case False
      let ?q = "?p\<lparr>Ready := Ready p @ [c]\<rparr>"
      have r: "publish b p = ?q" using False \<open>b = Built c\<close> by (auto simp: publish_def Let_def)
      have "owned ?q = owned p" using owned_builders [OF b(1)] \<open>b = Built c\<close> by (simp add: owned_def owns_defs)
      then have "own_inv ?q" using inv own_inv_moves [of p ?q] by (simp add: pool_inv_def)
      then show ?thesis unfolding r using inv n ne False by (auto simp: pool_inv_defs)
    qed
  qed
qed

lemma discard_inv:
  assumes inv: "pool_inv sz k p" and b: "Discarding c \<in> set (Builders p)"
  shows "pool_inv sz k (destroy fails [c] (p\<lparr>Builders := remove1 (Discarding c) (Builders p)\<rparr>))"
proof -
  let ?q = "p\<lparr>Builders := remove1 (Discarding c) (Builders p)\<rparr>"
  have ne: "Builders p \<noteq> []" using b by auto
  have n: "length (filter unlocked (remove1 (Discarding c) (Builders p))) = length (filter unlocked (Builders p))"
    "Suc (length (filter holds_sem (remove1 (Discarding c) (Builders p)))) = length (filter holds_sem (Builders p))"
    using length_filter_remove1 [OF b, of unlocked] length_filter_remove1 [OF b, of holds_sem]
    by (simp_all add: unlocked_def holds_sem_def)
  have "owned p = owned ?q + mset [c]" using owned_builders [OF b] by (simp add: owns_defs)
  then have "own_inv (destroy fails [c] ?q)" using inv by (intro own_inv_destroy) (simp_all add: pool_inv_def)
  then show ?thesis using inv n ne by (auto simp: pool_inv_defs)
qed

lemma drain_inv:
  assumes inv: "pool_inv sz k p"
  shows "pool_inv sz k (drain new p)"
proof (cases "IsClosed p \<or> Digest p = new")
  case True
  then show ?thesis using inv by (simp add: drain_def)
next
  case False
  let ?p = "p\<lparr>Ready := [], Digest := new, Drainers := Detached (Ready p) # Drainers p\<rparr>"
  have r: "drain new p = ?p" using False by (simp add: drain_def)
  have "owned ?p = owned p" by (simp add: owned_def owns_defs)
  then have "own_inv ?p" using inv own_inv_moves [of p ?p] by (simp add: pool_inv_def)
  then show ?thesis unfolding r using inv by (auto simp: pool_inv_defs)
qed

lemma launch_inv:
  assumes inv: "pool_inv sz k p" and d: "Detached cs \<in> set (Drainers p)"
  shows "pool_inv sz k (launch sz cs p)"
proof -
  let ?p = "p\<lparr>Drainers := (if cs = [] then [] else [Draining cs]) @ remove1 (Detached cs) (Drainers p)\<rparr>"
  have "owned ?p = owned p" using owned_drainers [OF d] by (simp add: owned_def owns_defs)
  then have "own_inv ?p" using inv own_inv_moves [of p ?p] by (simp add: pool_inv_def)
  then have "pool_inv sz k ?p" using inv by (auto simp: pool_inv_defs)
  then show ?thesis unfolding launch_def by (rule replenish_inv)
qed

lemma drained_inv:
  assumes inv: "pool_inv sz k p" and d: "Draining cs \<in> set (Drainers p)"
  shows "pool_inv sz k (destroy fails cs (p\<lparr>Drainers := remove1 (Draining cs) (Drainers p)\<rparr>))"
proof -
  let ?q = "p\<lparr>Drainers := remove1 (Draining cs) (Drainers p)\<rparr>"
  have "owned p = owned ?q + mset cs" using owned_drainers [OF d] by (simp add: owns_defs)
  then have "own_inv (destroy fails cs ?q)" using inv by (intro own_inv_destroy) (simp_all add: pool_inv_def)
  then show ?thesis using inv by (auto simp: pool_inv_defs)
qed

lemma closing_inv:
  assumes inv: "pool_inv sz k p"
  shows "pool_inv sz k (pool_step sz k Close p)" "pool_inv sz k (pool_step sz k Waited p)"
    "pool_inv sz k (pool_step sz k (Finish fails) p)"
proof -
  let ?c = "p\<lparr>IsClosed := True, Ready := [], Closer := Waiting (Ready p)\<rparr>"
  have "\<not> IsClosed p \<Longrightarrow> owned ?c = owned p" using inv by (simp add: owned_def owns_defs pool_inv_defs)
  then have "\<not> IsClosed p \<Longrightarrow> own_inv ?c" using inv own_inv_moves [of p ?c] by (simp add: pool_inv_def)
  then show "pool_inv sz k (pool_step sz k Close p)" using inv by (auto simp: pool_step_def pool_inv_defs)
  have "owned (p\<lparr>Closer := Destroying rem\<rparr>) = owned p" if "Closer p = Waiting rem" for rem
    using that by (simp add: owned_def owns_defs)
  then have w: "own_inv (p\<lparr>Closer := Destroying rem\<rparr>)" if "Closer p = Waiting rem" for rem
    using inv that own_inv_moves [of p "p\<lparr>Closer := Destroying rem\<rparr>"] by (simp add: pool_inv_def)
  show "pool_inv sz k (pool_step sz k Waited p)"
    using inv w by (auto simp: pool_step_def pool_inv_defs waited_for_def split: closer.split)
  have f: "own_inv (destroy fails rem (p\<lparr>Closer := Closed\<rparr>))" if "Closer p = Destroying rem" for rem
    using inv that by (intro own_inv_destroy [of p]) (simp_all add: pool_inv_def owned_def owns_defs)
  then show "pool_inv sz k (pool_step sz k (Finish fails) p)"
    using inv by (auto simp: pool_step_def pool_inv_defs split: closer.split)
qed

lemma pool_step_inv:
  assumes "pool_inv sz k p"
  shows "pool_inv sz k (pool_step sz k st p)"
proof (cases st)
  case (Publish b)
  then show ?thesis using assms publish_inv [OF assms]
    by (cases b) (auto simp: pool_step_def)
next
  case (Acquire g)
  then show ?thesis using assms acquire_inv [OF assms] by (simp add: pool_step_def)
next
  case (Realize g res)
  then show ?thesis using assms realize_inv [OF assms] by (cases res) (simp_all add: pool_step_def)
qed (use assms claim_inv claim_done_inv discard_inv drain_inv launch_inv drained_inv closing_inv
      in \<open>simp_all add: pool_step_def\<close>)

lemma run_pool_inv: "pool_inv sz k (run_pool sz k digest sts)"
proof -
  have "pool_inv sz k (newWarmPool digest)"
    by (simp add: pool_inv_defs newWarmPool_def own_inv_def owned_def owns_defs)
  then have "pool_inv sz k (replenish sz (newWarmPool digest))" by (rule replenish_inv)
  then have "pool_inv sz k (fold (pool_step sz k) sts p)" if "p = replenish sz (newWarmPool digest)" for p
    unfolding that
  proof (induction sts arbitrary: p rule: rev_induct)
    case (snoc st sts)
    then show ?case using pool_step_inv by simp
  qed simp
  then show ?thesis by (simp add: run_pool_def)
qed

subsection \<open>Properties\<close>

text \<open>What a step leaves behind: a container whose teardown failed in it.\<close>

definition teardown_failures :: "pool_step \<Rightarrow> warm set" where
  "teardown_failures st =
     (case st of
        ClaimDone c ok fails \<Rightarrow> if ok then {} else set fails
      | Discard c fails \<Rightarrow> set fails
      | Drained stale fails \<Rightarrow> set fails
      | Finish fails \<Rightarrow> set fails
      | Realize g BuildLeaks \<Rightarrow> {c. snd c = g}
      | _ \<Rightarrow> {})"

lemma pool_step_leaked: "set (Leaked (pool_step sz k st p)) \<subseteq> set (Leaked p) \<union> teardown_failures st"
  by (cases st)
    (auto simp: pool_step_def claim_def claim_done_def publish_def drain_def launch_def destroy_def teardown_failures_def Let_def
      split: builder.splits closer.splits build_result.splits)

lemma run_pool_leaked: "set (Leaked (run_pool sz k digest sts)) \<subseteq> (\<Union>st \<in> set sts. teardown_failures st)"
proof -
  have "set (Leaked (fold (pool_step sz k) sts p)) \<subseteq> set (Leaked p) \<union> (\<Union>st \<in> set sts. teardown_failures st)" for p
  proof (induction sts arbitrary: p)
    case (Cons st sts)
    then show ?case using pool_step_leaked [of sz k st p] by fastforce
  qed simp
  from this [of "replenish sz (newWarmPool digest)"] show ?thesis by (simp add: run_pool_def newWarmPool_def)
qed

text \<open>
  C29: A warm container has one owner. In every interleaving of claims, builders, drains and the
  shutdown, a container that exists is in exactly one place: ready in the pool, popped by one claim,
  handed to one session, with the builder, the drain or the shutdown that will destroy it, or left
  behind by a teardown of it that failed, which is logged and not tried again. No two claims get the
  same container, and none is forgotten but by such a failure; what is ready is of the current
  generation, the pool never exceeds its size, and builds never exceed the semaphore.
\<close>

theorem warm_containers_owned_once:
  fixes sz maxConc digest sts
  defines "p \<equiv> run_pool sz maxConc digest sts"
  shows "mset (Ready p) + mset (Claiming p) + mset (Claimed p) + mset (concat (map builder_owns (Builders p))) +
      mset (concat (map drainer_owns (Drainers p))) + mset (closer_owns (Closer p)) + mset (Leaked p) = mset_set (Live p) \<and>
    set (Leaked p) \<subseteq> (\<Union>st \<in> set sts. teardown_failures st) \<and>
    inj_on fst (Live p) \<and>
    snd ` set (Ready p) \<subseteq> {Digest p} \<and>
    length (Ready p) + Inflight p \<le> sz \<and>
    length (filter holds_sem (Builders p)) \<le> maxConc"
  using run_pool_inv [of sz maxConc digest sts] run_pool_leaked [of sz maxConc digest sts]
  unfolding p_def [symmetric] by (auto simp: pool_inv_def own_inv_def count_inv_def owned_def)

text \<open>
  What is left after the shutdown. When close has returned, every container that still exists
  was handed to a session, is in the hands of a claim, was left behind by a teardown that failed, or
  was taken out by a drain that has not destroyed it yet. The last case happens: a drain that took the
  stale containers and was not yet counted when close waited destroys them only later.
\<close>

theorem closed_pool_leftovers:
  assumes "Closer (run_pool sz maxConc digest sts) = Closed"
  shows "\<forall>c \<in> Live (run_pool sz maxConc digest sts).
    c \<in> set (Claimed (run_pool sz maxConc digest sts)) \<or> c \<in> set (Claiming (run_pool sz maxConc digest sts)) \<or>
    c \<in> set (Leaked (run_pool sz maxConc digest sts)) \<or>
    (\<exists>d \<in> set (Drainers (run_pool sz maxConc digest sts)). c \<in> set (drainer_owns d))"
proof
  let ?p = "run_pool sz maxConc digest sts"
  fix c assume "c \<in> Live ?p"
  moreover have inv: "owned ?p = mset_set (Live ?p)" "finite (Live ?p)" "Ready ?p = []" "Builders ?p = []"
    using run_pool_inv [of sz maxConc digest sts] assms by (simp_all add: pool_inv_defs own_inv_def)
  ultimately have "c \<in># owned ?p" by simp
  then show "c \<in> set (Claimed ?p) \<or> c \<in> set (Claiming ?p) \<or> c \<in> set (Leaked ?p) \<or>
      (\<exists>d \<in> set (Drainers ?p). c \<in> set (drainer_owns d))"
    using inv(3,4) assms by (auto simp: owned_def owns_defs)
qed

text \<open>The other case happens, too: a build is refused by a new generation and its teardown fails.\<close>

lemma failed_teardown_leaks:
  "let p = run_pool 1 1 ''d'' [Acquire ''d'', Drain ''e'', Launch [], Realize ''d'' BuildOk, Publish (Built (0, ''d'')),
      Discard (0, ''d'') [(0, ''d'')]]
   in Live p = {(0, ''d'')} \<and> Leaked p = [(0, ''d'')] \<and> Builders p = [] \<and> Drainers p = []"
  by (simp add: run_pool_def newWarmPool_def replenish_def pool_step_def publish_def drain_def launch_def
      waited_for_def destroy_def holds_sem_def Let_def)

definition late_drain :: "pool_step list" where
  "late_drain = [Acquire ''d'', Realize ''d'' BuildOk, Publish (Built (0, ''d'')), Drain ''e'', Close, Waited, Finish []]"

lemma late_drain_run:
  "run_pool 1 1 ''d'' late_drain = \<lparr>Ready = [], Inflight = 0, Digest = ''e'', IsClosed = True, Builders = [],
     Drainers = [Detached [(0, ''d'')]], Closer = Closed, Claiming = [], Claimed = [], Leaked = [], Live = {(0, ''d'')}, NextId = 1\<rparr>"
  by (simp add: run_pool_def late_drain_def newWarmPool_def replenish_def pool_step_def publish_def drain_def
      waited_for_def destroy_def holds_sem_def Let_def)

theorem closed_pool_leftovers_witness:
  "(0, ''d'') \<in> Live (run_pool 1 1 ''d'' late_drain) \<and> Closer (run_pool 1 1 ''d'' late_drain) = Closed \<and>
   (\<exists>d \<in> set (Drainers (run_pool 1 1 ''d'' late_drain)). (0, ''d'') \<in> set (drainer_owns d))"
  using closed_pool_leftovers [of 1 1 "''d''" late_drain] by (simp add: late_drain_run del: One_nat_def)

text \<open>
  A digest change during the first fill leaves the pool empty. The builders of the old generation
  count as in flight when the drain tops the pool up, so nothing is started for the new one; when
  they then refuse their containers nobody replenishes. The pool is open, empty and idle.
\<close>

theorem drain_during_fill_starves_pool:
  "\<exists>sts. let p = run_pool 1 1 ''d'' sts
     in \<not> IsClosed p \<and> Digest p = ''e'' \<and> Ready p = [] \<and> Builders p = [] \<and> Drainers p = [] \<and> Live p = {}"
proof (rule exI)
  let ?sts = "[Acquire ''d'', Drain ''e'', Launch [], Realize ''d'' BuildOk, Publish (Built (0, ''d'')), Discard (0, ''d'') []]"
  show "let p = run_pool 1 1 ''d'' ?sts
     in \<not> IsClosed p \<and> Digest p = ''e'' \<and> Ready p = [] \<and> Builders p = [] \<and> Drainers p = [] \<and> Live p = {}"
    by (simp add: run_pool_def newWarmPool_def replenish_def pool_step_def publish_def drain_def launch_def
        waited_for_def destroy_def holds_sem_def Let_def)
qed

end
