(* ===== verification/Project_Model.thy ===== *)
theory Project_Model
  imports Policy_Scope
begin

text \<open>
  \<^verbatim>\<open>internal/project/project.go\<close>, \<^verbatim>\<open>workspacepath.go\<close> and \<^verbatim>\<open>toolchain.go\<close>: the records of projects and
  environments, their validation at the trust boundary, the choice of a workspace directory with the
  scan for credential files, and the declared tools of a project. Times are strings; a Go map of
  capabilities is an association list.
\<close>

subsection \<open>Names\<close>

definition DefaultProjectID :: string where "DefaultProjectID = ''default''"
definition DefaultEnvironmentName :: string where "DefaultEnvironmentName = ''default''"
definition envIDSeparator :: char where "envIDSeparator = CHR ''.''"
definition DefaultEnvironmentID :: string where
  "DefaultEnvironmentID = DefaultProjectID @ envIDSeparator # DefaultEnvironmentName"

datatype project_error =
    InvalidInput string
  | NotFoundErr string
  | ExistsErr string
  | InUseErr string
  | ScopeErr scope_error
  | StoreErr string
  | SandboxErr string

definition name_head :: "char \<Rightarrow> bool" where
  "name_head c \<longleftrightarrow> (CHR ''a'' \<le> c \<and> c \<le> CHR ''z'') \<or> (CHR ''0'' \<le> c \<and> c \<le> CHR ''9'')"

definition name_tail :: "char \<Rightarrow> bool" where
  "name_tail c \<longleftrightarrow> name_head c \<or> c = CHR ''_'' \<or> c = CHR ''-''"

text \<open>The expression \<^verbatim>\<open>^[a-z0-9][a-z0-9_-]{0,63}$\<close>.\<close>

definition nameRe :: "string \<Rightarrow> bool" where
  "nameRe s \<longleftrightarrow> s \<noteq> [] \<and> name_head (hd s) \<and> list_all name_tail (tl s) \<and> length s \<le> 64"

definition ValidateName :: "string \<Rightarrow> string \<Rightarrow> project_error option" where
  "ValidateName kind name =
     (if name = [] then Some (InvalidInput (kind @ '' name is required''))
      else if \<not> nameRe name then Some (InvalidInput (kind @ '' name''))
      else None)"

definition EnvironmentID :: "string \<Rightarrow> string \<Rightarrow> string" where
  "EnvironmentID projectID name = projectID @ envIDSeparator # name"

lemma ValidateName_None: "ValidateName kind name = None \<longleftrightarrow> nameRe name"
  by (auto simp: ValidateName_def nameRe_def)

lemma nameRe_no_sep: "nameRe s \<Longrightarrow> envIDSeparator \<notin> set s"
  by (cases s) (auto simp: nameRe_def name_tail_def name_head_def envIDSeparator_def list_all_iff)

lemma EnvironmentID_inject:
  assumes "nameRe p" "nameRe q"
  shows "EnvironmentID p m = EnvironmentID q n \<longleftrightarrow> p = q \<and> m = n"
proof
  have t: "takeWhile (\<lambda>c. c \<noteq> envIDSeparator) (EnvironmentID r k) = r" if "nameRe r" for r k
    using nameRe_no_sep [OF that] unfolding EnvironmentID_def by (induction r) auto
  assume e: "EnvironmentID p m = EnvironmentID q n"
  then have "p = q" using t [OF assms(1), of m] t [OF assms(2), of n] by simp
  with e show "p = q \<and> m = n" by (simp add: EnvironmentID_def)
qed simp

subsection \<open>Records\<close>

datatype toolchain_status = ToolchainNone | ToolchainBuilding | ToolchainReady | ToolchainFailed | ToolchainUnavailable

record toolchain =
  Tools :: "string list"
  TStatus :: toolchain_status
  LayerDigest :: string
  FlakeLockHash :: string
  BuiltAt :: string
  TError :: string

definition no_toolchain :: toolchain where
  "no_toolchain = \<lparr>Tools = [], TStatus = ToolchainNone, LayerDigest = [], FlakeLockHash = [], BuiltAt = [], TError = []\<rparr>"

definition InUse :: "toolchain \<Rightarrow> bool" where
  "InUse t \<longleftrightarrow> TStatus t = ToolchainReady \<and> LayerDigest t \<noteq> []"

record Project =
  PID :: string
  PName :: string
  PCreated :: string
  RepoURL :: string
  Capabilities :: "(string \<times> string) list"
  PolicyFile :: string
  WorkspacePath :: string
  PToolchain :: toolchain

record Environment =
  EID :: string
  EProjectID :: string
  EName :: string
  ECreated :: string
  PolicyOverlay :: string
  EnvDefaultTier :: string
  EnvDefaultTTL :: string
  Production :: bool

record EnvironmentSpec =
  SName :: string
  SPolicyOverlay :: string
  SDefaultTier :: string
  SDefaultTTL :: string
  SProduction :: bool

record ProjectSpec =
  SpecName :: string
  SpecRepoURL :: string
  SpecCapabilities :: "(string \<times> string) list"
  SpecPolicyFile :: string
  SpecWorkspacePath :: string
  SpecEnvironments :: "EnvironmentSpec list"

subsection \<open>Validation\<close>

definition validateCapabilities :: "(string \<times> string) list \<Rightarrow> project_error + (string \<times> string) list" where
  "validateCapabilities caps =
     (case find (\<lambda>(role, tool). \<not> nameRe role \<or> \<not> nameRe tool) caps of
        Some (role, tool) \<Rightarrow> Inl (InvalidInput ''capability'')
      | None \<Rightarrow> Inr caps)"

definition validatePolicyPath :: "string \<Rightarrow> string \<Rightarrow> project_error option" where
  "validatePolicyPath field p =
     (if p = [] then None
      else if \<not> has_prefix p ''/'' then Some (InvalidInput (field @ '' must be an absolute path''))
      else if CHR 0x00 \<in> set p then Some (InvalidInput (field @ '' contains a NUL byte''))
      else None)"

definition validateRepoURL :: "string \<Rightarrow> project_error option" where
  "validateRepoURL u =
     (if u = [] then None
      else if length u > 512 then Some (InvalidInput ''repo_url is too long'')
      else if list_ex (\<lambda>r. r < CHR 0x20 \<or> r = CHR 0x7F) u then Some (InvalidInput ''repo_url control character'')
      else None)"

datatype lstat_result = LstatNotExist | LstatError string | IsSymlink | IsDir | IsFile

definition systemRoots :: "string list" where
  "systemRoots = [''/'', ''/etc'', ''/usr'', ''/bin'', ''/sbin'', ''/lib'', ''/lib64'', ''/boot'',
     ''/proc'', ''/sys'', ''/dev'', ''/run'', ''/var'', ''/opt'', ''/srv'', ''/root'']"

definition ValidateWorkspacePath :: "string option \<Rightarrow> (string \<Rightarrow> lstat_result) \<Rightarrow> string \<Rightarrow> project_error option" where
  "ValidateWorkspacePath home lstat p =
     (if p = [] then None
      else if CHR 0x00 \<in> set p then Some (InvalidInput ''workspace_path contains a NUL byte'')
      else if \<not> has_prefix p ''/'' then Some (InvalidInput ''workspace_path must be an absolute path'')
      else
        let clean = path_clean p
        in if clean \<noteq> p then Some (InvalidInput ''workspace_path is not in canonical form'')
           else if clean \<in> set systemRoots then Some (InvalidInput ''a system directory'')
           else if (case home of None \<Rightarrow> False | Some h \<Rightarrow> h \<noteq> [] \<and> clean = path_clean h)
             then Some (InvalidInput ''a home directory'')
           else case lstat clean of
                  LstatNotExist \<Rightarrow> None
                | LstatError e \<Rightarrow> Some (InvalidInput e)
                | IsSymlink \<Rightarrow> Some (InvalidInput ''a symlink'')
                | IsDir \<Rightarrow> None
                | IsFile \<Rightarrow> Some (InvalidInput ''not a directory''))"

definition validate_project :: "string option \<Rightarrow> (string \<Rightarrow> lstat_result) \<Rightarrow> ProjectSpec \<Rightarrow> project_error + Project" where
  "validate_project home lstat s =
     (case ValidateName ''project'' (SpecName s) of
        Some e \<Rightarrow> Inl e
      | None \<Rightarrow>
          (case validateCapabilities (SpecCapabilities s) of
             Inl e \<Rightarrow> Inl e
           | Inr caps \<Rightarrow>
               (case ValidateWorkspacePath home lstat (SpecWorkspacePath s) of
                  Some e \<Rightarrow> Inl e
                | None \<Rightarrow>
                    (case validatePolicyPath ''policy_file'' (SpecPolicyFile s) of
                       Some e \<Rightarrow> Inl e
                     | None \<Rightarrow>
                         (case validateRepoURL (SpecRepoURL s) of
                            Some e \<Rightarrow> Inl e
                          | None \<Rightarrow> Inr \<lparr>PID = SpecName s, PName = SpecName s, PCreated = [], RepoURL = SpecRepoURL s,
                              Capabilities = caps, PolicyFile = SpecPolicyFile s,
                              WorkspacePath = SpecWorkspacePath s, PToolchain = no_toolchain\<rparr>)))))"

definition validate_environment :: "string \<Rightarrow> EnvironmentSpec \<Rightarrow> project_error + Environment" where
  "validate_environment projectID s =
     (case ValidateName ''environment'' (SName s) of
        Some e \<Rightarrow> Inl e
      | None \<Rightarrow>
          (case validatePolicyPath ''policy_overlay'' (SPolicyOverlay s) of
             Some e \<Rightarrow> Inl e
           | None \<Rightarrow>
               if SDefaultTier s \<noteq> [] \<and> \<not> knownTier (SDefaultTier s) then Inl (InvalidInput ''unknown default_tier'')
               else if SDefaultTTL s \<noteq> [] \<and> ParseDuration (SDefaultTTL s) = None then Inl (InvalidInput ''invalid default_ttl'')
               else if SDefaultTTL s \<noteq> [] \<and> the (ParseDuration (SDefaultTTL s)) \<le> 0
                 then Inl (InvalidInput ''default_ttl must be positive'')
               else Inr \<lparr>EID = EnvironmentID projectID (SName s), EProjectID = projectID, EName = SName s,
                   ECreated = [], PolicyOverlay = SPolicyOverlay s, EnvDefaultTier = SDefaultTier s,
                   EnvDefaultTTL = SDefaultTTL s, Production = SProduction s\<rparr>))"

subsection \<open>The scan for credential files\<close>

definition secretDir :: "string \<Rightarrow> string option" where
  "secretDir b =
     (if b = ''.ssh'' then Some ''private keys''
      else if b \<in> {''.aws'', ''.azure'', ''.gcloud'', ''.kube''} then Some ''cloud credentials''
      else if b = ''.gnupg'' then Some ''GPG keys''
      else if b = ''.config'' then Some ''application credentials''
      else None)"

definition secretFile :: "string \<Rightarrow> string option" where
  "secretFile b =
     (let lower = to_lower b
      in if lower = ''.env'' \<or> has_prefix lower ''.env.'' then Some ''environment file''
         else if list_ex (has_suffix lower) [''.pem'', ''.key'', ''.p12'', ''.pfx''] then Some ''key material''
         else if list_ex (has_prefix lower) [''id_rsa'', ''id_ed25519'', ''id_ecdsa'', ''id_dsa''] then Some ''private key''
         else if lower \<in> {''.netrc'', ''.npmrc'', ''.pypirc'', ''.git-credentials''} then Some ''stored credentials''
         else if has_prefix lower ''credentials'' then Some ''credentials file''
         else if has_suffix lower ''.tfstate'' \<or> has_suffix lower ''.tfstate.backup'' then Some ''terraform state''
         else if lower = ''kubeconfig'' then Some ''cluster credentials''
         else None)"

text \<open>
  A directory tree in the order \<^verbatim>\<open>filepath.WalkDir\<close> visits it; an unreadable entry is skipped, and with
  it what is below. The walk threads the findings, the number of entries seen and whether it has
  stopped.
\<close>

datatype dir_entry = File string | Dir string "dir_entry list" | Unreadable

record scan_state =
  Found :: "(string \<times> string) list"
  Seen :: nat
  Stopped :: bool

definition scan_enter :: "nat \<Rightarrow> scan_state \<Rightarrow> scan_state" where
  "scan_enter limit s =
     (let s = s\<lparr>Seen := Seen s + 1\<rparr>
      in if Seen s > 200000 \<or> length (Found s) \<ge> limit then s\<lparr>Stopped := True\<rparr> else s)"

definition scan_add :: "string \<Rightarrow> string \<Rightarrow> scan_state \<Rightarrow> scan_state" where
  "scan_add rel why s = s\<lparr>Found := Found s @ [(rel, why)]\<rparr>"

fun scan :: "nat \<Rightarrow> string \<Rightarrow> dir_entry list \<Rightarrow> scan_state \<Rightarrow> scan_state" where
  "scan limit pre [] s = s"
| "scan limit pre (d # ds) s =
     (if Stopped s then s
      else case d of
        Unreadable \<Rightarrow> scan limit pre ds s
      | File b \<Rightarrow>
          (let s = scan_enter limit s
           in if Stopped s then s
              else scan limit pre ds (case secretFile b of Some why \<Rightarrow> scan_add (pre @ b) why s | None \<Rightarrow> s))
      | Dir b sub \<Rightarrow>
          (let s = scan_enter limit s
           in if Stopped s then s
              else case secretDir b of
                Some why \<Rightarrow> scan limit pre ds (scan_add (pre @ b @ ''/'') why s)
              | None \<Rightarrow> scan limit pre ds (scan limit (pre @ b @ ''/'') sub s)))"

definition ScanForSecrets :: "dir_entry list \<Rightarrow> int \<Rightarrow> (string \<times> string) list" where
  "ScanForSecrets tree limit =
     Found (scan (if limit \<le> 0 then 50 else nat limit) [] tree \<lparr>Found = [], Seen = 1, Stopped = False\<rparr>)"

subsection \<open>Tools\<close>

definition nixPkgRe :: "string \<Rightarrow> bool" where
  "nixPkgRe s \<longleftrightarrow>
     (let al = (\<lambda>c. (CHR ''a'' \<le> c \<and> c \<le> CHR ''z'') \<or> (CHR ''A'' \<le> c \<and> c \<le> CHR ''Z'') \<or> (CHR ''0'' \<le> c \<and> c \<le> CHR ''9''))
      in s \<noteq> [] \<and> al (hd s) \<and> list_all (\<lambda>c. al c \<or> c \<in> set ''._+-'') (tl s) \<and> length s \<le> 64)"

definition ValidateTools :: "string list \<Rightarrow> project_error + string list" where
  "ValidateTools ts =
     (if length ts > 64 then Inl (InvalidInput ''too many tools'')
      else
        let names = filter (\<lambda>t. t \<noteq> []) (map trim_space ts)
        in if \<exists>t \<in> set names. \<not> nixPkgRe t then Inl (InvalidInput ''not a valid package name'')
           else Inr (canon names))"

definition NixPackageFor :: "string \<Rightarrow> string" where
  "NixPackageFor tool =
     (if tool = ''kubernetes'' then ''kubectl''
      else if tool = ''helm'' then ''kubernetes-helm''
      else if tool = ''gitlab'' then ''glab''
      else if tool = ''github'' then ''gh''
      else if tool = ''aws'' then ''awscli2''
      else if tool = ''azure'' then ''azure-cli''
      else if tool = ''gcp'' \<or> tool = ''gcloud'' then ''google-cloud-sdk''
      else if tool = ''docker'' then ''docker-client''
      else tool)"

definition BaselinePackages :: "string list" where
  "BaselinePackages = [''git'', ''curl'', ''jq'', ''openssh'', ''bash'', ''coreutils'', ''findutils'', ''gnugrep'',
     ''gnused'', ''gawk'', ''less'', ''unzip'', ''gzip'', ''gnutar'', ''cacert'', ''which'']"

definition ToolchainFor :: "(string \<times> string) list \<Rightarrow> string list" where
  "ToolchainFor caps = canon (BaselinePackages @ filter (\<lambda>p. p \<noteq> []) (map (\<lambda>(role, tool). NixPackageFor tool) caps))"

subsection \<open>What the scan finds\<close>

text \<open>All findings of a tree, without the bounds.\<close>

fun secrets :: "string \<Rightarrow> dir_entry list \<Rightarrow> (string \<times> string) list" where
  "secrets pre [] = []"
| "secrets pre (Unreadable # ds) = secrets pre ds"
| "secrets pre (File b # ds) =
     (case secretFile b of Some why \<Rightarrow> [(pre @ b, why)] | None \<Rightarrow> []) @ secrets pre ds"
| "secrets pre (Dir b sub # ds) =
     (case secretDir b of Some why \<Rightarrow> [(pre @ b @ ''/'', why)] | None \<Rightarrow> secrets (pre @ b @ ''/'') sub) @ secrets pre ds"

fun entries :: "dir_entry list \<Rightarrow> nat" where
  "entries [] = 0"
| "entries (Unreadable # ds) = entries ds"
| "entries (File b # ds) = Suc (entries ds)"
| "entries (Dir b sub # ds) = Suc (entries sub + entries ds)"

definition scan_ok :: "nat \<Rightarrow> scan_state \<Rightarrow> bool" where
  "scan_ok limit s \<longleftrightarrow> length (Found s) \<le> limit \<and> (Stopped s \<longrightarrow> length (Found s) = limit)"

lemma scan_enter_ok:
  assumes "scan_ok limit s" "\<not> Stopped s" "Seen s < 200000"
  shows "scan_ok limit (scan_enter limit s)" "Found (scan_enter limit s) = Found s"
    "Seen (scan_enter limit s) = Suc (Seen s)" "Stopped (scan_enter limit s) \<longleftrightarrow> length (Found s) = limit"
  using assms by (auto simp: scan_enter_def scan_ok_def Let_def)

lemma scan_add_ok:
  "scan_ok limit s \<Longrightarrow> \<not> Stopped s \<Longrightarrow> length (Found s) \<noteq> limit \<Longrightarrow> scan_ok limit (scan_add r w s)"
  "Found (scan_add r w s) = Found s @ [(r, w)]" "Seen (scan_add r w s) = Seen s" "Stopped (scan_add r w s) = Stopped s"
  by (auto simp: scan_add_def scan_ok_def)

lemma scan_file_step:
  assumes "scan_ok limit s" "\<not> Stopped s" "Seen s < 200000" "length (Found s) \<noteq> limit"
  obtains s2 where "scan limit pre (dir_entry.File b # ds) s = scan limit pre ds s2" "scan_ok limit s2"
    "Seen s2 = Suc (Seen s)"
    "Found s2 = Found s @ (case secretFile b of Some why \<Rightarrow> [(pre @ b, why)] | None \<Rightarrow> [])"
proof -
  define s1 where "s1 = scan_enter limit s"
  note e = scan_enter_ok [OF assms(1-3), folded s1_def]
  have ns: "\<not> Stopped s1" using e assms(4) by simp
  have l: "length (Found s1) \<noteq> limit" using e assms(4) by simp
  show thesis
    by (rule that [of "case secretFile b of Some why \<Rightarrow> scan_add (pre @ b) why s1 | None \<Rightarrow> s1"])
      (use ns assms(2) e l in \<open>auto simp: s1_def [symmetric] Let_def scan_add_ok split: option.split\<close>)
qed

lemma scan_dir_step:
  assumes "scan_ok limit s" "\<not> Stopped s" "Seen s < 200000" "length (Found s) \<noteq> limit"
  obtains s1 where "scan_ok limit s1" "Seen s1 = Suc (Seen s)" "Found s1 = Found s" "\<not> Stopped s1"
    "scan limit pre (dir_entry.Dir b sub # ds) s =
      (case secretDir b of
         Some why \<Rightarrow> scan limit pre ds (scan_add (pre @ b @ ''/'') why s1)
       | None \<Rightarrow> scan limit pre ds (scan limit (pre @ b @ ''/'') sub s1))"
proof -
  define s1 where "s1 = scan_enter limit s"
  note e = scan_enter_ok [OF assms(1-3), folded s1_def]
  show thesis
    by (rule that [of s1]) (use assms(2,4) e in \<open>auto simp: s1_def [symmetric] Let_def split: option.split\<close>)
qed

lemma scan_full:
  assumes "scan_ok limit s" "Stopped s \<or> length (Found s) = limit" "Seen s + entries ds \<le> 200000"
  shows "scan_ok limit (scan limit pre ds s)" "Found (scan limit pre ds s) = Found s"
    "Seen (scan limit pre ds s) \<le> Seen s + entries ds"
proof -
  have "Found (scan limit pre ds s) = Found s \<and> scan_ok limit (scan limit pre ds s) \<and>
      Seen (scan limit pre ds s) \<le> Seen s + entries ds"
  proof (cases "Stopped s")
    case True
    then show ?thesis using assms(1) by (cases ds) (auto simp: scan_ok_def)
  next
    case False
    then have full: "length (Found s) = limit" using assms(2) by simp
    from assms(3) show ?thesis
    proof (induction ds)
      case Nil
      then show ?case using assms(1) by simp
    next
      case (Cons d ds)
      show ?case
      proof (cases "d = Unreadable")
        case True
        then show ?thesis using Cons False by simp
      next
        case f: False
        have seen: "Seen s < 200000" using Cons.prems f by (cases d) auto
        note e = scan_enter_ok [OF assms(1) False seen]
        have "scan limit pre (d # ds) s = scan_enter limit s"
          using f False e full by (cases d) (auto simp: Let_def)
        then show ?thesis using e f by (cases d) auto
      qed
    qed
  qed
  then show "scan_ok limit (scan limit pre ds s)" "Found (scan limit pre ds s) = Found s"
    "Seen (scan limit pre ds s) \<le> Seen s + entries ds" by auto
qed

lemma scan_ok_lims: "scan_ok limit s \<Longrightarrow> length (Found s) \<le> limit"
  by (simp add: scan_ok_def)

lemma scan_spec:
  assumes "scan_ok limit s" "Seen s + entries ds \<le> 200000"
  shows "scan_ok limit (scan limit pre ds s) \<and>
    Found (scan limit pre ds s) = take limit (Found s @ secrets pre ds) \<and>
    Seen (scan limit pre ds s) \<le> Seen s + entries ds"
  using assms
proof (induction pre ds arbitrary: s rule: secrets.induct)
  case (1 pre)
  then show ?case by (simp add: scan_ok_def)
next
  case (2 pre ds)
  show ?case
  proof (cases "Stopped s")
    case True
    then show ?thesis using 2(2) by (simp add: scan_ok_def)
  next
    case False
    then show ?thesis using 2 by simp
  qed
next
  case (3 pre b ds)
  show ?case
  proof (cases "Stopped s \<or> length (Found s) = limit")
    case True
    then show ?thesis using scan_full [OF 3(2) True 3(3)] 3(2) by (auto simp: scan_ok_def)
  next
    case False
    then have ns: "\<not> Stopped s" "length (Found s) \<noteq> limit" "Seen s < 200000" using 3(3) by auto
    obtain s2 where s2: "scan limit pre (dir_entry.File b # ds) s = scan limit pre ds s2" "scan_ok limit s2"
        "Seen s2 = Suc (Seen s)"
        "Found s2 = Found s @ (case secretFile b of Some why \<Rightarrow> [(pre @ b, why)] | None \<Rightarrow> [])"
      by (rule scan_file_step [OF 3(2) ns(1,3,2)])
    then show ?thesis using 3(1) [of s2] 3(3) by (simp split: option.split)
  qed
next
  case (4 pre b sub ds)
  show ?case
  proof (cases "Stopped s \<or> length (Found s) = limit")
    case True
    then show ?thesis using scan_full [OF 4(3) True 4(4)] 4(3) by (auto simp: scan_ok_def)
  next
    case False
    then have ns: "\<not> Stopped s" "length (Found s) \<noteq> limit" "Seen s < 200000" using 4(4) by auto
    obtain s1 where s1: "scan_ok limit s1" "Seen s1 = Suc (Seen s)" "Found s1 = Found s" "\<not> Stopped s1"
        "scan limit pre (dir_entry.Dir b sub # ds) s =
          (case secretDir b of
             Some why \<Rightarrow> scan limit pre ds (scan_add (pre @ b @ ''/'') why s1)
           | None \<Rightarrow> scan limit pre ds (scan limit (pre @ b @ ''/'') sub s1))"
      by (rule scan_dir_step [OF 4(3) ns(1,3,2)])
    show ?thesis
    proof (cases "secretDir b")
      case (Some why)
      have "scan_ok limit (scan_add (pre @ b @ ''/'') why s1)"
        using s1 ns by (intro scan_add_ok) auto
      then show ?thesis using 4(2) [of "scan_add (pre @ b @ ''/'') why s1"] s1 4(4) Some
        by (simp add: scan_add_ok)
    next
      case None
      define s2 where "s2 = scan limit (pre @ b @ ''/'') sub s1"
      have s2: "scan_ok limit s2" "Found s2 = take limit (Found s1 @ secrets (pre @ b @ ''/'') sub)"
          "Seen s2 \<le> Seen s1 + entries sub"
        using 4(1) [OF None, of s1] s1 4(4) by (auto simp: s2_def)
      have r: "scan limit pre (dir_entry.Dir b sub # ds) s = scan limit pre ds s2" using s1(5) None by (simp add: s2_def)
      have "scan_ok limit (scan limit pre ds s2) \<and> Found (scan limit pre ds s2) = take limit (Found s2 @ secrets pre ds) \<and>
          Seen (scan limit pre ds s2) \<le> Seen s2 + entries ds"
        by (rule 4(2)) (use s2 s1 4(4) in auto)
      then show ?thesis unfolding r using s2 s1 None scan_ok_lims [OF 4(3)] by (auto simp: take_append min_def)
    qed
  qed
qed

text \<open>
  The scan reports every credential file, up to its limit. On a tree of fewer than 200,000
  entries, the findings are exactly the first ones, in walking order, of all files with a name
  of the list and all directories with such a name, those outermost and not what is in them.
\<close>

theorem scan_is_exhaustive:
  assumes "entries tree < 200000"
  shows "ScanForSecrets tree limit = take (if limit \<le> 0 then 50 else nat limit) (secrets [] tree)"
  using scan_spec [of "if limit \<le> 0 then 50 else nat limit" "\<lparr>Found = [], Seen = 1, Stopped = False\<rparr>" tree "[]"] assms
  by (simp add: ScanForSecrets_def scan_ok_def)

definition repo_tree :: "dir_entry list" where
  "repo_tree = [Dir ''.ssh'' [File ''id_rsa''], Dir ''app'' [File ''main.go'', File ''.env.prod''], File ''Server.PEM'']"

theorem scan_is_exhaustive_witness:
  "ScanForSecrets repo_tree 2 = [(''.ssh/'', ''private keys''), (''app/.env.prod'', ''environment file'')]"
proof -
  have "secrets [] repo_tree = [(''.ssh/'', ''private keys''), (''app/.env.prod'', ''environment file''),
      (''Server.PEM'', ''key material'')]" by code_simp
  then show ?thesis using scan_is_exhaustive [of repo_tree 2] by (simp add: repo_tree_def)
qed

text \<open>
  Neither is an ancestor of the home directory refused, nor is the rest of a path looked at for
  links: with \<open>/home\<close> as the workspace every home directory is mounted.
\<close>

lemma workspace_above_home_accepted:
  "ValidateWorkspacePath (Some ''/home/u'') (\<lambda>_. IsDir) ''/home'' = None"
  by code_simp

end
