(* ===== verification/Project_Store.thy ===== *)
theory Project_Store
  imports Project_Model
begin

text \<open>
  \<^verbatim>\<open>internal/project/store.go\<close> and the reading side of \<^verbatim>\<open>service.go\<close>. A directory of records is the
  association list of its \<^verbatim>\<open>.json\<close> files, by the id in the file name; a file holds a record, does not
  parse, or cannot be read. The argument \<open>io\<close> says which paths the operation at hand manages to
  write or remove. Both directories satisfy the contract \<open>record_store\<close>; the service above is
  reasoned about through it.
\<close>

subsection \<open>A directory of records\<close>

datatype 'a stored = Good 'a | Corrupt | Unreadable

type_synonym 'a files = "(string \<times> 'a stored) list"

definition safeRecordID :: "string \<Rightarrow> string \<Rightarrow> project_error option" where
  "safeRecordID kind i =
     (if i = [] then Some (InvalidInput (''empty '' @ kind @ '' id''))
      else if i \<noteq> path_base i \<or> i = ''.'' \<or> i = ''..'' \<or> list_ex (\<lambda>c. c \<in> {CHR ''/'', CHR 0x5C, CHR 0x00}) i
        then Some (InvalidInput (''unsafe '' @ kind @ '' id''))
      else None)"

definition record_path :: "string \<Rightarrow> string \<Rightarrow> string" where
  "record_path kind i = kind @ ''s/'' @ i @ ''.json''"

definition load_record :: "string \<Rightarrow> 'a files \<Rightarrow> string \<Rightarrow> project_error + 'a option" where
  "load_record kind fs i =
     (case safeRecordID kind i of
        Some e \<Rightarrow> Inl e
      | None \<Rightarrow>
          (case map_of fs i of
             None \<Rightarrow> Inr None
           | Some Unreadable \<Rightarrow> Inl (StoreErr (''read '' @ kind))
           | Some Corrupt \<Rightarrow> Inl (StoreErr (''parse '' @ kind))
           | Some (Good a) \<Rightarrow> Inr (Some a)))"

definition load_records :: "string \<Rightarrow> ('a \<Rightarrow> string) \<Rightarrow> 'a files \<Rightarrow> project_error + 'a list" where
  "load_records kind rid fs =
     (if Unreadable \<in> snd ` set fs then Inl (StoreErr (''read '' @ kind))
      else Inr (sort_key rid (concat (map (\<lambda>(i, s). case s of Good a \<Rightarrow> [a] | _ \<Rightarrow> []) (sort_key fst fs)))))"

definition save_record ::
  "string \<Rightarrow> ('a \<Rightarrow> string) \<Rightarrow> (string \<Rightarrow> bool) \<Rightarrow> 'a \<Rightarrow> 'a files \<Rightarrow> project_error option \<times> 'a files" where
  "save_record kind rid io a fs =
     (case safeRecordID kind (rid a) of
        Some e \<Rightarrow> (Some e, fs)
      | None \<Rightarrow>
          if io (record_path kind (rid a)) then (None, al_put (rid a) (Good a) fs)
          else (Some (StoreErr (''write '' @ kind)), fs))"

definition delete_record ::
  "string \<Rightarrow> (string \<Rightarrow> bool) \<Rightarrow> string \<Rightarrow> 'a files \<Rightarrow> project_error option \<times> 'a files" where
  "delete_record kind io i fs =
     (case safeRecordID kind i of
        Some e \<Rightarrow> (Some e, fs)
      | None \<Rightarrow>
          if map_of fs i = None then (None, fs)
          else if io (record_path kind i) then (None, al_del i fs)
          else (Some (StoreErr (''delete '' @ kind)), fs))"

definition stored_at :: "'a files \<Rightarrow> string \<Rightarrow> 'a option" where
  "stored_at fs i = (case map_of fs i of Some (Good a) \<Rightarrow> Some a | _ \<Rightarrow> None)"

subsection \<open>The contract of the store\<close>

text \<open>
  What the service relies on: a load returns what is stored under the id, a save that succeeds puts
  the record under its own id and touches nothing else, a deletion removes one id, and an operation
  that fails leaves the directory as it was.
\<close>

locale record_store =
  fixes load :: "'f \<Rightarrow> string \<Rightarrow> project_error + 'a option"
    and save :: "(string \<Rightarrow> bool) \<Rightarrow> 'a \<Rightarrow> 'f \<Rightarrow> project_error option \<times> 'f"
    and del :: "(string \<Rightarrow> bool) \<Rightarrow> string \<Rightarrow> 'f \<Rightarrow> project_error option \<times> 'f"
    and rid :: "'a \<Rightarrow> string"
    and content :: "'f \<Rightarrow> string \<Rightarrow> 'a option"
  assumes load_content: "load f i = Inr (Some a) \<Longrightarrow> content f i = Some a"
    and load_absent: "load f i = Inr None \<Longrightarrow> content f i = None"
    and save_content: "save io a f = (None, f') \<Longrightarrow> content f' = (content f)(rid a \<mapsto> a)"
    and save_failed: "save io a f = (Some e, f') \<Longrightarrow> f' = f"
    and del_content: "del io i f = (None, f') \<Longrightarrow> content f' = (content f)(i := None)"
    and del_failed: "del io i f = (Some e, f') \<Longrightarrow> f' = f"
begin

lemma save_cases:
  obtains "content (snd (save io a f)) = content f" | "content (snd (save io a f)) = (content f)(rid a \<mapsto> a)"
proof (cases "save io a f")
  case (Pair r f')
  show thesis
  proof (cases r)
    case None
    then show thesis using save_content Pair that(2) by simp
  next
    case (Some e)
    then show thesis using save_failed [of io a f e f'] Pair that(1) by simp
  qed
qed

lemma del_cases:
  obtains "content (snd (del io i f)) = content f" | "content (snd (del io i f)) = (content f)(i := None)"
proof (cases "del io i f")
  case (Pair r f')
  show thesis
  proof (cases r)
    case None
    then show thesis using del_content Pair that(2) by simp
  next
    case (Some e)
    then show thesis using del_failed [of io i f e f'] Pair that(1) by simp
  qed
qed

lemma del_content_other: "j \<noteq> i \<Longrightarrow> content (snd (del io i f)) j = content f j"
  by (rule del_cases [of io i f]) simp_all

lemma del_subset: "content (snd (del io i f)) j = Some a \<Longrightarrow> content f j = Some a"
  by (rule del_cases [of io i f]) (simp_all split: if_splits)

text \<open>Records stay under their own ids.\<close>

definition filed :: "'f \<Rightarrow> bool" where
  "filed f \<longleftrightarrow> (\<forall>i a. content f i = Some a \<longrightarrow> rid a = i)"

lemma filed_save: "filed f \<Longrightarrow> filed (snd (save io b f))"
  unfolding filed_def by (rule save_cases [of io b f]) simp_all

lemma filed_del: "filed f \<Longrightarrow> filed (snd (del io i f))"
  unfolding filed_def by (auto dest: del_subset)

end

lemma safeRecordID_plain:
  assumes "i \<noteq> []" "i \<noteq> ''.''" "i \<noteq> ''..''" and "\<And>c. c \<in> set i \<Longrightarrow> c \<notin> {CHR ''/'', CHR 0x5C, CHR 0x00}"
  shows "safeRecordID kind i = None"
proof -
  have "CHR ''/'' \<notin> set i" using assms(4) by blast
  then have "path_base i = i" using assms(1) by (rule path_base_plain [rotated])
  moreover have "\<not> list_ex (\<lambda>c. c \<in> {CHR ''/'', CHR 0x5C, CHR 0x00}) i"
    unfolding list_ex_iff using assms(4) by blast
  ultimately show ?thesis using assms(1-3) unfolding safeRecordID_def by (simp only: if_False simp_thms)
qed

lemma name_tail_plain: "name_tail c \<Longrightarrow> c \<notin> {CHR ''/'', CHR 0x5C, CHR 0x00}" "name_tail c \<Longrightarrow> c \<noteq> CHR ''.''"
  by (auto simp: name_tail_def name_head_def)

lemma nameRe_chars: "nameRe i \<Longrightarrow> c \<in> set i \<Longrightarrow> name_tail c"
  by (cases i) (auto simp: nameRe_def name_tail_def list_all_iff)

lemma nameRe_hd: "nameRe i \<Longrightarrow> \<exists>c r. i = c # r \<and> c \<noteq> CHR ''.''"
  by (cases i) (auto simp: nameRe_def name_head_def)

lemma safeRecordID_name: "nameRe i \<Longrightarrow> safeRecordID kind i = None"
proof (rule safeRecordID_plain)
  assume n: "nameRe i"
  then obtain c r where "i = c # r" "c \<noteq> CHR ''.''" using nameRe_hd by blast
  then show "i \<noteq> []" "i \<noteq> ''.''" "i \<noteq> ''..''" by simp_all
  fix c assume "c \<in> set i"
  then show "c \<notin> {CHR ''/'', CHR 0x5C, CHR 0x00}" using nameRe_chars [OF n] name_tail_plain(1) by blast
qed

lemma safeRecordID_env: "nameRe p \<Longrightarrow> nameRe n \<Longrightarrow> safeRecordID kind (EnvironmentID p n) = None"
proof (rule safeRecordID_plain)
  assume n: "nameRe p" "nameRe n"
  then obtain c r where "p = c # r" "c \<noteq> CHR ''.''" using nameRe_hd by blast
  then show "EnvironmentID p n \<noteq> []" "EnvironmentID p n \<noteq> ''.''" "EnvironmentID p n \<noteq> ''..''"
    by (simp_all add: EnvironmentID_def)
  fix c assume "c \<in> set (EnvironmentID p n)"
  then have "name_tail c \<or> c = CHR ''.''"
    using nameRe_chars n by (auto simp: EnvironmentID_def envIDSeparator_def)
  then show "c \<notin> {CHR ''/'', CHR 0x5C, CHR 0x00}" using name_tail_plain(1) by auto
qed

lemma files_store:
  "record_store (load_record kind) (save_record kind rid) (delete_record kind) rid stored_at"
proof
  fix f :: "'a files" and f' i and a :: 'a and e io
  show "load_record kind f i = Inr (Some a) \<Longrightarrow> stored_at f i = Some a"
    "load_record kind f i = Inr None \<Longrightarrow> stored_at f i = None"
    by (auto simp: load_record_def stored_at_def split: option.splits stored.splits)
  show "save_record kind rid io a f = (None, f') \<Longrightarrow> stored_at f' = (stored_at f)(rid a \<mapsto> a)"
    "save_record kind rid io a f = (Some e, f') \<Longrightarrow> f' = f"
    by (auto simp: save_record_def stored_at_def fun_eq_iff split: option.splits if_splits)
  show "delete_record kind io i f = (None, f') \<Longrightarrow> stored_at f' = (stored_at f)(i := None)"
    "delete_record kind io i f = (Some e, f') \<Longrightarrow> f' = f"
    by (auto simp: delete_record_def stored_at_def fun_eq_iff split: option.splits if_splits)
qed

interpretation proj_store: record_store "load_record ''project''" "save_record ''project'' PID"
    "delete_record ''project''" PID stored_at
  by (rule files_store)

interpretation env_store: record_store "load_record ''environment''" "save_record ''environment'' EID"
    "delete_record ''environment''" EID stored_at
  by (rule files_store)

subsection \<open>Listing\<close>

definition files_ok :: "('a \<Rightarrow> string) \<Rightarrow> 'a files \<Rightarrow> bool" where
  "files_ok rid fs \<longleftrightarrow> distinct (map fst fs) \<and> (\<forall>i a. (i, Good a) \<in> set fs \<longrightarrow> rid a = i)"

lemma stored_at_Some: "distinct (map fst fs) \<Longrightarrow> stored_at fs i = Some a \<longleftrightarrow> (i, Good a) \<in> set fs"
proof -
  assume d: "distinct (map fst fs)"
  have "stored_at fs i = Some a \<longleftrightarrow> map_of fs i = Some (Good a)"
    by (simp add: stored_at_def split: option.split stored.split)
  then show ?thesis using map_of_eq_Some_iff [OF d] by simp
qed

lemma load_records_mem:
  assumes "load_records kind rid fs = Inr xs"
  shows "a \<in> set xs \<longleftrightarrow> (\<exists>i. (i, Good a) \<in> set fs)"
  using assms by (auto simp: load_records_def split: if_splits stored.splits) force

lemma load_records_set:
  assumes "load_records kind rid fs = Inr xs" and "distinct (map fst fs)"
  shows "a \<in> set xs \<longleftrightarrow> (\<exists>i. stored_at fs i = Some a)"
  by (simp add: load_records_mem [OF assms(1)] stored_at_Some [OF assms(2)])

lemma good_ids:
  "\<forall>i a. (i, Good a) \<in> set fs \<longrightarrow> rid a = i \<Longrightarrow>
   map rid (concat (map (\<lambda>(i, s). case s of Good a \<Rightarrow> [a] | _ \<Rightarrow> []) fs)) =
   map fst (filter (\<lambda>(i, s). case s of Good a \<Rightarrow> True | _ \<Rightarrow> False) fs)"
  by (induction fs) (auto split: stored.split)

lemma load_records_distinct:
  assumes "load_records kind rid fs = Inr xs" and "files_ok rid fs"
  shows "distinct (map rid xs)"
proof -
  let ?gs = "concat (map (\<lambda>(i, s). case s of Good a \<Rightarrow> [a] | _ \<Rightarrow> []) (sort_key fst fs))"
  have own: "\<forall>i a. (i, Good a) \<in> set (sort_key fst fs) \<longrightarrow> rid a = i"
    using assms(2) by (simp add: files_ok_def)
  have "distinct (map fst (sort_key fst fs))"
    using assms(2) by (simp add: files_ok_def distinct_map)
  then have "distinct (map rid ?gs)"
    unfolding good_ids [OF own] by (simp add: distinct_map inj_on_def)
  moreover have "xs = sort_key rid ?gs" using assms(1) by (simp add: load_records_def split: if_splits)
  ultimately show ?thesis by (simp add: distinct_map)
qed

lemma al_put_in: "(i, s) \<in> set (al_put k v fs) \<Longrightarrow> (i, s) = (k, v) \<or> (i, s) \<in> set fs"
  by (induction k v fs rule: al_put.induct) (auto split: if_splits)

lemma files_ok_put: "files_ok rid fs \<Longrightarrow> files_ok rid (al_put (rid a) (Good a) fs)"
  unfolding files_ok_def by (auto intro!: distinct_al_put dest: al_put_in)

lemma files_ok_save: "files_ok rid fs \<Longrightarrow> files_ok rid (snd (save_record kind rid io a fs))"
  using files_ok_put [of rid fs a] by (auto simp: save_record_def split: option.split)

lemma files_ok_del: "files_ok rid fs \<Longrightarrow> files_ok rid (al_del i fs)"
  unfolding files_ok_def using distinct_al_del [of fs i] by (auto simp: al_del_def)

lemma files_ok_delete: "files_ok rid fs \<Longrightarrow> files_ok rid (snd (delete_record kind io i fs))"
  using files_ok_del [of rid fs i] by (auto simp: delete_record_def split: option.split)

end
