(* ===== verification/Project_Service.thy ===== *)
theory Project_Service
  imports Project_Store
begin

text \<open>
  \<^verbatim>\<open>internal/project/service.go\<close>: bootstrap, creation, listing, scope resolution and removal, with
  the sandboxes of \<^verbatim>\<open>internal/session/manager.go\<close> the removals consult. A removal gives up the
  service's lock between its phases, so each phase is an operation of its own here; the methods are
  their compositions, and the next theory interleaves them. \<open>io\<close> says which writes succeed, \<open>now\<close>
  is the clock.
\<close>

subsection \<open>The state of the service and of the sandboxes\<close>

text \<open>
  \<open>Removing\<close> holds the claimed environment ids. \<open>LiveS\<close> is the manager's map of live sessions with
  their scopes, \<open>Inflight\<close> its counter of creates per scope, \<open>Containers\<close> what actually runs.
\<close>

record world =
  Projs :: "Project files"
  Envs :: "Environment files"
  Removing :: "string list"
  LiveS :: "(string \<times> string \<times> string) list"
  Inflight :: "((string \<times> string) \<times> nat) list"
  Containers :: "(string \<times> string \<times> string) list"

type_synonym fallible_io = "string \<Rightarrow> bool"

definition LoadProject :: "world \<Rightarrow> string \<Rightarrow> project_error + Project option" where
  "LoadProject w i = load_record ''project'' (Projs w) i"

definition LoadProjects :: "world \<Rightarrow> project_error + Project list" where
  "LoadProjects w = load_records ''project'' PID (Projs w)"

definition LoadEnvironment :: "world \<Rightarrow> string \<Rightarrow> project_error + Environment option" where
  "LoadEnvironment w i = load_record ''environment'' (Envs w) i"

definition LoadEnvironments :: "world \<Rightarrow> project_error + Environment list" where
  "LoadEnvironments w = load_records ''environment'' EID (Envs w)"

definition SaveProject :: "fallible_io \<Rightarrow> Project \<Rightarrow> world \<Rightarrow> project_error option \<times> world" where
  "SaveProject io p w =
     (case save_record ''project'' PID io p (Projs w) of (r, fs) \<Rightarrow> (r, w\<lparr>Projs := fs\<rparr>))"

definition SaveEnvironment :: "fallible_io \<Rightarrow> Environment \<Rightarrow> world \<Rightarrow> project_error option \<times> world" where
  "SaveEnvironment io e w =
     (case save_record ''environment'' EID io e (Envs w) of (r, fs) \<Rightarrow> (r, w\<lparr>Envs := fs\<rparr>))"

definition DeleteProject :: "fallible_io \<Rightarrow> string \<Rightarrow> world \<Rightarrow> project_error option \<times> world" where
  "DeleteProject io i w =
     (case delete_record ''project'' io i (Projs w) of (r, fs) \<Rightarrow> (r, w\<lparr>Projs := fs\<rparr>))"

definition DeleteEnvironment :: "fallible_io \<Rightarrow> string \<Rightarrow> world \<Rightarrow> project_error option \<times> world" where
  "DeleteEnvironment io i w =
     (case delete_record ''environment'' io i (Envs w) of (r, fs) \<Rightarrow> (r, w\<lparr>Envs := fs\<rparr>))"

subsection \<open>Bootstrap and creation\<close>

definition default_project :: "string \<Rightarrow> Project" where
  "default_project now = \<lparr>PID = DefaultProjectID, PName = DefaultProjectID, PCreated = now, RepoURL = [],
     Capabilities = [], PolicyFile = [], WorkspacePath = [], PToolchain = no_toolchain\<rparr>"

definition default_environment :: "string \<Rightarrow> Environment" where
  "default_environment now = \<lparr>EID = DefaultEnvironmentID, EProjectID = DefaultProjectID,
     EName = DefaultEnvironmentName, ECreated = now, PolicyOverlay = [], EnvDefaultTier = [],
     EnvDefaultTTL = [], Production = False\<rparr>"

definition bootstrap :: "fallible_io \<Rightarrow> string \<Rightarrow> world \<Rightarrow> project_error option \<times> world" where
  "bootstrap io now w =
     (case LoadProject w DefaultProjectID of
        Inl e \<Rightarrow> (Some e, w)
      | Inr found \<Rightarrow>
          (case (if found = None then SaveProject io (default_project now) w else (None, w)) of
             (Some e, w) \<Rightarrow> (Some e, w)
           | (None, w) \<Rightarrow>
               (case LoadEnvironment w DefaultEnvironmentID of
                  Inl e \<Rightarrow> (Some e, w)
                | Inr found \<Rightarrow>
                    if found = None then SaveEnvironment io (default_environment now) w else (None, w))))"

fun validate_envs :: "string \<Rightarrow> string list \<Rightarrow> EnvironmentSpec list \<Rightarrow> project_error + Environment list" where
  "validate_envs pid seen [] = Inr []"
| "validate_envs pid seen (es # specs) =
     (case validate_environment pid es of
        Inl e \<Rightarrow> Inl e
      | Inr e \<Rightarrow>
          if EName e \<in> set seen then Inl (InvalidInput ''environment is listed twice'')
          else rbind (validate_envs pid (EName e # seen) specs) (\<lambda>envs. Inr (e # envs)))"

fun save_envs :: "fallible_io \<Rightarrow> string \<Rightarrow> Environment list \<Rightarrow> world \<Rightarrow> project_error option \<times> world" where
  "save_envs io now [] w = (None, w)"
| "save_envs io now (e # es) w =
     (case SaveEnvironment io (e\<lparr>ECreated := now\<rparr>) w of
        (Some err, w) \<Rightarrow> (Some err, w)
      | (None, w) \<Rightarrow> save_envs io now es w)"

definition default_spec :: EnvironmentSpec where
  "default_spec = \<lparr>SName = DefaultEnvironmentName, SPolicyOverlay = [], SDefaultTier = [], SDefaultTTL = [],
     SProduction = False\<rparr>"

definition CreateProject ::
  "string option \<Rightarrow> (string \<Rightarrow> lstat_result) \<Rightarrow> fallible_io \<Rightarrow> string \<Rightarrow> ProjectSpec \<Rightarrow> world \<Rightarrow>
   (project_error + Project \<times> Environment list) \<times> world" where
  "CreateProject home lstat io now spec w =
     (case validate_project home lstat spec of
        Inl e \<Rightarrow> (Inl e, w)
      | Inr p \<Rightarrow>
          (case validate_envs (PID p) [] (if SpecEnvironments spec = [] then [default_spec] else SpecEnvironments spec) of
             Inl e \<Rightarrow> (Inl e, w)
           | Inr envs \<Rightarrow>
               (case LoadProject w (PID p) of
                  Inl e \<Rightarrow> (Inl e, w)
                | Inr (Some _) \<Rightarrow> (Inl (ExistsErr (PID p)), w)
                | Inr None \<Rightarrow>
                    (let p = p\<lparr>PCreated := now\<rparr>
                     in case save_envs io now envs w of
                          (Some e, w) \<Rightarrow> (Inl e, w)
                        | (None, w) \<Rightarrow>
                            (case SaveProject io p w of
                               (Some e, w) \<Rightarrow> (Inl e, w)
                             | (None, w) \<Rightarrow> (Inr (p, map (\<lambda>e. e\<lparr>ECreated := now\<rparr>) envs), w))))))"

definition orDefault :: "string \<Rightarrow> string" where
  "orDefault projectID = (if projectID = [] then DefaultProjectID else projectID)"

definition SetCapabilities ::
  "fallible_io \<Rightarrow> string \<Rightarrow> (string \<times> string) list \<Rightarrow> world \<Rightarrow> (project_error + Project) \<times> world" where
  "SetCapabilities io projectID caps w =
     (case validateCapabilities caps of
        Inl e \<Rightarrow> (Inl e, w)
      | Inr clean \<Rightarrow>
          (case LoadProject w (orDefault projectID) of
             Inl e \<Rightarrow> (Inl e, w)
           | Inr None \<Rightarrow> (Inl (NotFoundErr (orDefault projectID)), w)
           | Inr (Some p) \<Rightarrow>
               (let p = p\<lparr>Capabilities := clean\<rparr>
                in case SaveProject io p w of (Some e, w) \<Rightarrow> (Inl e, w) | (None, w) \<Rightarrow> (Inr p, w))))"

definition SetToolchain ::
  "fallible_io \<Rightarrow> string \<Rightarrow> toolchain \<Rightarrow> world \<Rightarrow> (project_error + Project) \<times> world" where
  "SetToolchain io projectID tc w =
     (case ValidateTools (Tools tc) of
        Inl e \<Rightarrow> (Inl e, w)
      | Inr clean \<Rightarrow>
          (case LoadProject w (orDefault projectID) of
             Inl e \<Rightarrow> (Inl e, w)
           | Inr None \<Rightarrow> (Inl (NotFoundErr (orDefault projectID)), w)
           | Inr (Some p) \<Rightarrow>
               (let tc = tc\<lparr>Tools := clean\<rparr>;
                    old = PToolchain p;
                    tc = (if TStatus tc = ToolchainFailed \<and> LayerDigest tc = []
                          then tc\<lparr>LayerDigest := LayerDigest old, FlakeLockHash := FlakeLockHash old, BuiltAt := BuiltAt old\<rparr>
                          else tc);
                    p = p\<lparr>PToolchain := tc\<rparr>
                in case SaveProject io p w of (Some e, w) \<Rightarrow> (Inl e, w) | (None, w) \<Rightarrow> (Inr p, w))))"

definition AddEnvironment ::
  "fallible_io \<Rightarrow> string \<Rightarrow> string \<Rightarrow> EnvironmentSpec \<Rightarrow> world \<Rightarrow> (project_error + Environment) \<times> world" where
  "AddEnvironment io now projectID spec w =
     (let pid = orDefault projectID
      in case ValidateName ''project'' pid of
           Some e \<Rightarrow> (Inl e, w)
         | None \<Rightarrow>
             (case validate_environment pid spec of
                Inl e \<Rightarrow> (Inl e, w)
              | Inr e \<Rightarrow>
                  (case LoadProject w pid of
                     Inl err \<Rightarrow> (Inl err, w)
                   | Inr None \<Rightarrow> (Inl (NotFoundErr pid), w)
                   | Inr (Some _) \<Rightarrow>
                       (case LoadEnvironment w (EID e) of
                          Inl err \<Rightarrow> (Inl err, w)
                        | Inr (Some _) \<Rightarrow> (Inl (ExistsErr (EID e)), w)
                        | Inr None \<Rightarrow>
                            (let e = e\<lparr>ECreated := now\<rparr>
                             in case SaveEnvironment io e w of
                                  (Some err, w) \<Rightarrow> (Inl err, w)
                                | (None, w) \<Rightarrow> (Inr e, w))))))"

subsection \<open>Listing and resolution\<close>

definition environmentsLocked :: "world \<Rightarrow> string \<Rightarrow> project_error + Environment list" where
  "environmentsLocked w pid =
     (case LoadEnvironments w of Inl e \<Rightarrow> Inl e | Inr es \<Rightarrow> Inr (filter (\<lambda>e. EProjectID e = pid) es))"

definition Projects :: "world \<Rightarrow> project_error + Project list" where
  "Projects w = LoadProjects w"

definition find_project :: "world \<Rightarrow> string \<Rightarrow> project_error + Project" where
  "find_project w pid =
     (case ValidateName ''project'' pid of
        Some e \<Rightarrow> Inl e
      | None \<Rightarrow>
          (case LoadProject w pid of
             Inl e \<Rightarrow> Inl e
           | Inr None \<Rightarrow> Inl (NotFoundErr pid)
           | Inr (Some p) \<Rightarrow> Inr p))"

definition Project_with_environments :: "world \<Rightarrow> string \<Rightarrow> project_error + Project \<times> Environment list" where
  "Project_with_environments w projectID =
     rbind (find_project w (orDefault projectID)) (\<lambda>p.
       rbind (environmentsLocked w (orDefault projectID)) (\<lambda>es. Inr (p, es)))"

definition Environments :: "world \<Rightarrow> string \<Rightarrow> project_error + Environment list" where
  "Environments w projectID =
     rbind (find_project w (orDefault projectID)) (\<lambda>_. environmentsLocked w (orDefault projectID))"

definition defaultEnvironmentLocked :: "world \<Rightarrow> Project \<Rightarrow> project_error + Environment" where
  "defaultEnvironmentLocked w p =
     (case LoadEnvironment w (EnvironmentID (PID p) DefaultEnvironmentName) of
        Inl e \<Rightarrow> Inl e
      | Inr (Some e) \<Rightarrow> Inr e
      | Inr None \<Rightarrow>
          (case environmentsLocked w (PID p) of
             Inl e \<Rightarrow> Inl e
           | Inr [] \<Rightarrow> Inl (NotFoundErr ''project has no environments'')
           | Inr [e] \<Rightarrow> Inr e
           | Inr (_ # _ # _) \<Rightarrow> Inl (InvalidInput ''name an environment'')))"

definition environment_key :: "Project \<Rightarrow> string \<Rightarrow> project_error + string" where
  "environment_key p i =
     (if envIDSeparator \<notin> set i then
        (case ValidateName ''environment'' i of Some e \<Rightarrow> Inl e | None \<Rightarrow> Inr (EnvironmentID (PID p) i))
      else
        let proj = takeWhile (\<lambda>c. c \<noteq> envIDSeparator) i;
            name = drop (Suc (length proj)) i
        in case ValidateName ''project'' proj of
             Some e \<Rightarrow> Inl e
           | None \<Rightarrow> (case ValidateName ''environment'' name of Some e \<Rightarrow> Inl e | None \<Rightarrow> Inr i))"

definition resolveEnvironmentLocked :: "world \<Rightarrow> Project \<Rightarrow> string \<Rightarrow> project_error + Environment" where
  "resolveEnvironmentLocked w p environmentID =
     (if environmentID = [] then defaultEnvironmentLocked w p
      else case environment_key p environmentID of
        Inl e \<Rightarrow> Inl e
      | Inr i \<Rightarrow>
          (case LoadEnvironment w i of
             Inl e \<Rightarrow> Inl e
           | Inr None \<Rightarrow> Inl (NotFoundErr environmentID)
           | Inr (Some e) \<Rightarrow>
               if EProjectID e \<noteq> PID p then Inl (InvalidInput ''environment belongs to another project'')
               else Inr e))"

definition resolve_ids :: "world \<Rightarrow> string \<Rightarrow> string \<Rightarrow> project_error + Project \<times> Environment" where
  "resolve_ids w projectID environmentID =
     rbind (find_project w (orDefault projectID)) (\<lambda>p.
       rbind (resolveEnvironmentLocked w p environmentID) (\<lambda>e. Inr (p, e)))"

record scope =
  ScProject :: Project
  ScEnvironment :: Environment
  ScResolved :: scope_resolved

definition file_layer ::
  "parser \<Rightarrow> (string \<Rightarrow> read_result) \<Rightarrow> string \<Rightarrow> string \<Rightarrow> string \<Rightarrow> project_error + layer list" where
  "file_layer parse fs kind path name =
     (if path = [] then Inr []
      else case LoadLayer parse fs kind path of
        Inl e \<Rightarrow> Inl (ScopeErr e)
      | Inr pol \<Rightarrow> Inr [\<lparr>LayerName = name, LayerPolicy = pol\<rparr>])"

text \<open>\<open>edited\<close> is the wired source of operator-edited layers; \<open>None\<close> when there is none.\<close>

definition edited_layers ::
  "(string \<Rightarrow> string \<Rightarrow> string + layer list) option \<Rightarrow> string \<Rightarrow> string \<Rightarrow> project_error + layer list" where
  "edited_layers edited pid eid =
     (case edited of
        None \<Rightarrow> Inr []
      | Some src \<Rightarrow> (case src pid eid of Inl e \<Rightarrow> Inl (InvalidInput (''edited policy layers: '' @ e)) | Inr ls \<Rightarrow> Inr ls))"

definition ResolveScope ::
  "(string \<Rightarrow> string) \<Rightarrow> parser \<Rightarrow> (string \<Rightarrow> read_result) \<Rightarrow> (string \<Rightarrow> string \<Rightarrow> string + layer list) option \<Rightarrow>
   policy \<Rightarrow> world \<Rightarrow> string \<Rightarrow> string \<Rightarrow> project_error + scope" where
  "ResolveScope H parse fs edited base w projectID environmentID =
     rbind (resolve_ids w projectID environmentID) (\<lambda>(p, e).
     rbind (file_layer parse fs ''project policy_file'' (PolicyFile p) (''project '' @ PID p)) (\<lambda>l1.
     rbind (file_layer parse fs ''environment policy_overlay'' (PolicyOverlay e) (''environment '' @ EID e)) (\<lambda>l2.
     rbind (edited_layers edited (PID p) (EID e)) (\<lambda>l3.
       Inr \<lparr>ScProject = p, ScEnvironment = e, ScResolved = ResolvePolicy H base (l1 @ l2 @ l3)\<rparr>))))"

subsection \<open>Records that are kept well\<close>

definition project_of :: "world \<Rightarrow> string \<Rightarrow> Project option" where
  "project_of w = stored_at (Projs w)"

definition environment_of :: "world \<Rightarrow> string \<Rightarrow> Environment option" where
  "environment_of w = stored_at (Envs w)"

definition named_env :: "Environment \<Rightarrow> bool" where
  "named_env e \<longleftrightarrow> nameRe (EProjectID e) \<and> nameRe (EName e) \<and> EID e = EnvironmentID (EProjectID e) (EName e)"

definition records_ok :: "world \<Rightarrow> bool" where
  "records_ok w \<longleftrightarrow> files_ok PID (Projs w) \<and> files_ok EID (Envs w) \<and>
     (\<forall>i p. project_of w i = Some p \<longrightarrow> nameRe i) \<and> (\<forall>i e. environment_of w i = Some e \<longrightarrow> named_env e)"

lemma project_of_id: "records_ok w \<Longrightarrow> project_of w i = Some p \<Longrightarrow> PID p = i \<and> nameRe i"
  using stored_at_Some [of "Projs w" i p] by (auto simp: records_ok_def files_ok_def project_of_def)

lemma environment_of_id: "records_ok w \<Longrightarrow> environment_of w i = Some e \<Longrightarrow> EID e = i \<and> named_env e"
  using stored_at_Some [of "Envs w" i e] by (auto simp: records_ok_def files_ok_def environment_of_def)

lemma LoadProject_Some: "LoadProject w i = Inr (Some p) \<Longrightarrow> project_of w i = Some p"
  unfolding LoadProject_def project_of_def by (rule proj_store.load_content)

lemma LoadProject_None: "LoadProject w i = Inr None \<Longrightarrow> project_of w i = None"
  unfolding LoadProject_def project_of_def by (rule proj_store.load_absent)

lemma LoadEnvironment_Some: "LoadEnvironment w i = Inr (Some e) \<Longrightarrow> environment_of w i = Some e"
  unfolding LoadEnvironment_def environment_of_def by (rule env_store.load_content)

lemma LoadEnvironment_None: "LoadEnvironment w i = Inr None \<Longrightarrow> environment_of w i = None"
  unfolding LoadEnvironment_def environment_of_def by (rule env_store.load_absent)

lemma find_project_Inr:
  "find_project w pid = Inr p \<Longrightarrow> nameRe pid \<and> project_of w pid = Some p"
  using ValidateName_None
  by (auto simp: find_project_def split: option.splits sum.splits dest: LoadProject_Some)

lemma environmentsLocked_Inr:
  assumes "environmentsLocked w pid = Inr es" and "records_ok w"
  shows "e \<in> set es \<longleftrightarrow> (\<exists>i. environment_of w i = Some e) \<and> EProjectID e = pid" "distinct (map EID es)"
proof -
  obtain xs where xs: "load_records ''environment'' EID (Envs w) = Inr xs" "es = filter (\<lambda>e. EProjectID e = pid) xs"
    using assms(1) by (auto simp: environmentsLocked_def LoadEnvironments_def split: sum.splits)
  have ok: "files_ok EID (Envs w)" using assms(2) by (simp add: records_ok_def)
  show "e \<in> set es \<longleftrightarrow> (\<exists>i. environment_of w i = Some e) \<and> EProjectID e = pid"
    using load_records_set [OF xs(1)] ok xs(2) by (auto simp: environment_of_def files_ok_def)
  show "distinct (map EID es)"
    using load_records_distinct [OF xs(1) ok] unfolding xs(2) by (simp add: distinct_map inj_on_def)
qed

lemma resolveEnvironmentLocked_Inr:
  assumes "resolveEnvironmentLocked w p i = Inr e" and "records_ok w" and "nameRe (PID p)"
  shows "environment_of w (EID e) = Some e" "EProjectID e = PID p" "named_env e"
proof -
  have "environment_of w (EID e) = Some e \<and> EProjectID e = PID p"
  proof (cases "i = []")
    case True
    then have d: "defaultEnvironmentLocked w p = Inr e" using assms(1) by (simp add: resolveEnvironmentLocked_def)
    show ?thesis
    proof (cases "LoadEnvironment w (EnvironmentID (PID p) DefaultEnvironmentName)")
      case (Inr found)
      show ?thesis
      proof (cases found)
        case (Some e')
        then have e: "environment_of w (EnvironmentID (PID p) DefaultEnvironmentName) = Some e"
          using d Inr LoadEnvironment_Some by (simp add: defaultEnvironmentLocked_def)
        from environment_of_id [OF assms(2) e] have "EID e = EnvironmentID (PID p) DefaultEnvironmentName" "named_env e"
          by auto
        then show ?thesis using e assms(3) EnvironmentID_inject by (auto simp: named_env_def)
      next
        case None
        then obtain es where "environmentsLocked w (PID p) = Inr es" "e \<in> set es"
          using d Inr by (auto simp: defaultEnvironmentLocked_def split: sum.splits list.splits)
        then show ?thesis
          using environmentsLocked_Inr(1) [OF _ assms(2)] environment_of_id [OF assms(2)] by blast
      qed
    qed (use d in \<open>simp add: defaultEnvironmentLocked_def\<close>)
  next
    case False
    then obtain k where "LoadEnvironment w k = Inr (Some e)" "EProjectID e = PID p"
      using assms(1) by (auto simp: resolveEnvironmentLocked_def split: sum.splits option.splits if_splits)
    then show ?thesis using LoadEnvironment_Some environment_of_id [OF assms(2)] by blast
  qed
  then show "environment_of w (EID e) = Some e" "EProjectID e = PID p" "named_env e"
    using environment_of_id [OF assms(2)] by blast+
qed

lemma resolve_ids_Inr:
  assumes "resolve_ids w projectID environmentID = Inr (p, e)" and "records_ok w"
  shows "project_of w (orDefault projectID) = Some p" "PID p = orDefault projectID"
    "environment_of w (EID e) = Some e" "EProjectID e = PID p" "named_env e"
proof -
  have f: "find_project w (orDefault projectID) = Inr p" "resolveEnvironmentLocked w p environmentID = Inr e"
    using assms(1) by (auto simp: resolve_ids_def rbind_Inr_iff)
  show p: "project_of w (orDefault projectID) = Some p" using find_project_Inr [OF f(1)] by simp
  from project_of_id [OF assms(2) p] show "PID p = orDefault projectID" by simp
  moreover have "nameRe (PID p)" using project_of_id [OF assms(2) p] by simp
  ultimately show "environment_of w (EID e) = Some e" "EProjectID e = PID p" "named_env e"
    using resolveEnvironmentLocked_Inr [OF f(2) assms(2)] by auto
qed

lemma ResolvePolicy_append_narrows:
  "narrows (ScopePolicy (ResolvePolicy H base ls)) (ScopePolicy (ResolvePolicy H base (ls @ ks)))"
proof -
  obtain c k where ck: "resolve_layers H (ResolveDefault H base) [] ls = (c, k)" by fastforce
  moreover obtain c' k' where ck': "resolve_layers H c k ks = (c', k')" by fastforce
  ultimately show ?thesis
    using resolve_layers_narrows [of c H k ks] by (simp add: ResolvePolicy_def Let_def resolve_layers_append)
qed

lemma ResolvePolicy_narrows_base: "narrows base (ScopePolicy (ResolvePolicy H base ls))"
proof -
  have "ScopePolicy (ResolvePolicy H base []) = Policy (ResolveDefault H base)"
    by (simp add: ResolvePolicy_def)
  then show ?thesis
    using ResolvePolicy_append_narrows [of H base "[]" ls] ResolveDefault_narrows narrows_trans by (metis append_Nil)
qed

text \<open>
  C26: A session never runs outside its scope. When a scope is resolved, the environment is a stored
  environment of the project that was named (or of the default project), never another project's, and
  no configured layer was skipped: the policy is the resolution, over the daemon's baseline, of the
  project's policy file, the environment's overlay and the operator's edited layers, in this order,
  where a layer is absent only when its record names no file, and each file was read and parsed. The
  result narrows the baseline and what any first part of the chain alone resolves to.
\<close>

theorem ResolveScope_stays_in_scope:
  assumes "ResolveScope H parse fs edited base w projectID environmentID = Inr s" and "records_ok w"
  shows "project_of w (orDefault projectID) = Some (ScProject s) \<and>
    environment_of w (EID (ScEnvironment s)) = Some (ScEnvironment s) \<and>
    EProjectID (ScEnvironment s) = orDefault projectID \<and>
    (\<exists>pol1 pol2 l1 l2 l3.
       (if PolicyFile (ScProject s) = [] then l1 = []
        else LoadLayer parse fs ''project policy_file'' (PolicyFile (ScProject s)) = Inr pol1 \<and>
          l1 = [\<lparr>LayerName = ''project '' @ PID (ScProject s), LayerPolicy = pol1\<rparr>]) \<and>
       (if PolicyOverlay (ScEnvironment s) = [] then l2 = []
        else LoadLayer parse fs ''environment policy_overlay'' (PolicyOverlay (ScEnvironment s)) = Inr pol2 \<and>
          l2 = [\<lparr>LayerName = ''environment '' @ EID (ScEnvironment s), LayerPolicy = pol2\<rparr>]) \<and>
       (case edited of None \<Rightarrow> l3 = [] | Some src \<Rightarrow> src (PID (ScProject s)) (EID (ScEnvironment s)) = Inr l3) \<and>
       ScResolved s = ResolvePolicy H base (l1 @ l2 @ l3) \<and>
       narrows base (ScopePolicy (ScResolved s)) \<and>
       (\<forall>k. narrows (ScopePolicy (ResolvePolicy H base (take k (l1 @ l2 @ l3)))) (ScopePolicy (ScResolved s))))"
proof -
  from assms(1) obtain p e l1 l2 l3 where
    ids: "resolve_ids w projectID environmentID = Inr (p, e)" and
    l1: "file_layer parse fs ''project policy_file'' (PolicyFile p) (''project '' @ PID p) = Inr l1" and
    l2: "file_layer parse fs ''environment policy_overlay'' (PolicyOverlay e) (''environment '' @ EID e) = Inr l2" and
    l3: "edited_layers edited (PID p) (EID e) = Inr l3" and
    s: "s = \<lparr>ScProject = p, ScEnvironment = e, ScResolved = ResolvePolicy H base (l1 @ l2 @ l3)\<rparr>"
    unfolding ResolveScope_def by (auto simp: rbind_Inr_iff split: prod.splits)
  obtain pol1 where p1: "if PolicyFile p = [] then l1 = []
      else LoadLayer parse fs ''project policy_file'' (PolicyFile p) = Inr pol1 \<and>
        l1 = [\<lparr>LayerName = ''project '' @ PID p, LayerPolicy = pol1\<rparr>]"
    using l1 by (cases "PolicyFile p = []") (auto simp: file_layer_def split: sum.splits)
  obtain pol2 where p2: "if PolicyOverlay e = [] then l2 = []
      else LoadLayer parse fs ''environment policy_overlay'' (PolicyOverlay e) = Inr pol2 \<and>
        l2 = [\<lparr>LayerName = ''environment '' @ EID e, LayerPolicy = pol2\<rparr>]"
    using l2 by (cases "PolicyOverlay e = []") (auto simp: file_layer_def split: sum.splits)
  have p3: "case edited of None \<Rightarrow> l3 = [] | Some src \<Rightarrow> src (PID p) (EID e) = Inr l3"
    using l3 by (auto simp: edited_layers_def split: option.splits sum.splits)
  have k: "\<forall>k. narrows (ScopePolicy (ResolvePolicy H base (take k (l1 @ l2 @ l3)))) (ScopePolicy (ResolvePolicy H base (l1 @ l2 @ l3)))"
  proof
    fix k
    show "narrows (ScopePolicy (ResolvePolicy H base (take k (l1 @ l2 @ l3)))) (ScopePolicy (ResolvePolicy H base (l1 @ l2 @ l3)))"
      using ResolvePolicy_append_narrows [of H base "take k (l1 @ l2 @ l3)" "drop k (l1 @ l2 @ l3)"]
      unfolding append_take_drop_id .
  qed
  show ?thesis
    unfolding s scope.select_convs
    using resolve_ids_Inr [OF ids assms(2)] p1 p2 p3 k ResolvePolicy_narrows_base [of base H "l1 @ l2 @ l3"]
    by (intro conjI exI [of _ pol1] exI [of _ pol2] exI [of _ l1] exI [of _ l2] exI [of _ l3]) simp_all
qed

definition demo_world :: world where
  "demo_world = \<lparr>Projs = [(''default'', Good (default_project ''t0''))],
     Envs = [(''default.default'', Good (default_environment ''t0''))], Removing = [], LiveS = [], Inflight = [],
     Containers = []\<rparr>"

lemma demo_records_ok: "records_ok demo_world"
  by (auto simp: records_ok_def demo_world_def files_ok_def project_of_def environment_of_def stored_at_def
      default_project_def default_environment_def named_env_def nameRe_def name_head_def name_tail_def
      DefaultProjectID_def DefaultEnvironmentID_def DefaultEnvironmentName_def envIDSeparator_def EnvironmentID_def
      split: if_splits)

theorem ResolveScope_stays_in_scope_witness:
  "\<exists>s. ResolveScope id (\<lambda>_ _. Inr Default) (\<lambda>_. NotExist) None Default demo_world [] [] = Inr s \<and>
     EProjectID (ScEnvironment s) = ''default''"
proof -
  let ?r = "ResolveScope id (\<lambda>_ _. Inr Default) (\<lambda>_. NotExist) None Default demo_world [] []"
  have "safeRecordID k ''default'' = None" "safeRecordID k ''default.default'' = None" for k
    by (auto simp: safeRecordID_def path_base_plain)
  then have "\<exists>s. ?r = Inr s"
    by (simp add: ResolveScope_def resolve_ids_def find_project_def orDefault_def ValidateName_def nameRe_def
        name_head_def name_tail_def LoadProject_def load_record_def demo_world_def resolveEnvironmentLocked_def
        defaultEnvironmentLocked_def LoadEnvironment_def EnvironmentID_def envIDSeparator_def DefaultProjectID_def
        DefaultEnvironmentName_def default_project_def default_environment_def file_layer_def edited_layers_def)
  then show ?thesis
    using ResolveScope_stays_in_scope [OF _ demo_records_ok, of id "\<lambda>_ _. Inr Default" "\<lambda>_. NotExist" None Default "[]" "[]"]
    by (force simp: orDefault_def DefaultProjectID_def)
qed

end
