(* ===== verification/Project_Removal.thy ===== *)
theory Project_Removal
  imports Project_Service
begin

text \<open>
  The removals of \<^verbatim>\<open>internal/project/service.go\<close> (\<open>RemoveEnvironment\<close>, \<open>RemoveProject\<close>) phase by
  phase, with \<open>SessionsIn\<close>, \<open>InFlightIn\<close>, \<open>beginCreate\<close> and the bookkeeping of \<open>Create\<close> and \<open>Destroy\<close> of
  \<^verbatim>\<open>internal/session/manager.go\<close>; first run in one piece, then as threads that interleave at the
  points where the source gives up a lock.
\<close>

subsection \<open>The sandboxes\<close>

definition in_scope :: "string \<Rightarrow> string \<Rightarrow> string \<times> string \<Rightarrow> bool" where
  "in_scope pid eid s \<longleftrightarrow> fst s = pid \<and> (eid = [] \<or> snd s = eid)"

definition SessionsIn :: "world \<Rightarrow> string \<Rightarrow> string \<Rightarrow> string list" where
  "SessionsIn w pid eid = sort (map fst (filter (\<lambda>(i, s). in_scope pid eid s) (LiveS w)))"

definition InFlightIn :: "world \<Rightarrow> string \<Rightarrow> string \<Rightarrow> nat" where
  "InFlightIn w pid eid = sum_list (map snd (filter (\<lambda>(k, n). in_scope pid eid k) (Inflight w)))"

definition beginCreate :: "string \<Rightarrow> string \<Rightarrow> world \<Rightarrow> world" where
  "beginCreate pid eid w =
     (let n = (case map_of (Inflight w) (pid, eid) of None \<Rightarrow> 0 | Some n \<Rightarrow> n)
      in w\<lparr>Inflight := al_put (pid, eid) (Suc n) (Inflight w)\<rparr>)"

definition endCreate :: "string \<Rightarrow> string \<Rightarrow> world \<Rightarrow> world" where
  "endCreate pid eid w =
     (let n = (case map_of (Inflight w) (pid, eid) of None \<Rightarrow> 0 | Some n \<Rightarrow> n)
      in if n \<le> 1 then w\<lparr>Inflight := al_del (pid, eid) (Inflight w)\<rparr>
         else w\<lparr>Inflight := al_put (pid, eid) (n - 1) (Inflight w)\<rparr>)"

text \<open>
  \<open>Destroy\<close> detaches the session from the live map before it tears the container down; \<open>ok\<close> is the
  outcome of the teardown.
\<close>

definition Destroy_session :: "(string \<Rightarrow> bool) \<Rightarrow> string \<Rightarrow> world \<Rightarrow> project_error option \<times> world" where
  "Destroy_session ok sid w =
     (case map_of (LiveS w) sid of
        None \<Rightarrow> (Some (SandboxErr ''session not found''), w)
      | Some s \<Rightarrow>
          (let w = w\<lparr>LiveS := al_del sid (LiveS w)\<rparr>
           in if ok sid then (None, w\<lparr>Containers := al_del sid (Containers w)\<rparr>)
              else (Some (SandboxErr ''teardown''), w)))"

fun destroy_all :: "(string \<Rightarrow> 'm \<Rightarrow> project_error option \<times> 'm) \<Rightarrow> string list \<Rightarrow> 'm \<Rightarrow> project_error option \<times> 'm" where
  "destroy_all destroy [] m = (None, m)"
| "destroy_all destroy (i # ids) m =
     (case destroy i m of (Some e, m) \<Rightarrow> (Some e, m) | (None, m) \<Rightarrow> destroy_all destroy ids m)"

subsection \<open>RemoveEnvironment\<close>

definition remove_env_claim :: "string \<Rightarrow> string \<Rightarrow> world \<Rightarrow> (project_error + Environment) \<times> world" where
  "remove_env_claim projectID environmentID w =
     (case resolve_ids w projectID environmentID of
        Inl e \<Rightarrow> (Inl e, w)
      | Inr (p, env) \<Rightarrow>
          (case environmentsLocked w (EProjectID env) of
             Inl e \<Rightarrow> (Inl e, w)
           | Inr siblings \<Rightarrow>
               if EID env \<in> set (Removing w) then (Inl (InUseErr ''already being removed''), w)
               else if length (filter (\<lambda>e. EID e \<notin> set (Removing w)) siblings) \<le> 1
                 then (Inl (InvalidInput ''the last environment of the project''), w)
               else (Inr env, w\<lparr>Removing := EID env # Removing w\<rparr>)))"

definition remove_env_inflight :: "Environment \<Rightarrow> world \<Rightarrow> project_error option" where
  "remove_env_inflight env w =
     (if InFlightIn w (EProjectID env) (EID env) > 0 then Some (InUseErr ''sessions are being created'') else None)"

definition remove_env_commit :: "fallible_io \<Rightarrow> Environment \<Rightarrow> world \<Rightarrow> project_error option \<times> world" where
  "remove_env_commit io env w =
     (case LoadEnvironment w (EID env) of
        Inl e \<Rightarrow> (Some e, w)
      | Inr None \<Rightarrow> (None, w)
      | Inr (Some _) \<Rightarrow>
          (case environmentsLocked w (EProjectID env) of
             Inl e \<Rightarrow> (Some e, w)
           | Inr siblings \<Rightarrow>
               if length siblings \<le> 1 then (Some (InvalidInput ''the last environment of the project''), w)
               else DeleteEnvironment io (EID env) w))"

definition unclaim :: "Environment \<Rightarrow> world \<Rightarrow> world" where
  "unclaim env w = w\<lparr>Removing := removeAll (EID env) (Removing w)\<rparr>"

definition RemoveEnvironment ::
  "fallible_io \<Rightarrow> (string \<Rightarrow> bool) \<Rightarrow> string \<Rightarrow> string \<Rightarrow> world \<Rightarrow> project_error option \<times> world" where
  "RemoveEnvironment io ok projectID environmentID w =
     (case remove_env_claim projectID environmentID w of
        (Inl e, w) \<Rightarrow> (Some e, w)
      | (Inr env, w) \<Rightarrow>
          (case (case remove_env_inflight env w of
                   Some e \<Rightarrow> (Some e, w)
                 | None \<Rightarrow>
                     (case destroy_all (Destroy_session ok) (SessionsIn w (EProjectID env) (EID env)) w of
                        (Some e, w) \<Rightarrow> (Some e, w)
                      | (None, w) \<Rightarrow> remove_env_commit io env w)) of
             (r, w) \<Rightarrow> (r, unclaim env w)))"

subsection \<open>RemoveProject\<close>

definition remove_project_snapshot :: "string \<Rightarrow> world \<Rightarrow> project_error + Environment list" where
  "remove_project_snapshot projectID w =
     (case ValidateName ''project'' projectID of
        Some e \<Rightarrow> Inl e
      | None \<Rightarrow>
          if projectID = [] \<or> projectID = DefaultProjectID then Inl (InvalidInput ''the default project cannot be removed'')
          else (case LoadProject w projectID of
                  Inl e \<Rightarrow> Inl e
                | Inr None \<Rightarrow> Inl (NotFoundErr projectID)
                | Inr (Some _) \<Rightarrow> environmentsLocked w projectID))"

definition remove_project_sessions :: "string \<Rightarrow> world \<Rightarrow> project_error option" where
  "remove_project_sessions pid w =
     (if SessionsIn w pid [] \<noteq> [] then Some (InUseErr ''live sessions'') else None)"

definition remove_project_inflight :: "string \<Rightarrow> world \<Rightarrow> project_error option" where
  "remove_project_inflight pid w =
     (if InFlightIn w pid [] > 0 then Some (InUseErr ''sessions are being created'') else None)"

fun delete_envs :: "fallible_io \<Rightarrow> Environment list \<Rightarrow> world \<Rightarrow> project_error option \<times> world" where
  "delete_envs io [] w = (None, w)"
| "delete_envs io (e # es) w =
     (case DeleteEnvironment io (EID e) w of (Some err, w) \<Rightarrow> (Some err, w) | (None, w) \<Rightarrow> delete_envs io es w)"

definition remove_project_commit ::
  "fallible_io \<Rightarrow> string \<Rightarrow> Environment list \<Rightarrow> world \<Rightarrow> project_error option \<times> world" where
  "remove_project_commit io pid envs w =
     (case delete_envs io envs w of (Some e, w) \<Rightarrow> (Some e, w) | (None, w) \<Rightarrow> DeleteProject io pid w)"

definition RemoveProject :: "fallible_io \<Rightarrow> string \<Rightarrow> world \<Rightarrow> project_error option \<times> world" where
  "RemoveProject io pid w =
     (case remove_project_snapshot pid w of
        Inl e \<Rightarrow> (Some e, w)
      | Inr envs \<Rightarrow>
          (case remove_project_sessions pid w of
             Some e \<Rightarrow> (Some e, w)
           | None \<Rightarrow>
               (case remove_project_inflight pid w of
                  Some e \<Rightarrow> (Some e, w)
                | None \<Rightarrow> remove_project_commit io pid envs w)))"

text \<open>
  In one piece the second round of checks, under the lock, sees the state of the first; it matters
  only to the threads below, which run it.
\<close>

subsection \<open>Threads\<close>

datatype thread =
    RemClaimed Environment
  | RemCounted Environment
  | RemTeardown Environment "string list"
  | RemFinished Environment "project_error option"
  | ProjSnapshot string "Environment list"
  | ProjSeen string "Environment list"
  | ProjUnlocked string "Environment list"
  | ProjLocked string "Environment list"
  | CreateResolved string string
  | CreateCounted string string
  | CreateBuilt string string string
  | CreateRegistered string string
  | Returned "project_error option"

text \<open>
  \<open>Mu\<close> is the thread that keeps the service's lock across an observable step: a project removal
  between its second look at the sessions and its deletions.
\<close>

record sys =
  World :: world
  Threads :: "(nat \<times> thread) list"
  Mu :: "nat option"

definition takes_mu :: "thread \<Rightarrow> bool" where
  "takes_mu th = (case th of RemTeardown e [] \<Rightarrow> True | RemFinished e r \<Rightarrow> True | ProjUnlocked p es \<Rightarrow> True | _ \<Rightarrow> False)"

definition finish :: "(project_error option \<Rightarrow> thread) \<Rightarrow> project_error option \<times> world \<Rightarrow> thread \<times> world" where
  "finish k r = (k (fst r), snd r)"

fun advance :: "fallible_io \<Rightarrow> (string \<Rightarrow> bool) \<Rightarrow> string \<Rightarrow> thread \<Rightarrow> world \<Rightarrow> thread \<times> world" where
  "advance io ok sid (RemClaimed env) w =
     (case remove_env_inflight env w of Some e \<Rightarrow> (RemFinished env (Some e), w) | None \<Rightarrow> (RemCounted env, w))"
| "advance io ok sid (RemCounted env) w = (RemTeardown env (SessionsIn w (EProjectID env) (EID env)), w)"
| "advance io ok sid (RemTeardown env (i # ids)) w =
     (case Destroy_session ok i w of
        (Some e, w) \<Rightarrow> (RemFinished env (Some e), w)
      | (None, w) \<Rightarrow> (RemTeardown env ids, w))"
| "advance io ok sid (RemTeardown env []) w = finish (RemFinished env) (remove_env_commit io env w)"
| "advance io ok sid (RemFinished env r) w = (Returned r, unclaim env w)"
| "advance io ok sid (ProjSnapshot pid envs) w =
     (case remove_project_sessions pid w of Some e \<Rightarrow> (Returned (Some e), w) | None \<Rightarrow> (ProjSeen pid envs, w))"
| "advance io ok sid (ProjSeen pid envs) w =
     (case remove_project_inflight pid w of Some e \<Rightarrow> (Returned (Some e), w) | None \<Rightarrow> (ProjUnlocked pid envs, w))"
| "advance io ok sid (ProjUnlocked pid envs) w =
     (case remove_project_sessions pid w of Some e \<Rightarrow> (Returned (Some e), w) | None \<Rightarrow> (ProjLocked pid envs, w))"
| "advance io ok sid (ProjLocked pid envs) w =
     (case remove_project_inflight pid w of
        Some e \<Rightarrow> (Returned (Some e), w)
      | None \<Rightarrow> finish Returned (remove_project_commit io pid envs w))"
| "advance io ok sid (CreateResolved pid eid) w = (CreateCounted pid eid, beginCreate pid eid w)"
| "advance io ok sid (CreateCounted pid eid) w =
     (if map_of (Containers w) sid \<noteq> None then (CreateCounted pid eid, w)
      else if ok sid then (CreateBuilt pid eid sid, w\<lparr>Containers := al_put sid (pid, eid) (Containers w)\<rparr>)
      else (CreateRegistered pid eid, w))"
| "advance io ok sid (CreateBuilt pid eid i) w =
     (if ok i then (CreateRegistered pid eid, w\<lparr>LiveS := al_put i (pid, eid) (LiveS w)\<rparr>)
      else (CreateRegistered pid eid, w\<lparr>Containers := al_del i (Containers w)\<rparr>))"
| "advance io ok sid (CreateRegistered pid eid) w = (Returned None, endCreate pid eid w)"
| "advance io ok sid (Returned r) w = (Returned r, w)"

datatype event =
    EvCreateProject "string option" "string \<Rightarrow> lstat_result" fallible_io string ProjectSpec
  | EvAddEnvironment fallible_io string string EnvironmentSpec
  | EvSetCapabilities fallible_io string "(string \<times> string) list"
  | EvSetToolchain fallible_io string toolchain
  | EvRemoveEnvironment nat string string
  | EvRemoveProject nat string
  | EvCreateSession nat string string
  | EvAdvance nat fallible_io "string \<Rightarrow> bool" string
  | EvEndSession "string \<Rightarrow> bool" string

definition spawn :: "nat \<Rightarrow> thread \<Rightarrow> sys \<Rightarrow> sys" where
  "spawn t th s = (if map_of (Threads s) t = None then s\<lparr>Threads := al_put t th (Threads s)\<rparr> else s)"

definition service_call :: "(world \<Rightarrow> 'r \<times> world) \<Rightarrow> sys \<Rightarrow> sys" where
  "service_call f s = (if Mu s = None then s\<lparr>World := snd (f (World s))\<rparr> else s)"

definition holds_mu :: "thread \<Rightarrow> bool" where
  "holds_mu th = (case th of ProjLocked p es \<Rightarrow> True | _ \<Rightarrow> False)"

definition advance_thread :: "nat \<Rightarrow> fallible_io \<Rightarrow> (string \<Rightarrow> bool) \<Rightarrow> string \<Rightarrow> sys \<Rightarrow> sys" where
  "advance_thread t io ok sid s =
     (case map_of (Threads s) t of
        None \<Rightarrow> s
      | Some th \<Rightarrow>
          if takes_mu th \<and> Mu s \<noteq> None then s
          else (case advance io ok sid th (World s) of
                  (th', w) \<Rightarrow>
                    s\<lparr>World := w, Threads := al_put t th' (Threads s),
                      Mu := (if holds_mu th' then Some t else if holds_mu th then None else Mu s)\<rparr>))"

fun sys_step :: "event \<Rightarrow> sys \<Rightarrow> sys" where
  "sys_step (EvCreateProject home lstat io now spec) s = service_call (CreateProject home lstat io now spec) s"
| "sys_step (EvAddEnvironment io now pid spec) s = service_call (AddEnvironment io now pid spec) s"
| "sys_step (EvSetCapabilities io pid caps) s = service_call (SetCapabilities io pid caps) s"
| "sys_step (EvSetToolchain io pid tc) s = service_call (SetToolchain io pid tc) s"
| "sys_step (EvRemoveEnvironment t pid eid) s =
     (if Mu s = None \<and> map_of (Threads s) t = None then
        case remove_env_claim pid eid (World s) of
          (Inl e, w) \<Rightarrow> s
        | (Inr env, w) \<Rightarrow> spawn t (RemClaimed env) (s\<lparr>World := w\<rparr>)
      else s)"
| "sys_step (EvRemoveProject t pid) s =
     (if Mu s = None then
        case remove_project_snapshot pid (World s) of
          Inl e \<Rightarrow> s
        | Inr envs \<Rightarrow> spawn t (ProjSnapshot pid envs) s
      else s)"
| "sys_step (EvCreateSession t pid eid) s =
     (if Mu s = None then
        case resolve_ids (World s) pid eid of
          Inl e \<Rightarrow> s
        | Inr (p, env) \<Rightarrow> spawn t (CreateResolved (PID p) (EID env)) s
      else s)"
| "sys_step (EvAdvance t io ok sid) s = advance_thread t io ok sid s"
| "sys_step (EvEndSession ok sid) s = s\<lparr>World := snd (Destroy_session ok sid (World s))\<rparr>"

definition run_sys :: "event list \<Rightarrow> sys \<Rightarrow> sys" where
  "run_sys evs s = fold sys_step evs s"

definition start_sys :: "world \<Rightarrow> sys" where
  "start_sys w = \<lparr>World = w, Threads = [], Mu = None\<rparr>"

subsection \<open>What the operations do to the records\<close>

definition covered :: "string set \<Rightarrow> world \<Rightarrow> bool" where
  "covered R w \<longleftrightarrow>
     (\<forall>i p. project_of w i = Some p \<longrightarrow> (\<exists>j e. environment_of w j = Some e \<and> EProjectID e = i \<and> j \<notin> R))"

text \<open>\<open>grows\<close>: records are added or replaced under the same id, and nothing but the records changes.\<close>

definition same_sandboxes :: "world \<Rightarrow> world \<Rightarrow> bool" where
  "same_sandboxes w w' \<longleftrightarrow> Removing w' = Removing w \<and> LiveS w' = LiveS w \<and> Inflight w' = Inflight w \<and>
     Containers w' = Containers w"

definition grows :: "world \<Rightarrow> world \<Rightarrow> bool" where
  "grows w w' \<longleftrightarrow> records_ok w' \<and> same_sandboxes w w' \<and> dom (environment_of w) \<subseteq> dom (environment_of w') \<and>
     dom (project_of w) \<subseteq> dom (project_of w')"

lemma grows_refl: "records_ok w \<Longrightarrow> grows w w"
  by (simp add: grows_def same_sandboxes_def)

lemma grows_trans: "grows a b \<Longrightarrow> grows b c \<Longrightarrow> grows a c"
  unfolding grows_def same_sandboxes_def by simp blast

lemma named_env_project:
  "named_env e \<Longrightarrow> named_env e' \<Longrightarrow> EID e = EID e' \<Longrightarrow> EProjectID e = EProjectID e'"
  using EnvironmentID_inject by (auto simp: named_env_def)

lemma grows_environment:
  assumes "records_ok w" "grows w w'" "environment_of w i = Some e"
  obtains e' where "environment_of w' i = Some e'" "EProjectID e' = EProjectID e"
proof -
  obtain e' where e': "environment_of w' i = Some e'" using assms(2,3) by (auto simp: grows_def)
  have "EID e = EID e'" "named_env e" "named_env e'"
    using environment_of_id [OF assms(1,3)] environment_of_id [OF _ e'] assms(2) by (auto simp: grows_def)
  then have "EProjectID e' = EProjectID e" using named_env_project by metis
  with e' show thesis by (rule that)
qed

lemma grows_covered:
  assumes "records_ok w" "grows w w'" "covered R w" "dom (project_of w') \<subseteq> dom (project_of w)"
  shows "covered R w'"
  unfolding covered_def
proof (intro allI impI)
  fix i p assume "project_of w' i = Some p"
  then obtain q where "project_of w i = Some q" using assms(4) by blast
  then obtain j e where "environment_of w j = Some e" "EProjectID e = i" "j \<notin> R"
    using assms(3) by (auto simp: covered_def)
  then show "\<exists>j e. environment_of w' j = Some e \<and> EProjectID e = i \<and> j \<notin> R"
    using grows_environment [OF assms(1,2)] by metis
qed

lemma SaveEnvironment_grows:
  assumes "records_ok w" "named_env e"
  shows "grows w (snd (SaveEnvironment io e w))" "project_of (snd (SaveEnvironment io e w)) = project_of w"
    "fst (SaveEnvironment io e w) = None \<Longrightarrow> environment_of (snd (SaveEnvironment io e w)) (EID e) = Some e"
proof -
  let ?s = "save_record ''environment'' EID io e (Envs w)"
  have s: "SaveEnvironment io e w = (fst ?s, w\<lparr>Envs := snd ?s\<rparr>)"
    by (simp add: SaveEnvironment_def split: prod.split)
  show p: "project_of (snd (SaveEnvironment io e w)) = project_of w" by (simp add: s project_of_def)
  have ok: "files_ok EID (snd ?s)" using assms(1) by (simp add: files_ok_save records_ok_def)
  have c: "environment_of (w\<lparr>Envs := snd ?s\<rparr>) = environment_of w \<or>
      environment_of (w\<lparr>Envs := snd ?s\<rparr>) = (environment_of w)(EID e \<mapsto> e)"
    using env_store.save_cases [of io e "Envs w"] by (auto simp: environment_of_def)
  have named: "named_env x" if "environment_of (w\<lparr>Envs := snd ?s\<rparr>) i = Some x" for i x
    using c assms that by (auto simp: records_ok_def split: if_splits)
  show "grows w (snd (SaveEnvironment io e w))"
    unfolding grows_def records_ok_def same_sandboxes_def p
    using ok named c assms(1) by (auto simp: s records_ok_def)
  show "environment_of (snd (SaveEnvironment io e w)) (EID e) = Some e" if "fst (SaveEnvironment io e w) = None"
    using that env_store.save_content [of io e "Envs w" "snd ?s"] by (simp add: s environment_of_def prod_eq_iff)
qed

lemma SaveProject_grows:
  assumes "records_ok w" "nameRe (PID p)"
  shows "grows w (snd (SaveProject io p w))" "environment_of (snd (SaveProject io p w)) = environment_of w"
    "project_of (snd (SaveProject io p w)) = project_of w \<or>
     project_of (snd (SaveProject io p w)) = (project_of w)(PID p \<mapsto> p)"
proof -
  let ?s = "save_record ''project'' PID io p (Projs w)"
  have s: "SaveProject io p w = (fst ?s, w\<lparr>Projs := snd ?s\<rparr>)"
    by (simp add: SaveProject_def split: prod.split)
  show e: "environment_of (snd (SaveProject io p w)) = environment_of w" by (simp add: s environment_of_def)
  have ok: "files_ok PID (snd ?s)" using assms(1) by (simp add: files_ok_save records_ok_def)
  show c: "project_of (snd (SaveProject io p w)) = project_of w \<or>
      project_of (snd (SaveProject io p w)) = (project_of w)(PID p \<mapsto> p)"
    using proj_store.save_cases [of io p "Projs w"] by (auto simp: s project_of_def)
  have named: "nameRe i" if "project_of (snd (SaveProject io p w)) i = Some x" for i x
    using c assms that by (auto simp: records_ok_def split: if_splits)
  show "grows w (snd (SaveProject io p w))"
    unfolding grows_def records_ok_def same_sandboxes_def e
    using ok named c assms(1) by (auto simp: s records_ok_def)
qed

lemma SaveProject_covered:
  assumes "records_ok w" "project_of w i = Some q" "PID p = PID q" "covered R w"
  shows "grows w (snd (SaveProject io p w)) \<and> covered R (snd (SaveProject io p w)) \<and>
    dom (project_of (snd (SaveProject io p w))) = dom (project_of w)"
proof -
  have n: "nameRe (PID p)" "PID p = i" using project_of_id [OF assms(1,2)] assms(3) by auto
  note g = SaveProject_grows [OF assms(1) n(1), of io]
  have "dom (project_of (snd (SaveProject io p w))) = dom (project_of w)"
    using g(3) assms(2) n(2) by (auto split: if_splits)
  then show ?thesis using g(1) grows_covered [OF assms(1) g(1) assms(4)] by simp
qed

lemma validate_environment_Inr:
  "validate_environment pid spec = Inr e \<Longrightarrow> EProjectID e = pid \<and> (nameRe pid \<longrightarrow> named_env e)"
  using ValidateName_None by (auto simp: validate_environment_def named_env_def split: option.splits if_splits)

lemma named_env_created [simp]: "named_env (e\<lparr>ECreated := t\<rparr>) = named_env e"
  by (simp add: named_env_def)

lemma validate_envs_Inr:
  assumes "validate_envs pid seen specs = Inr es"
  shows "\<forall>e \<in> set es. EProjectID e = pid \<and> (nameRe pid \<longrightarrow> named_env e)" "specs \<noteq> [] \<Longrightarrow> es \<noteq> []"
proof -
  have "(\<forall>e \<in> set es. EProjectID e = pid \<and> (nameRe pid \<longrightarrow> named_env e)) \<and> (specs \<noteq> [] \<longrightarrow> es \<noteq> [])"
    using assms
  proof (induction specs arbitrary: seen es)
    case Nil
    then show ?case by simp
  next
    case (Cons s specs)
    then obtain e where e: "validate_environment pid s = Inr e" by (auto split: sum.splits)
    then obtain es' where "validate_envs pid (EName e # seen) specs = Inr es'" "es = e # es'"
      using Cons.prems by (auto simp: rbind_Inr_iff split: if_splits)
    then show ?case using Cons.IH [of "EName e # seen" es'] validate_environment_Inr [OF e] by simp
  qed
  then show "\<forall>e \<in> set es. EProjectID e = pid \<and> (nameRe pid \<longrightarrow> named_env e)" "specs \<noteq> [] \<Longrightarrow> es \<noteq> []"
    by blast+
qed

lemma save_envs_grows:
  assumes "records_ok w" "\<forall>e \<in> set es. named_env e"
  shows "grows w (snd (save_envs io now es w)) \<and> project_of (snd (save_envs io now es w)) = project_of w \<and>
    (fst (save_envs io now es w) = None \<longrightarrow> (\<forall>e \<in> set es. environment_of (snd (save_envs io now es w)) (EID e) \<noteq> None))"
  using assms
proof (induction es arbitrary: w)
  case Nil
  then show ?case by (simp add: grows_refl)
next
  case (Cons e es w)
  let ?s = "SaveEnvironment io (e\<lparr>ECreated := now\<rparr>) w"
  have n: "named_env (e\<lparr>ECreated := now\<rparr>)" using Cons.prems(2) by simp
  note g = SaveEnvironment_grows [OF Cons.prems(1) n, of io]
  show ?case
  proof (cases "fst ?s")
    case (Some err)
    then have "save_envs io now (e # es) w = (Some err, snd ?s)" by (cases ?s) simp
    then show ?thesis using g by simp
  next
    case None
    have ok: "records_ok (snd ?s)" using g(1) by (simp add: grows_def)
    note ih = Cons.IH [OF ok]
    have r: "save_envs io now (e # es) w = save_envs io now es (snd ?s)" using None by (cases ?s) simp
    have ih': "grows (snd ?s) (snd (save_envs io now es (snd ?s)))"
      "project_of (snd (save_envs io now es (snd ?s))) = project_of (snd ?s)"
      "fst (save_envs io now es (snd ?s)) = None \<Longrightarrow>
        \<forall>e \<in> set es. environment_of (snd (save_envs io now es (snd ?s))) (EID e) \<noteq> None"
      using ih Cons.prems(2) by auto
    have "environment_of (snd ?s) (EID e) \<noteq> None" using g(3) [OF None] by simp
    then have e: "environment_of (snd (save_envs io now es (snd ?s))) (EID e) \<noteq> None"
      using ih'(1) by (auto simp: grows_def)
    show ?thesis unfolding r using grows_trans [OF g(1) ih'(1)] ih'(2,3) g(2) e by simp
  qed
qed

end
