(* ===== verification/Project_Safety.thy ===== *)
theory Project_Safety
  imports Project_Removal
begin

text \<open>
  The lemmas and properties of the project service: each method keeps the records well and covers
  every project with an environment, alone and when its phases interleave with those of the others.
\<close>

subsection \<open>The methods that add\<close>

definition names_projects :: "string set \<Rightarrow> world \<Rightarrow> bool" where
  "names_projects R w \<longleftrightarrow> (\<forall>e. named_env e \<longrightarrow> EID e \<in> R \<longrightarrow> project_of w (EProjectID e) \<noteq> None)"

lemma names_projects_empty [simp]: "names_projects {} w"
  by (simp add: names_projects_def)

lemma snd_saved:
  "snd (case x of (Some e, w) \<Rightarrow> (Inl e, w) | (None, w) \<Rightarrow> (Inr r, w)) = snd x"
  by (auto split: prod.split option.split)

lemma validate_project_Inr: "validate_project home lstat spec = Inr p \<Longrightarrow> nameRe (PID p)"
  using ValidateName_None by (auto simp: validate_project_def split: option.splits sum.splits)

lemma CreateProject_grows:
  assumes ok: "records_ok w" and cov: "covered R w" and R: "names_projects R w"
  shows "grows w (snd (CreateProject home lstat io now spec w)) \<and> covered R (snd (CreateProject home lstat io now spec w))"
proof (cases "validate_project home lstat spec")
  case (Inl e)
  then show ?thesis using assms by (simp add: CreateProject_def grows_refl)
next
  case (Inr p)
  let ?specs = "if SpecEnvironments spec = [] then [default_spec] else SpecEnvironments spec"
  have name: "nameRe (PID p)" by (rule validate_project_Inr [OF Inr])
  show ?thesis
  proof (cases "validate_envs (PID p) [] ?specs")
    case (Inl e)
    then show ?thesis using assms Inr by (simp add: CreateProject_def grows_refl)
  next
    case envs: (Inr es)
    show ?thesis
    proof (cases "LoadProject w (PID p) = Inr None")
      case False
      then show ?thesis using assms Inr envs
        by (auto simp: CreateProject_def grows_refl split: sum.split option.split)
    next
      case load: True
      have named: "\<forall>e \<in> set es. EProjectID e = PID p \<and> named_env e" "es \<noteq> []"
        using validate_envs_Inr [OF envs] name by auto
      let ?s = "save_envs io now es w"
      have g: "grows w (snd ?s)" "project_of (snd ?s) = project_of w"
        "fst ?s = None \<Longrightarrow> \<forall>e \<in> set es. environment_of (snd ?s) (EID e) \<noteq> None"
        using save_envs_grows [OF ok, of es io now] named by auto
      have cov1: "covered R (snd ?s)" using grows_covered [OF ok g(1) cov] g(2) by simp
      have ok1: "records_ok (snd ?s)" using g(1) by (simp add: grows_def)
      show ?thesis
      proof (cases "fst ?s")
        case (Some e)
        then have "CreateProject home lstat io now spec w = (Inl e, snd ?s)"
          using Inr envs load by (cases ?s) (simp add: CreateProject_def)
        then show ?thesis using g(1) cov1 by simp
      next
        case None
        let ?p = "p\<lparr>PCreated := now\<rparr>"
        let ?w = "snd (SaveProject io ?p (snd ?s))"
        have p: "nameRe (PID ?p)" using name by simp
        note sp = SaveProject_grows [OF ok1 p, of io]
        have r: "snd (CreateProject home lstat io now spec w) = ?w"
          using None Inr envs load by (cases ?s) (simp add: CreateProject_def Let_def snd_saved)
        have "covered R ?w"
          unfolding covered_def
        proof (intro allI impI)
          fix i q assume q: "project_of ?w i = Some q"
          show "\<exists>j e. environment_of ?w j = Some e \<and> EProjectID e = i \<and> j \<notin> R"
          proof (cases "i = PID p")
            case False
            then have "project_of (snd ?s) i = Some q" using q sp(3) by auto
            then show ?thesis using cov1 sp(2) by (simp add: covered_def)
          next
            case True
            obtain e0 where e0: "e0 \<in> set es" using named(2) by (cases es) auto
            then obtain e where e: "environment_of (snd ?s) (EID e0) = Some e" using g(3) [OF None] by blast
            have ids: "EID e = EID e0" "named_env e" using environment_of_id [OF ok1 e] by auto
            have prj: "EProjectID e = PID p"
              using named_env_project [OF ids(2) _ ids(1)] named(1) e0 by auto
            have "EID e0 \<notin> R"
            proof
              assume "EID e0 \<in> R"
              then have "project_of w (PID p) \<noteq> None"
                using R ids prj by (auto simp: names_projects_def)
              then show False using LoadProject_None [OF load] by simp
            qed
            then show ?thesis using e prj True sp(2) by auto
          qed
        qed
        moreover have "grows w ?w" using grows_trans [OF g(1)] sp(1) by simp
        ultimately show ?thesis unfolding r by simp
      qed
    qed
  qed
qed

lemma AddEnvironment_cases:
  obtains "snd (AddEnvironment io now pid spec w) = w"
  | e where "nameRe (orDefault pid)" "validate_environment (orDefault pid) spec = Inr e"
      "project_of w (orDefault pid) \<noteq> None" "environment_of w (EID e) = None"
      "snd (AddEnvironment io now pid spec w) = snd (SaveEnvironment io (e\<lparr>ECreated := now\<rparr>) w)"
proof (cases "ValidateName ''project'' (orDefault pid)")
  case (Some e)
  then show thesis using that(1) by (simp add: AddEnvironment_def)
next
  case n: None
  show thesis
  proof (cases "validate_environment (orDefault pid) spec")
    case (Inl e)
    then show thesis using n that(1) by (simp add: AddEnvironment_def)
  next
    case e: (Inr e)
    show thesis
    proof (cases "(\<exists>p. LoadProject w (orDefault pid) = Inr (Some p)) \<and> LoadEnvironment w (EID e) = Inr None")
      case True
      then have "snd (AddEnvironment io now pid spec w) = snd (SaveEnvironment io (e\<lparr>ECreated := now\<rparr>) w)"
        using n e by (auto simp: AddEnvironment_def Let_def snd_saved)
      moreover have "project_of w (orDefault pid) \<noteq> None" "environment_of w (EID e) = None"
        using True LoadProject_Some LoadEnvironment_None by auto
      ultimately show thesis using that(2) n e ValidateName_None by blast
    next
      case False
      then have "snd (AddEnvironment io now pid spec w) = w"
        using n e by (auto simp: AddEnvironment_def Let_def split: sum.split option.split)
      then show thesis by (rule that(1))
    qed
  qed
qed

lemma AddEnvironment_grows:
  assumes ok: "records_ok w" and cov: "covered R w"
  shows "grows w (snd (AddEnvironment io now pid spec w)) \<and> covered R (snd (AddEnvironment io now pid spec w))"
proof (rule AddEnvironment_cases [of io now pid spec w])
  assume "snd (AddEnvironment io now pid spec w) = w"
  then show ?thesis using grows_refl [OF ok] cov by simp
next
  fix e
  assume e: "nameRe (orDefault pid)" "validate_environment (orDefault pid) spec = Inr e"
    and r: "snd (AddEnvironment io now pid spec w) = snd (SaveEnvironment io (e\<lparr>ECreated := now\<rparr>) w)"
  have n: "named_env (e\<lparr>ECreated := now\<rparr>)" using validate_environment_Inr [OF e(2)] e(1) by simp
  note g = SaveEnvironment_grows [OF ok n, of io]
  show ?thesis unfolding r using g(1,2) grows_covered [OF ok g(1) cov] by simp
qed

lemma SetCapabilities_grows:
  assumes ok: "records_ok w" and cov: "covered R w"
  shows "grows w (snd (SetCapabilities io pid caps w)) \<and> covered R (snd (SetCapabilities io pid caps w))"
proof (cases "(\<exists>c. validateCapabilities caps = Inr c) \<and> (\<exists>p. LoadProject w (orDefault pid) = Inr (Some p))")
  case True
  then obtain c p where c: "validateCapabilities caps = Inr c" and p: "LoadProject w (orDefault pid) = Inr (Some p)" by blast
  have r: "snd (SetCapabilities io pid caps w) = snd (SaveProject io (p\<lparr>Capabilities := c\<rparr>) w)"
    using c p by (simp add: SetCapabilities_def Let_def snd_saved)
  have "PID (p\<lparr>Capabilities := c\<rparr>) = PID p" by simp
  then show ?thesis unfolding r using SaveProject_covered [OF ok LoadProject_Some [OF p] _ cov] by blast
next
  case False
  then have "snd (SetCapabilities io pid caps w) = w"
    by (auto simp: SetCapabilities_def split: sum.split option.split)
  then show ?thesis using grows_refl [OF ok] cov by simp
qed

lemma SetToolchain_saves:
  assumes "ValidateTools (Tools tc) = Inr c" and "LoadProject w (orDefault pid) = Inr (Some p)"
  shows "SetToolchain io pid tc w =
    (let tc = (if TStatus tc = ToolchainFailed \<and> LayerDigest tc = []
               then tc\<lparr>Tools := c, LayerDigest := LayerDigest (PToolchain p),
                 FlakeLockHash := FlakeLockHash (PToolchain p), BuiltAt := BuiltAt (PToolchain p)\<rparr>
               else tc\<lparr>Tools := c\<rparr>)
     in case SaveProject io (p\<lparr>PToolchain := tc\<rparr>) w of
          (Some e, w) \<Rightarrow> (Inl e, w) | (None, w) \<Rightarrow> (Inr (p\<lparr>PToolchain := tc\<rparr>), w))"
  using assms by (auto simp: SetToolchain_def Let_def)

lemma SetToolchain_grows:
  assumes ok: "records_ok w" and cov: "covered R w"
  shows "grows w (snd (SetToolchain io pid tc w)) \<and> covered R (snd (SetToolchain io pid tc w))"
proof (cases "(\<exists>c. ValidateTools (Tools tc) = Inr c) \<and> (\<exists>p. LoadProject w (orDefault pid) = Inr (Some p))")
  case True
  then obtain c p where c: "ValidateTools (Tools tc) = Inr c" and p: "LoadProject w (orDefault pid) = Inr (Some p)" by blast
  obtain tc' where r: "snd (SetToolchain io pid tc w) = snd (SaveProject io (p\<lparr>PToolchain := tc'\<rparr>) w)"
    using SetToolchain_saves [OF c p] by (simp add: Let_def snd_saved)
  have "PID (p\<lparr>PToolchain := tc'\<rparr>) = PID p" by simp
  then show ?thesis unfolding r using SaveProject_covered [OF ok LoadProject_Some [OF p] _ cov] by blast
next
  case False
  then have "snd (SetToolchain io pid tc w) = w"
    by (auto simp: SetToolchain_def split: sum.split option.split)
  then show ?thesis using grows_refl [OF ok] cov by simp
qed

subsection \<open>The methods that remove\<close>

lemma DeleteEnvironment_effect:
  assumes "records_ok w"
  shows "records_ok (snd (DeleteEnvironment io i w))" "same_sandboxes w (snd (DeleteEnvironment io i w))"
    "project_of (snd (DeleteEnvironment io i w)) = project_of w"
    "environment_of (snd (DeleteEnvironment io i w)) = environment_of w \<or>
     environment_of (snd (DeleteEnvironment io i w)) = (environment_of w)(i := None)"
    "fst (DeleteEnvironment io i w) = None \<Longrightarrow>
     environment_of (snd (DeleteEnvironment io i w)) = (environment_of w)(i := None)"
proof -
  let ?s = "delete_record ''environment'' io i (Envs w)"
  have s: "DeleteEnvironment io i w = (fst ?s, w\<lparr>Envs := snd ?s\<rparr>)"
    by (simp add: DeleteEnvironment_def split: prod.split)
  show p: "project_of (snd (DeleteEnvironment io i w)) = project_of w" by (simp add: s project_of_def)
  show "same_sandboxes w (snd (DeleteEnvironment io i w))" by (simp add: s same_sandboxes_def)
  show c: "environment_of (snd (DeleteEnvironment io i w)) = environment_of w \<or>
      environment_of (snd (DeleteEnvironment io i w)) = (environment_of w)(i := None)"
    using env_store.del_cases [of io i "Envs w"] by (auto simp: s environment_of_def)
  have named: "named_env x" if "environment_of (snd (DeleteEnvironment io i w)) j = Some x" for j x
    using c assms that by (auto simp: records_ok_def split: if_splits)
  show "records_ok (snd (DeleteEnvironment io i w))"
    unfolding records_ok_def p using named assms by (auto simp: s records_ok_def files_ok_delete)
  show "environment_of (snd (DeleteEnvironment io i w)) = (environment_of w)(i := None)"
    if "fst (DeleteEnvironment io i w) = None"
    using that env_store.del_content [of io i "Envs w" "snd ?s"] by (simp add: s environment_of_def prod_eq_iff)
qed

lemma DeleteProject_effect:
  assumes "records_ok w"
  shows "records_ok (snd (DeleteProject io i w))" "same_sandboxes w (snd (DeleteProject io i w))"
    "environment_of (snd (DeleteProject io i w)) = environment_of w"
    "project_of (snd (DeleteProject io i w)) = project_of w \<or>
     project_of (snd (DeleteProject io i w)) = (project_of w)(i := None)"
    "fst (DeleteProject io i w) = None \<Longrightarrow> project_of (snd (DeleteProject io i w)) = (project_of w)(i := None)"
proof -
  let ?s = "delete_record ''project'' io i (Projs w)"
  have s: "DeleteProject io i w = (fst ?s, w\<lparr>Projs := snd ?s\<rparr>)"
    by (simp add: DeleteProject_def split: prod.split)
  show e: "environment_of (snd (DeleteProject io i w)) = environment_of w" by (simp add: s environment_of_def)
  show "same_sandboxes w (snd (DeleteProject io i w))" by (simp add: s same_sandboxes_def)
  show c: "project_of (snd (DeleteProject io i w)) = project_of w \<or>
      project_of (snd (DeleteProject io i w)) = (project_of w)(i := None)"
    using proj_store.del_cases [of io i "Projs w"] by (auto simp: s project_of_def)
  have named: "nameRe j" if "project_of (snd (DeleteProject io i w)) j = Some x" for j x
    using c assms that by (auto simp: records_ok_def split: if_splits)
  show "records_ok (snd (DeleteProject io i w))"
    unfolding records_ok_def e using named assms by (auto simp: s records_ok_def files_ok_delete)
  show "project_of (snd (DeleteProject io i w)) = (project_of w)(i := None)" if "fst (DeleteProject io i w) = None"
    using that proj_store.del_content [of io i "Projs w" "snd ?s"] by (simp add: s project_of_def prod_eq_iff)
qed

lemma remove_project_commit_effect:
  assumes "records_ok w" "\<forall>e \<in> set es. named_env e" "nameRe pid"
    and io: "\<forall>i. io (record_path ''environment'' i) \<and> io (record_path ''project'' i)"
  shows "fst (remove_project_commit io pid es w) = None"
    "records_ok (snd (remove_project_commit io pid es w))"
    "same_sandboxes w (snd (remove_project_commit io pid es w))"
    "project_of (snd (remove_project_commit io pid es w)) = (project_of w)(pid := None)"
    "environment_of (snd (remove_project_commit io pid es w)) =
      (\<lambda>i. if i \<in> EID ` set es then None else environment_of w i)"
proof -
  have del: "fst (DeleteEnvironment io (EID e) w) = None" if "named_env e" for e w
    using that io safeRecordID_env
    by (auto simp: DeleteEnvironment_def delete_record_def named_env_def split: prod.split)
  have envs: "fst (delete_envs io es w) = None \<and> records_ok (snd (delete_envs io es w)) \<and>
      same_sandboxes w (snd (delete_envs io es w)) \<and> project_of (snd (delete_envs io es w)) = project_of w \<and>
      environment_of (snd (delete_envs io es w)) = (\<lambda>i. if i \<in> EID ` set es then None else environment_of w i)"
    using assms(1,2)
  proof (induction es arbitrary: w)
    case Nil
    then show ?case by (simp add: same_sandboxes_def)
  next
    case (Cons e es)
    let ?d = "DeleteEnvironment io (EID e) w"
    have n: "fst ?d = None" using del Cons.prems(2) by simp
    then have r: "delete_envs io (e # es) w = delete_envs io es (snd ?d)" by (cases ?d) simp
    note d = DeleteEnvironment_effect [OF Cons.prems(1), of io "EID e"]
    have "environment_of (snd ?d) = (environment_of w)(EID e := None)" using d(5) n by simp
    then show ?case
      unfolding r using Cons.IH [OF d(1)] Cons.prems(2) d(2,3) by (auto simp: same_sandboxes_def fun_eq_iff)
  qed
  let ?d = "delete_envs io es w"
  have r: "remove_project_commit io pid es w = DeleteProject io pid (snd ?d)"
    using envs by (cases ?d) (simp add: remove_project_commit_def)
  have ok: "records_ok (snd ?d)" using envs by simp
  note d = DeleteProject_effect [OF ok, of io pid]
  have n: "fst (DeleteProject io pid (snd ?d)) = None"
    using io safeRecordID_name [OF assms(3)]
    by (auto simp: DeleteProject_def delete_record_def split: prod.split)
  show "fst (remove_project_commit io pid es w) = None" "records_ok (snd (remove_project_commit io pid es w))"
    "same_sandboxes w (snd (remove_project_commit io pid es w))"
    "project_of (snd (remove_project_commit io pid es w)) = (project_of w)(pid := None)"
    "environment_of (snd (remove_project_commit io pid es w)) =
      (\<lambda>i. if i \<in> EID ` set es then None else environment_of w i)"
    unfolding r using d n envs by (auto simp: same_sandboxes_def)
qed

lemma siblings_other:
  assumes "environmentsLocked w pid = Inr es" "records_ok w" "length (filter P es) > 1"
  obtains e where "environment_of w (EID e) = Some e" "EProjectID e = pid" "P e" "EID e \<noteq> i"
proof -
  have d: "distinct (map EID (filter P es))"
    using environmentsLocked_Inr(2) [OF assms(1,2)] by (simp add: distinct_map inj_on_def)
  have "\<exists>e \<in> set (filter P es). EID e \<noteq> i"
  proof (rule ccontr)
    assume "\<not> ?thesis"
    then have "set (map EID (filter P es)) \<subseteq> {i}" by auto
    then have "card (set (map EID (filter P es))) \<le> 1"
      using card_mono [of "{i}" "set (map EID (filter P es))"] by simp
    then show False using distinct_card [OF d] assms(3) by simp
  qed
  then obtain e where e: "e \<in> set es" "P e" "EID e \<noteq> i" by auto
  then have "\<exists>j. environment_of w j = Some e" "EProjectID e = pid"
    using environmentsLocked_Inr(1) [OF assms(1,2)] by auto
  then show thesis using that e environment_of_id [OF assms(2)] by blast
qed

text \<open>What the last phase of an environment removal does, whoever runs it.\<close>

lemma remove_env_commit_effect:
  assumes "records_ok w"
  shows "records_ok (snd (remove_env_commit io env w))" "same_sandboxes w (snd (remove_env_commit io env w))"
    "project_of (snd (remove_env_commit io env w)) = project_of w"
    "environment_of (snd (remove_env_commit io env w)) = environment_of w \<or>
     environment_of (snd (remove_env_commit io env w)) = (environment_of w)(EID env := None) \<and>
     (\<exists>e. environment_of w (EID e) = Some e \<and> EProjectID e = EProjectID env \<and> EID e \<noteq> EID env)"
    "fst (remove_env_commit io env w) = None \<Longrightarrow>
     environment_of (snd (remove_env_commit io env w)) = (environment_of w)(EID env := None)"
    "fst (remove_env_commit io env w) \<noteq> None \<Longrightarrow> environment_of (snd (remove_env_commit io env w)) = environment_of w"
proof -
  have "records_ok (snd (remove_env_commit io env w)) \<and> same_sandboxes w (snd (remove_env_commit io env w)) \<and>
    project_of (snd (remove_env_commit io env w)) = project_of w \<and>
    (environment_of (snd (remove_env_commit io env w)) = environment_of w \<or>
     environment_of (snd (remove_env_commit io env w)) = (environment_of w)(EID env := None) \<and>
     (\<exists>e. environment_of w (EID e) = Some e \<and> EProjectID e = EProjectID env \<and> EID e \<noteq> EID env)) \<and>
    (fst (remove_env_commit io env w) = None \<longrightarrow>
      environment_of (snd (remove_env_commit io env w)) = (environment_of w)(EID env := None)) \<and>
    (fst (remove_env_commit io env w) \<noteq> None \<longrightarrow>
      environment_of (snd (remove_env_commit io env w)) = environment_of w)"
  proof (cases "LoadEnvironment w (EID env)")
    case (Inl e)
    then show ?thesis using assms by (simp add: remove_env_commit_def same_sandboxes_def)
  next
    case (Inr found)
    show ?thesis
    proof (cases found)
      case None
      then show ?thesis
        using assms Inr LoadEnvironment_None [of w "EID env"] by (auto simp: remove_env_commit_def same_sandboxes_def fun_eq_iff)
    next
      case (Some x)
      show ?thesis
      proof (cases "environmentsLocked w (EProjectID env)")
        case (Inl e)
        then show ?thesis using assms Inr Some by (simp add: remove_env_commit_def same_sandboxes_def)
      next
        case sib: (Inr es)
        show ?thesis
        proof (cases "length es \<le> 1")
          case True
          then show ?thesis using assms Inr Some sib by (simp add: remove_env_commit_def same_sandboxes_def)
        next
          case False
          then have "length (filter (\<lambda>_. True) es) > 1" by simp
          from siblings_other [OF sib assms this] obtain e where
            e: "environment_of w (EID e) = Some e" "EProjectID e = EProjectID env" "EID e \<noteq> EID env" .
          have r: "remove_env_commit io env w = DeleteEnvironment io (EID env) w"
            using False Inr Some sib by (simp add: remove_env_commit_def)
          note d = DeleteEnvironment_effect [OF assms, of io "EID env"]
          have f: "fst (DeleteEnvironment io (EID env) w) \<noteq> None \<Longrightarrow>
              environment_of (snd (DeleteEnvironment io (EID env) w)) = environment_of w"
            using env_store.del_failed [of io "EID env" "Envs w"]
            by (auto simp: DeleteEnvironment_def environment_of_def split: prod.splits)
          show ?thesis unfolding r using d e f by blast
        qed
      qed
    qed
  qed
  then show "records_ok (snd (remove_env_commit io env w))" "same_sandboxes w (snd (remove_env_commit io env w))"
    "project_of (snd (remove_env_commit io env w)) = project_of w"
    "environment_of (snd (remove_env_commit io env w)) = environment_of w \<or>
     environment_of (snd (remove_env_commit io env w)) = (environment_of w)(EID env := None) \<and>
     (\<exists>e. environment_of w (EID e) = Some e \<and> EProjectID e = EProjectID env \<and> EID e \<noteq> EID env)"
    "fst (remove_env_commit io env w) = None \<Longrightarrow>
     environment_of (snd (remove_env_commit io env w)) = (environment_of w)(EID env := None)"
    "fst (remove_env_commit io env w) \<noteq> None \<Longrightarrow> environment_of (snd (remove_env_commit io env w)) = environment_of w"
    by blast+
qed

subsection \<open>The sandboxes a removal asks for\<close>

text \<open>
  The interface \<^verbatim>\<open>Sandboxes\<close> of the service: a destroyed session is no longer listed in any scope,
  and a failed teardown adds none.
\<close>

locale sandboxes =
  fixes sessions :: "'m \<Rightarrow> 'sc \<Rightarrow> string list"
    and destroy :: "string \<Rightarrow> 'm \<Rightarrow> project_error option \<times> 'm"
  assumes destroy_removes: "destroy i m = (None, m') \<Longrightarrow> set (sessions m' sc) = set (sessions m sc) - {i}"
    and destroy_adds_none: "set (sessions (snd (destroy i m)) sc) \<subseteq> set (sessions m sc)"
begin

lemma destroy_all_removes:
  "destroy_all destroy ids m = (None, m') \<Longrightarrow> set (sessions m' sc) = set (sessions m sc) - set ids"
proof (induction ids arbitrary: m)
  case (Cons i ids)
  then obtain m1 where "destroy i m = (None, m1)" "destroy_all destroy ids m1 = (None, m')"
    by (auto split: prod.splits option.splits)
  then show ?case using Cons.IH destroy_removes [of i m m1 sc] by auto
qed simp

lemma destroy_all_clears:
  "destroy_all destroy (sessions m sc) m = (None, m') \<Longrightarrow> sessions m' sc = []"
  using destroy_all_removes [of "sessions m sc" m m' sc] by simp

lemma destroy_all_adds_none: "set (sessions (snd (destroy_all destroy ids m)) sc) \<subseteq> set (sessions m sc)"
proof (induction ids arbitrary: m)
  case (Cons i ids)
  show ?case
  proof (cases "destroy i m")
    case (Pair r m1)
    then show ?thesis
      using Cons.IH [of m1] destroy_adds_none [of i m sc] by (auto split: option.split)
  qed
qed simp

end

lemma set_SessionsIn: "set (SessionsIn w pid eid) = {i. \<exists>s. (i, s) \<in> set (LiveS w) \<and> in_scope pid eid s}"
  by (auto simp: SessionsIn_def image_iff) force+

interpretation removal: sandboxes "\<lambda>w (pid, eid). SessionsIn w pid eid" "Destroy_session ok" for ok
proof
  fix i m m' and sc :: "string \<times> string"
  obtain pid eid where sc: "sc = (pid, eid)" by (cases sc)
  show "Destroy_session ok i m = (None, m') \<Longrightarrow>
      set (case sc of (pid, eid) \<Rightarrow> SessionsIn m' pid eid) = set (case sc of (pid, eid) \<Rightarrow> SessionsIn m pid eid) - {i}"
    unfolding sc by (auto simp: Destroy_session_def set_SessionsIn al_del_def Let_def split: option.splits if_splits) blast+
  show "set (case sc of (pid, eid) \<Rightarrow> SessionsIn (snd (Destroy_session ok i m)) pid eid) \<subseteq>
      set (case sc of (pid, eid) \<Rightarrow> SessionsIn m pid eid)"
    unfolding sc by (auto simp: Destroy_session_def set_SessionsIn al_del_def Let_def split: option.splits)
qed

definition same_records :: "world \<Rightarrow> world \<Rightarrow> bool" where
  "same_records w w' \<longleftrightarrow> Projs w' = Projs w \<and> Envs w' = Envs w \<and> Removing w' = Removing w \<and> Inflight w' = Inflight w"

lemma same_records_of:
  "same_records w w' \<Longrightarrow> project_of w' = project_of w \<and> environment_of w' = environment_of w \<and>
   (records_ok w' \<longleftrightarrow> records_ok w)"
  by (simp add: same_records_def records_ok_def project_of_def environment_of_def)

lemma Destroy_session_records: "same_records w (snd (Destroy_session ok i w))"
  by (simp add: Destroy_session_def same_records_def Let_def split: option.split)

lemma destroy_all_records: "same_records w (snd (destroy_all (Destroy_session ok) ids w))"
proof (induction ids arbitrary: w)
  case (Cons i ids)
  show ?case
  proof (cases "Destroy_session ok i w")
    case (Pair r w1)
    have "same_records w w1" using Destroy_session_records [of w ok i] Pair by simp
    then show ?thesis using Cons.IH [of w1] Pair by (auto simp: same_records_def split: option.split)
  qed
qed (simp add: same_records_def)

lemma claim_Inr:
  assumes "remove_env_claim pid eid w = (Inr env, w1)"
  obtains p es where "resolve_ids w pid eid = Inr (p, env)" "w1 = w\<lparr>Removing := EID env # Removing w\<rparr>"
    "environmentsLocked w (EProjectID env) = Inr es" "length (filter (\<lambda>e. EID e \<notin> set (Removing w)) es) > 1"
    "EID env \<notin> set (Removing w)"
  using assms by (auto simp: remove_env_claim_def split: sum.splits prod.splits if_splits)

lemma claim_Inl: "remove_env_claim pid eid w = (Inl e, w1) \<Longrightarrow> w1 = w"
  by (auto simp: remove_env_claim_def split: sum.splits prod.splits if_splits)

lemma RemoveEnvironment_claimed:
  assumes "remove_env_claim pid eid w = (Inr env, w1)"
  shows "RemoveEnvironment io ok pid eid w =
    (case remove_env_inflight env w1 of
       Some e \<Rightarrow> (Some e, unclaim env w1)
     | None \<Rightarrow>
         (case destroy_all (Destroy_session ok) (SessionsIn w1 (EProjectID env) (EID env)) w1 of
            (Some e, w2) \<Rightarrow> (Some e, unclaim env w2)
          | (None, w2) \<Rightarrow> (fst (remove_env_commit io env w2), unclaim env (snd (remove_env_commit io env w2)))))"
  using assms by (simp add: RemoveEnvironment_def split: option.split prod.split)

lemma unclaim_simps [simp]:
  "project_of (unclaim env w) = project_of w" "environment_of (unclaim env w) = environment_of w"
  "SessionsIn (unclaim env w) pid eid = SessionsIn w pid eid" "InFlightIn (unclaim env w) pid eid = InFlightIn w pid eid"
  "records_ok (unclaim env w) = records_ok w"
  by (simp_all add: unclaim_def project_of_def environment_of_def SessionsIn_def InFlightIn_def records_ok_def)

lemma same_sandboxes_listed:
  "same_sandboxes w w' \<Longrightarrow> SessionsIn w' pid eid = SessionsIn w pid eid \<and> InFlightIn w' pid eid = InFlightIn w pid eid"
  by (simp add: same_sandboxes_def SessionsIn_def InFlightIn_def)

text \<open>
  An environment is removed with its sandboxes and never alone. Run without interference, a
  removal that succeeds has resolved the environment inside the named project, found no create in
  flight there, destroyed every session in it, deleted that record and no other, and left the project
  with another environment; one that fails, at whichever step, has deleted no record.
\<close>

theorem RemoveEnvironment_ordered:
  assumes "records_ok w" and "RemoveEnvironment io ok projectID environmentID w = (r, w')"
  shows "project_of w' = project_of w \<and> records_ok w' \<and>
    (case r of
       Some e \<Rightarrow> environment_of w' = environment_of w
     | None \<Rightarrow> \<exists>env. environment_of w (EID env) = Some env \<and> EProjectID env = orDefault projectID \<and>
         environment_of w' = (environment_of w)(EID env := None) \<and>
         InFlightIn w' (EProjectID env) (EID env) = 0 \<and> SessionsIn w' (EProjectID env) (EID env) = [] \<and>
         (\<exists>e. environment_of w' (EID e) = Some e \<and> EProjectID e = EProjectID env))"
proof (cases "remove_env_claim projectID environmentID w")
  case (Pair c w1)
  show ?thesis
  proof (cases c)
    case (Inl e)
    then show ?thesis using assms Pair claim_Inl [of projectID environmentID w e w1] by (simp add: RemoveEnvironment_def) auto
  next
    case (Inr env)
    from Pair [unfolded Inr] obtain p es where
      ids: "resolve_ids w projectID environmentID = Inr (p, env)" and w1: "w1 = w\<lparr>Removing := EID env # Removing w\<rparr>" and
      es: "environmentsLocked w (EProjectID env) = Inr es" "length (filter (\<lambda>e. EID e \<notin> set (Removing w)) es) > 1"
      by (rule claim_Inr)
    note i = resolve_ids_Inr [OF ids assms(1)]
    note run = assms(2) [unfolded RemoveEnvironment_claimed [OF Pair [unfolded Inr]]]
    have same1: "project_of w1 = project_of w" "environment_of w1 = environment_of w" "records_ok w1"
      using assms(1) by (simp_all add: w1 project_of_def environment_of_def records_ok_def)
    show ?thesis
    proof (cases "remove_env_inflight env w1")
      case (Some e)
      then have "r = Some e" "w' = unclaim env w1" using run by simp_all
      then show ?thesis using same1 by simp
    next
      case None
      let ?d = "destroy_all (Destroy_session ok) (SessionsIn w1 (EProjectID env) (EID env)) w1"
      have same2: "project_of (snd ?d) = project_of w" "environment_of (snd ?d) = environment_of w" "records_ok (snd ?d)"
        "InFlightIn (snd ?d) (EProjectID env) (EID env) = 0"
        using same_records_of [OF destroy_all_records [of w1 ok "SessionsIn w1 (EProjectID env) (EID env)"]] same1 None
          destroy_all_records [of w1 ok "SessionsIn w1 (EProjectID env) (EID env)"]
        by (auto simp: remove_env_inflight_def same_records_def InFlightIn_def split: if_splits)
      show ?thesis
      proof (cases "fst ?d")
        case (Some e)
        then have "r = Some e" "w' = unclaim env (snd ?d)" using run None by (cases ?d; simp)+
        then show ?thesis using same2 by simp
      next
        case d: None
        let ?c = "remove_env_commit io env (snd ?d)"
        have r: "r = fst ?c" "w' = unclaim env (snd ?c)" using run None d by (cases ?d; simp)+
        note c = remove_env_commit_effect [OF same2(3), of io env]
        have clear: "SessionsIn (snd ?d) (EProjectID env) (EID env) = []"
          using removal.destroy_all_clears [of ok w1 "(EProjectID env, EID env)" "snd ?d"] d by (cases ?d) simp
        note listed = same_sandboxes_listed [OF c(2), of "EProjectID env" "EID env"]
        show ?thesis
        proof (cases r)
          case (Some e)
          then show ?thesis using r c same2 by simp
        next
          case rn: None
          have e': "environment_of (snd ?c) = (environment_of w)(EID env := None)" using c(5) r rn same2 by simp
          from siblings_other [OF es(1) assms(1) es(2), of "EID env"] obtain e where
            e: "environment_of w (EID e) = Some e" "EProjectID e = EProjectID env" "EID e \<noteq> EID env" .
          have "environment_of w' (EID e) = Some e" using e' e r by simp
          then have other: "\<exists>e. environment_of w' (EID e) = Some e \<and> EProjectID e = EProjectID env" using e(2) by blast
          have rest: "project_of w' = project_of w" "records_ok w'" "environment_of w' = (environment_of w)(EID env := None)"
            "InFlightIn w' (EProjectID env) (EID env) = 0" "SessionsIn w' (EProjectID env) (EID env) = []"
            unfolding r(2) using c(1,3) same2 e' clear listed by simp_all
          have "EProjectID env = orDefault projectID" using i(2,4) by simp
          then show ?thesis unfolding rn option.case using rest other i(3) by blast
        qed
      qed
    qed
  qed
qed

definition stage_environment :: Environment where
  "stage_environment = (default_environment ''t1'')\<lparr>EID := ''default.stage'', EName := ''stage''\<rparr>"

definition staged_world :: world where
  "staged_world = demo_world\<lparr>Envs := Envs demo_world @ [(''default.stage'', Good stage_environment)],
     LiveS := [(''s1'', ''default'', ''default.stage''), (''s2'', ''default'', ''default.default'')],
     Containers := [(''s1'', ''default'', ''default.stage''), (''s2'', ''default'', ''default.default'')]\<rparr>"

lemma staged_records_ok: "records_ok staged_world"
  by (auto simp: records_ok_def staged_world_def stage_environment_def demo_world_def files_ok_def project_of_def
      environment_of_def stored_at_def
      default_project_def default_environment_def named_env_def nameRe_def name_head_def name_tail_def
      DefaultProjectID_def DefaultEnvironmentID_def DefaultEnvironmentName_def envIDSeparator_def EnvironmentID_def
      split: if_splits)

lemma staged_removal: "fst (RemoveEnvironment (\<lambda>_. True) (\<lambda>_. True) [] ''stage'' staged_world) = None"
  by code_simp

theorem RemoveEnvironment_ordered_witness:
  "\<exists>w'. \<exists>env :: Environment. RemoveEnvironment (\<lambda>_. True) (\<lambda>_. True) [] ''stage'' staged_world = (None, w') \<and>
     EProjectID env = ''default'' \<and> environment_of w' = (environment_of staged_world)(EID env := None)"
proof -
  obtain w' where run: "RemoveEnvironment (\<lambda>_. True) (\<lambda>_. True) [] ''stage'' staged_world = (None, w')"
    using staged_removal by (cases "RemoveEnvironment (\<lambda>_. True) (\<lambda>_. True) [] ''stage'' staged_world") simp
  obtain env :: Environment where "EProjectID env = orDefault []" "environment_of w' = (environment_of staged_world)(EID env := None)"
    using RemoveEnvironment_ordered [OF staged_records_ok run] unfolding option.case
    by (elim conjE exE) (rule that)
  with run show ?thesis by (intro exI conjI) (simp_all add: orDefault_def DefaultProjectID_def)
qed

end
