(* ===== verification/Project_Races.thy ===== *)
theory Project_Races
  imports Project_Safety
begin

text \<open>
  The removals as threads that interleave with each other, with the other methods of the service and
  with the creation of sessions. What holds in every interleaving: a project always has an
  environment, and an environment removal that claimed its target is not refused after it has torn
  the sandboxes down. What does not: that no session outlives the record that governs it.
\<close>

subsection \<open>Every project keeps an environment\<close>

definition thread_ok :: "thread \<Rightarrow> bool" where
  "thread_ok th = (case th of
     RemClaimed env \<Rightarrow> named_env env
   | RemCounted env \<Rightarrow> named_env env
   | RemTeardown env ids \<Rightarrow> named_env env
   | RemFinished env r \<Rightarrow> named_env env
   | ProjSnapshot pid es \<Rightarrow> nameRe pid \<and> (\<forall>e \<in> set es. named_env e \<and> EProjectID e = pid)
   | ProjSeen pid es \<Rightarrow> nameRe pid \<and> (\<forall>e \<in> set es. named_env e \<and> EProjectID e = pid)
   | ProjUnlocked pid es \<Rightarrow> nameRe pid \<and> (\<forall>e \<in> set es. named_env e \<and> EProjectID e = pid)
   | ProjLocked pid es \<Rightarrow> nameRe pid \<and> (\<forall>e \<in> set es. named_env e \<and> EProjectID e = pid)
   | _ \<Rightarrow> True)"

definition sys_ok :: "sys \<Rightarrow> bool" where
  "sys_ok s \<longleftrightarrow> records_ok (World s) \<and> covered {} (World s) \<and>
     (\<forall>t th. map_of (Threads s) t = Some th \<longrightarrow> thread_ok th)"

text \<open>The deletions a removal makes succeed; any other operation may fail.\<close>

definition deletes_succeed :: "event \<Rightarrow> bool" where
  "deletes_succeed ev = (case ev of
     EvAdvance t io ok sid \<Rightarrow> (\<forall>i. io (record_path ''environment'' i) \<and> io (record_path ''project'' i))
   | _ \<Rightarrow> True)"

lemma covered_del:
  assumes "covered R w" "project_of w' = project_of w" "records_ok w"
    "environment_of w' = (environment_of w)(i := None)"
    "\<And>p. project_of w p \<noteq> None \<Longrightarrow> \<exists>j e. environment_of w j = Some e \<and> EProjectID e = p \<and> j \<notin> R \<and> j \<noteq> i"
  shows "covered R w'"
  unfolding covered_def assms(2,4)
proof (intro allI impI)
  fix p q assume "project_of w p = Some q"
  then obtain j e where "environment_of w j = Some e" "EProjectID e = p" "j \<notin> R" "j \<noteq> i"
    using assms(5) [of p] by auto
  then show "\<exists>j e. ((environment_of w)(i := None)) j = Some e \<and> EProjectID e = p \<and> j \<notin> R"
    by (intro exI conjI) auto
qed

lemma covered_frame:
  "project_of w' = project_of w \<Longrightarrow> environment_of w' = environment_of w \<Longrightarrow> covered R w' = covered R w"
  by (simp add: covered_def)

lemma remove_env_commit_covered:
  assumes "records_ok w" "covered {} w" "named_env env"
  shows "covered {} (snd (remove_env_commit io env w))"
proof -
  note c = remove_env_commit_effect [OF assms(1), of io env]
  from c(4) show ?thesis
  proof
    assume "environment_of (snd (remove_env_commit io env w)) = environment_of w"
    then show ?thesis using covered_frame c(3) assms(2) by metis
  next
    assume r: "environment_of (snd (remove_env_commit io env w)) = (environment_of w)(EID env := None) \<and>
      (\<exists>e. environment_of w (EID e) = Some e \<and> EProjectID e = EProjectID env \<and> EID e \<noteq> EID env)"
    then obtain s where s: "environment_of w (EID s) = Some s" "EProjectID s = EProjectID env" "EID s \<noteq> EID env" by blast
    show ?thesis
    proof (rule covered_del [OF assms(2) c(3) assms(1) conjunct1 [OF r]])
      fix p assume "project_of w p \<noteq> None"
      then obtain j e where e: "environment_of w j = Some e" "EProjectID e = p"
        using assms(2) by (auto simp: covered_def)
      show "\<exists>j e. environment_of w j = Some e \<and> EProjectID e = p \<and> j \<notin> {} \<and> j \<noteq> EID env"
      proof (cases "j = EID env")
        case True
        then have "EProjectID e = EProjectID env"
          using environment_of_id [OF assms(1) e(1)] named_env_project assms(3) by metis
        then have "environment_of w (EID s) = Some s \<and> EProjectID s = p \<and> EID s \<notin> {} \<and> EID s \<noteq> EID env"
          using s e(2) by simp
        then show ?thesis by blast
      qed (use e in blast)
    qed
  qed
qed

lemma remove_project_commit_covered:
  assumes "records_ok w" "covered {} w" "nameRe pid" "\<forall>e \<in> set es. named_env e \<and> EProjectID e = pid"
    and io: "\<forall>i. io (record_path ''environment'' i) \<and> io (record_path ''project'' i)"
  shows "covered {} (snd (remove_project_commit io pid es w))"
proof -
  have n: "\<forall>e \<in> set es. named_env e" using assms(4) by blast
  note c = remove_project_commit_effect [OF assms(1) n assms(3) io]
  show ?thesis unfolding covered_def c(4,5)
  proof (intro allI impI)
    fix i p assume "((project_of w)(pid := None)) i = Some p"
    then have i: "i \<noteq> pid" "project_of w i = Some p" by (auto split: if_splits)
    then obtain j e where e: "environment_of w j = Some e" "EProjectID e = i"
      using assms(2) by (auto simp: covered_def)
    have "j \<notin> EID ` set es"
    proof
      assume "j \<in> EID ` set es"
      then obtain x where "x \<in> set es" "EID x = EID e" using environment_of_id [OF assms(1) e(1)] by auto
      then have "EProjectID e = pid"
        using named_env_project [of x e] assms(4) environment_of_id [OF assms(1) e(1)] by auto
      then show False using i e by simp
    qed
    then show "\<exists>j e. (if j \<in> EID ` set es then None else environment_of w j) = Some e \<and> EProjectID e = i \<and> j \<notin> {}"
      using e by auto
  qed
qed

lemma sys_ok_same_records:
  "same_records w w' \<Longrightarrow> records_ok w \<and> covered R w \<Longrightarrow> records_ok w' \<and> covered R w'"
  using same_records_of covered_frame by metis

lemma frame_updates:
  "same_records w (w\<lparr>Containers := cs\<rparr>)" "same_records w (w\<lparr>LiveS := l\<rparr>)"
  by (simp_all add: same_records_def)

lemma inflight_frame [simp]:
  "project_of (beginCreate p e w) = project_of w" "environment_of (beginCreate p e w) = environment_of w"
  "records_ok (beginCreate p e w) = records_ok w"
  "project_of (endCreate p e w) = project_of w" "environment_of (endCreate p e w) = environment_of w"
  "records_ok (endCreate p e w) = records_ok w"
  by (simp_all add: beginCreate_def endCreate_def Let_def project_of_def environment_of_def records_ok_def)

lemma sandbox_frame [simp]:
  "project_of (w\<lparr>Containers := cs\<rparr>) = project_of w" "environment_of (w\<lparr>Containers := cs\<rparr>) = environment_of w"
  "records_ok (w\<lparr>Containers := cs\<rparr>) = records_ok w"
  "project_of (w\<lparr>LiveS := l\<rparr>) = project_of w" "environment_of (w\<lparr>LiveS := l\<rparr>) = environment_of w"
  "records_ok (w\<lparr>LiveS := l\<rparr>) = records_ok w"
  "project_of (w\<lparr>Removing := rm\<rparr>) = project_of w" "environment_of (w\<lparr>Removing := rm\<rparr>) = environment_of w"
  "records_ok (w\<lparr>Removing := rm\<rparr>) = records_ok w"
  by (simp_all add: project_of_def environment_of_def records_ok_def)

lemma destroy_frame [simp]:
  "Destroy_session ok i w = (r, w') \<Longrightarrow> project_of w' = project_of w"
  "Destroy_session ok i w = (r, w') \<Longrightarrow> environment_of w' = environment_of w"
  "Destroy_session ok i w = (r, w') \<Longrightarrow> records_ok w' = records_ok w"
  using same_records_of [OF Destroy_session_records [of w ok i]] by simp_all

lemma advance_ok:
  assumes "thread_ok th" "records_ok w" "covered {} w"
    and io: "\<forall>i. io (record_path ''environment'' i) \<and> io (record_path ''project'' i)"
    and adv: "advance io ok sid th w = (th', w')"
  shows "thread_ok th' \<and> records_ok w' \<and> covered {} w'"
proof -
  have commit: "records_ok (snd (remove_env_commit io env w)) \<and> covered {} (snd (remove_env_commit io env w))"
    if "named_env env" for env
    using remove_env_commit_effect(1) [OF assms(2)] remove_env_commit_covered [OF assms(2,3) that] by blast
  have pcommit: "records_ok (snd (remove_project_commit io pid es w)) \<and> covered {} (snd (remove_project_commit io pid es w))"
    if "nameRe pid" "\<forall>e \<in> set es. named_env e \<and> EProjectID e = pid" for pid es
    using remove_project_commit_effect(2) [OF assms(2) _ that(1) io] that(2)
      remove_project_commit_covered [OF assms(2,3) that io] by blast
  have frame: "records_ok v \<and> covered {} v" if "project_of v = project_of w" "environment_of v = environment_of w"
      "records_ok v = records_ok w" for v
    using that covered_frame assms(2,3) by metis
  show ?thesis
  proof (cases th)
    case (RemTeardown env ids)
    show ?thesis
    proof (cases ids)
      case Nil
      then show ?thesis
        using adv commit [of env] assms(1) RemTeardown by (auto simp: finish_def thread_ok_def)
    next
      case (Cons i rest)
      then show ?thesis
        using adv frame [of w'] assms(1-3) RemTeardown by (auto simp: thread_ok_def split: prod.splits option.splits)
    qed
  next
    case (ProjLocked pid es)
    then have "nameRe pid" "\<forall>e \<in> set es. named_env e \<and> EProjectID e = pid" using assms(1) by (auto simp: thread_ok_def)
    from pcommit [OF this] show ?thesis
      using adv ProjLocked frame [of w'] assms(2,3) by (auto simp: finish_def thread_ok_def split: option.splits)
  next
    case (CreateCounted pid eid)
    then show ?thesis using adv frame [of w'] assms(2,3) by (auto simp: thread_ok_def split: if_splits)
  next
    case (CreateBuilt pid eid i)
    then show ?thesis using adv frame [of w'] assms(2,3) by (auto simp: thread_ok_def split: if_splits)
  qed (use assms(1-3) adv frame [of w'] in \<open>auto simp: thread_ok_def split: option.splits\<close>)
qed

lemma map_of_put_cases: "map_of (al_put t v m) u = Some x \<Longrightarrow> x = v \<or> map_of m u = Some x"
  by (auto split: if_splits)

lemma spawn_ok:
  assumes "sys_ok s" "thread_ok th" "records_ok w" "covered {} w"
  shows "sys_ok (spawn t th (s\<lparr>World := w\<rparr>))"
  using assms by (auto simp: sys_ok_def spawn_def split: if_splits)

lemma service_call_ok:
  assumes "sys_ok s"
    and "records_ok (World s) \<Longrightarrow> covered {} (World s) \<Longrightarrow> grows (World s) (snd (f (World s))) \<and> covered {} (snd (f (World s)))"
  shows "sys_ok (service_call f s)"
  using assms by (auto simp: sys_ok_def service_call_def grows_def)

lemma claimed_named:
  assumes "records_ok w" "remove_env_claim pid eid w = (Inr env, w')"
  shows "named_env env" "environment_of w (EID env) = Some env" "records_ok w'" "covered R w' = covered R w"
proof -
  from assms(2) obtain p es where c: "resolve_ids w pid eid = Inr (p, env)" "w' = w\<lparr>Removing := EID env # Removing w\<rparr>"
    by (rule claim_Inr)
  show "named_env env" "environment_of w (EID env) = Some env" using resolve_ids_Inr [OF c(1) assms(1)] by auto
  show "records_ok w'" using c(2) assms(1) by simp
  show "covered R w' = covered R w" using covered_frame [of w' w] c(2) by simp
qed

lemma snapshot_named:
  assumes "records_ok w" "remove_project_snapshot pid w = Inr es"
  shows "nameRe pid" "\<forall>e \<in> set es. named_env e \<and> EProjectID e = pid"
    "\<And>e i. environment_of w i = Some e \<Longrightarrow> EProjectID e = pid \<Longrightarrow> e \<in> set es" "project_of w pid \<noteq> None"
proof -
  have e: "environmentsLocked w pid = Inr es" and n: "nameRe pid" and p: "project_of w pid \<noteq> None"
    using assms(2) ValidateName_None LoadProject_Some
    by (auto simp: remove_project_snapshot_def split: option.splits sum.splits if_splits)
  show "nameRe pid" "project_of w pid \<noteq> None" by (rule n, rule p)
  show "\<forall>e \<in> set es. named_env e \<and> EProjectID e = pid"
    using environmentsLocked_Inr(1) [OF e assms(1)] environment_of_id [OF assms(1)] by blast
  show "environment_of w i = Some x \<Longrightarrow> EProjectID x = pid \<Longrightarrow> x \<in> set es" for x i
    using environmentsLocked_Inr(1) [OF e assms(1)] by blast
qed

lemma advance_thread_ok:
  assumes "sys_ok s" and io: "\<forall>i. io (record_path ''environment'' i) \<and> io (record_path ''project'' i)"
  shows "sys_ok (advance_thread t io ok sid s)"
proof (cases "map_of (Threads s) t")
  case (Some th)
  obtain th' w' where adv: "advance io ok sid th (World s) = (th', w')" by fastforce
  have "thread_ok th' \<and> records_ok w' \<and> covered {} w'"
    using advance_ok [OF _ _ _ io adv] assms(1) Some by (auto simp: sys_ok_def)
  then show ?thesis
    using assms(1) Some adv by (auto simp: sys_ok_def advance_thread_def dest: map_of_put_cases)
qed (use assms in \<open>simp add: advance_thread_def\<close>)

lemma sys_step_ok: "sys_ok s \<Longrightarrow> deletes_succeed ev \<Longrightarrow> sys_ok (sys_step ev s)"
proof (cases ev)
  case (EvRemoveEnvironment t pid eid)
  assume s: "sys_ok s"
  show ?thesis
  proof (cases "remove_env_claim pid eid (World s)")
    case (Pair c w)
    show ?thesis
    proof (cases c)
      case (Inr env)
      have ok: "records_ok (World s)" "covered {} (World s)" using s by (auto simp: sys_ok_def)
      have n: "named_env env" "records_ok w" "covered {} w"
        using claimed_named [OF ok(1) Pair [unfolded Inr]] ok(2) by auto
      then show ?thesis
        using Pair Inr s EvRemoveEnvironment spawn_ok [OF s _ n(2,3), of "RemClaimed env" t] by (simp add: thread_ok_def)
    qed (use Pair s EvRemoveEnvironment in simp)
  qed
next
  case (EvRemoveProject t pid)
  assume s: "sys_ok s"
  then have ok: "records_ok (World s)" "covered {} (World s)" by (auto simp: sys_ok_def)
  have "sys_ok (spawn t (ProjSnapshot pid es) s)" if "remove_project_snapshot pid (World s) = Inr es" for es
    using spawn_ok [OF s _ ok, of "ProjSnapshot pid es" t] snapshot_named [OF ok(1) that] by (simp add: thread_ok_def)
  then show ?thesis using s EvRemoveProject by (simp split: sum.split)
next
  case (EvCreateSession t pid eid)
  assume s: "sys_ok s"
  then have ok: "records_ok (World s)" "covered {} (World s)" by (auto simp: sys_ok_def)
  have "sys_ok (spawn t (CreateResolved p e) s)" for p e
    using spawn_ok [OF s _ ok, of "CreateResolved p e" t] by (simp add: thread_ok_def)
  then show ?thesis using s EvCreateSession by (simp split: sum.split prod.split)
next
  case (EvAdvance t io ok sid)
  assume "sys_ok s" "deletes_succeed ev"
  then show ?thesis using EvAdvance advance_thread_ok by (simp add: deletes_succeed_def)
next
  case (EvEndSession ok sid)
  assume "sys_ok s"
  then show ?thesis
    using EvEndSession sys_ok_same_records [OF Destroy_session_records [of "World s" ok sid], of "{}"] by (simp add: sys_ok_def)
next
  case (EvCreateProject home lstat io now spec)
  assume "sys_ok s"
  then show ?thesis using EvCreateProject CreateProject_grows [OF _ _ names_projects_empty] by (simp add: service_call_ok)
qed (simp_all add: service_call_ok AddEnvironment_grows SetCapabilities_grows SetToolchain_grows)

lemma run_sys_Cons [simp]: "run_sys (ev # evs) s = run_sys evs (sys_step ev s)" "run_sys [] s = s"
  by (simp_all add: run_sys_def)

lemma run_sys_ok: "sys_ok s \<Longrightarrow> list_all deletes_succeed evs \<Longrightarrow> sys_ok (run_sys evs s)"
  by (induction evs arbitrary: s) (simp_all add: sys_step_ok)

text \<open>
  C27: A project always owns an environment. From any store in which this holds, it holds after any
  interleaving of project and environment creations, edits, environment removals, project removals
  and session creations, whatever fails in them, provided the deletions of the removals succeed; and
  every record stays under the id its names give: a project under its name, an environment under
  its project's and its own.
\<close>

theorem projects_keep_an_environment:
  assumes "records_ok w" and "\<forall>i. project_of w i \<noteq> None \<longrightarrow> (\<exists>e. environment_of w (EID e) = Some e \<and> EProjectID e = i)"
    and "list_all deletes_succeed evs" and "v = World (run_sys evs (start_sys w))"
  shows "(\<forall>i. project_of v i \<noteq> None \<longrightarrow> (\<exists>e. environment_of v (EID e) = Some e \<and> EProjectID e = i)) \<and>
    (\<forall>i p. project_of v i = Some p \<longrightarrow> PID p = i) \<and>
    (\<forall>i e. environment_of v i = Some e \<longrightarrow> EID e = i \<and> i = EnvironmentID (EProjectID e) (EName e))"
proof -
  have "sys_ok (start_sys w)"
    using assms(1,2) by (fastforce simp: sys_ok_def start_sys_def covered_def)
  from run_sys_ok [OF this assms(3)] have s: "records_ok v" "covered {} v" by (auto simp: sys_ok_def assms(4))
  have "\<exists>e. environment_of v (EID e) = Some e \<and> EProjectID e = i" if q: "project_of v i \<noteq> None" for i
  proof -
    obtain p where "project_of v i = Some p" using q by blast
    then obtain j e where e: "environment_of v j = Some e" "EProjectID e = i"
      using s(2) by (auto simp: covered_def)
    with environment_of_id [OF s(1) e(1)] show ?thesis by blast
  qed
  moreover have "EID e = i \<and> i = EnvironmentID (EProjectID e) (EName e)" if "environment_of v i = Some e" for i e
    using environment_of_id [OF s(1) that] by (auto simp: named_env_def)
  ultimately show ?thesis using project_of_id [OF s(1)] by blast
qed

subsection \<open>A claimed removal goes through\<close>

definition claimed :: "thread \<Rightarrow> Environment option" where
  "claimed th = (case th of
     RemClaimed env \<Rightarrow> Some env | RemCounted env \<Rightarrow> Some env | RemTeardown env ids \<Rightarrow> Some env
   | RemFinished env r \<Rightarrow> Some env | _ \<Rightarrow> None)"

definition finished :: "thread \<Rightarrow> bool" where
  "finished th = (case th of RemFinished env r \<Rightarrow> True | _ \<Rightarrow> False)"

definition project_free :: "thread \<Rightarrow> bool" where
  "project_free th = (case th of
     ProjSnapshot p es \<Rightarrow> False | ProjSeen p es \<Rightarrow> False | ProjUnlocked p es \<Rightarrow> False | ProjLocked p es \<Rightarrow> False | _ \<Rightarrow> True)"

definition records_claimed :: "world \<Rightarrow> bool" where
  "records_claimed w \<longleftrightarrow> records_ok w \<and> covered (set (Removing w)) w \<and> names_projects (set (Removing w)) w"

definition holds_claim :: "world \<Rightarrow> thread \<Rightarrow> bool" where
  "holds_claim w th \<longleftrightarrow> project_free th \<and>
     (\<forall>e. claimed th = Some e \<longrightarrow> named_env e \<and> EID e \<in> set (Removing w) \<and>
        (\<not> finished th \<longrightarrow> environment_of w (EID e) \<noteq> None))"

definition claims_ok :: "sys \<Rightarrow> bool" where
  "claims_ok s \<longleftrightarrow> records_claimed (World s) \<and>
     (\<forall>t th. map_of (Threads s) t = Some th \<longrightarrow> holds_claim (World s) th) \<and>
     (\<forall>t u th uh e f. map_of (Threads s) t = Some th \<longrightarrow> map_of (Threads s) u = Some uh \<longrightarrow>
        claimed th = Some e \<longrightarrow> claimed uh = Some f \<longrightarrow> EID e = EID f \<longrightarrow> t = u)"

text \<open>Another thread may take a step as long as it leaves the records and claims of the rest alone.\<close>

definition leaves :: "string option \<Rightarrow> world \<Rightarrow> world \<Rightarrow> bool" where
  "leaves own w w' \<longleftrightarrow>
     (\<forall>i. Some i \<noteq> own \<longrightarrow> i \<in> set (Removing w) \<longrightarrow>
        i \<in> set (Removing w') \<and> (environment_of w i \<noteq> None \<longrightarrow> environment_of w' i \<noteq> None))"

lemma leaves_refl [simp]: "leaves own w w"
  by (simp add: leaves_def)

lemma holds_claim_leaves:
  "holds_claim w th \<Longrightarrow> leaves own w w' \<Longrightarrow> (\<And>e. claimed th = Some e \<Longrightarrow> Some (EID e) \<noteq> own) \<Longrightarrow> holds_claim w' th"
  unfolding holds_claim_def leaves_def by blast

lemma claims_ok_world:
  "claims_ok s \<Longrightarrow> records_claimed w \<Longrightarrow> leaves None (World s) w \<Longrightarrow> claims_ok (s\<lparr>World := w\<rparr>)"
  unfolding claims_ok_def using holds_claim_leaves by simp blast

lemma claims_ok_advance:
  assumes s: "claims_ok s" and th: "map_of (Threads s) t = Some th"
    and w: "records_claimed w'" "leaves (map_option EID (claimed th)) (World s) w'"
    and th': "holds_claim w' th'" "claimed th' = claimed th \<or> claimed th' = None"
  shows "claims_ok (s\<lparr>World := w', Threads := al_put t th' (Threads s), Mu := m\<rparr>)"
proof -
  have other: "holds_claim w' uh" if u: "map_of (Threads s) u = Some uh" "u \<noteq> t" for u uh
  proof (rule holds_claim_leaves [OF _ w(2)])
    show "holds_claim (World s) uh" using s u by (simp add: claims_ok_def)
    fix f assume f: "claimed uh = Some f"
    show "Some (EID f) \<noteq> map_option EID (claimed th)"
    proof
      assume "Some (EID f) = map_option EID (claimed th)"
      then obtain e where "claimed th = Some e" "EID e = EID f" by (cases "claimed th") auto
      then show False using s th u f unfolding claims_ok_def by blast
    qed
  qed
  have uniq: "u = v"
    if "map_of (al_put t th' (Threads s)) u = Some uh" "map_of (al_put t th' (Threads s)) v = Some vh"
      "claimed uh = Some e" "claimed vh = Some f" "EID e = EID f" for u v uh vh e f
  proof -
    have "\<exists>h. map_of (Threads s) u = Some h \<and> claimed h = Some e" "\<exists>h. map_of (Threads s) v = Some h \<and> claimed h = Some f"
      using that th th'(2) by (auto split: if_splits)
    then show ?thesis using s that(5) unfolding claims_ok_def by blast
  qed
  let ?s = "s\<lparr>World := w', Threads := al_put t th' (Threads s), Mu := m\<rparr>"
  have holds: "holds_claim (World ?s) uh" if "map_of (Threads ?s) u = Some uh" for u uh
    using that other th'(1) by (cases "u = t") auto
  have dist: "u = v" if "map_of (Threads ?s) u = Some uh" "map_of (Threads ?s) v = Some vh"
      "claimed uh = Some e" "claimed vh = Some f" "EID e = EID f" for u v uh vh e f
    by (rule uniq [OF _ _ that(3-5)]) (use that(1,2) in simp_all)
  have "records_claimed (World ?s)" using w(1) by simp
  then show ?thesis unfolding claims_ok_def using holds dist by blast
qed

lemma claims_ok_spawn:
  assumes "claims_ok s" "project_free th" "claimed th = None"
  shows "claims_ok (spawn t th s)"
proof (cases "map_of (Threads s) t")
  case None
  have h: "holds_claim (World s) th" using assms(2,3) by (simp add: holds_claim_def)
  show ?thesis
    using assms(1,3) None h unfolding spawn_def claims_ok_def by (simp split: if_splits)
qed (use assms in \<open>simp add: spawn_def\<close>)

lemma claims_ok_service_call:
  assumes "claims_ok s"
    and "\<And>R. records_ok (World s) \<Longrightarrow> covered R (World s) \<Longrightarrow> names_projects R (World s) \<Longrightarrow>
      grows (World s) (snd (f (World s))) \<and> covered R (snd (f (World s)))"
  shows "claims_ok (service_call f s)"
proof -
  let ?w = "snd (f (World s))"
  have ok: "records_ok (World s)" "covered (set (Removing (World s))) (World s)"
    "names_projects (set (Removing (World s))) (World s)"
    using assms(1) by (auto simp: claims_ok_def records_claimed_def)
  have g: "grows (World s) ?w" "covered (set (Removing (World s))) ?w" using assms(2) [OF ok] by auto
  have "names_projects (set (Removing (World s))) ?w"
    unfolding names_projects_def
  proof (intro allI impI)
    fix e :: Environment assume "named_env e" "EID e \<in> set (Removing (World s))"
    then have "project_of (World s) (EProjectID e) \<noteq> None" using ok(3) by (simp add: names_projects_def)
    then show "project_of ?w (EProjectID e) \<noteq> None" using g(1) by (auto simp: grows_def)
  qed
  then have "records_claimed ?w"
    using g by (simp add: records_claimed_def grows_def same_sandboxes_def)
  moreover have "leaves None (World s) ?w" using g(1) by (auto simp: leaves_def grows_def same_sandboxes_def)
  ultimately show ?thesis using claims_ok_world [OF assms(1)] assms(1) by (simp add: service_call_def)
qed

lemma records_claimed_frame:
  "records_claimed w \<Longrightarrow> records_ok w' = records_ok w \<Longrightarrow> project_of w' = project_of w \<Longrightarrow>
   environment_of w' = environment_of w \<Longrightarrow> Removing w' = Removing w \<Longrightarrow> records_claimed w' \<and> leaves own w w'"
  using covered_frame [of w' w] by (simp add: records_claimed_def names_projects_def leaves_def)

lemma claims_ok_claim:
  assumes s: "claims_ok s" and c: "remove_env_claim pid eid (World s) = (Inr env, w)" and t: "map_of (Threads s) t = None"
  shows "claims_ok (spawn t (RemClaimed env) (s\<lparr>World := w\<rparr>))"
proof -
  let ?R = "set (Removing (World s))"
  from c obtain p es where ids: "resolve_ids (World s) pid eid = Inr (p, env)" and
    w: "w = (World s)\<lparr>Removing := EID env # Removing (World s)\<rparr>" and
    es: "environmentsLocked (World s) (EProjectID env) = Inr es" "length (filter (\<lambda>e. EID e \<notin> ?R) es) > 1" and
    new: "EID env \<notin> ?R" by (rule claim_Inr)
  have ok: "records_ok (World s)" "covered ?R (World s)" "names_projects ?R (World s)"
    using s by (auto simp: claims_ok_def records_claimed_def)
  note i = resolve_ids_Inr [OF ids ok(1)]
  obtain x where x: "environment_of (World s) (EID x) = Some x" "EProjectID x = EProjectID env"
    "EID x \<notin> ?R" "EID x \<noteq> EID env" by (rule siblings_other [OF es(1) ok(1) es(2)])
  have cov: "covered (insert (EID env) ?R) (World s)"
    unfolding covered_def
  proof (intro allI impI)
    fix q y assume "project_of (World s) q = Some y"
    then obtain j e where e: "environment_of (World s) j = Some e" "EProjectID e = q" "j \<notin> ?R"
      using ok(2) by (auto simp: covered_def)
    show "\<exists>j e. environment_of (World s) j = Some e \<and> EProjectID e = q \<and> j \<notin> insert (EID env) ?R"
    proof (cases "j = EID env")
      case True
      then have "e = env" using e i(3) by simp
      then have "environment_of (World s) (EID x) = Some x \<and> EProjectID x = q \<and> EID x \<notin> insert (EID env) ?R"
        using x e(2) by simp
      then show ?thesis by blast
    qed (use e in blast)
  qed
  have "names_projects (insert (EID env) ?R) (World s)"
    unfolding names_projects_def
  proof (intro allI impI)
    fix e assume e: "named_env e" "EID e \<in> insert (EID env) ?R"
    show "project_of (World s) (EProjectID e) \<noteq> None"
    proof (cases "EID e = EID env")
      case True
      then show ?thesis using named_env_project [OF e(1) i(5)] i(1,2,4) by simp
    next
      case False
      then show ?thesis using e ok(3) by (simp add: names_projects_def)
    qed
  qed
  then have rc: "records_claimed w"
    using cov ok(1) covered_frame [of w "World s"] by (simp add: records_claimed_def names_projects_def w)
  have lv: "leaves None (World s) w" by (simp add: leaves_def w)
  have s': "claims_ok (s\<lparr>World := w\<rparr>)" by (rule claims_ok_world [OF s rc lv])
  have h: "holds_claim w (RemClaimed env)"
    using i(3,5) by (simp add: holds_claim_def project_free_def claimed_def finished_def w)
  have fresh: "EID f \<noteq> EID env" if "map_of (Threads s) u = Some uh" "claimed uh = Some f" for u uh f
  proof -
    have "holds_claim (World s) uh" using s that(1) by (simp add: claims_ok_def)
    then have "EID f \<in> ?R" using that(2) by (simp add: holds_claim_def)
    then show ?thesis using new by metis
  qed
  have ce: "claimed (RemClaimed env) = Some env" by (simp add: claimed_def)
  show ?thesis
    using s' h fresh t unfolding spawn_def claims_ok_def
    by (simp add: ce split: if_splits) metis
qed

lemma records_claimed_commit:
  assumes rc: "records_claimed w" and env: "named_env env" "EID env \<in> set (Removing w)"
  shows "records_claimed (snd (remove_env_commit io env w))" "leaves (Some (EID env)) w (snd (remove_env_commit io env w))"
    "Removing (snd (remove_env_commit io env w)) = Removing w"
proof -
  let ?w = "snd (remove_env_commit io env w)"
  have ok: "records_ok w" using rc by (simp add: records_claimed_def)
  note c = remove_env_commit_effect [OF ok, of io env]
  show R: "Removing ?w = Removing w" using c(2) by (simp add: same_sandboxes_def)
  have e: "environment_of ?w = environment_of w \<or> environment_of ?w = (environment_of w)(EID env := None)"
    using c(4) by blast
  then show "leaves (Some (EID env)) w ?w" using R by (auto simp: leaves_def)
  have "covered (set (Removing w)) ?w"
    unfolding covered_def c(3)
  proof (intro allI impI)
    fix p q assume "project_of w p = Some q"
    then obtain j x where x: "environment_of w j = Some x" "EProjectID x = p" "j \<notin> set (Removing w)"
      using rc by (auto simp: records_claimed_def covered_def)
    moreover have "environment_of ?w j = Some x" using x e env(2) by auto
    ultimately show "\<exists>j e. environment_of ?w j = Some e \<and> EProjectID e = p \<and> j \<notin> set (Removing w)" by blast
  qed
  then show "records_claimed ?w" using rc c(1,3) R by (simp add: records_claimed_def names_projects_def)
qed

lemma records_claimed_unclaim:
  "records_claimed w \<Longrightarrow> records_claimed (unclaim env w)" "leaves (Some (EID env)) w (unclaim env w)"
proof -
  assume rc: "records_claimed w"
  have "covered (set (Removing (unclaim env w))) (unclaim env w)"
    using rc unfolding records_claimed_def covered_def by (simp add: unclaim_def project_of_def environment_of_def) blast
  moreover have "names_projects (set (Removing (unclaim env w))) (unclaim env w)"
    using rc unfolding records_claimed_def names_projects_def by (simp add: unclaim_def project_of_def)
  ultimately show "records_claimed (unclaim env w)" using rc by (simp add: records_claimed_def)
qed (auto simp: leaves_def unclaim_def environment_of_def)

lemma Removing_frame [simp]:
  "Removing (beginCreate p e w) = Removing w" "Removing (endCreate p e w) = Removing w"
  "Destroy_session ok i w = (r, w') \<Longrightarrow> Removing w' = Removing w"
  using Destroy_session_records [of w ok i]
  by (simp_all add: beginCreate_def endCreate_def Let_def same_records_def)

lemma advance_claims:
  assumes rc: "records_claimed w" and th: "holds_claim w th" and adv: "advance io ok sid th w = (th', w')"
  shows "records_claimed w' \<and> leaves (map_option EID (claimed th)) w w' \<and> holds_claim w' th' \<and>
    (claimed th' = claimed th \<or> claimed th' = None)"
proof -
  have frame: "records_claimed v \<and> leaves own w v \<and> (\<forall>u. holds_claim w u \<longrightarrow> holds_claim v u)"
    if "records_ok v = records_ok w" "project_of v = project_of w" "environment_of v = environment_of w"
      "Removing v = Removing w" for v own
    using records_claimed_frame [OF rc that] that by (simp add: holds_claim_def)
  have tl: "holds_claim w (RemTeardown env ids) \<Longrightarrow> holds_claim w (RemFinished env r)"
    "holds_claim w (RemTeardown env ids) \<Longrightarrow> holds_claim w (RemTeardown env ids')" for env ids ids' r
    by (simp_all add: holds_claim_def claimed_def finished_def project_free_def)
  show ?thesis
  proof (cases th)
    case (RemTeardown env ids)
    then have env: "named_env env" "EID env \<in> set (Removing w)" and cl: "claimed th = Some env"
      using th by (auto simp: holds_claim_def claimed_def)
    show ?thesis
    proof (cases ids)
      case Nil
      then have "th' = RemFinished env (fst (remove_env_commit io env w))" "w' = snd (remove_env_commit io env w)"
        using adv RemTeardown by (auto simp: finish_def)
      then show ?thesis
        using records_claimed_commit [OF rc env, of io] env cl
        by (simp add: holds_claim_def claimed_def finished_def project_free_def)
    next
      case (Cons i rest)
      obtain r v where d: "Destroy_session ok i w = (r, v)" by fastforce
      have f: "records_claimed v \<and> leaves (Some (EID env)) w v \<and> (\<forall>u. holds_claim w u \<longrightarrow> holds_claim v u)"
        by (rule frame) (use d in simp_all)
      show ?thesis
      proof (cases r)
        case None
        then have "th' = RemTeardown env rest" "w' = v" using adv RemTeardown Cons d by auto
        then show ?thesis using f tl(2) [of env ids rest] th RemTeardown by (simp add: claimed_def)
      next
        case (Some e)
        then have "th' = RemFinished env (Some e)" "w' = v" using adv RemTeardown Cons d by auto
        then show ?thesis using f tl(1) [of env ids "Some e"] th RemTeardown by (simp add: claimed_def)
      qed
    qed
  next
    case (RemFinished env r)
    then have "th' = Returned r" "w' = unclaim env w" using adv by auto
    then show ?thesis
      using records_claimed_unclaim(1) [OF rc, of env] records_claimed_unclaim(2) [of env w] RemFinished
      by (simp add: holds_claim_def claimed_def project_free_def)
  next
    case (CreateCounted pid eid)
    then show ?thesis
      using adv th frame [of w' None] rc by (auto simp: holds_claim_def claimed_def project_free_def split: if_splits)
  next
    case (CreateBuilt pid eid i)
    then show ?thesis
      using adv th frame [of w' None] by (auto simp: holds_claim_def claimed_def project_free_def split: if_splits)
  qed (use adv th rc frame [of w' None] in
    \<open>auto simp: holds_claim_def claimed_def finished_def project_free_def split: option.splits\<close>)
qed

definition removes_no_project :: "event \<Rightarrow> bool" where
  "removes_no_project ev = (case ev of EvRemoveProject t pid \<Rightarrow> False | _ \<Rightarrow> True)"

lemma sys_step_claims: "claims_ok s \<Longrightarrow> removes_no_project ev \<Longrightarrow> claims_ok (sys_step ev s)"
proof (cases ev)
  case (EvRemoveEnvironment t pid eid)
  assume s: "claims_ok s"
  show ?thesis
  proof (cases "remove_env_claim pid eid (World s)")
    case (Pair c w)
    then show ?thesis using s EvRemoveEnvironment claims_ok_claim [OF s] by (auto split: sum.split)
  qed
next
  case (EvCreateSession t pid eid)
  assume "claims_ok s"
  then have "claims_ok (spawn t (CreateResolved p e) s)" for p e
    by (rule claims_ok_spawn) (simp_all add: project_free_def claimed_def)
  then show ?thesis using \<open>claims_ok s\<close> EvCreateSession by (simp split: sum.split prod.split)
next
  case (EvAdvance t io ok sid)
  assume s: "claims_ok s"
  show ?thesis
  proof (cases "map_of (Threads s) t")
    case (Some th)
    obtain th' w' where adv: "advance io ok sid th (World s) = (th', w')" by fastforce
    have "records_claimed (World s)" "holds_claim (World s) th" using s Some by (auto simp: claims_ok_def)
    from advance_claims [OF this adv] have c: "records_claimed w'" "leaves (map_option EID (claimed th)) (World s) w'"
      "holds_claim w' th'" "claimed th' = claimed th \<or> claimed th' = None" by auto
    from claims_ok_advance [OF s Some c] show ?thesis
      using s EvAdvance Some adv by (simp add: advance_thread_def)
  qed (use s EvAdvance in \<open>simp add: advance_thread_def\<close>)
next
  case (EvEndSession ok sid)
  assume s: "claims_ok s"
  then have rc: "records_claimed (World s)" by (simp add: claims_ok_def)
  obtain r v where d: "Destroy_session ok sid (World s) = (r, v)" by fastforce
  then have "records_claimed v \<and> leaves None (World s) v" by (intro records_claimed_frame [OF rc]) simp_all
  then show ?thesis using claims_ok_world [OF s] EvEndSession d by simp
next
  case (EvCreateProject home lstat io now spec)
  assume "claims_ok s"
  then show ?thesis using EvCreateProject by (simp add: claims_ok_service_call CreateProject_grows)
qed (simp_all add: claims_ok_service_call AddEnvironment_grows SetCapabilities_grows SetToolchain_grows removes_no_project_def)

lemma run_sys_claims: "claims_ok s \<Longrightarrow> list_all removes_no_project evs \<Longrightarrow> claims_ok (run_sys evs s)"
  by (induction evs arbitrary: s) (simp_all add: sys_step_claims)

lemma commit_result:
  assumes rc: "records_claimed w" and h: "holds_claim w (RemTeardown env [])"
    and e: "fst (remove_env_commit io env w) = Some err"
  shows "\<exists>m. err = StoreErr m"
proof -
  have env: "named_env env" "EID env \<in> set (Removing w)" "environment_of w (EID env) \<noteq> None"
    using h by (auto simp: holds_claim_def claimed_def finished_def)
  have ok: "records_ok w" using rc by (simp add: records_claimed_def)
  obtain x where x: "environment_of w (EID env) = Some x" using env(3) by blast
  then have load: "LoadEnvironment w (EID env) = Inr (Some x)"
    using safeRecordID_env env(1)
    by (auto simp: LoadEnvironment_def load_record_def environment_of_def stored_at_def named_env_def
        split: option.splits stored.splits)
  show ?thesis
  proof (cases "environmentsLocked w (EProjectID env)")
    case (Inl e')
    then show ?thesis
      using e load
      by (auto simp: remove_env_commit_def environmentsLocked_def LoadEnvironments_def load_records_def split: if_splits)
  next
    case (Inr es)
    have xp: "EProjectID x = EProjectID env"
      using environment_of_id [OF ok x] named_env_project env(1) by metis
    have "project_of w (EProjectID env) \<noteq> None"
      using rc env(1,2) by (auto simp: records_claimed_def names_projects_def)
    then obtain j y where y: "environment_of w j = Some y" "EProjectID y = EProjectID env" "j \<notin> set (Removing w)"
      using rc by (auto simp: records_claimed_def covered_def)
    have "x \<in> set es" "y \<in> set es" "x \<noteq> y"
      using environmentsLocked_Inr(1) [OF Inr ok] x y xp env(2) environment_of_id [OF ok] by auto metis+
    then have "card {x, y} \<le> card (set es)" by (intro card_mono) auto
    then have "\<not> length es \<le> 1" using \<open>x \<noteq> y\<close> card_length [of es] by simp
    then have "fst (DeleteEnvironment io (EID env) w) = Some err"
      using e load Inr by (simp add: remove_env_commit_def)
    then show ?thesis
      using safeRecordID_env env(1)
      by (auto simp: DeleteEnvironment_def delete_record_def named_env_def split: prod.splits if_splits)
  qed
qed

text \<open>
  C28: A removal that has torn sandboxes down is never refused. While no project is removed, whatever
  else interleaves, an environment removal that reaches its last phase finds its record in place and
  a sibling left to the project: it deletes the record, unless the store itself fails.
\<close>

theorem claimed_removal_goes_through:
  assumes "records_ok w" "Removing w = []"
    and "\<forall>i. project_of w i \<noteq> None \<longrightarrow> (\<exists>e. environment_of w (EID e) = Some e \<and> EProjectID e = i)"
    and "list_all removes_no_project evs"
    and "s = run_sys evs (start_sys w)" and "map_of (Threads s) t = Some (RemTeardown env [])"
  shows "environment_of (World s) (EID env) \<noteq> None \<and>
    (case fst (remove_env_commit io env (World s)) of
       None \<Rightarrow> environment_of (snd (remove_env_commit io env (World s))) (EID env) = None
     | Some err \<Rightarrow> \<exists>m. err = StoreErr m)"
proof -
  have "covered {} w" using assms(3) by (fastforce simp: covered_def)
  then have "claims_ok (start_sys w)"
    using assms(1,2) by (simp add: claims_ok_def start_sys_def records_claimed_def)
  from run_sys_claims [OF this assms(4)] have rc: "records_claimed (World s)" and h: "holds_claim (World s) (RemTeardown env [])"
    using assms(5,6) by (auto simp: claims_ok_def)
  have ok: "records_ok (World s)" using rc by (simp add: records_claimed_def)
  show ?thesis
    using h commit_result [OF rc h, of io] remove_env_commit_effect(5) [OF ok, of io env]
    by (auto simp: holds_claim_def claimed_def finished_def split: option.split)
qed

definition adv :: "nat \<Rightarrow> event" where
  "adv t = EvAdvance t (\<lambda>_. True) (\<lambda>_. True) ''s9''"

lemma staged_covered: "\<forall>i. project_of staged_world i \<noteq> None \<longrightarrow>
    (\<exists>e. environment_of staged_world (EID e) = Some e \<and> EProjectID e = i)"
  by (auto simp: project_of_def environment_of_def stored_at_def staged_world_def demo_world_def stage_environment_def
      default_environment_def DefaultProjectID_def DefaultEnvironmentID_def envIDSeparator_def DefaultEnvironmentName_def
      intro!: exI [of _ "default_environment ''t0''"] split: if_splits)

lemma staged_race:
  "map_of (Threads (run_sys [EvRemoveEnvironment 0 [] ''stage'', EvRemoveEnvironment 1 [] ''default'', adv 0, adv 0, adv 0]
     (start_sys staged_world))) 0 = Some (RemTeardown stage_environment [])"
  by code_simp

theorem claimed_removal_goes_through_witness:
  "environment_of (World (run_sys [EvRemoveEnvironment 0 [] ''stage'', EvRemoveEnvironment 1 [] ''default'',
     adv 0, adv 0, adv 0] (start_sys staged_world))) ''default.stage'' \<noteq> None"
  using claimed_removal_goes_through [OF staged_records_ok _ staged_covered _ refl staged_race]
  by (simp add: staged_world_def demo_world_def removes_no_project_def adv_def stage_environment_def)

theorem projects_keep_an_environment_witness:
  "\<exists>e. environment_of (World (run_sys [EvRemoveEnvironment 0 [] ''stage'', EvRemoveEnvironment 1 [] ''default'',
     adv 0, adv 0, adv 0, adv 0, adv 1] (start_sys staged_world))) (EID e) = Some e \<and> EProjectID e = ''default''"
proof -
  let ?evs = "[EvRemoveEnvironment 0 [] ''stage'', EvRemoveEnvironment 1 [] ''default'', adv 0, adv 0, adv 0, adv 0, adv 1]"
  have "project_of (World (run_sys ?evs (start_sys staged_world))) ''default'' = Some (default_project ''t0'')"
    by code_simp
  moreover have "list_all deletes_succeed ?evs" by (simp add: deletes_succeed_def adv_def)
  ultimately show ?thesis
    using projects_keep_an_environment [OF staged_records_ok staged_covered _ refl, of ?evs] by blast
qed

subsection \<open>Sandboxes that outlive their scope\<close>

definition governed :: "world \<Rightarrow> bool" where
  "governed w \<longleftrightarrow> (\<forall>(i, pid, eid) \<in> set (Containers w). environment_of w eid \<noteq> None)"

text \<open>A removal whose first attempt met a failing teardown, tried again.\<close>

definition retried_removal :: "event list" where
  "retried_removal =
     [EvRemoveEnvironment 0 [] ''stage'', adv 0, adv 0, EvAdvance 0 (\<lambda>_. True) (\<lambda>_. False) ''s9'', adv 0,
      EvRemoveEnvironment 1 [] ''stage'', adv 1, adv 1, adv 1, adv 1]"

text \<open>A session created in the environment while its sandboxes are being torn down.\<close>

definition create_during_removal :: "event list" where
  "create_during_removal =
     [EvRemoveEnvironment 0 [] ''stage'', adv 0, adv 0, EvCreateSession 1 [] ''stage'', adv 1, adv 1, adv 1, adv 1,
      adv 0, adv 0, adv 0]"

text \<open>
  A removal reports success and leaves a running sandbox without its environment, in two ways.
  The record is kept when a teardown fails, but the session is already detached: the second attempt
  finds no session and deletes the record of a container that still runs. And nothing stops a session
  from being created in an environment that is claimed for removal: one that registers during the
  teardown is neither counted nor destroyed.
\<close>

theorem removal_leaves_sandboxes:
  "governed staged_world \<and>
   list_all (\<lambda>evs.
      let s = run_sys evs (start_sys staged_world)
      in (\<exists>t < 2. map_of (Threads s) t = Some (Returned None)) \<and> environment_of (World s) ''default.stage'' = None \<and>
         (\<exists>i. (i, ''default'', ''default.stage'') \<in> set (Containers (World s))))
     [retried_removal, create_during_removal]"
proof -
  have "map_of (Threads (run_sys retried_removal (start_sys staged_world))) 1 = Some (Returned None)"
    "map_of (Threads (run_sys create_during_removal (start_sys staged_world))) 0 = Some (Returned None)"
    "environment_of (World (run_sys retried_removal (start_sys staged_world))) ''default.stage'' = None"
    "environment_of (World (run_sys create_during_removal (start_sys staged_world))) ''default.stage'' = None"
    "(''s1'', ''default'', ''default.stage'') \<in> set (Containers (World (run_sys retried_removal (start_sys staged_world))))"
    "(''s9'', ''default'', ''default.stage'') \<in> set (Containers (World (run_sys create_during_removal (start_sys staged_world))))"
    by code_simp+
  moreover have "governed staged_world"
    by (simp add: governed_def staged_world_def demo_world_def environment_of_def stored_at_def)
  moreover have "(0::nat) < 2" "(1::nat) < 2" by simp_all
  ultimately show ?thesis by (simp only: list.pred_inject Let_def simp_thms) blast
qed

end
