(* ===== verification/Go_Encoding.thy ===== *)
theory Go_Encoding
  imports Ops_Prelude
begin

text \<open>
  Go's \<^verbatim>\<open>encoding/hex\<close> and \<^verbatim>\<open>encoding/base64\<close> on byte strings, as the broker uses them: lower-case
  hex, the standard and the URL alphabet of base64, with and without padding. Decoding skips line
  breaks and, as Go's default does, ignores the unused low bits of a last character.
\<close>

subsection \<open>Printable ASCII\<close>

definition printable :: "char \<Rightarrow> bool" where
  "printable c \<longleftrightarrow> 32 < (of_char c :: nat) \<and> (of_char c :: nat) < 127"

lemma space_len_printable:
  assumes "list_all printable s"
  shows "space_len s = 0"
proof (cases s)
  case Nil
  then show ?thesis by (simp add: space_len_def)
next
  case (Cons c r)
  define a where "a = (of_char c :: nat)"
  have a: "32 < a" "a < 127" using assms Cons by (auto simp: a_def printable_def)
  obtain bs where "map of_char (take 3 s) = a # (bs :: nat list)" using Cons by (simp add: a_def)
  then show ?thesis using a by (auto simp: space_len_def split: list.split)
qed

lemma trim_space_printable:
  assumes "list_all printable s"
  shows "trim_space s = s"
proof -
  have "list_all printable (drop n s)" for n using assms by (auto simp: list_all_iff dest: in_set_dropD)
  then have "space_tail s = 0" by (simp add: space_tail_def space_len_printable)
  then show ?thesis
    using space_len_printable [OF assms]
    by (simp add: trim_space_def trim_left.simps [of s] trim_right.simps [of s])
qed

subsection \<open>Hex\<close>

definition hex_nibble :: "nat \<Rightarrow> char" where
  "hex_nibble n = (if n < 10 then byte (48 + n) else byte (87 + n))"

definition hex_value :: "char \<Rightarrow> nat option" where
  "hex_value c =
     (let n = (of_char c :: nat)
      in if 48 \<le> n \<and> n \<le> 57 then Some (n - 48)
         else if 97 \<le> n \<and> n \<le> 102 then Some (n - 87)
         else if 65 \<le> n \<and> n \<le> 70 then Some (n - 55)
         else None)"

definition hex_encode :: "string \<Rightarrow> string" where
  "hex_encode s = concat (map (\<lambda>c. [hex_nibble ((of_char c :: nat) div 16), hex_nibble ((of_char c :: nat) mod 16)]) s)"

fun hex_decode :: "string \<Rightarrow> string option" where
  "hex_decode [] = Some []"
| "hex_decode [c] = None"
| "hex_decode (a # b # s) =
     (case (hex_value a, hex_value b, hex_decode s) of
        (Some x, Some y, Some r) \<Rightarrow> Some (byte (16 * x + y) # r)
      | _ \<Rightarrow> None)"

lemma high_nibble [simp]: "(of_char c :: nat) div 16 < 16"
  by (rule less_mult_imp_div_less) simp

lemma encode_byte_of_char [simp]: "byte (of_char c) = c"
  by (simp add: byte_def)

lemma encode_of_char_byte: "n < 256 \<Longrightarrow> (of_char (byte n) :: nat) = n"
  by (simp add: byte_def)

lemma hex_value_digit: "n < 16 \<Longrightarrow> hex_value (hex_nibble n) = Some n"
  by (auto simp: hex_value_def hex_nibble_def encode_of_char_byte Let_def)

lemma hex_round_trip [simp]: "hex_decode (hex_encode s) = Some s"
proof (induction s)
  case (Cons c s)
  have "16 * ((of_char c :: nat) div 16) + of_char c mod 16 = of_char c" by simp
  then show ?case using Cons by (simp add: hex_encode_def hex_value_digit)
qed (simp add: hex_encode_def)

lemma length_hex_encode [simp]: "length (hex_encode s) = 2 * length s"
  by (induction s) (simp_all add: hex_encode_def)

subsection \<open>Base64\<close>

datatype alphabet = StdAlphabet | URLAlphabet

definition b64_char :: "alphabet \<Rightarrow> nat \<Rightarrow> char" where
  "b64_char al n =
     (if n < 26 then byte (65 + n) else if n < 52 then byte (71 + n) else if n < 62 then byte (n - 4)
      else if n = 62 then (if al = StdAlphabet then CHR ''+'' else CHR ''-'')
      else (if al = StdAlphabet then CHR ''/'' else CHR ''_''))"

definition b64_value :: "alphabet \<Rightarrow> char \<Rightarrow> nat option" where
  "b64_value al c =
     (let n = (of_char c :: nat)
      in if 65 \<le> n \<and> n \<le> 90 then Some (n - 65)
         else if 97 \<le> n \<and> n \<le> 122 then Some (n - 71)
         else if 48 \<le> n \<and> n \<le> 57 then Some (n + 4)
         else if c = (if al = StdAlphabet then CHR ''+'' else CHR ''-'') then Some 62
         else if c = (if al = StdAlphabet then CHR ''/'' else CHR ''_'') then Some 63
         else None)"

text \<open>The bytes of a whole quantum, and of one that ends after two or three characters.\<close>

definition quantum3 :: "nat \<Rightarrow> nat \<Rightarrow> nat \<Rightarrow> nat \<Rightarrow> string" where
  "quantum3 a b c d = [byte (4 * a + b div 16), byte (16 * (b mod 16) + c div 4), byte (64 * (c mod 4) + d)]"

definition quantum2 :: "nat \<Rightarrow> nat \<Rightarrow> nat \<Rightarrow> string" where
  "quantum2 a b c = [byte (4 * a + b div 16), byte (16 * (b mod 16) + c div 4)]"

definition quantum1 :: "nat \<Rightarrow> nat \<Rightarrow> string" where
  "quantum1 a b = [byte (4 * a + b div 16)]"

fun b64_encode :: "string \<Rightarrow> string" where
  "b64_encode [] = []"
| "b64_encode [x] =
     (let a = (of_char x :: nat)
      in [b64_char StdAlphabet (a div 4), b64_char StdAlphabet (16 * (a mod 4)), CHR ''='', CHR ''=''])"
| "b64_encode [x, y] =
     (let a = (of_char x :: nat); b = (of_char y :: nat)
      in [b64_char StdAlphabet (a div 4), b64_char StdAlphabet (16 * (a mod 4) + b div 16),
          b64_char StdAlphabet (4 * (b mod 16)), CHR ''=''])"
| "b64_encode (x # y # z # s) =
     (let a = (of_char x :: nat); b = (of_char y :: nat); c = (of_char z :: nat)
      in b64_char StdAlphabet (a div 4) # b64_char StdAlphabet (16 * (a mod 4) + b div 16) #
         b64_char StdAlphabet (4 * (b mod 16) + c div 64) # b64_char StdAlphabet (c mod 64) # b64_encode s)"

fun b64_quanta :: "alphabet \<Rightarrow> bool \<Rightarrow> string \<Rightarrow> string option" where
  "b64_quanta al padded [] = Some []"
| "b64_quanta al padded [p] = None"
| "b64_quanta al padded [p, q] =
     (if padded then None
      else case (b64_value al p, b64_value al q) of (Some a, Some b) \<Rightarrow> Some (quantum1 a b) | _ \<Rightarrow> None)"
| "b64_quanta al padded [p, q, r] =
     (if padded then None
      else case (b64_value al p, b64_value al q, b64_value al r) of
        (Some a, Some b, Some c) \<Rightarrow> Some (quantum2 a b c) | _ \<Rightarrow> None)"
| "b64_quanta al padded (p # q # r # t # s) =
     (case (b64_value al p, b64_value al q) of
        (Some a, Some b) \<Rightarrow>
          if padded \<and> r = CHR ''='' \<and> t = CHR ''='' \<and> s = [] then Some (quantum1 a b)
          else (case b64_value al r of
                  None \<Rightarrow> None
                | Some c \<Rightarrow>
                    if padded \<and> t = CHR ''='' \<and> s = [] then Some (quantum2 a b c)
                    else (case (b64_value al t, b64_quanta al padded s) of
                            (Some d, Some rest) \<Rightarrow> Some (quantum3 a b c d @ rest)
                          | _ \<Rightarrow> None))
      | _ \<Rightarrow> None)"

definition b64_decode :: "alphabet \<Rightarrow> bool \<Rightarrow> string \<Rightarrow> string option" where
  "b64_decode al padded s = b64_quanta al padded (filter (\<lambda>c. c \<noteq> CHR 0x0A \<and> c \<noteq> CHR 0x0D) s)"

lemma b64_value_char: "n < 64 \<Longrightarrow> b64_value al (b64_char al n) = Some n"
  by (cases al) (auto simp: b64_value_def b64_char_def encode_of_char_byte Let_def)

lemma b64_value_eq: "b64_value al (CHR ''='') = None"
  by (cases al) (simp_all add: b64_value_def)

lemma b64_char_plain: "n < 64 \<Longrightarrow> b64_char StdAlphabet n \<noteq> CHR ''=''"
  using b64_value_char [of n StdAlphabet] b64_value_eq [of StdAlphabet] by auto

lemma b64_char_printed:
  assumes "n < 64" shows "b64_char StdAlphabet n \<noteq> CHR 0x0A" "b64_char StdAlphabet n \<noteq> CHR 0x0D"
proof -
  have "b64_value StdAlphabet (CHR 0x0A) = None" "b64_value StdAlphabet (CHR 0x0D) = None"
    by (simp_all add: b64_value_def)
  then show "b64_char StdAlphabet n \<noteq> CHR 0x0A" "b64_char StdAlphabet n \<noteq> CHR 0x0D"
    using b64_value_char [OF assms, of StdAlphabet] by auto
qed

lemma high_bits [simp]: "(of_char c :: nat) div 4 < 64" "(of_char c :: nat) div 64 < 4"
  by (rule less_mult_imp_div_less, simp)+

lemma char_sextets:
  "16 * ((of_char a :: nat) mod 4) < 64" "16 * ((of_char a :: nat) mod 4) + of_char b div 16 < 64"
  "4 * ((of_char a :: nat) mod 16) < 64" "4 * ((of_char a :: nat) mod 16) + of_char b div 64 < 64"
proof -
  have "(of_char a :: nat) mod 4 < 4" "(of_char a :: nat) mod 16 < 16" by simp_all
  then show "16 * ((of_char a :: nat) mod 4) < 64" "16 * ((of_char a :: nat) mod 4) + of_char b div 16 < 64"
    "4 * ((of_char a :: nat) mod 16) < 64" "4 * ((of_char a :: nat) mod 16) + of_char b div 64 < 64"
    using high_nibble [of b] high_bits(2) [of b] by linarith+
qed

lemma b64_encode_printed: "c \<in> set (b64_encode s) \<Longrightarrow> c \<noteq> CHR 0x0A \<and> c \<noteq> CHR 0x0D"
  by (induction s rule: b64_encode.induct)
     (auto simp: Let_def b64_char_printed char_sextets simp del: set_ConsD)

lemma b64_quanta_encode: "b64_quanta StdAlphabet True (b64_encode s) = Some s"
proof (induction s rule: b64_encode.induct)
  case (2 x)
  show ?case by (simp add: Let_def b64_value_char char_sextets quantum1_def)
next
  case (3 x y)
  show ?case
    by (simp add: Let_def b64_value_char char_sextets quantum2_def b64_char_plain)
next
  case (4 x y z s)
  show ?case using 4
    by (simp add: Let_def b64_value_char char_sextets quantum3_def b64_char_plain)
qed simp

lemma base64_round_trip [simp]: "b64_decode StdAlphabet True (b64_encode s) = Some s"
proof -
  have "filter (\<lambda>c. c \<noteq> CHR 0x0A \<and> c \<noteq> CHR 0x0D) (b64_encode s) = b64_encode s"
    by (rule filter_True) (use b64_encode_printed in blast)
  then show ?thesis by (simp add: b64_decode_def b64_quanta_encode)
qed

end
