(* ===== verification/Project_Toolchain.thy ===== *)
theory Project_Toolchain
  imports Project_Safety Go_Encoding
begin

text \<open>
  \<^verbatim>\<open>cmd/opslifyd/toolchain.go\<close>: the asynchronous build of a project's toolchain over
  \<^verbatim>\<open>SetToolchain\<close>, and the digest a session mounts (\<open>resolveScope\<close> and \<open>realize\<close> of
  \<^verbatim>\<open>internal/session/manager.go\<close>). What composing and baking return is an argument.
\<close>

subsection \<open>The builder\<close>

record builder =
  Can_build :: bool
  Why :: string
  Inflight_builds :: "string list"

definition reason :: "builder \<Rightarrow> string" where
  "reason b = (if Why b = [] then ''the environment builder is not configured'' else Why b)"

definition toolchain_record :: "string list \<Rightarrow> toolchain_status \<Rightarrow> string \<Rightarrow> toolchain" where
  "toolchain_record tools st err =
     no_toolchain\<lparr>Tools := tools, TStatus := st, TError := err\<rparr>"

definition Build ::
  "fallible_io \<Rightarrow> string \<Rightarrow> string list \<Rightarrow> builder \<times> world \<Rightarrow> (project_error + Project) \<times> (builder \<times> world)" where
  "Build io projectID tools bw =
     (case bw of (b, w) \<Rightarrow>
        if \<not> Can_build b then
          (case SetToolchain io projectID (toolchain_record tools ToolchainUnavailable
                  (''this host cannot build a per-project toolchain: '' @ reason b)) w of (r, w) \<Rightarrow> (r, (b, w)))
        else case ValidateTools tools of
          Inl e \<Rightarrow> (Inl e, (b, w))
        | Inr clean \<Rightarrow>
            if projectID \<in> set (Inflight_builds b) then (Inl (InUseErr projectID), (b, w))
            else (case SetToolchain io projectID (toolchain_record clean ToolchainBuilding []) w of
                    (Inl e, w) \<Rightarrow> (Inl e, (b, w))
                  | (Inr p, w) \<Rightarrow> (Inr p, (b\<lparr>Inflight_builds := projectID # Inflight_builds b\<rparr>, w))))"

text \<open>The goroutine: \<open>composed\<close> is the lock hash or the error of composing, \<open>baked\<close> the digest.\<close>

definition build_result :: "string list \<Rightarrow> string \<Rightarrow> string + string \<Rightarrow> string + string \<Rightarrow> toolchain" where
  "build_result tools now composed baked =
     (case composed of
        Inl e \<Rightarrow> toolchain_record tools ToolchainFailed (''compose: '' @ e)
      | Inr hash \<Rightarrow>
          (case baked of
             Inl e \<Rightarrow> toolchain_record tools ToolchainFailed (''bake: '' @ e)
           | Inr digest \<Rightarrow>
               (toolchain_record tools ToolchainReady [])\<lparr>LayerDigest := digest, FlakeLockHash := hash, BuiltAt := now\<rparr>))"

definition run_build ::
  "fallible_io \<Rightarrow> string \<Rightarrow> string \<Rightarrow> string list \<Rightarrow> string + string \<Rightarrow> string + string \<Rightarrow> builder \<times> world \<Rightarrow> builder \<times> world" where
  "run_build io now projectID tools composed baked bw =
     (case bw of (b, w) \<Rightarrow>
        (b\<lparr>Inflight_builds := removeAll projectID (Inflight_builds b)\<rparr>,
         snd (SetToolchain io projectID (build_result tools now composed baked) w)))"

subsection \<open>What a session mounts\<close>

definition session_layer :: "string \<Rightarrow> Project \<Rightarrow> string" where
  "session_layer daemon p =
     (let scope = (if InUse (PToolchain p) then LayerDigest (PToolchain p) else [])
      in if scope \<noteq> [] then scope else daemon)"

subsection \<open>Lemmas\<close>

lemma SaveProject_ok:
  assumes "nameRe (PID p)" "io (record_path ''project'' (PID p))"
  shows "fst (SaveProject io p w) = None" "project_of (snd (SaveProject io p w)) = (project_of w)(PID p \<mapsto> p)"
proof -
  have s: "SaveProject io p w = (None, w\<lparr>Projs := al_put (PID p) (Good p) (Projs w)\<rparr>)"
    using assms safeRecordID_name by (simp add: SaveProject_def save_record_def)
  then show "fst (SaveProject io p w) = None" by simp
  show "project_of (snd (SaveProject io p w)) = (project_of w)(PID p \<mapsto> p)"
    by (auto simp: s project_of_def stored_at_def fun_eq_iff)
qed

lemma load_stored:
  assumes "records_ok w" "project_of w i = Some p"
  shows "LoadProject w i = Inr (Some p)"
  using assms(2) safeRecordID_name project_of_id [OF assms]
  by (auto simp: LoadProject_def load_record_def project_of_def stored_at_def split: option.splits stored.splits)

lemma orDefault_name: "nameRe i \<Longrightarrow> orDefault i = i"
  by (auto simp: orDefault_def nameRe_def)

lemma SetToolchain_stored:
  assumes ok: "records_ok w" and p: "project_of w i = Some p" and tools: "ValidateTools (Tools tc) = Inr c"
    and io: "io (record_path ''project'' i)"
    and tc': "tc' = (if TStatus tc = ToolchainFailed \<and> LayerDigest tc = []
               then tc\<lparr>Tools := c, LayerDigest := LayerDigest (PToolchain p),
                 FlakeLockHash := FlakeLockHash (PToolchain p), BuiltAt := BuiltAt (PToolchain p)\<rparr>
               else tc\<lparr>Tools := c\<rparr>)"
  shows "fst (SetToolchain io i tc w) = Inr (p\<lparr>PToolchain := tc'\<rparr>)"
    "project_of (snd (SetToolchain io i tc w)) = (project_of w)(i \<mapsto> p\<lparr>PToolchain := tc'\<rparr>)"
    "records_ok (snd (SetToolchain io i tc w))"
proof -
  have i: "PID p = i" "nameRe i" using project_of_id [OF ok p] by auto
  have load: "LoadProject w (orDefault i) = Inr (Some p)" using load_stored [OF ok p] orDefault_name i(2) by simp
  let ?q = "p\<lparr>PToolchain := tc'\<rparr>"
  have r: "SetToolchain io i tc w = (case SaveProject io ?q w of (Some e, w) \<Rightarrow> (Inl e, w) | (None, w) \<Rightarrow> (Inr ?q, w))"
    by (simp only: SetToolchain_saves [OF tools load, of io] Let_def tc')
  have q: "nameRe (PID ?q)" "io (record_path ''project'' (PID ?q))" using i io by simp_all
  note s = SaveProject_ok [where io = io, OF q, of w]
  show "fst (SetToolchain io i tc w) = Inr ?q" unfolding r using s(1) by (cases "SaveProject io ?q w") simp
  show "project_of (snd (SetToolchain io i tc w)) = (project_of w)(i \<mapsto> ?q)" unfolding r using s i by (simp add: snd_saved)
  show "records_ok (snd (SetToolchain io i tc w))"
    unfolding r using SaveProject_grows(1) [OF ok q(1), of io] by (simp add: snd_saved grows_def)
qed

text \<open>A validated list is its own canonical form, so the second validation changes nothing.\<close>

lemma nixPkgRe_printable: "nixPkgRe s \<Longrightarrow> list_all printable s"
  by (cases s) (auto simp: nixPkgRe_def Let_def list_all_iff printable_def less_eq_char_def)

lemma length_dedup: "length (dedup seen xs) \<le> length xs"
  by (induction xs arbitrary: seen) (auto simp: le_SucI)

lemma ValidateTools_idem:
  assumes "ValidateTools ts = Inr c"
  shows "ValidateTools c = Inr c"
proof -
  define names where "names = filter (\<lambda>t. t \<noteq> []) (map trim_space ts)"
  have c: "c = canon names" "\<forall>t \<in> set names. nixPkgRe t" "length ts \<le> 64"
    using assms by (auto simp: ValidateTools_def names_def Let_def split: if_splits)
  have "length c \<le> length names" unfolding c(1) canon_def using length_dedup [of "[]" names] by simp
  also have "\<dots> \<le> length ts" unfolding names_def using length_filter_le [of _ "map trim_space ts"] by simp
  finally have "length c \<le> 64" using c(3) by simp
  moreover have re: "\<forall>t \<in> set c. nixPkgRe t" using c by simp
  moreover have "map trim_space c = c"
    by (rule map_idI) (use re trim_space_printable nixPkgRe_printable in blast)
  moreover have "filter (\<lambda>t. t \<noteq> []) c = c"
    by (rule filter_True) (use re in \<open>auto simp: nixPkgRe_def\<close>)
  moreover have "canon c = c" using c(1) by simp
  ultimately show ?thesis by (auto simp: ValidateTools_def)
qed

lemma build_result_Tools [simp]: "Tools (build_result c now composed baked) = c"
  by (simp add: build_result_def toolchain_record_def split: sum.split)

lemma toolchain_record_Tools [simp]: "Tools (toolchain_record c st e) = c"
  by (simp add: toolchain_record_def)

lemma build_runs:
  assumes ok: "records_ok w" and p: "project_of w i = Some p" and tools: "ValidateTools tools = Inr c"
    and b: "Can_build b" "i \<notin> set (Inflight_builds b)" and io: "io (record_path ''project'' i)"
    and r: "run_build io now i c composed baked (snd (Build io i tools (b, w))) = (b', w')"
    and tc: "tc = build_result c now composed baked"
  shows "Build io i tools (snd (Build io i tools (b, w))) = (Inl (InUseErr i), snd (Build io i tools (b, w)))"
    "project_of w' = (project_of w)(i \<mapsto> p\<lparr>PToolchain := tc\<rparr>)" "i \<notin> set (Inflight_builds b')"
proof -
  let ?t1 = "toolchain_record c ToolchainBuilding []"
  have c: "ValidateTools c = Inr c" by (rule ValidateTools_idem [OF tools])
  have v1: "ValidateTools (Tools ?t1) = Inr c" using c by simp
  have n1: "?t1 = (if TStatus ?t1 = ToolchainFailed \<and> LayerDigest ?t1 = []
      then ?t1\<lparr>Tools := c, LayerDigest := LayerDigest (PToolchain p),
        FlakeLockHash := FlakeLockHash (PToolchain p), BuiltAt := BuiltAt (PToolchain p)\<rparr> else ?t1\<lparr>Tools := c\<rparr>)"
    by (simp add: toolchain_record_def)
  note s1 = SetToolchain_stored [where io = io and tc' = ?t1, OF ok p v1 io n1]
  let ?w1 = "snd (SetToolchain io i ?t1 w)"
  have B: "Build io i tools (b, w) =
      (Inr (p\<lparr>PToolchain := ?t1\<rparr>), (b\<lparr>Inflight_builds := i # Inflight_builds b\<rparr>, ?w1))"
    using tools b s1(1) by (cases "SetToolchain io i ?t1 w") (simp add: Build_def)
  show "Build io i tools (snd (Build io i tools (b, w))) = (Inl (InUseErr i), snd (Build io i tools (b, w)))"
    using tools b(1) by (simp add: B) (simp add: Build_def)
  have p1: "project_of ?w1 i = Some (p\<lparr>PToolchain := ?t1\<rparr>)" using s1(2) by simp
  have v2: "ValidateTools (Tools tc) = Inr c" using c tc by simp
  have n2: "tc = (if TStatus tc = ToolchainFailed \<and> LayerDigest tc = []
      then tc\<lparr>Tools := c, LayerDigest := LayerDigest (PToolchain (p\<lparr>PToolchain := ?t1\<rparr>)),
        FlakeLockHash := FlakeLockHash (PToolchain (p\<lparr>PToolchain := ?t1\<rparr>)),
        BuiltAt := BuiltAt (PToolchain (p\<lparr>PToolchain := ?t1\<rparr>))\<rparr> else tc\<lparr>Tools := c\<rparr>)"
    by (simp add: tc build_result_def toolchain_record_def no_toolchain_def split: sum.split)
  note s2 = SetToolchain_stored [where io = io and tc' = tc, OF s1(3) p1 v2 io n2]
  have "w' = snd (SetToolchain io i tc ?w1)" "b' = b\<lparr>Inflight_builds := removeAll i (i # Inflight_builds b)\<rparr>"
    using r by (simp_all add: B run_build_def tc)
  then show "project_of w' = (project_of w)(i \<mapsto> p\<lparr>PToolchain := tc\<rparr>)" "i \<notin> set (Inflight_builds b')"
    using s2(2) s1(2) by (simp_all add: fun_eq_iff)
qed

text \<open>
  What a build leaves a project with. A second build is refused while one runs, and no other
  project is touched. When the build succeeds, sessions mount the layer it signed, with the declared
  tools. When composing or baking fails, the layer that worked before is gone: the record that
  announced the build had no digest, the failure finds none to keep, and sessions fall back to the
  daemon's layer.
\<close>

theorem toolchain_build_outcome:
  assumes "records_ok w" "project_of w i = Some p" "ValidateTools tools = Inr c"
    and "Can_build b" "i \<notin> set (Inflight_builds b)" "io (record_path ''project'' i)"
    and "run_build io now i c composed baked (snd (Build io i tools (b, w))) = (b', w')"
  shows "fst (Build io i tools (snd (Build io i tools (b, w)))) = Inl (InUseErr i) \<and>
    (\<exists>q. project_of w' = (project_of w)(i \<mapsto> q) \<and> Tools (PToolchain q) = c \<and>
      (case (composed, baked) of
         (Inr h, Inr d) \<Rightarrow> d \<noteq> [] \<longrightarrow> session_layer daemon q = d
       | _ \<Rightarrow> LayerDigest (PToolchain q) = [] \<and> session_layer daemon q = daemon))"
proof -
  note r = build_runs [OF assms refl]
  define q where "q = p\<lparr>PToolchain := build_result c now composed baked\<rparr>"
  have layer: "case (composed, baked) of
      (Inr h, Inr d) \<Rightarrow> d \<noteq> [] \<longrightarrow> session_layer daemon q = d
    | _ \<Rightarrow> LayerDigest (PToolchain q) = [] \<and> session_layer daemon q = daemon"
    by (cases composed; cases baked)
      (simp_all add: q_def build_result_def toolchain_record_def no_toolchain_def session_layer_def InUse_def)
  show ?thesis
  proof (intro conjI exI [of _ q])
    show "fst (Build io i tools (snd (Build io i tools (b, w)))) = Inl (InUseErr i)" using r(1) by simp
    show "project_of w' = (project_of w)(i \<mapsto> q)" using r(2) by (simp add: q_def)
    show "Tools (PToolchain q) = c" by (simp add: q_def)
  qed (rule layer)
qed

definition ready_project :: Project where
  "ready_project = (default_project ''t0'')\<lparr>PToolchain := no_toolchain\<lparr>Tools := [''jq''], TStatus := ToolchainReady,
     LayerDigest := ''sha256:1''\<rparr>\<rparr>"

definition ready_world :: world where
  "ready_world = demo_world\<lparr>Projs := [(''default'', Good ready_project)]\<rparr>"

definition idle_builder :: builder where
  "idle_builder = \<lparr>Can_build = True, Why = [], Inflight_builds = []\<rparr>"

lemma ready_records_ok: "records_ok ready_world"
  by (auto simp: records_ok_def ready_world_def ready_project_def demo_world_def files_ok_def project_of_def
      environment_of_def stored_at_def
      default_project_def default_environment_def named_env_def nameRe_def name_head_def name_tail_def
      DefaultProjectID_def DefaultEnvironmentID_def DefaultEnvironmentName_def envIDSeparator_def EnvironmentID_def
      split: if_splits)

theorem toolchain_build_outcome_witness:
  "session_layer ''daemon'' ready_project = ''sha256:1'' \<and>
   (\<exists>w' q. project_of w' ''default'' = Some q \<and> session_layer ''daemon'' q = ''daemon'')"
proof -
  have p: "project_of ready_world ''default'' = Some ready_project"
    by (simp add: project_of_def stored_at_def ready_world_def)
  have v: "ValidateTools [''kubectl''] = Inr [''kubectl'']" by code_simp
  obtain b' w' where r: "run_build (\<lambda>_. True) ''t1'' ''default'' [''kubectl''] (Inl ''no such package'') (Inl [])
      (snd (Build (\<lambda>_. True) ''default'' [''kubectl''] (idle_builder, ready_world))) = (b', w')" by fastforce
  have "\<exists>q. project_of w' = (project_of ready_world)(''default'' \<mapsto> q) \<and> session_layer ''daemon'' q = ''daemon''"
    using toolchain_build_outcome [OF ready_records_ok p v _ _ _ r, of "''daemon''"] by (auto simp: idle_builder_def)
  then obtain q where "project_of w' ''default'' = Some q" "session_layer ''daemon'' q = ''daemon''" by auto
  moreover have "session_layer ''daemon'' ready_project = ''sha256:1''"
    by (simp add: session_layer_def ready_project_def InUse_def)
  ultimately show ?thesis by blast
qed

end
