(* ===== verification/Broker_Keys.thy ===== *)
theory Broker_Keys
  imports Go_Encoding "HOL-Library.Word"
begin

text \<open>
  \<^verbatim>\<open>internal/broker/keysource.go\<close> and the key sources of \<^verbatim>\<open>vault.go\<close>: where the vault's master key
  comes from. A file system maps a path to what \<^verbatim>\<open>os.Stat\<close> and \<^verbatim>\<open>os.ReadFile\<close> say of it; the
  argument \<open>io\<close> says which system calls of a write succeed.
\<close>

unbundle bit_operations_syntax

subsection \<open>Files\<close>

datatype 'c fs_entry = StatFails | FsFile (Perm: "32 word") (Readable: bool) (Content: 'c)

type_synonym 'c file_system = "string \<Rightarrow> 'c fs_entry option"

datatype io_step = DoMkdirAll | DoMarshal | DoCreateTemp | DoChmod | DoWrite | DoSync | DoClose | DoRename

datatype vault_error =
    NotFound string
  | Denied string
  | InvalidInput string
  | AlreadyExists string
  | ErrInUse string
  | ErrKeyAbsent string
  | Failure string
  | IOFailed io_step

text \<open>The temp file, sync and rename sequence: a file appears whole or not at all.\<close>

definition install_file ::
  "(io_step \<Rightarrow> bool) \<Rightarrow> io_step list \<Rightarrow> string \<Rightarrow> 'c \<Rightarrow> 'c file_system \<Rightarrow> vault_error option \<times> 'c file_system" where
  "install_file io steps path c fs =
     (case find (\<lambda>s. \<not> io s) steps of
        Some s \<Rightarrow> (Some (IOFailed s), fs)
      | None \<Rightarrow> (None, fs(path \<mapsto> FsFile 0x180 True c)))"

definition loose :: "32 word \<Rightarrow> bool" where
  "loose perm = (perm AND 0x3F \<noteq> 0)"

subsection \<open>Key sources\<close>

definition masterKeyLen :: nat where "masterKeyLen = 32"

definition DefaultVaultKeyEnv :: string where "DefaultVaultKeyEnv = ''OPSLIFY_VAULT_KEY''"

definition sized_key :: "string option \<Rightarrow> string option" where
  "sized_key k = (case k of Some b \<Rightarrow> if length b = masterKeyLen then Some b else None | None \<Rightarrow> None)"

definition key_decoders :: "(string \<Rightarrow> string option) list" where
  "key_decoders = [hex_decode, b64_decode StdAlphabet True, b64_decode StdAlphabet False,
     b64_decode URLAlphabet True, b64_decode URLAlphabet False]"

definition decodeKey :: "string \<Rightarrow> vault_error + string" where
  "decodeKey raw =
     (case List.find (\<lambda>k. k \<noteq> None) (map (\<lambda>dec. sized_key (dec raw)) key_decoders) of
        Some (Some k) \<Rightarrow> Inr k
      | _ \<Rightarrow> Inl (InvalidInput ''expected 32 bytes as hex (64 chars) or base64''))"

datatype key_source =
    EnvKeySource string
  | FileKeySource string
  | StaticKeySource string
  | ChainKeySource "(string \<times> key_source) list"

record host =
  Getenv :: "string \<Rightarrow> string"
  KeyFiles :: "string file_system"

definition env_MasterKey :: "host \<Rightarrow> string \<Rightarrow> vault_error + string" where
  "env_MasterKey h var =
     (let var = (if var = [] then DefaultVaultKeyEnv else var);
          raw = trim_space (Getenv h var)
      in if raw = [] then Inl (ErrKeyAbsent (''env '' @ var @ '' is unset''))
         else decodeKey raw)"

definition file_MasterKey :: "host \<Rightarrow> string \<Rightarrow> vault_error + string" where
  "file_MasterKey h path =
     (if path = [] then Inl (ErrKeyAbsent ''vault key file path is empty'')
      else case KeyFiles h path of
          None \<Rightarrow> Inl (ErrKeyAbsent (''key file '' @ path @ '' does not exist''))
        | Some StatFails \<Rightarrow> Inl (Failure (''stat vault key file '' @ path))
        | Some (FsFile perm readable raw) \<Rightarrow>
            if loose perm then Inl (Failure (''vault key file '' @ path @ '' has insecure perms''))
            else if \<not> readable then Inl (Failure (''read vault key file '' @ path))
            else decodeKey (trim_space raw))"

definition static_MasterKey :: "string \<Rightarrow> vault_error + string" where
  "static_MasterKey k = (if length k \<noteq> masterKeyLen then Inl (InvalidInput ''master key'') else Inr k)"

fun key_absent :: "vault_error \<Rightarrow> bool" where
  "key_absent (ErrKeyAbsent _) = True"
| "key_absent _ = False"

text \<open>\<^verbatim>\<open>chainKeySource.MasterKey\<close>: \<open>tried\<close> collects the names in order.\<close>

fun MasterKey :: "host \<Rightarrow> key_source \<Rightarrow> vault_error + string"
  and chain_MasterKey :: "host \<Rightarrow> string list \<Rightarrow> (string \<times> key_source) list \<Rightarrow> vault_error + string" where
  "MasterKey h (EnvKeySource var) = env_MasterKey h var"
| "MasterKey h (FileKeySource path) = file_MasterKey h path"
| "MasterKey h (StaticKeySource k) = static_MasterKey k"
| "MasterKey h (ChainKeySource ss) = chain_MasterKey h [] ss"
| "chain_MasterKey h tried [] = Inl (ErrKeyAbsent (str_join '', '' tried))"
| "chain_MasterKey h tried ((name, s) # ss) =
     (case MasterKey h s of
        Inr k \<Rightarrow> Inr k
      | Inl e \<Rightarrow> if key_absent e then chain_MasterKey h (tried @ [name]) ss else Inl e)"

definition ResolveKeySource :: "string \<Rightarrow> string \<Rightarrow> key_source" where
  "ResolveKeySource envVar keyFile =
     (let envVar = (if envVar = [] then DefaultVaultKeyEnv else envVar)
      in ChainKeySource [(''env '' @ envVar, EnvKeySource envVar), (''file '' @ keyFile, FileKeySource keyFile)])"

subsection \<open>Generating and storing a key\<close>

definition GenerateMasterKey :: "string option \<Rightarrow> vault_error + string" where
  "GenerateMasterKey rnd = (case rnd of None \<Rightarrow> Inl (Failure ''generate vault master key'') | Some k \<Rightarrow> Inr k)"

definition EncodeKey :: "string \<Rightarrow> string" where
  "EncodeKey k = hex_encode k"

definition WriteKeyFile ::
  "(io_step \<Rightarrow> bool) \<Rightarrow> string \<Rightarrow> string \<Rightarrow> string file_system \<Rightarrow> vault_error option \<times> string file_system" where
  "WriteKeyFile io path key fs =
     (if path = [] then (Some (InvalidInput ''vault key file path is empty''), fs)
      else if length key \<noteq> masterKeyLen then (Some (InvalidInput ''master key''), fs)
      else case fs path of
          Some StatFails \<Rightarrow> (Some (Failure (''stat vault key file '' @ path)), fs)
        | Some (FsFile _ _ _) \<Rightarrow> (Some (AlreadyExists path), fs)
        | None \<Rightarrow>
            install_file io [DoMkdirAll, DoCreateTemp, DoChmod, DoWrite, DoSync, DoClose, DoRename]
              path (EncodeKey key @ [CHR 0x0A]) fs)"

subsection \<open>Laws\<close>

lemma decodeKey_length: "decodeKey raw = Inr k \<Longrightarrow> length k = masterKeyLen"
  by (auto simp: decodeKey_def key_decoders_def sized_key_def split: option.splits if_splits)

lemma decodeKey_EncodeKey: "length k = masterKeyLen \<Longrightarrow> decodeKey (EncodeKey k) = Inr k"
  by (simp add: decodeKey_def key_decoders_def sized_key_def EncodeKey_def)

lemma decodeKey_not_absent: "decodeKey raw = Inl e \<Longrightarrow> \<not> key_absent e"
  by (auto simp: decodeKey_def split: option.splits)

lemma MasterKey_length: "MasterKey h s = Inr k \<Longrightarrow> length k = masterKeyLen"
  and chain_MasterKey_length: "chain_MasterKey h tried ss = Inr k \<Longrightarrow> length k = masterKeyLen"
proof (induction h s and h tried ss arbitrary: k and k rule: MasterKey_chain_MasterKey.induct)
  case (1 h var)
  then show ?case by (auto simp: env_MasterKey_def Let_def decodeKey_length split: if_splits)
next
  case (2 h path)
  then show ?case
    by (auto simp: file_MasterKey_def decodeKey_length split: if_splits option.splits fs_entry.splits)
next
  case (6 h tried name s ss)
  then show ?case by (auto split: sum.splits if_splits)
qed (auto simp: static_MasterKey_def split: if_splits)

text \<open>A chain answers with its first source that is not absent, whatever that source says.\<close>

lemma chain_MasterKey_find:
  "chain_MasterKey h tried ss =
     (case List.find (\<lambda>r. case r of Inl e \<Rightarrow> \<not> key_absent e | Inr _ \<Rightarrow> True) (map (MasterKey h \<circ> snd) ss) of
        Some r \<Rightarrow> r
      | None \<Rightarrow> Inl (ErrKeyAbsent (str_join '', '' (tried @ map fst ss))))"
proof (induction ss arbitrary: tried)
  case (Cons p ss)
  obtain name s where p: "p = (name, s)" by (cases p)
  show ?case unfolding p by (auto simp: Cons split: sum.split option.split)
qed simp

lemma hex_nibble_printable: "n < 16 \<Longrightarrow> printable (hex_nibble n)"
  by (simp add: printable_def hex_nibble_def encode_of_char_byte)

lemma hex_encode_printable: "list_all printable (hex_encode s)"
  by (induction s) (simp_all add: hex_encode_def hex_nibble_printable)

lemma trim_space_newline:
  assumes "list_all printable s" "s \<noteq> []"
  shows "trim_space (s @ [CHR 0x0A]) = s"
proof -
  obtain c r where s: "s = c # r" using assms(2) by (cases s) auto
  have "space_len (s @ [CHR 0x0A]) = 0"
  proof -
    define a where "a = (of_char c :: nat)"
    have a: "32 < a" "a < 127" using assms(1) s by (auto simp: a_def printable_def)
    obtain bs where "map of_char (take 3 (s @ [CHR 0x0A])) = a # (bs :: nat list)" using s by (simp add: a_def)
    then show ?thesis using a by (auto simp: space_len_def split: list.split)
  qed
  then have l: "trim_left (s @ [CHR 0x0A]) = s @ [CHR 0x0A]" by (simp add: trim_left.simps [of "s @ _"])
  have n: "space_len [CHR 0x0A] = 1" by (simp add: space_len_def)
  have "list_all printable (drop n s)" for n using assms(1) by (auto simp: list_all_iff dest: in_set_dropD)
  then have "space_tail s = 0" by (simp add: space_tail_def space_len_printable)
  moreover have "space_tail (s @ [CHR 0x0A]) = 1" using n by (simp add: space_tail_def)
  ultimately have "trim_right (s @ [CHR 0x0A]) = s"
    by (simp add: trim_right.simps [of "s @ _"] trim_right.simps [of s])
  then show ?thesis by (simp add: trim_space_def l)
qed

lemma WriteKeyFile_content:
  assumes "WriteKeyFile io path key fs = (None, fs')"
  shows "fs' = fs(path \<mapsto> FsFile 0x180 True (EncodeKey key @ [CHR 0x0A]))" "fs path = None"
    "path \<noteq> []" "length key = masterKeyLen"
  using assms by (auto simp: WriteKeyFile_def install_file_def split: if_splits option.splits fs_entry.splits)

lemma owner_only [simp]: "\<not> loose 0x180"
  by (simp add: loose_def)

lemma file_MasterKey_written:
  assumes "length key = masterKeyLen" "path \<noteq> []"
    and "KeyFiles h path = Some (FsFile 0x180 True (EncodeKey key @ [CHR 0x0A]))"
  shows "file_MasterKey h path = Inr key"
proof -
  have "EncodeKey key \<noteq> []" using assms(1) by (cases key) (simp_all add: EncodeKey_def hex_encode_def masterKeyLen_def)
  then have "trim_space (EncodeKey key @ [CHR 0x0A]) = EncodeKey key"
    by (simp add: trim_space_newline EncodeKey_def hex_encode_printable)
  then show ?thesis using assms by (simp add: file_MasterKey_def decodeKey_EncodeKey)
qed

subsection \<open>The stored key\<close>

text \<open>
  The key \<^verbatim>\<open>opslify init\<close> writes is the key the daemon starts with. After \<^verbatim>\<open>WriteKeyFile\<close> returned
  nil, the resolution chain over the variable and that file yields the very bytes, unless the
  variable is set: then the variable alone decides, a malformed value is an error and the file is
  not consulted. The file is readable to its owner only and a second write of any key is refused
  and changes nothing.
\<close>

theorem master_key_round_trip:
  assumes "WriteKeyFile io path key fs = (None, fs')"
  shows "MasterKey (h\<lparr>KeyFiles := fs'\<rparr>) (ResolveKeySource var path) =
           (let raw = trim_space (Getenv h (if var = [] then DefaultVaultKeyEnv else var))
            in if raw = [] then Inr key else decodeKey raw) \<and>
         (\<exists>perm body. fs' path = Some (FsFile perm True body) \<and> \<not> loose perm) \<and>
         WriteKeyFile io2 path key2 fs' =
           (Some (if length key2 = masterKeyLen then AlreadyExists path else InvalidInput ''master key''), fs')"
proof -
  note w = WriteKeyFile_content [OF assms]
  define h2 where "h2 = h\<lparr>KeyFiles := fs'\<rparr>"
  have f: "file_MasterKey h2 path = Inr key"
    using w by (intro file_MasterKey_written) (simp_all add: h2_def)
  define v where "v = (if var = [] then DefaultVaultKeyEnv else var)"
  have v: "v \<noteq> []" by (simp add: v_def DefaultVaultKeyEnv_def)
  define raw where "raw = trim_space (Getenv h v)"
  have e: "env_MasterKey h2 v = (if raw = [] then Inl (ErrKeyAbsent (''env '' @ v @ '' is unset'')) else decodeKey raw)"
    using v by (simp add: env_MasterKey_def Let_def raw_def h2_def)
  have "MasterKey h2 (ResolveKeySource var path) = (if raw = [] then Inr key else decodeKey raw)"
    unfolding ResolveKeySource_def Let_def v_def [symmetric]
    by (auto simp: e f dest: decodeKey_not_absent split: sum.split)
  then show ?thesis
    unfolding h2_def v_def raw_def using w by (auto simp: WriteKeyFile_def Let_def)
qed

theorem master_key_round_trip_witness:
  "MasterKey \<lparr>Getenv = (\<lambda>_. []), KeyFiles = [''vault.key'' \<mapsto> FsFile 0x180 True (EncodeKey (replicate 32 (CHR ''k'')) @ [CHR 0x0A])]\<rparr>
     (ResolveKeySource [] ''vault.key'') = Inr (replicate 32 (CHR ''k''))"
proof -
  have "WriteKeyFile (\<lambda>_. True) ''vault.key'' (replicate 32 (CHR ''k'')) Map.empty =
      (None, [''vault.key'' \<mapsto> FsFile 0x180 True (EncodeKey (replicate 32 (CHR ''k'')) @ [CHR 0x0A])])"
    by (simp add: WriteKeyFile_def install_file_def masterKeyLen_def)
  from conjunct1 [OF master_key_round_trip [OF this, of "\<lparr>Getenv = (\<lambda>_. []), KeyFiles = Map.empty\<rparr>" "[]"]]
  show ?thesis by simp
qed

end
