(* ===== verification/Broker_Vault.thy ===== *)
theory Broker_Vault
  imports Broker_Keys Broker_Resolve Go_Json Go_Time
begin

text \<open>
  \<^verbatim>\<open>internal/broker/vault.go\<close>: the encrypted secret store. A vault is the struct's fields, its map
  an association list (the order is the map's iteration order); the disk maps the path to a parsed
  document. AES-256-GCM is a parameter, the random bytes, the clock and the outcome of each system
  call are arguments.
\<close>

subsection \<open>Envelope encryption\<close>

record aead =
  Seal :: "string \<Rightarrow> string \<Rightarrow> string \<Rightarrow> string"
  Open :: "string \<Rightarrow> string \<Rightarrow> string \<Rightarrow> string option"

definition nonceSize :: nat where "nonceSize = 12"

text \<open>What the code relies on: opening what was sealed under the same key and nonce gives it back.\<close>

definition aead_ok :: "aead \<Rightarrow> bool" where
  "aead_ok A \<longleftrightarrow> (\<forall>k n p. length k = masterKeyLen \<longrightarrow> length n = nonceSize \<longrightarrow> Open A k n (Seal A k n p) = Some p)"

definition aes_key :: "string \<Rightarrow> bool" where
  "aes_key k \<longleftrightarrow> length k = 16 \<or> length k = 24 \<or> length k = 32"

definition gcmSeal :: "aead \<Rightarrow> string option \<Rightarrow> string \<Rightarrow> string \<Rightarrow> vault_error + string" where
  "gcmSeal A nonce key plaintext =
     (if \<not> aes_key key then Inl (Failure ''aes cipher'')
      else case nonce of
          None \<Rightarrow> Inl (Failure ''nonce'')
        | Some n \<Rightarrow> Inr (n @ Seal A key n plaintext))"

definition gcmOpen :: "aead \<Rightarrow> string \<Rightarrow> string \<Rightarrow> vault_error + string" where
  "gcmOpen A key blob =
     (if \<not> aes_key key then Inl (Failure ''aes cipher'')
      else if length blob < nonceSize then Inl (InvalidInput ''ciphertext too short'')
      else case Open A key (take nonceSize blob) (drop nonceSize blob) of
          None \<Rightarrow> Inl (Failure ''gcm open (auth failed)'')
        | Some pt \<Rightarrow> Inr pt)"

subsection \<open>Records and the vault file\<close>

record vrecord =
  VMeta :: SecretMeta
  WrappedDEK :: string
  SealedValue :: string

datatype vault_doc = Blank | Garbled | Doc nat "(string \<times> vrecord) list"

record vault =
  VPath :: string
  Kek :: string
  Version :: nat
  Secrets :: "(string \<times> vrecord) list"
  lastUsedFlushed :: "(string \<times> int) list"

type_synonym vstate = "vault \<times> vault_doc file_system"

record PutMeta =
  PutProvider :: string
  PutScope :: string
  PutTTL :: string

text \<open>What a string becomes when it is written as JSON and read back: invalid bytes turn into U+FFFD.\<close>

function as_json :: "string \<Rightarrow> string" where
  "as_json s =
     (if s = [] then []
      else if rune_len s = 0 then [byte 0xEF, byte 0xBF, byte 0xBD] @ as_json (tl s)
      else take (rune_len s) s @ as_json (drop (rune_len s) s))"
  by pat_completeness auto
termination
  by (relation "measure length") auto

declare as_json.simps [simp del]

definition json_meta :: "SecretMeta \<Rightarrow> SecretMeta" where
  "json_meta m = m\<lparr>Ref := as_json (Ref m), MetaProvider := as_json (MetaProvider m),
     MetaScope := as_json (MetaScope m), MetaTTL := as_json (MetaTTL m)\<rparr>"

definition json_record :: "string \<times> vrecord \<Rightarrow> string \<times> vrecord" where
  "json_record p = (as_json (fst p), (snd p)\<lparr>VMeta := json_meta (VMeta (snd p)),
     WrappedDEK := as_json (WrappedDEK (snd p)), SealedValue := as_json (SealedValue (snd p))\<rparr>)"

definition metaOf :: "vrecord \<Rightarrow> SecretMeta" where
  "metaOf r = VMeta r"

definition persist_steps :: "io_step list" where
  "persist_steps = [DoMkdirAll, DoMarshal, DoCreateTemp, DoChmod, DoWrite, DoSync, DoClose, DoRename]"

definition persist :: "(io_step \<Rightarrow> bool) \<Rightarrow> vstate \<Rightarrow> vault_error option \<times> vstate" where
  "persist io st =
     (let (v, fs) = st;
          (e, fs) = install_file io persist_steps
            (VPath v) (Doc (Version v) (map json_record (Secrets v))) fs
      in (e, (v, fs)))"

definition vaultFormatVersion :: nat where "vaultFormatVersion = 1"

definition vault_load :: "vault_doc file_system \<Rightarrow> vault \<Rightarrow> vault_error + vault" where
  "vault_load fs v =
     (case fs (VPath v) of
        None \<Rightarrow> Inr v
      | Some StatFails \<Rightarrow> Inl (Failure ''stat vault'')
      | Some (FsFile perm readable c) \<Rightarrow>
          if loose perm then Inl (Failure ''vault has insecure perms'')
          else if \<not> readable then Inl (Failure ''read vault'')
          else (case c of
              Blank \<Rightarrow> Inr v
            | Garbled \<Rightarrow> Inl (Failure ''parse vault'')
            | Doc ver ss \<Rightarrow> Inr (v\<lparr>Version := ver, Secrets := ss\<rparr>)))"

definition OpenVault ::
  "host \<Rightarrow> vault_doc file_system \<Rightarrow> string \<Rightarrow> key_source \<Rightarrow> vault_error + vault" where
  "OpenVault h fs path ks =
     (if path = [] then Inl (InvalidInput ''vault path is required'')
      else case MasterKey h ks of
          Inl e \<Rightarrow> Inl e
        | Inr kek \<Rightarrow>
            if length kek \<noteq> masterKeyLen then Inl (InvalidInput ''master key'')
            else vault_load fs \<lparr>VPath = path, Kek = kek, Version = vaultFormatVersion, Secrets = [], lastUsedFlushed = []\<rparr>)"

subsection \<open>Validation\<close>

definition ref_char :: "char \<Rightarrow> bool" where
  "ref_char c \<longleftrightarrow> c \<in> set ''-_./@'' \<or> (CHR ''a'' \<le> c \<and> c \<le> CHR ''z'') \<or> (CHR ''A'' \<le> c \<and> c \<le> CHR ''Z'') \<or>
     (CHR ''0'' \<le> c \<and> c \<le> CHR ''9'')"

definition validRef :: "string \<Rightarrow> vault_error option" where
  "validRef ref =
     (if ref = [] then Some (InvalidInput ''ref is empty'')
      else if length ref > 256 then Some (InvalidInput ''ref too long'')
      else if \<not> list_all ref_char ref then Some (InvalidInput ''ref has an invalid character'')
      else if str_contains ref ''..'' then Some (InvalidInput ''ref contains ..'')
      else if has_prefix ref ''/'' then Some (InvalidInput ''ref must not start with /'')
      else if has_suffix ref ''/'' then Some (InvalidInput ''ref must not end with /'')
      else if str_contains ref ''//'' then Some (InvalidInput ''ref must not contain an empty segment'')
      else if list_ex (\<lambda>s. s = ''.'' \<or> s = ''..'') (split_on (CHR ''/'') ref)
        then Some (InvalidInput ''ref contains a path segment'')
      else None)"

definition ValidateRef :: "string \<Rightarrow> vault_error option" where
  "ValidateRef ref = validRef ref"

text \<open>\<^verbatim>\<open>warnLegacyRefs\<close>: the stored refs that are logged when the vault opens.\<close>

definition legacyRefs :: "vault \<Rightarrow> string list" where
  "legacyRefs v = filter (\<lambda>ref. validRef ref \<noteq> None) (map fst (Secrets v))"

definition maxMetaFieldLen :: nat where "maxMetaFieldLen = 128"

definition validateMetaField :: "string \<Rightarrow> string \<Rightarrow> vault_error option" where
  "validateMetaField name x =
     (if x = [] then None
      else if length x > maxMetaFieldLen then Some (InvalidInput (name @ '' is too long''))
      else if list_ex (\<lambda>c. (of_char c :: nat) < 0x20 \<or> (of_char c :: nat) = 0x7F) x
        then Some (InvalidInput (name @ '' contains a control character''))
      else None)"

definition validatePut :: "string \<Rightarrow> string \<Rightarrow> PutMeta \<Rightarrow> vault_error option" where
  "validatePut ref val meta =
     (case validRef ref of
        Some e \<Rightarrow> Some e
      | None \<Rightarrow>
          if val = [] then Some (InvalidInput ''secret value is empty'')
          else if PutTTL meta \<noteq> [] \<and> ParseDuration (PutTTL meta) = None then Some (InvalidInput ''ttl'')
          else (case validateMetaField ''provider'' (PutProvider meta) of
              Some e \<Rightarrow> Some e
            | None \<Rightarrow> validateMetaField ''scope'' (PutScope meta)))"

subsection \<open>Writing\<close>

record write_rand =
  RandDek :: "string option"
  RandValue :: "string option"
  RandWrap :: "string option"

text \<open>The metadata a write stores; what the caller does not restate is carried forward.\<close>

definition merge_meta :: "int \<Rightarrow> string \<Rightarrow> PutMeta \<Rightarrow> SecretMeta option \<Rightarrow> SecretMeta" where
  "merge_meta now ref meta existing =
     (case existing of
        None \<Rightarrow> \<lparr>Ref = ref, MetaProvider = PutProvider meta, MetaScope = PutScope meta, MetaTTL = PutTTL meta,
          CreatedAt = now, LastUsed = 0, RotatedAt = 0\<rparr>
      | Some m \<Rightarrow> \<lparr>Ref = ref,
          MetaProvider = (if PutProvider meta = [] then MetaProvider m else PutProvider meta),
          MetaScope = (if PutScope meta = [] then MetaScope m else PutScope meta),
          MetaTTL = (if PutTTL meta = [] then MetaTTL m else PutTTL meta),
          CreatedAt = CreatedAt m, LastUsed = LastUsed m, RotatedAt = now\<rparr>)"

definition writeLocked ::
  "aead \<Rightarrow> (io_step \<Rightarrow> bool) \<Rightarrow> int \<Rightarrow> write_rand \<Rightarrow> string \<Rightarrow> string \<Rightarrow> PutMeta \<Rightarrow> vstate \<Rightarrow>
     vault_error option \<times> vstate" where
  "writeLocked A io now r ref val meta st =
     (let (v, fs) = st
      in case RandDek r of
          None \<Rightarrow> (Some (Failure ''generate data key''), st)
        | Some dek \<Rightarrow>
            (case gcmSeal A (RandValue r) dek val of
               Inl e \<Rightarrow> (Some e, st)
             | Inr valueBlob \<Rightarrow>
                 (case gcmSeal A (RandWrap r) (Kek v) dek of
                    Inl e \<Rightarrow> (Some e, st)
                  | Inr wrapped \<Rightarrow>
                      let rec = \<lparr>VMeta = merge_meta now ref meta (map_option VMeta (map_of (Secrets v) ref)),
                            WrappedDEK = b64_encode wrapped, SealedValue = b64_encode valueBlob\<rparr>
                      in persist io (v\<lparr>Secrets := al_put ref rec (Secrets v),
                           lastUsedFlushed := al_del ref (lastUsedFlushed v)\<rparr>, fs))))"

definition putLocked ::
  "aead \<Rightarrow> (io_step \<Rightarrow> bool) \<Rightarrow> int \<Rightarrow> write_rand \<Rightarrow> string \<Rightarrow> string \<Rightarrow> PutMeta \<Rightarrow> bool \<Rightarrow> bool \<Rightarrow> vstate \<Rightarrow>
     vault_error option \<times> vstate" where
  "putLocked A io now r ref val meta overwrite mustExist st =
     (case validatePut ref val meta of
        Some e \<Rightarrow> (Some e, st)
      | None \<Rightarrow>
          let ok = (map_of (Secrets (fst st)) ref \<noteq> None)
          in if ok \<and> \<not> overwrite then (Some (AlreadyExists ref), st)
             else if \<not> ok \<and> mustExist then (Some (NotFound ref), st)
             else writeLocked A io now r ref val meta st)"

definition vault_Put where
  "vault_Put A io now r ref val meta overwrite st = putLocked A io now r ref val meta overwrite False st"

definition vault_Update where
  "vault_Update A io now r ref val meta st = putLocked A io now r ref val meta True True st"

definition vault_Upsert ::
  "aead \<Rightarrow> (io_step \<Rightarrow> bool) \<Rightarrow> int \<Rightarrow> write_rand \<Rightarrow> string \<Rightarrow> string \<Rightarrow> PutMeta \<Rightarrow> vstate \<Rightarrow>
     (vault_error + SecretMeta \<times> bool) \<times> vstate" where
  "vault_Upsert A io now r ref val meta st =
     (case validatePut ref val meta of
        Some e \<Rightarrow> (Inl e, st)
      | None \<Rightarrow>
          let replaced = (map_of (Secrets (fst st)) ref \<noteq> None)
          in case writeLocked A io now r ref val meta st of
               (Some e, st) \<Rightarrow> (Inl e, st)
             | (None, st) \<Rightarrow>
                 (case map_of (Secrets (fst st)) ref of
                    Some rec \<Rightarrow> (Inr (metaOf rec, replaced), st)
                  | None \<Rightarrow> (Inr (meta_of [] [], replaced), st)))"

subsection \<open>Reading, deleting and rotating the master key\<close>

definition decrypt :: "aead \<Rightarrow> string \<Rightarrow> vrecord \<Rightarrow> vault_error + string \<times> string" where
  "decrypt A kek rec =
     (case b64_decode StdAlphabet True (WrappedDEK rec) of
        None \<Rightarrow> Inl (Failure ''decode wrapped key'')
      | Some wrapped \<Rightarrow>
          (case gcmOpen A kek wrapped of
             Inl e \<Rightarrow> Inl e
           | Inr dek \<Rightarrow>
               (case b64_decode StdAlphabet True (SealedValue rec) of
                  None \<Rightarrow> Inl (Failure ''decode value'')
                | Some blob \<Rightarrow>
                    (case gcmOpen A dek blob of
                       Inl e \<Rightarrow> Inl e
                     | Inr val \<Rightarrow> Inr (dek, val)))))"

definition lastUsedFlushInterval :: int where "lastUsedFlushInterval = 60000000000"

definition vault_Get ::
  "aead \<Rightarrow> (io_step \<Rightarrow> bool) \<Rightarrow> int \<Rightarrow> string \<Rightarrow> vstate \<Rightarrow> (vault_error + string \<times> SecretMeta) \<times> vstate" where
  "vault_Get A io now ref st =
     (let (v, fs) = st
      in case map_of (Secrets v) ref of
          None \<Rightarrow> (Inl (NotFound ref), st)
        | Some rec \<Rightarrow>
            (case decrypt A (Kek v) rec of
               Inl e \<Rightarrow> (Inl e, st)
             | Inr (dek, val) \<Rightarrow>
                 let rec = rec\<lparr>VMeta := (VMeta rec)\<lparr>LastUsed := now\<rparr>\<rparr>;
                     v = v\<lparr>Secrets := al_put ref rec (Secrets v)\<rparr>;
                     due = (case map_of (lastUsedFlushed v) ref of None \<Rightarrow> True | Some t \<Rightarrow> now - t \<ge> lastUsedFlushInterval);
                     (v, fs) = (if due
                       then let (e, v, fs) = persist io (v, fs)
                            in (v\<lparr>lastUsedFlushed := al_put ref now (lastUsedFlushed v)\<rparr>, fs)
                       else (v, fs))
                 in (Inr (val, metaOf rec), (v, fs))))"

definition vault_List :: "vault \<Rightarrow> SecretMeta list" where
  "vault_List v = sort_key Ref (map (metaOf \<circ> snd) (Secrets v))"

definition vault_Delete :: "(io_step \<Rightarrow> bool) \<Rightarrow> string \<Rightarrow> vstate \<Rightarrow> vault_error option \<times> vstate" where
  "vault_Delete io ref st =
     (let (v, fs) = st
      in if map_of (Secrets v) ref = None then (Some (NotFound ref), st)
         else persist io (v\<lparr>Secrets := al_del ref (Secrets v), lastUsedFlushed := al_del ref (lastUsedFlushed v)\<rparr>, fs))"

definition rewrap_record ::
  "aead \<Rightarrow> string option \<Rightarrow> string \<Rightarrow> string \<Rightarrow> vrecord \<Rightarrow> vault_error + vrecord" where
  "rewrap_record A nonce kek newKEK rec =
     (case b64_decode StdAlphabet True (WrappedDEK rec) of
        None \<Rightarrow> Inl (Failure ''rotate: decode wrapped key'')
      | Some wrapped \<Rightarrow>
          (case gcmOpen A kek wrapped of
             Inl e \<Rightarrow> Inl e
           | Inr dek \<Rightarrow>
               (case gcmSeal A nonce newKEK dek of
                  Inl e \<Rightarrow> Inl e
                | Inr newWrapped \<Rightarrow> Inr (rec\<lparr>WrappedDEK := b64_encode newWrapped\<rparr>))))"

fun rewrap ::
  "aead \<Rightarrow> (string \<Rightarrow> string option) \<Rightarrow> string \<Rightarrow> string \<Rightarrow> (string \<times> vrecord) list \<Rightarrow>
     vault_error + (string \<times> vrecord) list" where
  "rewrap A nonces kek newKEK [] = Inr []"
| "rewrap A nonces kek newKEK ((ref, rec) # ss) =
     (case rewrap_record A (nonces ref) kek newKEK rec of
        Inl e \<Rightarrow> Inl e
      | Inr rec \<Rightarrow> map_sum (\<lambda>e. e) (\<lambda>r. (ref, rec) # r) (rewrap A nonces kek newKEK ss))"

definition RotateMasterKey ::
  "aead \<Rightarrow> (io_step \<Rightarrow> bool) \<Rightarrow> (string \<Rightarrow> string option) \<Rightarrow> string \<Rightarrow> vstate \<Rightarrow> vault_error option \<times> vstate" where
  "RotateMasterKey A io nonces newKEK st =
     (let (v, fs) = st
      in if length newKEK \<noteq> masterKeyLen then (Some (InvalidInput ''new master key''), st)
         else case rewrap A nonces (Kek v) newKEK (Secrets v) of
             Inl e \<Rightarrow> (Some e, st)
           | Inr rewrapped \<Rightarrow>
               (case persist io (v\<lparr>Secrets := rewrapped, Kek := newKEK\<rparr>, fs) of
                  (Some e, (v2, fs)) \<Rightarrow> (Some e, (v2\<lparr>Secrets := Secrets v, Kek := Kek v\<rparr>, fs))
                | (None, st) \<Rightarrow> (None, st)))"

end
