(* ===== verification/Vault_Store.thy ===== *)
theory Vault_Store
  imports Broker_Vault
begin

text \<open>
  What the vault promises: a map from references to values with their metadata. The theory gives
  the invariant of the vault, the abstraction to that map and the lemmas that every operation
  refines its abstract counterpart; the contract is the locale \<open>secret_backend\<close>.
\<close>

subsection \<open>Sealing and opening\<close>

lemma gcm_round_trip:
  assumes "aead_ok A" "length key = masterKeyLen" "length n = nonceSize"
  shows "gcmSeal A (Some n) key p = Inr (n @ Seal A key n p)" "gcmOpen A key (n @ Seal A key n p) = Inr p"
  using assms by (simp_all add: gcmSeal_def gcmOpen_def aead_ok_def aes_key_def masterKeyLen_def)

definition filled :: "nat \<Rightarrow> string option \<Rightarrow> bool" where
  "filled n r = (case r of Some b \<Rightarrow> length b = n | None \<Rightarrow> False)"

definition rand_ok :: "write_rand \<Rightarrow> bool" where
  "rand_ok r \<longleftrightarrow> filled masterKeyLen (RandDek r) \<and> filled nonceSize (RandValue r) \<and> filled nonceSize (RandWrap r)"

lemma filledE: "filled n r \<Longrightarrow> (\<And>b. r = Some b \<Longrightarrow> length b = n \<Longrightarrow> P) \<Longrightarrow> P"
  by (auto simp: filled_def split: option.splits)

subsection \<open>The invariant and the abstraction\<close>

definition record_ok :: "aead \<Rightarrow> string \<Rightarrow> string \<times> vrecord \<Rightarrow> bool" where
  "record_ok A kek p \<longleftrightarrow> Ref (VMeta (snd p)) = fst p \<and>
     (case decrypt A kek (snd p) of Inr (dek, val) \<Rightarrow> length dek = masterKeyLen | Inl e \<Rightarrow> False)"

definition vault_ok :: "aead \<Rightarrow> vault \<Rightarrow> bool" where
  "vault_ok A v \<longleftrightarrow> distinct (map fst (Secrets v)) \<and> length (Kek v) = masterKeyLen \<and>
     list_all (record_ok A (Kek v)) (Secrets v)"

type_synonym store = "string \<Rightarrow> (string \<times> SecretMeta) option"

definition value_of :: "aead \<Rightarrow> string \<Rightarrow> vrecord \<Rightarrow> string" where
  "value_of A kek r = (case decrypt A kek r of Inr (dek, val) \<Rightarrow> val | Inl e \<Rightarrow> [])"

definition plain :: "aead \<Rightarrow> vault \<Rightarrow> store" where
  "plain A v ref = map_option (\<lambda>r. (value_of A (Kek v) r, metaOf r)) (map_of (Secrets v) ref)"

lemma plain_eq: "plain A v = map_option (\<lambda>r. (value_of A (Kek v) r, metaOf r)) \<circ> map_of (Secrets v)"
  by (rule ext) (simp add: plain_def)

lemma plain_None [simp]: "plain A v ref = None \<longleftrightarrow> map_of (Secrets v) ref = None"
  by (simp add: plain_def)

lemma plain_meta: "map_option snd (plain A v ref) = map_option VMeta (map_of (Secrets v) ref)"
  by (cases "map_of (Secrets v) ref") (simp_all add: plain_def metaOf_def)

lemma record_okD:
  assumes "record_ok A kek (ref, r)"
  obtains dek where "decrypt A kek r = Inr (dek, value_of A kek r)" "length dek = masterKeyLen" "Ref (VMeta r) = ref"
  using assms by (auto simp: record_ok_def value_of_def split: sum.splits)

lemma vault_ok_record: "vault_ok A v \<Longrightarrow> map_of (Secrets v) ref = Some r \<Longrightarrow> record_ok A (Kek v) (ref, r)"
  by (auto simp: vault_ok_def list_all_iff dest: map_of_SomeD)

lemma list_all_al_put:
  "list_all P m \<Longrightarrow> P (k, x) \<Longrightarrow> list_all P (al_put k x m)"
  by (induction k x m rule: al_put.induct) auto

lemma vault_ok_put:
  assumes "vault_ok A v" "record_ok A (Kek v) (ref, r)"
  shows "vault_ok A (v\<lparr>Secrets := al_put ref r (Secrets v)\<rparr>)"
  using assms by (simp add: vault_ok_def distinct_al_put list_all_al_put)

lemma vault_ok_del:
  "vault_ok A v \<Longrightarrow> vault_ok A (v\<lparr>Secrets := al_del ref (Secrets v)\<rparr>)"
  by (auto simp: vault_ok_def distinct_al_del list_all_iff) (auto simp: al_del_def)

lemma plain_put:
  "plain A (v\<lparr>Secrets := al_put ref r (Secrets v)\<rparr>) =
     (plain A v)(ref \<mapsto> (value_of A (Kek v) r, metaOf r))"
  by (simp add: plain_def fun_eq_iff)

lemma plain_del:
  "plain A (v\<lparr>Secrets := al_del ref (Secrets v)\<rparr>) = (plain A v)(ref := None)"
  by (simp add: plain_def fun_eq_iff)

lemma vault_flushed [simp]:
  "plain A (v\<lparr>lastUsedFlushed := fl\<rparr>) = plain A v" "vault_ok A (v\<lparr>lastUsedFlushed := fl\<rparr>) = vault_ok A v"
  by (simp_all add: plain_def vault_ok_def fun_eq_iff)

subsection \<open>The abstract store\<close>

definition disk_error :: "(io_step \<Rightarrow> bool) \<Rightarrow> vault_error option" where
  "disk_error io = map_option IOFailed (List.find (\<lambda>s. \<not> io s) persist_steps)"

definition store_write ::
  "(io_step \<Rightarrow> bool) \<Rightarrow> int \<Rightarrow> string \<Rightarrow> string \<Rightarrow> PutMeta \<Rightarrow> store \<Rightarrow> vault_error option \<times> store" where
  "store_write io now ref val meta s =
     (disk_error io, s(ref \<mapsto> (val, merge_meta now ref meta (map_option snd (s ref)))))"

definition store_put ::
  "(io_step \<Rightarrow> bool) \<Rightarrow> int \<Rightarrow> string \<Rightarrow> string \<Rightarrow> PutMeta \<Rightarrow> bool \<Rightarrow> bool \<Rightarrow> store \<Rightarrow> vault_error option \<times> store" where
  "store_put io now ref val meta overwrite mustExist s =
     (case validatePut ref val meta of
        Some e \<Rightarrow> (Some e, s)
      | None \<Rightarrow>
          if s ref \<noteq> None \<and> \<not> overwrite then (Some (AlreadyExists ref), s)
          else if s ref = None \<and> mustExist then (Some (NotFound ref), s)
          else store_write io now ref val meta s)"

definition store_upsert ::
  "(io_step \<Rightarrow> bool) \<Rightarrow> int \<Rightarrow> string \<Rightarrow> string \<Rightarrow> PutMeta \<Rightarrow> store \<Rightarrow>
     (vault_error + SecretMeta \<times> bool) \<times> store" where
  "store_upsert io now ref val meta s =
     (case validatePut ref val meta of
        Some e \<Rightarrow> (Inl e, s)
      | None \<Rightarrow>
          (case disk_error io of
             Some e \<Rightarrow> Inl e
           | None \<Rightarrow> Inr (merge_meta now ref meta (map_option snd (s ref)), s ref \<noteq> None),
           snd (store_write io now ref val meta s)))"

definition store_get :: "int \<Rightarrow> string \<Rightarrow> store \<Rightarrow> (vault_error + string \<times> SecretMeta) \<times> store" where
  "store_get now ref s =
     (case s ref of
        None \<Rightarrow> (Inl (NotFound ref), s)
      | Some (val, m) \<Rightarrow> (Inr (val, m\<lparr>LastUsed := now\<rparr>), s(ref \<mapsto> (val, m\<lparr>LastUsed := now\<rparr>))))"

definition store_delete :: "(io_step \<Rightarrow> bool) \<Rightarrow> string \<Rightarrow> store \<Rightarrow> vault_error option \<times> store" where
  "store_delete io ref s = (if s ref = None then (Some (NotFound ref), s) else (disk_error io, s(ref := None)))"

definition store_list :: "store \<Rightarrow> SecretMeta list" where
  "store_list s = map (\<lambda>ref. snd (the (s ref))) (sorted_list_of_set (dom s))"

subsection \<open>Every operation refines its abstract counterpart\<close>

lemma persist_result: "fst (persist io st) = disk_error io" "fst (snd (persist io st)) = fst st"
  by (auto simp: persist_def install_file_def disk_error_def Let_def split: prod.splits option.splits)

lemma decrypt_written:
  assumes "aead_ok A" "length kek = masterKeyLen" "length dek = masterKeyLen" "length n1 = nonceSize" "length n2 = nonceSize"
  shows "decrypt A kek \<lparr>VMeta = m, WrappedDEK = b64_encode (n2 @ Seal A kek n2 dek),
           SealedValue = b64_encode (n1 @ Seal A dek n1 val)\<rparr> = Inr (dek, val)"
  using assms by (simp add: decrypt_def gcm_round_trip)

lemma writeLocked_refines:
  assumes A: "aead_ok A" and r: "rand_ok r" and ok: "vault_ok A (fst st)"
  shows "fst (writeLocked A io now r ref val meta st) = disk_error io" (is ?res)
    "vault_ok A (fst (snd (writeLocked A io now r ref val meta st)))" (is ?inv)
    "plain A (fst (snd (writeLocked A io now r ref val meta st))) =
       snd (store_write io now ref val meta (plain A (fst st)))" (is ?abs)
    "\<exists>rec. map_of (Secrets (fst (snd (writeLocked A io now r ref val meta st)))) ref = Some rec \<and>
       VMeta rec = merge_meta now ref meta (map_option VMeta (map_of (Secrets (fst st)) ref))" (is ?rec)
proof -
  obtain v fs where st: "st = (v, fs)" by (cases st)
  obtain dek n1 n2 where d: "RandDek r = Some dek" "length dek = masterKeyLen"
    and n1: "RandValue r = Some n1" "length n1 = nonceSize"
    and n2: "RandWrap r = Some n2" "length n2 = nonceSize"
    using r unfolding rand_ok_def by (elim conjE filledE) blast
  have k: "length (Kek v) = masterKeyLen" using ok st by (simp add: vault_ok_def)
  define m where "m = merge_meta now ref meta (map_option VMeta (map_of (Secrets v) ref))"
  define rec where "rec = \<lparr>VMeta = m, WrappedDEK = b64_encode (n2 @ Seal A (Kek v) n2 dek),
    SealedValue = b64_encode (n1 @ Seal A dek n1 val)\<rparr>"
  define v2 where "v2 = v\<lparr>Secrets := al_put ref rec (Secrets v), lastUsedFlushed := al_del ref (lastUsedFlushed v)\<rparr>"
  have w: "writeLocked A io now r ref val meta st = persist io (v2, fs)"
    using A d n1 n2 k by (simp add: writeLocked_def st gcm_round_trip v2_def rec_def m_def)
  have dec: "decrypt A (Kek v) rec = Inr (dek, val)"
    unfolding rec_def using A k d n1 n2 by (intro decrypt_written)
  have "Ref m = ref" by (simp add: m_def merge_meta_def split: option.split)
  then have rok: "record_ok A (Kek v) (ref, rec)" using dec d by (simp add: record_ok_def) (simp add: rec_def)
  show ?res unfolding w by (rule persist_result)
  show ?inv unfolding w persist_result using vault_ok_put [OF _ rok] ok st by (simp add: v2_def)
  have "value_of A (Kek v) rec = val" by (simp add: value_of_def dec)
  moreover have "metaOf rec = m" by (simp add: metaOf_def rec_def)
  ultimately show ?abs
    unfolding w persist_result by (simp add: v2_def plain_put store_write_def st m_def plain_meta)
  show ?rec unfolding w persist_result by (simp add: v2_def rec_def m_def st)
qed

lemma putLocked_refines:
  assumes "aead_ok A" "rand_ok r" "vault_ok A (fst st)"
  shows "fst (putLocked A io now r ref val meta ow me st) = fst (store_put io now ref val meta ow me (plain A (fst st)))"
    "vault_ok A (fst (snd (putLocked A io now r ref val meta ow me st)))"
    "plain A (fst (snd (putLocked A io now r ref val meta ow me st))) =
       snd (store_put io now ref val meta ow me (plain A (fst st)))"
  using writeLocked_refines(1-3) [OF assms, of io now ref val meta] assms(3)
  by (cases "validatePut ref val meta"; cases "map_of (Secrets (fst st)) ref";
      simp add: putLocked_def store_put_def Let_def store_write_def)+

lemma vault_Upsert_refines:
  assumes "aead_ok A" "rand_ok r" "vault_ok A (fst st)"
  shows "fst (vault_Upsert A io now r ref val meta st) = fst (store_upsert io now ref val meta (plain A (fst st)))"
    "vault_ok A (fst (snd (vault_Upsert A io now r ref val meta st)))"
    "plain A (fst (snd (vault_Upsert A io now r ref val meta st))) =
       snd (store_upsert io now ref val meta (plain A (fst st)))"
proof -
  note w = writeLocked_refines [OF assms, of io now ref val meta]
  obtain e st2 where r: "writeLocked A io now r ref val meta st = (e, st2)" by (cases "writeLocked A io now r ref val meta st")
  obtain rec where rec: "map_of (Secrets (fst st2)) ref = Some rec"
    "VMeta rec = merge_meta now ref meta (map_option VMeta (map_of (Secrets (fst st)) ref))"
    using w(4) r by auto
  have "fst (vault_Upsert A io now r ref val meta st) = fst (store_upsert io now ref val meta (plain A (fst st))) \<and>
     vault_ok A (fst (snd (vault_Upsert A io now r ref val meta st))) \<and>
     plain A (fst (snd (vault_Upsert A io now r ref val meta st))) =
       snd (store_upsert io now ref val meta (plain A (fst st)))"
    using w(1-3) rec assms(3)
    by (auto simp: vault_Upsert_def store_upsert_def r Let_def plain_meta metaOf_def split: option.split)
  then show "fst (vault_Upsert A io now r ref val meta st) = fst (store_upsert io now ref val meta (plain A (fst st)))"
    "vault_ok A (fst (snd (vault_Upsert A io now r ref val meta st)))"
    "plain A (fst (snd (vault_Upsert A io now r ref val meta st))) =
       snd (store_upsert io now ref val meta (plain A (fst st)))" by blast+
qed

lemma decrypt_meta [simp]: "decrypt A kek (rec\<lparr>VMeta := m\<rparr>) = decrypt A kek rec"
  by (simp add: decrypt_def cong: option.case_cong sum.case_cong)

lemma vault_Get_refines:
  assumes ok: "vault_ok A (fst st)"
  shows "fst (vault_Get A io now ref st) = fst (store_get now ref (plain A (fst st)))"
    "vault_ok A (fst (snd (vault_Get A io now ref st)))"
    "plain A (fst (snd (vault_Get A io now ref st))) = snd (store_get now ref (plain A (fst st)))"
proof -
  obtain v fs where st: "st = (v, fs)" by (cases st)
  have "fst (vault_Get A io now ref st) = fst (store_get now ref (plain A (fst st))) \<and>
    vault_ok A (fst (snd (vault_Get A io now ref st))) \<and>
    plain A (fst (snd (vault_Get A io now ref st))) = snd (store_get now ref (plain A (fst st)))"
  proof (cases "map_of (Secrets v) ref")
    case None
    then show ?thesis using ok by (simp add: vault_Get_def store_get_def st plain_def)
  next
    case (Some rec)
    have rok: "record_ok A (Kek v) (ref, rec)" using vault_ok_record ok Some st by simp
    then obtain dek where d: "decrypt A (Kek v) rec = Inr (dek, value_of A (Kek v) rec)"
      "length dek = masterKeyLen" "Ref (VMeta rec) = ref" by (rule record_okD)
    define rec2 where "rec2 = rec\<lparr>VMeta := (VMeta rec)\<lparr>LastUsed := now\<rparr>\<rparr>"
    define v2 where "v2 = v\<lparr>Secrets := al_put ref rec2 (Secrets v)\<rparr>"
    have "record_ok A (Kek v) (ref, rec2)" using d by (simp add: record_ok_def rec2_def)
    then have i: "vault_ok A v2" using vault_ok_put ok st by (simp add: v2_def)
    have "value_of A (Kek v) rec2 = value_of A (Kek v) rec" by (simp add: value_of_def rec2_def)
    then have p: "plain A v2 = (plain A v)(ref \<mapsto> (value_of A (Kek v) rec, metaOf rec2))"
      by (simp add: v2_def plain_put)
    obtain fl fs2 where g: "vault_Get A io now ref st = (Inr (value_of A (Kek v) rec, metaOf rec2), (v2\<lparr>lastUsedFlushed := fl\<rparr>, fs2))"
    proof (cases "case map_of (lastUsedFlushed v) ref of None \<Rightarrow> True | Some t \<Rightarrow> now - t \<ge> lastUsedFlushInterval")
      case True
      obtain e v3 fs3 where q: "persist io (v2, fs) = (e, v3, fs3)" by (cases "persist io (v2, fs)") auto
      then have "v3 = v2" using persist_result(2) [of io "(v2, fs)"] by simp
      with True q Some d(1) show ?thesis
        by (intro that) (simp add: vault_Get_def st Let_def rec2_def v2_def)
    next
      case False
      with Some d(1) show ?thesis
        by (intro that [of "lastUsedFlushed v2" fs]) (simp add: vault_Get_def st Let_def rec2_def v2_def)
    qed
    show ?thesis using Some i p by (simp add: g [unfolded st] store_get_def st plain_def [of A v ref] metaOf_def rec2_def)
  qed
  then show "fst (vault_Get A io now ref st) = fst (store_get now ref (plain A (fst st)))"
    "vault_ok A (fst (snd (vault_Get A io now ref st)))"
    "plain A (fst (snd (vault_Get A io now ref st))) = snd (store_get now ref (plain A (fst st)))" by blast+
qed

lemma vault_Delete_refines:
  assumes "vault_ok A (fst st)"
  shows "fst (vault_Delete io ref st) = fst (store_delete io ref (plain A (fst st)))"
    "vault_ok A (fst (snd (vault_Delete io ref st)))"
    "plain A (fst (snd (vault_Delete io ref st))) = snd (store_delete io ref (plain A (fst st)))"
proof -
  obtain v fs where st: "st = (v, fs)" by (cases st)
  define v2 where "v2 = v\<lparr>Secrets := al_del ref (Secrets v), lastUsedFlushed := al_del ref (lastUsedFlushed v)\<rparr>"
  have v2: "vault_ok A v2" "plain A v2 = (plain A v)(ref := None)"
    using assms by (simp_all add: v2_def st vault_ok_del plain_del)
  have d: "vault_Delete io ref st =
      (if map_of (Secrets v) ref = None then (Some (NotFound ref), st) else persist io (v2, fs))"
    by (simp add: vault_Delete_def st v2_def)
  have "fst (vault_Delete io ref st) = fst (store_delete io ref (plain A (fst st))) \<and>
     vault_ok A (fst (snd (vault_Delete io ref st))) \<and>
     plain A (fst (snd (vault_Delete io ref st))) = snd (store_delete io ref (plain A (fst st)))"
    unfolding d using assms v2 by (simp add: store_delete_def st persist_result)
  then show "fst (vault_Delete io ref st) = fst (store_delete io ref (plain A (fst st)))"
    "vault_ok A (fst (snd (vault_Delete io ref st)))"
    "plain A (fst (snd (vault_Delete io ref st))) = snd (store_delete io ref (plain A (fst st)))" by blast+
qed

lemma vault_List_refines:
  assumes "vault_ok A v"
  shows "vault_List v = store_list (plain A v)"
proof -
  let ?L = "vault_List v"
  have ref: "Ref (metaOf (snd p)) = fst p" if "p \<in> set (Secrets v)" for p
    using assms that by (auto simp: vault_ok_def list_all_iff record_ok_def metaOf_def)
  have d: "distinct (map fst (Secrets v))" using assms by (simp add: vault_ok_def)
  have keys: "map Ref (map (metaOf \<circ> snd) (Secrets v)) = map fst (Secrets v)" using ref by simp
  have dom: "dom (plain A v) = fst ` set (Secrets v)"
    by (auto simp: plain_def dom_def map_of_eq_None_iff dest: map_of_SomeD)
  have set: "set ?L = (metaOf \<circ> snd) ` set (Secrets v)" by (simp add: vault_List_def)
  then have "set (map Ref ?L) = dom (plain A v)"
    unfolding dom by (simp add: image_image ref)
  moreover have "sorted (map Ref ?L)" by (simp add: vault_List_def)
  moreover have "distinct (map Ref ?L)"
    using d unfolding keys [symmetric] by (simp only: distinct_map vault_List_def distinct_sort set_sort)
  ultimately have L: "map Ref ?L = sorted_list_of_set (dom (plain A v))"
    by (metis sorted_list_of_set_sort_remdups distinct_remdups_id sort_key_id_if_sorted map_ident)
  have "snd (the (plain A v (Ref m))) = m" if "m \<in> set ?L" for m
  proof -
    have "m \<in> (metaOf \<circ> snd) ` set (Secrets v)" using that set by simp
    then obtain p where p: "p \<in> set (Secrets v)" "m = metaOf (snd p)" by auto
    then have "map_of (Secrets v) (Ref m) = Some (snd p)" using d ref [OF p(1)] by (metis map_of_is_SomeI prod.collapse)
    then show ?thesis using p by (simp add: plain_def)
  qed
  then have "map (\<lambda>ref. snd (the (plain A v ref))) (map Ref ?L) = ?L" by (simp add: map_idI)
  then show ?thesis unfolding store_list_def L [symmetric] by simp
qed

subsection \<open>Rotating the master key\<close>

lemma rewrap_record_ok:
  assumes A: "aead_ok A" and n: "filled nonceSize nonce" and k: "length newKEK = masterKeyLen"
    and ok: "record_ok A kek (ref, r)"
  obtains r2 where "rewrap_record A nonce kek newKEK r = Inr r2" "record_ok A newKEK (ref, r2)"
    "value_of A newKEK r2 = value_of A kek r" "VMeta r2 = VMeta r" "SealedValue r2 = SealedValue r"
proof -
  obtain dek x where d: "decrypt A kek r = Inr (dek, x)" "length dek = masterKeyLen" "Ref (VMeta r) = ref"
    using ok by (rule record_okD)
  then have x: "value_of A kek r = x" by (simp add: value_of_def)
  obtain wrapped where w: "b64_decode StdAlphabet True (WrappedDEK r) = Some wrapped" "gcmOpen A kek wrapped = Inr dek"
    using d(1) by (auto simp: decrypt_def split: option.splits sum.splits)
  obtain nn where nn: "nonce = Some nn" "length nn = nonceSize" using n by (rule filledE)
  define r2 where "r2 = r\<lparr>WrappedDEK := b64_encode (nn @ Seal A newKEK nn dek)\<rparr>"
  have rw: "rewrap_record A nonce kek newKEK r = Inr r2"
    using A k nn by (simp add: rewrap_record_def w gcm_round_trip r2_def)
  have dec: "decrypt A newKEK r2 = Inr (dek, x)"
    using A k nn d(1) w by (simp add: decrypt_def r2_def gcm_round_trip split: option.splits sum.splits)
  show thesis
    by (rule that [OF rw]) (use d dec x in \<open>simp_all add: record_ok_def value_of_def r2_def\<close>)
qed

text \<open>The rewrapped secrets: the same references, values, metadata and sealed values, in the same order.\<close>

lemma rewrap_ok:
  assumes A: "aead_ok A" and n: "\<And>ref. filled nonceSize (nonces ref)" and k: "length newKEK = masterKeyLen"
  shows "list_all (record_ok A kek) ss \<Longrightarrow> \<exists>ss2. rewrap A nonces kek newKEK ss = Inr ss2 \<and>
     list_all (record_ok A newKEK) ss2 \<and> map fst ss2 = map fst ss \<and>
     map (\<lambda>p. SealedValue (snd p)) ss2 = map (\<lambda>p. SealedValue (snd p)) ss \<and>
     map (\<lambda>(ref, r). (ref, value_of A newKEK r, metaOf r)) ss2 = map (\<lambda>(ref, r). (ref, value_of A kek r, metaOf r)) ss"
proof (induction ss)
  case (Cons p ss)
  obtain ref r where p: "p = (ref, r)" by (cases p)
  have "record_ok A kek (ref, r)" using Cons.prems p by simp
  then obtain r2 where r2: "rewrap_record A (nonces ref) kek newKEK r = Inr r2" "record_ok A newKEK (ref, r2)"
    "value_of A newKEK r2 = value_of A kek r" "VMeta r2 = VMeta r" "SealedValue r2 = SealedValue r"
    using rewrap_record_ok [OF A n k] by metis
  have m: "metaOf r2 = metaOf r" using r2(4) by (simp add: metaOf_def)
  obtain ss2 where ss2: "rewrap A nonces kek newKEK ss = Inr ss2"
    "list_all (record_ok A newKEK) ss2" "map fst ss2 = map fst ss"
    "map (\<lambda>p. SealedValue (snd p)) ss2 = map (\<lambda>p. SealedValue (snd p)) ss"
    "map (\<lambda>(ref, r). (ref, value_of A newKEK r, metaOf r)) ss2 = map (\<lambda>(ref, r). (ref, value_of A kek r, metaOf r)) ss"
    using Cons by auto
  show ?case
    by (rule exI [of _ "(ref, r2) # ss2"]) (simp add: p r2 ss2 m)
qed simp

lemma plain_map: "plain A v = map_of (map (\<lambda>(ref, r). (ref, value_of A (Kek v) r, metaOf r)) (Secrets v))"
proof -
  have "map_of (map (\<lambda>(ref, r). (ref, f r)) ss) ref = map_option f (map_of ss ref)" for f :: "vrecord \<Rightarrow> string \<times> SecretMeta" and ss :: "(string \<times> vrecord) list" and ref
    by (induction ss) auto
  then show ?thesis by (simp add: fun_eq_iff plain_def)
qed

lemma RotateMasterKey_refines:
  assumes A: "aead_ok A" and n: "\<And>ref. filled nonceSize (nonces ref)" and ok: "vault_ok A (fst st)"
  shows "fst (RotateMasterKey A io nonces newKEK st) =
      (if length newKEK \<noteq> masterKeyLen then Some (InvalidInput ''new master key'') else disk_error io)" (is ?res)
    "vault_ok A (fst (snd (RotateMasterKey A io nonces newKEK st)))" (is ?inv)
    "plain A (fst (snd (RotateMasterKey A io nonces newKEK st))) = plain A (fst st)" (is ?abs)
    "fst (RotateMasterKey A io nonces newKEK st) \<noteq> None \<Longrightarrow> fst (snd (RotateMasterKey A io nonces newKEK st)) = fst st"
    "fst (RotateMasterKey A io nonces newKEK st) = None \<Longrightarrow>
       \<exists>ss. fst (snd (RotateMasterKey A io nonces newKEK st)) = (fst st)\<lparr>Secrets := ss, Kek := newKEK\<rparr> \<and>
         map fst ss = map fst (Secrets (fst st)) \<and> map (\<lambda>p. SealedValue (snd p)) ss = map (\<lambda>p. SealedValue (snd p)) (Secrets (fst st)) \<and>
         RotateMasterKey A io nonces newKEK st = persist io ((fst st)\<lparr>Secrets := ss, Kek := newKEK\<rparr>, snd st)"
proof -
  let ?r = "RotateMasterKey A io nonces newKEK st"
  obtain v fs where st: "st = (v, fs)" by (cases st)
  have all: "?res \<and> ?inv \<and> ?abs \<and> (fst ?r \<noteq> None \<longrightarrow> fst (snd ?r) = fst st) \<and>
    (fst ?r = None \<longrightarrow> (\<exists>ss. fst (snd ?r) = (fst st)\<lparr>Secrets := ss, Kek := newKEK\<rparr> \<and>
         map fst ss = map fst (Secrets (fst st)) \<and> map (\<lambda>p. SealedValue (snd p)) ss = map (\<lambda>p. SealedValue (snd p)) (Secrets (fst st)) \<and>
         ?r = persist io ((fst st)\<lparr>Secrets := ss, Kek := newKEK\<rparr>, snd st)))"
  proof (cases "length newKEK = masterKeyLen")
    case False
    then show ?thesis using ok by (simp add: RotateMasterKey_def st)
  next
    case True
    obtain ss where ss: "rewrap A nonces (Kek v) newKEK (Secrets v) = Inr ss"
      "list_all (record_ok A newKEK) ss" "map fst ss = map fst (Secrets v)"
      "map (\<lambda>p. SealedValue (snd p)) ss = map (\<lambda>p. SealedValue (snd p)) (Secrets v)"
      "map (\<lambda>(ref, r). (ref, value_of A newKEK r, metaOf r)) ss =
         map (\<lambda>(ref, r). (ref, value_of A (Kek v) r, metaOf r)) (Secrets v)"
      using rewrap_ok [where nonces = nonces and kek = "Kek v" and ss = "Secrets v", OF A n True] ok by (auto simp: vault_ok_def st)
    define v2 where "v2 = v\<lparr>Secrets := ss, Kek := newKEK\<rparr>"
    have v2: "vault_ok A v2" "plain A v2 = plain A v"
      using ss ok True by (simp_all add: v2_def vault_ok_def plain_map st)
    obtain e v3 fs3 where q: "persist io (v2, fs) = (e, v3, fs3)" by (cases "persist io (v2, fs)") auto
    have e: "e = disk_error io" "v3 = v2" using persist_result [of io "(v2, fs)"] q by simp_all
    have restored: "v2\<lparr>Secrets := Secrets v, Kek := Kek v\<rparr> = v" by (simp add: v2_def)
    have r: "?r = (case e of Some e \<Rightarrow> (Some e, (v, fs3)) | None \<Rightarrow> (None, (v2, fs3)))"
      using True ss(1) q [unfolded e v2_def] restored [unfolded v2_def]
      by (simp add: RotateMasterKey_def st e v2_def split: option.split)
    have k: "Secrets (fst st) = Secrets v" "length newKEK = masterKeyLen" using True by (simp_all add: st)
    show ?thesis
    proof (cases e)
      case None
      then have "?r = persist io ((fst st)\<lparr>Secrets := ss, Kek := newKEK\<rparr>, snd st)"
        using r q e by (simp add: st v2_def)
      then show ?thesis using r None e v2 k ss(3,4) st by (auto simp: v2_def)
    next
      case (Some x)
      then show ?thesis using r e v2 k ok st by simp
    qed
  qed
  then show ?res ?inv ?abs by blast+
  show "fst ?r \<noteq> None \<Longrightarrow> fst (snd ?r) = fst st" using all by blast
  show "fst ?r = None \<Longrightarrow>
       \<exists>ss. fst (snd ?r) = (fst st)\<lparr>Secrets := ss, Kek := newKEK\<rparr> \<and>
         map fst ss = map fst (Secrets (fst st)) \<and> map (\<lambda>p. SealedValue (snd p)) ss = map (\<lambda>p. SealedValue (snd p)) (Secrets (fst st)) \<and>
         ?r = persist io ((fst st)\<lparr>Secrets := ss, Kek := newKEK\<rparr>, snd st)" using all by blast
qed

end
