(* ===== verification/Vault_Safety.thy ===== *)
theory Vault_Safety
  imports Vault_Store
begin

text \<open>
  The vault as a whole: any sequence of commands answers as the abstract map does, a command that
  succeeded is on disk, and a rotation of the master key happens entirely or not at all.
\<close>

subsection \<open>Commands\<close>

datatype vault_cmd =
    CmdPut string string PutMeta bool
  | CmdUpdate string string PutMeta
  | CmdUpsert string string PutMeta
  | CmdGet string
  | CmdList
  | CmdDelete string
  | CmdRotate string

text \<open>What the environment decides while a command runs: the clock, the system calls, the random bytes.\<close>

record outside =
  At :: int
  Sys :: "io_step \<Rightarrow> bool"
  Rand :: write_rand
  Nonces :: "string \<Rightarrow> string option"

datatype vault_answer = Nil_err | Err vault_error | Secret string SecretMeta | Metas "SecretMeta list" | StoredMeta SecretMeta bool

definition err_answer :: "vault_error option \<Rightarrow> vault_answer" where
  "err_answer e = (case e of None \<Rightarrow> Nil_err | Some e \<Rightarrow> Err e)"

fun vault_exec :: "aead \<Rightarrow> outside \<Rightarrow> vault_cmd \<Rightarrow> vstate \<Rightarrow> vault_answer \<times> vstate" where
  "vault_exec A w (CmdPut ref val meta ow) st = map_prod err_answer id (vault_Put A (Sys w) (At w) (Rand w) ref val meta ow st)"
| "vault_exec A w (CmdUpdate ref val meta) st = map_prod err_answer id (vault_Update A (Sys w) (At w) (Rand w) ref val meta st)"
| "vault_exec A w (CmdUpsert ref val meta) st =
     map_prod (case_sum Err (\<lambda>(m, b). StoredMeta m b)) id (vault_Upsert A (Sys w) (At w) (Rand w) ref val meta st)"
| "vault_exec A w (CmdGet ref) st = map_prod (case_sum Err (\<lambda>(x, m). Secret x m)) id (vault_Get A (Sys w) (At w) ref st)"
| "vault_exec A w CmdList st = (Metas (vault_List (fst st)), st)"
| "vault_exec A w (CmdDelete ref) st = map_prod err_answer id (vault_Delete (Sys w) ref st)"
| "vault_exec A w (CmdRotate key) st = map_prod err_answer id (RotateMasterKey A (Sys w) (Nonces w) key st)"

fun store_exec :: "outside \<Rightarrow> vault_cmd \<Rightarrow> store \<Rightarrow> vault_answer \<times> store" where
  "store_exec w (CmdPut ref val meta ow) s = map_prod err_answer id (store_put (Sys w) (At w) ref val meta ow False s)"
| "store_exec w (CmdUpdate ref val meta) s = map_prod err_answer id (store_put (Sys w) (At w) ref val meta True True s)"
| "store_exec w (CmdUpsert ref val meta) s =
     map_prod (case_sum Err (\<lambda>(m, b). StoredMeta m b)) id (store_upsert (Sys w) (At w) ref val meta s)"
| "store_exec w (CmdGet ref) s = map_prod (case_sum Err (\<lambda>(x, m). Secret x m)) id (store_get (At w) ref s)"
| "store_exec w CmdList s = (Metas (store_list s), s)"
| "store_exec w (CmdDelete ref) s = map_prod err_answer id (store_delete (Sys w) ref s)"
| "store_exec w (CmdRotate key) s =
     (if length key \<noteq> masterKeyLen then (Err (InvalidInput ''new master key''), s) else (err_answer (disk_error (Sys w)), s))"

fun exec_all :: "('w \<Rightarrow> 'c \<Rightarrow> 's \<Rightarrow> 'a \<times> 's) \<Rightarrow> ('w \<times> 'c) list \<Rightarrow> 's \<Rightarrow> 'a list \<times> 's" where
  "exec_all f [] s = ([], s)"
| "exec_all f ((w, c) # cs) s = (let (a, s) = f w c s; (as, s) = exec_all f cs s in (a # as, s))"

definition outside_ok :: "outside \<Rightarrow> bool" where
  "outside_ok w \<longleftrightarrow> rand_ok (Rand w) \<and> (\<forall>ref. filled nonceSize (Nonces w ref))"

lemma vault_exec_refines:
  assumes A: "aead_ok A" and w: "outside_ok w" and ok: "vault_ok A (fst st)"
  shows "fst (vault_exec A w c st) = fst (store_exec w c (plain A (fst st)))"
    "vault_ok A (fst (snd (vault_exec A w c st)))"
    "plain A (fst (snd (vault_exec A w c st))) = snd (store_exec w c (plain A (fst st)))"
proof -
  have r: "rand_ok (Rand w)" and n: "\<And>ref. filled nonceSize (Nonces w ref)" using w by (auto simp: outside_ok_def)
  have "fst (vault_exec A w c st) = fst (store_exec w c (plain A (fst st))) \<and>
    vault_ok A (fst (snd (vault_exec A w c st))) \<and>
    plain A (fst (snd (vault_exec A w c st))) = snd (store_exec w c (plain A (fst st)))"
  proof (cases c)
    case (CmdPut ref x meta ow)
    then show ?thesis using putLocked_refines [OF A r ok] by (simp add: vault_Put_def)
  next
    case (CmdUpdate ref x meta)
    then show ?thesis using putLocked_refines [OF A r ok] by (simp add: vault_Update_def)
  next
    case (CmdUpsert ref x meta)
    then show ?thesis using vault_Upsert_refines [OF A r ok] by simp
  next
    case (CmdGet ref)
    then show ?thesis using vault_Get_refines [OF ok] by simp
  next
    case CmdList
    then show ?thesis using vault_List_refines [OF ok] ok by simp
  next
    case (CmdDelete ref)
    then show ?thesis using vault_Delete_refines [OF ok] by simp
  next
    case (CmdRotate key)
    then show ?thesis using RotateMasterKey_refines(1-3) [where nonces = "Nonces w", OF A n ok] by (simp add: err_answer_def)
  qed
  then show "fst (vault_exec A w c st) = fst (store_exec w c (plain A (fst st)))"
    "vault_ok A (fst (snd (vault_exec A w c st)))"
    "plain A (fst (snd (vault_exec A w c st))) = snd (store_exec w c (plain A (fst st)))" by blast+
qed

lemma exec_all_refines:
  assumes A: "aead_ok A"
  shows "list_all (\<lambda>p. outside_ok (fst p)) cs \<Longrightarrow> vault_ok A (fst st) \<Longrightarrow>
     fst (exec_all (vault_exec A) cs st) = fst (exec_all store_exec cs (plain A (fst st))) \<and>
     vault_ok A (fst (snd (exec_all (vault_exec A) cs st))) \<and>
     plain A (fst (snd (exec_all (vault_exec A) cs st))) = snd (exec_all store_exec cs (plain A (fst st)))"
proof (induction cs arbitrary: st)
  case (Cons p cs)
  obtain w c where p: "p = (w, c)" by (cases p)
  have w: "outside_ok w" using Cons.prems(1) p by simp
  note e = vault_exec_refines [OF A w Cons.prems(2), of c]
  obtain a st2 where s: "vault_exec A w c st = (a, st2)" by (cases "vault_exec A w c st")
  have "list_all (\<lambda>p. outside_ok (fst p)) cs" "vault_ok A (fst st2)" using Cons.prems(1) e(2) s by simp_all
  from Cons.IH [OF this] e s show ?case by (simp add: p Let_def case_prod_beta)
qed simp

subsection \<open>What is on disk\<close>

lemma as_json_valid: "valid_utf8 s \<Longrightarrow> as_json s = s"
proof (induction s rule: as_json.induct)
  case (1 s)
  show ?case
  proof (cases "s = []")
    case True
    then show ?thesis by (simp add: as_json.simps)
  next
    case False
    with 1(3) have "rune_len s \<noteq> 0" "valid_utf8 (drop (rune_len s) s)"
      by (simp_all add: valid_utf8.simps [of s] split: if_splits)
    with 1(2) False show ?thesis by (subst as_json.simps) simp
  qed
qed

definition text_ok :: "vault \<Rightarrow> bool" where
  "text_ok v \<longleftrightarrow> map json_record (Secrets v) = Secrets v"

definition put_text_ok :: "PutMeta \<Rightarrow> bool" where
  "put_text_ok m \<longleftrightarrow> valid_utf8 (PutProvider m) \<and> valid_utf8 (PutScope m) \<and> valid_utf8 (PutTTL m)"

lemma text_ok_iff: "text_ok v \<longleftrightarrow> list_all (\<lambda>p. json_record p = p) (Secrets v)"
  by (simp add: text_ok_def list_all_iff map_idI list_eq_iff_nth_eq all_set_conv_all_nth)

lemma b64_encode_ascii: "ascii (b64_encode s)"
proof -
  have c: "(of_char (b64_char StdAlphabet n) :: nat) < 128" if "n < 64" for n
    using that by (auto simp: b64_char_def encode_of_char_byte)
  show ?thesis
    by (induction s rule: b64_encode.induct) (simp_all add: ascii_def Let_def c char_sextets)
qed

lemma ref_char_ascii: "ref_char c \<Longrightarrow> (of_char c :: nat) < 128"
  by (auto simp: ref_char_def less_eq_char_def)

lemma validRef_ascii: "validRef ref = None \<Longrightarrow> ascii ref"
  by (auto simp: validRef_def ascii_def list_all_iff ref_char_ascii split: if_splits)

lemma json_record_written:
  assumes "valid_utf8 (Ref m)" "valid_utf8 (MetaProvider m)" "valid_utf8 (MetaScope m)" "valid_utf8 (MetaTTL m)"
  shows "json_record (Ref m, \<lparr>VMeta = m, WrappedDEK = b64_encode a, SealedValue = b64_encode b\<rparr>) =
     (Ref m, \<lparr>VMeta = m, WrappedDEK = b64_encode a, SealedValue = b64_encode b\<rparr>)"
  using assms by (simp add: json_record_def json_meta_def as_json_valid ascii_valid_utf8 b64_encode_ascii)

definition writes :: "vault_cmd \<Rightarrow> bool" where
  "writes c = (case c of CmdGet ref \<Rightarrow> False | CmdList \<Rightarrow> False | _ \<Rightarrow> True)"

fun cmd_text_ok :: "vault_cmd \<Rightarrow> bool" where
  "cmd_text_ok (CmdPut ref val meta ow) = put_text_ok meta"
| "cmd_text_ok (CmdUpdate ref val meta) = put_text_ok meta"
| "cmd_text_ok (CmdUpsert ref val meta) = put_text_ok meta"
| "cmd_text_ok _ = True"

lemma persist_disk:
  assumes "persist io (v, fs) = (None, st2)"
  shows "snd st2 = fs(VPath v \<mapsto> FsFile 0x180 True (Doc (Version v) (map json_record (Secrets v))))" "fst st2 = v"
  using assms by (auto simp: persist_def install_file_def split: option.splits)

text \<open>A persisted vault opens again, under its key, with the secrets it held.\<close>

lemma reopen:
  assumes p: "persist io (v, fs) = (None, st2)" and utf: "text_ok v" and path: "VPath v \<noteq> []"
    and key: "MasterKey h ks = Inr (Kek v)" and len: "length (Kek v) = masterKeyLen"
  shows "OpenVault h (snd st2) (VPath v) ks = Inr (v\<lparr>lastUsedFlushed := []\<rparr>)"
  using persist_disk [OF p] utf path key len by (simp add: OpenVault_def vault_load_def text_ok_def)

lemma text_ok_put:
  assumes "text_ok v" "json_record (ref, r) = (ref, r)"
  shows "text_ok (v\<lparr>Secrets := al_put ref r (Secrets v)\<rparr>)"
  using assms by (simp add: text_ok_iff list_all_al_put)

lemma text_ok_flushed [simp]: "text_ok (v\<lparr>lastUsedFlushed := fl\<rparr>) = text_ok v" "text_ok (v\<lparr>Kek := k\<rparr>) = text_ok v"
  by (simp_all add: text_ok_def)

lemma text_ok_del: "text_ok v \<Longrightarrow> text_ok (v\<lparr>Secrets := al_del ref (Secrets v)\<rparr>)"
  by (auto simp: text_ok_iff al_del_def list_all_iff)

lemma stored_meta_text:
  assumes "text_ok v" "map_of (Secrets v) ref = Some r"
  shows "as_json (MetaProvider (VMeta r)) = MetaProvider (VMeta r)" "as_json (MetaScope (VMeta r)) = MetaScope (VMeta r)"
    "as_json (MetaTTL (VMeta r)) = MetaTTL (VMeta r)"
proof -
  have "json_record (ref, r) = (ref, r)"
    using assms map_of_SomeD by (fastforce simp: text_ok_iff list_all_iff)
  then have "VMeta (snd (json_record (ref, r))) = VMeta r" by simp
  then have j: "json_meta (VMeta r) = VMeta r" by (simp add: json_record_def)
  show "as_json (MetaProvider (VMeta r)) = MetaProvider (VMeta r)" "as_json (MetaScope (VMeta r)) = MetaScope (VMeta r)"
    "as_json (MetaTTL (VMeta r)) = MetaTTL (VMeta r)"
    using arg_cong [OF j, of MetaProvider] arg_cong [OF j, of MetaScope] arg_cong [OF j, of MetaTTL]
    by (simp_all add: json_meta_def)
qed

text \<open>The state a successful write leaves was persisted as it is, and can be read back.\<close>

definition durable :: "(io_step \<Rightarrow> bool) \<Rightarrow> vstate \<Rightarrow> vstate \<Rightarrow> bool" where
  "durable io st st2 \<longleftrightarrow> persist io (fst st2, snd st) = (None, st2) \<and> text_ok (fst st2) \<and> VPath (fst st2) = VPath (fst st)"

lemma persist_durable:
  assumes "persist io (v, snd st) = (None, st2)" "text_ok v" "VPath v = VPath (fst st)"
  shows "durable io st st2"
  using assms persist_disk(2) [of io v "snd st" st2] by (simp add: durable_def)

lemma json_record_text:
  assumes "as_json ref = ref" "as_json (Ref m) = Ref m" "as_json (MetaProvider m) = MetaProvider m"
    "as_json (MetaScope m) = MetaScope m" "as_json (MetaTTL m) = MetaTTL m"
  shows "json_record (ref, \<lparr>VMeta = m, WrappedDEK = b64_encode a, SealedValue = b64_encode b\<rparr>) =
     (ref, \<lparr>VMeta = m, WrappedDEK = b64_encode a, SealedValue = b64_encode b\<rparr>)"
  using assms by (simp add: json_record_def json_meta_def as_json_valid ascii_valid_utf8 b64_encode_ascii)

lemma writeLocked_durable:
  assumes w: "writeLocked A io now r ref val meta st = (None, st2)"
    and utf: "text_ok (fst st)" "put_text_ok meta" "validRef ref = None"
  shows "durable io st st2"
proof -
  obtain v fs where st: "st = (v, fs)" by (cases st)
  define m where "m = merge_meta now ref meta (map_option VMeta (map_of (Secrets v) ref))"
  obtain a b where p: "persist io (v\<lparr>Secrets := al_put ref \<lparr>VMeta = m, WrappedDEK = b64_encode a, SealedValue = b64_encode b\<rparr> (Secrets v),
      lastUsedFlushed := al_del ref (lastUsedFlushed v)\<rparr>, fs) = (None, st2)"
    using w by (auto simp: writeLocked_def st m_def Let_def split: option.splits sum.splits)
  have j: "as_json ref = ref" using utf(3) by (simp add: as_json_valid validRef_ascii ascii_valid_utf8)
  have e: "as_json (PutProvider meta) = PutProvider meta" "as_json (PutScope meta) = PutScope meta" "as_json (PutTTL meta) = PutTTL meta"
    using utf(2) by (simp_all add: put_text_ok_def as_json_valid)
  have "as_json (Ref m) = Ref m \<and> as_json (MetaProvider m) = MetaProvider m \<and> as_json (MetaScope m) = MetaScope m \<and>
      as_json (MetaTTL m) = MetaTTL m"
  proof (cases "map_of (Secrets v) ref")
    case None
    then show ?thesis using j e by (simp add: m_def merge_meta_def)
  next
    case (Some r)
    then show ?thesis using j e stored_meta_text [of v ref r] utf(1) by (simp add: m_def merge_meta_def st)
  qed
  then have "text_ok (v\<lparr>Secrets := al_put ref \<lparr>VMeta = m, WrappedDEK = b64_encode a, SealedValue = b64_encode b\<rparr> (Secrets v)\<rparr>)"
    using utf(1) st j by (intro text_ok_put) (simp_all add: json_record_text)
  then show ?thesis
    using persist_durable [where st = st and v = "v\<lparr>Secrets := al_put ref \<lparr>VMeta = m, WrappedDEK = b64_encode a,
      SealedValue = b64_encode b\<rparr> (Secrets v), lastUsedFlushed := al_del ref (lastUsedFlushed v)\<rparr>"] p
    by (simp add: st)
qed

lemma putLocked_durable:
  assumes "putLocked A io now r ref val meta ow me st = (None, st2)" "text_ok (fst st)" "put_text_ok meta"
  shows "durable io st st2"
proof -
  have "validatePut ref val meta = None" using assms(1) by (auto simp: putLocked_def split: option.splits)
  moreover from this have "validRef ref = None" by (auto simp: validatePut_def split: option.splits)
  moreover have "writeLocked A io now r ref val meta st = (None, st2)"
    using assms(1) calculation(1) by (auto simp: putLocked_def Let_def split: if_splits)
  ultimately show ?thesis using writeLocked_durable assms(2,3) by blast
qed

lemma json_record_rewrapped:
  assumes "json_record (ref, r) = (ref, r)"
  shows "json_record (ref, r\<lparr>WrappedDEK := b64_encode a\<rparr>) = (ref, r\<lparr>WrappedDEK := b64_encode a\<rparr>)"
proof -
  have f: "fst (json_record (ref, r)) = ref" "VMeta (snd (json_record (ref, r))) = VMeta r"
    "SealedValue (snd (json_record (ref, r))) = SealedValue r" using assms by simp_all
  show ?thesis
    using f by (cases r) (simp add: json_record_def as_json_valid ascii_valid_utf8 b64_encode_ascii)
qed

lemma rewrap_record_text:
  assumes "rewrap_record A nonce kek newKEK r = Inr r2" "json_record (ref, r) = (ref, r)"
  shows "json_record (ref, r2) = (ref, r2)"
proof -
  obtain a where "r2 = r\<lparr>WrappedDEK := b64_encode a\<rparr>"
    using assms(1) by (auto simp: rewrap_record_def split: option.splits sum.splits)
  then show ?thesis using json_record_rewrapped [OF assms(2)] by simp
qed

lemma rewrap_text:
  "rewrap A nonces kek newKEK ss = Inr ss2 \<Longrightarrow> list_all (\<lambda>p. json_record p = p) ss \<Longrightarrow> list_all (\<lambda>p. json_record p = p) ss2"
proof (induction ss arbitrary: ss2)
  case (Cons p ss)
  obtain ref r where p: "p = (ref, r)" by (cases p)
  obtain r2 where r2: "rewrap_record A (nonces ref) kek newKEK r = Inr r2"
    using Cons.prems(1) p by (cases "rewrap_record A (nonces ref) kek newKEK r") simp_all
  obtain ss3 where ss3: "rewrap A nonces kek newKEK ss = Inr ss3"
    using Cons.prems(1) p r2 by (cases "rewrap A nonces kek newKEK ss") simp_all
  have "ss2 = (ref, r2) # ss3" using Cons.prems(1) p r2 ss3 by simp
  then show ?case using Cons.IH [OF ss3] Cons.prems(2) rewrap_record_text [OF r2] p by simp
qed simp

lemma RotateMasterKey_durable:
  assumes "RotateMasterKey A io nonces newKEK st = (None, st2)" "text_ok (fst st)"
  shows "durable io st st2" "Kek (fst st2) = newKEK"
proof -
  obtain v fs where st: "st = (v, fs)" by (cases st)
  have len: "length newKEK = masterKeyLen" using assms(1) by (auto simp: RotateMasterKey_def st split: if_splits)
  obtain ss where ss: "rewrap A nonces (Kek v) newKEK (Secrets v) = Inr ss"
    using assms(1) len by (cases "rewrap A nonces (Kek v) newKEK (Secrets v)") (simp_all add: RotateMasterKey_def st)
  have p: "persist io (v\<lparr>Secrets := ss, Kek := newKEK\<rparr>, fs) = (None, st2)"
    using assms(1) len ss by (auto simp: RotateMasterKey_def st split: prod.splits option.splits)
  have "text_ok (v\<lparr>Secrets := ss, Kek := newKEK\<rparr>)"
    using rewrap_text [OF ss] assms(2) by (simp add: st text_ok_iff)
  then show "durable io st st2"
    using persist_durable [where st = st and v = "v\<lparr>Secrets := ss, Kek := newKEK\<rparr>"] p by (simp add: st)
  show "Kek (fst st2) = newKEK" using persist_disk(2) [OF p] by simp
qed

lemma vault_Delete_durable:
  assumes "vault_Delete io ref st = (None, st2)" "text_ok (fst st)"
  shows "durable io st st2"
proof -
  obtain v fs where st: "st = (v, fs)" by (cases st)
  have "persist io (v\<lparr>Secrets := al_del ref (Secrets v), lastUsedFlushed := al_del ref (lastUsedFlushed v)\<rparr>, fs) = (None, st2)"
    using assms(1) by (simp add: vault_Delete_def st split: if_splits)
  then show ?thesis
    using persist_durable [where st = st and v = "v\<lparr>Secrets := al_del ref (Secrets v), lastUsedFlushed := al_del ref (lastUsedFlushed v)\<rparr>"]
      text_ok_del assms(2) by (simp add: st)
qed

lemma vault_Upsert_durable:
  assumes "vault_Upsert A io now r ref val meta st = (Inr x, st2)" "text_ok (fst st)" "put_text_ok meta"
  shows "durable io st st2"
proof -
  have "validatePut ref val meta = None" using assms(1) by (auto simp: vault_Upsert_def split: option.splits)
  moreover from this have "validRef ref = None" by (auto simp: validatePut_def split: option.splits)
  moreover have "writeLocked A io now r ref val meta st = (None, st2)"
    using assms(1) calculation(1) by (auto simp: vault_Upsert_def Let_def split: prod.splits option.splits)
  ultimately show ?thesis using writeLocked_durable assms(2,3) by blast
qed

lemma err_answer_Err [simp]: "(\<forall>e. err_answer x \<noteq> Err e) \<longleftrightarrow> x = None"
  by (cases x) (simp_all add: err_answer_def)

lemma vault_exec_durable:
  assumes "vault_exec A w c st = (a, st2)" "\<And>e. a \<noteq> Err e" "writes c" "cmd_text_ok c" "text_ok (fst st)"
  shows "durable (Sys w) st st2"
proof (cases c)
  case (CmdPut ref x meta ow)
  then obtain e where e: "vault_Put A (Sys w) (At w) (Rand w) ref x meta ow st = (e, st2)" "a = err_answer e"
    using assms(1) by (cases "vault_Put A (Sys w) (At w) (Rand w) ref x meta ow st") auto
  then have "e = None" using assms(2) by (cases e) (auto simp: err_answer_def)
  then show ?thesis using putLocked_durable e assms CmdPut unfolding vault_Put_def by fastforce
next
  case (CmdUpdate ref x meta)
  then obtain e where e: "vault_Update A (Sys w) (At w) (Rand w) ref x meta st = (e, st2)" "a = err_answer e"
    using assms(1) by (cases "vault_Update A (Sys w) (At w) (Rand w) ref x meta st") auto
  then have "e = None" using assms(2) by (cases e) (auto simp: err_answer_def)
  then show ?thesis using putLocked_durable e assms CmdUpdate unfolding vault_Update_def by fastforce
next
  case (CmdUpsert ref x meta)
  then obtain y where y: "vault_Upsert A (Sys w) (At w) (Rand w) ref x meta st = (y, st2)" "a = case_sum Err (\<lambda>(m, b). StoredMeta m b) y"
    using assms(1) by (cases "vault_Upsert A (Sys w) (At w) (Rand w) ref x meta st") auto
  then obtain z where "y = Inr z" using assms(2) by (cases y) auto
  then show ?thesis using vault_Upsert_durable y assms CmdUpsert by fastforce
next
  case (CmdDelete ref)
  then obtain e where e: "vault_Delete (Sys w) ref st = (e, st2)" "a = err_answer e"
    using assms(1) by (cases "vault_Delete (Sys w) ref st") auto
  then have "e = None" using assms(2) by (cases e) (auto simp: err_answer_def)
  then show ?thesis using vault_Delete_durable e assms by blast
next
  case (CmdRotate key)
  then obtain e where e: "RotateMasterKey A (Sys w) (Nonces w) key st = (e, st2)" "a = err_answer e"
    using assms(1) by (cases "RotateMasterKey A (Sys w) (Nonces w) key st") auto
  then have "e = None" using assms(2) by (cases e) (auto simp: err_answer_def)
  then show ?thesis using RotateMasterKey_durable e assms by blast
qed (use assms(3) in \<open>simp_all add: writes_def\<close>)

lemma persist_failed: "fst (persist io st) \<noteq> None \<Longrightarrow> snd (snd (persist io st)) = snd st"
  by (auto simp: persist_def install_file_def Let_def split: prod.splits option.splits)

lemma RotateMasterKey_failed:
  assumes "fst (RotateMasterKey A io nonces newKEK st) \<noteq> None"
  shows "RotateMasterKey A io nonces newKEK st = (fst (RotateMasterKey A io nonces newKEK st), st)"
proof -
  obtain v fs where st: "st = (v, fs)" by (cases st)
  show ?thesis
  proof (cases "length newKEK = masterKeyLen \<and> (\<exists>ss. rewrap A nonces (Kek v) newKEK (Secrets v) = Inr ss)")
    case False
    then show ?thesis by (cases "rewrap A nonces (Kek v) newKEK (Secrets v)") (auto simp: RotateMasterKey_def st)
  next
    case True
    then obtain ss where ss: "rewrap A nonces (Kek v) newKEK (Secrets v) = Inr ss" "length newKEK = masterKeyLen" by blast
    obtain e v2 fs2 where q: "persist io (v\<lparr>Secrets := ss, Kek := newKEK\<rparr>, fs) = (e, v2, fs2)"
      by (cases "persist io (v\<lparr>Secrets := ss, Kek := newKEK\<rparr>, fs)") auto
    then obtain x where x: "e = Some x" using assms ss by (cases e) (simp_all add: RotateMasterKey_def st)
    have "v2 = v\<lparr>Secrets := ss, Kek := newKEK\<rparr>" using persist_result(2) [of io "(v\<lparr>Secrets := ss, Kek := newKEK\<rparr>, fs)"] q by simp
    moreover have "fs2 = fs" using persist_failed [of io "(v\<lparr>Secrets := ss, Kek := newKEK\<rparr>, fs)"] q x by simp
    ultimately show ?thesis using ss q x by (simp add: RotateMasterKey_def st)
  qed
qed

subsection \<open>Properties\<close>

text \<open>
  C30: The vault is a map. For every sequence of puts, updates, upserts, reads, listings, deletions
  and master key rotations, with any clock, any outcome of the system calls and fresh random bytes,
  the answers are those of a plain map from references to values with metadata, and afterwards the
  secrets that the vault can decrypt are exactly that map. A rotation of the key is invisible in it.
\<close>

theorem vault_refines_map:
  assumes "aead_ok A" "vault_ok A (fst st)" "list_all (\<lambda>p. outside_ok (fst p)) cs"
  shows "fst (exec_all (vault_exec A) cs st) = fst (exec_all store_exec cs (plain A (fst st))) \<and>
    plain A (fst (snd (exec_all (vault_exec A) cs st))) = snd (exec_all store_exec cs (plain A (fst st)))"
  using exec_all_refines [OF assms(1,3,2)] by blast

definition clear_box :: aead where
  "clear_box = \<lparr>Seal = (\<lambda>k n p. p), Open = (\<lambda>k n c. Some c)\<rparr>"

lemma clear_box_ok: "aead_ok clear_box"
  by (simp add: aead_ok_def clear_box_def)

definition zeros :: "nat \<Rightarrow> string" where
  "zeros n = replicate n (CHR 0x00)"

definition staged_vault :: vstate where
  "staged_vault = (\<lparr>VPath = ''vault.db'', Kek = zeros 32, Version = 1, Secrets = [], lastUsedFlushed = []\<rparr>, Map.empty)"

definition staged_outside :: outside where
  "staged_outside = \<lparr>At = 7, Sys = (\<lambda>_. True), Rand = \<lparr>RandDek = Some (zeros 32), RandValue = Some (zeros 12), RandWrap = Some (zeros 12)\<rparr>,
     Nonces = (\<lambda>_. Some (zeros 12))\<rparr>"

lemma staged_ok: "vault_ok A (fst staged_vault)" "outside_ok staged_outside" "text_ok (fst staged_vault)"
  by (simp_all add: staged_vault_def staged_outside_def vault_ok_def outside_ok_def rand_ok_def filled_def zeros_def
      masterKeyLen_def nonceSize_def text_ok_def)

definition no_meta :: PutMeta where
  "no_meta = \<lparr>PutProvider = [], PutScope = [], PutTTL = []\<rparr>"

lemma staged_put_valid: "validatePut ''tok'' ''s3cret'' no_meta = None"
  by code_simp

theorem vault_refines_map_witness:
  "fst (exec_all (vault_exec clear_box)
     [(staged_outside, CmdPut ''tok'' ''s3cret'' no_meta False), (staged_outside, CmdRotate (zeros 32)), (staged_outside, CmdDelete ''tok'')]
     staged_vault) = [Nil_err, Nil_err, Nil_err]"
proof -
  have "fst (exec_all store_exec
     [(staged_outside, CmdPut ''tok'' ''s3cret'' no_meta False), (staged_outside, CmdRotate (zeros 32)), (staged_outside, CmdDelete ''tok'')]
     (plain clear_box (fst staged_vault))) = [Nil_err, Nil_err, Nil_err]"
    by (simp add: store_put_def staged_put_valid store_write_def store_delete_def staged_outside_def staged_vault_def plain_def
        disk_error_def persist_steps_def err_answer_def zeros_def masterKeyLen_def)
  with vault_refines_map [OF clear_box_ok, of staged_vault "[(staged_outside, CmdPut ''tok'' ''s3cret'' no_meta False),
     (staged_outside, CmdRotate (zeros 32)), (staged_outside, CmdDelete ''tok'')]"] show ?thesis
    by (simp add: staged_ok del: exec_all.simps)
qed

text \<open>
  C31: What a successful command wrote survives a restart. When a put, update, upsert, deletion or
  key rotation returned no error, opening the vault file with any key source that yields the key then
  in use succeeds, and the vault it gives decrypts exactly to the map after the command. Strings are
  valid UTF-8, as every value decoded from a request is.
\<close>

theorem vault_survives_restart:
  assumes "aead_ok A" "outside_ok w" "vault_ok A (fst st)" "text_ok (fst st)" "VPath (fst st) \<noteq> []"
    and "writes c" "cmd_text_ok c"
    and run: "vault_exec A w c st = (a, st2)" and "\<And>e. a \<noteq> Err e"
    and key: "MasterKey h ks = Inr (Kek (fst st2))"
  shows "\<exists>v. OpenVault h (snd st2) (VPath (fst st)) ks = Inr v \<and> vault_ok A v \<and>
    plain A v = snd (store_exec w c (plain A (fst st)))"
proof -
  have d: "durable (Sys w) st st2" using vault_exec_durable [OF run] assms by blast
  note r = vault_exec_refines [OF assms(1-3), of c]
  have ok: "vault_ok A (fst st2)" using r(2) run by simp
  then have "OpenVault h (snd st2) (VPath (fst st2)) ks = Inr ((fst st2)\<lparr>lastUsedFlushed := []\<rparr>)"
    using d assms(5) key by (intro reopen [of "Sys w" "fst st2" "snd st"]) (simp_all add: durable_def vault_ok_def)
  then show ?thesis using d ok r(3) run by (auto simp: durable_def)
qed

theorem vault_survives_restart_witness:
  "\<exists>v. OpenVault \<lparr>Getenv = (\<lambda>_. []), KeyFiles = Map.empty\<rparr>
       (snd (snd (vault_exec clear_box staged_outside (CmdRotate (replicate 32 (CHR ''k''))) staged_vault))) ''vault.db''
       (StaticKeySource (replicate 32 (CHR ''k''))) = Inr v \<and>
    plain clear_box v = Map.empty"
proof -
  let ?c = "CmdRotate (replicate 32 (CHR ''k''))"
  obtain st2 where r: "vault_exec clear_box staged_outside ?c staged_vault = (Nil_err, st2)" "Kek (fst st2) = replicate 32 (CHR ''k'')"
    by (simp add: staged_vault_def staged_outside_def RotateMasterKey_def persist_def install_file_def persist_steps_def
        err_answer_def masterKeyLen_def)
  have "MasterKey \<lparr>Getenv = (\<lambda>_. []), KeyFiles = Map.empty\<rparr> (StaticKeySource (replicate 32 (CHR ''k''))) = Inr (Kek (fst st2))"
    by (simp add: r(2) static_MasterKey_def masterKeyLen_def)
  from vault_survives_restart [OF clear_box_ok staged_ok(2) staged_ok(1) staged_ok(3) _ _ _ r(1) _ this]
  show ?thesis unfolding r(1)
    by (auto simp: staged_vault_def writes_def plain_def fun_eq_iff masterKeyLen_def)
qed

text \<open>What a rewrapped record keeps: everything but the wrapping of its key.\<close>

definition wrapped_with :: "aead \<Rightarrow> string \<Rightarrow> string \<times> vrecord \<Rightarrow> string \<times> SecretMeta \<times> string \<times> (vault_error + string \<times> string)" where
  "wrapped_with A kek p = (fst p, VMeta (snd p), SealedValue (snd p), decrypt A kek (snd p))"

lemma rewrap_record_same:
  assumes "aead_ok A" "\<And>n. nonce = Some n \<Longrightarrow> length n = nonceSize" "length newKEK = masterKeyLen"
    and "rewrap_record A nonce kek newKEK r = Inr r2"
  shows "wrapped_with A newKEK (ref, r2) = wrapped_with A kek (ref, r)"
proof -
  obtain wrapped dek blob where w: "b64_decode StdAlphabet True (WrappedDEK r) = Some wrapped" "gcmOpen A kek wrapped = Inr dek"
      "gcmSeal A nonce newKEK dek = Inr blob" "r2 = r\<lparr>WrappedDEK := b64_encode blob\<rparr>"
    using assms(4) by (auto simp: rewrap_record_def split: option.splits sum.splits)
  obtain n where n: "nonce = Some n" using w(3) by (auto simp: gcmSeal_def split: if_splits option.splits)
  note rt = gcm_round_trip [OF assms(1,3) assms(2) [OF n], of dek]
  have "blob = n @ Seal A newKEK n dek" using w(3) rt(1) n by simp
  then have "gcmOpen A newKEK blob = Inr dek" using rt(2) by simp
  then show ?thesis using w by (simp add: wrapped_with_def decrypt_def)
qed

lemma rewrap_same:
  assumes "aead_ok A" "\<And>ref n. nonces ref = Some n \<Longrightarrow> length n = nonceSize" "length newKEK = masterKeyLen"
  shows "rewrap A nonces kek newKEK ss = Inr ss2 \<Longrightarrow> map (wrapped_with A newKEK) ss2 = map (wrapped_with A kek) ss"
proof (induction ss arbitrary: ss2)
  case (Cons p ss)
  obtain ref r where p: "p = (ref, r)" by (cases p)
  obtain r2 where r2: "rewrap_record A (nonces ref) kek newKEK r = Inr r2"
    using Cons.prems p by (cases "rewrap_record A (nonces ref) kek newKEK r") simp_all
  obtain ss3 where ss3: "rewrap A nonces kek newKEK ss = Inr ss3"
    using Cons.prems p r2 by (cases "rewrap A nonces kek newKEK ss") simp_all
  show ?case
    using Cons.prems Cons.IH [OF ss3] rewrap_record_same [OF assms(1) assms(2) [of ref] assms(3) r2, of ref] p r2 ss3 by auto
qed simp

text \<open>
  C32: The rotation of the master key is all or nothing, for any vault: its records need not decrypt.
  Whatever fails, a wrong key length, a record that cannot be unwrapped, the random source or the disk,
  the vault and its file are as before. When it succeeds, the new key is in force, and every record, in
  its place, has the reference, the metadata and the sealed value it had and decrypts under the new key
  to what it decrypted to under the old one.
\<close>

theorem master_key_rotation_atomic:
  assumes "aead_ok A" "\<And>ref n. nonces ref = Some n \<Longrightarrow> length n = nonceSize"
  shows "case RotateMasterKey A io nonces newKEK st of
      (Some e, st2) \<Rightarrow> st2 = st
    | (None, st2) \<Rightarrow> Kek (fst st2) = newKEK \<and> length newKEK = masterKeyLen \<and>
        map (\<lambda>(ref, r). (ref, VMeta r, SealedValue r, decrypt A newKEK r)) (Secrets (fst st2)) =
        map (\<lambda>(ref, r). (ref, VMeta r, SealedValue r, decrypt A (Kek (fst st)) r)) (Secrets (fst st))"
proof -
  have w: "(\<lambda>(ref, r). (ref, VMeta r, SealedValue r, decrypt A k r)) = wrapped_with A k" for k
    by (auto simp: wrapped_with_def)
  obtain e st2 where q: "RotateMasterKey A io nonces newKEK st = (e, st2)" by (cases "RotateMasterKey A io nonces newKEK st")
  obtain v fs where st: "st = (v, fs)" by (cases st)
  show ?thesis
  proof (cases e)
    case (Some x)
    then show ?thesis using RotateMasterKey_failed [of A io nonces newKEK st] q by simp
  next
    case None
    then have len: "length newKEK = masterKeyLen" using q by (auto simp: RotateMasterKey_def st split: if_splits)
    obtain ss where ss: "rewrap A nonces (Kek v) newKEK (Secrets v) = Inr ss"
      using q None len by (cases "rewrap A nonces (Kek v) newKEK (Secrets v)") (simp_all add: RotateMasterKey_def st)
    have "persist io (v\<lparr>Secrets := ss, Kek := newKEK\<rparr>, fs) = (None, st2)"
      using q None len ss by (auto simp: RotateMasterKey_def st split: prod.splits option.splits)
    from persist_disk(2) [OF this] have "fst st2 = v\<lparr>Secrets := ss, Kek := newKEK\<rparr>" .
    then show ?thesis unfolding w using q None len rewrap_same [OF assms len ss] by (simp add: st)
  qed
qed

text \<open>A vault with a record whose wrapped key is no base64, and a new key.\<close>

definition spoiled_vault :: vstate where
  "spoiled_vault = (fst staged_vault\<lparr>Secrets := [(''a'', \<lparr>VMeta = meta_of ''a'' [], WrappedDEK = ''!'', SealedValue = []\<rparr>)]\<rparr>, Map.empty)"

theorem master_key_rotation_atomic_witness:
  "snd (RotateMasterKey clear_box (\<lambda>_. True) (\<lambda>_. Some (zeros 12)) (replicate 32 (CHR ''k'')) spoiled_vault) = spoiled_vault"
proof -
  have "b64_decode StdAlphabet True ''!'' = None" by code_simp
  then have "fst (RotateMasterKey clear_box (\<lambda>_. True) (\<lambda>_. Some (zeros 12)) (replicate 32 (CHR ''k'')) spoiled_vault) \<noteq> None"
    by (simp add: spoiled_vault_def RotateMasterKey_def rewrap_record_def masterKeyLen_def)
  moreover have "length (zeros 12) = nonceSize" by (simp add: zeros_def nonceSize_def)
  ultimately show ?thesis
    using master_key_rotation_atomic [OF clear_box_ok, where nonces = "\<lambda>_. Some (zeros 12)" and io = "\<lambda>_. True" and
        newKEK = "replicate 32 (CHR ''k'')" and st = spoiled_vault]
    by (simp split: prod.splits option.splits)
qed

end
