(* ===== verification/Session_Lifecycle.thy ===== *)
theory Session_Lifecycle
  imports Project_Service
begin

text \<open>
  The life of a sandbox in \<^verbatim>\<open>internal/session/manager.go\<close> with its records (\<^verbatim>\<open>store.go\<close>,
  \<^verbatim>\<open>session.go\<close>): creation, registration, the rollback of a refused registration, teardown, the
  reaper, the reconciliation at startup, the shutdown and the named workspaces. The state holds what
  the operations change: the live map, the two stores, and of the host the containers, the images, the
  directory trees, the egress tables, the listeners and the served credentials. The argument \<open>io\<close>
  says which calls of a session succeed. Approvals are in \<open>Session_Approval\<close>, the warm pool in
  \<open>Warm_Pool\<close>.
\<close>

subsection \<open>State\<close>

datatype life_state = LReady | LWarm | LExecing | LAwaiting | LEnded

record container_spec =
  CTier :: string
  CImage :: string
  CDigest :: string
  CWorkspace :: string
  COwned :: bool

record srecord =
  RecId :: string
  RecMode :: mode
  RecTier :: string
  RecHandle :: string
  RecDir :: string
  RecCreated :: int
  RecTTL :: int
  RecProject :: string
  RecEnv :: string

record msession =
  MId :: string
  MMode :: mode
  MName :: string
  MTier :: string
  MState :: life_state
  MHandle :: string
  MDir :: string
  MCreated :: int
  MLast :: int
  MTTL :: int
  MProject :: string
  MEnv :: string
  MPolicy :: resolved
  MTraced :: bool
  MConns :: nat
  MEgress :: bool
  MEndpoint :: bool
  MRegistry :: bool

record snapshotMeta =
  SnapImage :: string
  SnapTag :: nat
  SnapAt :: int

record workspaceRecord =
  WsName :: string
  Snapshots :: "snapshotMeta list"

datatype listener = CredListener | ProxyListener | RegistryListener | ConnectionListener nat

record sandbox_world =
  Sessions :: "(string \<times> msession) list"
  SessionFiles :: "srecord files"
  WorkspaceFiles :: "workspaceRecord files"
  Engine :: "(string \<times> container_spec) list"
  Imgs :: "string list"
  Trees :: "string list"
  Tables :: "string list"
  Listening :: "(string \<times> listener) list"
  Served :: "string list"
  Chain :: "(string \<times> string) list"

datatype life_op =
    OpResolve | OpAvailable | OpMkdir | OpAssemble | OpCreate | OpStart | OpSave | OpEgress
  | OpDestroy | OpSnapshot | OpUntable | OpForget | OpRemoveTree | OpSaveWorkspace | OpRemoveImage string
  | OpCloseConns

type_synonym outcomes = "string \<Rightarrow> life_op \<Rightarrow> bool"

record life_cfg =
  WorkspaceRoot :: string
  CfgImage :: string
  CfgDigest :: string
  BasePolicy :: policy
  CfgTier :: string
  CfgTTL :: int
  SnapshotRetention :: int

datatype life_error =
    BadInput string
  | ScopeErr project_error
  | PolicyErr scope_error
  | RuntimeUnavailable
  | SandboxErr string
  | EgressErr
  | ConnectionsErr string
  | NotLive string
  | WorkspaceInUse string
  | TeardownErr "string list"

subsection \<open>Records and deadlines\<close>

definition recordOf :: "msession \<Rightarrow> srecord" where
  "recordOf s = \<lparr>RecId = MId s, RecMode = MMode s, RecTier = MTier s, RecHandle = MHandle s, RecDir = MDir s,
     RecCreated = MCreated s, RecTTL = MTTL s, RecProject = MProject s, RecEnv = MEnv s\<rparr>"

definition sessionOf :: "srecord \<Rightarrow> msession" where
  "sessionOf r = \<lparr>MId = RecId r, MMode = RecMode r, MName = [], MTier = RecTier r, MState = LEnded,
     MHandle = RecHandle r, MDir = RecDir r, MCreated = RecCreated r, MLast = 0, MTTL = RecTTL r,
     MProject = RecProject r, MEnv = RecEnv r, MPolicy = ResolveDefault id Default, MTraced = False, MConns = 0,
     MEgress = False, MEndpoint = False, MRegistry = False\<rparr>"

definition deadline :: "msession \<Rightarrow> int" where
  "deadline s = MLast s + MTTL s"

definition session_expired :: "int \<Rightarrow> msession \<Rightarrow> bool" where
  "session_expired now s \<longleftrightarrow> MTTL s > 0 \<and> deadline s \<le> now"

definition DefaultSnapshotRetention :: int where "DefaultSnapshotRetention = 3"

definition wsNameRe :: "string \<Rightarrow> bool" where
  "wsNameRe s \<longleftrightarrow>
     (let low = (\<lambda>c. (CHR ''a'' \<le> c \<and> c \<le> CHR ''z'') \<or> (CHR ''0'' \<le> c \<and> c \<le> CHR ''9''))
      in s \<noteq> [] \<and> low (hd s) \<and> list_all (\<lambda>c. low c \<or> c = CHR ''_'' \<or> c = CHR ''-'') (tl s) \<and> length s \<le> 64)"

definition validateWorkspaceName :: "string \<Rightarrow> life_error option" where
  "validateWorkspaceName name =
     (if name = [] then Some (BadInput ''workspace mode requires a name'')
      else if \<not> wsNameRe name then Some (BadInput ''workspace name'')
      else None)"

definition nextTag :: "workspaceRecord \<Rightarrow> nat" where
  "nextTag w = foldl (\<lambda>m s. if SnapTag s > m then SnapTag s else m) 0 (Snapshots w) + 1"

definition latest :: "workspaceRecord \<Rightarrow> string option" where
  "latest w = (if Snapshots w = [] then None else Some (SnapImage (last (Snapshots w))))"

subsection \<open>Directory trees\<close>

definition under_dir :: "string \<Rightarrow> string \<Rightarrow> bool" where
  "under_dir dir p \<longleftrightarrow> p = dir \<or> has_prefix p (dir @ ''/'')"

definition cleanupWorkspace :: "outcomes \<Rightarrow> string \<Rightarrow> string \<Rightarrow> sandbox_world \<Rightarrow> sandbox_world" where
  "cleanupWorkspace io i dir w =
     (if dir = [] \<or> \<not> io i OpRemoveTree then w
      else w\<lparr>Trees := filter (\<lambda>p. \<not> under_dir dir p) (Trees w)\<rparr>)"

definition session_dir :: "life_cfg \<Rightarrow> string \<Rightarrow> mode \<Rightarrow> string \<Rightarrow> string \<Rightarrow> string" where
  "session_dir cfg owned md name i =
     (if owned \<noteq> [] then owned
      else if WorkspaceRoot cfg = [] then []
      else if md = ModeWorkspace then workspaceDir (WorkspaceRoot cfg) name
      else path_clean (WorkspaceRoot cfg @ ''/'' @ i))"

text \<open>The directory the instruction set is read from: the project's, not the session's.\<close>

definition context_root :: "life_cfg \<Rightarrow> string \<Rightarrow> string \<Rightarrow> string \<Rightarrow> string" where
  "context_root cfg owned pid wsDir =
     (if owned \<noteq> [] then owned
      else if WorkspaceRoot cfg \<noteq> [] \<and> pid \<noteq> [] then path_clean (WorkspaceRoot cfg @ ''/ws-'' @ pid)
      else wsDir)"

definition base_image :: "life_cfg \<Rightarrow> resolved \<Rightarrow> string" where
  "base_image cfg r =
     (if Image (Session (BasePolicy cfg)) \<noteq> [] \<and> Image (Session (Policy r)) \<noteq> [] then Image (Session (Policy r))
      else CfgImage cfg)"

subsection \<open>Creation\<close>

record create_scope =
  CsProject :: string
  CsEnv :: string
  CsOwned :: string
  CsDigest :: string
  CsSession :: session_scope

definition resolveScope ::
  "(string \<Rightarrow> string) \<Rightarrow> parser \<Rightarrow> (string \<Rightarrow> read_result) \<Rightarrow> (string \<Rightarrow> string \<Rightarrow> string + layer list) option \<Rightarrow>
   life_cfg \<Rightarrow> world option \<Rightarrow> string \<Rightarrow> string \<Rightarrow> life_error + create_scope" where
  "resolveScope H parse fs edited cfg projects pid eid =
     (case projects of
        None \<Rightarrow>
          if pid \<noteq> [] \<or> eid \<noteq> [] then Inl (BadInput ''project/environment scoping is not enabled'')
          else Inr \<lparr>CsProject = DefaultProjectID, CsEnv = DefaultEnvironmentID, CsOwned = [], CsDigest = [],
                 CsSession = \<lparr>Base = BasePolicy cfg, DefaultTier = CfgTier cfg, DefaultTTL = CfgTTL cfg\<rparr>\<rparr>
      | Some pw \<Rightarrow>
          (case ResolveScope H parse fs edited (BasePolicy cfg) pw pid eid of
             Inl e \<Rightarrow> Inl (ScopeErr e)
           | Inr sc \<Rightarrow>
               let p = ScProject sc; e = ScEnvironment sc;
                   ttl = (if EnvDefaultTTL e = [] then CfgTTL cfg
                          else case ParseDuration (EnvDefaultTTL e) of
                              Some d \<Rightarrow> if d > 0 then d else CfgTTL cfg
                            | None \<Rightarrow> CfgTTL cfg)
               in Inr \<lparr>CsProject = PID p, CsEnv = EID e, CsOwned = WorkspacePath p,
                    CsDigest = (if InUse (PToolchain p) then LayerDigest (PToolchain p) else []),
                    CsSession = \<lparr>Base = ScopePolicy (ScResolved sc),
                      DefaultTier = (if EnvDefaultTier e = [] then CfgTier cfg else EnvDefaultTier e),
                      DefaultTTL = ttl\<rparr>\<rparr>))"

definition engine_put :: "string \<Rightarrow> container_spec \<Rightarrow> sandbox_world \<Rightarrow> sandbox_world" where
  "engine_put i c w = w\<lparr>Engine := al_put i c (Engine w)\<rparr>"

definition engine_destroy :: "outcomes \<Rightarrow> string \<Rightarrow> string \<Rightarrow> sandbox_world \<Rightarrow> sandbox_world" where
  "engine_destroy io i h w = (if io i OpDestroy then w\<lparr>Engine := al_del h (Engine w)\<rparr> else w)"

text \<open>
  \<^verbatim>\<open>realize\<close>: the one path that builds a sandbox, up to its record and its default-deny table. The id \<open>i\<close>
  is what \<^verbatim>\<open>newID\<close> returned (its failure, which ends the call before anything is touched, is left out).
  The handle that the runtime returns for the container is written as the id: the container is created
  under the name made of the id, and the handle is only passed back to the runtime. A \<^verbatim>\<open>MkdirAll\<close> that fails leaves no part of the path in the model; in the code the parents that were made
  stay. The call is one step: what a daemon killed inside it leaves is said at the properties.
\<close>

definition realize ::
  "life_cfg \<Rightarrow> outcomes \<Rightarrow> string \<Rightarrow> int \<Rightarrow> string \<Rightarrow> mode \<Rightarrow> string \<Rightarrow> int \<Rightarrow> life_state \<Rightarrow> resolved \<Rightarrow> create_scope \<Rightarrow>
     sandbox_world \<Rightarrow> (life_error + msession) \<times> sandbox_world" where
  "realize cfg io i now tier md name ttl st resolved sc w =
     (if \<not> io i OpResolve then (Inl (BadInput ''runtime''), w)
      else if \<not> io i OpAvailable then (Inl RuntimeUnavailable, w)
      else
        let dir = session_dir cfg (CsOwned sc) md name i;
            digest = (if CsDigest sc \<noteq> [] then CsDigest sc else CfgDigest cfg)
        in if dir \<noteq> [] \<and> \<not> io i OpMkdir then (Inl (SandboxErr ''create workspace''), w)
        else
          let w = (if dir = [] then w else w\<lparr>Trees := List.insert dir (Trees w)\<rparr>)
          in if \<not> io i OpAssemble then (Inl (SandboxErr ''assemble agent context''), cleanupWorkspace io i dir w)
          else if \<not> io i OpCreate then (Inl (SandboxErr ''create sandbox''), cleanupWorkspace io i dir w)
          else
            let spec = \<lparr>CTier = tier, CImage = base_image cfg resolved, CDigest = digest, CWorkspace = dir,
                        COwned = (CsOwned sc \<noteq> [])\<rparr>;
                w = engine_put i spec w
            in if \<not> io i OpStart
               then (Inl (SandboxErr ''start sandbox''), cleanupWorkspace io i dir (engine_destroy io i i w))
            else
              let s = \<lparr>MId = i, MMode = md, MName = name, MTier = tier, MState = st, MHandle = i, MDir = dir,
                       MCreated = now, MLast = now, MTTL = ttl, MProject = CsProject sc, MEnv = CsEnv sc,
                       MPolicy = resolved, MTraced = False, MConns = 0, MEgress = False, MEndpoint = False,
                       MRegistry = False\<rparr>
              in if \<not> io i OpSave
                 then (Inl (SandboxErr ''save record''), cleanupWorkspace io i dir (engine_destroy io i i w))
              else
                let w = w\<lparr>SessionFiles := al_put i (Good (recordOf s)) (SessionFiles w)\<rparr>
                in if \<not> io i OpEgress
                   then (Inl EgressErr,
                         cleanupWorkspace io i dir
                           (engine_destroy io i i
                             (if io i OpForget then w\<lparr>SessionFiles := al_del i (SessionFiles w)\<rparr> else w)))
                else (Inr s, w\<lparr>Tables := List.insert i (Tables w)\<rparr>))"

text \<open>What the wiring of a session finds and starts.\<close>

record wiring =
  Traced :: bool
  ConnsResolved :: bool
  ConnCount :: nat
  ConnsBuilt :: bool
  EndpointUp :: bool
  EntryServed :: bool
  ProxyUp :: bool
  RegistryUp :: bool

definition close_conns :: "outcomes \<Rightarrow> msession \<Rightarrow> sandbox_world \<Rightarrow> sandbox_world" where
  "close_conns io s w = w\<lparr>Listening := filter (\<lambda>(j, l). \<not> (j = MId s \<and> (case l of ConnectionListener n \<Rightarrow> n < MConns s | _ \<Rightarrow> False))) (Listening w)\<rparr>"

definition close_listener :: "string \<Rightarrow> listener \<Rightarrow> sandbox_world \<Rightarrow> sandbox_world" where
  "close_listener i l w = w\<lparr>Listening := filter (\<lambda>p. p \<noteq> (i, l)) (Listening w)\<rparr>"

definition open_listener :: "bool \<Rightarrow> string \<Rightarrow> listener \<Rightarrow> sandbox_world \<Rightarrow> sandbox_world" where
  "open_listener up i l w = (if up then w\<lparr>Listening := (i, l) # Listening w\<rparr> else w)"

definition emit :: "bool \<Rightarrow> string \<Rightarrow> string \<Rightarrow> sandbox_world \<Rightarrow> sandbox_world" where
  "emit traced i ty w = (if traced then w\<lparr>Chain := Chain w @ [(i, ty)]\<rparr> else w)"

text \<open>
  \<^verbatim>\<open>registerReady\<close>: what is started for the session, up to its place in the live map. The rewrite of its
  table for the listeners just bound (\<^verbatim>\<open>allowBlindPathPorts\<close>, a second \<^verbatim>\<open>SetupSession\<close> under the same
  id, whose failure is only logged) is not a change of this world: the table of the session is there
  before and after it. It is modelled with the wiring (\<open>Broker_Inject\<close>) and the controller (\<open>Net_Control\<close>).
\<close>

definition registerReady ::
  "outcomes \<Rightarrow> wiring \<Rightarrow> msession \<Rightarrow> sandbox_world \<Rightarrow> life_error option \<times> msession \<times> sandbox_world" where
  "registerReady io g s w =
     (let i = MId s;
          s = s\<lparr>MTraced := Traced g\<rparr>;
          w = emit (Traced g) i ''session.start'' w
      in if \<not> ConnsResolved g then (Some (ConnectionsErr ''resolve''), s, w)
      else
        let s = s\<lparr>MEndpoint := EndpointUp g\<rparr>;
            w = open_listener (EndpointUp g) i CredListener w;
            w = (if EntryServed g then w\<lparr>Served := List.insert i (Served w)\<rparr> else w);
            s = s\<lparr>MEgress := ProxyUp g\<rparr>;
            w = open_listener (ProxyUp g) i ProxyListener w
        in if ConnCount g > 0 \<and> \<not> ConnsBuilt g then (Some (ConnectionsErr ''build''), s, w)
           else
             let s = s\<lparr>MConns := ConnCount g\<rparr>;
                 w = w\<lparr>Listening := map (\<lambda>n. (i, ConnectionListener n)) [0..<ConnCount g] @ Listening w\<rparr>;
                 s = s\<lparr>MRegistry := RegistryUp g\<rparr>;
                 w = open_listener (RegistryUp g) i RegistryListener w
             in (None, s, w\<lparr>Sessions := al_put i s (Sessions w)\<rparr>))"

definition rollbackUnregistered :: "outcomes \<Rightarrow> msession \<Rightarrow> sandbox_world \<Rightarrow> sandbox_world" where
  "rollbackUnregistered io s w =
     (let i = MId s;
          w = close_conns io s w;
          w = (if MEgress s then close_listener i ProxyListener w else w);
          w = (if io i OpResolve then engine_destroy io i (MHandle s) w else w)
      in cleanupWorkspace io i (MDir s) w)"

record create_request =
  ReqMode :: string
  ReqName :: string
  ReqTier :: string
  ReqTTL :: int
  ReqProject :: string
  ReqEnv :: string

definition parse_mode :: "string \<Rightarrow> mode option" where
  "parse_mode s = (if s = [] \<or> s = ''scratch'' then Some ModeScratch
                   else if s = ''workspace'' then Some ModeWorkspace else None)"

text \<open>The checks of \<^verbatim>\<open>Create\<close> that come before any sandbox.\<close>

definition admit ::
  "(string \<Rightarrow> string) \<Rightarrow> parser \<Rightarrow> (string \<Rightarrow> read_result) \<Rightarrow> (string \<Rightarrow> string \<Rightarrow> string + layer list) option \<Rightarrow>
   life_cfg \<Rightarrow> world option \<Rightarrow> create_request \<Rightarrow> life_error + mode \<times> string \<times> create_scope \<times> resolved \<times> string \<times> int" where
  "admit H parse fs edited cfg projects req =
     (case parse_mode (ReqMode req) of
        None \<Rightarrow> Inl (BadInput ''mode'')
      | Some md \<Rightarrow>
          (case (if md = ModeWorkspace then validateWorkspaceName (ReqName req) else None) of
             Some e \<Rightarrow> Inl e
           | None \<Rightarrow>
               let name = (if md = ModeWorkspace then ReqName req else [])
               in rbind (resolveScope H parse fs edited cfg projects (ReqProject req) (ReqEnv req)) (\<lambda>sc.
                  rbind (map_sum PolicyErr (\<lambda>r. r) (resolveCreatePolicy H parse fs (WorkspaceRoot cfg) md name (Base (CsSession sc)))) (\<lambda>r.
                  rbind (map_sum PolicyErr (\<lambda>t. t) (enforceTier (ReqTier req) r (CsSession sc))) (\<lambda>tier.
                    Inr (md, name, sc, r, tier, enforceTTL (ReqTTL req) r (CsSession sc)))))))"

text \<open>
  \<^verbatim>\<open>Create\<close> where the sandbox is built for the request. A scratch request may be given a warm container
  instead, which is then re-stamped and registered: that path is \<open>Warm_Pool\<close>'s, and no step of this world.
\<close>

definition Create ::
  "(string \<Rightarrow> string) \<Rightarrow> parser \<Rightarrow> (string \<Rightarrow> read_result) \<Rightarrow> (string \<Rightarrow> string \<Rightarrow> string + layer list) option \<Rightarrow>
   life_cfg \<Rightarrow> world option \<Rightarrow> outcomes \<Rightarrow> wiring \<Rightarrow> string \<Rightarrow> int \<Rightarrow> create_request \<Rightarrow> sandbox_world \<Rightarrow>
   (life_error + msession) \<times> sandbox_world" where
  "Create H parse fs edited cfg projects io g i now req w =
     (case admit H parse fs edited cfg projects req of
        Inl e \<Rightarrow> (Inl e, w)
      | Inr (md, name, sc, r, tier, ttl) \<Rightarrow>
          (case realize cfg io i now tier md name ttl LReady r sc w of
             (Inl e, w) \<Rightarrow> (Inl e, w)
           | (Inr s, w) \<Rightarrow>
               (case registerReady io g s w of
                  (Some e, s, w) \<Rightarrow> (Inl e, rollbackUnregistered io s w)
                | (None, s, w) \<Rightarrow> (Inr s, w))))"

subsection \<open>The end of a session\<close>

definition wsImagePrefix :: string where "wsImagePrefix = ''opslify/ws-''"

definition load_workspace :: "workspaceRecord files \<Rightarrow> string \<Rightarrow> string + workspaceRecord option" where
  "load_workspace fs name =
     (case map_of fs name of
        None \<Rightarrow> Inr None
      | Some (Good r) \<Rightarrow> Inr (Some r)
      | Some Corrupt \<Rightarrow> Inl ''parse workspace''
      | Some Unreadable \<Rightarrow> Inl ''read workspace'')"

fun remove_images :: "outcomes \<Rightarrow> string \<Rightarrow> snapshotMeta list \<Rightarrow> sandbox_world \<Rightarrow> sandbox_world" where
  "remove_images io i [] w = w"
| "remove_images io i (sm # ss) w =
     remove_images io i ss
       (if io i (OpRemoveImage (SnapImage sm)) then w\<lparr>Imgs := removeAll (SnapImage sm) (Imgs w)\<rparr> else w)"

definition retention :: "life_cfg \<Rightarrow> nat" where
  "retention cfg = nat (if SnapshotRetention cfg \<le> 0 then DefaultSnapshotRetention else SnapshotRetention cfg)"

definition snapshotWorkspace ::
  "life_cfg \<Rightarrow> outcomes \<Rightarrow> int \<Rightarrow> msession \<Rightarrow> sandbox_world \<Rightarrow> string option \<times> sandbox_world" where
  "snapshotWorkspace cfg io now s w =
     (case load_workspace (WorkspaceFiles w) (MName s) of
        Inl e \<Rightarrow> (Some e, w)
      | Inr found \<Rightarrow>
          let rec = (case found of Some r \<Rightarrow> r\<lparr>WsName := MName s\<rparr> | None \<Rightarrow> \<lparr>WsName = MName s, Snapshots = []\<rparr>);
              tag = nextTag rec;
              image = wsImagePrefix @ MName s @ '':'' @ dec tag
          in if \<not> io (MId s) OpSnapshot then (Some ''snapshot workspace'', w)
             else
               let w = w\<lparr>Imgs := List.insert image (Imgs w)\<rparr>;
                   snaps = Snapshots rec @ [\<lparr>SnapImage = image, SnapTag = tag, SnapAt = now\<rparr>];
                   ret = retention cfg;
                   (snaps, w) =
                     (if length snaps > ret
                      then (drop (length snaps - ret) snaps, remove_images io (MId s) (take (length snaps - ret) snaps) w)
                      else (snaps, w))
               in if io (MId s) OpSaveWorkspace
                  then (None, w\<lparr>WorkspaceFiles := al_put (MName s) (Good (rec\<lparr>Snapshots := snaps\<rparr>)) (WorkspaceFiles w)\<rparr>)
                  else (Some ''write workspace'', w))"

text \<open>\<^verbatim>\<open>teardown\<close> in its three parts: what serves the session, the trace, the sandbox itself.\<close>

definition release_handles :: "outcomes \<Rightarrow> msession \<Rightarrow> sandbox_world \<Rightarrow> sandbox_world" where
  "release_handles io s w =
     (let i = MId s;
          w = w\<lparr>Served := removeAll i (Served w)\<rparr>;
          w = (if MEndpoint s then close_listener i CredListener w else w);
          w = close_conns io s w;
          w = (if MEgress s then close_listener i ProxyListener w else w)
      in if MRegistry s then close_listener i RegistryListener w else w)"

definition close_trace :: "msession \<Rightarrow> sandbox_world \<Rightarrow> sandbox_world" where
  "close_trace s w = emit (MTraced s) (MId s) ''seal'' (emit (MTraced s) (MId s) ''session.end'' w)"

definition final_snapshot ::
  "life_cfg \<Rightarrow> outcomes \<Rightarrow> int \<Rightarrow> bool \<Rightarrow> msession \<Rightarrow> sandbox_world \<Rightarrow> string option \<times> sandbox_world" where
  "final_snapshot cfg io now snapshot s w =
     (if snapshot \<and> io (MId s) OpResolve \<and> MMode s = ModeWorkspace \<and> MName s \<noteq> []
      then snapshotWorkspace cfg io now s w else (None, w))"

definition remove_sandbox :: "outcomes \<Rightarrow> msession \<Rightarrow> sandbox_world \<Rightarrow> sandbox_world" where
  "remove_sandbox io s w =
     (let i = MId s;
          w = (if io i OpResolve then engine_destroy io i (MHandle s) w else w);
          w = (if io i OpUntable then w\<lparr>Tables := removeAll i (Tables w)\<rparr> else w);
          w = (if io i OpForget then w\<lparr>SessionFiles := al_del i (SessionFiles w)\<rparr> else w)
      in if MMode s = ModeScratch then cleanupWorkspace io i (MDir s) w else w)"

definition teardown_errors :: "outcomes \<Rightarrow> msession \<Rightarrow> string option \<Rightarrow> sandbox_world \<Rightarrow> string list" where
  "teardown_errors io s snap w =
     (let i = MId s
      in (if io i OpResolve then [] else [''runtime'']) @
         (case snap of Some e \<Rightarrow> [e] | None \<Rightarrow> []) @
         (if io i OpResolve \<and> \<not> io i OpDestroy then [''destroy''] else []) @
         (if io i OpUntable then [] else [''egress'']) @
         (if io i OpForget \<or> map_of (SessionFiles w) i = None then [] else [''delete record'']))"

definition life_teardown ::
  "life_cfg \<Rightarrow> outcomes \<Rightarrow> int \<Rightarrow> bool \<Rightarrow> msession \<Rightarrow> sandbox_world \<Rightarrow> life_error option \<times> sandbox_world" where
  "life_teardown cfg io now snapshot s w =
     (let w = close_trace s (release_handles io s w);
          (snap, w) = final_snapshot cfg io now snapshot s w;
          errs = teardown_errors io s snap w
      in (if errs = [] then None else Some (TeardownErr errs), remove_sandbox io s w))"

definition life_Destroy ::
  "life_cfg \<Rightarrow> outcomes \<Rightarrow> int \<Rightarrow> string \<Rightarrow> sandbox_world \<Rightarrow> life_error option \<times> sandbox_world" where
  "life_Destroy cfg io now i w =
     (case map_of (Sessions w) i of
        None \<Rightarrow> (Some (NotLive i), w)
      | Some s \<Rightarrow> life_teardown cfg io now True (s\<lparr>MState := LEnded\<rparr>) (w\<lparr>Sessions := al_del i (Sessions w)\<rparr>))"

fun life_teardown_all ::
  "life_cfg \<Rightarrow> outcomes \<Rightarrow> int \<Rightarrow> bool \<Rightarrow> msession list \<Rightarrow> sandbox_world \<Rightarrow> (string \<times> life_error option) list \<times> sandbox_world" where
  "life_teardown_all cfg io now snapshot [] w = ([], w)"
| "life_teardown_all cfg io now snapshot (s # ss) w =
     (let (e, w) = life_teardown cfg io now snapshot s w;
          (es, w) = life_teardown_all cfg io now snapshot ss w
      in ((MId s, e) # es, w))"

definition reapable :: "int \<Rightarrow> msession \<Rightarrow> bool" where
  "reapable now s \<longleftrightarrow> MState s \<noteq> LExecing \<and> MState s \<noteq> LAwaiting \<and> session_expired now s"

definition life_ReapExpired ::
  "life_cfg \<Rightarrow> outcomes \<Rightarrow> int \<Rightarrow> sandbox_world \<Rightarrow> string list \<times> sandbox_world" where
  "life_ReapExpired cfg io now w =
     (let due = map (\<lambda>s. s\<lparr>MState := LEnded\<rparr>) (filter (reapable now) (map snd (Sessions w)));
          w = w\<lparr>Sessions := filter (\<lambda>(i, s). \<not> reapable now s) (Sessions w)\<rparr>;
          (es, w) = life_teardown_all cfg io now True due w
      in (map fst es, w))"

text \<open>\<^verbatim>\<open>Reconcile\<close> at startup: the records of the directory that parse, none read when one is unreadable.\<close>

definition life_Reconcile ::
  "life_cfg \<Rightarrow> outcomes \<Rightarrow> int \<Rightarrow> sandbox_world \<Rightarrow> (life_error + string list) \<times> sandbox_world" where
  "life_Reconcile cfg io now w =
     (if Unreadable \<in> snd ` set (SessionFiles w) then (Inl (SandboxErr ''read record''), w)
      else
        let recs = concat (map (\<lambda>(i, f). case f of Good r \<Rightarrow> [r] | _ \<Rightarrow> []) (sort_key fst (SessionFiles w)));
            (es, w) = life_teardown_all cfg io now False (map sessionOf recs) w
        in (Inr (map fst (filter (\<lambda>(i, e). e = None) es)), w))"

definition life_Shutdown :: "life_cfg \<Rightarrow> outcomes \<Rightarrow> int \<Rightarrow> sandbox_world \<Rightarrow> sandbox_world" where
  "life_Shutdown cfg io now w =
     snd (life_teardown_all cfg io now True (map (\<lambda>s. s\<lparr>MState := LEnded\<rparr>) (map snd (Sessions w)))
            (w\<lparr>Sessions := []\<rparr>))"

definition RemoveWorkspace ::
  "life_cfg \<Rightarrow> outcomes \<Rightarrow> string \<Rightarrow> sandbox_world \<Rightarrow> life_error option \<times> sandbox_world" where
  "RemoveWorkspace cfg io name w =
     (case validateWorkspaceName name of
        Some e \<Rightarrow> (Some e, w)
      | None \<Rightarrow>
          (case List.find (\<lambda>s. MMode s = ModeWorkspace \<and> MName s = name) (map snd (Sessions w)) of
             Some s \<Rightarrow> (Some (WorkspaceInUse (MId s)), w)
           | None \<Rightarrow>
               (case load_workspace (WorkspaceFiles w) name of
                  Inl e \<Rightarrow> (Some (SandboxErr e), w)
                | Inr found \<Rightarrow>
                    let w = (case found of
                               Some r \<Rightarrow> if io name OpResolve then remove_images io name (Snapshots r) w else w
                             | None \<Rightarrow> w)
                    in if found \<noteq> None \<and> \<not> io name OpForget then (Some (SandboxErr ''delete workspace''), w)
                       else
                         let w = w\<lparr>WorkspaceFiles := al_del name (WorkspaceFiles w)\<rparr>
                         in (None, if WorkspaceRoot cfg = [] then w
                                   else cleanupWorkspace io name (workspaceDir (WorkspaceRoot cfg) name) w))))"

text \<open>Listings.\<close>

record life_view =
  ViewId :: string
  ViewMode :: mode
  ViewTier :: string
  ViewState :: life_state
  ViewAge :: int
  ViewRemaining :: int
  ViewProject :: string
  ViewEnv :: string

text \<open>\<^verbatim>\<open>int64(d.Seconds())\<close>: nanoseconds to whole seconds, towards zero.\<close>

definition seconds :: "int \<Rightarrow> int" where
  "seconds d = (if d \<ge> 0 then d div 1000000000 else - ((- d) div 1000000000))"

definition view :: "int \<Rightarrow> msession \<Rightarrow> life_view" where
  "view now s = \<lparr>ViewId = MId s, ViewMode = MMode s, ViewTier = MTier s, ViewState = MState s,
     ViewAge = seconds (now - MCreated s),
     ViewRemaining = (if MTTL s > 0 then max 0 (seconds (deadline s - now)) else 0),
     ViewProject = MProject s, ViewEnv = MEnv s\<rparr>"

definition list_sessions :: "int \<Rightarrow> sandbox_world \<Rightarrow> life_view list" where
  "list_sessions now w = sort_key ViewId (map (view now \<circ> snd) (Sessions w))"

record workspace_view =
  WvName :: string
  WvCount :: nat
  WvTag :: nat
  WvTime :: int

definition workspace_view_of :: "workspaceRecord \<Rightarrow> workspace_view" where
  "workspace_view_of r =
     (if Snapshots r = [] then \<lparr>WvName = WsName r, WvCount = 0, WvTag = 0, WvTime = 0\<rparr>
      else \<lparr>WvName = WsName r, WvCount = length (Snapshots r), WvTag = SnapTag (last (Snapshots r)),
            WvTime = SnapAt (last (Snapshots r))\<rparr>)"

definition ListWorkspaces :: "sandbox_world \<Rightarrow> string + workspace_view list" where
  "ListWorkspaces w =
     (if Unreadable \<in> snd ` set (WorkspaceFiles w) then Inl ''read workspace''
      else Inr (sort_key WvName (concat (map (\<lambda>(i, f). case f of Good r \<Rightarrow> [workspace_view_of r] | _ \<Rightarrow> []) (WorkspaceFiles w)))))"

end
