(* ===== verification/Session_Sandboxes.thy ===== *)
theory Session_Sandboxes
  imports Session_Lifecycle
begin

text \<open>
  What holds of the sandboxes: every live session has its container, its record and its table; what a
  refused creation leaves behind; which directories the end of a session removes; the images that are
  booted and the snapshots that are kept.
\<close>

subsection \<open>What an operation on one session leaves alone\<close>

lemma al_del_absent: "k \<notin> fst ` set m \<Longrightarrow> al_del k m = m"
  by (auto simp: al_del_def intro!: filter_True)

lemma cleanupWorkspace_simps [simp]:
  "Sessions (cleanupWorkspace io i d w) = Sessions w" "SessionFiles (cleanupWorkspace io i d w) = SessionFiles w"
  "Engine (cleanupWorkspace io i d w) = Engine w" "Tables (cleanupWorkspace io i d w) = Tables w"
  "Listening (cleanupWorkspace io i d w) = Listening w" "Served (cleanupWorkspace io i d w) = Served w"
  "WorkspaceFiles (cleanupWorkspace io i d w) = WorkspaceFiles w"
  by (simp_all add: cleanupWorkspace_def)

lemma engine_destroy_simps [simp]:
  "Sessions (engine_destroy io i h w) = Sessions w" "SessionFiles (engine_destroy io i h w) = SessionFiles w"
  "Tables (engine_destroy io i h w) = Tables w" "Listening (engine_destroy io i h w) = Listening w"
  "Served (engine_destroy io i h w) = Served w" "Trees (engine_destroy io i h w) = Trees w"
  by (simp_all add: engine_destroy_def)

lemma engine_destroy_other: "j \<noteq> h \<Longrightarrow> map_of (Engine (engine_destroy io i h w)) j = map_of (Engine w) j"
  by (simp add: engine_destroy_def)

lemma listener_simps [simp]:
  "Sessions (close_listener i l w) = Sessions w" "SessionFiles (close_listener i l w) = SessionFiles w"
  "Engine (close_listener i l w) = Engine w" "Tables (close_listener i l w) = Tables w"
  "Trees (close_listener i l w) = Trees w" "Served (close_listener i l w) = Served w"
  "WorkspaceFiles (close_listener i l w) = WorkspaceFiles w"
  "Sessions (close_conns io s w) = Sessions w" "SessionFiles (close_conns io s w) = SessionFiles w"
  "Engine (close_conns io s w) = Engine w" "Tables (close_conns io s w) = Tables w"
  "Trees (close_conns io s w) = Trees w" "Served (close_conns io s w) = Served w"
  "WorkspaceFiles (close_conns io s w) = WorkspaceFiles w"
  by (simp_all add: close_listener_def close_conns_def)

lemma open_listener_simps [simp]:
  "Sessions (open_listener up i l w) = Sessions w" "SessionFiles (open_listener up i l w) = SessionFiles w"
  "Engine (open_listener up i l w) = Engine w" "Tables (open_listener up i l w) = Tables w"
  "Trees (open_listener up i l w) = Trees w" "Served (open_listener up i l w) = Served w"
  "Sessions (emit b i ty w) = Sessions w" "SessionFiles (emit b i ty w) = SessionFiles w"
  "Engine (emit b i ty w) = Engine w" "Tables (emit b i ty w) = Tables w"
  "Trees (emit b i ty w) = Trees w" "Served (emit b i ty w) = Served w" "Listening (emit b i ty w) = Listening w"
  "WorkspaceFiles (emit b i ty w) = WorkspaceFiles w"
  by (simp_all add: open_listener_def emit_def)

lemma remove_images_simps [simp]:
  "Sessions (remove_images io i ss w) = Sessions w" "SessionFiles (remove_images io i ss w) = SessionFiles w"
  "Engine (remove_images io i ss w) = Engine w" "Tables (remove_images io i ss w) = Tables w"
  "Trees (remove_images io i ss w) = Trees w" "Served (remove_images io i ss w) = Served w"
  "WorkspaceFiles (remove_images io i ss w) = WorkspaceFiles w"
  by (induction io i ss w rule: remove_images.induct) simp_all

text \<open>The part of the world that concerns the sandbox of one id.\<close>

definition resources :: "string \<Rightarrow> sandbox_world \<Rightarrow> container_spec option \<times> srecord stored option \<times> bool" where
  "resources i w = (map_of (Engine w) i, map_of (SessionFiles w) i, i \<in> set (Tables w))"

lemma snapshotWorkspace_keeps:
  "Sessions (snd (snapshotWorkspace cfg io now s w)) = Sessions w"
  "Trees (snd (snapshotWorkspace cfg io now s w)) = Trees w"
  "resources j (snd (snapshotWorkspace cfg io now s w)) = resources j w"
  by (simp_all add: snapshotWorkspace_def resources_def Let_def split: sum.split option.split)

lemma release_handles_keeps [simp]:
  "Sessions (close_trace s (release_handles io s w)) = Sessions w"
  "Trees (close_trace s (release_handles io s w)) = Trees w"
  "resources j (close_trace s (release_handles io s w)) = resources j w"
  by (simp_all add: close_trace_def release_handles_def resources_def Let_def)

lemma final_snapshot_keeps:
  "Sessions (snd (final_snapshot cfg io now sn s w)) = Sessions w"
  "Trees (snd (final_snapshot cfg io now sn s w)) = Trees w"
  "resources j (snd (final_snapshot cfg io now sn s w)) = resources j w"
  by (simp_all add: final_snapshot_def snapshotWorkspace_keeps)

lemma remove_sandbox_keeps:
  "Sessions (remove_sandbox io s w) = Sessions w"
  "Trees (remove_sandbox io s w) =
     (if MMode s = ModeScratch \<and> MDir s \<noteq> [] \<and> io (MId s) OpRemoveTree
      then filter (\<lambda>p. \<not> under_dir (MDir s) p) (Trees w) else Trees w)"
  "j \<noteq> MId s \<Longrightarrow> j \<noteq> MHandle s \<Longrightarrow> resources j (remove_sandbox io s w) = resources j w"
  by (simp_all add: remove_sandbox_def Let_def cleanupWorkspace_def resources_def engine_destroy_other)

lemma life_teardown_snd:
  "snd (life_teardown cfg io now sn s w) =
     remove_sandbox io s (snd (final_snapshot cfg io now sn s (close_trace s (release_handles io s w))))"
  by (simp add: life_teardown_def Let_def case_prod_beta)

lemma life_teardown_keeps:
  "Sessions (snd (life_teardown cfg io now sn s w)) = Sessions w"
  "Trees (snd (life_teardown cfg io now sn s w)) =
     (if MMode s = ModeScratch \<and> MDir s \<noteq> [] \<and> io (MId s) OpRemoveTree
      then filter (\<lambda>p. \<not> under_dir (MDir s) p) (Trees w) else Trees w)"
  "j \<noteq> MId s \<Longrightarrow> j \<noteq> MHandle s \<Longrightarrow> resources j (snd (life_teardown cfg io now sn s w)) = resources j w"
  by (simp_all add: life_teardown_snd remove_sandbox_keeps final_snapshot_keeps)

subsection \<open>Live sessions are backed\<close>

definition backed :: "sandbox_world \<Rightarrow> string \<Rightarrow> msession \<Rightarrow> bool" where
  "backed w i s \<longleftrightarrow> MId s = i \<and> MHandle s = i \<and>
     (\<exists>c. resources i w = (Some c, Some (Good (recordOf s)), True))"

definition life_inv :: "sandbox_world \<Rightarrow> bool" where
  "life_inv w \<longleftrightarrow> distinct (map fst (Sessions w)) \<and> list_all (\<lambda>(i, s). backed w i s) (Sessions w)"

lemma life_invI:
  assumes "distinct (map fst (Sessions w))" "\<And>i s. (i, s) \<in> set (Sessions w) \<Longrightarrow> backed w i s"
  shows "life_inv w"
  using assms by (auto simp: life_inv_def list_all_iff)

lemma life_invD: "life_inv w \<Longrightarrow> (i, s) \<in> set (Sessions w) \<Longrightarrow> backed w i s"
  by (auto simp: life_inv_def list_all_iff)

lemma life_inv_transfer:
  assumes "life_inv w" "set (Sessions w') \<subseteq> set (Sessions w)" "distinct (map fst (Sessions w'))"
    and "\<And>i s. (i, s) \<in> set (Sessions w') \<Longrightarrow> resources i w' = resources i w"
  shows "life_inv w'"
  by (rule life_invI [OF assms(3)]) (use assms(1,2,4) life_invD in \<open>fastforce simp: backed_def\<close>)

lemma life_teardown_all_keeps:
  "Sessions (snd (life_teardown_all cfg io now sn ss w)) = Sessions w"
  "(\<And>s. s \<in> set ss \<Longrightarrow> j \<noteq> MId s \<and> j \<noteq> MHandle s) \<Longrightarrow>
     resources j (snd (life_teardown_all cfg io now sn ss w)) = resources j w"
proof (induction ss arbitrary: w)
  case (Cons s ss)
  {
    case 1
    show ?case using Cons.IH(1) life_teardown_keeps(1) by (simp add: Let_def case_prod_beta)
  next
    case 2
    then show ?case using Cons.IH(2) life_teardown_keeps(3) by (simp add: Let_def case_prod_beta)
  }
qed simp_all

lemma distinct_filter_fst: "distinct (map fst m) \<Longrightarrow> distinct (map fst (filter P m))"
  by (rule distinct_map_filter)

text \<open>Ending some of the sessions leaves the others as they are.\<close>

lemma life_inv_end:
  assumes inv: "life_inv w" and rest: "Sessions w' = filter (\<lambda>(i, s). \<not> P i s) (Sessions w)"
    and same: "\<And>j. resources j w' = resources j w"
    and ended: "\<And>s. s \<in> set ss \<Longrightarrow> \<exists>i x. (i, x) \<in> set (Sessions w) \<and> P i x \<and> MId s = MId x \<and> MHandle s = MHandle x"
  shows "life_inv (snd (life_teardown_all cfg io now sn ss w'))"
proof (rule life_inv_transfer [OF inv])
  have d: "distinct (map fst (Sessions w))" using inv by (simp add: life_inv_def)
  show "set (Sessions (snd (life_teardown_all cfg io now sn ss w'))) \<subseteq> set (Sessions w)"
    by (auto simp: life_teardown_all_keeps(1) rest)
  show "distinct (map fst (Sessions (snd (life_teardown_all cfg io now sn ss w'))))"
    using d by (simp add: life_teardown_all_keeps(1) rest distinct_map_filter)
  fix i s assume "(i, s) \<in> set (Sessions (snd (life_teardown_all cfg io now sn ss w')))"
  then have mem: "(i, s) \<in> set (Sessions w)" "\<not> P i s" by (auto simp: life_teardown_all_keeps(1) rest)
  have "i \<noteq> MId t \<and> i \<noteq> MHandle t" if t: "t \<in> set ss" for t
  proof -
    obtain j x where x: "(j, x) \<in> set (Sessions w)" "P j x" "MId t = MId x" "MHandle t = MHandle x"
      using ended [OF t] by blast
    have "MId x = j" "MHandle x = j" using life_invD [OF inv x(1)] by (simp_all add: backed_def)
    moreover have "j \<noteq> i" using mem x d by (metis eq_key_imp_eq_value)
    ultimately show ?thesis using x by simp
  qed
  then show "resources i (snd (life_teardown_all cfg io now sn ss w')) = resources i w"
    using life_teardown_all_keeps(2) same by metis
qed

lemma engine_put_simps [simp]:
  "Sessions (engine_put i c w) = Sessions w" "SessionFiles (engine_put i c w) = SessionFiles w"
  "Tables (engine_put i c w) = Tables w" "Listening (engine_put i c w) = Listening w"
  "Served (engine_put i c w) = Served w" "map_of (Engine (engine_put i c w)) = (map_of (Engine w))(i \<mapsto> c)"
  by (simp_all add: engine_put_def)

definition sandbox_spec :: "life_cfg \<Rightarrow> create_scope \<Rightarrow> string \<Rightarrow> mode \<Rightarrow> string \<Rightarrow> resolved \<Rightarrow> string \<Rightarrow> container_spec" where
  "sandbox_spec cfg sc tier md name r i =
     \<lparr>CTier = tier, CImage = base_image cfg r, CDigest = (if CsDigest sc \<noteq> [] then CsDigest sc else CfgDigest cfg),
      CWorkspace = session_dir cfg (CsOwned sc) md name i, COwned = (CsOwned sc \<noteq> [])\<rparr>"

lemma realize_other:
  "Sessions (snd (realize cfg io i now tier md name ttl st r sc w)) = Sessions w"
  "j \<noteq> i \<Longrightarrow> resources j (snd (realize cfg io i now tier md name ttl st r sc w)) = resources j w"
  by (auto simp: realize_def Let_def resources_def engine_destroy_other)

lemma realize_Inr:
  assumes "realize cfg io i now tier md name ttl st r sc w = (Inr s, w')"
  shows "MId s = i" "MHandle s = i" "MMode s = md" "MDir s = session_dir cfg (CsOwned sc) md name i" "MPolicy s = r"
    "MTier s = tier" "resources i w' = (Some (sandbox_spec cfg sc tier md name r i), Some (Good (recordOf s)), True)"
    "Listening w' = Listening w" "Served w' = Served w"
    "Trees w' = (if MDir s = [] then Trees w else List.insert (MDir s) (Trees w))"
  using assms by (auto simp: realize_def Let_def resources_def sandbox_spec_def engine_put_def split: if_splits)

text \<open>A build that fails takes back the container and the record, wherever the engine and the disk let it.\<close>

lemma realize_Inl:
  assumes "realize cfg io i now tier md name ttl st r sc w = (Inl e, w')"
    and "resources i w = (None, None, False)" "io i OpDestroy" "io i OpForget"
  shows "resources i w' = (None, None, False)"
  using assms by (auto simp: realize_def Let_def resources_def engine_destroy_def split: if_splits)

lemma registerReady_keeps:
  "resources j (snd (snd (registerReady io g s w))) = resources j w"
  "MId (fst (snd (registerReady io g s w))) = MId s" "MHandle (fst (snd (registerReady io g s w))) = MHandle s"
  "MDir (fst (snd (registerReady io g s w))) = MDir s" "MMode (fst (snd (registerReady io g s w))) = MMode s"
  "recordOf (fst (snd (registerReady io g s w))) = recordOf s"
  "Trees (snd (snd (registerReady io g s w))) = Trees w"
  by (simp_all add: registerReady_def Let_def resources_def recordOf_def)

lemma registerReady_Sessions:
  "Sessions (snd (snd (registerReady io g s w))) =
     (if fst (registerReady io g s w) = None
      then al_put (MId s) (fst (snd (registerReady io g s w))) (Sessions w) else Sessions w)"
  by (simp add: registerReady_def Let_def)

lemma rollback_keeps:
  "Sessions (rollbackUnregistered io s w) = Sessions w"
  "j \<noteq> MHandle s \<Longrightarrow> resources j (rollbackUnregistered io s w) = resources j w"
  by (auto simp: rollbackUnregistered_def Let_def resources_def engine_destroy_other)

lemma al_put_subset: "set (al_put k v m) \<subseteq> insert (k, v) (set m)"
  by (induction k v m rule: al_put.induct) auto

lemma al_put_old: "distinct (map fst m) \<Longrightarrow> (j, x) \<in> set (al_put k v m) \<Longrightarrow> j \<noteq> k \<Longrightarrow> (j, x) \<in> set m"
  using al_put_subset by fastforce

definition fresh_id :: "string \<Rightarrow> sandbox_world \<Rightarrow> bool" where
  "fresh_id i w \<longleftrightarrow> i \<notin> fst ` set (Sessions w) \<and> resources i w = (None, None, False) \<and>
     i \<notin> fst ` set (Listening w) \<and> i \<notin> set (Served w)"

lemma Create_inv:
  assumes inv: "life_inv w" and fresh: "fresh_id i w"
  shows "life_inv (snd (Create H parse fs edited cfg projects io g i now req w))"
proof (cases "admit H parse fs edited cfg projects req")
  case (Inl e)
  then show ?thesis using inv by (simp add: Create_def)
next
  case (Inr a)
  obtain md name sc r tier ttl where a: "a = (md, name, sc, r, tier, ttl)" by (cases a) auto
  obtain x w1 where re: "realize cfg io i now tier md name ttl LReady r sc w = (x, w1)"
    by (cases "realize cfg io i now tier md name ttl LReady r sc w")
  have o: "Sessions w1 = Sessions w" "\<And>j. j \<noteq> i \<Longrightarrow> resources j w1 = resources j w"
    using realize_other [where cfg = cfg and io = io and i = i and now = now and tier = tier and md = md and name = name
      and ttl = ttl and st = LReady and r = r and sc = sc and w = w] by (simp_all add: re)
  have d: "distinct (map fst (Sessions w))" using inv by (simp add: life_inv_def)
  have new: "j \<noteq> i" if "(j, s) \<in> set (Sessions w)" for j s using that fresh by (force simp: fresh_id_def)
  show ?thesis
  proof (cases x)
    case (Inl e)
    then have "snd (Create H parse fs edited cfg projects io g i now req w) = w1" using Inr a re by (simp add: Create_def)
    moreover have "life_inv w1"
      by (rule life_inv_transfer [OF inv]) (use o d new in \<open>auto dest: new\<close>)
    ultimately show ?thesis by simp
  next
    case x: (Inr s)
    note s = realize_Inr [OF re [unfolded x]]
    obtain e s2 w2 where rr: "registerReady io g s w1 = (e, s2, w2)" by (cases "registerReady io g s w1") auto
    have k: "\<And>j. resources j w2 = resources j w1" "MId s2 = MId s" "MHandle s2 = MHandle s" "recordOf s2 = recordOf s"
      using registerReady_keeps [where io = io and g = g and s = s and w = w1] by (simp_all add: rr)
    have ss: "Sessions w2 = (if e = None then al_put (MId s) s2 (Sessions w1) else Sessions w1)"
      using registerReady_Sessions [where io = io and g = g and s = s and w = w1] by (simp add: rr)
    show ?thesis
    proof (cases e)
      case None
      have c: "snd (Create H parse fs edited cfg projects io g i now req w) = w2"
        using Inr a re x rr None by (simp add: Create_def)
      have sess: "Sessions w2 = al_put i s2 (Sessions w)" using ss None o(1) s(1) by simp
      have "backed w2 j y" if m: "(j, y) \<in> set (Sessions w2)" for j y
      proof (cases "j = i")
        case True
        have "map_of (Sessions w2) j = Some y"
          using m d sess by (intro map_of_is_SomeI) (simp_all add: distinct_al_put)
        then have "y = s2" using True sess by simp
        then show ?thesis using True k(1) [of i] k(2-4) s(1,2,7) by (simp add: backed_def)
      next
        case False
        then have old: "(j, y) \<in> set (Sessions w)" using al_put_old d m sess by metis
        have "resources j w2 = resources j w" using k(1) o(2) False by simp
        then show ?thesis using life_invD [OF inv old] by (simp add: backed_def)
      qed
      then show ?thesis unfolding c using d sess by (intro life_invI) (simp_all add: distinct_al_put)
    next
      case (Some err)
      have c: "snd (Create H parse fs edited cfg projects io g i now req w) = rollbackUnregistered io s2 w2"
        using Inr a re x rr Some by (simp add: Create_def)
      have sess: "Sessions (rollbackUnregistered io s2 w2) = Sessions w" using ss Some o(1) by (simp add: rollback_keeps)
      show ?thesis unfolding c
        by (rule life_inv_transfer [OF inv])
          (use sess d k(1,3) s(2) o(2) new rollback_keeps(2) in \<open>auto dest: new\<close>)
    qed
  qed
qed

subsection \<open>Runs of the manager\<close>

definition restart :: "life_cfg \<Rightarrow> outcomes \<Rightarrow> int \<Rightarrow> sandbox_world \<Rightarrow> sandbox_world" where
  "restart cfg io now w = snd (life_Reconcile cfg io now (w\<lparr>Sessions := [], Listening := [], Served := []\<rparr>))"

text \<open>
  One step of a daemon whose calls succeed as \<open>P\<close> allows. A new id is fresh: it is 128 random bits.
  The step \<open>touch\<close> stands for an exec or a gate: it changes the state and the last activity only.
  An operation is one step: runs are sequences of whole operations with every combination of failing
  calls, and neither a second operation inside a creation or a teardown (two ends of sessions of one
  workspace name, for example) nor a crash inside one is among them.
\<close>

inductive life_step :: "life_cfg \<Rightarrow> (outcomes \<Rightarrow> bool) \<Rightarrow> sandbox_world \<Rightarrow> sandbox_world \<Rightarrow> bool"
  for cfg :: life_cfg and P :: "outcomes \<Rightarrow> bool" where
  create: "fresh_id i w \<Longrightarrow> P io \<Longrightarrow> life_step cfg P w (snd (Create H parse fs edited cfg projects io g i now req w))"
| destroy: "P io \<Longrightarrow> life_step cfg P w (snd (life_Destroy cfg io now i w))"
| reap: "P io \<Longrightarrow> life_step cfg P w (snd (life_ReapExpired cfg io now w))"
| shutdown: "P io \<Longrightarrow> life_step cfg P w (life_Shutdown cfg io now w)"
| remove_workspace: "P io \<Longrightarrow> life_step cfg P w (snd (RemoveWorkspace cfg io name w))"
| restart: "P io \<Longrightarrow> life_step cfg P w (restart cfg io now w)"
| touch: "map_of (Sessions w) i = Some s \<Longrightarrow>
    life_step cfg P w (w\<lparr>Sessions := al_put i (s\<lparr>MState := st, MLast := now\<rparr>) (Sessions w)\<rparr>)"

inductive_cases life_stepE: "life_step cfg P w w'"

lemma RemoveWorkspace_keeps:
  "Sessions (snd (RemoveWorkspace cfg io name w)) = Sessions w"
  "resources j (snd (RemoveWorkspace cfg io name w)) = resources j w"
  "SessionFiles (snd (RemoveWorkspace cfg io name w)) = SessionFiles w"
  by (simp_all add: RemoveWorkspace_def Let_def resources_def split: option.split sum.split)

lemma Reconcile_Sessions: "Sessions (snd (life_Reconcile cfg io now w)) = Sessions w"
  by (simp add: life_Reconcile_def Let_def case_prod_beta life_teardown_all_keeps)

lemma life_step_inv: "life_step cfg P w w' \<Longrightarrow> life_inv w \<Longrightarrow> life_inv w'"
proof (induction rule: life_step.induct)
  case (create i w io H parse fs edited projects g now req)
  then show ?case by (intro Create_inv)
next
  case (destroy io w now i)
  show ?case
  proof (cases "map_of (Sessions w) i")
    case None
    then show ?thesis using destroy by (simp add: life_Destroy_def)
  next
    case (Some s)
    have "life_inv (snd (life_teardown_all cfg io now True [s\<lparr>MState := LEnded\<rparr>] (w\<lparr>Sessions := al_del i (Sessions w)\<rparr>)))"
    proof (rule life_inv_end [OF destroy.prems, where P = "\<lambda>j x. j = i"])
      show "Sessions (w\<lparr>Sessions := al_del i (Sessions w)\<rparr>) = filter (\<lambda>(j, s). \<not> j = i) (Sessions w)"
        by (auto simp: al_del_def intro!: filter_cong)
      show "resources j (w\<lparr>Sessions := al_del i (Sessions w)\<rparr>) = resources j w" for j by (simp add: resources_def)
      show "\<exists>j x. (j, x) \<in> set (Sessions w) \<and> j = i \<and> MId t = MId x \<and> MHandle t = MHandle x"
        if "t \<in> set [s\<lparr>MState := LEnded\<rparr>]" for t
        using that map_of_SomeD [OF Some] by auto
    qed
    then show ?thesis using Some by (simp add: life_Destroy_def Let_def case_prod_beta)
  qed
next
  case (reap io w now)
  let ?w = "w\<lparr>Sessions := filter (\<lambda>(i, s). \<not> reapable now s) (Sessions w)\<rparr>"
  have "life_inv (snd (life_teardown_all cfg io now True (map (\<lambda>s. s\<lparr>MState := LEnded\<rparr>) (filter (reapable now) (map snd (Sessions w)))) ?w))"
  proof (rule life_inv_end [OF reap.prems, where P = "\<lambda>j x. reapable now x"])
    show "resources j ?w = resources j w" for j by (simp add: resources_def)
    show "\<exists>i x. (i, x) \<in> set (Sessions w) \<and> reapable now x \<and> MId t = MId x \<and> MHandle t = MHandle x"
      if "t \<in> set (map (\<lambda>s. s\<lparr>MState := LEnded\<rparr>) (filter (reapable now) (map snd (Sessions w))))" for t
      using that by fastforce
  qed simp
  then show ?case by (simp add: life_ReapExpired_def Let_def case_prod_beta)
next
  case (shutdown io w now)
  have "life_inv (snd (life_teardown_all cfg io now True (map (\<lambda>s. s\<lparr>MState := LEnded\<rparr>) (map snd (Sessions w))) (w\<lparr>Sessions := []\<rparr>)))"
  proof (rule life_inv_end [OF shutdown.prems, where P = "\<lambda>j x. True"])
    show "resources j (w\<lparr>Sessions := []\<rparr>) = resources j w" for j by (simp add: resources_def)
    show "\<exists>i x. (i, x) \<in> set (Sessions w) \<and> True \<and> MId t = MId x \<and> MHandle t = MHandle x"
      if "t \<in> set (map (\<lambda>s. s\<lparr>MState := LEnded\<rparr>) (map snd (Sessions w)))" for t
      using that by fastforce
  qed simp
  then show ?case by (simp add: life_Shutdown_def)
next
  case (remove_workspace io w name)
  show ?case
    by (rule life_inv_transfer [OF remove_workspace.prems])
      (use remove_workspace in \<open>simp_all add: RemoveWorkspace_keeps life_inv_def\<close>)
next
  case (restart io w now)
  show ?case by (simp add: restart_def Reconcile_Sessions life_inv_def)
next
  case (touch w i s now st)
  let ?s = "s\<lparr>MState := st, MLast := now\<rparr>"
  have d: "distinct (map fst (Sessions w))" using touch.prems by (simp add: life_inv_def)
  have b: "backed w i s" using touch by (auto intro: life_invD dest: map_of_SomeD)
  show ?case
  proof (rule life_invI)
    show "distinct (map fst (Sessions (w\<lparr>Sessions := al_put i ?s (Sessions w)\<rparr>)))" using d by (simp add: distinct_al_put)
    fix j y assume m: "(j, y) \<in> set (Sessions (w\<lparr>Sessions := al_put i ?s (Sessions w)\<rparr>))"
    have "backed w j y"
    proof (cases "j = i")
      case True
      have "map_of (al_put i ?s (Sessions w)) j = Some y" using m d by (intro map_of_is_SomeI) (simp_all add: distinct_al_put)
      then have "y = ?s" using True by simp
      moreover have "recordOf ?s = recordOf s" by (simp add: recordOf_def)
      ultimately show ?thesis using b True by (simp add: backed_def)
    next
      case False
      then have "(j, y) \<in> set (Sessions w)" using al_put_old d m by fastforce
      then show ?thesis using life_invD touch.prems by blast
    qed
    then show "backed (w\<lparr>Sessions := al_put i ?s (Sessions w)\<rparr>) j y" by (simp add: backed_def resources_def)
  qed
qed

lemma life_run_inv: "(life_step cfg P)\<^sup>*\<^sup>* w w' \<Longrightarrow> life_inv w \<Longrightarrow> life_inv w'"
  by (induction rule: rtranclp_induct) (auto dest: life_step_inv)

subsection \<open>Every sandbox has its record\<close>

definition destroys :: "outcomes \<Rightarrow> bool" where
  "destroys io \<longleftrightarrow> (\<forall>i. io i OpDestroy \<and> io i OpResolve)"

definition named_record :: "string \<times> srecord stored \<Rightarrow> bool" where
  "named_record p = (case snd p of Good r \<Rightarrow> RecId r = fst p \<and> RecHandle r = fst p | _ \<Rightarrow> True)"

definition recorded :: "sandbox_world \<Rightarrow> bool" where
  "recorded w \<longleftrightarrow> distinct (map fst (SessionFiles w)) \<and> list_all named_record (SessionFiles w) \<and>
     (\<forall>i. map_of (Engine w) i \<noteq> None \<longrightarrow> (\<exists>r. map_of (SessionFiles w) i = Some (Good r)))"

definition files_named :: "sandbox_world \<Rightarrow> bool" where
  "files_named w \<longleftrightarrow> distinct (map fst (SessionFiles w)) \<and> list_all named_record (SessionFiles w)"

lemma list_all_al_del: "list_all P m \<Longrightarrow> list_all P (al_del k m)"
  by (auto simp: al_del_def list_all_iff)

lemma list_all_al_put_life: "list_all P m \<Longrightarrow> P (k, x) \<Longrightarrow> list_all P (al_put k x m)"
  by (induction k x m rule: al_put.induct) auto

lemma files_named_del: "files_named w \<Longrightarrow> files_named (w\<lparr>SessionFiles := al_del i (SessionFiles w)\<rparr>)"
  by (simp add: files_named_def distinct_al_del list_all_al_del)

lemma files_named_put:
  "files_named w \<Longrightarrow> RecId r = i \<Longrightarrow> RecHandle r = i \<Longrightarrow> files_named (w\<lparr>SessionFiles := al_put i (Good r) (SessionFiles w)\<rparr>)"
  by (simp add: files_named_def distinct_al_put list_all_al_put_life named_record_def)

lemma files_named_cong: "SessionFiles w' = SessionFiles w \<Longrightarrow> files_named w' = files_named w"
  by (simp add: files_named_def)

text \<open>Keeping the records named, and every container that changes under an id that has none left.\<close>

definition drops :: "sandbox_world \<Rightarrow> sandbox_world \<Rightarrow> bool" where
  "drops w w' \<longleftrightarrow> (files_named w \<longrightarrow> files_named w') \<and>
     (\<forall>j. map_of (Engine w') j \<noteq> None \<longrightarrow> resources j w' = resources j w)"

lemma drops_refl [simp]: "drops w w"
  by (simp add: drops_def)

lemma drops_trans: "drops w1 w2 \<Longrightarrow> drops w2 w3 \<Longrightarrow> drops w1 w3"
  unfolding drops_def resources_def by (metis prod.inject)

lemma recorded_drops: "recorded w \<Longrightarrow> drops w w' \<Longrightarrow> recorded w'"
  unfolding recorded_def drops_def files_named_def resources_def by (metis prod.inject)

lemma life_teardown_drops:
  assumes "destroys io" "MHandle s = MId s"
  shows "drops w (snd (life_teardown cfg io now sn s w))"
proof -
  define w1 where "w1 = snd (final_snapshot cfg io now sn s (close_trace s (release_handles io s w)))"
  have k: "resources j w1 = resources j w" for j by (simp add: w1_def final_snapshot_keeps)
  have f: "SessionFiles w1 = SessionFiles w"
    by (simp add: w1_def final_snapshot_def snapshotWorkspace_def close_trace_def release_handles_def Let_def
        split: sum.split option.split)
  have "map_of (Engine (remove_sandbox io s w1)) (MId s) = None"
    using assms by (simp add: remove_sandbox_def Let_def destroys_def engine_destroy_def)
  moreover have "resources j (remove_sandbox io s w1) = resources j w" if "j \<noteq> MId s" for j
    using that assms(2) by (simp add: remove_sandbox_keeps k)
  moreover have "files_named (remove_sandbox io s w1)" if "files_named w"
  proof -
    have "SessionFiles (remove_sandbox io s w1) = SessionFiles w \<or> SessionFiles (remove_sandbox io s w1) = al_del (MId s) (SessionFiles w)"
      by (simp add: remove_sandbox_def Let_def f)
    then show ?thesis using that by (auto simp: files_named_def distinct_al_del list_all_al_del)
  qed
  ultimately show ?thesis unfolding life_teardown_snd w1_def [symmetric] drops_def by metis
qed

lemma life_teardown_all_drops:
  assumes "destroys io"
  shows "list_all (\<lambda>s. MHandle s = MId s) ss \<Longrightarrow> drops w (snd (life_teardown_all cfg io now sn ss w))"
proof (induction ss arbitrary: w)
  case (Cons s ss)
  have "drops w (snd (life_teardown cfg io now sn s w))" using life_teardown_drops assms Cons.prems by simp
  moreover have "drops (snd (life_teardown cfg io now sn s w))
      (snd (life_teardown_all cfg io now sn ss (snd (life_teardown cfg io now sn s w))))"
    using Cons by simp
  ultimately show ?case using drops_trans by (simp add: Let_def case_prod_beta)
qed simp

lemma life_teardown_engine:
  assumes "destroys io" "MHandle s = MId s"
  shows "map_of (Engine (snd (life_teardown cfg io now sn s w))) (MId s) = None"
  using assms by (simp add: life_teardown_snd remove_sandbox_def Let_def destroys_def engine_destroy_def)

lemma drops_gone: "drops w w' \<Longrightarrow> map_of (Engine w) j = None \<Longrightarrow> map_of (Engine w') j = None"
  unfolding drops_def resources_def by (metis prod.inject)

lemma life_teardown_all_engine:
  assumes "destroys io"
  shows "list_all (\<lambda>s. MHandle s = MId s) ss \<Longrightarrow> s \<in> set ss \<Longrightarrow>
    map_of (Engine (snd (life_teardown_all cfg io now sn ss w))) (MId s) = None"
proof (induction ss arbitrary: w)
  case (Cons t ss)
  let ?w = "snd (life_teardown cfg io now sn t w)"
  have "map_of (Engine (snd (life_teardown_all cfg io now sn ss ?w))) (MId s) = None"
  proof (cases "s = t")
    case True
    show ?thesis
      by (rule drops_gone [OF life_teardown_all_drops]) (use assms Cons.prems True life_teardown_engine in auto)
  qed (use Cons in auto)
  then show ?case by (simp add: Let_def case_prod_beta)
qed simp

definition readable_records :: "sandbox_world \<Rightarrow> srecord list" where
  "readable_records w = concat (map (\<lambda>(i, f). case f of Good r \<Rightarrow> [r] | _ \<Rightarrow> []) (sort_key fst (SessionFiles w)))"

lemma readable_records_iff: "r \<in> set (readable_records w) \<longleftrightarrow> (\<exists>i. (i, Good r) \<in> set (SessionFiles w))"
  by (force simp: readable_records_def split: stored.splits)

lemma readable_records_named:
  "files_named w \<Longrightarrow> list_all (\<lambda>s. MHandle s = MId s) (map sessionOf (readable_records w))"
  by (auto simp: files_named_def list_all_iff readable_records_iff named_record_def sessionOf_def split: stored.splits)

lemma life_Reconcile_snd:
  "snd (life_Reconcile cfg io now w) =
     (if Unreadable \<in> snd ` set (SessionFiles w) then w
      else snd (life_teardown_all cfg io now False (map sessionOf (readable_records w)) w))"
  by (simp add: life_Reconcile_def readable_records_def Let_def case_prod_beta)

lemma life_Reconcile_drops: "destroys io \<Longrightarrow> files_named w \<Longrightarrow> drops w (snd (life_Reconcile cfg io now w))"
  by (simp add: life_Reconcile_snd life_teardown_all_drops readable_records_named)

lemma list_no_lookup: "(\<And>j. map_of m j = None) \<Longrightarrow> m = []"
proof (rule ccontr)
  assume none: "\<And>j. map_of m j = None" and "m \<noteq> []"
  then show False using none [of "fst (hd m)"] by (cases m) auto
qed

lemma life_Reconcile_empties:
  assumes "destroys io" "recorded w" "Unreadable \<notin> snd ` set (SessionFiles w)"
  shows "Engine (snd (life_Reconcile cfg io now w)) = []"
proof -
  have f: "files_named w" using assms(2) by (simp add: recorded_def files_named_def)
  have "map_of (Engine (snd (life_Reconcile cfg io now w))) j = None" for j
  proof (cases "map_of (Engine w) j")
    case None
    then show ?thesis using drops_gone life_Reconcile_drops [OF assms(1) f] by blast
  next
    case (Some c)
    then obtain r where r: "map_of (SessionFiles w) j = Some (Good r)" using assms(2) by (auto simp: recorded_def)
    then have mem: "(j, Good r) \<in> set (SessionFiles w)" by (rule map_of_SomeD)
    then have "MId (sessionOf r) = j" using f by (auto simp: files_named_def list_all_iff named_record_def sessionOf_def)
    moreover have "sessionOf r \<in> set (map sessionOf (readable_records w))"
      unfolding set_map by (rule imageI) (use mem in \<open>auto simp: readable_records_iff\<close>)
    then have "map_of (Engine (snd (life_teardown_all cfg io now False (map sessionOf (readable_records w)) w))) (MId (sessionOf r)) = None"
      by (rule life_teardown_all_engine [OF assms(1) readable_records_named [OF f]])
    ultimately show ?thesis using assms(3) by (simp add: life_Reconcile_snd)
  qed
  then show ?thesis using list_no_lookup by blast
qed

lemma recorded_one:
  assumes "recorded w" "files_named w'" "\<And>j. j \<noteq> i \<Longrightarrow> resources j w' = resources j w"
    and "map_of (Engine w') i = None \<or> (\<exists>r. map_of (SessionFiles w') i = Some (Good r))"
  shows "recorded w'"
  using assms unfolding recorded_def files_named_def resources_def by (metis prod.inject)

lemma realize_files_named:
  "files_named w \<Longrightarrow> files_named (snd (realize cfg io i now tier md name ttl st r sc w))"
  by (auto simp: realize_def Let_def files_named_def distinct_al_put distinct_al_del list_all_al_put_life list_all_al_del
      named_record_def recordOf_def)

lemma realize_Inl_engine:
  "realize cfg io i now tier md name ttl st r sc w = (Inl e, w') \<Longrightarrow> io i OpDestroy \<Longrightarrow> map_of (Engine w) i = None \<Longrightarrow>
     map_of (Engine w') i = None"
  by (auto simp: realize_def Let_def engine_destroy_def split: if_splits)

lemma rollback_engine:
  "destroys io \<Longrightarrow> MHandle s = i \<Longrightarrow> map_of (Engine (rollbackUnregistered io s w)) i = None"
  by (simp add: rollbackUnregistered_def Let_def destroys_def engine_destroy_def)

lemma registerReady_files: "SessionFiles (snd (snd (registerReady io g s w))) = SessionFiles w"
  by (simp add: registerReady_def Let_def)

lemma rollback_files: "SessionFiles (rollbackUnregistered io s w) = SessionFiles w"
  by (simp add: rollbackUnregistered_def Let_def)

lemma Create_recorded:
  assumes rec: "recorded w" and fresh: "fresh_id i w" and io: "destroys io"
  shows "recorded (snd (Create H parse fs edited cfg projects io g i now req w))"
proof (cases "admit H parse fs edited cfg projects req")
  case (Inl e)
  then show ?thesis using rec by (simp add: Create_def)
next
  case (Inr a)
  obtain md name sc r tier ttl where a: "a = (md, name, sc, r, tier, ttl)" by (cases a) auto
  obtain x w1 where re: "realize cfg io i now tier md name ttl LReady r sc w = (x, w1)"
    by (cases "realize cfg io i now tier md name ttl LReady r sc w")
  have f: "files_named w" using rec by (simp add: recorded_def files_named_def)
  have f1: "files_named w1" using realize_files_named [OF f] re by (metis snd_conv)
  have o: "resources j w1 = resources j w" if "j \<noteq> i" for j using realize_other(2) [OF that] re by (metis snd_conv)
  show ?thesis
  proof (cases x)
    case (Inl e)
    have "map_of (Engine w1) i = None"
      using realize_Inl_engine [OF re [unfolded Inl]] io fresh by (simp add: destroys_def fresh_id_def resources_def)
    then have "recorded w1" using recorded_one [OF rec f1 o] by simp
    then show ?thesis using Inr a re Inl by (simp add: Create_def)
  next
    case x: (Inr s)
    note s = realize_Inr [OF re [unfolded x]]
    obtain e s2 w2 where rr: "registerReady io g s w1 = (e, s2, w2)" by (cases "registerReady io g s w1") auto
    have k: "resources j w2 = resources j w1" "MHandle s2 = MHandle s" for j
      using registerReady_keeps [where io = io and g = g and s = s and w = w1] by (simp_all add: rr)
    have f2: "SessionFiles w2 = SessionFiles w1" using registerReady_files rr by (metis snd_conv)
    show ?thesis
    proof (cases e)
      case None
      have "recorded w2"
        by (rule recorded_one [OF rec, where i = i])
          (use f1 f2 k(1) o s(7) in \<open>auto simp: files_named_def resources_def\<close>)
      then show ?thesis using Inr a re x rr None by (simp add: Create_def)
    next
      case (Some err)
      have "recorded (rollbackUnregistered io s2 w2)"
        by (rule recorded_one [OF rec, where i = i])
          (use f1 f2 k o s(2) rollback_keeps(2) rollback_engine [OF io] in \<open>simp_all add: files_named_def rollback_files\<close>)
      then show ?thesis using Inr a re x rr Some by (simp add: Create_def)
    qed
  qed
qed

text \<open>The end of sessions that are in the map, under \<open>destroys\<close>: the records and the containers keep in step.\<close>

lemma recorded_end:
  assumes "destroys io" "life_inv w" "recorded w" and same: "SessionFiles w' = SessionFiles w" "\<And>j. resources j w' = resources j w"
    and ended: "\<And>t. t \<in> set ss \<Longrightarrow> \<exists>i x. (i, x) \<in> set (Sessions w) \<and> MId t = MId x \<and> MHandle t = MHandle x"
  shows "recorded (snd (life_teardown_all cfg io now sn ss w'))"
proof (rule recorded_drops)
  show "recorded w'" using assms(3) same unfolding recorded_def resources_def by (metis prod.inject)
  have "MHandle t = MId t" if t: "t \<in> set ss" for t
    using ended [OF t] life_invD [OF assms(2)] by (fastforce simp: backed_def)
  then show "drops w' (snd (life_teardown_all cfg io now sn ss w'))"
    by (intro life_teardown_all_drops [OF assms(1)]) (simp add: list_all_iff)
qed

lemma recorded_same: "recorded w \<Longrightarrow> SessionFiles w' = SessionFiles w \<Longrightarrow> Engine w' = Engine w \<Longrightarrow> recorded w'"
  unfolding recorded_def by metis

lemma RemoveWorkspace_Engine: "Engine (snd (RemoveWorkspace cfg io name w)) = Engine w"
  by (simp add: RemoveWorkspace_def Let_def split: option.split sum.split)

lemma life_step_recorded: "life_step cfg destroys w w' \<Longrightarrow> life_inv w \<Longrightarrow> recorded w \<Longrightarrow> recorded w'"
proof (induction rule: life_step.induct)
  case (create i w io H parse fs edited projects g now req)
  then show ?case by (intro Create_recorded)
next
  case (destroy io w now i)
  show ?case
  proof (cases "map_of (Sessions w) i")
    case None
    then show ?thesis using destroy by (simp add: life_Destroy_def)
  next
    case (Some s)
    have "recorded (snd (life_teardown_all cfg io now True [s\<lparr>MState := LEnded\<rparr>] (w\<lparr>Sessions := al_del i (Sessions w)\<rparr>)))"
      by (rule recorded_end [OF destroy])
        (use map_of_SomeD [OF Some] in \<open>auto simp: resources_def\<close>)
    then show ?thesis using Some by (simp add: life_Destroy_def Let_def case_prod_beta)
  qed
next
  case (reap io w now)
  have "recorded (snd (life_teardown_all cfg io now True
      (map (\<lambda>s. s\<lparr>MState := LEnded\<rparr>) (filter (reapable now) (map snd (Sessions w))))
      (w\<lparr>Sessions := filter (\<lambda>(i, s). \<not> reapable now s) (Sessions w)\<rparr>)))"
  proof (rule recorded_end [OF reap])
    show "\<exists>i x. (i, x) \<in> set (Sessions w) \<and> MId t = MId x \<and> MHandle t = MHandle x"
      if "t \<in> set (map (\<lambda>s. s\<lparr>MState := LEnded\<rparr>) (filter (reapable now) (map snd (Sessions w))))" for t
      using that by fastforce
  qed (simp_all add: resources_def)
  then show ?case by (simp add: life_ReapExpired_def Let_def case_prod_beta)
next
  case (shutdown io w now)
  have "recorded (snd (life_teardown_all cfg io now True (map (\<lambda>s. s\<lparr>MState := LEnded\<rparr>) (map snd (Sessions w))) (w\<lparr>Sessions := []\<rparr>)))"
  proof (rule recorded_end [OF shutdown])
    show "\<exists>i x. (i, x) \<in> set (Sessions w) \<and> MId t = MId x \<and> MHandle t = MHandle x"
      if "t \<in> set (map (\<lambda>s. s\<lparr>MState := LEnded\<rparr>) (map snd (Sessions w)))" for t
      using that by fastforce
  qed (simp_all add: resources_def)
  then show ?case by (simp add: life_Shutdown_def)
next
  case (remove_workspace io w name)
  then show ?case by (intro recorded_same [OF remove_workspace(3)]) (simp_all add: RemoveWorkspace_keeps RemoveWorkspace_Engine)
next
  case (restart io w now)
  let ?w = "w\<lparr>Sessions := [], Listening := [], Served := []\<rparr>"
  have r: "recorded ?w" using restart(3) by (intro recorded_same [OF restart(3)]) simp_all
  then have "files_named ?w" by (simp add: recorded_def files_named_def)
  then have "drops ?w (snd (life_Reconcile cfg io now ?w))" by (rule life_Reconcile_drops [OF restart(1)])
  then show ?case unfolding restart_def by (rule recorded_drops [OF r])
next
  case (touch w i s now st)
  then show ?case by (intro recorded_same [OF touch(3)]) simp_all
qed

lemma life_run_recorded:
  "(life_step cfg destroys)\<^sup>*\<^sup>* w w' \<Longrightarrow> life_inv w \<Longrightarrow> recorded w \<Longrightarrow> life_inv w' \<and> recorded w'"
  by (induction rule: rtranclp_induct) (auto dest: life_step_inv life_step_recorded)

end
