(* ===== verification/Sandbox_Safety.thy ===== *)
theory Sandbox_Safety
  imports Session_Sandboxes
begin

text \<open>
  The properties of the sandboxes: a live session is backed by its container, its record and its egress
  table; a restart leaves no container; what a refused creation and the end of a scratch session do to
  the host; the images that are booted; the snapshots that are kept. Each has a witness on a daemon with
  one session.
\<close>

subsection \<open>Images\<close>

definition boots :: "life_cfg \<Rightarrow> string" where
  "boots cfg = (if Image (Session (BasePolicy cfg)) = [] then CfgImage cfg else Image (Session (BasePolicy cfg)))"

definition images_ok :: "life_cfg \<Rightarrow> sandbox_world \<Rightarrow> bool" where
  "images_ok cfg w \<longleftrightarrow> (\<lambda>(i, c). CImage c) ` set (Engine w) \<subseteq> {boots cfg}"

lemma resolveScope_narrows:
  "resolveScope H parse fs edited cfg projects pid eid = Inr sc \<Longrightarrow> narrows (BasePolicy cfg) (Base (CsSession sc))"
  by (auto simp: resolveScope_def ResolveScope_def Let_def rbind_Inr_iff narrows_refl ResolvePolicy_narrows_base
      split: option.splits sum.splits prod.splits if_splits)

lemma admit_narrows:
  assumes "admit H parse fs edited cfg projects req = Inr (md, name, sc, r, tier, ttl)"
  shows "narrows (BasePolicy cfg) (Policy r)"
proof -
  have s: "resolveScope H parse fs edited cfg projects (ReqProject req) (ReqEnv req) = Inr sc"
    and p: "resolveCreatePolicy H parse fs (WorkspaceRoot cfg) md name (Base (CsSession sc)) = Inr r"
    using assms by (auto simp: admit_def Let_def rbind_Inr_iff map_sum_def split: option.splits sum.splits)
  show ?thesis using resolveScope_narrows [OF s] resolveCreatePolicy_narrows [OF p] by (rule narrows_trans)
qed

lemma base_image_boots: "narrows (BasePolicy cfg) (Policy r) \<Longrightarrow> base_image cfg r = boots cfg"
  by (auto simp: base_image_def boots_def narrows_def image_le_def)

lemma life_teardown_engine_sub: "set (Engine (snd (life_teardown cfg io now sn s w))) \<subseteq> set (Engine w)"
proof -
  have "Engine (snd (final_snapshot cfg io now sn s (close_trace s (release_handles io s w)))) = Engine w"
    by (simp add: final_snapshot_def snapshotWorkspace_def close_trace_def release_handles_def Let_def split: sum.split option.split)
  then show ?thesis
    by (auto simp: life_teardown_snd remove_sandbox_def Let_def engine_destroy_def al_del_def)
qed

lemma life_teardown_all_engine_sub: "set (Engine (snd (life_teardown_all cfg io now sn ss w))) \<subseteq> set (Engine w)"
proof (induction ss arbitrary: w)
  case (Cons s ss)
  then show ?case using life_teardown_engine_sub by (fastforce simp: Let_def case_prod_beta)
qed simp

lemma images_ok_sub: "images_ok cfg w \<Longrightarrow> set (Engine w') \<subseteq> set (Engine w) \<Longrightarrow> images_ok cfg w'"
  unfolding images_ok_def by (meson image_mono order_trans)

lemma images_ok_put:
  "images_ok cfg w \<Longrightarrow> CImage c = boots cfg \<Longrightarrow> set (Engine w') \<subseteq> insert (i, c) (set (Engine w)) \<Longrightarrow> images_ok cfg w'"
  unfolding images_ok_def by (auto simp: image_subset_iff dest!: subsetD)

lemma realize_engine_sub:
  "set (Engine (snd (realize cfg io i now tier md name ttl st r sc w))) \<subseteq>
     insert (i, sandbox_spec cfg sc tier md name r i) (set (Engine w))"
  using al_put_subset [of i "sandbox_spec cfg sc tier md name r i" "Engine w"]
  by (auto simp: realize_def Let_def engine_destroy_def engine_put_def sandbox_spec_def al_del_def)

lemma registerReady_engine: "Engine (snd (snd (registerReady io g s w))) = Engine w"
  by (simp add: registerReady_def Let_def)

lemma rollback_engine_sub: "set (Engine (rollbackUnregistered io s w)) \<subseteq> set (Engine w)"
  by (auto simp: rollbackUnregistered_def Let_def engine_destroy_def al_del_def)

lemma Create_images_ok:
  assumes "images_ok cfg w"
  shows "images_ok cfg (snd (Create H parse fs edited cfg projects io g i now req w))"
proof (cases "admit H parse fs edited cfg projects req")
  case (Inl e)
  then show ?thesis using assms by (simp add: Create_def)
next
  case (Inr a)
  obtain md name sc r tier ttl where a: "a = (md, name, sc, r, tier, ttl)" by (cases a) auto
  let ?c = "sandbox_spec cfg sc tier md name r i"
  have c: "CImage ?c = boots cfg"
    using base_image_boots [OF admit_narrows [OF Inr [unfolded a]]] by (simp add: sandbox_spec_def)
  obtain x w1 where re: "realize cfg io i now tier md name ttl LReady r sc w = (x, w1)"
    by (cases "realize cfg io i now tier md name ttl LReady r sc w")
  have w1: "set (Engine w1) \<subseteq> insert (i, ?c) (set (Engine w))" using realize_engine_sub re by (metis snd_conv)
  have "set (Engine (snd (Create H parse fs edited cfg projects io g i now req w))) \<subseteq> set (Engine w1)"
  proof (cases x)
    case (Inl e)
    then show ?thesis using Inr a re by (simp add: Create_def)
  next
    case x: (Inr s)
    obtain e s2 w2 where rr: "registerReady io g s w1 = (e, s2, w2)" by (cases "registerReady io g s w1") auto
    have "Engine w2 = Engine w1" using registerReady_engine rr by (metis snd_conv)
    then show ?thesis using Inr a re x rr rollback_engine_sub [of io s2 w2] by (cases e) (simp_all add: Create_def)
  qed
  then show ?thesis by (intro images_ok_put [OF assms c]) (use w1 in blast)
qed

lemma life_step_images_ok: "life_step cfg P w w' \<Longrightarrow> images_ok cfg w \<Longrightarrow> images_ok cfg w'"
proof (induction rule: life_step.induct)
  case (create i w io H parse fs edited projects g now req)
  then show ?case by (intro Create_images_ok)
next
  case (destroy io w now i)
  have "set (Engine (snd (life_Destroy cfg io now i w))) \<subseteq> set (Engine w)"
    using life_teardown_engine_sub [where w = "w\<lparr>Sessions := al_del i (Sessions w)\<rparr>"]
    by (auto simp: life_Destroy_def split: option.split)
  then show ?case by (rule images_ok_sub [OF destroy(2)])
next
  case (reap io w now)
  have "set (Engine (snd (life_ReapExpired cfg io now w))) \<subseteq> set (Engine w)"
    using life_teardown_all_engine_sub by (fastforce simp: life_ReapExpired_def Let_def case_prod_beta)
  then show ?case by (rule images_ok_sub [OF reap(2)])
next
  case (shutdown io w now)
  have "set (Engine (life_Shutdown cfg io now w)) \<subseteq> set (Engine w)"
    using life_teardown_all_engine_sub by (fastforce simp: life_Shutdown_def)
  then show ?case by (rule images_ok_sub [OF shutdown(2)])
next
  case (restart io w now)
  have "set (Engine (restart cfg io now w)) \<subseteq> set (Engine w)"
    using life_teardown_all_engine_sub [where w = "w\<lparr>Sessions := [], Listening := [], Served := []\<rparr>"]
    by (auto simp: restart_def life_Reconcile_snd)
  then show ?case by (rule images_ok_sub [OF restart(2)])
qed (simp_all add: images_ok_def RemoveWorkspace_Engine)

subsection \<open>Snapshots\<close>

text \<open>A stored workspace: its name, one to \<open>retention\<close> snapshots, their tags in order, each image named after its tag.\<close>

definition snapshot_image :: "string \<Rightarrow> snapshotMeta \<Rightarrow> bool" where
  "snapshot_image name m \<longleftrightarrow> SnapImage m = wsImagePrefix @ name @ '':'' @ dec (SnapTag m)"

definition workspace_ok :: "life_cfg \<Rightarrow> string \<times> workspaceRecord stored \<Rightarrow> bool" where
  "workspace_ok cfg p = (case snd p of
     Good r \<Rightarrow> WsName r = fst p \<and> Snapshots r \<noteq> [] \<and> length (Snapshots r) \<le> retention cfg \<and>
       sorted_wrt (<) (map SnapTag (Snapshots r)) \<and> list_all (snapshot_image (fst p)) (Snapshots r)
   | _ \<Rightarrow> True)"

lemma highest_tag:
  "k \<le> foldl (\<lambda>m s. if SnapTag s > m then SnapTag s else m) k ss"
  "s \<in> set ss \<Longrightarrow> SnapTag s \<le> foldl (\<lambda>m s. if SnapTag s > m then SnapTag s else m) k ss"
proof (induction ss arbitrary: k)
  case (Cons a ss)
  {
    case 1
    show ?case using Cons(1) [of "if SnapTag a > k then SnapTag a else k"] by (auto split: if_splits)
  next
    case 2
    then show ?case using Cons(1) [of "if SnapTag a > k then SnapTag a else k"] Cons(2) by (auto split: if_splits)
  }
qed simp_all

lemma nextTag_above: "s \<in> set (Snapshots r) \<Longrightarrow> SnapTag s < nextTag r"
  using highest_tag(2) [of s "Snapshots r" 0] by (simp add: nextTag_def less_Suc_eq_le)

lemma highest_tag_below:
  "list_all (\<lambda>s. SnapTag s \<le> b) ss \<Longrightarrow> k \<le> b \<Longrightarrow> foldl (\<lambda>m s. if SnapTag s > m then SnapTag s else m) k ss \<le> b"
  by (induction ss arbitrary: k) auto

lemma nextTag_sorted:
  assumes "Snapshots r \<noteq> []" "sorted_wrt (<) (map SnapTag (Snapshots r))"
  shows "nextTag r = SnapTag (last (Snapshots r)) + 1"
proof -
  obtain ss m where ss: "Snapshots r = ss @ [m]" using assms(1) by (metis rev_exhaust)
  have "list_all (\<lambda>s. SnapTag s \<le> SnapTag m) ss"
    using assms(2) by (auto simp: ss sorted_wrt_append list_all_iff intro: less_imp_le)
  from highest_tag_below [OF this, of 0] show ?thesis by (simp add: nextTag_def ss)
qed

lemma retention_pos: "0 < retention cfg"
  by (simp add: retention_def DefaultSnapshotRetention_def)

lemma nextTag_cong: "Snapshots r' = Snapshots r \<Longrightarrow> nextTag r' = nextTag r"
  by (simp add: nextTag_def)

lemma sorted_wrt_drop: "sorted_wrt R xs \<Longrightarrow> sorted_wrt R (drop n xs)"
  by (metis append_take_drop_id sorted_wrt_append)

lemma workspace_ok_snoc:
  assumes "sorted_wrt (<) (map SnapTag (Snapshots r))" "list_all (snapshot_image name) (Snapshots r)"
    "SnapTag m = nextTag r" "snapshot_image name m" "WsName r' = name"
    "Snapshots r' = drop k (Snapshots r @ [m])" "k \<le> length (Snapshots r)" "length (Snapshots r) + 1 - k \<le> retention cfg"
  shows "workspace_ok cfg (name, Good r')"
proof -
  have "sorted_wrt (<) (map SnapTag (Snapshots r @ [m]))"
    using assms(1,3) nextTag_above by (auto simp: sorted_wrt_append)
  then have "sorted_wrt (<) (map SnapTag (Snapshots r'))" using assms(6) by (simp only: drop_map [symmetric] sorted_wrt_drop)
  moreover have "list_all (snapshot_image name) (Snapshots r')"
    using assms(2,4,6,7) by (auto simp: list_all_iff dest: in_set_dropD)
  ultimately show ?thesis using assms(5-8) by (simp add: workspace_ok_def)
qed

lemma snapshotWorkspace_ok:
  assumes "list_all (workspace_ok cfg) (WorkspaceFiles w)"
  shows "list_all (workspace_ok cfg) (WorkspaceFiles (snd (snapshotWorkspace cfg io now s w)))"
proof (cases "load_workspace (WorkspaceFiles w) (MName s)")
  case (Inl e)
  then show ?thesis using assms by (simp add: snapshotWorkspace_def)
next
  case (Inr found)
  define rec where "rec = (case found of Some r \<Rightarrow> r\<lparr>WsName := MName s\<rparr> | None \<Rightarrow> \<lparr>WsName = MName s, Snapshots = []\<rparr>)"
  define m where "m = \<lparr>SnapImage = wsImagePrefix @ MName s @ '':'' @ dec (nextTag rec), SnapTag = nextTag rec, SnapAt = now\<rparr>"
  define k where "k = length (Snapshots rec) + 1 - retention cfg"
  have rec: "sorted_wrt (<) (map SnapTag (Snapshots rec))" "list_all (snapshot_image (MName s)) (Snapshots rec)" "WsName rec = MName s"
  proof -
    have "workspace_ok cfg (MName s, Good r)" if "found = Some r" for r
      using Inr that assms by (auto simp: load_workspace_def list_all_iff dest: map_of_SomeD split: option.splits stored.splits)
    then show "sorted_wrt (<) (map SnapTag (Snapshots rec))" "list_all (snapshot_image (MName s)) (Snapshots rec)" "WsName rec = MName s"
      by (auto simp: rec_def workspace_ok_def split: option.split)
  qed
  have "workspace_ok cfg (MName s, Good (rec\<lparr>Snapshots := drop k (Snapshots rec @ [m])\<rparr>))"
    by (rule workspace_ok_snoc [OF rec(1,2)]) (use retention_pos [of cfg] rec(3) in \<open>auto simp: m_def snapshot_image_def k_def\<close>)
  moreover have "WorkspaceFiles (snd (snapshotWorkspace cfg io now s w)) \<in>
      {WorkspaceFiles w, al_put (MName s) (Good (rec\<lparr>Snapshots := drop k (Snapshots rec @ [m])\<rparr>)) (WorkspaceFiles w)}"
    using Inr by (simp add: snapshotWorkspace_def Let_def rec_def [symmetric] m_def k_def)
  ultimately show ?thesis using assms by (auto simp: list_all_al_put_life)
qed

lemma life_teardown_workspaces:
  "list_all (workspace_ok cfg) (WorkspaceFiles w) \<Longrightarrow>
     list_all (workspace_ok cfg) (WorkspaceFiles (snd (life_teardown cfg io now sn s w)))"
proof -
  assume ok: "list_all (workspace_ok cfg) (WorkspaceFiles w)"
  have "WorkspaceFiles (close_trace s (release_handles io s w)) = WorkspaceFiles w"
    by (simp add: close_trace_def release_handles_def Let_def)
  with ok have "list_all (workspace_ok cfg) (WorkspaceFiles (snd (final_snapshot cfg io now sn s (close_trace s (release_handles io s w)))))"
    by (simp add: final_snapshot_def snapshotWorkspace_ok)
  then show ?thesis by (simp add: life_teardown_snd remove_sandbox_def Let_def engine_destroy_def)
qed

lemma life_teardown_all_workspaces:
  "list_all (workspace_ok cfg) (WorkspaceFiles w) \<Longrightarrow>
     list_all (workspace_ok cfg) (WorkspaceFiles (snd (life_teardown_all cfg io now sn ss w)))"
  by (induction ss arbitrary: w) (simp_all add: Let_def case_prod_beta life_teardown_workspaces)

lemma realize_workspaces: "WorkspaceFiles (snd (realize cfg io i now tier md name ttl st r sc w)) = WorkspaceFiles w"
  by (simp add: realize_def Let_def engine_destroy_def engine_put_def)

lemma registerReady_workspaces: "WorkspaceFiles (snd (snd (registerReady io g s w))) = WorkspaceFiles w"
  by (simp add: registerReady_def Let_def open_listener_def emit_def)

lemma rollback_workspaces: "WorkspaceFiles (rollbackUnregistered io s w) = WorkspaceFiles w"
  by (simp add: rollbackUnregistered_def Let_def engine_destroy_def)

lemma Create_workspaces: "WorkspaceFiles (snd (Create H parse fs edited cfg projects io g i now req w)) = WorkspaceFiles w"
  using realize_workspaces registerReady_workspaces
  by (auto simp: Create_def rollback_workspaces split: sum.split prod.split option.split dest: arg_cong [where f = snd]) (metis snd_conv)+

lemma life_step_workspaces:
  "life_step cfg P w w' \<Longrightarrow> list_all (workspace_ok cfg) (WorkspaceFiles w) \<Longrightarrow> list_all (workspace_ok cfg) (WorkspaceFiles w')"
proof (induction rule: life_step.induct)
  case (remove_workspace io w name)
  then show ?case by (simp add: RemoveWorkspace_def Let_def list_all_al_del cleanupWorkspace_def split: option.split sum.split)
qed (simp_all add: Create_workspaces life_Destroy_def life_ReapExpired_def life_Shutdown_def restart_def life_Reconcile_snd Let_def
    case_prod_beta life_teardown_workspaces life_teardown_all_workspaces split: option.split)

subsection \<open>A refused registration\<close>

lemma registerReady_refused:
  assumes "registerReady io g s w = (e, s2, w2)" "ConnsResolved g \<and> 0 < ConnCount g \<and> \<not> ConnsBuilt g"
  shows "e = Some (ConnectionsErr ''build'')" "EndpointUp g \<Longrightarrow> (MId s, CredListener) \<in> set (Listening w2)"
    "EntryServed g \<Longrightarrow> MId s \<in> set (Served w2)"
  using assms by (auto simp: registerReady_def Let_def open_listener_def emit_def)

lemma rollback_leaves:
  "Tables (rollbackUnregistered io s w) = Tables w" "Served (rollbackUnregistered io s w) = Served w"
  "(i, CredListener) \<in> set (Listening w) \<Longrightarrow> (i, CredListener) \<in> set (Listening (rollbackUnregistered io s w))"
  by (simp_all add: rollbackUnregistered_def Let_def close_conns_def close_listener_def engine_destroy_def)

subsection \<open>The properties\<close>

definition all_succeed :: outcomes where "all_succeed = (\<lambda>_ _. True)"

lemma all_succeed [simp]: "all_succeed i p" "destroys all_succeed"
  by (simp_all add: all_succeed_def destroys_def)

definition demo_cfg :: life_cfg where
  "demo_cfg = \<lparr>WorkspaceRoot = [], CfgImage = ''base'', CfgDigest = [], BasePolicy = Default, CfgTier = ''container'',
     CfgTTL = 60, SnapshotRetention = 2\<rparr>"

definition demo_wiring :: wiring where
  "demo_wiring = \<lparr>Traced = True, ConnsResolved = True, ConnCount = 1, ConnsBuilt = True, EndpointUp = True,
     EntryServed = True, ProxyUp = True, RegistryUp = False\<rparr>"

definition empty_host :: sandbox_world where
  "empty_host = \<lparr>Sessions = [], SessionFiles = [], WorkspaceFiles = [], Engine = [], Imgs = [], Trees = [], Tables = [],
     Listening = [], Served = [], Chain = []\<rparr>"

definition demo_request :: "string \<Rightarrow> create_request" where
  "demo_request md = \<lparr>ReqMode = md, ReqName = ''n'', ReqTier = [], ReqTTL = 0, ReqProject = [], ReqEnv = []\<rparr>"

definition demo_create :: "wiring \<Rightarrow> (life_error + msession) \<times> sandbox_world" where
  "demo_create g = Create id (\<lambda>_ _. Inr Default) (\<lambda>_. NotExist) None demo_cfg None all_succeed g ''a'' 0 (demo_request []) empty_host"

lemma demo_fresh: "fresh_id ''a'' empty_host"
  by (simp add: fresh_id_def empty_host_def resources_def)

lemma demo_step: "life_step demo_cfg destroys empty_host (snd (demo_create g))"
  unfolding demo_create_def by (rule life_step.create [OF demo_fresh]) simp

lemma sandbox_demo_run: "(life_step demo_cfg destroys)\<^sup>*\<^sup>* empty_host (snd (demo_create g))"
  using demo_step by blast

lemma demo_admit:
  "\<exists>sc r tier ttl. admit id (\<lambda>_ _. Inr Default) (\<lambda>_. NotExist) None demo_cfg None (demo_request []) =
     Inr (ModeScratch, [], sc, r, tier, ttl) \<and> CsOwned sc = []"
  by (auto simp: admit_def demo_request_def parse_mode_def resolveScope_def resolveCreatePolicy_def enforceTier_def demo_cfg_def
      rbind_def Default_def Let_def)

lemma demo_live: "\<exists>s. map_of (Sessions (snd (demo_create demo_wiring))) ''a'' = Some s"
  using demo_admit
  by (auto simp: demo_create_def Create_def realize_def registerReady_def Let_def demo_wiring_def)

text \<open>
  C33: Every live session is backed. In any run of the manager from a start with no sessions (creations,
  refused ones too, ends, reaps, restarts, shutdowns and workspace removals, whichever of their calls
  fail) a session in the live map has its container in the engine, its record in the store with the
  session's own fields, and its egress table.
\<close>

theorem live_sessions_are_backed:
  assumes "(life_step cfg P)\<^sup>*\<^sup>* w w'" and "Sessions w = []" and "map_of (Sessions w') i = Some s"
  shows "MId s = i \<and> map_of (Engine w') (MHandle s) \<noteq> None \<and>
    map_of (SessionFiles w') i = Some (Good (recordOf s)) \<and> i \<in> set (Tables w')"
proof -
  have "life_inv w'" using life_run_inv [OF assms(1)] assms(2) by (simp add: life_inv_def)
  then have "backed w' i s" using map_of_SomeD [OF assms(3)] life_invD by blast
  then show ?thesis by (auto simp: backed_def resources_def)
qed

theorem live_sessions_are_backed_witness:
  "map_of (Engine (snd (demo_create demo_wiring))) ''a'' \<noteq> None \<and> ''a'' \<in> set (Tables (snd (demo_create demo_wiring)))"
proof -
  obtain s where s: "map_of (Sessions (snd (demo_create demo_wiring))) ''a'' = Some s" using demo_live by blast
  have none: "Sessions empty_host = []" by (simp add: empty_host_def)
  from live_sessions_are_backed [OF sandbox_demo_run none s] have
    "map_of (Engine (snd (demo_create demo_wiring))) (MHandle s) \<noteq> None" "''a'' \<in> set (Tables (snd (demo_create demo_wiring)))"
    by simp_all
  moreover have "MHandle s = ''a''"
    using s demo_admit by (auto simp: demo_create_def Create_def realize_def registerReady_def Let_def demo_wiring_def)
  ultimately show ?thesis by simp
qed

text \<open>
  A daemon that dies while a sandbox is built, after the engine has the container and before the record
  is written, or in the rollback of a refused egress table, after the record is deleted and before the
  container is destroyed: the reconciliation of the next start knows the containers by their records
  only, and leaves this one.
\<close>

lemma killed_creation_leaks:
  assumes "SessionFiles w = []"
  shows "map_of (Engine (restart cfg io now (engine_put i spec w))) i = Some spec"
  using assms by (simp add: restart_def life_Reconcile_snd readable_records_def engine_put_def)

text \<open>
  C34: No sandbox outlives a daemon that is restarted between its operations. In a run of creations,
  refused ones too, ends, reaps, shutdowns and workspace removals from an empty host, whose destroy calls
  succeed, a daemon that is restarted after any of these operations has the record of every container,
  and when the records can be read its reconciliation leaves no container at all. A daemon killed inside
  a creation, between \<^verbatim>\<open>rt.Create\<close> and \<^verbatim>\<open>store.Save\<close>, is no step of such a run: its container has no record
  and stays (\<open>killed_creation_leaks\<close>).
\<close>

theorem restart_leaves_no_sandbox:
  assumes "(life_step cfg destroys)\<^sup>*\<^sup>* w w'" and "Sessions w = [] \<and> SessionFiles w = [] \<and> Engine w = []"
    and "Unreadable \<notin> snd ` set (SessionFiles w')" and "destroys io"
  shows "Engine (restart cfg io now w') = []"
proof -
  have "life_inv w" "recorded w" using assms(2) by (simp_all add: life_inv_def recorded_def)
  then have "recorded w'" using life_run_recorded [OF assms(1)] by blast
  then have "recorded (w'\<lparr>Sessions := [], Listening := [], Served := []\<rparr>)" by (rule recorded_same) simp_all
  then show ?thesis unfolding restart_def by (intro life_Reconcile_empties [OF assms(4)]) (use assms(3) in simp_all)
qed

theorem restart_leaves_no_sandbox_witness:
  "Engine (restart demo_cfg all_succeed 5 (snd (demo_create demo_wiring))) = []"
proof (rule restart_leaves_no_sandbox [OF sandbox_demo_run])
  show "Sessions empty_host = [] \<and> SessionFiles empty_host = [] \<and> Engine empty_host = []" by (simp add: empty_host_def)
  show "Unreadable \<notin> snd ` set (SessionFiles (snd (demo_create demo_wiring)))"
    using demo_admit
    by (auto simp: demo_create_def Create_def realize_def registerReady_def Let_def demo_wiring_def empty_host_def
        session_dir_def demo_cfg_def engine_put_def emit_def open_listener_def)
qed simp

text \<open>
  C35: A refused registration leaves traces. When the connections of a new session cannot be built, the
  creation fails and its container is destroyed, but \<open>rollbackUnregistered\<close> undoes less than the end of
  a session does: the record, the egress table, the credential listener and the served credentials of
  the session that never was stay.
\<close>

theorem refused_session_leftovers:
  assumes "admit H parse fs edited cfg projects req = Inr (md, name, sc, r, tier, ttl)"
    and "realize cfg io i now tier md name ttl LReady r sc w = (Inr s, w1)"
    and "ConnsResolved g \<and> 0 < ConnCount g \<and> \<not> ConnsBuilt g" and "destroys io"
  shows "case Create H parse fs edited cfg projects io g i now req w of (out, w') \<Rightarrow>
    isl out \<and> Sessions w' = Sessions w \<and> map_of (Engine w') i = None \<and>
    map_of (SessionFiles w') i = Some (Good (recordOf s)) \<and> i \<in> set (Tables w') \<and>
    (EndpointUp g \<longrightarrow> (i, CredListener) \<in> set (Listening w')) \<and> (EntryServed g \<longrightarrow> i \<in> set (Served w'))"
proof -
  note s = realize_Inr [OF assms(2)]
  have o: "Sessions w1 = Sessions w" using realize_other(1) assms(2) by (metis snd_conv)
  obtain e s2 w2 where rr: "registerReady io g s w1 = (e, s2, w2)" by (cases "registerReady io g s w1") auto
  note refused = registerReady_refused [OF rr assms(3)]
  have k: "resources i w2 = resources i w1" "MHandle s2 = i" "Sessions w2 = Sessions w1"
    using registerReady_keeps(1,3) [where io = io and g = g and s = s and w = w1] registerReady_Sessions [where io = io and g = g and s = s and w = w1]
      refused(1) s(2) by (simp_all add: rr)
  have "Create H parse fs edited cfg projects io g i now req w = (Inl (ConnectionsErr ''build''), rollbackUnregistered io s2 w2)"
    using assms(1,2) rr refused(1) by (simp add: Create_def)
  moreover have "map_of (Engine (rollbackUnregistered io s2 w2)) i = None" by (rule rollback_engine [OF assms(4) k(2)])
  moreover have "map_of (SessionFiles w2) i = Some (Good (recordOf s))" "i \<in> set (Tables w2)"
    using k(1) s(7) unfolding resources_def by (metis prod.inject)+
  ultimately show ?thesis
    using refused(2,3) s(1) o k(3) rollback_leaves(3) [of i w2 io s2]
    by (simp add: rollback_leaves(1,2) rollback_keeps(1) rollback_files)
qed

theorem refused_session_leftovers_witness:
  "case demo_create (demo_wiring\<lparr>ConnsBuilt := False\<rparr>) of (out, w) \<Rightarrow>
     isl out \<and> map_of (Engine w) ''a'' = None \<and> map_of (SessionFiles w) ''a'' \<noteq> None \<and>
     ''a'' \<in> set (Tables w) \<and> ''a'' \<in> set (Served w)"
proof -
  obtain sc r tier ttl where a: "admit id (\<lambda>_ _. Inr Default) (\<lambda>_. NotExist) None demo_cfg None (demo_request []) =
     Inr (ModeScratch, [], sc, r, tier, ttl)" using demo_admit by blast
  obtain s w1 where re: "realize demo_cfg all_succeed ''a'' 0 tier ModeScratch [] ttl LReady r sc empty_host = (Inr s, w1)"
    by (auto simp: realize_def Let_def)
  show ?thesis
    using refused_session_leftovers [OF a re, of "demo_wiring\<lparr>ConnsBuilt := False\<rparr>"]
    by (auto simp: demo_create_def demo_wiring_def)
qed

lemma realize_aborted:
  assumes "realize cfg io i now tier md name ttl st r sc w = (Inl e, w')"
  shows "e \<in> {BadInput ''runtime'', RuntimeUnavailable, SandboxErr ''create workspace''} \<or>
    (\<exists>u. w' = cleanupWorkspace io i (session_dir cfg (CsOwned sc) md name i) u)"
  using assms unfolding realize_def Let_def
  by (simp split: if_split_asm) blast+

lemma registerReady_dir:
  assumes "registerReady io g s w = (e, s2, w2)"
  shows "MDir s2 = MDir s" "MMode s2 = MMode s" "MId s2 = MId s" "Trees w2 = Trees w"
  using assms by (auto simp: registerReady_def Let_def split: if_split_asm)

lemma cleanup_removes: "dir \<noteq> [] \<Longrightarrow> io i OpRemoveTree \<Longrightarrow> list_all (\<lambda>p. \<not> under_dir dir p) (Trees (cleanupWorkspace io i dir u))"
  by (simp add: cleanupWorkspace_def list_all_iff)

text \<open>
  C36: The end of a session is the end of its directory, also where the directory is the operator's. With
  a project that has a workspace path of its own, a scratch session that is built for a request works in
  that very directory (one claimed from the warm pool does not). A creation that fails after the
  directory was made, whether the sandbox cannot be built or its registration is refused, and the end of
  the session remove it with everything below it, whatever else has happened on the host meanwhile.
\<close>

theorem project_directory_removed:
  assumes "admit H parse fs edited cfg (Some pw) req = Inr (ModeScratch, name, sc, r, tier, ttl)"
    and "ResolveScope H parse fs edited (BasePolicy cfg) pw (ReqProject req) (ReqEnv req) = Inr scp"
    and "WorkspacePath (ScProject scp) = dir" and "dir \<noteq> []" and "io i OpRemoveTree"
  shows "case Create H parse fs edited cfg (Some pw) io g i now req w of
      (Inl e, w') \<Rightarrow> e \<in> {BadInput ''runtime'', RuntimeUnavailable, SandboxErr ''create workspace''} \<or>
         list_all (\<lambda>p. \<not> under_dir dir p) (Trees w')
    | (Inr s, w') \<Rightarrow> MDir s = dir \<and> dir \<in> set (Trees w') \<and>
         list_all (\<lambda>p. \<not> under_dir dir p) (Trees (snd (life_teardown cfg io later snapshot s w'')))"
proof -
  have "resolveScope H parse fs edited cfg (Some pw) (ReqProject req) (ReqEnv req) = Inr sc"
    using assms(1) by (auto simp: admit_def Let_def rbind_Inr_iff map_sum_def split: option.splits sum.splits)
  then have "CsOwned sc = dir" using assms(2,3) by (auto simp: resolveScope_def Let_def)
  then have d: "session_dir cfg (CsOwned sc) ModeScratch name i = dir" using assms(4) by (simp add: session_dir_def)
  obtain x w1 where re: "realize cfg io i now tier ModeScratch name ttl LReady r sc w = (x, w1)"
    by (cases "realize cfg io i now tier ModeScratch name ttl LReady r sc w")
  show ?thesis
  proof (cases x)
    case (Inl e)
    then have "e \<in> {BadInput ''runtime'', RuntimeUnavailable, SandboxErr ''create workspace''} \<or>
        list_all (\<lambda>p. \<not> under_dir dir p) (Trees w1)"
      using realize_aborted [OF re [unfolded Inl]] cleanup_removes [where dir = dir and io = io and i = i, OF assms(4,5)] by (auto simp: d)
    then show ?thesis using assms(1) re Inl by (simp add: Create_def)
  next
    case (Inr s)
    note s = realize_Inr [OF re [unfolded Inr]]
    obtain e s2 w2 where rr: "registerReady io g s w1 = (e, s2, w2)" by (cases "registerReady io g s w1") auto
    have s2: "MDir s2 = dir" "MMode s2 = ModeScratch" "MId s2 = i" "dir \<in> set (Trees w2)"
      using registerReady_dir [OF rr] s(1,3,4,10) d assms(4) by simp_all
    have "list_all (\<lambda>p. \<not> under_dir dir p) (Trees (rollbackUnregistered io s2 w2))"
      unfolding rollbackUnregistered_def Let_def s2 using assms(4,5) by (rule cleanup_removes)
    moreover have "list_all (\<lambda>p. \<not> under_dir dir p) (Trees (snd (life_teardown cfg io later snapshot s2 w'')))"
      using s2 assms(4,5) by (simp add: life_teardown_keeps(2) list_all_iff)
    ultimately show ?thesis using assms(1) re Inr rr s2 by (cases e) (simp_all add: Create_def)
  qed
qed

definition owned_world :: world where
  "owned_world = demo_world\<lparr>Projs := [(''default'', Good ((default_project ''t0'')\<lparr>WorkspacePath := ''/home/op/repo''\<rparr>))]\<rparr>"

theorem project_directory_removed_witness:
  "\<exists>scp s w1. ResolveScope id (\<lambda>_ _. Inr Default) (\<lambda>_. NotExist) None (BasePolicy demo_cfg) owned_world [] [] = Inr scp \<and>
     WorkspacePath (ScProject scp) = ''/home/op/repo'' \<and>
     Create id (\<lambda>_ _. Inr Default) (\<lambda>_. NotExist) None demo_cfg (Some owned_world) all_succeed demo_wiring ''a'' 0
       (demo_request []) empty_host = (Inr s, w1) \<and> MDir s = ''/home/op/repo'' \<and>
     list_all (\<lambda>p. \<not> under_dir ''/home/op/repo'' p)
       (Trees (snd (life_teardown demo_cfg all_succeed 9 True s (w1\<lparr>Trees := [''/home/op/repo'', ''/home/op/repo/main.tf'', ''/home/op'']\<rparr>)))) \<and>
     (case Create id (\<lambda>_ _. Inr Default) (\<lambda>_. NotExist) None demo_cfg (Some owned_world) all_succeed (demo_wiring\<lparr>ConnsBuilt := False\<rparr>) ''a'' 0
       (demo_request []) (empty_host\<lparr>Trees := [''/home/op/repo/main.tf'']\<rparr>) of (out, w2) \<Rightarrow> ''/home/op/repo/main.tf'' \<notin> set (Trees w2))"
proof -
  have "safeRecordID k ''default'' = None" "safeRecordID k ''default.default'' = None" for k
    by (auto simp: safeRecordID_def path_base_plain)
  then have "\<exists>scp. ResolveScope id (\<lambda>_ _. Inr Default) (\<lambda>_. NotExist) None (BasePolicy demo_cfg) owned_world [] [] = Inr scp \<and>
      WorkspacePath (ScProject scp) = ''/home/op/repo'' \<and> Tier (Session (ScopePolicy (ScResolved scp))) = [] \<and> EnvDefaultTier (ScEnvironment scp) = []"
    by (simp add: owned_world_def ResolveScope_def resolve_ids_def find_project_def orDefault_def ValidateName_def nameRe_def
        name_head_def name_tail_def LoadProject_def load_record_def demo_world_def resolveEnvironmentLocked_def
        defaultEnvironmentLocked_def LoadEnvironment_def EnvironmentID_def envIDSeparator_def DefaultProjectID_def
        DefaultEnvironmentName_def default_project_def default_environment_def file_layer_def edited_layers_def ResolvePolicy_def
        demo_cfg_def ResolveDefault_def normalize_def Default_def Let_def)
  then obtain scp where scp: "ResolveScope id (\<lambda>_ _. Inr Default) (\<lambda>_. NotExist) None (BasePolicy demo_cfg) owned_world [] [] = Inr scp"
      "WorkspacePath (ScProject scp) = ''/home/op/repo''" "Tier (Session (ScopePolicy (ScResolved scp))) = []" "EnvDefaultTier (ScEnvironment scp) = []" by blast
  have "\<exists>sc r tier ttl. admit id (\<lambda>_ _. Inr Default) (\<lambda>_. NotExist) None demo_cfg (Some owned_world) (demo_request []) =
     Inr (ModeScratch, [], sc, r, tier, ttl)"
    using scp by (auto simp: admit_def demo_request_def parse_mode_def resolveScope_def resolveCreatePolicy_def enforceTier_def demo_cfg_def
      rbind_def Default_def Let_def)
  then obtain sc r tier ttl where a: "admit id (\<lambda>_ _. Inr Default) (\<lambda>_. NotExist) None demo_cfg (Some owned_world) (demo_request []) =
     Inr (ModeScratch, [], sc, r, tier, ttl)" by blast
  have q: "ResolveScope id (\<lambda>_ _. Inr Default) (\<lambda>_. NotExist) None (BasePolicy demo_cfg) owned_world
      (ReqProject (demo_request [])) (ReqEnv (demo_request [])) = Inr scp" by (simp add: demo_request_def scp(1))
  obtain s w1 where c: "Create id (\<lambda>_ _. Inr Default) (\<lambda>_. NotExist) None demo_cfg (Some owned_world) all_succeed demo_wiring ''a'' 0
       (demo_request []) empty_host = (Inr s, w1)"
    using a by (auto simp: Create_def realize_def registerReady_def Let_def demo_wiring_def)
  note th = project_directory_removed [OF a q scp(2), where io = all_succeed and i = "''a''" and now = 0]
  have "\<exists>w2. Create id (\<lambda>_ _. Inr Default) (\<lambda>_. NotExist) None demo_cfg (Some owned_world) all_succeed (demo_wiring\<lparr>ConnsBuilt := False\<rparr>) ''a'' 0
       (demo_request []) (empty_host\<lparr>Trees := [''/home/op/repo/main.tf'']\<rparr>) = (Inl (ConnectionsErr ''build''), w2)"
  proof -
    obtain s w where re: "realize demo_cfg all_succeed ''a'' 0 tier ModeScratch [] ttl LReady r sc
        (empty_host\<lparr>Trees := [''/home/op/repo/main.tf'']\<rparr>) = (Inr s, w)"
      by (auto simp: realize_def Let_def)
    obtain e s2 u where rr: "registerReady all_succeed (demo_wiring\<lparr>ConnsBuilt := False\<rparr>) s w = (e, s2, u)"
      by (cases "registerReady all_succeed (demo_wiring\<lparr>ConnsBuilt := False\<rparr>) s w") auto
    have e: "e = Some (ConnectionsErr ''build'')" by (rule registerReady_refused(1) [OF rr]) (simp add: demo_wiring_def)
    show ?thesis unfolding Create_def a sum.case prod.case re rr e option.case by blast
  qed
  then obtain w2 where c2: "Create id (\<lambda>_ _. Inr Default) (\<lambda>_. NotExist) None demo_cfg (Some owned_world) all_succeed (demo_wiring\<lparr>ConnsBuilt := False\<rparr>) ''a'' 0
       (demo_request []) (empty_host\<lparr>Trees := [''/home/op/repo/main.tf'']\<rparr>) = (Inl (ConnectionsErr ''build''), w2)" by blast
  have "list_all (\<lambda>p. \<not> under_dir ''/home/op/repo'' p) (Trees w2)"
    using th [where g = "demo_wiring\<lparr>ConnsBuilt := False\<rparr>" and w = "empty_host\<lparr>Trees := [''/home/op/repo/main.tf'']\<rparr>"] by (simp add: c2)
  moreover have "under_dir ''/home/op/repo'' ''/home/op/repo/main.tf''" by (simp add: under_dir_def)
  ultimately have "''/home/op/repo/main.tf'' \<notin> set (Trees w2)" by (auto simp: list_all_iff)
  moreover have "MDir s = ''/home/op/repo'' \<and> list_all (\<lambda>p. \<not> under_dir ''/home/op/repo'' p)
       (Trees (snd (life_teardown demo_cfg all_succeed 9 True s (w1\<lparr>Trees := [''/home/op/repo'', ''/home/op/repo/main.tf'', ''/home/op'']\<rparr>))))"
    using th [where g = demo_wiring and w = empty_host and later = 9 and snapshot = True
        and w'' = "w1\<lparr>Trees := [''/home/op/repo'', ''/home/op/repo/main.tf'', ''/home/op'']\<rparr>"] by (simp add: c)
  ultimately show ?thesis using scp(1,2) c c2 by simp
qed

text \<open>
  C37: No session chooses its image. In any run every container boots the image that the daemon's own
  policy pins, or the daemon's configured image when it pins none; no project layer, environment
  overlay or workspace file can name another.
\<close>

theorem sandbox_image_is_configured:
  assumes "(life_step cfg P)\<^sup>*\<^sup>* w w'" and "Engine w = []" and "map_of (Engine w') i = Some c"
  shows "CImage c = (if Image (Session (BasePolicy cfg)) = [] then CfgImage cfg else Image (Session (BasePolicy cfg)))"
proof -
  have "images_ok cfg w" using assms(2) by (simp add: images_ok_def)
  with assms(1) have "images_ok cfg w'" by (induction rule: rtranclp_induct) (auto intro: life_step_images_ok)
  then show ?thesis using map_of_SomeD [OF assms(3)] by (force simp: images_ok_def boots_def)
qed

theorem sandbox_image_is_configured_witness:
  "\<exists>c. map_of (Engine (snd (demo_create demo_wiring))) ''a'' = Some c \<and> CImage c = ''base''"
proof -
  obtain c where c: "map_of (Engine (snd (demo_create demo_wiring))) ''a'' = Some c"
    using demo_admit by (auto simp: demo_create_def Create_def realize_def registerReady_def Let_def demo_wiring_def)
  have none: "Engine empty_host = []" by (simp add: empty_host_def)
  from sandbox_image_is_configured [OF sandbox_demo_run none c] show ?thesis using c by (simp add: demo_cfg_def Default_def)
qed

text \<open>
  C38: Snapshots stay bounded. In any run every stored workspace has between one and the retention limit
  of snapshots (three when none is configured), with strictly increasing tags, each of an image that
  carries its own tag; so a resumed name never reuses the tag of a snapshot that is kept, and its latest
  snapshot is the one with the highest tag.
\<close>

theorem snapshot_retention:
  assumes "(life_step cfg P)\<^sup>*\<^sup>* w w'" and "WorkspaceFiles w = []" and "map_of (WorkspaceFiles w') name = Some (Good r)"
  shows "1 \<le> length (Snapshots r) \<and> length (Snapshots r) \<le> retention cfg \<and> sorted_wrt (<) (map SnapTag (Snapshots r)) \<and>
    list_all (\<lambda>m. SnapImage m = wsImagePrefix @ name @ '':'' @ dec (SnapTag m)) (Snapshots r) \<and>
    latest r = Some (wsImagePrefix @ name @ '':'' @ dec (SnapTag (last (Snapshots r)))) \<and>
    nextTag r = SnapTag (last (Snapshots r)) + 1"
proof -
  have "list_all (workspace_ok cfg) (WorkspaceFiles w')"
    using assms(1,2) by (induction rule: rtranclp_induct) (auto intro: life_step_workspaces)
  then have ok: "workspace_ok cfg (name, Good r)" using map_of_SomeD [OF assms(3)] by (auto simp: list_all_iff)
  then have ne: "Snapshots r \<noteq> []" by (simp add: workspace_ok_def)
  have sorted: "sorted_wrt (<) (map SnapTag (Snapshots r))" using ok by (simp add: workspace_ok_def)
  show ?thesis using ok ne nextTag_sorted [OF ne sorted]
    by (auto simp: workspace_ok_def latest_def snapshot_image_def list_all_iff Suc_le_eq)
qed

definition workspace_session :: msession where
  "workspace_session = (sessionOf \<lparr>RecId = ''a'', RecMode = ModeWorkspace, RecTier = ''container'', RecHandle = ''a'', RecDir = [],
     RecCreated = 0, RecTTL = 60, RecProject = ''default'', RecEnv = ''default.default''\<rparr>)\<lparr>MName := ''n'', MState := LReady\<rparr>"

theorem snapshot_retention_witness:
  "\<exists>r. map_of (WorkspaceFiles (snd (life_Destroy demo_cfg all_succeed 5 ''a'' (empty_host\<lparr>Sessions := [(''a'', workspace_session)]\<rparr>)))) ''n''
       = Some (Good r) \<and> 1 \<le> length (Snapshots r) \<and> length (Snapshots r) \<le> 2"
proof -
  let ?w1 = "empty_host\<lparr>Sessions := [(''a'', workspace_session)]\<rparr>"
  let ?w2 = "snd (life_Destroy demo_cfg all_succeed 5 ''a'' ?w1)"
  have "life_step demo_cfg (\<lambda>_. True) ?w1 ?w2" by (rule life_step.destroy) simp
  then have run: "(life_step demo_cfg (\<lambda>_. True))\<^sup>*\<^sup>* ?w1 ?w2" by blast
  have none: "WorkspaceFiles ?w1 = []" by (simp add: empty_host_def)
  have "\<exists>r. map_of (WorkspaceFiles ?w2) ''n'' = Some (Good r)"
    by (simp add: life_Destroy_def life_teardown_snd remove_sandbox_def Let_def engine_destroy_def final_snapshot_def
        snapshotWorkspace_def load_workspace_def close_trace_def release_handles_def workspace_session_def sessionOf_def empty_host_def)
  then obtain r where r: "map_of (WorkspaceFiles ?w2) ''n'' = Some (Good r)" by blast
  from snapshot_retention [OF run none r] r show ?thesis by (simp add: retention_def demo_cfg_def)
qed

end
