(* ===== verification/Go_Net.thy ===== *)
theory Go_Net
  imports Ops_Prelude
begin

text \<open>
  \<^verbatim>\<open>net.SplitHostPort\<close>, \<^verbatim>\<open>net.JoinHostPort\<close> and \<^verbatim>\<open>strings.Count\<close> of the Go standard library, as far
  as the development uses them.
\<close>

definition SplitHostPort :: "string \<Rightarrow> (string \<times> string) option" where
  "SplitHostPort hp =
     (case last_index (CHR '':'') hp of
        None \<Rightarrow> None
      | Some i \<Rightarrow>
          if hd hp = CHR ''['' then
            let n = length (takeWhile (\<lambda>c. c \<noteq> CHR '']'') hp)
            in if n = length hp \<or> n + 1 \<noteq> i then None
               else let host = take (n - 1) (drop 1 hp)
                    in if CHR ''['' \<in> set (drop 1 hp) \<or> CHR '']'' \<in> set (drop (n + 1) hp) then None
                       else Some (host, drop (i + 1) hp)
          else let host = take i hp
               in if CHR '':'' \<in> set host \<or> CHR ''['' \<in> set hp \<or> CHR '']'' \<in> set hp then None
                  else Some (host, drop (i + 1) hp))"

definition JoinHostPort :: "string \<Rightarrow> string \<Rightarrow> string" where
  "JoinHostPort host port =
     (if CHR '':'' \<in> set host then ''['' @ host @ '']:'' @ port else host @ '':'' @ port)"

fun str_count :: "string \<Rightarrow> string \<Rightarrow> nat" where
  "str_count s sub =
     (if s = [] \<or> sub = [] then 0
      else if has_prefix s sub then 1 + str_count (drop (length sub) s) sub
      else str_count (tl s) sub)"

declare str_count.simps [simp del]

lemma last_index_append: "c \<notin> set ys \<Longrightarrow> last_index c (xs @ c # ys) = Some (length xs)"
  by (induction xs) (auto split: option.splits)

lemma SplitHostPort_plain:
  assumes "CHR '':'' \<notin> set h" "CHR ''['' \<notin> set h" "CHR '']'' \<notin> set h"
    and "CHR '':'' \<notin> set p" "CHR ''['' \<notin> set p" "CHR '']'' \<notin> set p"
  shows "SplitHostPort (h @ '':'' @ p) = Some (h, p)"
proof -
  have "hd (h @ '':'' @ p) \<noteq> CHR ''[''" using assms(2) by (cases h) auto
  then show ?thesis using assms by (simp add: SplitHostPort_def last_index_append Let_def)
qed

lemma SplitHostPort_bracket:
  assumes "CHR ''['' \<notin> set h" "CHR '']'' \<notin> set h"
    and "CHR '':'' \<notin> set p" "CHR ''['' \<notin> set p" "CHR '']'' \<notin> set p"
  shows "SplitHostPort (''['' @ h @ '']:'' @ p) = Some (h, p)"
proof -
  have l: "last_index (CHR '':'') ((''['' @ h @ '']'') @ CHR '':'' # p) = Some (length h + 2)"
    using assms by (subst last_index_append) simp_all
  have t: "takeWhile (\<lambda>c. c \<noteq> CHR '']'') (''['' @ h @ '']:'' @ p) = CHR ''['' # h"
    using assms(2) by (subst append_assoc [symmetric], subst takeWhile_append2) auto
  show ?thesis using l t assms by (simp add: SplitHostPort_def Let_def)
qed

text \<open>Splitting what was joined gives the parts back, for numeric hosts and ports.\<close>

lemma SplitHostPort_JoinHostPort:
  assumes "CHR ''['' \<notin> set h" "CHR '']'' \<notin> set h"
    and "CHR '':'' \<notin> set p" "CHR ''['' \<notin> set p" "CHR '']'' \<notin> set p"
  shows "SplitHostPort (JoinHostPort h p) = Some (h, p)"
  using assms SplitHostPort_plain SplitHostPort_bracket by (simp add: JoinHostPort_def)

lemma SplitHostPort_one_colon:
  assumes "SplitHostPort hp = Some (h, p)" "hd hp \<noteq> CHR ''[''"
  shows "hp = h @ '':'' @ p \<and> CHR '':'' \<notin> set h \<and> CHR '':'' \<notin> set p"
proof -
  obtain i where i: "last_index (CHR '':'') hp = Some i" using assms(1) by (auto simp: SplitHostPort_def split: option.splits)
  note l = last_index_Some [OF i]
  have e: "h = take i hp" "p = drop (Suc i) hp" "CHR '':'' \<notin> set (take i hp)"
    using assms i by (auto simp: SplitHostPort_def Let_def split: if_splits)
  have "hp = take i hp @ hp ! i # drop (Suc i) hp" using l id_take_nth_drop by blast
  then show ?thesis using e l by simp
qed

end
