(* ===== verification/Broker_Connections.thy ===== *)
theory Broker_Connections
  imports Project_Store Egress_Policy Go_Net Broker_Vault
begin

text \<open>
  \<^verbatim>\<open>internal/broker/connection.go\<close>, \<^verbatim>\<open>connection_http.go\<close>, \<^verbatim>\<open>connection_kubernetes.go\<close>,
  \<^verbatim>\<open>connection_ssh.go\<close> and \<^verbatim>\<open>connection_store.go\<close>: the connection kinds, what each contributes to a
  session, the registry, the store that keeps one file per connection and the service over it. YAML
  encoding, \<^verbatim>\<open>url.Parse\<close>, the OpenSSH tools and the host's file system are parameters.
\<close>

subsection \<open>Specs and their validation (connection.go)\<close>

record ConnectionSpec =
  CName :: string
  CKind :: string
  CProjectID :: string
  CEnvironmentID :: string
  SecretRef :: string
  Hosts :: "string list"
  Config :: "(string \<times> string) list"

definition KindHTTP :: string where "KindHTTP = ''http''"
definition KindKubernetes :: string where "KindKubernetes = ''kubernetes''"
definition KindSSH :: string where "KindSSH = ''ssh''"

definition config_value :: "ConnectionSpec \<Rightarrow> string \<Rightarrow> string" where
  "config_value s k = (case map_of (Config s) k of Some x \<Rightarrow> x | None \<Rightarrow> [])"

definition low_alnum :: "char \<Rightarrow> bool" where
  "low_alnum c \<longleftrightarrow> (CHR ''a'' \<le> c \<and> c \<le> CHR ''z'') \<or> (CHR ''0'' \<le> c \<and> c \<le> CHR ''9'')"

definition connectionNameRe :: "string \<Rightarrow> bool" where
  "connectionNameRe s \<longleftrightarrow> s \<noteq> [] \<and> length s \<le> 40 \<and> low_alnum (hd s) \<and> low_alnum (last s) \<and>
     list_all (\<lambda>c. low_alnum c \<or> c = CHR ''-'') s"

definition host_forbidden :: "char list" where
  "host_forbidden = [CHR ''/'', CHR 0x5C, CHR '' '', CHR 0x09, CHR 0x00, CHR ''?'', CHR ''#'', CHR ''@'', CHR ''*'']"

definition validateHost :: "string \<Rightarrow> string option" where
  "validateHost h =
     (if h = [] then Some ''empty host''
      else if length h > 253 then Some ''host is too long''
      else if list_ex (\<lambda>c. c \<in> set host_forbidden) h then Some ''host must be a bare host or host:port''
      else if str_contains h ''://'' then Some ''host must not carry a scheme''
      else if (case SplitHostPort h of Some (hh, p) \<Rightarrow> hh | None \<Rightarrow> h) = [] then Some ''host has no host part''
      else None)"

definition ValidateSpec :: "ConnectionSpec \<Rightarrow> vault_error option" where
  "ValidateSpec s =
     (if \<not> connectionNameRe (CName s) then Some (InvalidInput ''connection name'')
      else if CKind s = [] then Some (InvalidInput ''connection needs a kind'')
      else if SecretRef s = [] then Some (InvalidInput ''connection needs a secret ref'')
      else case ValidateRef (SecretRef s) of
          Some e \<Rightarrow> Some e
        | None \<Rightarrow> (case List.find (\<lambda>h. validateHost h \<noteq> None) (Hosts s) of
              Some h \<Rightarrow> map_option InvalidInput (validateHost h)
            | None \<Rightarrow> None))"

subsection \<open>What a kind contributes to a session\<close>

record SessionContext =
  CtxSession :: string
  WorkspaceDir :: string
  ProxyAddr :: string
  ProxyCAPEM :: string

record InjectedFile =
  FPath :: string
  FMode :: "32 word"
  FContent :: string

record HeaderInjectRule =
  HHost :: string
  HRef :: string
  HName :: string
  HFormat :: string

record ConnectionInjection =
  InjEnv :: "(string \<times> string) list"
  InjFiles :: "InjectedFile list"

definition no_injection :: ConnectionInjection where
  "no_injection = \<lparr>InjEnv = [], InjFiles = []\<rparr>"

definition env_entries :: "(string \<times> string) list \<Rightarrow> (string \<times> string) list \<Rightarrow> (string \<times> string) list" where
  "env_entries = foldl (\<lambda>env (k, x). al_put k x env)"

text \<open>\<^verbatim>\<open>Merge\<close>: the first conflicting variable or file, or the union.\<close>

definition Merge :: "ConnectionInjection \<Rightarrow> ConnectionInjection \<Rightarrow> string + ConnectionInjection" where
  "Merge i other =
     (case List.find (\<lambda>(k, x). map_of (InjEnv i) k \<noteq> None \<and> map_of (InjEnv i) k \<noteq> Some x) (InjEnv other) of
        Some (k, x) \<Rightarrow> Inl k
      | None \<Rightarrow>
          (case List.find (\<lambda>f. FPath f \<in> set (map FPath (InjFiles i))) (InjFiles other) of
             Some f \<Rightarrow> Inl (FPath f)
           | None \<Rightarrow> Inr \<lparr>InjEnv = env_entries (InjEnv i) (InjEnv other), InjFiles = InjFiles i @ InjFiles other\<rparr>))"

definition validateInjectedPath :: "string \<Rightarrow> vault_error option" where
  "validateInjectedPath p =
     (if p = [] then Some (InvalidInput ''injected file needs a path'')
      else if has_prefix p ''/'' then Some (InvalidInput ''injected path must be relative'')
      else if list_ex (\<lambda>seg. seg \<in> {''.'', ''..'', []}) (split_on (CHR ''/'') p) then Some (InvalidInput ''injected path segment'')
      else if CHR 0x00 \<in> set p then Some (InvalidInput ''injected path contains NUL'')
      else None)"

definition env_name_ok :: "string \<Rightarrow> bool" where
  "env_name_ok k \<longleftrightarrow> k \<noteq> [] \<and> CHR ''='' \<notin> set k \<and> CHR 0x00 \<notin> set k"

definition ValidateInjection :: "ConnectionInjection \<Rightarrow> vault_error option" where
  "ValidateInjection i =
     (case List.find (\<lambda>f. validateInjectedPath (FPath f) \<noteq> None) (InjFiles i) of
        Some f \<Rightarrow> validateInjectedPath (FPath f)
      | None \<Rightarrow> if list_ex (\<lambda>p. \<not> env_name_ok (fst p)) (InjEnv i) then Some (InvalidInput ''environment variable name'') else None)"

subsection \<open>http (connection\_http.go)\<close>

definition headerName :: "ConnectionSpec \<Rightarrow> string" where
  "headerName s = (if config_value s ''header_name'' \<noteq> [] then config_value s ''header_name'' else ''Authorization'')"

definition headerFormat :: "ConnectionSpec \<Rightarrow> string" where
  "headerFormat s = config_value s ''header_format''"

definition http_Validate :: "ConnectionSpec \<Rightarrow> vault_error option" where
  "http_Validate s =
     (case ValidateSpec s of
        Some e \<Rightarrow> Some e
      | None \<Rightarrow>
          if Hosts s = [] then Some (InvalidInput ''http connection needs at least one host'')
          else if list_ex (\<lambda>c. c \<in> set [CHR '' '', CHR 0x09, CHR 0x0D, CHR 0x0A, CHR '':'', CHR 0x00]) (headerName s) \<or> headerName s = []
            then Some (InvalidInput ''header name'')
          else if headerFormat s \<noteq> [] \<and> (str_count (headerFormat s) ''%s'' \<noteq> 1 \<or> str_count (headerFormat s) ''%'' \<noteq> 1)
            then Some (InvalidInput ''header_format must contain exactly one %s'')
          else if headerFormat s \<noteq> [] \<and> list_ex (\<lambda>c. c \<in> set [CHR 0x0D, CHR 0x0A, CHR 0x00]) (headerFormat s)
            then Some (InvalidInput ''header_format contains a control character'')
          else None)"

definition http_EgressRules :: "ConnectionSpec \<Rightarrow> HeaderInjectRule list" where
  "http_EgressRules s =
     map (\<lambda>h. \<lparr>HHost = h, HRef = SecretRef s, HName = headerName s, HFormat = headerFormat s\<rparr>) (Hosts s)"

subsection \<open>kubernetes (connection\_kubernetes.go)\<close>

definition kubeconfigPath :: string where "kubeconfigPath = ''.opslify/kubeconfig''"

definition clusterName :: "ConnectionSpec \<Rightarrow> string" where
  "clusterName s = (if config_value s ''cluster'' \<noteq> [] then config_value s ''cluster'' else CName s)"

definition kube_namespace :: "ConnectionSpec \<Rightarrow> string" where
  "kube_namespace s = (if config_value s ''namespace'' \<noteq> [] then config_value s ''namespace'' else ''default'')"

definition isDNSLabel :: "string \<Rightarrow> bool" where
  "isDNSLabel s \<longleftrightarrow> s \<noteq> [] \<and> length s \<le> 63 \<and>
     list_all (\<lambda>i. low_alnum (s ! i) \<or> (s ! i = CHR ''-'' \<and> i \<noteq> 0 \<and> i \<noteq> length s - 1)) [0..<length s]"

definition banned_config :: "string list" where
  "banned_config = [''server'', ''insecure-skip-tls-verify'', ''token'', ''client-certificate-data'', ''client-key-data'']"

definition kube_Validate :: "ConnectionSpec \<Rightarrow> vault_error option" where
  "kube_Validate s =
     (case ValidateSpec s of
        Some e \<Rightarrow> Some e
      | None \<Rightarrow>
          if length (Hosts s) \<noteq> 1 then Some (InvalidInput ''kubernetes connection needs exactly one host'')
          else if list_ex (\<lambda>b. map_of (Config s) b \<noteq> None) banned_config then Some (InvalidInput ''banned setting'')
          else if config_value s ''namespace'' \<noteq> [] \<and> \<not> isDNSLabel (config_value s ''namespace'') then Some (InvalidInput ''namespace'')
          else if config_value s ''cluster'' \<noteq> [] \<and> \<not> isDNSLabel (config_value s ''cluster'') then Some (InvalidInput ''cluster name'')
          else None)"

definition kube_EgressRules :: "ConnectionSpec \<Rightarrow> HeaderInjectRule list" where
  "kube_EgressRules s =
     [\<lparr>HHost = hd (Hosts s), HRef = SecretRef s, HName = ''Authorization'', HFormat = ''Bearer %s''\<rparr>]"

text \<open>The generated kubeconfig. Its user block is empty: there is no field for a credential.\<close>

record kubeconfig =
  KCluster :: string
  KServer :: string
  KCAData :: string
  KContext :: string
  KUser :: string
  KNamespace :: string
  KUsers :: "string list"

text \<open>\<open>bare_host\<close> is the host of an URL without path and user info, from \<^verbatim>\<open>url.Parse\<close>.\<close>

definition renderKubeconfig ::
  "(string \<Rightarrow> string option) \<Rightarrow> (kubeconfig \<Rightarrow> string option) \<Rightarrow> ConnectionSpec \<Rightarrow> SessionContext \<Rightarrow> vault_error + string" where
  "renderKubeconfig bare_host yaml s sc =
     (let server = ''https://'' @ ProxyAddr sc
      in case bare_host server of
          None \<Rightarrow> Inl (InvalidInput ''proxy address is not a bare host:port'')
        | Some host \<Rightarrow>
            if host = [] then Inl (InvalidInput ''proxy address is not a bare host:port'')
            else if SplitHostPort host = None then Inl (InvalidInput ''proxy address needs host:port'')
            else
              let cluster = clusterName s; user = cluster @ ''-via-opslify''
              in case yaml \<lparr>KCluster = cluster, KServer = server, KCAData = b64_encode (ProxyCAPEM sc), KContext = cluster,
                     KUser = user, KNamespace = kube_namespace s, KUsers = [user]\<rparr> of
                  None \<Rightarrow> Inl (Failure ''render kubeconfig'')
                | Some out \<Rightarrow> Inr (''# Generated by opslifyd for one session. It contains NO credential:'' @ [CHR 0x0A] @
                    ''# the server is this session's proxy, which adds the real token upstream.'' @ [CHR 0x0A] @
                    ''# Copying this file elsewhere gains nothing.'' @ [CHR 0x0A] @ out))"

definition kube_BuildForSession ::
  "(string \<Rightarrow> string option) \<Rightarrow> (kubeconfig \<Rightarrow> string option) \<Rightarrow> ConnectionSpec \<Rightarrow> SessionContext \<Rightarrow>
     vault_error + ConnectionInjection" where
  "kube_BuildForSession bare_host yaml s sc =
     (if ProxyAddr sc = [] then Inl (Denied ''kubernetes connection needs the session proxy address'')
      else if ProxyCAPEM sc = [] then Inl (Denied ''kubernetes connection needs the per-session proxy CA'')
      else case renderKubeconfig bare_host yaml s sc of
          Inl e \<Rightarrow> Inl e
        | Inr cfg \<Rightarrow>
            let inj = \<lparr>InjEnv = [(''KUBECONFIG'', ''/workspace/'' @ kubeconfigPath)],
                  InjFiles = [\<lparr>FPath = kubeconfigPath, FMode = 0x180, FContent = cfg\<rparr>]\<rparr>
            in case ValidateInjection inj of Some e \<Rightarrow> Inl e | None \<Rightarrow> Inr inj)"

subsection \<open>ssh (connection\_ssh.go)\<close>

definition minSSHMajor :: int where "minSSHMajor = 8"
definition minSSHMinor :: int where "minSSHMinor = 9"

definition knownHostsPath :: "ConnectionSpec \<Rightarrow> string" where
  "knownHostsPath s = config_value s ''known_hosts_path''"

definition ssh_Validate :: "ConnectionSpec \<Rightarrow> vault_error option" where
  "ssh_Validate s =
     (case ValidateSpec s of
        Some e \<Rightarrow> Some e
      | None \<Rightarrow>
          if Hosts s = [] then Some (InvalidInput ''ssh connection needs at least one destination'')
          else if knownHostsPath s = [] then Some (InvalidInput ''ssh connection needs known_hosts_path'')
          else if \<not> has_prefix (knownHostsPath s) ''/'' then Some (InvalidInput ''known_hosts_path must be absolute'')
          else None)"

text \<open>
  What the host answers while an agent is set up, and what is done to it. Whether \<^verbatim>\<open>ssh-add\<close> loads a key
  depends on the key.
\<close>

record ssh_host =
  EvalSymlinks :: "string \<Rightarrow> string + string option"
  StatOk :: "string \<Rightarrow> bool"
  SSHVersion :: "(int \<times> int) option"
  TempDir :: "string option"
  ChmodOk :: bool
  AgentStarts :: bool
  KeyLoads :: "string \<Rightarrow> bool"

datatype ssh_act =
    StartAgent string
  | AddKey (ActSocket: string) (ActKey: string) (ActHosts: "string list") (ActKnownHosts: string)
  | StopAgent string
  | RemoveDir string

text \<open>\<^verbatim>\<open>filepath.Rel\<close> of two cleaned absolute paths climbs exactly when the second is not below the first.\<close>

definition below :: "string \<Rightarrow> string \<Rightarrow> bool" where
  "below r p \<longleftrightarrow> p = r \<or> r = ''/'' \<or> has_prefix p (r @ ''/'')"

text \<open>\<open>EvalSymlinks\<close> answers an error, no such file, or the real path.\<close>

definition pathInside :: "ssh_host \<Rightarrow> string \<Rightarrow> string \<Rightarrow> vault_error + bool" where
  "pathInside h dir path =
     (if dir = [] \<or> path = [] then Inr False
      else case EvalSymlinks h dir of
          Inl e \<Rightarrow> Inl (InvalidInput ''resolve'')
        | Inr None \<Rightarrow> Inr False
        | Inr (Some realRoot) \<Rightarrow>
            (case EvalSymlinks h path of
               Inl e \<Rightarrow> Inl (InvalidInput ''resolve'')
             | Inr None \<Rightarrow> Inr (below realRoot (path_clean path))
             | Inr (Some realPath) \<Rightarrow> Inr (below realRoot realPath)))"

definition ssh_cleanup :: "string \<Rightarrow> ssh_act list" where
  "ssh_cleanup dir = [StopAgent dir, RemoveDir dir]"

text \<open>From the resolved key on: the socket, the agent and the constrained key.\<close>

definition ssh_start_agent ::
  "ssh_host \<Rightarrow> ConnectionSpec \<Rightarrow> string \<Rightarrow> (vault_error + ConnectionInjection \<times> ssh_act list) \<times> ssh_act list" where
  "ssh_start_agent h s key =
     (case TempDir h of
        None \<Rightarrow> (Inl (Failure ''create agent socket dir''), [])
      | Some dir \<Rightarrow>
          let sock = dir @ ''/agent.sock''
          in if \<not> ChmodOk h then (Inl (Failure ''secure agent socket dir''), [RemoveDir dir])
             else if \<not> AgentStarts h then (Inl (Denied ''start agent''), [RemoveDir dir])
             else if \<not> KeyLoads h key
               then (Inl (Denied ''load key with destination constraints''), StartAgent sock # ssh_cleanup dir)
             else (let acts = [StartAgent sock, AddKey sock key (Hosts s) (knownHostsPath s)];
                       inj = \<lparr>InjEnv = [(''SSH_AUTH_SOCK'', sock)], InjFiles = []\<rparr>
                   in case ValidateInjection inj of
                       Some e \<Rightarrow> (Inl e, acts @ ssh_cleanup dir)
                     | None \<Rightarrow> (Inr (inj, ssh_cleanup dir), acts)))"

definition ssh_too_old :: "int \<times> int \<Rightarrow> bool" where
  "ssh_too_old v \<longleftrightarrow> fst v < minSSHMajor \<or> (fst v = minSSHMajor \<and> snd v < minSSHMinor)"

definition ssh_BuildForSession ::
  "ssh_host \<Rightarrow> (string \<Rightarrow> string option) option \<Rightarrow> ConnectionSpec \<Rightarrow> SessionContext \<Rightarrow>
     (vault_error + ConnectionInjection \<times> ssh_act list) \<times> ssh_act list" where
  "ssh_BuildForSession h getter s sc =
     (if WorkspaceDir sc = [] then (Inl (InvalidInput ''ssh connection needs a workspace''), [])
      else case pathInside h (WorkspaceDir sc) (knownHostsPath s) of
          Inl e \<Rightarrow> (Inl e, [])
        | Inr inside \<Rightarrow>
            if inside then (Inl (Denied ''known_hosts_path is inside the workspace''), [])
            else if \<not> StatOk h (knownHostsPath s) then (Inl (Denied ''known_hosts_path is unreadable''), [])
            else (case SSHVersion h of
                None \<Rightarrow> (Inl (Denied ''cannot determine the local OpenSSH version''), [])
              | Some v \<Rightarrow>
                  if ssh_too_old v then (Inl (Denied ''OpenSSH is too old for destination constraints''), [])
                  else (case getter of
                      None \<Rightarrow> (Inl (InvalidInput ''no secret resolver''), [])
                    | Some get \<Rightarrow>
                        (case get (SecretRef s) of
                           None \<Rightarrow> (Inl (Denied ''resolve''), [])
                         | Some key \<Rightarrow> ssh_start_agent h s key))))"

subsection \<open>The registry\<close>

datatype Connection = HTTPConnection ConnectionSpec | KubernetesConnection ConnectionSpec | SSHConnection ConnectionSpec

fun spec_of :: "Connection \<Rightarrow> ConnectionSpec" where
  "spec_of (HTTPConnection s) = s"
| "spec_of (KubernetesConnection s) = s"
| "spec_of (SSHConnection s) = s"

definition conn_SecretRefs :: "Connection \<Rightarrow> string list" where
  "conn_SecretRefs c = [SecretRef (spec_of c)]"

fun conn_Validate :: "Connection \<Rightarrow> vault_error option" where
  "conn_Validate (HTTPConnection s) = http_Validate s"
| "conn_Validate (KubernetesConnection s) = kube_Validate s"
| "conn_Validate (SSHConnection s) = ssh_Validate s"

fun conn_EgressRules :: "Connection \<Rightarrow> HeaderInjectRule list" where
  "conn_EgressRules (HTTPConnection s) = http_EgressRules s"
| "conn_EgressRules (KubernetesConnection s) = kube_EgressRules s"
| "conn_EgressRules (SSHConnection s) = []"

text \<open>What a build may use of the host: URL parsing, YAML and the OpenSSH tools.\<close>

record build_env =
  BareHost :: "string \<Rightarrow> string option"
  Yaml :: "kubeconfig \<Rightarrow> string option"
  SSH :: "string \<Rightarrow> ssh_host"

fun BuildForSession ::
  "build_env \<Rightarrow> (string \<Rightarrow> string option) option \<Rightarrow> Connection \<Rightarrow> SessionContext \<Rightarrow>
     (vault_error + ConnectionInjection \<times> ssh_act list) \<times> ssh_act list" where
  "BuildForSession b getter (HTTPConnection s) sc = (Inr (no_injection, []), [])"
| "BuildForSession b getter (KubernetesConnection s) sc =
     (map_sum (\<lambda>e. e) (\<lambda>i. (i, [])) (kube_BuildForSession (BareHost b) (Yaml b) s sc), [])"
| "BuildForSession b getter (SSHConnection s) sc = ssh_BuildForSession (SSH b (CName s)) getter s sc"

definition DefaultRegistry :: "(string \<times> (ConnectionSpec \<Rightarrow> Connection)) list" where
  "DefaultRegistry = [(KindHTTP, HTTPConnection), (KindKubernetes, KubernetesConnection), (KindSSH, SSHConnection)]"

definition Build :: "(string \<times> (ConnectionSpec \<Rightarrow> Connection)) list \<Rightarrow> ConnectionSpec \<Rightarrow> vault_error + Connection" where
  "Build reg s =
     (case map_of reg (CKind s) of
        None \<Rightarrow> Inl (InvalidInput ''unknown connection kind'')
      | Some b \<Rightarrow> (case conn_Validate (b s) of Some e \<Rightarrow> Inl e | None \<Rightarrow> Inr (b s)))"

subsection \<open>The store and the service (connection\_store.go)\<close>

definition ScopeKey :: "string \<Rightarrow> string \<Rightarrow> string" where
  "ScopeKey pid eid = (if eid \<noteq> [] then eid else if pid \<noteq> [] then pid else ''_daemon'')"

definition recordName :: "string \<Rightarrow> string \<Rightarrow> string" where
  "recordName scopeKey name = scopeKey @ ''__'' @ name"

definition safeConnectionID :: "string \<Rightarrow> vault_error option" where
  "safeConnectionID i =
     (if i = [] then Some (InvalidInput ''empty connection id'')
      else if i \<noteq> path_base i \<or> i = ''.'' \<or> i = ''..'' \<or> CHR ''/'' \<in> set i \<or> CHR 0x5C \<in> set i \<or> CHR 0x00 \<in> set i
        then Some (InvalidInput ''unsafe connection id'')
      else None)"

type_synonym connection_files = "ConnectionSpec files"

definition conn_Save :: "(io_step \<Rightarrow> bool) \<Rightarrow> ConnectionSpec \<Rightarrow> connection_files \<Rightarrow> vault_error option \<times> connection_files" where
  "conn_Save io s fs =
     (case ValidateSpec s of
        Some e \<Rightarrow> (Some e, fs)
      | None \<Rightarrow>
          (case safeConnectionID (ScopeKey (CProjectID s) (CEnvironmentID s)) of
             Some e \<Rightarrow> (Some e, fs)
           | None \<Rightarrow>
               let i = recordName (ScopeKey (CProjectID s) (CEnvironmentID s)) (CName s)
               in case safeConnectionID i of
                   Some e \<Rightarrow> (Some e, fs)
                 | None \<Rightarrow>
                     if \<not> io DoMarshal then (Some (IOFailed DoMarshal), fs)
                     else if \<not> io DoWrite then (Some (IOFailed DoWrite), fs)
                     else if \<not> io DoRename then (Some (IOFailed DoRename), fs)
                     else (None, al_put i (Good s) fs)))"

definition conn_Load :: "connection_files \<Rightarrow> string \<Rightarrow> string \<Rightarrow> vault_error + ConnectionSpec option" where
  "conn_Load fs scopeKey name =
     (case safeConnectionID (recordName scopeKey name) of
        Some e \<Rightarrow> Inl e
      | None \<Rightarrow>
          (case map_of fs (recordName scopeKey name) of
             None \<Rightarrow> Inr None
           | Some (Good s) \<Rightarrow> Inr (Some s)
           | Some Corrupt \<Rightarrow> Inl (Failure ''parse connection'')
           | Some Unreadable \<Rightarrow> Inl (Failure ''read connection'')))"

text \<open>The listing skips what it cannot read or parse, with a line in the log.\<close>

definition conn_List :: "bool \<Rightarrow> connection_files \<Rightarrow> vault_error + ConnectionSpec list" where
  "conn_List readable fs =
     (if \<not> readable then Inl (Failure ''read connection state dir'')
      else Inr (sort_key CProjectID (sort_key CEnvironmentID (sort_key CName
                  (concat (map (\<lambda>(i, f). case f of Good s \<Rightarrow> [s] | _ \<Rightarrow> []) fs))))))"

definition conn_Delete :: "bool \<Rightarrow> string \<Rightarrow> string \<Rightarrow> connection_files \<Rightarrow> vault_error option \<times> connection_files" where
  "conn_Delete io scopeKey name fs =
     (case safeConnectionID (recordName scopeKey name) of
        Some e \<Rightarrow> (Some e, fs)
      | None \<Rightarrow>
          if map_of fs (recordName scopeKey name) = None then (None, fs)
          else if \<not> io then (Some (Failure ''delete connection''), fs)
          else (None, al_del (recordName scopeKey name) fs))"

definition conn_Add ::
  "(string \<times> (ConnectionSpec \<Rightarrow> Connection)) list \<Rightarrow> (io_step \<Rightarrow> bool) \<Rightarrow> ConnectionSpec \<Rightarrow> connection_files \<Rightarrow>
     vault_error option \<times> connection_files" where
  "conn_Add reg io s fs =
     (case Build reg s of
        Inl e \<Rightarrow> (Some e, fs)
      | Inr c \<Rightarrow>
          (case conn_Load fs (ScopeKey (CProjectID s) (CEnvironmentID s)) (CName s) of
             Inl e \<Rightarrow> (Some e, fs)
           | Inr (Some existing) \<Rightarrow> (Some (AlreadyExists (CName existing)), fs)
           | Inr None \<Rightarrow> conn_Save io s fs))"

definition conn_check :: "(string \<times> (ConnectionSpec \<Rightarrow> Connection)) list \<Rightarrow> ConnectionSpec \<Rightarrow> vault_error option" where
  "conn_check reg s = (case Build reg s of Inl e \<Rightarrow> Some e | Inr c \<Rightarrow> None)"

definition conn_Replace ::
  "(string \<times> (ConnectionSpec \<Rightarrow> Connection)) list \<Rightarrow> (io_step \<Rightarrow> bool) \<Rightarrow> ConnectionSpec \<Rightarrow> connection_files \<Rightarrow>
     vault_error option \<times> connection_files" where
  "conn_Replace reg io s fs = (case Build reg s of Inl e \<Rightarrow> (Some e, fs) | Inr c \<Rightarrow> conn_Save io s fs)"

definition conn_Remove :: "bool \<Rightarrow> string \<Rightarrow> string \<Rightarrow> string \<Rightarrow> connection_files \<Rightarrow> vault_error option \<times> connection_files" where
  "conn_Remove io pid eid name fs =
     (case conn_Load fs (ScopeKey pid eid) name of
        Inl e \<Rightarrow> (Some e, fs)
      | Inr None \<Rightarrow> (Some (NotFound name), fs)
      | Inr (Some s) \<Rightarrow> conn_Delete io (ScopeKey pid eid) name fs)"

definition specApplies :: "ConnectionSpec \<Rightarrow> string \<Rightarrow> string \<Rightarrow> bool" where
  "specApplies s pid eid =
     (if CEnvironmentID s \<noteq> [] then CEnvironmentID s = eid
      else if CProjectID s \<noteq> [] then CProjectID s = pid
      else True)"

fun build_all :: "(string \<times> (ConnectionSpec \<Rightarrow> Connection)) list \<Rightarrow> ConnectionSpec list \<Rightarrow> vault_error + Connection list" where
  "build_all reg [] = Inr []"
| "build_all reg (s # ss) = rbind (Build reg s) (\<lambda>c. rbind (build_all reg ss) (\<lambda>cs. Inr (c # cs)))"

definition ForScope ::
  "(string \<times> (ConnectionSpec \<Rightarrow> Connection)) list \<Rightarrow> bool \<Rightarrow> connection_files \<Rightarrow> string \<Rightarrow> string \<Rightarrow> vault_error + Connection list" where
  "ForScope reg readable fs pid eid =
     rbind (conn_List readable fs) (\<lambda>specs. build_all reg (filter (\<lambda>s. specApplies s pid eid) specs))"

end
