(* ===== verification/Broker_Inject.thy ===== *)
theory Broker_Inject
  imports Broker_Connections Broker_Resolve Net_Rules
begin

text \<open>
  The credentials of a session: the injector (\<^verbatim>\<open>internal/broker/inject.go\<close>), the endpoint that serves
  a session its AWS credential (\<^verbatim>\<open>credserver.go\<close>) and the wiring of a new session
  (\<^verbatim>\<open>internal/session/connections.go\<close>, \<^verbatim>\<open>egressinject.go\<close>, \<^verbatim>\<open>registryinject.go\<close>, \<^verbatim>\<open>netscope.go\<close> and
  the injection functions of \<^verbatim>\<open>manager.go\<close>). JSON decoding, IP parsing, time formatting, the listeners
  and the cloud adapters are parameters. Names of credentials are ASCII, as the vault's refs are.
\<close>

subsection \<open>Adapters (inject.go)\<close>

definition DefaultInjectTTL :: int where "DefaultInjectTTL = 900000000000"

definition CredPath :: string where "CredPath = ''/creds/''"

record Injection =
  IEnv :: "string list"
  ServeBody :: "string option"
  ServeContentType :: string
  ExpiresAt :: int
  Blind :: bool

record InjectContext =
  IcSession :: string
  EndpointBaseURL :: string
  Token :: string
  IcTTL :: int
  Now :: int

type_synonym adapter = "InjectContext \<Rightarrow> cred \<Rightarrow> SecretMeta \<Rightarrow> string \<Rightarrow> vault_error + Injection"

text \<open>Decoding a JSON object, encoding one, and the RFC 3339 text of an instant.\<close>

record json_lib =
  Unmarshal :: "string \<Rightarrow> (string \<times> string) list option"
  Marshal :: "(string \<times> string) list \<Rightarrow> string option"
  RFC3339 :: "int \<Rightarrow> string"

definition trim_slashes :: "string \<Rightarrow> string" where
  "trim_slashes s = rev (dropWhile (\<lambda>c. c = CHR ''/'') (rev s))"

definition awsCredBody :: "json_lib \<Rightarrow> string \<Rightarrow> int \<Rightarrow> vault_error + string" where
  "awsCredBody J val exp =
     (case Unmarshal J val of
        None \<Rightarrow> Inl (InvalidInput ''aws credential must be a JSON document'')
      | Some doc \<Rightarrow>
          (case Marshal J (al_put ''Expiration'' (RFC3339 J exp) doc) of
             None \<Rightarrow> Inl (Failure ''marshal aws credential body'')
           | Some out \<Rightarrow> Inr out))"

definition aws_adapter :: "json_lib \<Rightarrow> adapter" where
  "aws_adapter J ic grant meta val =
     (if EndpointBaseURL ic = [] then Inl (InvalidInput ''aws path requires a creds endpoint'')
      else
        let exp = Now ic + IcTTL ic
        in case awsCredBody J val exp of
            Inl e \<Rightarrow> Inl e
          | Inr body \<Rightarrow>
              Inr \<lparr>IEnv = [''AWS_CONTAINER_CREDENTIALS_FULL_URI='' @ trim_slashes (EndpointBaseURL ic) @ CredPath @ IcSession ic,
                           ''AWS_CONTAINER_CREDENTIALS_TOKEN='' @ Token ic],
                   ServeBody = Some body, ServeContentType = ''application/json'', ExpiresAt = exp, Blind = True\<rparr>)"

definition upper_char :: "char \<Rightarrow> char" where
  "upper_char c = (if CHR ''a'' \<le> c \<and> c \<le> CHR ''z'' then char_of ((of_char c :: nat) - 32) else c)"

definition sanitizeEnvKey :: "string \<Rightarrow> string" where
  "sanitizeEnvKey ref =
     map (\<lambda>c. if (CHR ''A'' \<le> c \<and> c \<le> CHR ''Z'') \<or> (CHR ''0'' \<le> c \<and> c \<le> CHR ''9'') \<or> c = CHR ''_'' then c else CHR ''_'')
       (map upper_char ref)"

definition envVarFor :: "cred \<Rightarrow> string" where
  "envVarFor g =
     (if Provider g = ''gcp'' \<or> Provider g = ''google'' then ''CLOUDSDK_AUTH_ACCESS_TOKEN''
      else if Provider g = ''azure'' then ''AZURE_ACCESS_TOKEN''
      else ''OPSLIFY_CRED_'' @ sanitizeEnvKey (CredName g))"

definition env_adapter :: adapter where
  "env_adapter ic grant meta val =
     Inr \<lparr>IEnv = [envVarFor grant @ ''='' @ val], ServeBody = None, ServeContentType = [], ExpiresAt = Now ic + IcTTL ic,
          Blind = False\<rparr>"

subsection \<open>The endpoint (credserver.go)\<close>

record credEntry =
  EToken :: string
  EBody :: string
  EContentType :: string
  EExpires :: int

type_synonym cred_server = "string \<Rightarrow> credEntry option"

definition Register :: "string \<Rightarrow> string \<Rightarrow> string \<Rightarrow> string \<Rightarrow> int \<Rightarrow> cred_server \<Rightarrow> cred_server" where
  "Register i token body ct exp s = s(i \<mapsto> \<lparr>EToken = token, EBody = body, EContentType = ct, EExpires = exp\<rparr>)"

definition Release :: "string \<Rightarrow> cred_server \<Rightarrow> cred_server" where
  "Release i s = s(i := None)"

record http_request =
  Method :: string
  Path :: string
  Authorization :: string
  RemoteAddr :: string

datatype http_answer = Status nat | Served string string

definition ServeHTTP :: "cred_server \<Rightarrow> int \<Rightarrow> http_request \<Rightarrow> http_answer" where
  "ServeHTTP s now r =
     (if Method r \<noteq> ''GET'' then Status 405
      else if \<not> has_prefix (Path r) CredPath then Status 403
      else
        let i = drop (length CredPath) (Path r)
        in if i = [] \<or> CHR ''/'' \<in> set i then Status 403
           else
             let presented = trim_prefix (trim_space (Authorization r)) ''Bearer ''
             in case s i of
                 None \<Rightarrow> Status 403
               | Some e \<Rightarrow>
                   if presented = [] \<or> presented \<noteq> EToken e then Status 403
                   else if EExpires e \<le> now then Status 403
                   else Served (if EContentType e = [] then ''application/json'' else EContentType e) (EBody e))"

text \<open>\<^verbatim>\<open>sourceScoped\<close>: a listener that answers the owning container only.\<close>

definition hostOfRemoteAddr :: "string \<Rightarrow> string" where
  "hostOfRemoteAddr a = (case SplitHostPort a of Some (h, p) \<Rightarrow> h | None \<Rightarrow> a)"

definition sourceScoped :: "(http_request \<Rightarrow> http_answer) \<Rightarrow> string \<Rightarrow> http_request \<Rightarrow> http_answer" where
  "sourceScoped next_handler allowIP r =
     (if allowIP = [] then next_handler r
      else if hostOfRemoteAddr (RemoteAddr r) \<noteq> allowIP then Status 403
      else next_handler r)"

subsection \<open>The injector\<close>

text \<open>\<open>InBackend\<close> is the broker: absent, or there with or without a backend.\<close>

record injector =
  InBackend :: "backend option option"
  HasServer :: bool
  BaseURL :: string
  InTTL :: int
  Adapters :: "(string \<times> adapter) list"
  OAuth2 :: "adapter option"

definition isOAuth2Provider :: "string \<Rightarrow> bool" where
  "isOAuth2Provider p \<longleftrightarrow> p = ''oauth2'' \<or> has_prefix p ''oauth2/''"

definition NewInjector :: "json_lib \<Rightarrow> backend option option \<Rightarrow> bool \<Rightarrow> string \<Rightarrow> int \<Rightarrow> injector" where
  "NewInjector J backend server baseURL ttl =
     \<lparr>InBackend = backend, HasServer = server, BaseURL = baseURL, InTTL = (if ttl \<le> 0 then DefaultInjectTTL else ttl),
      Adapters = [(''aws'', aws_adapter J)], OAuth2 = None\<rparr>"

definition adapterFor :: "injector \<Rightarrow> cred \<Rightarrow> adapter" where
  "adapterFor ij g =
     (case OAuth2 ij of
        Some a \<Rightarrow> if isOAuth2Provider (Provider g) then a
                  else (case map_of (Adapters ij) (Provider g) of Some a \<Rightarrow> a | None \<Rightarrow> env_adapter)
      | None \<Rightarrow> (case map_of (Adapters ij) (Provider g) of Some a \<Rightarrow> a | None \<Rightarrow> env_adapter))"

datatype warning = NotInjected string | AgentVisible string

record session_injection =
  SiEnv :: "string list"
  SiWarnings :: "warning list"
  SiEvents :: "cred_event list"

definition grant_ttl :: "injector \<Rightarrow> SecretMeta \<Rightarrow> int" where
  "grant_ttl ij m =
     (if MetaTTL m = [] then InTTL ij
      else case ParseDuration (MetaTTL m) of Some d \<Rightarrow> if d > 0 then d else InTTL ij | None \<Rightarrow> InTTL ij)"

text \<open>One turn of the loop: \<open>all\<close> are the grants the broker checks against, \<open>g\<close> the grant of this turn.\<close>

definition inject_one ::
  "injector \<Rightarrow> int \<Rightarrow> string \<Rightarrow> string \<Rightarrow> string \<Rightarrow> cred list \<Rightarrow> cred \<Rightarrow> session_injection \<times> cred_server \<Rightarrow>
     session_injection \<times> cred_server" where
  "inject_one ij now sid base token all g st =
     (let (si, srv) = st;
          (res, evs) = broker_Resolve (Option.bind (InBackend ij) (\<lambda>b. b)) all (CredName g);
          si = si\<lparr>SiEvents := SiEvents si @ evs\<rparr>
      in case res of
          Inl e \<Rightarrow> (si\<lparr>SiWarnings := SiWarnings si @ [NotInjected (CredName g)]\<rparr>, srv)
        | Inr (val, meta) \<Rightarrow>
            (case adapterFor ij g \<lparr>IcSession = sid, EndpointBaseURL = base, Token = token, IcTTL = grant_ttl ij meta, Now = now\<rparr>
                    g meta val of
               Inl e \<Rightarrow> (si\<lparr>SiWarnings := SiWarnings si @ [NotInjected (CredName g)]\<rparr>, srv)
             | Inr i \<Rightarrow>
                 let srv = (case ServeBody i of
                              Some body \<Rightarrow> if HasServer ij then Register sid token body (ServeContentType i) (ExpiresAt i) srv else srv
                            | None \<Rightarrow> srv);
                     si = si\<lparr>SiEnv := SiEnv si @ IEnv i\<rparr>
                 in (if Blind i then si else si\<lparr>SiWarnings := SiWarnings si @ [AgentVisible (CredName g)]\<rparr>, srv)))"

definition no_session_injection :: session_injection where
  "no_session_injection = \<lparr>SiEnv = [], SiWarnings = [], SiEvents = []\<rparr>"

definition newToken :: "string option \<Rightarrow> string option" where
  "newToken rand = map_option hex_encode rand"

definition InjectSessionEndpoint ::
  "injector option \<Rightarrow> string option \<Rightarrow> int \<Rightarrow> string \<Rightarrow> cred list \<Rightarrow> string \<Rightarrow> cred_server \<Rightarrow>
     (vault_error + session_injection) \<times> cred_server" where
  "InjectSessionEndpoint ij rand now sid gs endpointBase srv =
     (case ij of
        None \<Rightarrow> (Inr no_session_injection, srv)
      | Some ij \<Rightarrow>
          if InBackend ij = None \<or> gs = [] then (Inr no_session_injection, srv)
          else (case newToken rand of
              None \<Rightarrow> (Inl (Failure ''generate session cred token''), srv)
            | Some token \<Rightarrow>
                let base = (if HasServer ij then endpointBase else []);
                    (si, srv) = fold (inject_one ij now sid base token gs) gs (no_session_injection, srv)
                in (Inr si, srv)))"

definition InjectSession ::
  "injector option \<Rightarrow> string option \<Rightarrow> int \<Rightarrow> string \<Rightarrow> cred list \<Rightarrow> cred_server \<Rightarrow>
     (vault_error + session_injection) \<times> cred_server" where
  "InjectSession ij rand now sid gs srv =
     InjectSessionEndpoint ij rand now sid gs
       (case ij of Some i \<Rightarrow> if HasServer i then BaseURL i else [] | None \<Rightarrow> []) srv"

definition HasEndpoint :: "injector option \<Rightarrow> bool" where
  "HasEndpoint ij = (case ij of Some i \<Rightarrow> HasServer i | None \<Rightarrow> False)"

subsection \<open>The network of a session (netscope.go, manager.go)\<close>

record session_net =
  NetKnown :: bool
  NetOk :: bool
  ContainerIP :: string
  GatewayAddr :: string

text \<open>\<open>unspecified\<close> is \<^verbatim>\<open>net.ParseIP\<close>: not an address, or an address and whether it is unspecified.\<close>

definition isBindableGateway :: "(string \<Rightarrow> bool option) \<Rightarrow> string \<Rightarrow> bool" where
  "isBindableGateway unspecified h = (h \<noteq> [] \<and> unspecified h = Some False)"

datatype net_answer = NoRuntime | NoCapability | NetworkInfo bool string string

definition discoverSessionNet :: "(string \<Rightarrow> bool option) \<Rightarrow> net_answer \<Rightarrow> session_net" where
  "discoverSessionNet unspecified a =
     (case a of
        NetworkInfo ok cip gip \<Rightarrow>
          \<lparr>NetKnown = True, NetOk = (ok \<and> cip \<noteq> [] \<and> isBindableGateway unspecified gip), ContainerIP = cip, GatewayAddr = gip\<rparr>
      | _ \<Rightarrow> \<lparr>NetKnown = False, NetOk = False, ContainerIP = [], GatewayAddr = []\<rparr>)"

subsection \<open>The session being wired\<close>

record wired =
  WId :: string
  WProject :: string
  WEnv :: string
  WPolicy :: policy
  WDir :: string
  WExcluded :: "string list option"
  CredEnv :: "string list"
  EgressAddr :: "string option"
  WProxyAddr :: string
  WProxyCA :: string
  WCredEndpoint :: "string option"
  WRegistry :: "string option"
  WFiles :: "(string \<times> string) list"
  WClosers :: "ssh_act list list"
  WSSH :: "ssh_act list"

text \<open>Phase one of the connections: which refs they resolve, so that nothing else does.\<close>

definition resolveConnections ::
  "(string \<Rightarrow> string \<Rightarrow> vault_error + Connection list) option \<Rightarrow> wired \<Rightarrow> vault_error + Connection list \<times> wired" where
  "resolveConnections source s =
     (case source of
        None \<Rightarrow> Inr ([], s)
      | Some src \<Rightarrow>
          (case src (WProject s) (WEnv s) of
             Inl e \<Rightarrow> Inl e
           | Inr conns \<Rightarrow>
               if conns = [] then Inr ([], s)
               else Inr (conns, s\<lparr>WExcluded := Some (concat (map conn_SecretRefs conns))\<rparr>)))"

definition isConnectionRef :: "wired \<Rightarrow> string \<Rightarrow> bool" where
  "isConnectionRef s ref = (case WExcluded s of None \<Rightarrow> False | Some refs \<Rightarrow> ref \<in> set refs)"

definition connectionEgressRules :: "Connection list \<Rightarrow> InjectRule list" where
  "connectionEgressRules conns =
     concat (map (\<lambda>c. map (\<lambda>r. \<lparr>Host = HHost r, PathPrefix = [], Methods = [], CredRef = HRef r, HeaderName = HName r,
       HeaderFormat = HFormat r\<rparr>) (conn_EgressRules c)) conns)"

record egress_injector =
  EiRules :: "InjectRule list"
  EiNoProxy :: "string list"

definition isEgressInjectRef :: "egress_injector option \<Rightarrow> string \<Rightarrow> bool" where
  "isEgressInjectRef ei ref = (case ei of None \<Rightarrow> False | Some e \<Rightarrow> ref \<in> CredRef ` set (EiRules e))"

text \<open>What the host answers while a session is wired.\<close>

record wire_host =
  UnspecifiedIP :: "string \<Rightarrow> bool option"
  CredRand :: "string option"
  CredListen :: "string option"
  EgressListen :: "string option"
  RegistryListen :: "string option"
  RegistryBuilds :: bool
  ProxyCA :: "string option"
  WriteCA :: bool
  WriteFile :: "string \<Rightarrow> bool"
  BuildEnv :: build_env

text \<open>The grants that the environment injector may resolve.\<close>

definition env_grants :: "egress_injector option \<Rightarrow> wired \<Rightarrow> cred list" where
  "env_grants ei s = filter (\<lambda>c. \<not> isEgressInjectRef ei (CredName c) \<and> \<not> isConnectionRef s (CredName c)) (sl (Creds (WPolicy s)))"

definition port_of :: "string \<Rightarrow> string" where
  "port_of a = (case SplitHostPort a of Some (h, p) \<Rightarrow> p | None \<Rightarrow> [])"

definition injectCredentialsGateway ::
  "injector option \<Rightarrow> wire_host \<Rightarrow> int \<Rightarrow> session_net \<Rightarrow> cred list \<Rightarrow> wired \<Rightarrow> cred_server \<Rightarrow>
     (vault_error + session_injection) \<times> wired \<times> cred_server" where
  "injectCredentialsGateway ij h now sn gs s srv =
     (if \<not> HasEndpoint ij then (Inl (Failure ''no endpoint wired''), s, srv)
      else if \<not> isBindableGateway (UnspecifiedIP h) (GatewayAddr sn) then (Inl (Failure ''refusing to bind creds endpoint''), s, srv)
      else case CredListen h of
          None \<Rightarrow> (Inl (Failure ''bind gateway creds endpoint''), s, srv)
        | Some bound \<Rightarrow>
            let base = ''http://'' @ JoinHostPort (GatewayAddr sn) (port_of bound)
            in case InjectSessionEndpoint ij (CredRand h) now (WId s) gs base srv of
                (Inl e, srv) \<Rightarrow> (Inl e, s, srv)
              | (Inr si, srv) \<Rightarrow> (Inr si, s\<lparr>WCredEndpoint := Some base\<rparr>, srv))"

definition injectCredentials ::
  "injector option \<Rightarrow> egress_injector option \<Rightarrow> wire_host \<Rightarrow> int \<Rightarrow> session_net \<Rightarrow> wired \<Rightarrow> cred_server \<Rightarrow>
     wired \<times> cred_server" where
  "injectCredentials ij ei h now sn s srv =
     (if ij = None \<or> sl (Creds (WPolicy s)) = [] then (s, srv)
      else
        let gs = env_grants ei s
        in if gs = [] then (s, srv)
           else if \<not> NetKnown sn then
             (case InjectSession ij (CredRand h) now (WId s) gs srv of
                (Inl e, srv) \<Rightarrow> (s, srv)
              | (Inr si, srv) \<Rightarrow> (s\<lparr>CredEnv := CredEnv s @ SiEnv si\<rparr>, srv))
           else if \<not> NetOk sn then (s, srv)
           else (case injectCredentialsGateway ij h now sn gs s srv of
               (Inl e, s, srv) \<Rightarrow> (s, srv)
             | (Inr si, s, srv) \<Rightarrow> (s\<lparr>CredEnv := CredEnv s @ SiEnv si\<rparr>, srv)))"

subsection \<open>The egress proxy and the registry proxy of a session\<close>

definition applicableRules :: "InjectRule list \<Rightarrow> policy \<Rightarrow> InjectRule list" where
  "applicableRules rules p =
     filter (\<lambda>r. to_lower (Host r) \<in> set (map to_lower (sl (Domains (Egress p)))) \<and>
                 CredRef r \<in> set (map CredName (sl (Creds p)))) rules"

definition advertised :: "string \<Rightarrow> string \<Rightarrow> string" where
  "advertised advertiseHost bound =
     (if advertiseHost = [] then bound
      else case SplitHostPort bound of Some (h, p) \<Rightarrow> JoinHostPort advertiseHost p | None \<Rightarrow> bound)"

text \<open>The address and the CA of a started proxy, or \<open>None\<close> when no rule applies.\<close>

definition egress_buildForSession ::
  "egress_injector option \<Rightarrow> wire_host \<Rightarrow> policy \<Rightarrow> string \<Rightarrow> InjectRule list \<Rightarrow> vault_error + (string \<times> string) option" where
  "egress_buildForSession ei h p advertiseHost extraRules =
     (case ei of
        None \<Rightarrow> Inr None
      | Some e \<Rightarrow>
          let rules = EiRules e @ extraRules
          in if applicableRules rules p = [] then Inr None
             else if advertiseHost \<noteq> [] \<and> \<not> isBindableGateway (UnspecifiedIP h) advertiseHost
               then Inl (Failure ''refusing to bind proxy'')
             else (case ProxyCA h of
                 None \<Rightarrow> Inl (Failure ''build per-session proxy'')
               | Some ca \<Rightarrow>
                   if ca = [] then Inl (Failure ''per-session proxy produced no CA cert'')
                   else (case EgressListen h of
                       None \<Rightarrow> Inl (Failure ''bind per-session proxy listener'')
                     | Some bound \<Rightarrow> Inr (Some (advertised advertiseHost bound, ca)))))"

definition SandboxCAFileName :: string where "SandboxCAFileName = ''.opslify-ca.pem''"
definition sandboxWorkspaceMount :: string where "sandboxWorkspaceMount = ''/workspace''"

definition proxy_env :: "string \<Rightarrow> string \<Rightarrow> string list" where
  "proxy_env proxyURL noProxyVal =
     (let ca = sandboxWorkspaceMount @ ''/'' @ SandboxCAFileName
      in [''HTTPS_PROXY='' @ proxyURL, ''https_proxy='' @ proxyURL, ''HTTP_PROXY='' @ proxyURL, ''http_proxy='' @ proxyURL,
          ''NO_PROXY='' @ noProxyVal, ''no_proxy='' @ noProxyVal,
          ''CURL_CA_BUNDLE='' @ ca, ''SSL_CERT_FILE='' @ ca, ''REQUESTS_CA_BUNDLE='' @ ca, ''GIT_SSL_CAINFO='' @ ca])"

definition injectEgressProxy ::
  "egress_injector option \<Rightarrow> wire_host \<Rightarrow> session_net \<Rightarrow> InjectRule list \<Rightarrow> wired \<Rightarrow> wired" where
  "injectEgressProxy ei h sn extraRules s =
     (case ei of
        None \<Rightarrow> s
      | Some e \<Rightarrow>
          if NetKnown sn \<and> \<not> NetOk sn then s
          else (case egress_buildForSession ei h (WPolicy s) (if NetKnown sn then GatewayAddr sn else []) extraRules of
              Inl err \<Rightarrow> s
            | Inr None \<Rightarrow> s
            | Inr (Some (addr, ca)) \<Rightarrow>
                if WDir s = [] then s
                else if \<not> WriteCA h then s
                else
                  let noProxy = [''localhost'', ''127.0.0.1''] @ EiNoProxy e @
                        (if NetOk sn \<and> GatewayAddr sn \<noteq> [] then [GatewayAddr sn] else [])
                  in s\<lparr>WFiles := al_put SandboxCAFileName ca (WFiles s), WProxyAddr := addr, WProxyCA := ca,
                       CredEnv := CredEnv s @ proxy_env (''http://'' @ addr) (str_join '','' noProxy),
                       EgressAddr := Some addr\<rparr>))"

datatype ecosystem = PyPI | NPM | GoMod | OtherEcosystem

fun routing_one :: "string \<Rightarrow> ecosystem \<Rightarrow> string list" where
  "routing_one base PyPI = [''PIP_INDEX_URL='' @ base @ ''/pypi/simple'', ''PIP_EXTRA_INDEX_URL='' @ base @ ''/pypi/simple'']"
| "routing_one base NPM = [''NPM_CONFIG_REGISTRY='' @ base @ ''/npm/'']"
| "routing_one base GoMod = [''GOPROXY='' @ base @ ''/go'', ''GOFLAGS=-mod=mod'']"
| "routing_one base OtherEcosystem = []"

definition routingEnv :: "ecosystem list \<Rightarrow> string \<Rightarrow> string list" where
  "routingEnv upstreams base = concat (map (routing_one base) upstreams)"

definition registry_buildForSession ::
  "ecosystem list \<Rightarrow> wire_host \<Rightarrow> string \<Rightarrow> vault_error + (string \<times> string list) option" where
  "registry_buildForSession upstreams h advertiseHost =
     (if upstreams = [] then Inr None
      else if advertiseHost \<noteq> [] \<and> \<not> isBindableGateway (UnspecifiedIP h) advertiseHost then Inl (Failure ''refusing to bind proxy'')
      else if \<not> RegistryBuilds h then Inl (Failure ''build per-session proxy'')
      else case RegistryListen h of
          None \<Rightarrow> Inl (Failure ''bind per-session proxy listener'')
        | Some bound \<Rightarrow>
            let addr = advertised advertiseHost bound
            in Inr (Some (addr, routingEnv upstreams (''http://'' @ addr))))"

definition injectRegistryProxy :: "ecosystem list option \<Rightarrow> wire_host \<Rightarrow> session_net \<Rightarrow> wired \<Rightarrow> wired" where
  "injectRegistryProxy ri h sn s =
     (case ri of
        None \<Rightarrow> s
      | Some ups \<Rightarrow>
          if ups = [] then s
          else if NetKnown sn \<and> \<not> NetOk sn then s
          else (case registry_buildForSession ups h (if NetKnown sn then GatewayAddr sn else []) of
              Inr (Some (addr, env)) \<Rightarrow> s\<lparr>CredEnv := CredEnv s @ env, WRegistry := Some addr\<rparr>
            | _ \<Rightarrow> s))"

subsection \<open>Phase two of the connections\<close>

definition close_all :: "wired \<Rightarrow> wired" where
  "close_all s = s\<lparr>WSSH := WSSH s @ concat (WClosers s), WClosers := []\<rparr>"

fun build_each ::
  "build_env \<Rightarrow> (string \<Rightarrow> string option) option \<Rightarrow> SessionContext \<Rightarrow> Connection list \<Rightarrow> ConnectionInjection \<Rightarrow> wired \<Rightarrow>
     (vault_error + ConnectionInjection) \<times> wired" where
  "build_each b getter sc [] merged s = (Inr merged, s)"
| "build_each b getter sc (c # cs) merged s =
     (let (out, acts) = BuildForSession b getter c sc; s = s\<lparr>WSSH := WSSH s @ acts\<rparr>
      in case out of
          Inl e \<Rightarrow> (Inl e, close_all s)
        | Inr (ij, closer) \<Rightarrow>
            let s = s\<lparr>WClosers := WClosers s @ (if closer = [] then [] else [closer])\<rparr>
            in case Merge merged ij of
                Inl k \<Rightarrow> (Inl (Failure ''connection conflict''), close_all s)
              | Inr merged \<Rightarrow> build_each b getter sc cs merged s)"

fun write_files :: "wire_host \<Rightarrow> InjectedFile list \<Rightarrow> wired \<Rightarrow> vault_error option \<times> wired" where
  "write_files h [] s = (None, s)"
| "write_files h (f # fs) s =
     (if WDir s = [] then (Some (Failure ''connection needs a workspace''), s)
      else if \<not> WriteFile h (FPath f) then (Some (Failure ''write''), s)
      else write_files h fs (s\<lparr>WFiles := al_put (FPath f) (FContent f) (WFiles s)\<rparr>))"

definition applyConnectionInjection :: "wire_host \<Rightarrow> ConnectionInjection \<Rightarrow> wired \<Rightarrow> vault_error option \<times> wired" where
  "applyConnectionInjection h ij s =
     (case write_files h (InjFiles ij) s of
        (Some e, s) \<Rightarrow> (Some e, s)
      | (None, s) \<Rightarrow> (None, s\<lparr>CredEnv := CredEnv s @ map (\<lambda>(k, x). k @ ''='' @ x) (sort_key fst (InjEnv ij))\<rparr>))"

definition buildConnections ::
  "wire_host \<Rightarrow> (string \<Rightarrow> string option) option \<Rightarrow> Connection list \<Rightarrow> wired \<Rightarrow> vault_error option \<times> wired" where
  "buildConnections h getter conns s =
     (if conns = [] then (None, s)
      else
        let sc = \<lparr>CtxSession = WId s, WorkspaceDir = WDir s, ProxyAddr = WProxyAddr s, ProxyCAPEM = WProxyCA s\<rparr>
        in case build_each (BuildEnv h) getter sc conns no_injection s of
            (Inl e, s) \<Rightarrow> (Some e, s)
          | (Inr merged, s) \<Rightarrow>
              (case ValidateInjection merged of
                 Some e \<Rightarrow> (Some e, close_all s)
               | None \<Rightarrow>
                   (case applyConnectionInjection h merged s of
                      (Some e, s) \<Rightarrow> (Some e, close_all s)
                    | (None, s) \<Rightarrow> (None, s))))"

subsection \<open>The wiring as a whole\<close>

definition atoi :: "string \<Rightarrow> int option" where
  "atoi p = (if p = [] \<or> \<not> list_all is_digit p then None
             else Some (foldl (\<lambda>n c. 10 * n + int (of_char c - 48)) 0 p))"

definition listener_port :: "string option \<Rightarrow> int list" where
  "listener_port a =
     (case a of
        None \<Rightarrow> []
      | Some addr \<Rightarrow>
          if addr = [] then []
          else (case SplitHostPort (trim_prefix addr ''http://'') of
              None \<Rightarrow> []
            | Some (h, p) \<Rightarrow> (case atoi p of Some n \<Rightarrow> if n > 0 then [n] else [] | None \<Rightarrow> [])))"

text \<open>The table that \<^verbatim>\<open>allowBlindPathPorts\<close> asks for; \<open>None\<close> when it asks for nothing.\<close>

definition allowBlindPathPorts :: "session_net \<Rightarrow> wired \<Rightarrow> SessionNet option" where
  "allowBlindPathPorts sn s =
     (if \<not> NetOk sn then None
      else
        let ports = listener_port (EgressAddr s) @ listener_port (WCredEndpoint s) @ listener_port (WRegistry s)
        in if ports = [] then None
           else Some \<lparr>NetSession = WId s, SandboxIP = ContainerIP sn, Bridge = [], GatewayIP = GatewayAddr sn, LocalTCPPorts = ports\<rparr>)"

record wire_cfg =
  CfgConnections :: "(string \<Rightarrow> string \<Rightarrow> vault_error + Connection list) option"
  CfgInjector :: "injector option"
  CfgEgress :: "egress_injector option"
  CfgRegistry :: "ecosystem list option"
  CfgGetter :: "(string \<Rightarrow> string option) option"

definition wire_session ::
  "wire_cfg \<Rightarrow> wire_host \<Rightarrow> int \<Rightarrow> net_answer \<Rightarrow> wired \<Rightarrow> cred_server \<Rightarrow>
     (vault_error option \<times> SessionNet option) \<times> wired \<times> cred_server" where
  "wire_session cfg h now a s srv =
     (case resolveConnections (CfgConnections cfg) s of
        Inl e \<Rightarrow> ((Some e, None), s, srv)
      | Inr (conns, s) \<Rightarrow>
          let sn = discoverSessionNet (UnspecifiedIP h) a;
              (s, srv) = injectCredentials (CfgInjector cfg) (CfgEgress cfg) h now sn s srv;
              s = injectEgressProxy (CfgEgress cfg) h sn (connectionEgressRules conns) s
          in (case buildConnections h (CfgGetter cfg) conns s of
                (Some e, s) \<Rightarrow> ((Some e, None), s, srv)
              | (None, s) \<Rightarrow>
                  let s = injectRegistryProxy (CfgRegistry cfg) h sn s
                  in ((None, allowBlindPathPorts sn s), s, srv)))"

end
