(* ===== verification/Connection_Safety.thy ===== *)
theory Connection_Safety
  imports Broker_Inject
begin

text \<open>
  What holds of credentials on their way to a sandbox: a secret that is resolved at a boundary never
  enters the sandbox, the endpoint serves only its owner, an SSH key is loaded constrained or not at all,
  and a connection to \<open>host:port\<close> injects nothing.
\<close>

subsection \<open>The injector depends on the granted secrets only\<close>

lemma broker_Resolve_cong: "b1 ref = b2 ref \<Longrightarrow> broker_Resolve (Some b1) gs ref = broker_Resolve (Some b2) gs ref"
  by (simp add: broker_Resolve_def split: option.split)

lemma adapterFor_backend [simp]: "adapterFor (ij\<lparr>InBackend := b\<rparr>) g = adapterFor ij g"
  by (simp add: adapterFor_def split: option.split)

lemma grant_ttl_backend [simp]: "grant_ttl (ij\<lparr>InBackend := b\<rparr>) m = grant_ttl ij m"
  by (simp add: grant_ttl_def split: option.split)

lemma inject_one_cong:
  assumes "b1 (CredName g) = b2 (CredName g)"
  shows "inject_one (ij\<lparr>InBackend := Some (Some b1)\<rparr>) now sid base token all g st = inject_one (ij\<lparr>InBackend := Some (Some b2)\<rparr>) now sid base token all g st"
proof -
  obtain res evs where r: "broker_Resolve (Some b2) all (CredName g) = (res, evs)" by fastforce
  have r1: "broker_Resolve (Some b1) all (CredName g) = (res, evs)" using broker_Resolve_cong [of b1 "CredName g" b2 all, OF assms] r by simp
  obtain si srv where st: "st = (si, srv)" by (cases st)
  show ?thesis
  proof (cases res)
    case (Inl e)
    then show ?thesis by (simp add: inject_one_def st r r1)
  next
    case (Inr p)
    obtain x m where p: "p = (x, m)" by (cases p)
    show ?thesis
      by (cases "adapterFor ij g \<lparr>IcSession = sid, EndpointBaseURL = base, Token = token, IcTTL = grant_ttl ij m, Now = now\<rparr> g m x")
        (simp_all add: inject_one_def st r r1 Inr p cong: option.case_cong)
  qed
qed

lemma InjectSessionEndpoint_cong:
  assumes "list_all (\<lambda>g. b1 (CredName g) = b2 (CredName g)) gs"
  shows "InjectSessionEndpoint (Some (ij\<lparr>InBackend := Some (Some b1)\<rparr>)) rand now sid gs base srv =
    InjectSessionEndpoint (Some (ij\<lparr>InBackend := Some (Some b2)\<rparr>)) rand now sid gs base srv"
proof -
  have "fold (inject_one (ij\<lparr>InBackend := Some (Some b1)\<rparr>) now sid b t gs) gs st = fold (inject_one (ij\<lparr>InBackend := Some (Some b2)\<rparr>) now sid b t gs) gs st" for b t st
  proof (rule fold_cong [OF refl refl])
    fix g assume "g \<in> set gs"
    then have "b1 (CredName g) = b2 (CredName g)" using assms by (simp add: list_all_iff)
    then show "inject_one (ij\<lparr>InBackend := Some (Some b1)\<rparr>) now sid b t gs g = inject_one (ij\<lparr>InBackend := Some (Some b2)\<rparr>) now sid b t gs g"
      by (intro ext inject_one_cong)
  qed
  then show ?thesis by (cases "newToken rand") (simp_all add: InjectSessionEndpoint_def)
qed

lemma injectCredentials_cong:
  assumes "list_all (\<lambda>g. b1 (CredName g) = b2 (CredName g)) (env_grants ei s)"
  shows "injectCredentials (Some (ij\<lparr>InBackend := Some (Some b1)\<rparr>)) ei h now sn s srv =
    injectCredentials (Some (ij\<lparr>InBackend := Some (Some b2)\<rparr>)) ei h now sn s srv"
  unfolding injectCredentials_def InjectSession_def injectCredentialsGateway_def HasEndpoint_def Let_def
  by (simp add: InjectSessionEndpoint_cong [OF assms] cong: if_cong option.case_cong)

subsection \<open>Connections depend on whether a secret exists\<close>

definition same_answers :: "build_env \<Rightarrow> (string \<Rightarrow> string option) option \<Rightarrow> (string \<Rightarrow> string option) option \<Rightarrow> bool" where
  "same_answers b g1 g2 =
     (case (g1, g2) of
        (None, None) \<Rightarrow> True
      | (Some f1, Some f2) \<Rightarrow>
          (\<forall>n ref. map_option (KeyLoads (SSH b n)) (f1 ref) = map_option (KeyLoads (SSH b n)) (f2 ref))
      | _ \<Rightarrow> False)"

text \<open>
  Two outcomes are alike when they are equal, or, if \<open>q\<close>, when one of them is a refusal: two sessions
  that are both accepted, and two sessions whose keys are found and loaded alike.
\<close>

definition alike :: "bool \<Rightarrow> 'e + 'a \<Rightarrow> 'e + 'a \<Rightarrow> bool" where
  "alike q x y \<longleftrightarrow> x = y \<or> q \<and> (isl x \<or> isl y)"

definition keys_alike :: "bool \<Rightarrow> build_env \<Rightarrow> (string \<Rightarrow> string option) option \<Rightarrow> (string \<Rightarrow> string option) option \<Rightarrow> bool" where
  "keys_alike q b g1 g2 \<longleftrightarrow> q \<or> same_answers b g1 g2"

definition but_ssh :: "wired \<Rightarrow> wired" where
  "but_ssh s = s\<lparr>WSSH := []\<rparr>"

lemma ssh_start_agent_blind:
  "KeyLoads h k1 = KeyLoads h k2 \<Longrightarrow> fst (ssh_start_agent h s k1) = fst (ssh_start_agent h s k2)"
  by (cases "TempDir h") (simp_all add: ssh_start_agent_def Let_def split: option.split)

text \<open>What an accepted SSH connection contributes does not depend on its key.\<close>

lemma ssh_BuildForSession_Inr:
  assumes "fst (ssh_BuildForSession h g s sc) = Inr p"
  shows "\<exists>dir. TempDir h = Some dir \<and> p = (\<lparr>InjEnv = [(''SSH_AUTH_SOCK'', dir @ ''/agent.sock'')], InjFiles = []\<rparr>, ssh_cleanup dir)"
  using assms by (auto simp: ssh_BuildForSession_def ssh_start_agent_def Let_def split: if_splits option.splits sum.splits)

lemma ssh_BuildForSession_blind:
  assumes "same_answers b g1 g2"
  shows "fst (ssh_BuildForSession (SSH b n) g1 s sc) = fst (ssh_BuildForSession (SSH b n) g2 s sc)"
proof -
  let ?h = "SSH b n"
  define key where "key g = (case g of None \<Rightarrow> None | Some f \<Rightarrow> f (SecretRef s))" for g :: "(string \<Rightarrow> string option) option"
  have same: "(g1 = None) = (g2 = None)" "map_option (KeyLoads ?h) (key g1) = map_option (KeyLoads ?h) (key g2)"
    using assms by (cases g1; cases g2; simp add: same_answers_def key_def)+
  have agent: "fst (ssh_BuildForSession ?h g s sc) = (case key g of
      None \<Rightarrow> fst (ssh_BuildForSession ?h (map_option (\<lambda>_ _. None) g) s sc)
    | Some k \<Rightarrow> fst (ssh_BuildForSession ?h (Some (\<lambda>_. Some k)) s sc))" for g
    by (cases g) (simp_all add: key_def ssh_BuildForSession_def split: option.split sum.split)
  have two: "fst (ssh_BuildForSession ?h (Some (\<lambda>_. Some k1)) s sc) = fst (ssh_BuildForSession ?h (Some (\<lambda>_. Some k2)) s sc)"
    if "KeyLoads ?h k1 = KeyLoads ?h k2" for k1 k2
    using ssh_start_agent_blind [OF that, of s] by (simp add: ssh_BuildForSession_def split: option.split sum.split)
  show ?thesis
  proof (cases "key g1")
    case None
    then have "key g2 = None" using same(2) by simp
    moreover have "map_option (\<lambda>_ _. None) g1 = (map_option (\<lambda>_ _. None) g2 :: (string \<Rightarrow> string option) option)"
      using same(1) by (cases g1; cases g2) simp_all
    ultimately show ?thesis unfolding agent [of g1] agent [of g2] None by simp
  next
    case (Some k1)
    then obtain k2 where k2: "key g2 = Some k2" "KeyLoads ?h k1 = KeyLoads ?h k2" using same(2) by (cases "key g2") simp_all
    show ?thesis unfolding agent [of g1] agent [of g2] Some k2(1) using two [OF k2(2)] by simp
  qed
qed

lemma BuildForSession_blind:
  assumes "keys_alike q b g1 g2"
  shows "alike q (fst (BuildForSession b g1 c sc)) (fst (BuildForSession b g2 c sc))"
proof (cases c)
  case (SSHConnection s)
  let ?f = "\<lambda>g. fst (ssh_BuildForSession (SSH b (CName s)) g s sc)"
  have "?f g1 = ?f g2" if n: "\<not> isl (?f g1)" "\<not> isl (?f g2)"
  proof -
    obtain p1 p2 where p: "?f g1 = Inr p1" "?f g2 = Inr p2"
      using n by (cases "?f g1"; cases "?f g2") simp_all
    from ssh_BuildForSession_Inr [OF p(1)] ssh_BuildForSession_Inr [OF p(2)] show ?thesis unfolding p by auto
  qed
  moreover have "?f g1 = ?f g2" if "\<not> q"
    using that assms ssh_BuildForSession_blind unfolding keys_alike_def by blast
  ultimately show ?thesis unfolding SSHConnection BuildForSession.simps alike_def by blast
qed (simp_all add: alike_def)

lemma but_ssh_simps [simp]:
  "but_ssh (s\<lparr>WSSH := x\<rparr>) = but_ssh s" "but_ssh (s\<lparr>WSSH := x, WClosers := c\<rparr>) = but_ssh (s\<lparr>WClosers := c\<rparr>)" "but_ssh (close_all s) = but_ssh (s\<lparr>WClosers := []\<rparr>)"
  by (simp_all add: but_ssh_def close_all_def)

lemma but_ssh_cong:
  assumes "but_ssh s1 = but_ssh s2"
  shows "but_ssh (s1\<lparr>WClosers := f (WClosers s1)\<rparr>) = but_ssh (s2\<lparr>WClosers := f (WClosers s2)\<rparr>)"
    "but_ssh (s1\<lparr>WFiles := k (WFiles s1)\<rparr>) = but_ssh (s2\<lparr>WFiles := k (WFiles s2)\<rparr>)"
    "but_ssh (s1\<lparr>CredEnv := e (CredEnv s1)\<rparr>) = but_ssh (s2\<lparr>CredEnv := e (CredEnv s2)\<rparr>)"
    "WDir s1 = WDir s2" "WClosers s1 = WClosers s2" "WId s1 = WId s2"
    "WProxyAddr s1 = WProxyAddr s2" "WProxyCA s1 = WProxyCA s2" "CredEnv s1 = CredEnv s2" "WFiles s1 = WFiles s2"
  using assms unfolding but_ssh_def by (cases s1; cases s2; simp)+

text \<open>A build that fails closes what was opened; besides the agents nothing else has changed.\<close>

lemma build_each_left:
  "isl (fst (build_each b g sc cs m s)) \<Longrightarrow> but_ssh (snd (build_each b g sc cs m s)) = but_ssh (s\<lparr>WClosers := []\<rparr>)"
proof (induction cs arbitrary: m s)
  case (Cons c cs)
  obtain out a where o: "BuildForSession b g c sc = (out, a)" by (cases "BuildForSession b g c sc")
  show ?case
  proof (cases out)
    case (Inl e)
    then show ?thesis by (simp add: o Let_def but_ssh_def close_all_def)
  next
    case (Inr p)
    obtain ij closer where p: "p = (ij, closer)" by (cases p)
    show ?thesis
    proof (cases "Merge m ij")
      case (Inl k)
      then show ?thesis by (simp add: o Inr p Let_def but_ssh_def close_all_def)
    next
      case m: (Inr m2)
      show ?thesis using Cons.IH Cons.prems by (auto simp: o Inr p m Let_def but_ssh_def)
    qed
  qed
qed simp

lemma build_each_blind:
  assumes g: "keys_alike q b g1 g2"
  shows "but_ssh s1 = but_ssh s2 \<Longrightarrow>
    alike q (fst (build_each b g1 sc cs m s1)) (fst (build_each b g2 sc cs m s2)) \<and>
    (fst (build_each b g1 sc cs m s1) = fst (build_each b g2 sc cs m s2) \<longrightarrow>
       but_ssh (snd (build_each b g1 sc cs m s1)) = but_ssh (snd (build_each b g2 sc cs m s2)))"
proof (induction cs arbitrary: m s1 s2)
  case (Cons c cs)
  obtain o1 a1 where o1: "BuildForSession b g1 c sc = (o1, a1)" by (cases "BuildForSession b g1 c sc")
  obtain o2 a2 where o2: "BuildForSession b g2 c sc = (o2, a2)" by (cases "BuildForSession b g2 c sc")
  note e = but_ssh_cong [OF Cons.prems]
  note left = build_each_left
  show ?case
  proof (cases "o1 = o2")
    case False
    then have "q \<and> (isl o1 \<or> isl o2)" using BuildForSession_blind [OF g, of c sc] o1 o2 by (simp add: alike_def)
    then have "q" "isl (fst (build_each b g1 sc (c # cs) m s1)) \<or> isl (fst (build_each b g2 sc (c # cs) m s2))"
      by (auto simp: o1 o2 isl_def Let_def)
    then show ?thesis
      using left [of b g1 sc "c # cs" m s1] left [of b g2 sc "c # cs" m s2] e(1) [of "\<lambda>_. []"] unfolding alike_def by metis
  next
    case True
    show ?thesis
    proof (cases o2)
      case (Inl err)
      then show ?thesis using e(1) [of "\<lambda>_. []"] by (simp add: o1 o2 True Let_def alike_def)
    next
      case (Inr p)
      obtain ij closer where p: "p = (ij, closer)" by (cases p)
      have c: "but_ssh (s1\<lparr>WSSH := x, WClosers := WClosers s1 @ k\<rparr>) = but_ssh (s2\<lparr>WSSH := y, WClosers := WClosers s2 @ k\<rparr>)" for x y k
        using e(1) [of "\<lambda>l. l @ k"] by (simp add: but_ssh_def)
      show ?thesis
      proof (cases "Merge m ij")
        case (Inl k)
        then show ?thesis using e(1) [of "\<lambda>_. []"] by (simp add: o1 o2 True Inr p Let_def alike_def)
      next
        case m: (Inr m2)
        show ?thesis using Cons.IH [OF c] by (simp add: o1 o2 True Inr p m Let_def)
      qed
    qed
  qed
qed (simp add: alike_def)

lemma write_files_blind:
  "but_ssh s1 = but_ssh s2 \<Longrightarrow> fst (write_files h fs s1) = fst (write_files h fs s2) \<and>
     but_ssh (snd (write_files h fs s1)) = but_ssh (snd (write_files h fs s2))"
proof (induction fs arbitrary: s1 s2)
  case (Cons f fs)
  show ?case using Cons.IH [OF but_ssh_cong(2) [OF Cons.prems]] Cons.prems but_ssh_cong(4) [OF Cons.prems] by simp
qed simp

lemma applyConnectionInjection_blind:
  assumes "but_ssh s1 = but_ssh s2"
  shows "fst (applyConnectionInjection h ij s1) = fst (applyConnectionInjection h ij s2) \<and>
     but_ssh (snd (applyConnectionInjection h ij s1)) = but_ssh (snd (applyConnectionInjection h ij s2))"
proof -
  obtain e1 t1 where t1: "write_files h (InjFiles ij) s1 = (e1, t1)" by fastforce
  obtain e2 t2 where t2: "write_files h (InjFiles ij) s2 = (e2, t2)" by fastforce
  have "e1 = e2" "but_ssh t1 = but_ssh t2" using write_files_blind [OF assms, of h "InjFiles ij"] t1 t2 by simp_all
  then show ?thesis using but_ssh_cong(3) [of t1 t2 "\<lambda>l. l @ x" for x]
    by (auto simp: applyConnectionInjection_def t1 t2 split: option.split)
qed

lemma buildConnections_blind:
  assumes g: "keys_alike q (BuildEnv h) g1 g2"
    and ok: "q \<longrightarrow> fst (buildConnections h g1 cs s) = None \<and> fst (buildConnections h g2 cs s) = None"
  shows "fst (buildConnections h g1 cs s) = fst (buildConnections h g2 cs s) \<and>
    but_ssh (snd (buildConnections h g1 cs s)) = but_ssh (snd (buildConnections h g2 cs s))"
proof (cases "cs = []")
  case False
  let ?sc = "\<lparr>CtxSession = WId s, WorkspaceDir = WDir s, ProxyAddr = WProxyAddr s, ProxyCAPEM = WProxyCA s\<rparr>"
  obtain o1 t1 where t1: "build_each (BuildEnv h) g1 ?sc cs no_injection s = (o1, t1)" by fastforce
  obtain o2 t2 where t2: "build_each (BuildEnv h) g2 ?sc cs no_injection s = (o2, t2)" by fastforce
  have "\<not> (q \<and> (isl o1 \<or> isl o2))" using ok False by (auto simp: buildConnections_def t1 t2 isl_def)
  then have e: "o1 = o2" "but_ssh t1 = but_ssh t2"
    using build_each_blind [OF g refl, of ?sc cs no_injection s] t1 t2 by (auto simp: alike_def)
  note c = but_ssh_cong(1) [OF e(2), of "\<lambda>_. []"]
  show ?thesis
  proof (cases o2)
    case (Inl err)
    then show ?thesis using False e by (simp add: buildConnections_def t1 t2)
  next
    case (Inr m)
    obtain a1 u1 where u1: "applyConnectionInjection h m t1 = (a1, u1)" by fastforce
    obtain a2 u2 where u2: "applyConnectionInjection h m t2 = (a2, u2)" by fastforce
    have "a1 = a2" "but_ssh u1 = but_ssh u2" using applyConnectionInjection_blind [OF e(2), of h m] u1 u2 by simp_all
    then show ?thesis using False e c Inr but_ssh_cong(1) [of u1 u2 "\<lambda>_. []"]
      by (auto simp: buildConnections_def t1 t2 u1 u2 split: option.split)
  qed
qed (simp add: buildConnections_def)

lemma registry_blind:
  assumes "but_ssh s1 = but_ssh s2"
  shows "but_ssh (injectRegistryProxy ri h sn s1) = but_ssh (injectRegistryProxy ri h sn s2) \<and>
    allowBlindPathPorts sn (injectRegistryProxy ri h sn s1) = allowBlindPathPorts sn (injectRegistryProxy ri h sn s2)"
proof -
  have s: "s2\<lparr>WSSH := []\<rparr> = s1\<lparr>WSSH := []\<rparr>" using assms by (simp add: but_ssh_def)
  define x where "x = WSSH s2"
  have "s2 = (s1\<lparr>WSSH := []\<rparr>)\<lparr>WSSH := x\<rparr>" unfolding s [symmetric] x_def by simp
  then have s2: "s2 = s1\<lparr>WSSH := x\<rparr>" by simp
  show ?thesis unfolding s2
    by (auto simp: injectRegistryProxy_def allowBlindPathPorts_def Let_def but_ssh_def split: option.split sum.split prod.split)
qed

subsection \<open>A session as a whole\<close>

definition with_secrets ::
  "wire_cfg \<Rightarrow> injector \<Rightarrow> backend \<Rightarrow> (string \<Rightarrow> string option) option \<Rightarrow> wire_cfg" where
  "with_secrets cfg ij b getter = cfg\<lparr>CfgInjector := Some (ij\<lparr>InBackend := Some (Some b)\<rparr>), CfgGetter := getter\<rparr>"

text \<open>The refs that are resolved at a boundary: by a rule of the daemon or a connection of the session's scope.\<close>

definition boundary_ref :: "wire_cfg \<Rightarrow> wired \<Rightarrow> string \<Rightarrow> bool" where
  "boundary_ref cfg s ref \<longleftrightarrow> isEgressInjectRef (CfgEgress cfg) ref \<or>
     (case CfgConnections cfg of
        None \<Rightarrow> False
      | Some src \<Rightarrow> (case src (WProject s) (WEnv s) of Inl e \<Rightarrow> False | Inr conns \<Rightarrow> ref \<in> set (concat (map conn_SecretRefs conns))))"

lemma env_grants_boundary:
  assumes "resolveConnections (CfgConnections cfg) s = Inr (conns, s1)"
  shows "list_all (\<lambda>g. \<not> boundary_ref cfg s (CredName g)) (env_grants (CfgEgress cfg) s1)"
  using assms
  by (auto simp: list_all_iff boundary_ref_def env_grants_def resolveConnections_def isConnectionRef_def
      split: option.splits sum.splits if_splits)

lemma wire_session_blind:
  assumes "\<And>ref. \<not> boundary_ref cfg s ref \<Longrightarrow> b1 ref = b2 ref"
    and "wire_session (with_secrets cfg ij b1 g1) h now a s srv = (r1, s1, srv1)"
    and "wire_session (with_secrets cfg ij b2 g2) h now a s srv = (r2, s2, srv2)"
    and "keys_alike q (BuildEnv h) g1 g2" and "q \<longrightarrow> fst r1 = None \<and> fst r2 = None"
  shows "r1 = r2 \<and> but_ssh s1 = but_ssh s2"
proof (cases "resolveConnections (CfgConnections cfg) s")
  case (Inl e)
  then show ?thesis using assms(2,3) by (simp add: wire_session_def with_secrets_def)
next
  case (Inr p)
  obtain conns t where p: "p = (conns, t)" by (cases p)
  let ?sn = "discoverSessionNet (UnspecifiedIP h) a"
  have "list_all (\<lambda>g. b1 (CredName g) = b2 (CredName g)) (env_grants (CfgEgress cfg) t)"
    using env_grants_boundary [OF Inr [unfolded p]] assms(1) by (auto simp: list_all_iff)
  note cred = injectCredentials_cong [OF this]
  obtain t1 srv' where i: "injectCredentials (Some (ij\<lparr>InBackend := Some (Some b2)\<rparr>)) (CfgEgress cfg) h now ?sn t srv = (t1, srv')" by fastforce
  define t2 where "t2 = injectEgressProxy (CfgEgress cfg) h ?sn (connectionEgressRules conns) t1"
  obtain e1 u1 where u1: "buildConnections h g1 conns t2 = (e1, u1)" by fastforce
  obtain e2 u2 where u2: "buildConnections h g2 conns t2 = (e2, u2)" by fastforce
  have r1: "(r1, s1, srv1) = (case e1 of Some e \<Rightarrow> ((Some e, None), u1, srv')
      | None \<Rightarrow> ((None, allowBlindPathPorts ?sn (injectRegistryProxy (CfgRegistry cfg) h ?sn u1)), injectRegistryProxy (CfgRegistry cfg) h ?sn u1, srv'))"
    unfolding assms(2) [symmetric] using Inr p i cred u1
    by (simp add: wire_session_def with_secrets_def Let_def t2_def split: option.split)
  have r2: "(r2, s2, srv2) = (case e2 of Some e \<Rightarrow> ((Some e, None), u2, srv')
      | None \<Rightarrow> ((None, allowBlindPathPorts ?sn (injectRegistryProxy (CfgRegistry cfg) h ?sn u2)), injectRegistryProxy (CfgRegistry cfg) h ?sn u2, srv'))"
    unfolding assms(3) [symmetric] using Inr p i u2
    by (simp add: wire_session_def with_secrets_def Let_def t2_def split: option.split)
  have ok: "fst r1 = e1" "fst r2 = e2" using r1 r2 by (auto split: option.splits)
  have e: "e1 = e2" "but_ssh u1 = but_ssh u2"
    using buildConnections_blind [OF assms(4), of conns t2] assms(5) u1 u2 ok by simp_all
  have "but_ssh (injectRegistryProxy (CfgRegistry cfg) h ?sn u1) = but_ssh (injectRegistryProxy (CfgRegistry cfg) h ?sn u2) \<and>
      allowBlindPathPorts ?sn (injectRegistryProxy (CfgRegistry cfg) h ?sn u1) = allowBlindPathPorts ?sn (injectRegistryProxy (CfgRegistry cfg) h ?sn u2)"
    by (rule registry_blind [OF e(2)])
  then show ?thesis using r1 r2 e by (cases e2) simp_all
qed

lemma wire_session_server:
  assumes "\<And>ref. \<not> boundary_ref cfg s ref \<Longrightarrow> b1 ref = b2 ref"
    and "wire_session (with_secrets cfg ij b1 g1) h now a s srv = (r1, s1, srv1)"
    and "wire_session (with_secrets cfg ij b2 g2) h now a s srv = (r2, s2, srv2)"
  shows "srv1 = srv2"
proof (cases "resolveConnections (CfgConnections cfg) s")
  case (Inl e)
  then show ?thesis using assms(2,3) by (simp add: wire_session_def with_secrets_def)
next
  case (Inr p)
  obtain conns t where p: "p = (conns, t)" by (cases p)
  have "list_all (\<lambda>g. b1 (CredName g) = b2 (CredName g)) (env_grants (CfgEgress cfg) t)"
    using env_grants_boundary [OF Inr [unfolded p]] assms(1) by (auto simp: list_all_iff)
  note cred = injectCredentials_cong [OF this]
  show ?thesis using assms(2,3) Inr p cred
    by (auto simp: wire_session_def with_secrets_def Let_def split: option.splits prod.splits)
qed

text \<open>
  C5: A secret that is resolved at a boundary stays out of the sandbox. Take two runs of the wiring of
  a session that differ only in the values the vault holds under the refs of the daemon's egress rules
  and of the connections in the session's scope. The served credentials are the same; if both runs are
  accepted, their answers, the environment, the files and the addresses of the sandbox are the same too.
  Such a value decides at most whether the session is refused, and only as an SSH key that is missing or
  that the agent does not load: where the keys are found and loaded alike, the two runs are the same
  in any case. Only the daemon's own SSH agent gets to see a key.
\<close>

theorem boundary_secrets_stay_out:
  assumes "\<And>ref. \<not> boundary_ref cfg s ref \<Longrightarrow> b1 ref = b2 ref"
    and "wire_session (with_secrets cfg ij b1 g1) h now a s srv = (r1, s1, srv1)"
    and "wire_session (with_secrets cfg ij b2 g2) h now a s srv = (r2, s2, srv2)"
  shows "srv1 = srv2 \<and>
    (fst r1 = None \<and> fst r2 = None \<longrightarrow> r1 = r2 \<and> but_ssh s1 = but_ssh s2) \<and>
    (same_answers (BuildEnv h) g1 g2 \<longrightarrow> r1 = r2 \<and> but_ssh s1 = but_ssh s2)"
proof (intro conjI)
  show "srv1 = srv2" by (rule wire_session_server [OF assms])
  show "fst r1 = None \<and> fst r2 = None \<longrightarrow> r1 = r2 \<and> but_ssh s1 = but_ssh s2"
    using wire_session_blind [OF assms, of True] by (simp add: keys_alike_def)
  show "same_answers (BuildEnv h) g1 g2 \<longrightarrow> r1 = r2 \<and> but_ssh s1 = but_ssh s2"
    using wire_session_blind [OF assms, of False] by (simp add: keys_alike_def)
qed

text \<open>A session of the default environment with an http connection, whose ref the policy also grants.\<close>

definition demo_conn :: ConnectionSpec where
  "demo_conn = \<lparr>CName = ''api'', CKind = ''http'', CProjectID = [], CEnvironmentID = [], SecretRef = ''tok'',
     Hosts = [''api.test''], Config = []\<rparr>"

definition granting :: "string list \<Rightarrow> policy" where
  "granting refs = Default\<lparr>Creds := Some (map (\<lambda>r. \<lparr>CredName = r, Provider = ''github''\<rparr>) refs)\<rparr>"

definition fresh_session :: "policy \<Rightarrow> wired" where
  "fresh_session p = \<lparr>WId = ''s'', WProject = ''default'', WEnv = ''default.default'', WPolicy = p, WDir = ''/w/s'', WExcluded = None,
     CredEnv = [], EgressAddr = None, WProxyAddr = [], WProxyCA = [], WCredEndpoint = None, WRegistry = None, WFiles = [],
     WClosers = [], WSSH = []\<rparr>"

definition quiet_host :: wire_host where
  "quiet_host = \<lparr>UnspecifiedIP = (\<lambda>_. None), CredRand = Some ''k'', CredListen = None, EgressListen = None, RegistryListen = None,
     RegistryBuilds = False, ProxyCA = None, WriteCA = True, WriteFile = (\<lambda>_. True),
     BuildEnv = \<lparr>BareHost = (\<lambda>_. None), Yaml = (\<lambda>_. None), SSH = (\<lambda>_. \<lparr>EvalSymlinks = (\<lambda>_. Inr None), StatOk = (\<lambda>_. False),
       SSHVersion = None, TempDir = None, ChmodOk = False, AgentStarts = False, KeyLoads = (\<lambda>_. False)\<rparr>)\<rparr>\<rparr>"

definition one_connection :: wire_cfg where
  "one_connection = \<lparr>CfgConnections = Some (\<lambda>_ _. Inr [HTTPConnection demo_conn]), CfgInjector = None, CfgEgress = None,
     CfgRegistry = None, CfgGetter = None\<rparr>"

definition plain_injector :: injector where
  "plain_injector = NewInjector \<lparr>Unmarshal = (\<lambda>_. None), Marshal = (\<lambda>_. None), RFC3339 = (\<lambda>_. [])\<rparr> None False [] 0"

definition two_values :: "string \<Rightarrow> backend" where
  "two_values x ref = (if ref = ''tok'' then Inr (x, meta_of ref ''github'') else Inr (''open'', meta_of ref ''github''))"

theorem boundary_secrets_stay_out_witness:
  "but_ssh (fst (snd (wire_session (with_secrets one_connection plain_injector (two_values ''one'') None) quiet_host 0 NoRuntime
       (fresh_session (granting [''tok'', ''pat''])) Map.empty))) =
   but_ssh (fst (snd (wire_session (with_secrets one_connection plain_injector (two_values ''two'') None) quiet_host 0 NoRuntime
       (fresh_session (granting [''tok'', ''pat''])) Map.empty)))"
proof -
  let ?s = "fresh_session (granting [''tok'', ''pat''])"
  have same: "two_values ''one'' ref = two_values ''two'' ref" if "\<not> boundary_ref one_connection ?s ref" for ref
    using that by (auto simp: two_values_def boundary_ref_def one_connection_def conn_SecretRefs_def demo_conn_def)
  obtain r1 s1 v1 where w1: "wire_session (with_secrets one_connection plain_injector (two_values ''one'') None) quiet_host 0 NoRuntime ?s Map.empty = (r1, s1, v1)"
    using prod_cases3 by blast
  obtain r2 s2 v2 where w2: "wire_session (with_secrets one_connection plain_injector (two_values ''two'') None) quiet_host 0 NoRuntime ?s Map.empty = (r2, s2, v2)"
    using prod_cases3 by blast
  have "fst (fst (wire_session (with_secrets one_connection plain_injector (two_values ''one'') None) quiet_host 0 NoRuntime ?s Map.empty)) = None"
    "fst (fst (wire_session (with_secrets one_connection plain_injector (two_values ''two'') None) quiet_host 0 NoRuntime ?s Map.empty)) = None"
    by code_simp+
  then have "fst r1 = None" "fst r2 = None" unfolding w1 w2 by simp_all
  with boundary_secrets_stay_out [OF same w1 w2] show ?thesis by (simp add: w1 w2)
qed

text \<open>The env injector does see the other grant, and not the one of the connection.\<close>

lemma boundary_witness_env:
  "CredEnv (fst (snd (wire_session (with_secrets one_connection plain_injector (two_values ''one'') None) quiet_host 0 NoRuntime
       (fresh_session (granting [''tok'', ''pat''])) Map.empty))) = [''OPSLIFY_CRED_PAT=open'']"
  by code_simp

subsection \<open>The endpoint\<close>

datatype server_op = OpRegister string string string string int | OpRelease string

fun op_session :: "server_op \<Rightarrow> string" where
  "op_session (OpRegister i t b ct e) = i"
| "op_session (OpRelease i) = i"

fun server_step :: "server_op \<Rightarrow> cred_server \<Rightarrow> cred_server" where
  "server_step (OpRegister i t b ct e) s = Register i t b ct e s"
| "server_step (OpRelease i) s = Release i s"

definition run_server :: "server_op list \<Rightarrow> cred_server" where
  "run_server ops = fold server_step ops Map.empty"

lemma run_server_entry:
  "run_server ops i = Some e \<Longrightarrow> \<exists>pre post ct. ops = pre @ OpRegister i (EToken e) (EBody e) ct (EExpires e) # post \<and>
     ct = EContentType e \<and> list_all (\<lambda>o'. op_session o' \<noteq> i) post"
proof (induction ops rule: rev_induct)
  case (snoc o' ops)
  show ?case
  proof (cases "op_session o' = i")
    case True
    then have "o' = OpRegister i (EToken e) (EBody e) (EContentType e) (EExpires e)"
      using snoc.prems by (cases o') (auto simp: run_server_def Register_def Release_def)
    then show ?thesis by (intro exI [of _ ops] exI [of _ "[]"] exI [of _ "EContentType e"]) simp
  next
    case False
    then have "run_server ops i = Some e" using snoc.prems by (cases o') (auto simp: run_server_def Register_def Release_def)
    from snoc.IH [OF this] obtain pre post ct where "ops = pre @ OpRegister i (EToken e) (EBody e) ct (EExpires e) # post"
      "ct = EContentType e" "list_all (\<lambda>o'. op_session o' \<noteq> i) post" by blast
    then show ?thesis using False by (intro exI [of _ pre] exI [of _ "post @ [o']"] exI [of _ ct]) simp
  qed
qed (simp add: run_server_def)

text \<open>
  C20: The endpoint serves a credential to its owner, in its time. If a listener that is scoped to a
  container answers a request with a body, then the request came from that container, the path names a
  session whose latest registration had this very body, with no release after it, the request carried
  that registration's token, and the registration had not expired.
\<close>

theorem endpoint_serves_owner:
  assumes "sourceScoped (ServeHTTP (run_server ops) now) ip r = Served ct body" and "ip \<noteq> []"
  shows "\<exists>i token ct' exp pre post. Path r = CredPath @ i \<and> ops = pre @ OpRegister i token body ct' exp # post \<and>
    list_all (\<lambda>o'. op_session o' \<noteq> i) post \<and> trim_prefix (trim_space (Authorization r)) ''Bearer '' = token \<and> token \<noteq> [] \<and>
    now < exp \<and> hostOfRemoteAddr (RemoteAddr r) = ip \<and> Method r = ''GET''"
proof -
  let ?i = "drop (length CredPath) (Path r)"
  have src: "hostOfRemoteAddr (RemoteAddr r) = ip" and s: "ServeHTTP (run_server ops) now r = Served ct body"
    using assms by (auto simp: sourceScoped_def split: if_splits)
  then obtain e where e: "run_server ops ?i = Some e" "EBody e = body" "trim_prefix (trim_space (Authorization r)) ''Bearer '' = EToken e"
      "EToken e \<noteq> []" "now < EExpires e" "has_prefix (Path r) CredPath" "Method r = ''GET''"
    by (auto simp: ServeHTTP_def Let_def split: if_splits option.splits)
  have "Path r = CredPath @ ?i" using e(6) by (metis append_take_drop_id has_prefix_def)
  moreover obtain pre post where "ops = pre @ OpRegister ?i (EToken e) (EBody e) (EContentType e) (EExpires e) # post"
      "list_all (\<lambda>o'. op_session o' \<noteq> ?i) post" using run_server_entry [OF e(1)] by blast
  ultimately show ?thesis using e src by blast
qed

theorem endpoint_serves_owner_witness:
  "\<exists>i token ct' exp pre post. ''/creds/s'' = CredPath @ i \<and> [OpRegister ''s'' ''t'' ''{}'' [] 9] = pre @ OpRegister i token ''{}'' ct' exp # post \<and>
     token \<noteq> [] \<and> 5 < exp"
proof -
  let ?r = "\<lparr>Method = ''GET'', Path = ''/creds/s'', Authorization = ''t'', RemoteAddr = ''10.0.0.2:40''\<rparr>"
  have "sourceScoped (ServeHTTP (run_server [OpRegister ''s'' ''t'' ''{}'' [] 9]) 5) ''10.0.0.2'' ?r = Served ''application/json'' ''{}''"
    by code_simp
  from endpoint_serves_owner [OF this] obtain i token ct' exp pre post where
    "''/creds/s'' = CredPath @ i" "[OpRegister ''s'' ''t'' ''{}'' [] 9] = pre @ OpRegister i token ''{}'' ct' exp # post"
    "token \<noteq> []" "5 < exp" by auto
  then show ?thesis by blast
qed

subsection \<open>SSH keys\<close>

text \<open>A path does not resolve to the workspace or below it, by what the file system answers.\<close>

definition outside :: "ssh_host \<Rightarrow> string \<Rightarrow> string \<Rightarrow> bool" where
  "outside h dir path =
     (case (EvalSymlinks h dir, EvalSymlinks h path) of
        (Inr None, _) \<Rightarrow> True
      | (Inr (Some root), Inr (Some real)) \<Rightarrow> real \<noteq> root \<and> root \<noteq> ''/'' \<and> \<not> has_prefix real (root @ ''/'')
      | (Inr (Some root), Inr None) \<Rightarrow>
          path_clean path \<noteq> root \<and> root \<noteq> ''/'' \<and> \<not> has_prefix (path_clean path) (root @ ''/'')
      | _ \<Rightarrow> False)"

fun agents_left :: "string list \<Rightarrow> ssh_act list \<Rightarrow> string list" where
  "agents_left ds [] = ds"
| "agents_left ds (StartAgent sock # acts) = agents_left (sock # ds) acts"
| "agents_left ds (StopAgent dir # acts) = agents_left (removeAll (dir @ ''/agent.sock'') ds) acts"
| "agents_left ds (_ # acts) = agents_left ds acts"

lemma ValidateSpec_hosts: "ValidateSpec s = None \<Longrightarrow> list_all (\<lambda>x. validateHost x = None) (Hosts s)"
  by (auto simp: ValidateSpec_def list_all_iff find_None_iff split: if_splits option.splits dest: find_SomeD)

lemma pathInside_outside:
  "\<lbrakk>dir \<noteq> []; path \<noteq> []; pathInside h dir path = Inr False\<rbrakk> \<Longrightarrow> outside h dir path"
  by (auto simp: pathInside_def outside_def below_def split: sum.splits option.splits)

text \<open>
  C21: An SSH key is loaded constrained or not at all. For a connection that the registry accepts, a key
  that is added to an agent is the one its ref resolves to, and it is added for exactly the connection's
  own hosts, of which there is at least one, against a known-hosts file that can be read and does not
  resolve into the workspace, by an OpenSSH of version 8.9 or later. An accepted build did just that, and
  what the sandbox gets is one variable, whose value is the path of the socket of the agent that holds the
  key; no agent outlives a failed build or the connection's closer.
\<close>

theorem ssh_key_is_constrained:
  assumes "Build DefaultRegistry s = Inr (SSHConnection s)" and "ssh_BuildForSession h getter s sc = (out, acts)"
  shows "(\<forall>sock key hosts kh. AddKey sock key hosts kh \<in> set acts \<longrightarrow>
      hosts = Hosts s \<and> hosts \<noteq> [] \<and> list_all (\<lambda>x. validateHost x = None) hosts \<and>
      kh = config_value s ''known_hosts_path'' \<and> StatOk h kh \<and> outside h (WorkspaceDir sc) kh \<and>
      (\<exists>major minor. SSHVersion h = Some (major, minor) \<and> (8 < major \<or> major = 8 \<and> 9 \<le> minor)) \<and>
      (\<exists>get. getter = Some get \<and> get (SecretRef s) = Some key)) \<and>
    (case out of
       Inl e \<Rightarrow> agents_left [] acts = []
     | Inr (ij, closer) \<Rightarrow>
         \<exists>dir key. TempDir h = Some dir \<and>
           acts = [StartAgent (dir @ ''/agent.sock''),
                   AddKey (dir @ ''/agent.sock'') key (Hosts s) (config_value s ''known_hosts_path'')] \<and>
           ij = \<lparr>InjEnv = [(''SSH_AUTH_SOCK'', dir @ ''/agent.sock'')], InjFiles = []\<rparr> \<and>
           agents_left [] (acts @ closer) = [])"
proof -
  have v: "ssh_Validate s = None"
    using assms(1) by (auto simp: Build_def DefaultRegistry_def split: option.splits if_splits)
  then have hosts: "Hosts s \<noteq> []" "list_all (\<lambda>x. validateHost x = None) (Hosts s)" "knownHostsPath s \<noteq> []"
    using ValidateSpec_hosts by (auto simp: ssh_Validate_def split: option.splits if_splits)
  show ?thesis
    using assms(2) hosts
    by (auto simp: ssh_BuildForSession_def ssh_start_agent_def ssh_cleanup_def Let_def knownHostsPath_def
        ssh_too_old_def minSSHMajor_def minSSHMinor_def
        split: if_splits option.splits sum.splits intro: pathInside_outside)
qed

definition bastion :: ConnectionSpec where
  "bastion = \<lparr>CName = ''bastion'', CKind = ''ssh'', CProjectID = [], CEnvironmentID = [], SecretRef = ''key'',
     Hosts = [''b.test''], Config = [(''known_hosts_path'', ''/etc/kh'')]\<rparr>"

definition ssh_demo_host :: ssh_host where
  "ssh_demo_host = \<lparr>EvalSymlinks = (\<lambda>p. Inr (Some p)), StatOk = (\<lambda>_. True), SSHVersion = Some (9, 6), TempDir = Some ''/tmp/a'',
     ChmodOk = True, AgentStarts = True, KeyLoads = (\<lambda>k. k = ''pem'')\<rparr>"

theorem ssh_key_is_constrained_witness:
  "AddKey ''/tmp/a/agent.sock'' ''pem'' [''b.test''] ''/etc/kh'' \<in> set (snd (ssh_BuildForSession ssh_demo_host
       (Some (\<lambda>_. Some ''pem'')) bastion \<lparr>CtxSession = ''s'', WorkspaceDir = ''/w'', ProxyAddr = [], ProxyCAPEM = []\<rparr>)) \<and>
   outside ssh_demo_host ''/w'' ''/etc/kh''"
proof -
  let ?sc = "\<lparr>CtxSession = ''s'', WorkspaceDir = ''/w'', ProxyAddr = [], ProxyCAPEM = []\<rparr>"
  have b: "Build DefaultRegistry bastion = Inr (SSHConnection bastion)" by code_simp
  obtain out acts where r: "ssh_BuildForSession ssh_demo_host (Some (\<lambda>_. Some ''pem'')) bastion ?sc = (out, acts)" by fastforce
  have a: "AddKey ''/tmp/a/agent.sock'' ''pem'' [''b.test''] ''/etc/kh'' \<in> set (snd (ssh_BuildForSession ssh_demo_host (Some (\<lambda>_. Some ''pem'')) bastion ?sc))"
    by code_simp
  then have "AddKey ''/tmp/a/agent.sock'' ''pem'' [''b.test''] ''/etc/kh'' \<in> set acts" using r by simp
  with ssh_key_is_constrained [OF b r] have "outside ssh_demo_host (WorkspaceDir ?sc) ''/etc/kh''" by blast
  with a show ?thesis by simp
qed

subsection \<open>Hosts with a port\<close>

lemma lower_char_colon: "lower_char c = CHR '':'' \<longleftrightarrow> c = CHR '':''"
proof (cases "65 \<le> (of_char c :: nat) \<and> (of_char c :: nat) \<le> 90")
  case True
  then have "(of_char (lower_char c) :: nat) = of_char c + 32" by (simp add: lower_char_def take_bit_nat_eq_self)
  then have "(of_char (lower_char c) :: nat) \<noteq> of_char (CHR '':'')" "(of_char c :: nat) \<noteq> of_char (CHR '':'')"
    using True by simp_all
  then have "lower_char c \<noteq> CHR '':''" "c \<noteq> CHR '':''" by metis+
  then show ?thesis by simp
next
  case False
  then have "lower_char c = c" unfolding lower_char_def by (rule if_not_P)
  then show ?thesis by simp
qed

lemma count_to_lower: "count_list (to_lower s) (CHR '':'') = count_list s (CHR '':'')"
  by (induction s) (auto simp: to_lower_def lower_char_colon)

lemma hostname_colons: "count_list (hostname h) (CHR '':'') \<noteq> 1"
proof -
  have "count_list (takeWhile (\<lambda>c. c \<noteq> CHR '':'') h) (CHR '':'') = 0" by (induction h) auto
  then show ?thesis by (simp add: hostname_def)
qed

lemma port_rule_never_matches:
  assumes "count_list (Host r) (CHR '':'') = 1"
  shows "\<not> rule_matches r md (to_lower (hostname host)) path"
proof -
  have "count_list (to_lower (to_lower (hostname host))) (CHR '':'') \<noteq> count_list (to_lower (Host r)) (CHR '':'')"
    using assms hostname_colons [of host] by (simp add: count_to_lower)
  then have "to_lower (to_lower (hostname host)) \<noteq> to_lower (Host r)" by metis
  then show ?thesis by (simp add: rule_matches_def equal_fold_def)
qed

text \<open>
  C39: A connection to \<open>host:port\<close> injects nothing, where the host is a name or an IPv4 address, so that
  the colon before the port is the only one. The validation of a connection accepts such a host, and the
  proxy compares a rule's host with the request's host name without its port; so, whatever other rules and
  connections the session has, there is no request, to any host and under any policy, that gets the
  header of such a connection. For a Kubernetes API on port 6443 this means no credential at all. A
  bracketed IPv6 address with a port has more colons and is left whole by the proxy: it is not meant here.
\<close>

theorem port_connection_never_injects:
  assumes "list_all (\<lambda>h. count_list h (CHR '':'') = 1) (Hosts (spec_of c))" and "Hosts (spec_of c) \<noteq> []"
  shows "case Inject (Decide (BuildConfig p (daemon_rules @ connectionEgressRules (cs1 @ c # cs2)) never) md host path) of
      None \<Rightarrow> True | Some r \<Rightarrow> r \<notin> set (connectionEgressRules [c])"
proof -
  have colon: "count_list (Host r) (CHR '':'') = 1" if "r \<in> set (connectionEgressRules [c])" for r
    using that assms(1,2) by (cases c) (auto simp: connectionEgressRules_def http_EgressRules_def kube_EgressRules_def list_all_iff)
  show ?thesis
    using port_rule_never_matches [OF colon] by (auto simp: Decide_def Let_def dest: find_SomeD split: option.split)
qed

definition cluster_6443 :: ConnectionSpec where
  "cluster_6443 = \<lparr>CName = ''prod'', CKind = ''kubernetes'', CProjectID = [], CEnvironmentID = [], SecretRef = ''tok'',
     Hosts = [''k8s.test:6443''], Config = []\<rparr>"

theorem port_connection_never_injects_witness:
  "Build DefaultRegistry cluster_6443 = Inr (KubernetesConnection cluster_6443) \<and>
   Inject (Decide (BuildConfig (granting [''tok'']) (connectionEgressRules [KubernetesConnection cluster_6443]) []) ''GET''
     ''k8s.test:6443'' ''/api'') = None"
proof
  let ?rules = "connectionEgressRules [KubernetesConnection cluster_6443]"
  let ?inject = "Inject (Decide (BuildConfig (granting [''tok'']) ?rules []) ''GET'' ''k8s.test:6443'' ''/api'')"
  show "Build DefaultRegistry cluster_6443 = Inr (KubernetesConnection cluster_6443)" by code_simp
  have "case ?inject of None \<Rightarrow> True | Some r \<Rightarrow> r \<notin> set ?rules"
    using port_connection_never_injects [of "KubernetesConnection cluster_6443" "granting [''tok'']" "[]" "[]" "[]" "[]"]
    by (simp add: cluster_6443_def)
  moreover have "case ?inject of None \<Rightarrow> True | Some r \<Rightarrow> r \<in> set ?rules"
    by (auto simp: Decide_def Let_def BuildConfig_def dest: find_SomeD split: option.split)
  ultimately show "?inject = None" by (simp split: option.splits)
qed

text \<open>Without an egress section in the daemon's configuration there is no proxy, and an http connection does nothing.\<close>

lemma build_each_http:
  "list_all (\<lambda>c. \<exists>s. c = HTTPConnection s) cs \<Longrightarrow> fst (build_each b g sc cs no_injection s) = Inr no_injection \<and>
     CredEnv (snd (build_each b g sc cs no_injection s)) = CredEnv s"
proof (induction cs arbitrary: s)
  case (Cons c cs)
  have "Merge no_injection no_injection = Inr no_injection" by (simp add: Merge_def no_injection_def env_entries_def)
  then show ?case using Cons by (auto simp: Let_def)
qed simp

lemma http_connection_needs_daemon_rules:
  assumes "CfgEgress cfg = None" "CfgInjector cfg = None" "CfgRegistry cfg = None"
    and "resolveConnections (CfgConnections cfg) s = Inr (cs, s')" "list_all (\<lambda>c. \<exists>x. c = HTTPConnection x) cs"
  shows "fst (fst (wire_session cfg h now a s srv)) = None" "CredEnv (fst (snd (wire_session cfg h now a s srv))) = CredEnv s'"
proof -
  let ?b = "build_each (BuildEnv h) (CfgGetter cfg) \<lparr>CtxSession = WId s', WorkspaceDir = WDir s', ProxyAddr = WProxyAddr s',
      ProxyCAPEM = WProxyCA s'\<rparr> cs no_injection s'"
  obtain t where b: "?b = (Inr no_injection, t)" "CredEnv t = CredEnv s'" using build_each_http [OF assms(5)] by (metis prod.collapse)
  have v: "ValidateInjection no_injection = None" "applyConnectionInjection h no_injection u = (None, u)" for u
    by (simp_all add: ValidateInjection_def no_injection_def applyConnectionInjection_def)
  have "fst (buildConnections h (CfgGetter cfg) cs s') = None \<and> CredEnv (snd (buildConnections h (CfgGetter cfg) cs s')) = CredEnv s'"
    using b v by (cases "cs = []") (simp_all add: buildConnections_def)
  then obtain u where "buildConnections h (CfgGetter cfg) cs s' = (None, u)" "CredEnv u = CredEnv s'" by (metis prod.collapse)
  then show "fst (fst (wire_session cfg h now a s srv)) = None" "CredEnv (fst (snd (wire_session cfg h now a s srv))) = CredEnv s'"
    using assms(1-4) by (simp_all add: wire_session_def injectCredentials_def injectEgressProxy_def injectRegistryProxy_def Let_def)
qed

subsection \<open>The AWS path\<close>

definition aws_lines :: "string \<Rightarrow> string \<Rightarrow> string \<Rightarrow> string list" where
  "aws_lines base sid token = [''AWS_CONTAINER_CREDENTIALS_FULL_URI='' @ trim_slashes base @ CredPath @ sid,
     ''AWS_CONTAINER_CREDENTIALS_TOKEN='' @ token]"

lemma inject_one_aws:
  assumes "Provider g = ''aws''" "ij = NewInjector J b server url ttl"
    and "inject_one ij now sid base token all g (si, srv) = (si2, srv2)"
  shows "set (SiEnv si2) \<subseteq> set (SiEnv si) \<union> set (aws_lines base sid token)" "i \<noteq> sid \<Longrightarrow> srv2 i = srv i"
    "srv2 sid \<noteq> srv sid \<Longrightarrow> \<exists>e. srv2 sid = Some e \<and> EToken e = token"
proof -
  obtain res evs where r: "broker_Resolve (Option.bind (InBackend ij) (\<lambda>b. b)) all (CredName g) = (res, evs)" by fastforce
  have ad: "adapterFor ij g = aws_adapter J" using assms(1,2) by (simp add: adapterFor_def NewInjector_def)
  have "set (SiEnv si2) \<subseteq> set (SiEnv si) \<union> set (aws_lines base sid token) \<and> (i \<noteq> sid \<longrightarrow> srv2 i = srv i) \<and>
    (srv2 sid \<noteq> srv sid \<longrightarrow> (\<exists>e. srv2 sid = Some e \<and> EToken e = token))"
  proof (cases res)
    case (Inl e)
    then show ?thesis using assms(3) by (auto simp: inject_one_def r)
  next
    case (Inr p)
    obtain x m where p: "p = (x, m)" by (cases p)
    show ?thesis
      using assms(3) by (auto simp: inject_one_def r Inr p ad aws_adapter_def aws_lines_def Let_def Register_def
          split: sum.splits if_splits)
  qed
  then show "set (SiEnv si2) \<subseteq> set (SiEnv si) \<union> set (aws_lines base sid token)" "i \<noteq> sid \<Longrightarrow> srv2 i = srv i"
    "srv2 sid \<noteq> srv sid \<Longrightarrow> \<exists>e. srv2 sid = Some e \<and> EToken e = token" by blast+
qed

lemma fold_inject_aws:
  assumes "list_all (\<lambda>g. Provider g = ''aws'') gs" "ij = NewInjector J b server url ttl"
  shows "fold (inject_one ij now sid base token all) gs (si, srv) = (si2, srv2) \<Longrightarrow>
    set (SiEnv si2) \<subseteq> set (SiEnv si) \<union> set (aws_lines base sid token) \<and> (\<forall>i. i \<noteq> sid \<longrightarrow> srv2 i = srv i) \<and>
    (srv2 sid \<noteq> srv sid \<longrightarrow> (\<exists>e. srv2 sid = Some e \<and> EToken e = token))"
  using assms(1)
proof (induction gs arbitrary: si srv)
  case (Cons g gs)
  obtain si1 srv1 where o: "inject_one ij now sid base token all g (si, srv) = (si1, srv1)" by fastforce
  have g: "Provider g = ''aws''" using Cons.prems by simp
  note one = inject_one_aws [OF g assms(2) o]
  have "fold (inject_one ij now sid base token all) gs (si1, srv1) = (si2, srv2)" using Cons.prems o by simp
  from Cons.IH [OF this] Cons.prems one show ?case by fastforce
qed simp

text \<open>
  What an AWS session learns: where to ask and the token to ask with, never a value; and its endpoint
  entry is the only one that changes.
\<close>

lemma aws_session_is_blind:
  assumes "list_all (\<lambda>g. Provider g = ''aws'') gs"
    and "InjectSessionEndpoint (Some (NewInjector J b server url ttl)) rand now sid gs endpoint srv = (Inr si, srv2)"
  shows "\<exists>base token. base \<in> {endpoint, []} \<and> set (SiEnv si) \<subseteq> set (aws_lines base sid token)" "i \<noteq> sid \<Longrightarrow> srv2 i = srv i"
proof -
  have "(\<exists>base token. base \<in> {endpoint, []} \<and> set (SiEnv si) \<subseteq> set (aws_lines base sid token)) \<and> (i \<noteq> sid \<longrightarrow> srv2 i = srv i)"
  proof (cases "gs = [] \<or> b = None")
    case True
    then show ?thesis using assms(2) by (auto simp: InjectSessionEndpoint_def NewInjector_def no_session_injection_def) blast+
  next
    case False
    then obtain token base where f: "fold (inject_one (NewInjector J b server url ttl) now sid base token gs) gs
        (no_session_injection, srv) = (si, srv2)" "base \<in> {endpoint, []}"
      using assms(2) by (auto simp: InjectSessionEndpoint_def Let_def NewInjector_def [of J b]
          split: option.splits prod.splits if_splits)
    from fold_inject_aws [OF assms(1) refl f(1)] show ?thesis
      using f(2) by (auto simp: no_session_injection_def)
  qed
  then show "\<exists>base token. base \<in> {endpoint, []} \<and> set (SiEnv si) \<subseteq> set (aws_lines base sid token)" "i \<noteq> sid \<Longrightarrow> srv2 i = srv i"
    by blast+
qed

end
