(* ===== verification/Broker_Secrets.thy ===== *)
theory Broker_Secrets
  imports Project_Service Broker_Connections Vault_Safety
begin

text \<open>
  \<^verbatim>\<open>internal/broker/consumers.go\<close>, \<^verbatim>\<open>consumers_sources.go\<close>, \<^verbatim>\<open>secrets_service.go\<close> and
  \<^verbatim>\<open>buildSecretsService\<close> of \<^verbatim>\<open>cmd/opslifyd/main.go\<close>: the index of what addresses a secret, and the
  operator's service over the vault, which deletes a secret only when nothing addresses it or the
  operator insists. The service is written against the interface \<^verbatim>\<open>SecretManager\<close>, a locale here.
\<close>

subsection \<open>The index of consumers\<close>

datatype consumer_kind = PolicyGrant | EgressInject | RegistryUpstream | ConsumerConnection

fun kind_text :: "consumer_kind \<Rightarrow> string" where
  "kind_text PolicyGrant = ''policy-grant''"
| "kind_text EgressInject = ''egress-inject''"
| "kind_text RegistryUpstream = ''registry-upstream''"
| "kind_text ConsumerConnection = ''connection''"

record Consumer =
  ConsKind :: consumer_kind
  ConsName :: string
  ConsScope :: string

definition consumer_text :: "Consumer \<Rightarrow> string" where
  "consumer_text c =
     kind_text (ConsKind c) @ '' '' @ ConsName c @ (if ConsScope c = [] then [] else '' ('' @ ConsScope c @ '')'')"

definition FormatConsumers :: "Consumer list \<Rightarrow> string" where
  "FormatConsumers cs = str_join '', '' (map consumer_text cs)"

text \<open>A source answers the consumers by ref, or an error.\<close>

type_synonym consumer_map = "(string \<times> Consumer) list"
type_synonym consumer_source = "string + consumer_map"

definition dedupeConsumers :: "Consumer list \<Rightarrow> Consumer list" where
  "dedupeConsumers cs = sort_key (kind_text \<circ> ConsKind) (sort_key ConsName (sort_key ConsScope (dedup [] cs)))"

fun merge_sources :: "consumer_source list \<Rightarrow> string + consumer_map" where
  "merge_sources [] = Inr []"
| "merge_sources (s # ss) = rbind s (\<lambda>m. rbind (merge_sources ss) (\<lambda>ms. Inr (m @ ms)))"

definition index_All :: "consumer_source list \<Rightarrow> string + (string \<Rightarrow> Consumer list)" where
  "index_All srcs =
     rbind (merge_sources srcs) (\<lambda>m. Inr (\<lambda>ref. dedupeConsumers (map snd (filter (\<lambda>p. fst p = ref) m))))"

definition index_Of :: "consumer_source list \<Rightarrow> string \<Rightarrow> string + Consumer list" where
  "index_Of srcs ref = rbind (index_All srcs) (\<lambda>f. Inr (f ref))"

subsection \<open>The sources\<close>

record EgressInjectRef =
  EgHost :: string
  EgRef :: string

record RegistryUpstreamRef =
  UpEcosystem :: string
  UpRef :: string

definition ConfigConsumers :: "EgressInjectRef list \<Rightarrow> RegistryUpstreamRef list \<Rightarrow> consumer_source" where
  "ConfigConsumers egress upstreams =
     Inr (map (\<lambda>r. (EgRef r, \<lparr>ConsKind = EgressInject, ConsName = EgHost r, ConsScope = []\<rparr>)) (filter (\<lambda>r. EgRef r \<noteq> []) egress) @
          map (\<lambda>u. (UpRef u, \<lparr>ConsKind = RegistryUpstream, ConsName = UpEcosystem u, ConsScope = []\<rparr>))
            (filter (\<lambda>u. UpRef u \<noteq> []) upstreams))"

record PolicyScope =
  ScopeLabel :: string
  ScopeGrants :: policy

definition scope_consumers :: "PolicyScope \<Rightarrow> consumer_map" where
  "scope_consumers sc =
     map (\<lambda>c. (CredName c, \<lparr>ConsKind = PolicyGrant, ConsName = (if Provider c = [] then ''grant'' else Provider c),
                ConsScope = ScopeLabel sc\<rparr>))
       (filter (\<lambda>c. CredName c \<noteq> []) (sl (Creds (ScopeGrants sc))))"

definition PolicyConsumers :: "PolicyScope list \<Rightarrow> consumer_source" where
  "PolicyConsumers scopes = Inr (concat (map scope_consumers scopes))"

definition ConnectionConsumers :: "ConnectionSpec list \<Rightarrow> consumer_source" where
  "ConnectionConsumers conns =
     Inr (map (\<lambda>c. (SecretRef c, \<lparr>ConsKind = ConsumerConnection, ConsName = CKind c @ '':'' @ CName c,
                ConsScope = (if CEnvironmentID c \<noteq> [] then CEnvironmentID c else CProjectID c)\<rparr>))
            (filter (\<lambda>c. SecretRef c \<noteq> []) conns))"

definition conn_Consumers :: "bool \<Rightarrow> connection_files \<Rightarrow> consumer_source" where
  "conn_Consumers readable fs =
     rbind (map_sum (\<lambda>e. ''read connection state dir'') (\<lambda>s. s) (conn_List readable fs)) ConnectionConsumers"

text \<open>The source of policy grants: the daemon's policy and that of every environment of every project.\<close>

fun env_scopes ::
  "(string \<Rightarrow> string) \<Rightarrow> parser \<Rightarrow> (string \<Rightarrow> read_result) \<Rightarrow> (string \<Rightarrow> string \<Rightarrow> string + layer list) option \<Rightarrow>
     policy \<Rightarrow> world \<Rightarrow> string \<Rightarrow> Environment list \<Rightarrow> string + PolicyScope list" where
  "env_scopes H parse fs edited base w pid [] = Inr []"
| "env_scopes H parse fs edited base w pid (e # es) =
     (case ResolveScope H parse fs edited base w pid (EID e) of
        Inl err \<Rightarrow> Inl ''scope does not resolve''
      | Inr sc \<Rightarrow> rbind (env_scopes H parse fs edited base w pid es) (\<lambda>ss.
          Inr (\<lparr>ScopeLabel = pid @ ''/'' @ EName e, ScopeGrants = ScopePolicy (ScResolved sc)\<rparr> # ss)))"

fun project_scopes ::
  "(string \<Rightarrow> string) \<Rightarrow> parser \<Rightarrow> (string \<Rightarrow> read_result) \<Rightarrow> (string \<Rightarrow> string \<Rightarrow> string + layer list) option \<Rightarrow>
     policy \<Rightarrow> world \<Rightarrow> Project list \<Rightarrow> string + PolicyScope list" where
  "project_scopes H parse fs edited base w [] = Inr []"
| "project_scopes H parse fs edited base w (p # ps) =
     (case Environments w (PID p) of
        Inl err \<Rightarrow> Inl ''environments''
      | Inr es \<Rightarrow>
          rbind (env_scopes H parse fs edited base w (PID p) es) (\<lambda>ss.
          rbind (project_scopes H parse fs edited base w ps) (\<lambda>rest. Inr (ss @ rest))))"

definition policy_source ::
  "(string \<Rightarrow> string) \<Rightarrow> parser \<Rightarrow> (string \<Rightarrow> read_result) \<Rightarrow> (string \<Rightarrow> string \<Rightarrow> string + layer list) option \<Rightarrow>
     policy \<Rightarrow> world \<Rightarrow> consumer_source" where
  "policy_source H parse fs edited base w =
     (case Projects w of
        Inl err \<Rightarrow> Inl ''projects''
      | Inr ps \<Rightarrow> rbind (project_scopes H parse fs edited base w ps) (\<lambda>scopes.
          PolicyConsumers (\<lparr>ScopeLabel = [], ScopeGrants = base\<rparr> # scopes)))"

text \<open>\<^verbatim>\<open>buildSecretsService\<close>: the three sources of a running daemon.\<close>

definition daemon_sources ::
  "(string \<Rightarrow> string) \<Rightarrow> parser \<Rightarrow> (string \<Rightarrow> read_result) \<Rightarrow> (string \<Rightarrow> string \<Rightarrow> string + layer list) option \<Rightarrow>
     policy \<Rightarrow> world \<Rightarrow> EgressInjectRef list \<Rightarrow> RegistryUpstreamRef list \<Rightarrow> bool \<Rightarrow> connection_files \<Rightarrow> consumer_source list" where
  "daemon_sources H parse fs edited base w egress upstreams readable conns =
     [ConfigConsumers egress upstreams, policy_source H parse fs edited base w, conn_Consumers readable conns]"

subsection \<open>The service (secrets\_service.go)\<close>

record secret_audit =
  AuAction :: string
  AuRef :: string
  AuProvider :: string
  AuConsumers :: nat

definition service_Consumers :: "consumer_source list option \<Rightarrow> string \<Rightarrow> string + Consumer list" where
  "service_Consumers index ref = (case index of None \<Rightarrow> Inr [] | Some srcs \<Rightarrow> index_Of srcs ref)"

definition known_consumers :: "consumer_source list option \<Rightarrow> string \<Rightarrow> Consumer list" where
  "known_consumers index ref = (case service_Consumers index ref of Inl e \<Rightarrow> [] | Inr cs \<Rightarrow> cs)"

definition find_meta :: "SecretMeta list \<Rightarrow> string \<Rightarrow> vault_error + SecretMeta" where
  "find_meta metas ref = (case List.find (\<lambda>m. Ref m = ref) metas of Some m \<Rightarrow> Inr m | None \<Rightarrow> Inl (NotFound ref))"

record SecretView =
  SvMeta :: SecretMeta
  SvConsumers :: "Consumer list"
  SvInUse :: bool

text \<open>The operations take the vault's own as arguments: \<open>listing\<close>, \<open>del\<close>, \<open>upd\<close> and \<open>ups\<close>.\<close>

definition service_List ::
  "('v \<Rightarrow> SecretMeta list) \<Rightarrow> consumer_source list option \<Rightarrow> 'v \<Rightarrow> string + SecretView list" where
  "service_List listing index v =
     rbind (case index of None \<Rightarrow> Inr (\<lambda>ref. []) | Some srcs \<Rightarrow> index_All srcs) (\<lambda>byRef.
       Inr (map (\<lambda>m. \<lparr>SvMeta = m, SvConsumers = byRef (Ref m), SvInUse = (byRef (Ref m) \<noteq> [])\<rparr>) (listing v)))"

definition service_Rotate ::
  "('v \<Rightarrow> SecretMeta list) \<Rightarrow> (string \<Rightarrow> string \<Rightarrow> PutMeta \<Rightarrow> 'v \<Rightarrow> vault_error option \<times> 'v) option \<Rightarrow>
     consumer_source list option \<Rightarrow> string \<Rightarrow> string \<Rightarrow> PutMeta \<Rightarrow> 'v \<Rightarrow> (vault_error option \<times> secret_audit list) \<times> 'v" where
  "service_Rotate listing upd index ref val meta v =
     (case upd of
        None \<Rightarrow> ((Some (Denied ''this secret backend does not support atomic rotation''), []), v)
      | Some u \<Rightarrow>
          (case u ref val meta v of
             (Some e, v) \<Rightarrow> ((Some e, []), v)
           | (None, v) \<Rightarrow>
               let prov = (case find_meta (listing v) ref of Inr m \<Rightarrow> MetaProvider m | Inl e \<Rightarrow> PutProvider meta)
               in ((None, [\<lparr>AuAction = ''rotate'', AuRef = ref, AuProvider = prov,
                             AuConsumers = length (known_consumers index ref)\<rparr>]), v)))"

definition service_Upsert ::
  "(string \<Rightarrow> string \<Rightarrow> PutMeta \<Rightarrow> 'v \<Rightarrow> (vault_error + SecretMeta \<times> bool) \<times> 'v) option \<Rightarrow>
     consumer_source list option \<Rightarrow> string \<Rightarrow> string \<Rightarrow> PutMeta \<Rightarrow> 'v \<Rightarrow>
     ((vault_error + SecretMeta \<times> bool) \<times> secret_audit list) \<times> 'v" where
  "service_Upsert ups index ref val meta v =
     (case ups of
        None \<Rightarrow> ((Inl (Denied ''this secret backend does not support atomic upsert''), []), v)
      | Some u \<Rightarrow>
          (case u ref val meta v of
             (Inl e, v) \<Rightarrow> ((Inl e, []), v)
           | (Inr (stored, replaced), v) \<Rightarrow>
               ((Inr (stored, replaced), [\<lparr>AuAction = (if replaced then ''rotate'' else ''create''), AuRef = ref,
                   AuProvider = MetaProvider stored, AuConsumers = length (known_consumers index ref)\<rparr>]), v)))"

datatype delete_error = VaultErr vault_error | IndexErr string | InUse "Consumer list"

definition service_Delete ::
  "('v \<Rightarrow> SecretMeta list) \<Rightarrow> (string \<Rightarrow> 'v \<Rightarrow> vault_error option \<times> 'v) \<Rightarrow> consumer_source list option \<Rightarrow>
     string \<Rightarrow> bool \<Rightarrow> 'v \<Rightarrow> (delete_error option \<times> Consumer list \<times> secret_audit list) \<times> 'v" where
  "service_Delete listing del index ref force v =
     (case find_meta (listing v) ref of
        Inl e \<Rightarrow> ((Some (VaultErr e), [], []), v)
      | Inr m \<Rightarrow>
          (case service_Consumers index ref of
             Inl e \<Rightarrow>
               if \<not> force then ((Some (IndexErr e), [], []), v)
               else (case del ref v of
                   (Some e, v) \<Rightarrow> ((Some (VaultErr e), [], []), v)
                 | (None, v) \<Rightarrow> ((None, [], [\<lparr>AuAction = ''delete'', AuRef = ref, AuProvider = [], AuConsumers = 0\<rparr>]), v))
           | Inr cs \<Rightarrow>
               if cs \<noteq> [] \<and> \<not> force then ((Some (InUse cs), cs, []), v)
               else (case del ref v of
                   (Some e, v) \<Rightarrow> ((Some (VaultErr e), cs, []), v)
                 | (None, v) \<Rightarrow> ((None, cs, [\<lparr>AuAction = ''delete'', AuRef = ref, AuProvider = [], AuConsumers = length cs\<rparr>]), v))))"

subsection \<open>The interface of a secret store\<close>

text \<open>
  What the service needs of a store: a listing of exactly what is stored, a deletion that removes one
  ref and reports one that is absent, and an update that never creates.
\<close>

locale secret_manager =
  fixes holds :: "'v \<Rightarrow> string \<Rightarrow> 'r option"
    and wf :: "'v \<Rightarrow> bool"
    and listing :: "'v \<Rightarrow> SecretMeta list"
    and del :: "string \<Rightarrow> 'v \<Rightarrow> vault_error option \<times> 'v"
    and upd :: "string \<Rightarrow> string \<Rightarrow> PutMeta \<Rightarrow> 'v \<Rightarrow> vault_error option \<times> 'v"
  assumes listed: "wf v \<Longrightarrow> Ref ` set (listing v) = dom (holds v)"
    and del_absent: "holds v ref = None \<Longrightarrow> del ref v = (Some (NotFound ref), v)"
    and del_removes: "holds v ref \<noteq> None \<Longrightarrow> holds (snd (del ref v)) = (holds v)(ref := None)"
    and del_wf: "wf v \<Longrightarrow> wf (snd (del ref v))"
    and upd_others: "dom (holds (snd (upd ref x meta v))) = dom (holds v) \<and>
      (\<forall>r. r \<noteq> ref \<longrightarrow> holds (snd (upd ref x meta v)) r = holds v r)"
    and upd_absent: "holds v ref = None \<Longrightarrow> fst (upd ref x meta v) \<noteq> None"
begin

lemma find_meta_iff: "wf v \<Longrightarrow> isl (find_meta (listing v) ref) \<longleftrightarrow> holds v ref = None"
proof -
  assume "wf v"
  then have "(\<exists>m\<in>set (listing v). Ref m = ref) \<longleftrightarrow> ref \<in> dom (holds v)" using listed [of v] by (metis imageE imageI)
  then show ?thesis
    by (auto simp: find_meta_def find_None_iff find_Some_iff domIff split: option.split)
qed

text \<open>A deletion removes its ref or nothing, and leaves every other secret.\<close>

lemma delete_effect:
  assumes "wf v"
  shows "holds (snd (service_Delete listing del index ref force v)) \<in> {holds v, (holds v)(ref := None)}"
    "wf (snd (service_Delete listing del index ref force v))"
  using assms del_wf del_removes find_meta_iff [OF assms, of ref]
  by (auto simp: service_Delete_def split: sum.split prod.split option.split dest: arg_cong [where f = snd]) (metis snd_conv)+

lemma delete_success:
  assumes "wf v" "fst (service_Delete listing del index ref force v) = (None, cs, au)"
  shows "holds v ref \<noteq> None \<and> holds (snd (service_Delete listing del index ref force v)) = (holds v)(ref := None) \<and>
    (force \<or> service_Consumers index ref = Inr [])"
  using assms del_removes [of v ref] find_meta_iff [OF assms(1), of ref]
  by (auto simp: service_Delete_def split: sum.splits prod.splits option.splits if_splits)

lemma delete_unforced:
  assumes "service_Consumers index ref \<noteq> Inr []"
  shows "fst (fst (service_Delete listing del index ref False v)) \<noteq> None"
    "snd (service_Delete listing del index ref False v) = v"
  using assms by (auto simp: service_Delete_def split: sum.split)

lemma rotate_keeps_refs:
  "dom (holds (snd (service_Rotate listing (Some upd) index ref x meta v))) = dom (holds v)"
  "holds v ref = None \<Longrightarrow> fst (fst (service_Rotate listing (Some upd) index ref x meta v)) \<noteq> None"
proof -
  have "snd (service_Rotate listing (Some upd) index ref x meta v) = snd (upd ref x meta v)"
    by (simp add: service_Rotate_def Let_def split: prod.split option.split)
  then show "dom (holds (snd (service_Rotate listing (Some upd) index ref x meta v))) = dom (holds v)"
    using upd_others [of ref x meta v] by simp
  show "fst (fst (service_Rotate listing (Some upd) index ref x meta v)) \<noteq> None" if "holds v ref = None"
    using upd_absent [OF that, of x meta] by (auto simp: service_Rotate_def Let_def split: prod.split option.split)
qed

end

text \<open>The vault provides it, on its stored records: no key is needed to know what is stored.\<close>

definition refs_ok :: "vault \<Rightarrow> bool" where
  "refs_ok v \<longleftrightarrow> distinct (map fst (Secrets v)) \<and> list_all (\<lambda>p. Ref (VMeta (snd p)) = fst p) (Secrets v)"

lemma refs_ok_vault: "vault_ok A v \<Longrightarrow> refs_ok v"
  by (auto simp: refs_ok_def vault_ok_def record_ok_def list_all_iff)

lemma persist_vault: "fst (snd (persist io st)) = fst st"
  by (rule persist_result(2))

lemma writeLocked_Secrets:
  "Secrets (fst (snd (writeLocked A io now r ref x meta st))) = Secrets (fst st) \<or>
   (\<exists>rec. Secrets (fst (snd (writeLocked A io now r ref x meta st))) = al_put ref rec (Secrets (fst st)) \<and> Ref (VMeta rec) = ref)"
  by (auto simp: writeLocked_def Let_def persist_vault merge_meta_def split: option.split sum.split prod.split)

interpretation vsm: secret_manager "\<lambda>st. map_of (Secrets (fst st))" "\<lambda>st. refs_ok (fst st)" "\<lambda>st. vault_List (fst st)"
    "vault_Delete io" "vault_Update A io now r" for A io now r
proof
  fix st :: vstate and ref x meta
  show "Ref ` set (vault_List (fst st)) = dom (map_of (Secrets (fst st)))" if "refs_ok (fst st)"
    using that by (force simp: vault_List_def refs_ok_def list_all_iff metaOf_def dom_map_of_conv_image_fst)
  show "vault_Delete io ref st = (Some (NotFound ref), st)" if "map_of (Secrets (fst st)) ref = None"
    using that by (simp add: vault_Delete_def case_prod_beta)
  show "map_of (Secrets (fst (snd (vault_Delete io ref st)))) = (map_of (Secrets (fst st)))(ref := None)"
    if "map_of (Secrets (fst st)) ref \<noteq> None"
    using that by (auto simp: vault_Delete_def case_prod_beta persist_vault)
  show "refs_ok (fst (snd (vault_Delete io ref st)))" if "refs_ok (fst st)"
    using that by (simp add: vault_Delete_def case_prod_beta persist_vault refs_ok_def distinct_al_del) (auto simp: al_del_def list_all_iff)
  show "dom (map_of (Secrets (fst (snd (vault_Update A io now r ref x meta st))))) = dom (map_of (Secrets (fst st))) \<and>
      (\<forall>s. s \<noteq> ref \<longrightarrow> map_of (Secrets (fst (snd (vault_Update A io now r ref x meta st)))) s = map_of (Secrets (fst st)) s)"
    using writeLocked_Secrets [of A io now r ref x meta st]
    by (auto simp: vault_Update_def putLocked_def Let_def split: option.split if_splits)
  show "fst (vault_Update A io now r ref x meta st) \<noteq> None" if "map_of (Secrets (fst st)) ref = None"
    using that by (simp add: vault_Update_def putLocked_def split: option.split)
qed

end
