(* ===== verification/Secret_Safety.thy ===== *)
theory Secret_Safety
  imports Broker_Secrets
begin

text \<open>
  Properties of the operator's secrets service over the vault and the daemon's three sources of
  consumers: what an unforced deletion guarantees, and the one gap in what it can see.
\<close>

lemma dedupeConsumers_Nil [simp]: "dedupeConsumers cs = [] \<longleftrightarrow> cs = []"
proof -
  have "set (dedupeConsumers cs) = set cs" by (simp add: dedupeConsumers_def)
  then show ?thesis by (metis set_empty)
qed

lemma merge_sources_Inr:
  "merge_sources ss = Inr m \<Longrightarrow> s \<in> set ss \<Longrightarrow> \<exists>ms. s = Inr ms \<and> set ms \<subseteq> set m"
  by (induction ss arbitrary: m) (fastforce simp: rbind_Inr_iff)+

lemma unused_everywhere:
  assumes "service_Consumers (Some srcs) ref = Inr []" "s \<in> set srcs"
  shows "\<exists>ms. s = Inr ms \<and> (\<forall>c. (ref, c) \<notin> set ms)"
proof -
  obtain m where m: "merge_sources srcs = Inr m" "filter (\<lambda>p. fst p = ref) m = []"
    using assms(1) by (auto simp: service_Consumers_def index_Of_def index_All_def rbind_Inr_iff)
  then obtain ms where "s = Inr ms" "set ms \<subseteq> set m" using merge_sources_Inr assms(2) by blast
  moreover have "(ref, c) \<notin> set m" for c using m(2) by (force simp: filter_empty_conv)
  ultimately show ?thesis by blast
qed

text \<open>Every environment of every project is among the scopes, or there is no answer.\<close>

definition scope_of ::
  "(string \<Rightarrow> string) \<Rightarrow> parser \<Rightarrow> (string \<Rightarrow> read_result) \<Rightarrow> (string \<Rightarrow> string \<Rightarrow> string + layer list) option \<Rightarrow>
     policy \<Rightarrow> world \<Rightarrow> string \<Rightarrow> PolicyScope list \<Rightarrow> Environment \<Rightarrow> bool" where
  "scope_of H parse fs edited base w pid ss e =
     (case ResolveScope H parse fs edited base w pid (EID e) of
        Inl err \<Rightarrow> False
      | Inr sc \<Rightarrow> ScopePolicy (ScResolved sc) \<in> ScopeGrants ` set ss)"

lemma scope_of_mono: "scope_of H parse fs edited base w pid ss e \<Longrightarrow> set ss \<subseteq> set ts \<Longrightarrow> scope_of H parse fs edited base w pid ts e"
  by (auto simp: scope_of_def split: sum.splits)

lemma env_scopes_complete:
  "env_scopes H parse fs edited base w pid es = Inr ss \<Longrightarrow> e \<in> set es \<Longrightarrow> scope_of H parse fs edited base w pid ss e"
  by (induction es arbitrary: ss) (fastforce simp: rbind_Inr_iff scope_of_def split: sum.splits)+

lemma project_scopes_complete:
  "project_scopes H parse fs edited base w ps = Inr ss \<Longrightarrow> p \<in> set ps \<Longrightarrow>
     \<exists>es. Environments w (PID p) = Inr es \<and> (\<forall>e\<in>set es. scope_of H parse fs edited base w (PID p) ss e)"
proof (induction ps arbitrary: ss)
  case (Cons q ps)
  obtain es s1 s2 where q: "Environments w (PID q) = Inr es" "env_scopes H parse fs edited base w (PID q) es = Inr s1"
      "project_scopes H parse fs edited base w ps = Inr s2" "ss = s1 @ s2"
    using Cons.prems(1) by (auto simp: rbind_Inr_iff split: sum.splits)
  have "\<forall>e\<in>set es. scope_of H parse fs edited base w (PID q) ss e"
    using env_scopes_complete [OF q(2)] scope_of_mono q(4) by fastforce
  moreover have "\<exists>es. Environments w (PID p) = Inr es \<and> (\<forall>e\<in>set es. scope_of H parse fs edited base w (PID p) ss e)" if "p \<in> set ps"
    using Cons.IH [OF q(3) that] scope_of_mono q(4) by fastforce
  ultimately show ?case using q(1) Cons.prems(2) by auto
qed simp

definition ungranted :: "string \<Rightarrow> policy \<Rightarrow> bool" where
  "ungranted ref p \<longleftrightarrow> ref \<notin> CredName ` set (sl (Creds p))"

lemma scope_consumers_ungranted:
  "(\<forall>c. (ref, c) \<notin> set (scope_consumers sc)) \<Longrightarrow> ref \<noteq> [] \<Longrightarrow> ungranted ref (ScopeGrants sc)"
  by (auto simp: scope_consumers_def ungranted_def)

lemma Environments_mem:
  assumes "Environments w pid = Inr es"
  shows "e \<in> set es \<longleftrightarrow> (\<exists>j. (j, Good e) \<in> set (Envs w)) \<and> EProjectID e = orDefault pid"
proof -
  obtain xs where "LoadEnvironments w = Inr xs" "es = filter (\<lambda>e. EProjectID e = orDefault pid) xs"
    using assms by (auto simp: Environments_def environmentsLocked_def rbind_Inr_iff split: sum.splits)
  then show ?thesis using load_records_mem [of "''environment''" EID "Envs w" xs] by (auto simp: LoadEnvironments_def)
qed

text \<open>
  C22: Nothing that works loses its secret. When the secrets service of the daemon deletes a ref
  without being forced, that ref and no other is gone from the vault, and nothing addresses it: no
  egress rule and no registry upstream of the configuration, no credential grant of the daemon's
  policy, no grant in the resolved policy of any environment of any project of which the records
  parse (each of those was resolved: one that does not resolve refuses the deletion, and so does a
  project file that cannot be read), and no stored connection that can be read. A project or an
  environment whose record is there but does not parse is skipped by the store: its grants are not
  counted.
\<close>

theorem secret_delete_is_guarded:
  assumes "refs_ok (fst st)" "ref \<noteq> []"
    and "service_Delete (\<lambda>st. vault_List (fst st)) (vault_Delete io)
           (Some (daemon_sources H parse fs edited base w egress upstreams readable conns)) ref False st = ((None, cs, au), st2)"
  shows "map_of (Secrets (fst st)) ref \<noteq> None \<and> map_of (Secrets (fst st2)) = (map_of (Secrets (fst st)))(ref := None) \<and>
    ref \<notin> EgRef ` set egress \<and> ref \<notin> UpRef ` set upstreams \<and> ungranted ref base \<and>
    Unreadable \<notin> snd ` set (Projs w) \<and>
    (\<forall>i p j e. (i, Good p) \<in> set (Projs w) \<and> (j, Good e) \<in> set (Envs w) \<and> EProjectID e = orDefault (PID p) \<longrightarrow>
       (\<exists>sc. ResolveScope H parse fs edited base w (PID p) (EID e) = Inr sc \<and> ungranted ref (ScopePolicy (ScResolved sc)))) \<and>
    readable \<and> (\<forall>i s. (i, Good s) \<in> set conns \<longrightarrow> SecretRef s \<noteq> ref)"
proof -
  let ?srcs = "daemon_sources H parse fs edited base w egress upstreams readable conns"
  have d: "map_of (Secrets (fst st)) ref \<noteq> None \<and> map_of (Secrets (fst st2)) = (map_of (Secrets (fst st)))(ref := None)"
    and none: "service_Consumers (Some ?srcs) ref = Inr []"
    using vsm.delete_success [OF assms(1), where io = io and index = "Some ?srcs" and ref = ref and force = False and cs = cs and au = au]
      assms(3) by simp_all
  have cfg: "ref \<notin> EgRef ` set egress \<and> ref \<notin> UpRef ` set upstreams"
    using unused_everywhere [OF none, of "ConfigConsumers egress upstreams"] assms(2)
    by (auto simp: daemon_sources_def ConfigConsumers_def)
  have con: "readable \<and> (\<forall>i s. (i, Good s) \<in> set conns \<longrightarrow> SecretRef s \<noteq> ref)"
    using unused_everywhere [OF none, of "conn_Consumers readable conns"] assms(2)
    by (cases readable) (fastforce simp: daemon_sources_def conn_Consumers_def conn_List_def ConnectionConsumers_def)+
  obtain ps ss where ps: "Projects w = Inr ps" "project_scopes H parse fs edited base w ps = Inr ss"
      "\<forall>c. (ref, c) \<notin> set (concat (map scope_consumers (\<lparr>ScopeLabel = [], ScopeGrants = base\<rparr> # ss)))"
    using unused_everywhere [OF none, of "policy_source H parse fs edited base w"]
    by (auto simp: daemon_sources_def policy_source_def PolicyConsumers_def rbind_Inr_iff split: sum.splits)
  have base: "ungranted ref base" and each: "ungranted ref (ScopeGrants sc)" if "sc \<in> set ss" for sc
    using ps(3) scope_consumers_ungranted [of ref "\<lparr>ScopeLabel = [], ScopeGrants = base\<rparr>"]
      scope_consumers_ungranted [of ref sc] assms(2) that by auto
  have scopes: "\<exists>es. Environments w (PID p) = Inr es \<and>
      (\<forall>e\<in>set es. \<exists>sc. ResolveScope H parse fs edited base w (PID p) (EID e) = Inr sc \<and> ungranted ref (ScopePolicy (ScResolved sc)))"
    if "p \<in> set ps" for p
    using project_scopes_complete [OF ps(2) that] each by (fastforce simp: scope_of_def split: sum.splits)
  have "\<exists>sc. ResolveScope H parse fs edited base w (PID p) (EID e) = Inr sc \<and> ungranted ref (ScopePolicy (ScResolved sc))"
    if "(i, Good p) \<in> set (Projs w)" "(j, Good e) \<in> set (Envs w)" "EProjectID e = orDefault (PID p)" for i p j e
  proof -
    have "p \<in> set ps"
      using load_records_mem [of "''project''" PID "Projs w" ps] ps(1) that(1) by (auto simp: Projects_def LoadProjects_def)
    from scopes [OF this] obtain es where es: "Environments w (PID p) = Inr es"
      "\<forall>e\<in>set es. \<exists>sc. ResolveScope H parse fs edited base w (PID p) (EID e) = Inr sc \<and> ungranted ref (ScopePolicy (ScResolved sc))"
      by blast
    have "e \<in> set es" using Environments_mem [OF es(1)] that(2,3) by blast
    with es(2) show ?thesis by blast
  qed
  moreover have "Unreadable \<notin> snd ` set (Projs w)"
    using ps(1) by (auto simp: Projects_def LoadProjects_def load_records_def split: if_splits)
  moreover have "ungranted ref base"
    using ps(3) scope_consumers_ungranted [of ref "\<lparr>ScopeLabel = [], ScopeGrants = base\<rparr>"] assms(2) by auto
  ultimately show ?thesis using d cfg con by blast
qed

definition api_connection :: ConnectionSpec where
  "api_connection = \<lparr>CName = ''api'', CKind = ''http'', CProjectID = [], CEnvironmentID = [], SecretRef = ''tok'',
     Hosts = [''a.test''], Config = []\<rparr>"

definition one_secret :: "string \<Rightarrow> vstate" where
  "one_secret ref = (fst staged_vault\<lparr>Secrets := [(ref, \<lparr>VMeta = meta_of ref [], WrappedDEK = [], SealedValue = []\<rparr>)]\<rparr>, Map.empty)"

definition demo_sources :: "connection_files \<Rightarrow> consumer_source list" where
  "demo_sources conns = daemon_sources id (\<lambda>_ _. Inr Default) (\<lambda>_. NotExist) None Default demo_world [] [] True conns"

lemma demo_ids: "safeRecordID k ''default'' = None" "safeRecordID k ''default.default'' = None"
  by (auto simp: safeRecordID_def path_base_plain)

lemma demo_listing:
  "Projects demo_world = Inr [default_project ''t0'']"
  "Environments demo_world ''default'' = Inr [default_environment ''t0'']"
  "resolve_ids demo_world ''default'' ''default.default'' = Inr (default_project ''t0'', default_environment ''t0'')"
  by (simp_all add: Projects_def LoadProjects_def load_records_def demo_world_def Environments_def find_project_def
      orDefault_def ValidateName_def nameRe_def name_head_def name_tail_def LoadProject_def load_record_def demo_ids
      environmentsLocked_def LoadEnvironments_def default_project_def default_environment_def resolve_ids_def
      resolveEnvironmentLocked_def environment_key_def envIDSeparator_def LoadEnvironment_def DefaultProjectID_def
      DefaultEnvironmentID_def DefaultEnvironmentName_def Let_def)

lemma demo_scopes: "policy_source id (\<lambda>_ _. Inr Default) (\<lambda>_. NotExist) None Default demo_world = Inr []"
proof -
  have ids: "PID (default_project t) = ''default''" "EID (default_environment t) = ''default.default''"
    "PolicyFile (default_project t) = []" "PolicyOverlay (default_environment t) = []" for t
    by (simp_all add: default_project_def default_environment_def DefaultProjectID_def DefaultEnvironmentID_def
        EnvironmentID_def DefaultEnvironmentName_def envIDSeparator_def)
  have p: "Creds (ScopePolicy (ResolvePolicy id Default [])) = None"
    by (simp add: ResolvePolicy_def ResolveDefault_def normalize_def sortedCreds_def Default_def Let_def)
  show ?thesis
    by (simp add: policy_source_def demo_listing ids ResolveScope_def file_layer_def edited_layers_def PolicyConsumers_def
        scope_consumers_def p) (simp add: Default_def)
qed

definition demo_delete :: "connection_files \<Rightarrow> string \<Rightarrow> (delete_error option \<times> Consumer list \<times> secret_audit list) \<times> vstate" where
  "demo_delete conns ref =
     service_Delete (\<lambda>st. vault_List (fst st)) (vault_Delete (\<lambda>_. True)) (Some (demo_sources conns)) ref False (one_secret ref)"

lemma demo_delete_unused:
  assumes "service_Consumers (Some (demo_sources conns)) ref = Inr []"
  shows "fst (demo_delete conns ref) = (None, [], [\<lparr>AuAction = ''delete'', AuRef = ref, AuProvider = [], AuConsumers = 0\<rparr>])"
proof -
  have meta: "find_meta (vault_List (fst (one_secret ref))) ref \<noteq> Inl e" for e
    by (simp add: find_meta_def vault_List_def one_secret_def staged_vault_def metaOf_def meta_of_def)
  have del: "fst (vault_Delete (\<lambda>_. True) ref (one_secret ref)) = None"
    by (simp add: vault_Delete_def one_secret_def staged_vault_def persist_def install_file_def persist_steps_def)
  show ?thesis
    using assms meta del by (auto simp: demo_delete_def service_Delete_def split: sum.split prod.split option.split)
qed

theorem secret_delete_is_guarded_witness:
  "map_of (Secrets (fst (one_secret ''old''))) ''old'' \<noteq> None \<and>
   map_of (Secrets (fst (snd (demo_delete [(''api'', Good api_connection)] ''old'')))) = Map.empty"
proof -
  have "service_Consumers (Some (demo_sources [(''api'', Good api_connection)])) ''old'' = Inr []"
    by (simp add: service_Consumers_def index_Of_def index_All_def demo_sources_def daemon_sources_def demo_scopes ConfigConsumers_def
        conn_Consumers_def conn_List_def ConnectionConsumers_def api_connection_def)
  then obtain st2 where run: "demo_delete [(''api'', Good api_connection)] ''old'' =
      ((None, [], [\<lparr>AuAction = ''delete'', AuRef = ''old'', AuProvider = [], AuConsumers = 0\<rparr>]), st2)"
    using demo_delete_unused by (metis prod.collapse)
  have ok: "refs_ok (fst (one_secret ''old''))" by (simp add: one_secret_def refs_ok_def staged_vault_def meta_of_def)
  have "''old'' \<noteq> []" by simp
  from secret_delete_is_guarded [OF ok this run [unfolded demo_delete_def demo_sources_def]] show ?thesis
    by (simp add: run) (simp add: one_secret_def)
qed

text \<open>
  C40: The gap in that guarantee. The consumers of a secret are listed from the connection records that
  can be read and parsed, and one that cannot is skipped with a line in the log; so whatever the other
  sources say, the service deletes, refuses and audits with an unreadable record of a connection exactly
  as if that connection did not exist.
\<close>

theorem unreadable_connection_not_counted:
  assumes "distinct (map fst conns)" "\<And>s. bad \<noteq> Good s"
  shows "service_Delete listing del (Some (daemon_sources H parse fs edited base w egress upstreams readable (al_put i bad conns))) ref force v =
    service_Delete listing del (Some (daemon_sources H parse fs edited base w egress upstreams readable (al_del i conns))) ref force v"
proof -
  have del: "al_del i c = c" if "i \<notin> fst ` set c" for c :: connection_files
    using that by (force simp: al_del_def intro: filter_True)
  have "concat (map (\<lambda>(i, f). case f of Good s \<Rightarrow> [s] | _ \<Rightarrow> []) (al_put i bad c)) =
      concat (map (\<lambda>(i, f). case f of Good s \<Rightarrow> [s] | _ \<Rightarrow> []) (al_del i c))" if "distinct (map fst c)" for c
    using that
  proof (induction c)
    case (Cons p c)
    then show ?case
      using assms(2) del [of c] by (cases p; cases bad) (auto simp: al_del_def)
  qed (use assms(2) in \<open>auto simp: al_del_def split: stored.split\<close>)
  then show ?thesis using assms(1) by (simp add: daemon_sources_def conn_Consumers_def conn_List_def)
qed

theorem unreadable_connection_not_counted_witness:
  "fst (fst (demo_delete [(''api'', Good api_connection)] ''tok'')) \<noteq> None \<and> fst (fst (demo_delete [(''api'', Corrupt)] ''tok'')) = None"
proof
  have "service_Consumers (Some (demo_sources [(''api'', Good api_connection)])) ''tok'' \<noteq> Inr []"
    by (auto dest: unused_everywhere [where s = "conn_Consumers True [(''api'', Good api_connection)]"]
        simp: demo_sources_def daemon_sources_def conn_Consumers_def conn_List_def ConnectionConsumers_def api_connection_def)
  then show "fst (fst (demo_delete [(''api'', Good api_connection)] ''tok'')) \<noteq> None"
    unfolding demo_delete_def by (rule vsm.delete_unforced)
  have "service_Consumers (Some (demo_sources [])) ''tok'' = Inr []"
    by (simp add: service_Consumers_def index_Of_def index_All_def demo_sources_def daemon_sources_def demo_scopes ConfigConsumers_def
        conn_Consumers_def conn_List_def ConnectionConsumers_def)
  then have "fst (fst (demo_delete [] ''tok'')) = None" by (simp add: demo_delete_unused)
  moreover have "demo_delete [(''api'', Corrupt)] ''tok'' = demo_delete [] ''tok''"
    using unreadable_connection_not_counted [of "[(''api'', Good api_connection)]" Corrupt, where i = "''api''"]
    by (simp add: demo_delete_def demo_sources_def al_del_def)
  ultimately show "fst (fst (demo_delete [(''api'', Corrupt)] ''tok'')) = None" by simp
qed

end
