(* ===== verification/Spec2Isabelle.thy ===== *)
theory Spec2Isabelle
  imports Policy_Load Policy_DryRun Policy_Classify Policy_Scope Trace_Recovery Change_Service Session_Safety Ssh_Proxy
    Policy_Edit Trace_Redact Egress_Proxy Net_Control Warm_Pool Project_Races Project_Toolchain Vault_Safety
    Sandbox_Safety Connection_Safety Secret_Safety
begin

text \<open>
  \<^bold>\<open>Verification library of the opslifyd daemon.\<close>

  opslifyd runs the commands of an AI agent in sandboxes: podman containers behind an nftables
  firewall, with a policy that decides which commands run, which are refused and which wait for a
  human, with a vault whose secrets the agent uses and does not see, and with a hash-chained log of
  what happened. This library models the daemon's own logic (\<^verbatim>\<open>src/daemon/internal\<close> and the parts of
  \<^verbatim>\<open>src/daemon/cmd/opslifyd\<close> that compose it; paths below are relative to \<^verbatim>\<open>src/daemon/internal\<close>) as
  functions of HOL and proves what makes it correct. Names are the source's wherever Isabelle allows
  them.

  \<^bold>\<open>How the parts work together.\<close> A session is created in a project and an environment
  (\<^verbatim>\<open>project\<close>). Its policy is the daemon's, narrowed by the layers of that scope and by the workspace's
  own file (\<^verbatim>\<open>policy\<close>). The manager (\<^verbatim>\<open>session\<close>) boots or claims a container, programs its firewall
  table (\<^verbatim>\<open>session/egress\<close>), gives it the credentials of its grants and connections (\<^verbatim>\<open>broker\<close>), an
  egress proxy that adds secrets outside the sandbox (\<^verbatim>\<open>egressproxy\<close>) and a filtered SSH agent
  (\<^verbatim>\<open>sshagent\<close>), and opens its trace (\<^verbatim>\<open>trace\<close>). Each command is classified against the policy; one
  that needs approval is rewritten to a dry run, shown as a change (\<^verbatim>\<open>change\<close>) and run when a human
  approves. Edits of the policy (\<^verbatim>\<open>policyedit\<close>) that widen it take the same road. The end of a session
  denies its gates, seals its trace and removes what it had.
\<close>

section \<open>Theories and the code they model\<close>

text \<open>
  \<^bold>\<open>Foundations.\<close>
  \<^item> \<open>Ops_Prelude\<close>: Go strings as byte lists, the functions of \<^verbatim>\<open>strings\<close>, \<^verbatim>\<open>strconv\<close> and \<^verbatim>\<open>sort\<close> in use, results
    (\<open>error + value\<close>, \<open>rbind\<close>), association lists as Go maps and stores, and the named collections.
  \<^item> \<open>Go_Path\<close>, \<open>Go_Time\<close>, \<open>Go_Encoding\<close>, \<open>Go_Net\<close>, \<open>Go_Json\<close>: the part of the standard library that the
    daemon's decisions depend on: path cleaning, durations, hex and base64, host and port, JSON output.
    \<open>Go_Json.jenc_inj\<close> (the encoder is injective) carries the hashes of policies, events and changes.

  \<^bold>\<open>Policy\<close> (\<^verbatim>\<open>policy\<close>, \<^verbatim>\<open>project/policy.go\<close>, \<^verbatim>\<open>policyedit\<close>).
  \<^item> \<open>Policy_Model\<close> (\<^verbatim>\<open>policy.go\<close>, \<^verbatim>\<open>hash.go\<close>): the record, its canonical form and the hash, equal exactly on
    policies of one canonical form.
  \<^item> \<open>Policy_Resolve\<close> (\<^verbatim>\<open>resolve.go\<close>): the merge; \<open>narrows\<close> is the order of policies, and the locale
    \<open>narrowing_resolver\<close> the interface a chain of merges rests on.
  \<^item> \<open>Policy_Enforce\<close> (\<^verbatim>\<open>enforce.go\<close>), \<open>Policy_DryRun\<close> (\<^verbatim>\<open>dryrun.go\<close>), \<open>Policy_Load\<close> (\<^verbatim>\<open>load.go\<close>),
    \<open>Policy_Classify\<close> (\<^verbatim>\<open>classify.go\<close>): the verdict on a command, its preview, the parsing and validation of a
    policy file, and the direction of an edit.
  \<^item> \<open>Policy_Scope\<close>: the policy of a session as the chain of all layers, no wider than the daemon's, and the
    floors of tier and lifetime.
  \<^item> \<open>Policy_Edit\<close> (\<^verbatim>\<open>policyedit/service.go\<close>, \<^verbatim>\<open>edit.go\<close>, \<^verbatim>\<open>daemon/policyedit.go\<close>): submission and
    application of edits over the change service.

  \<^bold>\<open>Trace\<close> (\<^verbatim>\<open>trace\<close>).
  \<^item> \<open>Trace_Chain\<close> (\<^verbatim>\<open>event.go\<close>, \<^verbatim>\<open>verify.go\<close>): events, the chain, the seal and the verifier.
  \<^item> \<open>Trace_Sink\<close> (\<^verbatim>\<open>sink.go\<close>): the interface as the locale \<open>trace_sink\<close> and the in-memory sink.
  \<^item> \<open>Trace_Lines\<close>, \<open>Trace_File\<close>, \<open>Trace_Recovery\<close> (\<^verbatim>\<open>filesink.go\<close>, \<^verbatim>\<open>history.go\<close>): the bytes of a log file, the durable
    sink with its restart, and its refinement of the in-memory one.
  \<^item> \<open>Trace_Redact\<close> (\<^verbatim>\<open>redact.go\<close>, \<^verbatim>\<open>recorder.go\<close>): what a payload passes before it is hashed.

  \<^bold>\<open>Changes\<close> (\<^verbatim>\<open>change\<close>). \<open>Change_Model\<close>: the change, its status graph and the pin of its plan.
  \<open>Change_Service\<close>: the service over the locale \<open>change_store\<close>, interpreted on the file store.

  \<^bold>\<open>Commands\<close> (\<^verbatim>\<open>session/exec.go\<close>, \<^verbatim>\<open>trace.go\<close>, \<^verbatim>\<open>approval.go\<close>, \<^verbatim>\<open>manager.go\<close>).
  \<^item> \<open>Session_Exec\<close>: the output pumps under every interleaving, over the locales \<open>output_sink\<close>, \<open>reliable_sink\<close>
    and \<open>traced_sink\<close>.
  \<^item> \<open>Session_Approval\<close>: \<^verbatim>\<open>Exec\<close>, the gates and the parts of \<^verbatim>\<open>Destroy\<close>, reaper and shutdown that touch them,
    cut where the code gives up its locks. The recorder behind the output of a command is the parameter
    \<open>emit\<close> of \<open>Session_Exec\<close>.
  \<^item> \<open>Session_Gates\<close>: the step relation in which those pieces interleave, except that the classification
    of a command with its outcome, the run of an approved gate and \<^verbatim>\<open>Destroy\<close> are single steps there;
    \<open>Session_Safety\<close>: its properties.

  \<^bold>\<open>Sandboxes\<close> (\<^verbatim>\<open>session/manager.go\<close>, \<^verbatim>\<open>store.go\<close>, \<^verbatim>\<open>session.go\<close>, \<^verbatim>\<open>warm_pool.go\<close>).
  \<^item> \<open>Session_Lifecycle\<close>: admission, realize, registration and rollback, teardown, reaper, reconciliation,
    shutdown and named workspaces, over a host of containers, directories, tables and listeners. Each is
    one step of a run; a crash or another operation inside one is not modelled, and what a crash in the
    middle of a creation leaves is \<open>Sandbox_Safety.killed_creation_leaks\<close>.
  \<^item> \<open>Session_Sandboxes\<close>: the invariant \<open>life_inv\<close> and its preservation; \<open>Sandbox_Safety\<close>: the properties.
  \<^item> \<open>Warm_Pool\<close>: the pool as steps of claims, builders, drains and the closer, with the containers that a
    failed teardown leaves to nobody.

  \<^bold>\<open>Network\<close> (\<^verbatim>\<open>session/egress\<close>, \<^verbatim>\<open>egressproxy\<close>).
  \<^item> \<open>Net_Rules\<close> (\<^verbatim>\<open>ruleset.go\<close>): the table of a session, its text, and \<open>eval\<close>, the meaning of its chains.
  \<^item> \<open>Net_Control\<close> (\<^verbatim>\<open>resolver.go\<close>, \<^verbatim>\<open>controller.go\<close>): set-up, teardown and refresh against the kernel's
    tables. DNS answers may change with every refresh.
  \<^item> \<open>Egress_Policy\<close> (\<^verbatim>\<open>policy.go\<close>, \<^verbatim>\<open>sni.go\<close>) and \<open>Egress_Proxy\<close> (\<^verbatim>\<open>proxy.go\<close>, \<^verbatim>\<open>conn.go\<close>, \<^verbatim>\<open>anomaly.go\<close>): the
    decision on a request and the proxy that acts on it.

  \<^bold>\<open>Credentials\<close> (\<^verbatim>\<open>broker\<close>, \<^verbatim>\<open>sshagent\<close> and the wiring in \<^verbatim>\<open>session\<close>).
  \<^item> \<open>Broker_Resolve\<close> (\<^verbatim>\<open>resolve.go\<close>): the gated resolution with its audit events.
  \<^item> \<open>Broker_Keys\<close> (\<^verbatim>\<open>keysource.go\<close>), \<open>Broker_Vault\<close> (\<^verbatim>\<open>vault.go\<close>), \<open>Vault_Store\<close> and \<open>Vault_Safety\<close>: the vault refines
    a map (locale \<open>secret_backend\<close>), survives a restart and rotates its key atomically.
  \<^item> \<open>Broker_Connections\<close> (\<^verbatim>\<open>connection.go\<close>, \<^verbatim>\<open>connection_http.go\<close>, \<^verbatim>\<open>connection_kubernetes.go\<close>,
    \<^verbatim>\<open>connection_ssh.go\<close>, \<^verbatim>\<open>connection_store.go\<close>): the kinds of connections and their store.
  \<^item> \<open>Broker_Inject\<close> (\<^verbatim>\<open>inject.go\<close>, \<^verbatim>\<open>credserver.go\<close>, \<^verbatim>\<open>session/connections.go\<close>, \<^verbatim>\<open>egressinject.go\<close>,
    \<^verbatim>\<open>registryinject.go\<close>, \<^verbatim>\<open>netscope.go\<close>): what a new session is given; \<open>wire_session\<close> is the order of
    \<^verbatim>\<open>registerReady\<close>. \<open>Connection_Safety\<close>: what never reaches the sandbox.
  \<^item> \<open>Broker_Secrets\<close> (\<^verbatim>\<open>consumers.go\<close>, \<^verbatim>\<open>consumers_sources.go\<close>, \<^verbatim>\<open>secrets_service.go\<close>): the index of consumers
    and the guarded deletion over the locale \<open>secret_manager\<close>. \<open>Secret_Safety\<close>: what it guarantees.
  \<^item> \<open>Ssh_Agent\<close> (\<^verbatim>\<open>protocol.go\<close>) and \<open>Ssh_Proxy\<close> (\<^verbatim>\<open>proxy.go\<close>): the agent protocol on bytes and 32-bit words, and
    the filter between a sandbox and the daemon's agent.

  \<^bold>\<open>Projects\<close> (\<^verbatim>\<open>project\<close>). \<open>Project_Model\<close>, \<open>Project_Store\<close> (locale \<open>record_store\<close>), \<open>Project_Service\<close>: records,
  files and the service. \<open>Project_Removal\<close>, \<open>Project_Safety\<close> (locale \<open>sandboxes\<close>), \<open>Project_Races\<close>: the removals
  in one piece and interleaved. \<open>Project_Toolchain\<close>: the asynchronous build of a project's tools.
\<close>

section \<open>Conventions\<close>

text \<open>
  \<^bold>\<open>Data.\<close> A Go struct is a record, an enumeration a datatype, a Go string a list of bytes. A Go map is a
  function when only its contents matter and an association list when the code iterates over it; where
  the order of iteration is Go's random one, the list is arbitrary and the theorem holds for each. A
  slice that may be nil is an option (\<open>slice\<close>). Go's \<open>int\<close> and durations are integers, with the checks
  of overflow where the code or the library makes them; the wire formats of the agent protocol and of
  TLS are words and bytes of fixed width. Times are integers.

  \<^bold>\<open>Effects.\<close> Each method takes the state it changes and returns it. Errors are the left side of a sum;
  their constructors are those the code's callers distinguish. Whether a system call, the container
  engine or nft succeeds is an argument, so that a theorem covers every combination of failures. Code
  that gives up a lock in the middle is cut there, one function per section, where the theory says so;
  elsewhere an operation is one step. A theorem about a single
  call composes them in order; a theorem about concurrency is about a step relation or a list of steps
  that interleaves them arbitrarily.

  \<^bold>\<open>Parameters.\<close> What is not the daemon's code is an argument with its documented behaviour as a named
  hypothesis, each satisfied by an instance in a witness: SHA-256 (collision-freedom where a theorem
  says unique), Ed25519, AES-GCM (\<open>aead_ok\<close>: what was sealed opens), the YAML and JSON parsers, compiled
  regular expressions, DNS, TLS and HTTP transport, \<^verbatim>\<open>ssh-add\<close> (whether it takes a key is a function of the key), the upstream SSH agent, podman, nft and nix.

  \<^bold>\<open>Termination.\<close> Every function is total and there is no fuel anywhere: loops are structural
  recursions or have a measure, mostly the length of the input that is left (\<open>Ops_Prelude.trim_left\<close>,
  \<open>Go_Time.duration_groups\<close>, \<open>Egress_Policy.extension_list\<close>, \<open>Ssh_Proxy.serve\<close>). A server's loop runs over
  the finite input it is given or is a step of a relation. Lists, histories and interleavings are
  of any length; the only bounds are those of the code (caps, limits, retention).

  \<^bold>\<open>Lemmas.\<close> In each component: the laws of its operations, its invariant with one preservation lemma per
  operation, the interpretation of the locales it provides, then the properties, each with a witness
  that evaluates the code on a concrete input. Behaviour that a reader would not expect is proved as well
  and named for what it is, for example \<open>Trace_Recovery.torn_tail_poisons_log\<close>,
  \<open>Project_Races.removal_leaves_sandboxes\<close>, \<open>Session_Safety.gate_race_strands_session\<close>,
  \<open>Net_Control.refresh_resurrects_table\<close> and \<open>Policy_Edit.removing_last_host_opens_egress\<close>.
\<close>

section \<open>What is not modelled\<close>

text \<open>
  \<^item> The HTTP handlers (\<^verbatim>\<open>daemon\<close>, except the composition of policy edits), the client (\<^verbatim>\<open>cmd/opslify\<close>), the
    rest of \<^verbatim>\<open>cmd/opslifyd\<close> and the installer: they decode, call the services modelled here and encode.
  \<^item> Calls to the outside: the container runtime (\<^verbatim>\<open>session/runtime\<close>), the nft runner, the OpenSSH runner,
    token exchange with clouds and OAuth2 servers, the trace uploader, nix and devbox.
  \<^item> The certificate authority of the proxy (x509), TLS itself, and the copying of upgraded streams.
  \<^item> \<^verbatim>\<open>agents\<close>, \<^verbatim>\<open>agentcontext\<close>, \<^verbatim>\<open>memory\<close>, \<^verbatim>\<open>mcp\<close>, \<^verbatim>\<open>projectdoc\<close>, \<^verbatim>\<open>uiguard\<close>, \<^verbatim>\<open>wssync\<close> and the caching
    registry proxy (\<^verbatim>\<open>regproxy\<close>): convenience surfaces around the core; of the registry proxy only its
    routing into a session is here.
  \<^item> Log lines, metrics, and memory that is overwritten after use: they have no effect on a result.
\<close>

end
